(* ===== verification/Takt_Prelude.thy ===== *)
theory Takt_Prelude
  imports
    Complex_Main
    "HOL-Library.State_Monad"
    "HOL-Library.List_Lexorder"
    "HOL-Library.Char_ord"
begin

text \<open>
  Shared material of the development: the Go vocabulary the components use (errors, times and
  64-bit durations, substring tests), the state monad with a weakest-precondition calculus, the
  loop that stops at the first error, and a calculus for reflexive and transitive relations
  between the states before and after an operation.
\<close>

named_theorems wp_simps \<open>weakest preconditions of the combinators and the primitive operations\<close>
named_theorems frame_rules \<open>operations that stay within a relation between states\<close>
named_theorems takt_defs \<open>definitions a component unfolds together\<close>

section \<open>Go errors\<close>

text \<open>
  A Go error is a sentinel value, a message, or a message wrapping other errors with \<open>%w\<close>. The two
  sentinels the reconciler tests for with \<open>errors.Is\<close> are constructors of their own.
\<close>

datatype goerr =
    ErrImagePulling
  | errPaced
  | ErrMsg string
  | Wrapf string "goerr list"

fun errors_Is :: "goerr \<Rightarrow> goerr \<Rightarrow> bool" where
  "errors_Is (Wrapf m es) t \<longleftrightarrow> Wrapf m es = t \<or> list_ex (\<lambda>e. errors_Is e t) es"
| "errors_Is e t \<longleftrightarrow> e = t"

fun join_with :: "string \<Rightarrow> string list \<Rightarrow> string" where
  "join_with sep [] = []"
| "join_with sep [x] = x"
| "join_with sep (x # y # ys) = x @ sep @ join_with sep (y # ys)"

fun err_text :: "goerr \<Rightarrow> string" where
  "err_text ErrImagePulling = ''image pull in progress''"
| "err_text errPaced = ''start paced''"
| "err_text (ErrMsg m) = m"
| "err_text (Wrapf m es) =
     join_with '': '' ((if m = [] then [] else [m]) @ map err_text es)"

lemma errors_Is_Wrapf [simp]: "errors_Is e t \<Longrightarrow> errors_Is (Wrapf m [e]) t"
  by simp

section \<open>Results\<close>

lemma map_sum_eq_Inr: "map_sum f g x = Inr y \<longleftrightarrow> (\<exists>z. x = Inr z \<and> y = g z)"
  by (cases x) auto

lemma map_sum_eq_Inl: "map_sum f g x = Inl y \<longleftrightarrow> (\<exists>z. x = Inl z \<and> y = f z)"
  by (cases x) auto

section \<open>Times and durations\<close>

text \<open>
  A time is a number of nanoseconds since Go's zero time, so that \<open>IsZero\<close> is equality with 0. A
  duration is an \<open>int64\<close> number of nanoseconds, kept as an integer with the wrap-around written out
  where the code can reach it (\<open>wrap64\<close>); \<open>time.Sub\<close> saturates instead of wrapping.
\<close>

type_synonym time = int
type_synonym duration = int

definition wrap64 :: "int \<Rightarrow> int" where
  "wrap64 x = signed_take_bit 63 x"

definition maxDuration :: duration where
  "maxDuration = 2 ^ 63 - 1"

definition minDuration :: duration where
  "minDuration = - (2 ^ 63)"

definition time_Sub :: "time \<Rightarrow> time \<Rightarrow> duration" where
  "time_Sub t u = max minDuration (min maxDuration (t - u))"

abbreviation IsZero :: "time \<Rightarrow> bool" where
  "IsZero t \<equiv> t = 0"

abbreviation Second :: duration where
  "Second \<equiv> 1000000000"

abbreviation Minute :: duration where
  "Minute \<equiv> 60000000000"

lemma wrap64_id: "\<lbrakk>- (2 ^ 63) \<le> x; x < 2 ^ 63\<rbrakk> \<Longrightarrow> wrap64 x = x"
  unfolding wrap64_def by (rule signed_take_bit_int_eq_self) simp_all

lemma time_Sub_mono: "t \<le> t' \<Longrightarrow> time_Sub t u \<le> time_Sub t' u"
  by (auto simp: time_Sub_def)

lemma time_Sub_ge_iff:
  "\<lbrakk>minDuration < d; d \<le> maxDuration\<rbrakk> \<Longrightarrow> time_Sub t u \<ge> d \<longleftrightarrow> t - u \<ge> d"
  by (auto simp: time_Sub_def minDuration_def maxDuration_def)

section \<open>Lists\<close>

lemma find_filter: "find P xs = (case filter P xs of [] \<Rightarrow> None | x # _ \<Rightarrow> Some x)"
  by (induction xs) auto

lemma find_SomeD: "find P xs = Some x \<Longrightarrow> x \<in> set xs \<and> P x"
  by (induction xs) (auto split: if_splits)

section \<open>Substrings\<close>

text \<open>\<open>strings.HasPrefix\<close> and \<open>bytes.Contains\<close>.\<close>

fun HasPrefix :: "string \<Rightarrow> string \<Rightarrow> bool" where
  "HasPrefix xs [] = True"
| "HasPrefix [] (p # ps) = False"
| "HasPrefix (x # xs) (p # ps) = (x = p \<and> HasPrefix xs ps)"

fun Contains :: "string \<Rightarrow> string \<Rightarrow> bool" where
  "Contains [] p = (p = [])"
| "Contains (x # xs) p = (HasPrefix (x # xs) p \<or> Contains xs p)"

lemma HasPrefix_iff: "HasPrefix xs ps \<longleftrightarrow> (\<exists>ys. xs = ps @ ys)"
  by (induction xs ps rule: HasPrefix.induct) auto

lemma HasPrefix_append [simp]: "HasPrefix (ps @ ys) ps"
  by (simp add: HasPrefix_iff)

lemma Contains_iff: "Contains xs p \<longleftrightarrow> (\<exists>us vs. xs = us @ p @ vs)"
proof (induction xs)
  case Nil
  then show ?case by auto
next
  case (Cons x xs)
  show ?case
  proof
    assume "Contains (x # xs) p"
    then show "\<exists>us vs. x # xs = us @ p @ vs"
      using Cons.IH by (fastforce simp: HasPrefix_iff intro: exI [of _ "[]"] exI [of _ "x # _"])
  next
    assume "\<exists>us vs. x # xs = us @ p @ vs"
    then obtain us vs where eq: "x # xs = us @ p @ vs" by blast
    show "Contains (x # xs) p"
    proof (cases us)
      case Nil
      with eq have "HasPrefix (x # xs) p" by (metis HasPrefix_iff append_Nil)
      then show ?thesis by simp
    next
      case (Cons u us')
      with eq Cons.IH show ?thesis by auto
    qed
  qed
qed

section \<open>The state monad\<close>

text \<open>
  An operation that reads and writes the state of a component is a value of the library's state
  monad. \<open>wp m Q s\<close> says that running \<open>m\<close> from \<open>s\<close> ends in a result and a state that satisfy \<open>Q\<close>;
  every operation is a total function, so this is total correctness.
\<close>

abbreviation ret :: "'a \<Rightarrow> ('s, 'a) state" where
  "ret \<equiv> State_Monad.return"

definition gets :: "('s \<Rightarrow> 'a) \<Rightarrow> ('s, 'a) state" where
  "gets f = State (\<lambda>s. (f s, s))"

definition modify :: "('s \<Rightarrow> 's) \<Rightarrow> ('s, unit) state" where
  "modify f = State (\<lambda>s. ((), f s))"

definition wp :: "('s, 'a) state \<Rightarrow> ('a \<Rightarrow> 's \<Rightarrow> bool) \<Rightarrow> 's \<Rightarrow> bool" where
  "wp m Q s = (case run_state m s of (a, s') \<Rightarrow> Q a s')"

definition final :: "('s, 'a) state \<Rightarrow> 's \<Rightarrow> 's" where
  "final m s = snd (run_state m s)"

definition outcome :: "('s, 'a) state \<Rightarrow> 's \<Rightarrow> 'a" where
  "outcome m s = fst (run_state m s)"

lemma run_gets [simp]: "run_state (gets f) s = (f s, s)"
  by (simp add: gets_def)

lemma run_modify [simp]: "run_state (modify f) s = ((), f s)"
  by (simp add: modify_def)

lemma wp_return [wp_simps]: "wp (ret a) Q s = Q a s"
  by (simp add: wp_def)

lemma wp_bind [wp_simps]: "wp (State_Monad.bind m f) Q s = wp m (\<lambda>a. wp (f a) Q) s"
  by (simp add: wp_def split: prod.splits)

lemma wp_gets [wp_simps]: "wp (gets f) Q s = Q (f s) s"
  by (simp add: wp_def)

lemma wp_modify [wp_simps]: "wp (modify f) Q s = Q () (f s)"
  by (simp add: wp_def)

lemma wp_if [wp_simps]: "wp (if b then m else n) Q s = (if b then wp m Q s else wp n Q s)"
  by simp

lemma wp_Let [wp_simps]: "wp (Let x f) Q s = wp (f x) Q s"
  by simp

lemma wp_case_option [wp_simps]:
  "wp (case x of None \<Rightarrow> m | Some y \<Rightarrow> f y) Q s
     = (case x of None \<Rightarrow> wp m Q s | Some y \<Rightarrow> wp (f y) Q s)"
  by (cases x) simp_all

lemma wp_case_sum [wp_simps]:
  "wp (case x of Inl e \<Rightarrow> m e | Inr y \<Rightarrow> f y) Q s
     = (case x of Inl e \<Rightarrow> wp (m e) Q s | Inr y \<Rightarrow> wp (f y) Q s)"
  by (cases x) simp_all

lemma wp_case_prod [wp_simps]:
  "wp (case x of (a, b) \<Rightarrow> m a b) Q s = (case x of (a, b) \<Rightarrow> wp (m a b) Q s)"
  by (cases x) simp

lemma wp_mono: "wp m P s \<Longrightarrow> (\<And>a s'. P a s' \<Longrightarrow> Q a s') \<Longrightarrow> wp m Q s"
  by (auto simp: wp_def split: prod.splits)

lemma wp_iff_run: "wp m Q s \<longleftrightarrow> Q (outcome m s) (final m s)"
  by (simp add: wp_def outcome_def final_def split_beta)

lemma outcome_bind:
  "outcome (State_Monad.bind m f) s = outcome (f (outcome m s)) (final m s)"
  by (simp add: final_def outcome_def split_beta)

lemma final_bind: "final (State_Monad.bind m f) s = final (f (outcome m s)) (final m s)"
  by (simp add: final_def outcome_def split_beta)

lemma run_primitives [simp]:
  "outcome (ret a) s = a" "final (ret a) s = s"
  "outcome (gets f) s = f s" "final (gets f) s = s" "final (modify g) s = g s"
  by (simp_all add: outcome_def final_def)

lemma wpD: "wp m Q s \<Longrightarrow> run_state m s = (a, s') \<Longrightarrow> Q a s'"
  by (simp add: wp_def)

subsection \<open>Early returns\<close>

text \<open>
  Go's \<open>if err := f(); err != nil { return err }\<close>: an operation reporting an error is followed by
  the rest only when it reports none. \<open>wrap_err\<close> is the same with \<open>fmt.Errorf("...: %w", err)\<close>.
\<close>

type_synonym 's action = "('s, goerr option) state"

definition check_err :: "'s action \<Rightarrow> 's action \<Rightarrow> 's action" where
  "check_err m k = do { e \<leftarrow> m; case e of None \<Rightarrow> k | Some x \<Rightarrow> ret (Some x) }"

definition wrap_err :: "string \<Rightarrow> 's action \<Rightarrow> 's action" where
  "wrap_err msg m =
     do { e \<leftarrow> m; ret (case e of None \<Rightarrow> None | Some x \<Rightarrow> Some (Wrapf msg [x])) }"

lemma wp_check_err [wp_simps]:
  "wp (check_err m k) Q s
     = wp m (\<lambda>e s'. case e of None \<Rightarrow> wp k Q s' | Some x \<Rightarrow> Q (Some x) s') s"
  by (simp add: check_err_def wp_def split: prod.splits option.splits)

lemma wp_wrap_err [wp_simps]:
  "wp (wrap_err msg m) Q s
     = wp m (\<lambda>e. Q (case e of None \<Rightarrow> None | Some x \<Rightarrow> Some (Wrapf msg [x]))) s"
  by (simp add: wrap_err_def wp_def split: prod.splits)

subsection \<open>Loops\<close>

text \<open>A \<open>for\<close> loop whose body may return an error from the enclosing function, and one that cannot.\<close>

fun each_err :: "'a list \<Rightarrow> ('a \<Rightarrow> 's action) \<Rightarrow> 's action" where
  "each_err [] f = ret None"
| "each_err (x # xs) f = check_err (f x) (each_err xs f)"

fun each :: "'a list \<Rightarrow> ('a \<Rightarrow> ('s, unit) state) \<Rightarrow> ('s, unit) state" where
  "each [] f = ret ()"
| "each (x # xs) f = do { f x; each xs f }"

lemma wp_each_inv:
  assumes "I s" and "\<And>x s. x \<in> set xs \<Longrightarrow> I s \<Longrightarrow> wp (f x) (\<lambda>_. I) s"
  shows "wp (each xs f) (\<lambda>_. I) s"
  using assms
proof (induction xs arbitrary: s)
  case Nil
  then show ?case by (simp add: wp_simps)
next
  case (Cons x xs)
  then have "wp (f x) (\<lambda>_. I) s" by simp
  then have "wp (f x) (\<lambda>_. wp (each xs f) (\<lambda>_. I)) s"
    by (rule wp_mono) (simp add: Cons.IH Cons.prems(2))
  then show ?case by (simp add: wp_simps)
qed

text \<open>An operation that answers an error or a value, followed by one on the value.\<close>

definition and_then :: "('s, 'e + 'a) state \<Rightarrow> ('a \<Rightarrow> ('s, 'e + 'b) state) \<Rightarrow> ('s, 'e + 'b) state" where
  "and_then m f = State_Monad.bind m (\<lambda>r. case r of Inl e \<Rightarrow> ret (Inl e) | Inr a \<Rightarrow> f a)"

lemma wp_and_then [wp_simps]:
  "wp (and_then m f) Q s = wp m (\<lambda>r. case r of Inl e \<Rightarrow> Q (Inl e) | Inr a \<Rightarrow> wp (f a) Q) s"
  unfolding and_then_def wp_bind
  by (rule arg_cong [where f = "\<lambda>R. wp m R s"]) (auto simp: fun_eq_iff wp_simps split: sum.split)

lemma wp_then:
  assumes "wp m P s" "\<And>e s'. P (Inl e) s' \<Longrightarrow> Q (Inl e) s'" "\<And>a s'. P (Inr a) s' \<Longrightarrow> wp (f a) Q s'"
  shows "wp (and_then m f) Q s"
  unfolding wp_and_then by (rule wp_mono [OF assms(1)]) (use assms(2,3) in \<open>auto split: sum.split\<close>)

lemma run_and_then:
  "run_state (and_then m f) s
     = (case run_state m s of (Inl e, s') \<Rightarrow> (Inl e, s') | (Inr a, s') \<Rightarrow> run_state (f a) s')"
  by (simp add: and_then_def split: prod.split sum.split)

section \<open>Relations between the states before and after\<close>

text \<open>
  A frame is a reflexive and transitive relation between states. What every primitive operation
  keeps within the relation, every operation composed of them keeps too: the rules below carry
  that through the combinators, once for all frames.
\<close>

definition stays :: "('s \<Rightarrow> 's \<Rightarrow> bool) \<Rightarrow> ('s, 'a) state \<Rightarrow> bool" where
  "stays R m \<longleftrightarrow> (\<forall>s. R s (final m s))"

locale frame =
  fixes R :: "'s \<Rightarrow> 's \<Rightarrow> bool"
  assumes R_refl: "R s s"
    and R_trans: "R s t \<Longrightarrow> R t u \<Longrightarrow> R s u"
begin

lemma stays_ret: "stays R (ret a)"
  by (simp add: stays_def final_def R_refl)

lemma stays_gets: "stays R (gets f)"
  by (simp add: stays_def final_def R_refl)

lemma stays_modify: "(\<And>s. R s (f s)) \<Longrightarrow> stays R (modify f)"
  by (simp add: stays_def final_def)

lemma stays_bind_outcome:
  assumes "stays R m" and "\<And>s. stays R (f (outcome m s))"
  shows "stays R (State_Monad.bind m f)"
  unfolding stays_def
proof
  fix s
  have "R s (final m s)" using assms(1) by (simp add: stays_def)
  moreover have "R (final m s) (final (f (outcome m s)) (final m s))"
    using assms(2) by (simp add: stays_def)
  ultimately show "R s (final (State_Monad.bind m f) s)"
    by (auto simp: final_def outcome_def split_beta intro: R_trans)
qed

lemma stays_bind:
  assumes "stays R m" and "\<And>a. stays R (f a)"
  shows "stays R (State_Monad.bind m f)"
  using assms by (rule stays_bind_outcome)

lemma stays_if: "(b \<Longrightarrow> stays R m) \<Longrightarrow> (\<not> b \<Longrightarrow> stays R n) \<Longrightarrow> stays R (if b then m else n)"
  by simp

lemma stays_option:
  "stays R m \<Longrightarrow> (\<And>y. stays R (f y)) \<Longrightarrow> stays R (case x of None \<Rightarrow> m | Some y \<Rightarrow> f y)"
  by (cases x) simp_all

lemma stays_sum:
  "(\<And>e. stays R (m e)) \<Longrightarrow> (\<And>y. stays R (f y)) \<Longrightarrow>
     stays R (case x of Inl e \<Rightarrow> m e | Inr y \<Rightarrow> f y)"
  by (cases x) simp_all

lemma stays_prod: "(\<And>a b. stays R (f a b)) \<Longrightarrow> stays R (case x of (a, b) \<Rightarrow> f a b)"
  by (cases x) simp

lemma stays_Let: "(\<And>y. stays R (f y)) \<Longrightarrow> stays R (Let x f)"
  by simp

lemma stays_check_err: "stays R m \<Longrightarrow> stays R k \<Longrightarrow> stays R (check_err m k)"
  unfolding check_err_def by (intro stays_bind stays_option stays_ret)

lemma stays_wrap_err: "stays R m \<Longrightarrow> stays R (wrap_err msg m)"
  unfolding wrap_err_def by (intro stays_bind stays_ret)

lemma stays_each_err: "(\<And>x. x \<in> set xs \<Longrightarrow> stays R (f x)) \<Longrightarrow> stays R (each_err xs f)"
  by (induction xs) (simp_all add: stays_ret stays_check_err)

lemma stays_each: "(\<And>x. x \<in> set xs \<Longrightarrow> stays R (f x)) \<Longrightarrow> stays R (each xs f)"
  by (induction xs) (simp_all add: stays_ret stays_bind)

lemmas stays_rules =
  stays_bind stays_ret stays_gets stays_if stays_option stays_sum stays_prod
  stays_Let stays_check_err stays_wrap_err stays_each_err stays_each

end

lemma stays_final: "stays R m \<Longrightarrow> R s (final m s)"
  by (simp add: stays_def)

section \<open>Maps keyed by a slot\<close>

text \<open>
  What the reconciler remembers is keyed by a slot, one instance of one workload. Dropping every
  entry of a workload is the loop \<open>for key := range m { if key.workload == w { delete(m, key) } }\<close>.
\<close>

datatype slot = Slot (slot_workload: string) (slot_instance: int)

definition drop_workload :: "string \<Rightarrow> (slot \<rightharpoonup> 'v) \<Rightarrow> (slot \<rightharpoonup> 'v)" where
  "drop_workload w m = (\<lambda>k. if slot_workload k = w then None else m k)"

lemma drop_workload_apply [simp]:
  "drop_workload w m k = (if slot_workload k = w then None else m k)"
  by (simp add: drop_workload_def)

definition agree_off :: "string \<Rightarrow> (slot \<Rightarrow> 'v) \<Rightarrow> (slot \<Rightarrow> 'v) \<Rightarrow> bool" where
  "agree_off w m m' \<longleftrightarrow> (\<forall>k. slot_workload k \<noteq> w \<longrightarrow> m' k = m k)"

lemma agree_off_refl [simp]: "agree_off w m m"
  by (simp add: agree_off_def)

lemma agree_off_trans: "agree_off w m m' \<Longrightarrow> agree_off w m' m'' \<Longrightarrow> agree_off w m m''"
  by (simp add: agree_off_def)

lemma agree_off_upd [simp]: "agree_off w m (m(Slot w i := v))"
  by (auto simp: agree_off_def)

lemma agree_off_drop [simp]: "agree_off w m (drop_workload w m)"
  by (auto simp: agree_off_def)

section \<open>Comparing maps\<close>

text \<open>\<open>maps.Equal\<close>, over association lists.\<close>

definition maps_Equal :: "('k \<times> 'v) list \<Rightarrow> ('k \<times> 'v) list \<Rightarrow> bool" where
  "maps_Equal a b \<longleftrightarrow> list_all (\<lambda>k. map_of a k = map_of b k) (map fst a @ map fst b)"

lemma maps_Equal_iff: "maps_Equal a b \<longleftrightarrow> map_of a = map_of b"
proof
  assume eq: "maps_Equal a b"
  show "map_of a = map_of b"
  proof
    fix k
    show "map_of a k = map_of b k"
    proof (cases "k \<in> fst ` set a \<union> fst ` set b")
      case True
      then show ?thesis using eq by (auto simp: maps_Equal_def list_all_iff)
    next
      case False
      then have "map_of a k = None" "map_of b k = None" by (simp_all add: map_of_eq_None_iff)
      then show ?thesis by simp
    qed
  qed
qed (simp add: maps_Equal_def list_all_iff)

end
