(* ===== verification/Manifest_Reference.thy ===== *)
theory Manifest_Reference
  imports Takt_Prelude
begin

text \<open>
  References inside the values of a manifest (\<open>pkg/manifest/reference.go\<close>, with the name rules of
  \<open>pkg/manifest/manifest.go\<close>): \<open>ParseReferences\<close> and \<open>Expand\<close> scan a value for \<open>${kind:name}\<close>,
  \<open>${workload:name:port}\<close> and the escape \<open>$$\<close>.

  The specification is a grammar: a value is a sequence of pieces, each a literal byte, an escaped
  dollar sign or a well-formed reference. The lemmas show that the scanner accepts exactly the
  values the grammar writes, that it reports the references in the order they are written without
  repeats, and that expansion replaces each piece by what it stands for.
\<close>

section \<open>Names\<close>

definition lower_alnum :: "char \<Rightarrow> bool" where
  "lower_alnum c \<longleftrightarrow> (97 \<le> (of_char c :: nat) \<and> (of_char c :: nat) \<le> 122)
     \<or> (48 \<le> (of_char c :: nat) \<and> (of_char c :: nat) \<le> 57)"

text \<open>\<open>^[a-z0-9]([a-z0-9-]*[a-z0-9])?$\<close>\<close>

definition namePattern :: "string \<Rightarrow> bool" where
  "namePattern s \<longleftrightarrow> s \<noteq> [] \<and> lower_alnum (hd s) \<and> lower_alnum (last s)
     \<and> list_all (\<lambda>c. lower_alnum c \<or> c = CHR ''-'') s"

definition maxLabelKeyLength :: nat where
  "maxLabelKeyLength = 63"

definition validReferenceName :: "string \<Rightarrow> bool" where
  "validReferenceName name \<longleftrightarrow> namePattern name \<and> length name \<le> maxLabelKeyLength"

lemma namePattern_chars:
  assumes "namePattern s" and "c \<in> set s"
  shows "lower_alnum c \<or> c = CHR ''-''"
  using assms by (auto simp: namePattern_def list_all_iff)

lemma namePattern_no_punctuation:
  assumes "namePattern s"
  shows "CHR '':'' \<notin> set s" and "CHR ''}'' \<notin> set s" and "CHR ''$'' \<notin> set s"
  using namePattern_chars [OF assms, of "CHR '':''"] namePattern_chars [OF assms, of "CHR ''}''"]
    namePattern_chars [OF assms, of "CHR ''$''"]
  by (auto simp: lower_alnum_def)

lemma namePattern_nonempty: "namePattern s \<Longrightarrow> s \<noteq> []"
  by (simp add: namePattern_def)

section \<open>Reference kinds and references\<close>

datatype ReferenceKind = KindSecret | KindVariable | KindWorkload | KindToken

type_synonym PortRef = string

record Reference =
  ref_Kind :: ReferenceKind
  ref_Name :: string
  ref_Port :: PortRef

datatype reference_error =
    NotAReference string
  | NotClosed string
  | PortNotAllowed string
  | BadName ReferenceKind string
  | BadPort string ReferenceKind string
  | UnknownReference ReferenceKind Reference

fun kind_string :: "ReferenceKind \<Rightarrow> string" where
  "kind_string KindSecret = ''secret''"
| "kind_string KindVariable = ''var''"
| "kind_string KindWorkload = ''workload''"
| "kind_string KindToken = ''token''"

definition referenceKinds :: "ReferenceKind list" where
  "referenceKinds = [KindSecret, KindVariable, KindWorkload, KindToken]"

definition kind_opening :: "ReferenceKind \<Rightarrow> string" where
  "kind_opening k = ''${'' @ kind_string k @ '':''"

definition reference_String :: "Reference \<Rightarrow> string" where
  "reference_String r =
     (if ref_Port r = [] then ref_Name r else ref_Name r @ '':'' @ ref_Port r)"

text \<open>\<open>strings.Cut\<close> and \<open>strings.IndexByte\<close>.\<close>

fun IndexByte :: "string \<Rightarrow> char \<Rightarrow> nat option" where
  "IndexByte [] c = None"
| "IndexByte (x # xs) c = (if x = c then Some 0 else map_option Suc (IndexByte xs c))"

definition Cut :: "string \<Rightarrow> char \<Rightarrow> string \<times> string \<times> bool" where
  "Cut s c = (case IndexByte s c of
       None \<Rightarrow> (s, [], False)
     | Some i \<Rightarrow> (take i s, drop (Suc i) s, True))"

fun openingOf_in :: "ReferenceKind list \<Rightarrow> string \<Rightarrow> (string \<times> ReferenceKind) option" where
  "openingOf_in [] rest = None"
| "openingOf_in (k # ks) rest =
     (if HasPrefix rest (kind_opening k) then Some (kind_opening k, k) else openingOf_in ks rest)"

definition openingOf :: "string \<Rightarrow> (string \<times> ReferenceKind) option" where
  "openingOf rest = openingOf_in referenceKinds rest"

definition newReference :: "ReferenceKind \<Rightarrow> string \<Rightarrow> reference_error + Reference" where
  "newReference kind body =
     (let (name, port, qualified) = Cut body (CHR '':'') in
      if qualified \<and> kind \<noteq> KindWorkload then Inl (PortNotAllowed body)
      else if \<not> validReferenceName name then Inl (BadName kind name)
      else if qualified \<and> \<not> validReferenceName port then Inl (BadPort port kind name)
      else Inr \<lparr>ref_Kind = kind, ref_Name = name, ref_Port = port\<rparr>)"

section \<open>Scanning a value\<close>

text \<open>
  The loop of \<open>ParseReferences\<close> over the value from the current byte on. The error of a malformed
  reference carries the text it quotes.
\<close>

function parse_from :: "string \<Rightarrow> Reference list \<Rightarrow> reference_error + Reference list" where
  "parse_from [] refs = Inr refs"
| "parse_from (c # cs) refs =
     (if c \<noteq> CHR ''$'' then parse_from cs refs
      else if cs \<noteq> [] \<and> hd cs = CHR ''$'' then parse_from (tl cs) refs
      else (case openingOf (c # cs) of
         None \<Rightarrow> Inl (NotAReference (c # cs))
       | Some (prefix, kind) \<Rightarrow>
           (case IndexByte (c # cs) (CHR ''}'') of
              None \<Rightarrow> Inl (NotClosed (c # cs))
            | Some stop \<Rightarrow>
                (case newReference kind (drop (length prefix) (take stop (c # cs))) of
                   Inl e \<Rightarrow> Inl e
                 | Inr r \<Rightarrow> parse_from (drop stop cs)
                     (if r \<in> set refs then refs else refs @ [r])))))"
  by pat_completeness auto
termination
  by (relation "measure (\<lambda>(s, refs). length s)") (auto simp: less_Suc_eq_le)

definition ParseReferences :: "string \<Rightarrow> reference_error + Reference list" where
  "ParseReferences value = parse_from value []"

text \<open>
  The loop of \<open>Expand\<close>. It runs only on values \<open>ParseReferences\<close> accepts, so the code ignores the
  errors of \<open>openingOf\<close> and \<open>newReference\<close>; the branches the guard rules out report the error here.
\<close>

function expand_from ::
  "(Reference \<Rightarrow> string option) \<Rightarrow> string \<Rightarrow> string \<Rightarrow> reference_error + string" where
  "expand_from rslv [] out = Inr out"
| "expand_from rslv (c # cs) out =
     (if c \<noteq> CHR ''$'' then expand_from rslv cs (out @ [c])
      else if cs \<noteq> [] \<and> hd cs = CHR ''$'' then expand_from rslv (tl cs) (out @ ''$'')
      else (case openingOf (c # cs) of
         None \<Rightarrow> Inl (NotAReference (c # cs))
       | Some (prefix, kind) \<Rightarrow>
           (case IndexByte (c # cs) (CHR ''}'') of
              None \<Rightarrow> Inl (NotClosed (c # cs))
            | Some stop \<Rightarrow>
                (case newReference kind (drop (length prefix) (take stop (c # cs))) of
                   Inl e \<Rightarrow> Inl e
                 | Inr r \<Rightarrow> (case rslv r of
                       None \<Rightarrow> Inl (UnknownReference kind r)
                     | Some v \<Rightarrow> expand_from rslv (drop stop cs) (out @ v))))))"
  by pat_completeness auto
termination
  by (relation "measure (\<lambda>(rslv, s, out). length s)") (auto simp: less_Suc_eq_le)

definition Expand ::
  "string \<Rightarrow> (Reference \<Rightarrow> string option) \<Rightarrow> reference_error + string" where
  "Expand value rslv =
     (case ParseReferences value of Inl e \<Rightarrow> Inl e | Inr _ \<Rightarrow> expand_from rslv value [])"

definition Names :: "Reference list \<Rightarrow> ReferenceKind \<Rightarrow> string list" where
  "Names refs kind = fold (\<lambda>r names. if ref_Kind r = kind \<and> ref_Name r \<notin> set names
                                     then names @ [ref_Name r] else names) refs []"

definition references_Of :: "Reference list \<Rightarrow> ReferenceKind \<Rightarrow> Reference list" where
  "references_Of refs kind = filter (\<lambda>r. ref_Kind r = kind) refs"

section \<open>The grammar\<close>

datatype piece = Byte char | Escape | Ref Reference

definition wf_reference :: "Reference \<Rightarrow> bool" where
  "wf_reference r \<longleftrightarrow> validReferenceName (ref_Name r) \<and>
     (ref_Port r = [] \<or> ref_Kind r = KindWorkload \<and> validReferenceName (ref_Port r))"

fun wf_piece :: "piece \<Rightarrow> bool" where
  "wf_piece (Byte c) \<longleftrightarrow> c \<noteq> CHR ''$''"
| "wf_piece Escape \<longleftrightarrow> True"
| "wf_piece (Ref r) \<longleftrightarrow> wf_reference r"

definition write_reference :: "Reference \<Rightarrow> string" where
  "write_reference r = kind_opening (ref_Kind r) @ reference_String r @ ''}''"

fun write_piece :: "piece \<Rightarrow> string" where
  "write_piece (Byte c) = [c]"
| "write_piece Escape = ''$$''"
| "write_piece (Ref r) = write_reference r"

definition write_value :: "piece list \<Rightarrow> string" where
  "write_value ps = concat (map write_piece ps)"

definition add_ref :: "Reference \<Rightarrow> Reference list \<Rightarrow> Reference list" where
  "add_ref r refs = (if r \<in> set refs then refs else refs @ [r])"

fun add_piece :: "piece \<Rightarrow> Reference list \<Rightarrow> Reference list" where
  "add_piece (Ref r) refs = add_ref r refs"
| "add_piece p refs = refs"

definition references_of :: "piece list \<Rightarrow> Reference list" where
  "references_of ps = fold add_piece ps []"

fun piece_value :: "(Reference \<Rightarrow> string option) \<Rightarrow> piece \<Rightarrow> string option" where
  "piece_value f (Byte c) = Some [c]"
| "piece_value f Escape = Some ''$''"
| "piece_value f (Ref r) = f r"

lemma write_simps [simp]:
  "write_value [] = []" "write_value (p # ps) = write_piece p @ write_value ps"
  by (simp_all add: write_value_def)

section \<open>Lemmas on the scanner\<close>

lemma IndexByte_None: "IndexByte s c = None \<longleftrightarrow> c \<notin> set s"
  by (induction s) auto

lemma IndexByte_Some:
  "IndexByte s c = Some i \<Longrightarrow> i < length s \<and> s = take i s @ c # drop (Suc i) s \<and> c \<notin> set (take i s)"
  by (induction s arbitrary: i) (auto split: if_splits)

lemma IndexByte_append: "c \<notin> set xs \<Longrightarrow> IndexByte (xs @ c # ys) c = Some (length xs)"
  by (induction xs) auto

lemma Cut_append: "c \<notin> set xs \<Longrightarrow> Cut (xs @ c # ys) c = (xs, ys, True)"
  by (simp add: Cut_def IndexByte_append)

lemma Cut_absent: "c \<notin> set xs \<Longrightarrow> Cut xs c = (xs, [], False)"
  by (simp add: Cut_def IndexByte_None [THEN iffD2])

lemma Cut_cases:
  assumes "Cut s c = (a, b, q)"
  shows "(q \<longrightarrow> s = a @ c # b) \<and> (\<not> q \<longrightarrow> s = a \<and> b = [])"
  using assms IndexByte_Some [of s c] by (auto simp: Cut_def split: option.splits)

lemma openingOf_write [simp]: "openingOf (kind_opening k @ ys) = Some (kind_opening k, k)"
  by (cases k) (simp_all add: openingOf_def referenceKinds_def kind_opening_def)

lemma openingOf_Some:
  "openingOf s = Some (p, k) \<Longrightarrow> p = kind_opening k \<and> (\<exists>ys. s = p @ ys)"
  by (auto simp: openingOf_def referenceKinds_def HasPrefix_iff split: if_splits)

lemma kind_opening_plain [simp]: "CHR ''}'' \<notin> set (kind_opening k)"
  by (cases k) (simp_all add: kind_opening_def)

lemma reference_String_plain:
  "wf_reference r \<Longrightarrow> CHR ''}'' \<notin> set (reference_String r)"
  by (auto simp: wf_reference_def reference_String_def validReferenceName_def
      dest: namePattern_no_punctuation)

lemma newReference_String:
  assumes "wf_reference r"
  shows "newReference (ref_Kind r) (reference_String r) = Inr r"
proof -
  have "CHR '':'' \<notin> set (ref_Name r)"
    using assms by (auto simp: wf_reference_def validReferenceName_def
        dest: namePattern_no_punctuation)
  with assms show ?thesis
    by (auto simp: newReference_def reference_String_def wf_reference_def Cut_append Cut_absent
        validReferenceName_def dest: namePattern_nonempty)
qed

lemma newReference_Inr:
  assumes "newReference k body = Inr r"
  shows "wf_reference r \<and> ref_Kind r = k \<and> reference_String r = body"
proof -
  obtain a b q where cut: "Cut body (CHR '':'') = (a, b, q)"
    by (metis prod_cases3)
  from assms show ?thesis
    using Cut_cases [OF cut]
    by (auto simp: newReference_def cut wf_reference_def reference_String_def
        validReferenceName_def dest: namePattern_nonempty split: if_splits)
qed

lemma write_reference_Cons:
  obtains cs where "write_reference r @ ys = CHR ''$'' # cs" "cs \<noteq> []" "hd cs \<noteq> CHR ''$''"
  by (simp add: write_reference_def kind_opening_def)

lemma IndexByte_write:
  "wf_reference r \<Longrightarrow> IndexByte (write_reference r @ ys) (CHR ''}'')
     = Some (length (kind_opening (ref_Kind r)) + length (reference_String r))"
  using IndexByte_append [of "CHR ''}''" "kind_opening (ref_Kind r) @ reference_String r" ys]
  by (simp add: write_reference_def reference_String_plain)

lemma drop_write_reference:
  "drop (Suc (length (kind_opening (ref_Kind r)) + length (reference_String r)))
     (write_reference r @ ys) = ys"
  by (simp add: write_reference_def)

text \<open>
  Both scanners treat a written reference the same way: the opening names its kind, the closing
  brace ends it, and its body parses back to it.
\<close>

lemma scan_write_reference:
  assumes "wf_reference r"
  shows "openingOf (write_reference r @ ys) = Some (kind_opening (ref_Kind r), ref_Kind r)"
    and "newReference (ref_Kind r)
           (drop (length (kind_opening (ref_Kind r)))
             (take (length (kind_opening (ref_Kind r)) + length (reference_String r))
               (write_reference r @ ys))) = Inr r"
  using assms by (simp_all add: write_reference_def newReference_String)

lemma parse_from_write_reference:
  assumes "wf_reference r"
  shows "parse_from (write_reference r @ ys) refs = parse_from ys (add_ref r refs)"
proof -
  obtain cs where cs: "write_reference r @ ys = CHR ''$'' # cs" and hd: "cs \<noteq> []" "hd cs \<noteq> CHR ''$''"
    by (rule write_reference_Cons)
  show ?thesis
    using scan_write_reference [OF assms, of ys] IndexByte_write [OF assms, of ys]
      drop_write_reference [of r ys] hd
    unfolding cs by (simp add: add_ref_def del: IndexByte.simps)
qed

lemma parse_from_write:
  "list_all wf_piece ps \<Longrightarrow> parse_from (write_value ps @ ys) refs = parse_from ys (fold add_piece ps refs)"
proof (induction ps arbitrary: refs)
  case Nil
  then show ?case by simp
next
  case (Cons p ps)
  then show ?case
    by (cases p) (simp_all add: parse_from_write_reference)
qed

lemma openingOf_write_reference:
  assumes "openingOf s = Some (p, k)" and "IndexByte s (CHR ''}'') = Some i"
    and "newReference k (drop (length p) (take i s)) = Inr r"
  shows "wf_reference r \<and> s = write_reference r @ drop (Suc i) s"
proof -
  obtain ys where s: "s = kind_opening k @ ys" and p: "p = kind_opening k"
    using openingOf_Some [OF assms(1)] by blast
  have i: "s = take i s @ CHR ''}'' # drop (Suc i) s" "i < length s"
    using IndexByte_Some [OF assms(2)] by blast+
  have le: "length (kind_opening k) \<le> i"
  proof (rule ccontr)
    assume "\<not> length (kind_opening k) \<le> i"
    then have "s ! i \<in> set (kind_opening k)"
      by (simp add: s nth_append)
    moreover have "s ! i = CHR ''}''"
      using i by (metis add_diff_cancel_right' length_append length_take min.absorb4
          nth_append_length)
    ultimately show False using kind_opening_plain [of k] by metis
  qed
  then have "take i s = kind_opening k @ drop (length p) (take i s)"
    by (simp add: s p)
  with newReference_Inr [OF assms(3)] i(1) show ?thesis
    by (metis append_Cons append_Nil append_assoc write_reference_def)
qed

lemma parse_from_sound:
  "parse_from s refs = Inr rs \<Longrightarrow>
     \<exists>ps. list_all wf_piece ps \<and> s = write_value ps \<and> rs = fold add_piece ps refs"
proof (induction s refs rule: parse_from.induct)
  case (1 refs)
  then show ?case by (intro exI [of _ "[]"]) simp
next
  case (2 c cs refs)
  show ?case
  proof (cases "c \<noteq> CHR ''$''")
    case True
    with 2 obtain ps where "list_all wf_piece ps" "cs = write_value ps" "rs = fold add_piece ps refs"
      by auto
    with True show ?thesis by (intro exI [of _ "Byte c # ps"]) simp
  next
    case sigil: False
    show ?thesis
    proof (cases "cs \<noteq> [] \<and> hd cs = CHR ''$''")
      case True
      with 2 sigil obtain ps where "list_all wf_piece ps" "tl cs = write_value ps"
        "rs = fold add_piece ps refs" by auto
      with True sigil show ?thesis
        by (intro exI [of _ "Escape # ps"]) (simp, metis list.collapse)
    next
      case False
      with 2(4) sigil obtain p k i r where
        o: "openingOf (c # cs) = Some (p, k)" and i: "IndexByte (c # cs) (CHR ''}'') = Some i"
        and n: "newReference k (drop (length p) (take i (c # cs))) = Inr r"
        and rest: "parse_from (drop i cs) (add_ref r refs) = Inr rs"
        by (auto simp: add_ref_def split: option.splits sum.splits)
      from 2(3) [OF _ False o _ i n] sigil rest
      obtain ps where "list_all wf_piece ps" "drop i cs = write_value ps"
        "rs = fold add_piece ps (add_ref r refs)"
        by (auto simp: add_ref_def)
      with openingOf_write_reference [OF o i n] show ?thesis
        by (intro exI [of _ "Ref r # ps"]) simp
    qed
  qed
qed

lemma expand_from_write_reference:
  assumes "wf_reference r"
  shows "expand_from f (write_reference r @ ys) out = (case f r of
       None \<Rightarrow> Inl (UnknownReference (ref_Kind r) r)
     | Some v \<Rightarrow> expand_from f ys (out @ v))"
proof -
  obtain cs where cs: "write_reference r @ ys = CHR ''$'' # cs" and hd: "cs \<noteq> []" "hd cs \<noteq> CHR ''$''"
    by (rule write_reference_Cons)
  show ?thesis
    using scan_write_reference [OF assms, of ys] IndexByte_write [OF assms, of ys]
      drop_write_reference [of r ys] hd
    unfolding cs by (simp del: IndexByte.simps split: option.splits)
qed

lemma expand_from_write:
  assumes "list_all wf_piece ps" and "\<forall>r. Ref r \<in> set ps \<longrightarrow> f r \<noteq> None"
  shows "expand_from f (write_value ps @ ys) out
           = expand_from f ys (out @ concat (map (the \<circ> piece_value f) ps))"
  using assms
proof (induction ps arbitrary: out)
  case Nil
  then show ?case by simp
next
  case (Cons p ps)
  then show ?case
    by (cases p) (auto simp: expand_from_write_reference split: option.splits)
qed

lemma set_fold_add_piece: "set (fold add_piece ps refs) = set refs \<union> {r. Ref r \<in> set ps}"
proof (induction ps arbitrary: refs)
  case (Cons p ps)
  then show ?case by (cases p) (auto simp: add_ref_def)
qed simp

lemma distinct_fold_add_piece: "distinct refs \<Longrightarrow> distinct (fold add_piece ps refs)"
proof (induction ps arbitrary: refs)
  case (Cons p ps)
  then show ?case by (cases p) (auto simp: add_ref_def)
qed simp

lemma ParseReferences_write:
  "list_all wf_piece ps \<Longrightarrow> ParseReferences (write_value ps) = Inr (references_of ps)"
  using parse_from_write [of ps "[]" "[]"] by (simp add: ParseReferences_def references_of_def)

section \<open>Properties\<close>

text \<open>
  C30. The scanner and the grammar agree exactly: \<open>ParseReferences\<close> returns a list of references
  precisely on the values that are written by a sequence of well-formed pieces, and the list it
  returns is the references of those pieces in the order they are written, without repeats.
\<close>

theorem ParseReferences_grammar:
  "ParseReferences v = Inr rs \<longleftrightarrow>
     (\<exists>ps. list_all wf_piece ps \<and> v = write_value ps \<and> rs = references_of ps)"
  using parse_from_sound [of v "[]" rs] ParseReferences_write
  by (auto simp: ParseReferences_def references_of_def)

text \<open>
  C35. Expansion of a value the grammar writes replaces each reference by what the resolver returns
  for it, each \<open>$$\<close> by one dollar sign and leaves every other byte alone when every reference
  resolves; otherwise it reports the first reference that does not.
\<close>

theorem Expand_write:
  assumes "list_all wf_piece ps" and "\<forall>r. Ref r \<in> set ps \<longrightarrow> f r \<noteq> None"
  shows "Expand (write_value ps) f = Inr (concat (map (the \<circ> piece_value f) ps))
    \<and> (wf_reference r \<and> f r = None \<and> list_all wf_piece qs \<longrightarrow>
        Expand (write_value (ps @ Ref r # qs)) f = Inl (UnknownReference (ref_Kind r) r))"
proof -
  have "Expand (write_value ps) f = Inr (concat (map (the \<circ> piece_value f) ps))"
    using ParseReferences_write [OF assms(1)] expand_from_write [OF assms, of "[]" "[]"]
    by (simp add: Expand_def)
  moreover have "Expand (write_value (ps @ Ref r # qs)) f = Inl (UnknownReference (ref_Kind r) r)"
    if "wf_reference r" "f r = None" "list_all wf_piece qs"
    using ParseReferences_write [of "ps @ Ref r # qs"] that assms
      expand_from_write [OF assms, of "write_reference r @ write_value qs" "[]"]
    by (simp add: Expand_def expand_from_write_reference write_value_def)
  ultimately show ?thesis by blast
qed

theorem Expand_write_witness:
  "Expand ''a$$${secret:db}'' (\<lambda>r. if ref_Name r = ''db'' then Some ''pw'' else None) = Inr ''a$pw''"
proof -
  let ?r = "\<lparr>ref_Kind = KindSecret, ref_Name = ''db'', ref_Port = []\<rparr>"
  let ?f = "\<lambda>r::Reference. if ref_Name r = ''db'' then Some ''pw'' else None"
  have wf: "list_all wf_piece [Byte (CHR ''a''), Escape, Ref ?r]"
    by (simp add: wf_reference_def validReferenceName_def namePattern_def lower_alnum_def
        maxLabelKeyLength_def)
  have "\<forall>r. Ref r \<in> set [Byte (CHR ''a''), Escape, Ref ?r] \<longrightarrow> ?f r \<noteq> None"
    by simp
  from Expand_write [OF wf this] show ?thesis
    by (simp add: write_reference_def kind_opening_def reference_String_def)
qed

end
