(* ===== verification/Go_Path.thy ===== *)
theory Go_Path
  imports Takt_Prelude
begin

text \<open>
  What the program uses of Go's \<open>path\<close> and \<open>path/filepath\<close> packages on a Unix host: lexical
  cleaning, \<open>IsAbs\<close>, and cleaned paths as a root flag and a list of elements, on which \<open>Dir\<close>,
  \<open>Base\<close> and \<open>Join\<close> are list operations. \<open>strings.TrimSpace\<close> is here too, for the tests of
  emptiness the manifest makes.
\<close>

section \<open>Elements of a path\<close>

fun split_slash :: "string \<Rightarrow> string list" where
  "split_slash [] = [[]]"
| "split_slash (c # cs) =
     (if c = CHR ''/'' then [] # split_slash cs
      else (case split_slash cs of [] \<Rightarrow> [[c]] | e # es \<Rightarrow> (c # e) # es))"

definition IsAbs :: "string \<Rightarrow> bool" where
  "IsAbs p \<longleftrightarrow> HasPrefix p ''/''"

text \<open>
  One element at a time, with the elements kept so far in reverse: an empty element and a dot are
  dropped, a double dot removes the element before it, or is dropped at the root, or is kept where
  there is nothing above to remove.
\<close>

fun clean_step :: "bool \<Rightarrow> string list \<Rightarrow> string \<Rightarrow> string list" where
  "clean_step rooted acc e =
     (if e = [] \<or> e = ''.'' then acc
      else if e = ''..'' then
        (case acc of
           [] \<Rightarrow> if rooted then [] else [e]
         | a # as \<Rightarrow> if a = ''..'' then e # acc else as)
      else e # acc)"

definition clean_elements :: "string \<Rightarrow> string list" where
  "clean_elements p = rev (foldl (clean_step (IsAbs p)) [] (split_slash p))"

definition render_path :: "bool \<Rightarrow> string list \<Rightarrow> string" where
  "render_path rooted es =
     (if rooted then ''/'' @ join_with ''/'' es
      else if es = [] then ''.'' else join_with ''/'' es)"

definition Clean :: "string \<Rightarrow> string" where
  "Clean p = render_path (IsAbs p) (clean_elements p)"

section \<open>Lemmas\<close>

lemma split_slash_nonempty [simp]: "split_slash s \<noteq> []"
  by (induction s) (auto split: list.splits)

lemma split_slash_no_slash: "e \<in> set (split_slash s) \<Longrightarrow> CHR ''/'' \<notin> set e"
  by (induction s arbitrary: e) (auto split: if_splits list.splits)

definition plain_element :: "string \<Rightarrow> bool" where
  "plain_element e \<longleftrightarrow> e \<noteq> [] \<and> e \<noteq> ''.'' \<and> CHR ''/'' \<notin> set e"

lemma clean_step_plain:
  "\<lbrakk>list_all plain_element acc; CHR ''/'' \<notin> set e\<rbrakk>
     \<Longrightarrow> list_all plain_element (clean_step rooted acc e)"
  by (cases acc) (auto simp: plain_element_def)

lemma clean_step_rooted:
  "''..'' \<notin> set acc \<Longrightarrow> ''..'' \<notin> set (clean_step True acc e)"
  by (cases acc) auto

lemma foldl_clean_step_plain:
  "\<lbrakk>list_all plain_element acc; \<forall>e \<in> set es. CHR ''/'' \<notin> set e\<rbrakk>
     \<Longrightarrow> list_all plain_element (foldl (clean_step rooted) acc es)"
proof (induction es arbitrary: acc)
  case (Cons e es)
  then show ?case using clean_step_plain by simp
qed simp

lemma foldl_clean_step_rooted:
  "''..'' \<notin> set acc \<Longrightarrow> ''..'' \<notin> set (foldl (clean_step True) acc es)"
proof (induction es arbitrary: acc)
  case (Cons e es)
  then show ?case using clean_step_rooted by (simp del: clean_step.simps)
qed simp

lemma clean_elements_plain: "list_all plain_element (clean_elements p)"
  using foldl_clean_step_plain [of "[]" "split_slash p"] split_slash_no_slash [of _ p]
  by (simp add: clean_elements_def list_all_iff)

text \<open>An absolute path cleans to a rooted list of elements without a double dot left in it.\<close>

lemma clean_elements_rooted: "IsAbs p \<Longrightarrow> ''..'' \<notin> set (clean_elements p)"
  using foldl_clean_step_rooted [of "[]" "split_slash p"] by (simp add: clean_elements_def)

lemma foldl_clean_step_id:
  assumes "list_all plain_element (es)" and "''..'' \<notin> set es"
  shows "foldl (clean_step rooted) acc es = rev es @ acc"
  using assms
proof (induction es arbitrary: acc)
  case (Cons e es)
  then show ?case by (auto simp: plain_element_def)
qed simp

lemma split_slash_append:
  "CHR ''/'' \<notin> set e \<Longrightarrow> split_slash (e @ CHR ''/'' # s) = e # split_slash s"
  by (induction e) auto

lemma split_slash_single: "CHR ''/'' \<notin> set e \<Longrightarrow> split_slash e = [e]"
  by (induction e) auto

lemma split_slash_join:
  assumes "list_all plain_element es" and "es \<noteq> []"
  shows "split_slash (join_with ''/'' es) = es"
  using assms
proof (induction es rule: induct_list012)
  case (3 e f es)
  then show ?case
    using split_slash_append [of e "join_with ''/'' (f # es)"]
    by (auto simp: plain_element_def)
qed (auto simp: plain_element_def split_slash_single)

lemma clean_elements_render:
  assumes "list_all plain_element es" and "''..'' \<notin> set es"
  shows "clean_elements (render_path True es) = es"
proof (cases "es = []")
  case True
  then show ?thesis by (simp add: clean_elements_def render_path_def IsAbs_def)
next
  case False
  then have "split_slash (render_path True es) = [] # es"
    using split_slash_join [OF assms(1) False] by (simp add: render_path_def)
  with assms show ?thesis
    by (simp add: clean_elements_def render_path_def IsAbs_def foldl_clean_step_id)
qed

lemma Clean_idem: "IsAbs p \<Longrightarrow> Clean (Clean p) = Clean p"
  using clean_elements_render [of "clean_elements p"] clean_elements_plain clean_elements_rooted
  by (simp add: Clean_def IsAbs_def render_path_def)

lemma IsAbs_Clean: "IsAbs (Clean p) \<longleftrightarrow> IsAbs p"
proof (cases "IsAbs p")
  case True
  then show ?thesis by (simp add: Clean_def render_path_def IsAbs_def)
next
  case False
  have "\<not> HasPrefix (join_with ''/'' es) ''/''" if "list_all plain_element es" "es \<noteq> []" for es
    using that
    by (induction es rule: induct_list012)
      (auto simp: plain_element_def HasPrefix_iff append_eq_Cons_conv)
  with False clean_elements_plain [of p] show ?thesis
    by (simp add: Clean_def render_path_def IsAbs_def)
qed

section \<open>White space\<close>

text \<open>
  \<open>strings.TrimSpace(s) == ""\<close> holds of the strings made of white space only: the ASCII spaces and
  the UTF-8 encodings of the other code points \<open>unicode.IsSpace\<close> accepts.
\<close>

definition space_encodings :: "nat list list" where
  "space_encodings =
     [[9], [10], [11], [12], [13], [32], [194, 133], [194, 160], [225, 154, 128],
      [226, 128, 128], [226, 128, 129], [226, 128, 130], [226, 128, 131], [226, 128, 132],
      [226, 128, 133], [226, 128, 134], [226, 128, 135], [226, 128, 136], [226, 128, 137],
      [226, 128, 138], [226, 128, 168], [226, 128, 169], [226, 128, 175], [226, 129, 159],
      [227, 128, 128]]"

fun strip_encoding :: "nat list \<Rightarrow> string \<Rightarrow> string option" where
  "strip_encoding [] s = Some s"
| "strip_encoding (b # bs) [] = None"
| "strip_encoding (b # bs) (c # cs) =
     (if of_char c = b then strip_encoding bs cs else None)"

fun strip_space_in :: "nat list list \<Rightarrow> string \<Rightarrow> string option" where
  "strip_space_in [] s = None"
| "strip_space_in (e # es) s =
     (case strip_encoding e s of Some r \<Rightarrow> Some r | None \<Rightarrow> strip_space_in es s)"

definition strip_space :: "string \<Rightarrow> string option" where
  "strip_space s = strip_space_in space_encodings s"

lemma space_encodings_nonempty: "[] \<notin> set space_encodings"
  by (simp add: space_encodings_def)

lemma strip_encoding_length:
  "strip_encoding e s = Some r \<Longrightarrow> length s = length e + length r"
  by (induction e s rule: strip_encoding.induct) (auto split: if_splits)

lemma strip_space_in_length:
  "\<lbrakk>strip_space_in es s = Some r; [] \<notin> set es\<rbrakk> \<Longrightarrow> length r < length s"
proof (induction es)
  case (Cons e es)
  show ?case
  proof (cases "strip_encoding e s")
    case None
    with Cons show ?thesis by simp
  next
    case (Some r')
    with Cons.prems have "r' = r" "e \<noteq> []" by auto
    with strip_encoding_length [OF Some] show ?thesis by simp
  qed
qed simp

lemma strip_space_length: "strip_space s = Some r \<Longrightarrow> length r < length s"
  unfolding strip_space_def
  by (rule strip_space_in_length [OF _ space_encodings_nonempty])

function TrimSpace_empty :: "string \<Rightarrow> bool" where
  "TrimSpace_empty s =
     (if s = [] then True
      else (case strip_space s of None \<Rightarrow> False | Some r \<Rightarrow> TrimSpace_empty r))"
  by pat_completeness auto
termination
  by (relation "measure length") (auto dest: strip_space_length)

declare TrimSpace_empty.simps [simp del]

lemma TrimSpace_empty_Nil [simp]: "TrimSpace_empty []"
  by (simp add: TrimSpace_empty.simps)

end
