(* ===== verification/Go_Strconv.thy ===== *)
theory Go_Strconv
  imports Takt_Prelude
begin

text \<open>
  Decimal conversion of \<open>strconv\<close>, as far as the components use it: \<open>Itoa\<close> and \<open>Atoi\<close> of a 64-bit
  \<open>int\<close>, and \<open>net.JoinHostPort\<close>.
\<close>

definition digit_char :: "nat \<Rightarrow> char" where
  "digit_char d = char_of (48 + d)"

definition digit_of :: "char \<Rightarrow> nat option" where
  "digit_of c = (let n = (of_char c :: nat) in if 48 \<le> n \<and> n \<le> 57 then Some (n - 48) else None)"

fun nat_digits :: "nat \<Rightarrow> string" where
  "nat_digits n = (if n < 10 then [digit_char n] else nat_digits (n div 10) @ [digit_char (n mod 10)])"

declare nat_digits.simps [simp del]

definition Itoa :: "int \<Rightarrow> string" where
  "Itoa i = (if i < 0 then CHR ''-'' # nat_digits (nat (- i)) else nat_digits (nat i))"

fun read_digits :: "string \<Rightarrow> nat \<Rightarrow> nat option" where
  "read_digits [] acc = Some acc"
| "read_digits (c # cs) acc =
     (case digit_of c of None \<Rightarrow> None | Some d \<Rightarrow> read_digits cs (10 * acc + d))"

definition read_nat :: "string \<Rightarrow> nat option" where
  "read_nat s = (if s = [] then None else read_digits s 0)"

definition Atoi :: "string \<Rightarrow> int option" where
  "Atoi s =
     (let (negative, digits) =
            (case s of
               [] \<Rightarrow> (False, [])
             | c # cs \<Rightarrow> if c = CHR ''-'' then (True, cs) else if c = CHR ''+'' then (False, cs)
                        else (False, s))
      in case read_nat digits of
           None \<Rightarrow> None
         | Some n \<Rightarrow>
             (let i = (if negative then - int n else int n)
              in if - (2 ^ 63) \<le> i \<and> i < 2 ^ 63 then Some i else None))"

definition JoinHostPort :: "string \<Rightarrow> string \<Rightarrow> string" where
  "JoinHostPort host port =
     (if CHR '':'' \<in> set host then ''['' @ host @ '']:'' @ port else host @ '':'' @ port)"

section \<open>Round trip\<close>

lemma digit_of_digit_char [simp]: "d < 10 \<Longrightarrow> digit_of (digit_char d) = Some d"
  by (simp add: digit_of_def digit_char_def)

lemma digit_char_not_sign:
  assumes "d < 10"
  shows "digit_char d \<noteq> CHR ''-''" "digit_char d \<noteq> CHR ''+''"
proof -
  have "digit_of (CHR ''-'') = None" "digit_of (CHR ''+'') = None"
    by (simp_all add: digit_of_def)
  then show "digit_char d \<noteq> CHR ''-''" "digit_char d \<noteq> CHR ''+''"
    using digit_of_digit_char [OF assms] by (metis option.distinct(1))+
qed

lemma read_digits_append:
  "read_digits (xs @ [digit_char d]) acc = map_option (\<lambda>n. 10 * n + d) (read_digits xs acc)" if "d < 10"
  using that by (induction xs arbitrary: acc) (auto split: option.splits)

lemma read_nat_digits: "read_digits (nat_digits n) 0 = Some n"
proof (induction n rule: nat_digits.induct)
  case (1 n)
  then show ?case
    by (subst nat_digits.simps) (simp add: read_digits_append)
qed

lemma nat_digits_Cons: "\<exists>d cs. nat_digits n = digit_char d # cs \<and> d < 10"
proof (induction n rule: nat_digits.induct)
  case (1 n)
  then show ?case by (subst nat_digits.simps) fastforce
qed

lemma Atoi_Itoa: "- (2 ^ 63) \<le> i \<Longrightarrow> i < 2 ^ 63 \<Longrightarrow> Atoi (Itoa i) = Some i"
proof -
  assume range: "- (2 ^ 63) \<le> i" "i < 2 ^ 63"
  obtain d cs where d: "nat_digits (nat i) = digit_char d # cs" "d < 10"
    using nat_digits_Cons by blast
  have ne: "nat_digits n \<noteq> []" for n using nat_digits_Cons [of n] by auto
  have pos: "read_nat (nat_digits n) = Some n" for n
    by (simp add: read_nat_def ne read_nat_digits)
  show "Atoi (Itoa i) = Some i"
  proof (cases "i < 0")
    case True
    then show ?thesis using range pos [of "nat (- i)"] by (simp add: Itoa_def Atoi_def)
  next
    case False
    then show ?thesis
      using range pos [of "nat i"] d digit_char_not_sign [OF d(2)] by (simp add: Itoa_def Atoi_def)
  qed
qed

end
