(* ===== verification/Manifest.thy ===== *)
theory Manifest
  imports Manifest_Reference Go_Path Go_Strconv "HOL-Library.Product_Lexorder"
begin

text \<open>
  Workload specifications (\<open>pkg/manifest/workload.go\<close>): the types of a specification, the defaults, the
  restart policy, what a mount names, and what a workload reads. The rules a specification is held to are
  in the theory \<open>Manifest_Validation\<close>.

  A Go map is an association list with distinct keys, and code that ranges over its sorted keys ranges
  over \<open>sort (map fst m)\<close> here.
\<close>

section \<open>Types\<close>

text \<open>
  A Go string type with named constants is a datatype with one constructor per constant and one for
  every other string, which includes the empty string an unset field holds.
\<close>

datatype RestartPolicy =
  RestartAlways | RestartOnFailure | RestartNever | RestartPolicyOther string

datatype PullPolicy =
  PullAlways | PullFollow | PullMissing | PullNever | PullPolicyOther string

datatype OverlapPolicy = OverlapReplace | OverlapSkip | OverlapOther string

datatype Protocol = ProtocolTCP | ProtocolUDP | ProtocolOther string

datatype Runtime = RuntimeContainer | RuntimeExec

datatype MountKind = MountVolume | MountSecret | MountVariable | MountToken | MountPath

abbreviation unset_policy :: RestartPolicy where
  "unset_policy \<equiv> RestartPolicyOther []"

abbreviation unset_protocol :: Protocol where
  "unset_protocol \<equiv> ProtocolOther []"

record Schedule =
  sch_Cron :: string
  sch_Overlap :: OverlapPolicy

record Restart =
  rst_Policy :: RestartPolicy
  rst_Attempts :: int
  rst_Delay :: duration

record Health =
  hl_HTTP :: string
  hl_TCP :: bool
  hl_Command :: "string list"
  hl_Port :: PortRef
  hl_Interval :: duration
  hl_Timeout :: duration
  hl_Retries :: int
  hl_StartPeriod :: duration

record Resources =
  res_Memory :: string
  res_CPU :: rat
  res_Pids :: int

record Logs =
  log_MaxSize :: string
  log_MaxFiles :: int

record Device =
  dev_Path :: string
  dev_To :: string

record Container =
  con_Image :: string
  con_Pull :: PullPolicy
  con_Command :: "string list"
  con_Entrypoint :: "string list"
  con_User :: string
  con_ReadOnly :: bool
  con_CapAdd :: "string list"
  con_CapDrop :: "string list"
  con_PidMode :: string
  con_NetworkMode :: string
  con_Tmpfs :: "string list"
  con_ShmSize :: string
  con_Devices :: "Device list"

record Port =
  port_Name :: string
  port_To :: int
  port_From :: int
  port_Protocol :: Protocol

record Exec =
  exec_Command :: "string list"

record VolumeMount =
  mnt_From :: string
  mnt_Name :: string
  mnt_Secret :: string
  mnt_Var :: string
  mnt_Token :: string
  mnt_Path :: string
  mnt_To :: string
  mnt_Signal :: string
  mnt_Expand :: bool
  mnt_ReadOnly :: bool
  mnt_Propagation :: string

type_synonym string_map = "(string \<times> string) list"

record Spec =
  spec_Version :: string
  spec_Name :: string
  spec_Count :: int
  spec_Schedule :: "Schedule option"
  spec_Labels :: string_map
  spec_Ports :: "Port list"
  spec_Env :: string_map
  spec_Volumes :: "VolumeMount list"
  spec_Restart :: "Restart option"
  spec_Health :: "Health option"
  spec_Resources :: "Resources option"
  spec_Logs :: "Logs option"
  spec_StopTimeout :: duration
  spec_Container :: "Container option"
  spec_Exec :: "Exec option"

section \<open>References to ports\<close>

definition PortRef_Matches :: "PortRef \<Rightarrow> string \<Rightarrow> int \<Rightarrow> bool" where
  "PortRef_Matches p name to =
     (if p = [] then False else if p = name then True else Atoi p = Some to)"

section \<open>Mount sources\<close>

datatype mount_error = ErrNoMountSource | ErrAmbiguousMountSource "MountKind list"

definition KindOf :: "VolumeMount \<Rightarrow> mount_error + MountKind" where
  "KindOf m =
     (let named = (if mnt_Name m \<noteq> [] then [MountVolume] else [])
                @ (if mnt_Secret m \<noteq> [] then [MountSecret] else [])
                @ (if mnt_Var m \<noteq> [] then [MountVariable] else [])
                @ (if mnt_Token m \<noteq> [] then [MountToken] else [])
                @ (if mnt_Path m \<noteq> [] then [MountPath] else [])
      in (case named of
            [] \<Rightarrow> Inl ErrNoMountSource
          | [k] \<Rightarrow> Inr k
          | _ \<Rightarrow> Inl (ErrAmbiguousMountSource named)))"

definition mount_Source :: "VolumeMount \<Rightarrow> string" where
  "mount_Source m =
     (if mnt_Secret m \<noteq> [] then mnt_Secret m
      else if mnt_Var m \<noteq> [] then mnt_Var m
      else if mnt_Token m \<noteq> [] then mnt_Token m
      else if mnt_Path m \<noteq> [] then mnt_Path m
      else mnt_Name m)"

definition mount_Reference :: "VolumeMount \<Rightarrow> Reference option" where
  "mount_Reference m =
     (if mnt_Secret m \<noteq> [] then Some \<lparr>ref_Kind = KindSecret, ref_Name = mnt_Secret m, ref_Port = []\<rparr>
      else if mnt_Var m \<noteq> [] then Some \<lparr>ref_Kind = KindVariable, ref_Name = mnt_Var m, ref_Port = []\<rparr>
      else if mnt_Token m \<noteq> [] then Some \<lparr>ref_Kind = KindToken, ref_Name = mnt_Token m, ref_Port = []\<rparr>
      else None)"

section \<open>The restart policy\<close>

definition DefaultRestartDelay :: duration where
  "DefaultRestartDelay = Second"

fun policy_Restarts :: "RestartPolicy \<Rightarrow> int \<Rightarrow> bool" where
  "policy_Restarts RestartNever exitCode = False"
| "policy_Restarts RestartOnFailure exitCode = (exitCode \<noteq> 0)"
| "policy_Restarts _ exitCode = True"

definition Restarts :: "Restart \<Rightarrow> int \<Rightarrow> int \<Rightarrow> bool" where
  "Restarts r exitCode attempts =
     (if rst_Attempts r > 0 \<and> attempts \<ge> rst_Attempts r then False
      else policy_Restarts (rst_Policy r) exitCode)"

section \<open>Defaults\<close>

definition schedule_defaults :: "Schedule \<Rightarrow> Schedule" where
  "schedule_defaults s =
     (if sch_Overlap s = OverlapOther [] then s\<lparr>sch_Overlap := OverlapReplace\<rparr> else s)"

definition port_defaults :: "Port \<Rightarrow> Port" where
  "port_defaults p =
     (if port_Protocol p = unset_protocol then p\<lparr>port_Protocol := ProtocolTCP\<rparr> else p)"

definition restart_defaults :: "Restart \<Rightarrow> Restart" where
  "restart_defaults r =
     (let r1 = (if rst_Policy r = unset_policy then r\<lparr>rst_Policy := RestartAlways\<rparr> else r)
      in if rst_Delay r1 = 0 then r1\<lparr>rst_Delay := DefaultRestartDelay\<rparr> else r1)"

definition health_defaults :: "Health \<Rightarrow> Health" where
  "health_defaults h =
     (let h1 = (if hl_Interval h = 0 then h\<lparr>hl_Interval := 10 * Second\<rparr> else h);
          h2 = (if hl_Timeout h1 = 0 then h1\<lparr>hl_Timeout := 2 * Second\<rparr> else h1);
          h3 = (if hl_Retries h2 = 0 then h2\<lparr>hl_Retries := 3\<rparr> else h2)
      in if hl_StartPeriod h3 = 0 then h3\<lparr>hl_StartPeriod := 30 * Second\<rparr> else h3)"

definition new_Restart :: Restart where
  "new_Restart = \<lparr>rst_Policy = unset_policy, rst_Attempts = 0, rst_Delay = 0\<rparr>"

definition host_networked :: "Spec \<Rightarrow> bool" where
  "host_networked s = (case spec_Container s of
       None \<Rightarrow> False | Some c \<Rightarrow> con_NetworkMode c = ''host'')"

definition host_port_default :: "Port \<Rightarrow> Port" where
  "host_port_default p = (if port_From p = 0 then p\<lparr>port_From := port_To p\<rparr> else p)"

definition Defaults :: "Spec \<Rightarrow> Spec" where
  "Defaults s =
     s\<lparr>spec_Count := (if spec_Count s = 0 then 1 else spec_Count s),
       spec_Restart := Some (restart_defaults
         (case spec_Restart s of None \<Rightarrow> new_Restart | Some r \<Rightarrow> r)),
       spec_Ports :=
         (let ports = map port_defaults (spec_Ports s)
          in if host_networked s then map host_port_default ports else ports),
       spec_Schedule := map_option schedule_defaults (spec_Schedule s),
       spec_Health := map_option health_defaults (spec_Health s)\<rparr>"

section \<open>What a workload reads\<close>

record reading =
  rd_Reference :: Reference
  rd_signalled :: bool

datatype scan_error =
    BadEnv string reference_error
  | BadContents string string reference_error
  | TokenInContents string string Reference

text \<open>\<open>contents\<close> is None for Go's nil function and reads a variable by its name otherwise.\<close>

type_synonym Contents = "(string \<Rightarrow> string option) option"

definition lookup_str :: "string_map \<Rightarrow> string \<Rightarrow> string" where
  "lookup_str m k = (case map_of m k of None \<Rightarrow> [] | Some v \<Rightarrow> v)"

fun scan_env :: "string_map \<Rightarrow> string list \<Rightarrow> scan_error + reading list" where
  "scan_env env [] = Inr []"
| "scan_env env (key # keys) =
     (case ParseReferences (lookup_str env key) of
        Inl e \<Rightarrow> Inl (BadEnv key e)
      | Inr found \<Rightarrow>
          (case scan_env env keys of
             Inl e \<Rightarrow> Inl e
           | Inr others \<Rightarrow>
               Inr (map (\<lambda>r. \<lparr>rd_Reference = r, rd_signalled = False\<rparr>) found @ others)))"

definition scan_contents :: "VolumeMount \<Rightarrow> string \<Rightarrow> scan_error + reading list" where
  "scan_contents m v =
     (case ParseReferences v of
        Inl e \<Rightarrow> Inl (BadContents (mnt_Var m) (mnt_To m) e)
      | Inr found \<Rightarrow>
          (case find (\<lambda>r. ref_Kind r = KindToken) found of
             Some r \<Rightarrow> Inl (TokenInContents (mnt_Var m) (mnt_To m) r)
           | None \<Rightarrow>
               Inr (map (\<lambda>r. \<lparr>rd_Reference = r, rd_signalled = (mnt_Signal m \<noteq> [])\<rparr>) found)))"

definition scan_mount :: "Contents \<Rightarrow> VolumeMount \<Rightarrow> scan_error + reading list" where
  "scan_mount contents m =
     (case mount_Reference m of
        None \<Rightarrow> Inr []
      | Some r \<Rightarrow>
          (let this = \<lparr>rd_Reference = r, rd_signalled = (mnt_Signal m \<noteq> [])\<rparr>
           in (case contents of
                 None \<Rightarrow> Inr [this]
               | Some c \<Rightarrow>
                   if \<not> mnt_Expand m then Inr [this]
                   else (case c (mnt_Var m) of
                           None \<Rightarrow> Inr [this]
                         | Some v \<Rightarrow>
                             (case scan_contents m v of
                                Inl e \<Rightarrow> Inl e
                              | Inr inner \<Rightarrow> Inr (this # inner))))))"

fun scan_mounts :: "Contents \<Rightarrow> VolumeMount list \<Rightarrow> scan_error + reading list" where
  "scan_mounts contents [] = Inr []"
| "scan_mounts contents (m # ms) =
     (case scan_mount contents m of
        Inl e \<Rightarrow> Inl e
      | Inr found \<Rightarrow>
          (case scan_mounts contents ms of
             Inl e \<Rightarrow> Inl e
           | Inr others \<Rightarrow> Inr (found @ others)))"

definition scan :: "Spec \<Rightarrow> Contents \<Rightarrow> scan_error + reading list" where
  "scan s contents =
     (case scan_env (spec_Env s) (sort (map fst (spec_Env s))) of
        Inl e \<Rightarrow> Inl e
      | Inr env \<Rightarrow>
          (case scan_mounts contents (spec_Volumes s) of
             Inl e \<Rightarrow> Inl e
           | Inr mounts \<Rightarrow> Inr (env @ mounts)))"

text \<open>\<open>compareReferences\<close> orders by kind, then name, then port, each compared as a string.\<close>

definition reference_key :: "Reference \<Rightarrow> string \<times> string \<times> string" where
  "reference_key r = (kind_string (ref_Kind r), ref_Name r, ref_Port r)"

definition dedup :: "Reference list \<Rightarrow> Reference list" where
  "dedup refs = fold add_ref refs []"

definition ReferencesIn :: "Spec \<Rightarrow> Contents \<Rightarrow> scan_error + Reference list" where
  "ReferencesIn s contents =
     (case scan s contents of
        Inl e \<Rightarrow> Inl e
      | Inr readings \<Rightarrow> Inr (sort_key reference_key (dedup (map rd_Reference readings))))"

definition References :: "Spec \<Rightarrow> scan_error + Reference list" where
  "References s = ReferencesIn s None"

definition signalledMounts :: "Spec \<Rightarrow> VolumeMount list" where
  "signalledMounts s =
     filter (\<lambda>m. mnt_Signal m \<noteq> [] \<and> mount_Reference m \<noteq> None) (spec_Volumes s)"

definition RefreshedIn :: "Spec \<Rightarrow> Contents \<Rightarrow> scan_error + Reference list" where
  "RefreshedIn s contents =
     (if signalledMounts s = [] then Inr []
      else (case scan s contents of
         Inl e \<Rightarrow> Inl e
       | Inr readings \<Rightarrow>
           (let replaced = map rd_Reference (filter (\<lambda>r. \<not> rd_signalled r) readings)
            in Inr (sort_key reference_key
                 (dedup (filter (\<lambda>r. r \<notin> set replaced) (map rd_Reference readings)))))))"

definition Refreshed :: "Spec \<Rightarrow> scan_error + Reference list" where
  "Refreshed s = RefreshedIn s None"

section \<open>Lemmas\<close>

lemma restart_defaults_idem: "restart_defaults (restart_defaults r) = restart_defaults r"
  by (simp add: restart_defaults_def DefaultRestartDelay_def)

lemma port_defaults_idem: "port_defaults (port_defaults p) = port_defaults p"
  by (simp add: port_defaults_def)

lemma port_defaults_host: "port_defaults (host_port_default (port_defaults p))
    = host_port_default (port_defaults p)"
  by (simp add: port_defaults_def host_port_default_def)

lemma host_port_default_idem: "host_port_default (host_port_default p) = host_port_default p"
  by (simp add: host_port_default_def)

lemma schedule_defaults_idem: "schedule_defaults (schedule_defaults s) = schedule_defaults s"
  by (simp add: schedule_defaults_def)

lemma health_defaults_idem: "health_defaults (health_defaults h) = health_defaults h"
  by (cases "hl_Interval h = 0"; cases "hl_Timeout h = 0"; cases "hl_Retries h = 0"; cases "hl_StartPeriod h = 0")
    (simp_all add: health_defaults_def)

lemmas defaults_idem =
  restart_defaults_idem port_defaults_idem port_defaults_host host_port_default_idem
  schedule_defaults_idem health_defaults_idem

lemma host_networked_Defaults [simp]: "host_networked (Defaults s) = host_networked s"
  by (simp add: host_networked_def Defaults_def)

lemma Defaults_ports: "spec_Ports (Defaults (Defaults s)) = spec_Ports (Defaults s)"
proof -
  have "spec_Ports (Defaults (Defaults s)) =
      (let ports = map port_defaults (spec_Ports (Defaults s))
       in if host_networked s then map host_port_default ports else ports)"
    by (simp add: Defaults_def [of "Defaults s"])
  then show ?thesis by (simp add: Defaults_def Let_def defaults_idem)
qed

lemma Defaults_others:
  "spec_Restart (Defaults (Defaults s)) = spec_Restart (Defaults s)"
  "spec_Schedule (Defaults (Defaults s)) = spec_Schedule (Defaults s)"
  "spec_Health (Defaults (Defaults s)) = spec_Health (Defaults s)"
  "spec_Count (Defaults (Defaults s)) = spec_Count (Defaults s)"
  by (simp_all add: Defaults_def defaults_idem option.map_comp comp_def)

lemma Defaults_same:
  assumes "spec_Count t = spec_Count s" "spec_Restart t = spec_Restart s"
    "spec_Ports t = spec_Ports s" "spec_Schedule t = spec_Schedule s" "spec_Health t = spec_Health s"
    and "t = s\<lparr>spec_Count := c, spec_Restart := r, spec_Ports := p, spec_Schedule := sc,
               spec_Health := h\<rparr>"
  shows "t = s"
  using assms by (cases s) simp

lemma policy_Restarts_failure: "policy_Restarts p c \<Longrightarrow> c = 0 \<Longrightarrow> p \<noteq> RestartNever \<and> p \<noteq> RestartOnFailure"
  by (cases p) auto

lemma set_fold_add_ref: "set (fold add_ref refs acc) = set acc \<union> set refs"
  by (induction refs arbitrary: acc) (auto simp: add_ref_def)

lemma distinct_fold_add_ref: "distinct acc \<Longrightarrow> distinct (fold add_ref refs acc)"
  by (induction refs arbitrary: acc) (auto simp: add_ref_def)

lemma set_dedup [simp]: "set (dedup refs) = set refs"
  by (simp add: dedup_def set_fold_add_ref)

lemma distinct_dedup [simp]: "distinct (dedup refs)"
  by (simp add: dedup_def distinct_fold_add_ref)

lemma reference_key_inj: "reference_key r = reference_key q \<Longrightarrow> r = q"
  by (cases r; cases q; cases "ref_Kind r"; cases "ref_Kind q") (auto simp: reference_key_def)

section \<open>Properties\<close>

text \<open>
  Filling in the defaults twice is filling them in once, so decoding a stored specification,
  whose defaults are already resolved, changes nothing.
\<close>

lemma Defaults_idem: "Defaults (Defaults s) = Defaults s"
  by (rule Defaults_same [OF Defaults_others(4) Defaults_others(1) Defaults_ports
        Defaults_others(2) Defaults_others(3)])
    (rule Defaults_def)

text \<open>
  The references a workload reads only through mounts that name a signal are sorted, without
  repeats, are all references it reads, and none of them is read anywhere a change could only be
  delivered by a replacement.
\<close>

lemma RefreshedIn_sound:
  assumes "RefreshedIn s contents = Inr rs" and "scan s contents = Inr readings"
  shows "\<exists>all. ReferencesIn s contents = Inr all \<and> set rs \<subseteq> set all
    \<and> sorted (map reference_key rs) \<and> distinct rs
    \<and> (\<forall>rd \<in> set readings. rd_Reference rd \<in> set rs \<longrightarrow> rd_signalled rd)"
proof -
  have sub: "set rs \<subseteq> rd_Reference ` set readings"
    and new: "\<forall>rd \<in> set readings. rd_Reference rd \<in> set rs \<longrightarrow> rd_signalled rd"
    and srt: "sorted (map reference_key rs) \<and> distinct rs"
    using assms by (auto simp: RefreshedIn_def Let_def split: if_splits)
  then show ?thesis
    using assms(2) by (intro exI conjI) (auto simp: ReferencesIn_def)
qed

definition example_mount :: VolumeMount where
  "example_mount = \<lparr>mnt_From = [], mnt_Name = [], mnt_Secret = ''tls'', mnt_Var = [], mnt_Token = [],
     mnt_Path = [], mnt_To = ''/etc/tls'', mnt_Signal = ''SIGHUP'', mnt_Expand = False,
     mnt_ReadOnly = False, mnt_Propagation = []\<rparr>"

definition example_spec :: Spec where
  "example_spec = \<lparr>spec_Version = ''v1'', spec_Name = ''web'', spec_Count = 2, spec_Schedule = None,
     spec_Labels = [], spec_Ports = [], spec_Env = [(''DSN'', ''${secret:db}'')],
     spec_Volumes = [example_mount], spec_Restart = None, spec_Health = None,
     spec_Resources = None, spec_Logs = None, spec_StopTimeout = 0, spec_Container = None,
     spec_Exec = Some \<lparr>exec_Command = [''/bin/web'']\<rparr>\<rparr>"

end
