(* ===== verification/Driver.thy ===== *)
theory Driver
  imports Manifest
begin

text \<open>
  The vocabulary shared with the runtimes (\<open>internal/server/driver/driver.go\<close>) and the stored rows
  it is built from: instance states and instances, published ports, host paths and how a path mount
  is resolved against the allowed prefixes, and \<open>NewWorkload\<close>, which turns a stored row into the work
  a driver runs. The file system is a parameter: what \<open>filepath.EvalSymlinks\<close> answers for a path, and
  the type \<open>os.Lstat\<close> reports.
\<close>

section \<open>Instances\<close>

datatype State_driver =
  StatePending | StateRunning | StateTerminating | StateExited | StateCompleted | StateFailed

record driver_Port =
  dp_Container :: int
  dp_Host :: int
  dp_Protocol :: Protocol

record Instance =
  inst_ID :: string
  inst_Workload :: string
  inst_Index :: int
  inst_SpecHash :: string
  inst_Version :: int
  inst_State :: State_driver
  inst_ExitCode :: int
  inst_StartedAt :: time
  inst_Ports :: "driver_Port list"
  inst_RuntimeHealth :: string
  inst_Retained :: bool

record driver_Volume =
  vol_Name :: string
  vol_Host :: string
  vol_Target :: string
  vol_ReadOnly :: bool
  vol_Propagation :: string

record driver_Device =
  ddev_Host :: string
  ddev_Target :: string

record driver_Workload =
  dw_ID :: string
  dw_Name :: string
  dw_Instance :: int
  dw_Version :: int
  dw_SpecHash :: string
  dw_Env :: string_map
  dw_Ports :: "driver_Port list"
  dw_Volumes :: "driver_Volume list"
  dw_Devices :: "driver_Device list"
  dw_Labels :: string_map
  dw_Spec :: Spec

section \<open>Stored rows\<close>

record database_Workload =
  row_ID :: string
  row_Name :: string
  row_Version :: int
  row_Runtime :: string
  row_Spec :: string
  row_SpecHash :: string
  row_Labels :: string_map
  row_CreatedAt :: time
  row_UpdatedAt :: time
  row_DeletedAt :: time
  row_SuspendedAt :: time

record Target =
  tgt_Workload :: string
  tgt_Instance :: int

record database_Port =
  prt_WorkloadID :: string
  prt_Instance :: int
  prt_Name :: string
  prt_Container :: int
  prt_Host :: int
  prt_Protocol :: Protocol
  prt_Dynamic :: bool

section \<open>Host paths\<close>

record HostPath =
  hp_Path :: string
  hp_ReadOnly :: bool

datatype fs_error = ErrNotExist | ErrFS string

datatype file_mode = ModeRegular | ModeDir | ModeSocket | ModeNamedPipe | ModeDevice

record file_system =
  fs_EvalSymlinks :: "string \<Rightarrow> fs_error + string"
  fs_Lstat :: "string \<Rightarrow> file_mode option"

datatype host_path_error =
    ErrResolve string fs_error
  | ErrResolvePrefix string fs_error
  | ErrHostPathDenied string
  | ErrHostPathReadOnly string string
  | ErrHostPathNotFile string string
  | ErrRelativePrefix string

definition CutSuffix :: "string \<Rightarrow> string \<Rightarrow> string \<times> bool" where
  "CutSuffix s suf =
     (if length suf \<le> length s \<and> drop (length s - length suf) s = suf
      then (take (length s - length suf) s, True) else (s, False))"

definition ParseHostPath :: "string \<Rightarrow> host_path_error + HostPath" where
  "ParseHostPath entry =
     (let (p, readOnly) = CutSuffix entry '':ro'';
          path = (if \<not> readOnly then fst (CutSuffix entry '':rw'') else p)
      in if \<not> IsAbs path then Inl (ErrRelativePrefix entry)
         else Inr \<lparr>hp_Path = path, hp_ReadOnly = readOnly\<rparr>)"

fun ParseHostPaths :: "string list \<Rightarrow> host_path_error + HostPath list" where
  "ParseHostPaths [] = Inr []"
| "ParseHostPaths (e # es) =
     (case ParseHostPath e of
        Inl err \<Rightarrow> Inl err
      | Inr p \<Rightarrow> (case ParseHostPaths es of Inl err \<Rightarrow> Inl err | Inr ps \<Rightarrow> Inr (p # ps)))"

text \<open>
  \<open>resolve\<close> walks up from the cleaned path until a part of it exists, carrying the elements that do
  not across. The elements above the current path are kept in reverse.
\<close>

definition path_Join :: "string \<Rightarrow> string list \<Rightarrow> string" where
  "path_Join p es =
     (if es = [] then (if p = [] then [] else Clean p)
      else if p = [] then Clean (join_with ''/'' es)
      else Clean (p @ ''/'' @ join_with ''/'' es))"

fun resolve_up :: "file_system \<Rightarrow> bool \<Rightarrow> string list \<Rightarrow> string list \<Rightarrow> fs_error + string" where
  "resolve_up fs rooted [] rest =
     (case fs_EvalSymlinks fs (render_path rooted []) of
        Inr p \<Rightarrow> Inr (path_Join p rest)
      | Inl e \<Rightarrow> Inl e)"
| "resolve_up fs rooted (e # es) rest =
     (case fs_EvalSymlinks fs (render_path rooted (rev (e # es))) of
        Inr p \<Rightarrow> Inr (path_Join p rest)
      | Inl ErrNotExist \<Rightarrow> resolve_up fs rooted es (e # rest)
      | Inl err \<Rightarrow> Inl err)"

definition resolve_path :: "file_system \<Rightarrow> string \<Rightarrow> fs_error + string" where
  "resolve_path fs p = resolve_up fs (IsAbs p) (rev (clean_elements p)) []"

definition specialFile :: "file_system \<Rightarrow> string \<Rightarrow> string option" where
  "specialFile fs p = (case fs_Lstat fs p of
       Some ModeSocket \<Rightarrow> Some ''socket''
     | Some ModeNamedPipe \<Rightarrow> Some ''FIFO''
     | Some ModeDevice \<Rightarrow> Some ''device''
     | _ \<Rightarrow> None)"

definition beneath :: "string \<Rightarrow> string \<Rightarrow> bool" where
  "beneath base p \<longleftrightarrow> base = ''/'' \<or> p = base \<or> HasPrefix p (base @ ''/'')"

text \<open>The loop over the prefixes, with the match found so far and the length of its root.\<close>

fun match_prefix ::
  "file_system \<Rightarrow> string \<Rightarrow> HostPath list \<Rightarrow> (HostPath \<times> nat) option
     \<Rightarrow> host_path_error + (HostPath \<times> nat) option" where
  "match_prefix fs resolved [] best = Inr best"
| "match_prefix fs resolved (q # qs) best =
     (case resolve_path fs (hp_Path q) of
        Inl e \<Rightarrow> Inl (ErrResolvePrefix (hp_Path q) e)
      | Inr base \<Rightarrow>
          if \<not> beneath base resolved then match_prefix fs resolved qs best
          else (case best of
                  None \<Rightarrow> match_prefix fs resolved qs (Some (q, length base))
                | Some (m, depth) \<Rightarrow>
                    if length base > depth then match_prefix fs resolved qs (Some (q, length base))
                    else match_prefix fs resolved qs best))"

definition ResolveHostPath ::
  "file_system \<Rightarrow> string \<Rightarrow> bool \<Rightarrow> HostPath list \<Rightarrow> host_path_error + string" where
  "ResolveHostPath fs path readOnly prefixes =
     (case resolve_path fs path of
        Inl e \<Rightarrow> Inl (ErrResolve path e)
      | Inr resolved \<Rightarrow>
          (case match_prefix fs resolved prefixes None of
             Inl e \<Rightarrow> Inl e
           | Inr None \<Rightarrow> Inl (ErrHostPathDenied path)
           | Inr (Some (m, depth)) \<Rightarrow>
               if hp_ReadOnly m \<and> \<not> readOnly then Inl (ErrHostPathReadOnly path (hp_Path m))
               else if hp_ReadOnly m then
                 (case specialFile fs resolved of
                    Some kind \<Rightarrow> Inl (ErrHostPathNotFile path kind)
                  | None \<Rightarrow> Inr resolved)
               else Inr resolved))"

section \<open>Building the work a driver runs\<close>

text \<open>
  \<open>json.Unmarshal\<close> of a stored specification is the parameter \<open>unmarshal\<close>; \<open>DecodeWorkload\<close> fills in
  the defaults of what it returns.
\<close>

definition DecodeWorkload :: "(string \<Rightarrow> goerr + Spec) \<Rightarrow> string \<Rightarrow> goerr + Spec" where
  "DecodeWorkload unmarshal data =
     (case unmarshal data of
        Inl e \<Rightarrow> Inl (Wrapf ''failed to decode workload spec'' [e])
      | Inr s \<Rightarrow> Inr (Defaults s))"

definition new_ports :: "Port list \<Rightarrow> driver_Port list" where
  "new_ports ports = map (\<lambda>p. \<lparr>dp_Container = port_To p, dp_Host = port_From p,
       dp_Protocol = (if port_Protocol p \<noteq> unset_protocol then port_Protocol p else ProtocolTCP)\<rparr>)
     (filter (\<lambda>p. port_From p \<noteq> 0) ports)"

fun new_volumes ::
  "file_system \<Rightarrow> HostPath list \<Rightarrow> VolumeMount list \<Rightarrow> host_path_error + driver_Volume list" where
  "new_volumes fs hps [] = Inr []"
| "new_volumes fs hps (m # ms) =
     (case KindOf m of
        Inr MountVolume \<Rightarrow>
          if mnt_From m = [] then new_volumes fs hps ms
          else map_sum id (Cons \<lparr>vol_Name = mnt_Name m, vol_Host = mnt_From m, vol_Target = mnt_To m,
                 vol_ReadOnly = mnt_ReadOnly m, vol_Propagation = []\<rparr>) (new_volumes fs hps ms)
      | Inr MountPath \<Rightarrow>
          (case ResolveHostPath fs (mnt_Path m) (mnt_ReadOnly m) hps of
             Inl e \<Rightarrow> Inl e
           | Inr host \<Rightarrow>
               map_sum id (Cons \<lparr>vol_Name = mnt_Path m, vol_Host = host, vol_Target = mnt_To m,
                 vol_ReadOnly = mnt_ReadOnly m, vol_Propagation = mnt_Propagation m\<rparr>)
                 (new_volumes fs hps ms))
      | _ \<Rightarrow> new_volumes fs hps ms)"

fun new_devices ::
  "file_system \<Rightarrow> HostPath list \<Rightarrow> Device list \<Rightarrow> host_path_error + driver_Device list" where
  "new_devices fs hps [] = Inr []"
| "new_devices fs hps (d # ds) =
     (case ResolveHostPath fs (dev_Path d) True hps of
        Inl e \<Rightarrow> Inl e
      | Inr host \<Rightarrow>
          map_sum id (Cons \<lparr>ddev_Host = host,
            ddev_Target = (if dev_To d = [] then dev_Path d else dev_To d)\<rparr>) (new_devices fs hps ds))"

definition spec_Devices :: "Spec \<Rightarrow> Device list" where
  "spec_Devices s = (case spec_Container s of None \<Rightarrow> [] | Some c \<Rightarrow> con_Devices c)"

datatype workload_error = DecodeFailed goerr | HostPathFailed host_path_error

definition NewWorkload ::
  "(string \<Rightarrow> goerr + Spec) \<Rightarrow> file_system \<Rightarrow> database_Workload \<Rightarrow> HostPath list
     \<Rightarrow> workload_error + driver_Workload" where
  "NewWorkload unmarshal fs row hps =
     (case DecodeWorkload unmarshal (row_Spec row) of
        Inl e \<Rightarrow> Inl (DecodeFailed e)
      | Inr s \<Rightarrow>
          (case new_volumes fs hps (spec_Volumes s) of
             Inl e \<Rightarrow> Inl (HostPathFailed e)
           | Inr vols \<Rightarrow>
               (case new_devices fs hps (spec_Devices s) of
                  Inl e \<Rightarrow> Inl (HostPathFailed e)
                | Inr devs \<Rightarrow>
                    Inr \<lparr>dw_ID = row_ID row, dw_Name = row_Name row, dw_Instance = 0,
                      dw_Version = row_Version row, dw_SpecHash = row_SpecHash row,
                      dw_Env = spec_Env s, dw_Ports = new_ports (spec_Ports s),
                      dw_Volumes = vols, dw_Devices = devs, dw_Labels = row_Labels row,
                      dw_Spec = s\<rparr>)))"

section \<open>The tail of a probe's output\<close>

definition tailLimit :: nat where
  "tailLimit = 1024"

definition Tail_Write :: "string \<Rightarrow> string \<Rightarrow> string" where
  "Tail_Write kept p =
     (let k = kept @ p in if length k > tailLimit then drop (length k - tailLimit) k else k)"

section \<open>Lemmas\<close>

definition covers :: "file_system \<Rightarrow> string \<Rightarrow> HostPath \<Rightarrow> nat \<Rightarrow> bool" where
  "covers fs resolved q depth \<longleftrightarrow> (\<exists>base. resolve_path fs (hp_Path q) = Inr base
     \<and> beneath base resolved \<and> length base = depth)"

text \<open>
  What the loop over the prefixes finds: a prefix that covers the path, or the match it started
  with, and no prefix it has seen covers the path from deeper down.
\<close>

lemma match_prefix_found:
  assumes "match_prefix fs resolved qs best = Inr r"
    and "\<And>m d. best = Some (m, d) \<Longrightarrow> m \<in> A \<and> covers fs resolved m d"
  shows "\<forall>m d. r = Some (m, d) \<longrightarrow> m \<in> A \<union> set qs \<and> covers fs resolved m d"
  using assms
proof (induction qs arbitrary: best A)
  case Nil
  then show ?case by simp
next
  case (Cons q qs)
  from Cons.prems(1) obtain base where q: "resolve_path fs (hp_Path q) = Inr base"
    by (auto split: sum.splits)
  obtain best' where step: "match_prefix fs resolved qs best' = Inr r"
    and best': "\<And>m d. best' = Some (m, d) \<Longrightarrow> m \<in> insert q A \<and> covers fs resolved m d"
    using Cons.prems q
    by (fastforce simp: covers_def split: if_splits option.splits prod.splits)
  from Cons.IH [OF step best'] show ?case by auto
qed

lemma match_prefix_deepest:
  assumes "match_prefix fs resolved qs best = Inr r"
  shows "(\<forall>m d. best = Some (m, d) \<longrightarrow> (\<exists>m' d'. r = Some (m', d') \<and> d \<le> d'))
    \<and> (\<forall>q \<in> set qs. \<forall>d. covers fs resolved q d \<longrightarrow> (\<exists>m' d'. r = Some (m', d') \<and> d \<le> d'))"
  using assms
proof (induction qs arbitrary: best)
  case Nil
  then show ?case by simp
next
  case (Cons q qs)
  from Cons.prems obtain base where q: "resolve_path fs (hp_Path q) = Inr base"
    by (auto split: sum.splits)
  show ?case
  proof (cases "beneath base resolved")
    case False
    with Cons q show ?thesis by (auto simp: covers_def)
  next
    case True
    obtain m d where step: "match_prefix fs resolved qs (Some (m, d)) = Inr r"
      and d: "length base \<le> d" "\<And>m' d'. best = Some (m', d') \<Longrightarrow> d' \<le> d"
      using Cons.prems True q
      by (auto split: if_splits option.splits prod.splits)
    from Cons.IH [OF step] q d show ?thesis
      by (fastforce simp: covers_def)
  qed
qed

text \<open>\<open>match_prefix\<close> finds nothing exactly when no prefix covers the path.\<close>

lemma match_prefix_none:
  "match_prefix fs resolved qs None = Inr None \<Longrightarrow> q \<in> set qs \<Longrightarrow> \<not> covers fs resolved q d"
  using match_prefix_deepest [of fs resolved qs None None] by auto

lemma rev_Tail_Write: "rev (Tail_Write kept p) = take tailLimit (rev (kept @ p))"
  by (simp add: Tail_Write_def Let_def rev_drop del: rev_append length_append drop_append)

lemma Tail_Write_compose: "Tail_Write (Tail_Write kept p) q = Tail_Write kept (p @ q)"
proof -
  have "rev (Tail_Write (Tail_Write kept p) q) = rev (Tail_Write kept (p @ q))"
    by (simp add: rev_Tail_Write) (simp add: min_def)
  then show ?thesis by simp
qed

lemma Tail_Write_length: "length (Tail_Write kept p) \<le> tailLimit"
proof -
  have "length (rev (Tail_Write kept p)) \<le> tailLimit"
    by (simp add: rev_Tail_Write del: length_rev)
  then show ?thesis by simp
qed

lemma new_devices_hosts:
  "\<lbrakk>new_devices fs hps ds = Inr vs; v \<in> set vs\<rbrakk>
     \<Longrightarrow> \<exists>d \<in> set ds. ResolveHostPath fs (dev_Path d) True hps = Inr (ddev_Host v)"
  by (induction ds arbitrary: vs) (auto simp: map_sum_eq_Inr split: sum.splits)

text \<open>What a path mount contributes: the resolved path, read-only as the mount asked.\<close>

lemma new_volumes_paths:
  "\<lbrakk>new_volumes fs hps ms = Inr vs; v \<in> set vs\<rbrakk>
     \<Longrightarrow> (\<exists>m \<in> set ms. KindOf m = Inr MountVolume \<and> vol_Host v = mnt_From m)
       \<or> (\<exists>m \<in> set ms. KindOf m = Inr MountPath \<and> vol_ReadOnly v = mnt_ReadOnly m
           \<and> ResolveHostPath fs (mnt_Path m) (mnt_ReadOnly m) hps = Inr (vol_Host v))"
proof (induction ms arbitrary: vs)
  case (Cons m ms)
  show ?case
  proof (cases "KindOf m = Inr MountVolume \<or> KindOf m = Inr MountPath")
    case True
    with Cons show ?thesis
      by (fastforce simp: map_sum_eq_Inr split: sum.splits if_splits)
  next
    case False
    with Cons.prems have "new_volumes fs hps ms = Inr vs"
      by (auto split: sum.splits MountKind.splits)
    with Cons show ?thesis by auto
  qed
qed simp

section \<open>Properties\<close>

text \<open>
  C34. A host path handed to a driver is the path with its links followed, it sits beneath an allowed
  prefix that no other prefix covering the path is deeper than, and when that prefix is granted for
  reading only the mount asked to be read-only and the path is not a socket, a FIFO or a device.
\<close>

theorem ResolveHostPath_safe:
  assumes "ResolveHostPath fs path readOnly prefixes = Inr host"
  shows "resolve_path fs path = Inr host \<and>
    (\<exists>q \<in> set prefixes. \<exists>depth. covers fs host q depth
       \<and> (\<forall>q' \<in> set prefixes. \<forall>d'. covers fs host q' d' \<longrightarrow> d' \<le> depth)
       \<and> (hp_ReadOnly q \<longrightarrow> readOnly \<and> specialFile fs host = None))"
proof -
  from assms obtain m d where r: "resolve_path fs path = Inr host"
    and found: "match_prefix fs host prefixes None = Inr (Some (m, d))"
    and ro: "hp_ReadOnly m \<longrightarrow> readOnly \<and> specialFile fs host = None"
    by (auto simp: ResolveHostPath_def split: sum.splits option.splits if_splits)
  have "m \<in> set prefixes \<and> covers fs host m d"
    using match_prefix_found [OF found, of "{}"] by simp
  moreover have "\<forall>q' \<in> set prefixes. \<forall>d'. covers fs host q' d' \<longrightarrow> d' \<le> d"
    using match_prefix_deepest [OF found] by auto
  ultimately show ?thesis using r ro by blast
qed

definition example_fs :: file_system where
  "example_fs = \<lparr>fs_EvalSymlinks = (\<lambda>p. if p = ''/dev/dri/card9'' then Inl ErrNotExist else Inr p),
     fs_Lstat = (\<lambda>p. if p = ''/dev/kvm'' then Some ModeDevice else Some ModeDir)\<rparr>"

theorem ResolveHostPath_safe_witness:
  "resolve_path example_fs ''/mnt/a/../b'' = Inr ''/mnt/b''"
proof -
  have "ResolveHostPath example_fs ''/mnt/a/../b'' True
      [\<lparr>hp_Path = ''/'', hp_ReadOnly = True\<rparr>, \<lparr>hp_Path = ''/mnt'', hp_ReadOnly = False\<rparr>]
      = Inr ''/mnt/b''"
    by code_simp
  from ResolveHostPath_safe [OF this] show ?thesis by blast
qed

end
