(* ===== verification/Workload_State.thy ===== *)
theory Workload_State
  imports Driver
begin

text \<open>
  What a workload is doing overall (\<open>internal/server/state/state.go\<close>), derived from the instances
  its driver reports: \<open>Completion\<close> folds the restart policy and the schedule into an ended instance,
  \<open>Replacing\<close> the wait for an image pull, and \<open>Of\<close> ranks the states of the instances.
\<close>

datatype workload_state =
  Pending | Running | Degraded | Terminating | Stopped | Completed | Failed | Suspended

definition Workloads :: "workload_state list" where
  "Workloads = [Completed, Degraded, Failed, Pending, Running, Stopped, Suspended, Terminating]"

definition Completion :: "Instance \<Rightarrow> Restart \<Rightarrow> bool \<Rightarrow> State_driver" where
  "Completion i restart scheduled =
     (if inst_State i \<noteq> StateExited then inst_State i
      else if scheduled then StateCompleted
      else if policy_Restarts (rst_Policy restart) (inst_ExitCode i) then inst_State i
      else StateCompleted)"

definition Replacing :: "Instance \<Rightarrow> bool \<Rightarrow> State_driver" where
  "Replacing i waiting =
     (if \<not> waiting then inst_State i
      else (case inst_State i of
              StateExited \<Rightarrow> StatePending
            | StateFailed \<Rightarrow> StatePending
            | StateCompleted \<Rightarrow> StatePending
            | st \<Rightarrow> st))"

definition has_state :: "State_driver \<Rightarrow> Instance list \<Rightarrow> bool" where
  "has_state st is = list_ex (\<lambda>i. inst_State i = st) is"

definition state_Of :: "Instance list \<Rightarrow> bool \<Rightarrow> bool \<Rightarrow> workload_state" where
  "state_Of is deleting suspended =
     (if deleting then Terminating
      else if suspended then Suspended
      else if is = [] then Pending
      else
        (let running = has_state StateRunning is;
             terminating = has_state StateTerminating is;
             failed = has_state StateFailed is;
             exited = has_state StateExited is;
             completed = has_state StateCompleted is
         in if running \<and> failed then Degraded
            else if running then Running
            else if terminating then Terminating
            else if failed then Failed
            else if exited then Stopped
            else if completed then Completed
            else Pending))"

section \<open>Lemmas\<close>

lemma has_state_iff: "has_state st is \<longleftrightarrow> (\<exists>i \<in> set is. inst_State i = st)"
  by (simp add: has_state_def list_ex_iff)

lemma state_Of_perm: "set is = set js \<Longrightarrow> state_Of is d s = state_Of js d s"
  by (auto simp: state_Of_def has_state_iff)

section \<open>Properties\<close>

text \<open>
  Nothing masks a failure: a workload that is neither being deleted nor suspended and has an
  instance that failed reads as degraded when another instance is running, as terminating when one
  is on its way out and none is running, and as failed otherwise; and it reads as running, stopped
  or completed only when no instance failed. The order in which the instances are reported does not
  matter.
\<close>

lemma state_Of_failed:
  "(has_state StateFailed is \<longrightarrow>
      state_Of is False False =
        (if has_state StateRunning is then Degraded
         else if has_state StateTerminating is then Terminating else Failed))
   \<and> (state_Of is False False \<in> {Running, Stopped, Completed} \<longrightarrow> \<not> has_state StateFailed is)
   \<and> (set is = set js \<longrightarrow> state_Of is d s = state_Of js d s)"
proof (intro conjI impI)
  assume f: "has_state StateFailed is"
  then have "is \<noteq> []" by (auto simp: has_state_def)
  with f show "state_Of is False False =
      (if has_state StateRunning is then Degraded
       else if has_state StateTerminating is then Terminating else Failed)"
    by (simp add: state_Of_def Let_def)
next
  assume "state_Of is False False \<in> {Running, Stopped, Completed}"
  then show "\<not> has_state StateFailed is"
    by (auto simp: state_Of_def Let_def split: if_splits)
next
  assume "set is = set js"
  then show "state_Of is d s = state_Of js d s" by (rule state_Of_perm)
qed

lemma Completion_completed:
  "Completion i restart scheduled = StateCompleted \<longleftrightarrow>
     inst_State i = StateCompleted \<or> inst_State i = StateExited \<and>
       (scheduled \<or> \<not> policy_Restarts (rst_Policy restart) (inst_ExitCode i))"
  by (auto simp: Completion_def)

lemma Completion_failed: "inst_State i = StateFailed \<Longrightarrow> Completion i restart scheduled = StateFailed"
  by (simp add: Completion_def)

end
