(* ===== verification/Health_Check.thy ===== *)
theory Health_Check
  imports Takt_Prelude
begin

text \<open>
  The health checker (\<open>internal/server/health/health.go\<close>): the registered checks, the probes in
  flight, and how an outcome becomes a verdict. A probe itself is input and output over the network,
  so its outcome is an argument of \<open>record_result\<close>; the clock is an argument wherever the code reads
  \<open>time.Now\<close>. The probe closure of a command check is not part of a check here: a check's equality
  ignores it, and the command identifies it.

  Two fields stand for what the goroutines do: \<open>hc_running\<close> holds the probes that were started and
  have not reported, \<open>hc_cancelled\<close> the probes whose context was cancelled. The steps a checker can
  take in any order are the relation \<open>checker_step\<close>.
\<close>

section \<open>State\<close>

datatype Status = StatusStarting | StatusHealthy | StatusUnhealthy

record Check =
  chk_Address :: string
  chk_HTTP :: string
  chk_Command :: "string list"
  chk_Interval :: duration
  chk_Timeout :: duration
  chk_Retries :: int
  chk_StartPeriod :: duration

record Result =
  hr_Status :: Status
  hr_Failures :: int
  hr_CheckedAt :: time
  hr_Error :: string

type_synonym subject = slot

record check =
  ck_spec :: Check
  ck_started :: time
  ck_result :: Result
  ck_inflight :: bool
  ck_cancel :: bool
  ck_probe :: nat

record checker =
  hc_checks :: "subject \<rightharpoonup> check"
  hc_probes :: nat
  hc_wake :: bool
  hc_changed :: bool
  hc_running :: "(subject \<times> nat) set"
  hc_cancelled :: "nat set"

definition new_checker :: checker where
  "new_checker = \<lparr>hc_checks = Map.empty, hc_probes = 0, hc_wake = False, hc_changed = False,
     hc_running = {}, hc_cancelled = {}\<rparr>"

definition new_Result :: Result where
  "new_Result = \<lparr>hr_Status = StatusStarting, hr_Failures = 0, hr_CheckedAt = 0, hr_Error = []\<rparr>"

section \<open>Operations\<close>

text \<open>\<open>Check.equal\<close> compares every field but the probe function.\<close>

definition check_equal :: "Check \<Rightarrow> Check \<Rightarrow> bool" where
  "check_equal c d \<longleftrightarrow> chk_Address c = chk_Address d \<and> chk_HTTP c = chk_HTTP d
     \<and> chk_Command c = chk_Command d \<and> chk_Interval c = chk_Interval d
     \<and> chk_Timeout c = chk_Timeout d \<and> chk_Retries c = chk_Retries d
     \<and> chk_StartPeriod c = chk_StartPeriod d"

text \<open>Calling the cancel function a check holds, when it holds one.\<close>

definition cancel_existing :: "check option \<Rightarrow> nat set \<Rightarrow> nat set" where
  "cancel_existing ck cs = (case ck of
       None \<Rightarrow> cs | Some c \<Rightarrow> if ck_cancel c then insert (ck_probe c) cs else cs)"

definition checker_Set :: "string \<Rightarrow> int \<Rightarrow> Check \<Rightarrow> time \<Rightarrow> checker \<Rightarrow> checker" where
  "checker_Set w i spec now c =
     (let key = Slot w i
      in if (case hc_checks c key of None \<Rightarrow> False | Some e \<Rightarrow> check_equal (ck_spec e) spec) then c
         else c\<lparr>hc_cancelled := cancel_existing (hc_checks c key) (hc_cancelled c),
                hc_checks := (hc_checks c)(key \<mapsto>
                  \<lparr>ck_spec = spec, ck_started = now, ck_result = new_Result,
                   ck_inflight = False, ck_cancel = False, ck_probe = 0\<rparr>),
                hc_wake := True\<rparr>)"

definition checker_Forget :: "string \<Rightarrow> checker \<Rightarrow> checker" where
  "checker_Forget w c =
     c\<lparr>hc_cancelled := hc_cancelled c
          \<union> {ck_probe k | i k. hc_checks c (Slot w i) = Some k \<and> ck_cancel k},
       hc_checks := drop_workload w (hc_checks c)\<rparr>"

definition checker_ForgetInstance :: "string \<Rightarrow> int \<Rightarrow> checker \<Rightarrow> checker" where
  "checker_ForgetInstance w i c =
     c\<lparr>hc_cancelled := cancel_existing (hc_checks c (Slot w i)) (hc_cancelled c),
       hc_checks := (hc_checks c)(Slot w i := None)\<rparr>"

definition checker_Result :: "string \<Rightarrow> int \<Rightarrow> checker \<Rightarrow> Result option" where
  "checker_Result w i c = map_option ck_result (hc_checks c (Slot w i))"

text \<open>
  \<open>wait\<close> folds over the registered checks in the order the map is ranged over, and returns at once
  when one has never been checked.
\<close>

fun wait_over :: "time \<Rightarrow> check list \<Rightarrow> duration \<Rightarrow> duration" where
  "wait_over now [] wait = max wait 0"
| "wait_over now (k # ks) wait =
     (if ck_inflight k then wait_over now ks wait
      else if IsZero (hr_CheckedAt (ck_result k)) then 0
      else (let due = wrap64 (chk_Interval (ck_spec k) - time_Sub now (hr_CheckedAt (ck_result k)))
            in wait_over now ks (if due < wait then due else wait)))"

definition checker_wait :: "time \<Rightarrow> check list \<Rightarrow> duration" where
  "checker_wait now ks = (if ks = [] then Second else wait_over now ks Second)"

definition is_due :: "time \<Rightarrow> check \<Rightarrow> bool" where
  "is_due now k \<longleftrightarrow> \<not> ck_inflight k \<and>
     (IsZero (hr_CheckedAt (ck_result k))
      \<or> time_Sub now (hr_CheckedAt (ck_result k)) \<ge> chk_Interval (ck_spec k))"

definition due_one :: "time \<Rightarrow> subject \<Rightarrow> checker \<Rightarrow> checker" where
  "due_one now key c = (case hc_checks c key of
       None \<Rightarrow> c
     | Some k \<Rightarrow>
         if \<not> is_due now k then c
         else (let p = Suc (hc_probes c)
               in c\<lparr>hc_probes := p,
                    hc_checks := (hc_checks c)(key \<mapsto>
                      k\<lparr>ck_inflight := True, ck_cancel := True, ck_probe := p\<rparr>),
                    hc_running := insert (key, p) (hc_running c)\<rparr>))"

definition due :: "time \<Rightarrow> subject list \<Rightarrow> checker \<Rightarrow> checker" where
  "due now keys c = fold (due_one now) keys c"

text \<open>What an outcome makes of a check's result, which is the second half of \<open>record\<close>.\<close>

definition judge :: "Check \<Rightarrow> time \<Rightarrow> time \<Rightarrow> string option \<Rightarrow> Result \<Rightarrow> Result" where
  "judge spec began now err r0 =
     (let r = r0\<lparr>hr_CheckedAt := now\<rparr>
      in (case err of
            None \<Rightarrow> r\<lparr>hr_Status := StatusHealthy, hr_Failures := 0, hr_Error := []\<rparr>
          | Some e \<Rightarrow>
              (let r1 = r\<lparr>hr_Failures := hr_Failures r + 1, hr_Error := e\<rparr>;
                   warming = (hr_Status r1 = StatusStarting
                              \<and> time_Sub now began < chk_StartPeriod spec)
               in if \<not> warming \<and> hr_Failures r1 \<ge> chk_Retries spec
                  then r1\<lparr>hr_Status := StatusUnhealthy\<rparr> else r1)))"

definition record_result ::
  "subject \<Rightarrow> nat \<Rightarrow> string option \<Rightarrow> time \<Rightarrow> checker \<Rightarrow> checker" where
  "record_result key probe err now c = (case hc_checks c key of
       None \<Rightarrow> c
     | Some k \<Rightarrow>
         if ck_probe k \<noteq> probe then c
         else (let r = judge (ck_spec k) (ck_started k) now err (ck_result k)
               in c\<lparr>hc_checks := (hc_checks c)(key \<mapsto>
                      k\<lparr>ck_cancel := False, ck_inflight := False, ck_result := r\<rparr>),
                    hc_changed := (hc_changed c \<or> hr_Status r \<noteq> hr_Status (ck_result k))\<rparr>))"

text \<open>The goroutine of a probe: it records its outcome and its context is released.\<close>

definition finish_probe ::
  "subject \<Rightarrow> nat \<Rightarrow> string option \<Rightarrow> time \<Rightarrow> checker \<Rightarrow> checker" where
  "finish_probe key probe err now c =
     (let d = record_result key probe err now c
      in d\<lparr>hc_running := hc_running d - {(key, probe)}\<rparr>)"

section \<open>Steps\<close>

inductive checker_step :: "checker \<Rightarrow> checker \<Rightarrow> bool" where
  set: "checker_step c (checker_Set w i spec now c)"
| forget: "checker_step c (checker_Forget w c)"
| forget_instance: "checker_step c (checker_ForgetInstance w i c)"
| check_due: "checker_step c (due now keys c)"
| report: "(key, probe) \<in> hc_running c \<Longrightarrow> checker_step c (finish_probe key probe err now c)"

inductive checker_reachable :: "checker \<Rightarrow> bool" where
  start: "checker_reachable new_checker"
| step: "checker_reachable c \<Longrightarrow> checker_step c d \<Longrightarrow> checker_reachable d"

text \<open>
  The invariant: a check that is in flight holds the cancel function of the probe it names, and that
  probe is running; a running probe has been cancelled exactly when its check no longer owns it; no
  two probes share an identity, and none is numbered past the counter.
\<close>

definition owns :: "checker \<Rightarrow> subject \<Rightarrow> nat \<Rightarrow> bool" where
  "owns c key p \<longleftrightarrow> (\<exists>k. hc_checks c key = Some k \<and> ck_inflight k \<and> ck_probe k = p)"

definition checker_inv :: "checker \<Rightarrow> bool" where
  "checker_inv c \<longleftrightarrow>
     (\<forall>key k. hc_checks c key = Some k \<longrightarrow>
        ck_cancel k = ck_inflight k \<and> ck_probe k \<le> hc_probes c
        \<and> (ck_inflight k \<longrightarrow> (key, ck_probe k) \<in> hc_running c)
        \<and> (\<not> ck_inflight k \<longrightarrow> (key, ck_probe k) \<notin> hc_running c))
     \<and> (\<forall>key p. (key, p) \<in> hc_running c \<longrightarrow> 0 < p \<and> p \<le> hc_probes c
          \<and> (owns c key p \<longleftrightarrow> p \<notin> hc_cancelled c))
     \<and> (\<forall>p\<in>hc_cancelled c. p \<le> hc_probes c)
     \<and> (\<forall>key key' p. (key, p) \<in> hc_running c \<and> (key', p) \<in> hc_running c \<longrightarrow> key = key')"

section \<open>The contract the reconciler relies on\<close>

text \<open>
  What a client of the checker may assume of the four operations it calls, for some description \<open>view\<close>
  of the verdicts a checker holds.
\<close>

locale verdict_store =
  fixes put :: "string \<Rightarrow> int \<Rightarrow> Check \<Rightarrow> time \<Rightarrow> 'c \<Rightarrow> 'c"
    and drop_all :: "string \<Rightarrow> 'c \<Rightarrow> 'c"
    and drop_one :: "string \<Rightarrow> int \<Rightarrow> 'c \<Rightarrow> 'c"
    and look :: "string \<Rightarrow> int \<Rightarrow> 'c \<Rightarrow> Result option"
  assumes put_fresh: "look w i c = None \<Longrightarrow> look w i (put w i spec now c) = Some new_Result"
    and put_present: "look w i (put w i spec now c) \<noteq> None"
    and put_other: "(v, j) \<noteq> (w, i) \<Longrightarrow> look v j (put w i spec now c) = look v j c"
    and drop_all_look: "look v j (drop_all w c) = (if v = w then None else look v j c)"
    and drop_one_look: "look v j (drop_one w i c) = (if (v, j) = (w, i) then None else look v j c)"
begin

text \<open>
  A check registered after its instance was forgotten starts afresh, whatever the departed instance
  left behind and however many other checks were registered in between.
\<close>

lemma fresh_after_forget:
  assumes "Slot w i \<notin> set (map fst puts)"
  shows "look w i (put w i spec now
      (fold (\<lambda>(k, sp). put (slot_workload k) (slot_instance k) sp t) puts (drop_one w i c))) = Some new_Result"
proof -
  have "look w i (fold (\<lambda>(k, sp). put (slot_workload k) (slot_instance k) sp t) puts d) = look w i d" for d
    using assms
  proof (induction puts arbitrary: d)
    case (Cons q puts)
    then show ?case by (cases q; cases "fst q") (simp add: put_other)
  qed simp
  then have "look w i (fold (\<lambda>(k, sp). put (slot_workload k) (slot_instance k) sp t) puts (drop_one w i c)) = None"
    by (simp add: drop_one_look)
  then show ?thesis by (rule put_fresh)
qed

lemma drop_one_comm:
  "look v j (drop_one w i (drop_one w' i' c)) = look v j (drop_one w' i' (drop_one w i c))"
  by (simp add: drop_one_look)

end

interpretation hc: verdict_store checker_Set checker_Forget checker_ForgetInstance checker_Result
  by unfold_locales
    (auto simp: checker_Set_def checker_Forget_def checker_ForgetInstance_def checker_Result_def
      Let_def split: option.splits)

section \<open>Lemmas on the invariant\<close>

lemma checker_invI:
  assumes "\<And>key k. hc_checks c key = Some k \<Longrightarrow> ck_cancel k = ck_inflight k"
    and "\<And>key k. hc_checks c key = Some k \<Longrightarrow> ck_probe k \<le> hc_probes c"
    and "\<And>key k. hc_checks c key = Some k \<Longrightarrow> ck_inflight k \<longleftrightarrow> (key, ck_probe k) \<in> hc_running c"
    and "\<And>key p. (key, p) \<in> hc_running c \<Longrightarrow> 0 < p \<and> p \<le> hc_probes c"
    and "\<And>key p. (key, p) \<in> hc_running c \<Longrightarrow> owns c key p \<longleftrightarrow> p \<notin> hc_cancelled c"
    and "\<And>key key' p. (key, p) \<in> hc_running c \<Longrightarrow> (key', p) \<in> hc_running c \<Longrightarrow> key = key'"
    and "\<And>p. p \<in> hc_cancelled c \<Longrightarrow> p \<le> hc_probes c"
  shows "checker_inv c"
  unfolding checker_inv_def using assms by blast

lemma checker_invD:
  assumes "checker_inv c"
  shows "hc_checks c key = Some k \<Longrightarrow> ck_cancel k = ck_inflight k"
    and "hc_checks c key = Some k \<Longrightarrow> ck_probe k \<le> hc_probes c"
    and "hc_checks c key = Some k \<Longrightarrow> ck_inflight k \<longleftrightarrow> (key, ck_probe k) \<in> hc_running c"
    and "(key, p) \<in> hc_running c \<Longrightarrow> 0 < p \<and> p \<le> hc_probes c"
    and "(key, p) \<in> hc_running c \<Longrightarrow> owns c key p \<longleftrightarrow> p \<notin> hc_cancelled c"
    and "(key, p) \<in> hc_running c \<Longrightarrow> (key', p) \<in> hc_running c \<Longrightarrow> key = key'"
    and "p \<in> hc_cancelled c \<Longrightarrow> p \<le> hc_probes c"
  using assms unfolding checker_inv_def by blast+

text \<open>Dropping or replacing one check keeps the invariant: its probe in flight is cancelled.\<close>

lemma checker_inv_replace:
  assumes inv: "checker_inv c"
    and new: "\<And>k. x = Some k \<Longrightarrow> \<not> ck_inflight k \<and> \<not> ck_cancel k \<and> ck_probe k = 0"
  shows "checker_inv (c\<lparr>hc_cancelled := cancel_existing (hc_checks c key) (hc_cancelled c),
      hc_checks := (hc_checks c)(key := x), hc_wake := b\<rparr>)"
proof -
  note D = checker_invD [OF inv]
  have cancelled: "p \<in> cancel_existing (hc_checks c key) (hc_cancelled c)
      \<longleftrightarrow> p \<in> hc_cancelled c \<or> owns c key p" for p
    using D(1) by (auto simp: owns_def cancel_existing_def split: option.splits)
  have zero: "(key', 0) \<notin> hc_running c" for key'
    using D(4) by fastforce
  show ?thesis
  proof (rule checker_invI, goal_cases)
    case (1 key' k) then show ?case using D(1) new by (simp split: if_splits)
  next
    case (2 key' k) then show ?case using D(2) new by (simp split: if_splits)
  next
    case (3 key' k) then show ?case using D(3) new zero by (simp split: if_splits)
  next
    case (4 key' p) then show ?case using D(4) by simp
  next
    case (5 key' p)
    then have run: "(key', p) \<in> hc_running c" by simp
    have "\<not> owns c key p" if "key' \<noteq> key"
      using that run D(3) D(6) by (auto simp: owns_def)
    with run D(5) cancelled new show ?case by (cases "key' = key") (auto simp: owns_def)
  next
    case (6 key' key'' p) then show ?case using D(6) by simp
  next
    case (7 p) then show ?case using D(2) D(7) cancelled by (auto simp: owns_def)
  qed
qed

lemma checker_inv_Set: "checker_inv c \<Longrightarrow> checker_inv (checker_Set w i spec now c)"
  using checker_inv_replace [where c = c and key = "Slot w i" and b = True
      and x = "Some \<lparr>ck_spec = spec, ck_started = now, ck_result = new_Result,
        ck_inflight = False, ck_cancel = False, ck_probe = 0\<rparr>"]
  by (simp add: checker_Set_def Let_def)

lemma checker_inv_ForgetInstance: "checker_inv c \<Longrightarrow> checker_inv (checker_ForgetInstance w i c)"
  using checker_inv_replace [where c = c and x = None and key = "Slot w i" and b = "hc_wake c"]
  by (simp add: checker_ForgetInstance_def)

lemma checker_inv_Forget:
  assumes inv: "checker_inv c"
  shows "checker_inv (checker_Forget w c)"
proof -
  note D = checker_invD [OF inv]
  show ?thesis
  proof (rule checker_invI, goal_cases)
    case (5 key p)
    then have run: "(key, p) \<in> hc_running c" by (simp add: checker_Forget_def)
    have "owns (checker_Forget w c) key p \<longleftrightarrow> owns c key p \<and> slot_workload key \<noteq> w"
      by (auto simp: owns_def checker_Forget_def)
    moreover have "p \<in> hc_cancelled (checker_Forget w c) \<longleftrightarrow>
        p \<in> hc_cancelled c \<or> owns c key p \<and> slot_workload key = w"
    proof -
      have "(\<exists>i k. hc_checks c (Slot w i) = Some k \<and> ck_cancel k \<and> ck_probe k = p)
          \<longleftrightarrow> owns c key p \<and> slot_workload key = w"
      proof
        assume "\<exists>i k. hc_checks c (Slot w i) = Some k \<and> ck_cancel k \<and> ck_probe k = p"
        then obtain i k where k: "hc_checks c (Slot w i) = Some k" "ck_inflight k" "ck_probe k = p"
          using D(1) by blast
        then have "key = Slot w i" using D(3) D(6) [OF run] by blast
        with k show "owns c key p \<and> slot_workload key = w" by (simp add: owns_def)
      next
        assume "owns c key p \<and> slot_workload key = w"
        then show "\<exists>i k. hc_checks c (Slot w i) = Some k \<and> ck_cancel k \<and> ck_probe k = p"
          using D(1) by (cases key) (auto simp: owns_def)
      qed
      then show ?thesis by (auto simp: checker_Forget_def)
    qed
    ultimately show ?case using D(5) [OF run] by blast
  qed (use D in \<open>auto simp: checker_Forget_def split: if_splits\<close>)
qed

lemma checker_inv_due_one:
  assumes inv: "checker_inv c"
  shows "checker_inv (due_one now key c)"
proof (cases "hc_checks c key")
  case None
  with assms show ?thesis by (simp add: due_one_def)
next
  case (Some k)
  note D = checker_invD [OF inv]
  have fresh: "(key', Suc (hc_probes c)) \<notin> hc_running c" for key'
    using D(4) by fastforce
  show ?thesis
  proof (cases "is_due now k")
    case False
    with Some assms show ?thesis by (simp add: due_one_def)
  next
    case True
    then have idle: "(key, ck_probe k) \<notin> hc_running c"
      using D(3) [OF Some] by (simp add: is_due_def)
    let ?d = "due_one now key c"
    have d: "?d = c\<lparr>hc_probes := Suc (hc_probes c), hc_checks := (hc_checks c)(key \<mapsto>
        k\<lparr>ck_inflight := True, ck_cancel := True, ck_probe := Suc (hc_probes c)\<rparr>),
        hc_running := insert (key, Suc (hc_probes c)) (hc_running c)\<rparr>"
      using Some True by (simp add: due_one_def Let_def)
    show ?thesis
      unfolding d
    proof (rule checker_invI, goal_cases)
      case (1 key' k') then show ?case using D(1) by (auto split: if_splits)
    next
      case (2 key' k') then show ?case by (auto split: if_splits intro: le_SucI D(2))
    next
      case (3 key' k') then show ?case using D(2) D(3) by (fastforce split: if_splits)
    next
      case (4 key' p) then show ?case using D(4) by fastforce
    next
      case (5 key' p)
      show ?case
      proof (cases "p = Suc (hc_probes c)")
        case True
        then have "key' = key" using 5 fresh by simp
        with True D(7) show ?thesis by (fastforce simp: owns_def)
      next
        case old: False
        then have run: "(key', p) \<in> hc_running c" using 5 by simp
        then have "key' \<noteq> key \<or> \<not> owns c key' p" using idle Some by (auto simp: owns_def)
        with D(5) [OF run] old show ?thesis by (auto simp: owns_def)
      qed
    next
      case (6 key' key'' p) then show ?case using D(6) fresh by auto
    next
      case (7 p) then show ?case using D(7) by fastforce
    qed
  qed
qed

lemma checker_inv_due: "checker_inv c \<Longrightarrow> checker_inv (due now keys c)"
  unfolding due_def by (induction keys arbitrary: c) (simp_all add: checker_inv_due_one)

lemma checker_inv_finish:
  assumes inv: "checker_inv c" and run: "(key, probe) \<in> hc_running c"
  shows "checker_inv (finish_probe key probe err now c)"
proof -
  note D = checker_invD [OF inv]
  show ?thesis
  proof (cases "owns c key probe")
    case False
    then have d: "finish_probe key probe err now c
        = c\<lparr>hc_running := hc_running c - {(key, probe)}\<rparr>"
      using D(3) run by (auto simp: finish_probe_def record_result_def owns_def split: option.splits)
    have other: "\<not> (ck_probe k = probe)" if "hc_checks c key = Some k" for k
      using that D(3) False run by (auto simp: owns_def)
    show ?thesis unfolding d
    proof (rule checker_invI, goal_cases)
      case (3 key' k) then show ?case using D(3) other by auto
    next
      case (5 key' p) then show ?case using D(5) by (auto simp: owns_def)
    next
      case (6 key' key'' p) then show ?case using D(6) by auto
    qed (use D in auto)
  next
    case True
    then obtain k where k: "hc_checks c key = Some k" "ck_inflight k" "ck_probe k = probe"
      by (auto simp: owns_def)
    then obtain r b where d: "finish_probe key probe err now c = c\<lparr>hc_checks := (hc_checks c)(key \<mapsto>
        k\<lparr>ck_cancel := False, ck_inflight := False, ck_result := r\<rparr>), hc_changed := b,
        hc_running := hc_running c - {(key, probe)}\<rparr>"
      by (simp add: finish_probe_def record_result_def Let_def)
    show ?thesis unfolding d
    proof (rule checker_invI, goal_cases)
      case (1 key' k') then show ?case using D(1) by (auto split: if_splits)
    next
      case (2 key' k') then show ?case using D(2) k by (auto split: if_splits)
    next
      case (3 key' k') then show ?case using D(3) k by (auto split: if_splits)
    next
      case (4 key' p) then show ?case using D(4) by auto
    next
      case (5 key' p)
      then have "owns c key' p \<longleftrightarrow> p \<notin> hc_cancelled c" using D(5) by simp
      moreover have "key' \<noteq> key \<or> p \<noteq> probe" using 5 by simp
      ultimately show ?case using k by (auto simp: owns_def)
    next
      case (6 key' key'' p) then show ?case using D(6) by auto
    next
      case (7 p) then show ?case using D(7) by simp
    qed
  qed
qed

lemma checker_inv_new: "checker_inv new_checker"
  by (simp add: checker_inv_def new_checker_def)

lemma checker_inv_step: "checker_step c d \<Longrightarrow> checker_inv c \<Longrightarrow> checker_inv d"
  by (induction rule: checker_step.induct)
    (simp_all add: checker_inv_Set checker_inv_Forget checker_inv_ForgetInstance checker_inv_due
      checker_inv_finish)

lemma checker_reachable_inv: "checker_reachable c \<Longrightarrow> checker_inv c"
  by (induction rule: checker_reachable.induct) (auto intro: checker_inv_new checker_inv_step)

section \<open>Properties\<close>

text \<open>
  A running probe that was not cancelled is the one its subject's check has in flight, so a subject
  never has two of them; and a probe that was cancelled reports to nobody.
\<close>

lemma cancelled_not_owned:
  assumes inv: "checker_inv c" and run: "(key, p) \<in> hc_running c" and "p \<in> hc_cancelled c"
  shows "hc_checks (finish_probe key p err now c) = hc_checks c
      \<and> hc_changed (finish_probe key p err now c) = hc_changed c"
proof -
  have "ck_probe k \<noteq> p" if "hc_checks c key = Some k" for k
    using that checker_invD(3) [OF inv that] checker_invD(5) [OF inv run] assms(2,3)
    by (auto simp: owns_def)
  then show ?thesis
    by (auto simp: finish_probe_def record_result_def Let_def split: option.splits)
qed

text \<open>
  C31. In every state the checker can reach, whatever the order of registrations, removals, ticks
  and reports: a subject has at most one probe running that was not cancelled, and it is the one its
  registered check has in flight; and the report of a probe that was cancelled, because its check was
  replaced or forgotten, changes no check, no verdict and wakes nobody.
\<close>

theorem probes_exclusive:
  assumes "checker_reachable c"
  shows "(\<forall>key p q. (key, p) \<in> hc_running c \<and> (key, q) \<in> hc_running c
            \<and> p \<notin> hc_cancelled c \<and> q \<notin> hc_cancelled c \<longrightarrow> p = q)
    \<and> (\<forall>key p. (key, p) \<in> hc_running c \<and> p \<notin> hc_cancelled c \<longrightarrow>
         (\<exists>k. hc_checks c key = Some k \<and> ck_inflight k \<and> ck_probe k = p))
    \<and> (\<forall>key p err now. (key, p) \<in> hc_running c \<and> p \<in> hc_cancelled c \<longrightarrow>
         hc_checks (finish_probe key p err now c) = hc_checks c
         \<and> hc_changed (finish_probe key p err now c) = hc_changed c)"
proof -
  have inv: "checker_inv c" using assms by (rule checker_reachable_inv)
  have own: "owns c key p" if "(key, p) \<in> hc_running c" "p \<notin> hc_cancelled c" for key p
    using checker_invD(5) [OF inv that(1)] that(2) by simp
  have unique: "p = q" if "owns c key p" "owns c key q" for key p q
    using that by (auto simp: owns_def)
  show ?thesis
    using own unique cancelled_not_owned [OF inv] unfolding owns_def by blast
qed

definition example_Check :: Check where
  "example_Check = \<lparr>chk_Address = ''127.0.0.1:80'', chk_HTTP = ''/healthz'', chk_Command = [],
     chk_Interval = 10 * Second, chk_Timeout = Second, chk_Retries = 2, chk_StartPeriod = Minute\<rparr>"

definition example_checker :: checker where
  "example_checker = checker_Set ''web'' 0 (example_Check\<lparr>chk_HTTP := ''/ready''\<rparr>) 7
     (due 6 [Slot ''web'' 0] (checker_Set ''web'' 0 example_Check 5 new_checker))"

lemma example_checker_running:
  "hc_running example_checker = {(Slot ''web'' 0, 1)}" "hc_cancelled example_checker = {1}"
  by (simp_all add: example_checker_def example_Check_def checker_Set_def due_def due_one_def
      is_due_def check_equal_def new_checker_def new_Result_def cancel_existing_def Let_def)

lemma example_checker_reachable: "checker_reachable example_checker"
  unfolding example_checker_def
  by (intro checker_reachable.step [OF _ checker_step.set]
      checker_reachable.step [OF _ checker_step.check_due] checker_reachable.start)

theorem probes_exclusive_witness:
  "checker_reachable example_checker
   \<and> hc_checks (finish_probe (Slot ''web'' 0) 1 None 8 example_checker) = hc_checks example_checker"
  using probes_exclusive [OF example_checker_reachable, THEN conjunct2, THEN conjunct2, rule_format,
      of "Slot ''web'' 0" 1]
  by (simp add: example_checker_running example_checker_reachable)

text \<open>The verdict after a run of outcomes, each with the time it was recorded at, the latest last.\<close>

definition judge_all :: "Check \<Rightarrow> time \<Rightarrow> (time \<times> string option) list \<Rightarrow> Result" where
  "judge_all spec began outs = fold (\<lambda>(now, err). judge spec began now err) outs new_Result"

definition streak :: "(time \<times> string option) list \<Rightarrow> nat" where
  "streak outs = length (takeWhile (\<lambda>(t, e). e \<noteq> None) (rev outs))"

definition passed :: "(time \<times> string option) list \<Rightarrow> bool" where
  "passed outs \<longleftrightarrow> (\<exists>t. (t, None) \<in> set outs)"

lemma streak_snoc [simp]:
  "streak (outs @ [(t, e)]) = (if e = None then 0 else Suc (streak outs))"
  by (simp add: streak_def)

lemma passed_snoc [simp]: "passed (outs @ [(t, e)]) \<longleftrightarrow> e = None \<or> passed outs"
  by (auto simp: passed_def)

lemma judge_all_snoc [simp]:
  "judge_all spec began (outs @ [(t, e)]) = judge spec began t e (judge_all spec began outs)"
  by (simp add: judge_all_def)

lemma judge_all_failures: "hr_Failures (judge_all spec began outs) = int (streak outs)"
proof (induction outs rule: rev_induct)
  case Nil
  then show ?case by (simp add: judge_all_def new_Result_def streak_def)
next
  case (snoc o' outs)
  then show ?case by (cases o') (auto simp: judge_def Let_def split: option.splits)
qed

text \<open>
  The verdict is a function of the whole run of probe outcomes: the failure count is the length
  of the trailing run of failures; the subject is unhealthy exactly when the latest probe failed, that
  run is at least \<open>Retries\<close> long and the subject either passed before or is past its start period;
  it is healthy when it passed before and is not unhealthy, and starting otherwise.
\<close>

lemma verdict_characterisation:
  assumes "sorted (map fst outs)"
  shows "hr_Failures (judge_all spec began outs) = int (streak outs)
    \<and> hr_Status (judge_all spec began outs) =
       (if 0 < streak outs \<and> int (streak outs) \<ge> chk_Retries spec
           \<and> (passed outs \<or> time_Sub (fst (last outs)) began \<ge> chk_StartPeriod spec)
        then StatusUnhealthy
        else if passed outs then StatusHealthy else StatusStarting)"
proof (rule conjI [OF judge_all_failures])
  show "hr_Status (judge_all spec began outs) =
       (if 0 < streak outs \<and> int (streak outs) \<ge> chk_Retries spec
           \<and> (passed outs \<or> time_Sub (fst (last outs)) began \<ge> chk_StartPeriod spec)
        then StatusUnhealthy
        else if passed outs then StatusHealthy else StatusStarting)"
    using assms
  proof (induction outs rule: rev_induct)
    case Nil
    then show ?case by (simp add: judge_all_def new_Result_def streak_def passed_def)
  next
    case (snoc o' outs)
    obtain t e where o': "o' = (t, e)" by (cases o')
    have later: "time_Sub (fst (last outs)) began \<le> time_Sub t began" if "outs \<noteq> []"
      using snoc.prems that by (intro time_Sub_mono) (simp add: o' sorted_append)
    have empty: "streak [] = 0" by (simp add: streak_def)
    show ?case
    proof (cases e)
      case None
      then show ?thesis by (simp add: o' judge_def Let_def)
    next
      case (Some m)
      then show ?thesis
        using snoc.IH snoc.prems later judge_all_failures [of spec began outs] empty
        by (cases "outs = []")
          (auto simp: o' judge_def judge_all_def Let_def sorted_append passed_def streak_def)
    qed
  qed
qed

text \<open>The loop's wait: at most a second, never negative, and nothing only when a check is due.\<close>

lemma wait_over_bounds: "w \<le> b \<Longrightarrow> 0 \<le> b \<Longrightarrow> 0 \<le> wait_over now ks w \<and> wait_over now ks w \<le> b"
  by (induction now ks w rule: wait_over.induct) (auto simp: Let_def)

definition timely :: "time \<Rightarrow> check \<Rightarrow> bool" where
  "timely now k \<longleftrightarrow> 0 < chk_Interval (ck_spec k) \<and> chk_Interval (ck_spec k) \<le> maxDuration
     \<and> hr_CheckedAt (ck_result k) \<le> now"

lemma timely_due:
  assumes "timely now k"
  shows "wrap64 (chk_Interval (ck_spec k) - time_Sub now (hr_CheckedAt (ck_result k)))
    = chk_Interval (ck_spec k) - time_Sub now (hr_CheckedAt (ck_result k))"
  using assms by (intro wrap64_id) (auto simp: timely_def time_Sub_def minDuration_def maxDuration_def)

lemma wait_over_zero:
  assumes "\<forall>k\<in>set ks. timely now k"
  shows "wait_over now ks w = 0 \<longleftrightarrow> w \<le> 0 \<or> (\<exists>k\<in>set ks. is_due now k)"
  using assms
proof (induction now ks w rule: wait_over.induct)
  case (2 now k ks w)
  then show ?case
    by (auto simp: is_due_def Let_def timely_due)
qed auto

text \<open>
  The checker's loop never waits longer than a second nor a negative time, so a check registered
  in the meantime is looked at within a second; and it waits no time at all exactly when a registered
  check is due, so it neither sleeps past a due check nor spins while none is, in particular not while
  a probe is unanswered.
\<close>

lemma checker_wait_exact:
  assumes "\<forall>k\<in>set ks. timely now k"
  shows "0 \<le> checker_wait now ks \<and> checker_wait now ks \<le> Second
    \<and> (checker_wait now ks = 0 \<longleftrightarrow> (\<exists>k\<in>set ks. is_due now k))"
  using wait_over_bounds [of Second Second now ks] wait_over_zero [OF assms, of Second]
  by (simp add: checker_wait_def)

text \<open>
  A check registered after its instance was forgotten starts afresh, with no failures and no
  verdict carried over, however many checks of other instances were registered in between.
\<close>

lemma check_fresh_after_forget:
  assumes "Slot w i \<notin> set (map fst puts)"
  shows "checker_Result w i (checker_Set w i spec now
      (fold (\<lambda>(k, sp). checker_Set (slot_workload k) (slot_instance k) sp t) puts
        (checker_ForgetInstance w i c))) = Some new_Result"
  using assms by (rule hc.fresh_after_forget)

end
