(* ===== verification/Go_Text.thy ===== *)
theory Go_Text
  imports Takt_Prelude
begin

text \<open>
  What validation uses of the standard library's text packages, on strings as lists of bytes:
  \<open>utf8.ValidString\<close>, whether a string holds a control character, and \<open>url.Parse\<close> as far as a check
  for a bare path needs it.
\<close>

section \<open>UTF-8\<close>

abbreviation byte :: "char \<Rightarrow> nat" where
  "byte c \<equiv> of_char c"

definition in_range :: "nat \<Rightarrow> nat \<Rightarrow> char \<Rightarrow> bool" where
  "in_range lo hi c \<longleftrightarrow> lo \<le> byte c \<and> byte c \<le> hi"

abbreviation continuation :: "char \<Rightarrow> bool" where
  "continuation c \<equiv> in_range 128 191 c"

text \<open>
  What may follow a leading byte: the range the next byte lies in and how many continuation bytes come
  after that one. \<open>None\<close> for a byte that leads nothing.
\<close>

definition utf8_lead :: "char \<Rightarrow> (nat \<times> nat \<times> nat) option" where
  "utf8_lead c =
     (if in_range 194 223 c then Some (128, 191, 0)
      else if byte c = 224 then Some (160, 191, 1)
      else if byte c = 237 then Some (128, 159, 1)
      else if in_range 225 239 c then Some (128, 191, 1)
      else if byte c = 240 then Some (144, 191, 2)
      else if in_range 241 243 c then Some (128, 191, 2)
      else if byte c = 244 then Some (128, 143, 2)
      else None)"

fun ValidString :: "string \<Rightarrow> bool" where
  "ValidString [] = True"
| "ValidString (c # cs) =
     (if byte c < 128 then ValidString cs
      else case utf8_lead c of
        None \<Rightarrow> False
      | Some (lo, hi, n) \<Rightarrow>
          (case cs of
             [] \<Rightarrow> False
           | d # ds \<Rightarrow> in_range lo hi d \<and> n \<le> length ds \<and> list_all continuation (take n ds)
                       \<and> ValidString (drop n ds)))"

text \<open>
  \<open>strings.ContainsFunc(s, unicode.IsControl)\<close> of a valid string: the control characters are the
  bytes below 32, the byte 127, and the code points 128 to 159, which are encoded in two bytes.
\<close>

fun ContainsControl :: "string \<Rightarrow> bool" where
  "ContainsControl [] = False"
| "ContainsControl (c # cs) =
     (byte c < 32 \<or> byte c = 127
      \<or> (byte c = 194 \<and> cs \<noteq> [] \<and> in_range 128 159 (hd cs))
      \<or> ContainsControl cs)"

section \<open>URLs\<close>

definition Cut_at :: "char \<Rightarrow> string \<Rightarrow> string \<times> string" where
  "Cut_at sep s = (takeWhile (\<lambda>c. c \<noteq> sep) s, tl (dropWhile (\<lambda>c. c \<noteq> sep) s))"

definition ascii_letter :: "char \<Rightarrow> bool" where
  "ascii_letter c \<longleftrightarrow> in_range 97 122 c \<or> in_range 65 90 c"

definition ascii_digit :: "char \<Rightarrow> bool" where
  "ascii_digit c \<longleftrightarrow> in_range 48 57 c"

definition hex_value :: "char \<Rightarrow> nat option" where
  "hex_value c =
     (if ascii_digit c then Some (byte c - 48)
      else if in_range 97 102 c then Some (byte c - 87)
      else if in_range 65 70 c then Some (byte c - 55)
      else None)"

text \<open>Unescaping a path or a fragment: a percent sign is followed by two hexadecimal digits.\<close>

fun url_unescape :: "string \<Rightarrow> string option" where
  "url_unescape [] = Some []"
| "url_unescape (c # cs) =
     (if c \<noteq> CHR ''%'' then map_option (Cons c) (url_unescape cs)
      else (case cs of
         h # l # rest \<Rightarrow>
           (case (hex_value h, hex_value l) of
              (Some a, Some b) \<Rightarrow> map_option (Cons (char_of (16 * a + b))) (url_unescape rest)
            | _ \<Rightarrow> None)
       | _ \<Rightarrow> None))"

text \<open>The scheme and what follows it; \<open>None\<close> when the text starts with a colon.\<close>

fun scheme_from :: "string \<Rightarrow> string \<Rightarrow> string \<Rightarrow> (string \<times> string) option" where
  "scheme_from whole seen [] = Some ([], whole)"
| "scheme_from whole seen (c # cs) =
     (if ascii_letter c then scheme_from whole (seen @ [c]) cs
      else if ascii_digit c \<or> c \<in> set ''+-.'' then
        (if seen = [] then Some ([], whole) else scheme_from whole (seen @ [c]) cs)
      else if c = CHR '':'' then (if seen = [] then None else Some (seen, cs))
      else Some ([], whole))"

definition getScheme :: "string \<Rightarrow> (string \<times> string) option" where
  "getScheme s = scheme_from s [] s"

text \<open>
  The parts of a parsed URL. The authority is kept unparsed: an empty one gives no host and no user, and
  any other either fails to parse or gives a host that is not empty or a user.
\<close>

record url_parts =
  url_Scheme :: string
  url_Authority :: string
  url_Path :: string

definition url_path :: "string \<Rightarrow> string \<Rightarrow> string \<Rightarrow> url_parts option" where
  "url_path scheme authority rest =
     map_option (\<lambda>p. \<lparr>url_Scheme = scheme, url_Authority = authority, url_Path = p\<rparr>) (url_unescape rest)"

definition url_rest :: "string \<Rightarrow> string \<Rightarrow> url_parts option" where
  "url_rest scheme rest =
     (if \<not> HasPrefix rest ''/'' \<and> scheme \<noteq> [] then
        Some \<lparr>url_Scheme = scheme, url_Authority = [], url_Path = []\<rparr>
      else if \<not> HasPrefix rest ''/'' \<and> CHR '':'' \<in> set (fst (Cut_at (CHR ''/'') rest)) then None
      else if (scheme \<noteq> [] \<or> \<not> HasPrefix rest ''///'') \<and> HasPrefix rest ''//'' then
        (let authority = takeWhile (\<lambda>c. c \<noteq> CHR ''/'') (drop 2 rest)
         in url_path scheme authority (drop (2 + length authority) rest))
      else url_path scheme [] rest)"

definition url_Parse :: "string \<Rightarrow> url_parts option" where
  "url_Parse raw =
     (let (u, frag) = Cut_at (CHR ''#'') raw
      in if list_ex (\<lambda>c. byte c < 32 \<or> byte c = 127) u then None
         else if url_unescape frag = None then None
         else if u = ''*'' then Some \<lparr>url_Scheme = [], url_Authority = [], url_Path = ''*''\<rparr>
         else (case getScheme u of
                 None \<Rightarrow> None
               | Some (scheme, rest) \<Rightarrow> url_rest scheme (fst (Cut_at (CHR ''?'') rest))))"

section \<open>Lemmas\<close>

text \<open>A valid string without control characters is printable byte by byte.\<close>

lemma not_ContainsControl_bytes:
  "\<not> ContainsControl s \<Longrightarrow> c \<in> set s \<Longrightarrow> 32 \<le> byte c \<and> byte c \<noteq> 127"
  by (induction s) auto

lemma getScheme_slash: "getScheme (CHR ''/'' # cs) = Some ([], CHR ''/'' # cs)"
  by (simp add: getScheme_def ascii_letter_def ascii_digit_def in_range_def)

lemma url_unescape_slash: "url_unescape (CHR ''/'' # cs) = map_option (Cons (CHR ''/'')) (url_unescape cs)"
  by simp

end
