(* ===== verification/Manifest_Validation.thy ===== *)
theory Manifest_Validation
  imports Manifest Go_Text
begin

text \<open>
  Validation of a workload specification (\<open>ValidateWorkload\<close> of \<open>pkg/manifest/workload.go\<close> and what it
  calls, with the header and label rules of \<open>pkg/manifest/manifest.go\<close> and \<open>validateEnv\<close> of
  \<open>pkg/manifest/reference.go\<close>), one definition per function, in the order of the checks.

  A result is \<open>None\<close> for Go's nil and the error otherwise. An error carries its format string; the
  values the message formats are left out. The parsers that are not part of the repository, which read a
  cron expression, a size and an image name, are the fields of the record \<open>parsers\<close>. A number of CPUs is a
  rational number, so the float that is not a number is not represented.
\<close>

section \<open>Sequences of checks\<close>

text \<open>The first error of a sequence of checks, and the error of one check.\<close>

fun first_err :: "goerr option list \<Rightarrow> goerr option" where
  "first_err [] = None"
| "first_err (x # xs) = (case x of Some e \<Rightarrow> Some e | None \<Rightarrow> first_err xs)"

definition refuse :: "bool \<Rightarrow> string \<Rightarrow> goerr option" where
  "refuse b message = (if b then Some (ErrMsg message) else None)"

abbreviation wrapped :: "string \<Rightarrow> goerr option \<Rightarrow> goerr option" where
  "wrapped message \<equiv> map_option (\<lambda>e. Wrapf message [e])"

named_theorems accepts \<open>when a check accepts\<close>

lemma first_err_None [accepts]: "first_err xs = None \<longleftrightarrow> (\<forall>x\<in>set xs. x = None)"
  by (induction xs) (auto split: option.splits)

declare ball_Un [accepts]
declare first_err.simps [simp del]

lemma refuse_None [accepts]: "refuse b message = None \<longleftrightarrow> \<not> b"
  by (simp add: refuse_def)

lemma case_err_None [accepts]:
  "(case x of Some e \<Rightarrow> Some e | None \<Rightarrow> y) = None \<longleftrightarrow> x = None \<and> y = (None :: goerr option)"
  by (cases x) simp_all

section \<open>Third-party parsers\<close>

record parsers =
  ps_cron :: "string \<Rightarrow> bool"
  ps_RAMInBytes :: "string \<Rightarrow> int option"
  ps_image :: "string \<Rightarrow> bool"

definition is_size :: "parsers \<Rightarrow> string \<Rightarrow> bool" where
  "is_size ps s = (case ps_RAMInBytes ps s of None \<Rightarrow> False | Some n \<Rightarrow> n > 0)"

section \<open>Header and labels\<close>

definition version :: string where
  "version = ''v1''"

definition maxLabels :: nat where
  "maxLabels = 32"

definition maxLabelValueLength :: nat where
  "maxLabelValueLength = 256"

definition reservedLabelPrefix :: string where
  "reservedLabelPrefix = ''takt.''"

text \<open>\<open>^[a-z0-9]([a-z0-9._/-]*[a-z0-9])?$\<close>\<close>

definition labelKeyPattern :: "string \<Rightarrow> bool" where
  "labelKeyPattern s \<longleftrightarrow> s \<noteq> [] \<and> lower_alnum (hd s) \<and> lower_alnum (last s)
     \<and> list_all (\<lambda>c. lower_alnum c \<or> c \<in> set ''._/-'') s"

definition validateVersion :: "string \<Rightarrow> goerr option" where
  "validateVersion v = first_err
     [refuse (v = []) ''invalid manifest: version is required'',
      refuse (v \<noteq> version) ''invalid manifest: version must be %q'']"

definition ValidateName :: "string \<Rightarrow> goerr option" where
  "ValidateName name = first_err
     [refuse (name = []) ''name is required'',
      refuse (length name > 63) ''name must be at most 63 characters'',
      refuse (\<not> namePattern name) ''name must be lowercase alphanumeric, optionally separated by dashes'']"

definition validateHeader :: "string \<Rightarrow> string \<Rightarrow> goerr option" where
  "validateHeader v name = first_err
     [validateVersion v, wrapped ''invalid manifest'' (ValidateName name)]"

definition validateLabel :: "string \<Rightarrow> string \<Rightarrow> goerr option" where
  "validateLabel key v = first_err
     [refuse (HasPrefix key reservedLabelPrefix) ''invalid labels: key %q uses the %q prefix'',
      refuse (\<not> labelKeyPattern key \<or> length key > maxLabelKeyLength)
        ''invalid labels: key %q must be lowercase alphanumeric'',
      refuse (\<not> ValidString v) ''invalid labels: the value of %q is not valid UTF-8'',
      refuse (ContainsControl v) ''invalid labels: the value of %q contains a control character'',
      refuse (length v > maxLabelValueLength) ''invalid labels: the value of %q is too long'']"

definition ValidateLabels :: "string_map \<Rightarrow> goerr option" where
  "ValidateLabels labels = first_err
     (refuse (length labels > maxLabels) ''invalid labels: %d labels exceeds the maximum of %d''
      # map (\<lambda>key. validateLabel key (lookup_str labels key)) (sort (map fst labels)))"

definition validProtocol :: "Protocol \<Rightarrow> goerr option" where
  "validProtocol protocol =
     refuse (protocol \<noteq> ProtocolTCP \<and> protocol \<noteq> ProtocolUDP) ''protocol %q is not one of %s or %s''"

definition validPort :: "int \<Rightarrow> goerr option" where
  "validPort port = refuse (port < 1 \<or> port > 65535) ''%s must be between 1 and 65535, got %d''"

section \<open>Count, restart and schedule\<close>

definition validateCount :: "Spec \<Rightarrow> goerr option" where
  "validateCount spec = refuse (spec_Count spec < 1) ''invalid count: must be at least 1''"

definition validateRestart :: "Restart option \<Rightarrow> goerr option" where
  "validateRestart rst = (case rst of
       None \<Rightarrow> None
     | Some r \<Rightarrow> first_err
         [refuse (rst_Policy r \<noteq> RestartAlways \<and> rst_Policy r \<noteq> RestartOnFailure
                  \<and> rst_Policy r \<noteq> RestartNever) ''invalid restart: policy must be %q, %q or %q'',
          refuse (rst_Attempts r < 0) ''invalid restart: attempts must not be negative'',
          refuse (rst_Delay r \<le> 0) ''invalid restart: delay must be greater than zero''])"

definition validateSchedule :: "parsers \<Rightarrow> Spec \<Rightarrow> goerr option" where
  "validateSchedule ps spec = (case spec_Schedule spec of
       None \<Rightarrow> None
     | Some s \<Rightarrow> first_err
         [refuse (sch_Cron s = []) ''invalid schedule: cron is required'',
          refuse (\<not> ps_cron ps (sch_Cron s)) ''invalid schedule: cron must be a valid expression'',
          refuse (sch_Overlap s \<noteq> OverlapReplace \<and> sch_Overlap s \<noteq> OverlapSkip)
            ''invalid schedule: overlap must be %q or %q'',
          refuse (spec_Health spec \<noteq> None)
            ''invalid schedule: a scheduled workload cannot declare a health check'',
          refuse (spec_Count spec > 1)
            ''invalid schedule: a scheduled workload cannot run more than one instance''])"

section \<open>Runtime\<close>

definition ErrNoRuntime :: goerr where
  "ErrNoRuntime = ErrMsg ''no runtime specified''"

definition ErrAmbiguousRuntime :: goerr where
  "ErrAmbiguousRuntime = ErrMsg ''more than one runtime specified''"

definition RuntimeOf :: "Spec \<Rightarrow> goerr + Runtime" where
  "RuntimeOf spec =
     (if spec_Container spec \<noteq> None \<and> spec_Exec spec \<noteq> None then Inl ErrAmbiguousRuntime
      else if spec_Container spec \<noteq> None then Inr RuntimeContainer
      else if spec_Exec spec \<noteq> None then Inr RuntimeExec
      else Inl ErrNoRuntime)"

section \<open>Ports\<close>

definition isNumber :: "string \<Rightarrow> bool" where
  "isNumber name \<longleftrightarrow> Atoi name \<noteq> None"

text \<open>The names already taken are a map from a name to the port inside; it is returned updated.\<close>

definition port_name_err :: "Port \<Rightarrow> (string \<rightharpoonup> int) \<Rightarrow> goerr option" where
  "port_name_err p named = first_err
     [refuse (\<not> namePattern (port_Name p) \<or> length (port_Name p) > maxLabelKeyLength)
        ''port name %q must be lowercase alphanumeric'',
      refuse (isNumber (port_Name p)) ''port name %q must not be a number'',
      refuse (case named (port_Name p) of None \<Rightarrow> False | Some to \<Rightarrow> to \<noteq> port_To p)
        ''port name %q is used by both %d and %d, so it names neither'']"

definition validPortName ::
  "Port \<Rightarrow> (string \<rightharpoonup> int) \<Rightarrow> goerr option \<times> (string \<rightharpoonup> int)" where
  "validPortName p named =
     (if port_Name p = [] then (None, named)
      else case port_name_err p named of
        Some e \<Rightarrow> (Some e, named)
      | None \<Rightarrow> (None, named(port_Name p \<mapsto> port_To p)))"

fun valid_ports_from ::
  "(int \<times> Protocol) set \<Rightarrow> (int \<times> Protocol) set \<Rightarrow> (string \<rightharpoonup> int) \<Rightarrow> Port list \<Rightarrow> goerr option" where
  "valid_ports_from seenTo seenFrom named [] = None"
| "valid_ports_from seenTo seenFrom named (p # ps) =
     (let to = (port_To p, port_Protocol p);
          host = (port_From p, port_Protocol p);
          (name_err, named') = validPortName p named
      in case first_err
          [validProtocol (port_Protocol p),
           name_err,
           validPort (port_To p),
           refuse (to \<in> seenTo) ''port %d/%s is published more than once'']
        of Some e \<Rightarrow> Some e
         | None \<Rightarrow>
             if port_From p = 0 then valid_ports_from (insert to seenTo) seenFrom named' ps
             else (case first_err
                 [validPort (port_From p),
                  refuse (host \<in> seenFrom) ''host port %d/%s is used more than once'']
               of Some e \<Rightarrow> Some e
                | None \<Rightarrow> valid_ports_from (insert to seenTo) (insert host seenFrom) named' ps))"

definition validPorts :: "Port list \<Rightarrow> goerr option" where
  "validPorts ports = valid_ports_from {} {} Map.empty ports"

definition validatePorts :: "Spec \<Rightarrow> Runtime \<Rightarrow> goerr option" where
  "validatePorts spec runtime =
     (if spec_Ports spec = [] then None
      else first_err
        ([validPorts (spec_Ports spec),
          refuse (host_networked spec \<and> spec_Count spec > 1)
            ''invalid ports: a host-networked workload cannot run more than one instance'']
         @ map (\<lambda>p. refuse (spec_Count spec > 1 \<and> port_From p \<noteq> 0)
                 ''invalid ports: port %d pins host port %d, which cannot reach more than one instance'')
             (spec_Ports spec)
         @ (case runtime of
              RuntimeContainer \<Rightarrow>
                map (\<lambda>p. refuse (host_networked spec \<and> port_From p \<noteq> port_To p)
                      ''invalid ports: port %d cannot pin host port %d in a host-networked workload'')
                  (spec_Ports spec)
            | RuntimeExec \<Rightarrow>
                map (\<lambda>p. refuse (port_From p = 0)
                      ''invalid ports: port %d/%s must name the host port it binds'')
                  (spec_Ports spec))))"

section \<open>Volumes\<close>

definition signals :: "string list" where
  "signals = [''SIGHUP'', ''SIGUSR1'', ''SIGUSR2'']"

definition validateMountSignal :: "VolumeMount \<Rightarrow> MountKind \<Rightarrow> goerr option" where
  "validateMountSignal m kind =
     (if mnt_Signal m = [] then None
      else first_err
        [refuse (kind = MountVolume \<or> kind = MountPath) ''invalid volumes: %s %q cannot name a signal'',
         refuse (mnt_Signal m \<notin> set signals)
           ''invalid volumes: %s %q names signal %q, which must be one of %s''])"

definition validatePropagation :: "VolumeMount \<Rightarrow> MountKind \<Rightarrow> Runtime \<Rightarrow> goerr option" where
  "validatePropagation m kind runtime =
     (if mnt_Propagation m = [] then None
      else first_err
        [refuse (mnt_Propagation m \<noteq> ''rslave'' \<and> mnt_Propagation m \<noteq> ''rshared'')
           ''invalid volumes: propagation must be %q, %q or absent, got %q'',
         refuse (kind \<noteq> MountPath) ''invalid volumes: %s %q cannot name a propagation'',
         refuse (runtime = RuntimeExec) ''invalid volumes: path %q cannot name a propagation''])"

text \<open>The source a mount is known by: a host path is cleaned, a name is not.\<close>

definition source_key :: "VolumeMount \<Rightarrow> MountKind \<Rightarrow> MountKind \<times> string" where
  "source_key m kind =
     (kind, if kind = MountPath then Clean (mount_Source m) else mount_Source m)"

definition validateSource :: "VolumeMount \<Rightarrow> MountKind \<Rightarrow> goerr option" where
  "validateSource m kind =
     (if kind = MountPath
      then refuse (\<not> IsAbs (mount_Source m)) ''invalid volumes: path %q must be absolute''
      else refuse (\<not> namePattern (mount_Source m) \<or> length (mount_Source m) > 63)
        ''invalid volumes: %q is not a %s name'')"

fun mount_goerr :: "mount_error \<Rightarrow> goerr" where
  "mount_goerr ErrNoMountSource = ErrMsg ''no mount source specified''"
| "mount_goerr (ErrAmbiguousMountSource ks) = ErrMsg ''more than one mount source specified''"

fun validate_volumes_from ::
  "(MountKind \<times> string) set \<Rightarrow> string set \<Rightarrow> Runtime \<Rightarrow> VolumeMount list \<Rightarrow> goerr option" where
  "validate_volumes_from sources paths runtime [] = None"
| "validate_volumes_from sources paths runtime (m # ms) = (case KindOf m of
       Inl e \<Rightarrow> Some (Wrapf ''invalid volumes'' [mount_goerr e])
     | Inr kind \<Rightarrow>
         (let key = source_key m kind; to = Clean (mnt_To m)
          in case first_err
              [validateSource m kind,
               validateMountSignal m kind,
               refuse (mnt_Expand m \<and> kind \<noteq> MountVariable) ''invalid volumes: %s %q cannot be expanded'',
               refuse (mnt_ReadOnly m \<and> runtime = RuntimeExec) ''invalid volumes: %s %q cannot be read-only'',
               validatePropagation m kind runtime,
               refuse (key \<in> sources) ''invalid volumes: %s %q is mounted more than once'',
               refuse (\<not> IsAbs (mnt_To m)) ''invalid volumes: %s %q must name an absolute path to mount at'',
               refuse (to = ''/'') ''invalid volumes: %s %q cannot be mounted at %q'',
               refuse (to \<in> paths) ''invalid volumes: %q is mounted more than once'']
            of Some e \<Rightarrow> Some e
             | None \<Rightarrow> validate_volumes_from (insert key sources) (insert to paths) runtime ms))"

definition validateVolumes :: "VolumeMount list \<Rightarrow> Runtime \<Rightarrow> goerr option" where
  "validateVolumes mounts runtime = validate_volumes_from {} {} runtime mounts"

section \<open>Environment\<close>

text \<open>\<open>^[A-Za-z_][A-Za-z0-9_]*$\<close>\<close>

definition envKeyPattern :: "string \<Rightarrow> bool" where
  "envKeyPattern s \<longleftrightarrow> s \<noteq> [] \<and> \<not> ascii_digit (hd s)
     \<and> list_all (\<lambda>c. ascii_letter c \<or> ascii_digit c \<or> c = CHR ''_'') s"

fun scan_goerr :: "scan_error \<Rightarrow> goerr" where
  "scan_goerr (BadEnv key e) = ErrMsg ''invalid env %s: %w''"
| "scan_goerr (BadContents v to e) = ErrMsg ''invalid volumes: variable %q mounted at %s: %w''"
| "scan_goerr (TokenInContents v to r) =
     ErrMsg ''invalid volumes: variable %q mounted at %s cannot reference a token''"

definition validateEnv :: "Spec \<Rightarrow> goerr option" where
  "validateEnv spec = first_err
     (map (\<lambda>key. first_err
        [refuse (\<not> envKeyPattern key) ''invalid env %q: a name is letters, digits and underscores'',
         refuse (CHR 0x00 \<in> set (lookup_str (spec_Env spec) key))
           ''invalid env %s: a value cannot hold a NUL byte''])
        (sort (map fst (spec_Env spec)))
      @ [case References spec of Inl e \<Rightarrow> Some (scan_goerr e) | Inr refs \<Rightarrow> None])"

section \<open>Health\<close>

definition rootedPath :: "string \<Rightarrow> bool" where
  "rootedPath v = (case url_Parse v of
       None \<Rightarrow> False
     | Some u \<Rightarrow> url_Scheme u = [] \<and> url_Authority u = [] \<and> HasPrefix (url_Path u) ''/'')"

definition validateHealthPort :: "Health \<Rightarrow> Port list \<Rightarrow> goerr option" where
  "validateHealthPort h ports =
     (let checkable = filter (\<lambda>p. port_Protocol p = ProtocolTCP) ports
      in if checkable = [] then Some (ErrMsg ''invalid health: the workload publishes no %s port to check'')
         else if hl_Port h = [] then
           refuse (length checkable > 1)
             ''invalid health: port is required when more than one port is published''
         else refuse (\<not> list_ex (\<lambda>p. PortRef_Matches (hl_Port h) (port_Name p) (port_To p)) checkable)
           ''invalid health: port %q is not published by the workload over %s'')"

text \<open>\<open>validateEnv\<close> has refused a value that does not parse, so its references are read as none.\<close>

definition reads_token :: "string \<Rightarrow> bool" where
  "reads_token v = (case ParseReferences v of
       Inl e \<Rightarrow> False | Inr refs \<Rightarrow> list_ex (\<lambda>r. ref_Kind r = KindToken) refs)"

definition validateHealthCommand :: "Spec \<Rightarrow> Health \<Rightarrow> goerr option" where
  "validateHealthCommand spec h =
     (if hl_Port h \<noteq> [] then Some (ErrMsg ''invalid health: port does not apply to a command check'')
      else if spec_Exec spec = None then None
      else first_err (map (\<lambda>key. refuse (reads_token (lookup_str (spec_Env spec) key))
              ''invalid health: env %s reads a token'')
            (sort (map fst (spec_Env spec)))))"

definition validate_timing :: "Health \<Rightarrow> goerr option" where
  "validate_timing h = first_err
     [refuse (hl_Interval h \<le> 0) ''invalid health: interval must be greater than zero'',
      refuse (hl_Timeout h \<le> 0) ''invalid health: timeout must be greater than zero'',
      refuse (hl_Timeout h > hl_Interval h) ''invalid health: timeout must not exceed interval'',
      refuse (hl_Retries h < 1) ''invalid health: retries must be at least one'',
      refuse (hl_StartPeriod h < 0) ''invalid health: start period must not be negative'']"

definition probes_named :: "Health \<Rightarrow> nat" where
  "probes_named h = length (filter id [hl_HTTP h \<noteq> [], hl_TCP h, hl_Command h \<noteq> []])"

definition validateHealth :: "Spec \<Rightarrow> goerr option" where
  "validateHealth spec = (case spec_Health spec of
       None \<Rightarrow> None
     | Some h \<Rightarrow> first_err
         [validate_timing h,
          refuse (probes_named h > 1) ''invalid health: only one of http, tcp or command may be specified'',
          refuse (probes_named h = 0) ''invalid health: one of http, tcp or command is required'',
          if hl_Command h \<noteq> [] then validateHealthCommand spec h
          else first_err
            [refuse (hl_HTTP h \<noteq> [] \<and> \<not> rootedPath (hl_HTTP h))
               ''invalid health: http must be a path starting with /'',
             refuse (spec_Ports spec = []) ''invalid health: the workload publishes no ports to check'',
             validateHealthPort h (spec_Ports spec)]])"

section \<open>Resources and logs\<close>

definition validateResources :: "parsers \<Rightarrow> Spec \<Rightarrow> goerr option" where
  "validateResources ps spec = (case spec_Resources spec of
       None \<Rightarrow> None
     | Some r \<Rightarrow> first_err
         [refuse (res_Memory r = [] \<and> res_CPU r = 0 \<and> res_Pids r = 0)
            ''invalid resources: at least one of memory, cpu or pids is required'',
          refuse (res_Memory r \<noteq> [] \<and> \<not> is_size ps (res_Memory r))
            ''invalid resources: %q is not a memory size'',
          refuse (res_CPU r < 0) ''invalid resources: cpu must not be negative'',
          refuse (res_Pids r < 0) ''invalid resources: pids must not be negative''])"

definition validateLogs :: "parsers \<Rightarrow> Logs option \<Rightarrow> goerr option" where
  "validateLogs ps logs = (case logs of
       None \<Rightarrow> None
     | Some l \<Rightarrow> first_err
         [refuse (log_MaxSize l = []) ''invalid logs: maxSize is required'',
          refuse (\<not> is_size ps (log_MaxSize l)) ''invalid logs: %q is not a size'',
          refuse (log_MaxFiles l < 0) ''invalid logs: maxFiles must not be negative''])"

section \<open>Runtime blocks\<close>

definition validCommand :: "string list \<Rightarrow> goerr option" where
  "validCommand command = first_err (map (\<lambda>part. refuse (TrimSpace_empty part)
     ''command element %d is empty'') command)"

definition device_target :: "Device \<Rightarrow> string" where
  "device_target d = (if dev_To d \<noteq> [] then Clean (dev_To d) else Clean (dev_Path d))"

fun validate_devices_from :: "string set \<Rightarrow> string set \<Rightarrow> Device list \<Rightarrow> goerr option" where
  "validate_devices_from paths targets [] = None"
| "validate_devices_from paths targets (d # ds) = (case first_err
      [refuse (\<not> IsAbs (dev_Path d)) ''invalid container: device %q must be an absolute path'',
       refuse (Clean (dev_Path d) \<in> paths) ''invalid container: device %q is named more than once'',
       refuse (dev_To d \<noteq> [] \<and> \<not> IsAbs (dev_To d))
         ''invalid container: device %q must name an absolute path to appear at'',
       refuse (device_target d \<in> targets) ''invalid container: two devices appear at %q'']
    of Some e \<Rightarrow> Some e
     | None \<Rightarrow> validate_devices_from (insert (Clean (dev_Path d)) paths) (insert (device_target d) targets) ds)"

definition validateDevices :: "Device list \<Rightarrow> goerr option" where
  "validateDevices devices = validate_devices_from {} {} devices"

fun validate_tmpfs_from :: "string set \<Rightarrow> string set \<Rightarrow> string list \<Rightarrow> goerr option" where
  "validate_tmpfs_from mounted seen [] = None"
| "validate_tmpfs_from mounted seen (entry # entries) =
     (let cleaned = Clean entry
      in case first_err
          [refuse (\<not> IsAbs entry) ''invalid container: tmpfs %q must be an absolute path'',
           refuse (cleaned = ''/'') ''invalid container: tmpfs cannot be mounted at %q'',
           refuse (cleaned \<in> seen) ''invalid container: tmpfs %q is named more than once'',
           refuse (cleaned \<in> mounted) ''invalid container: tmpfs %q is also a mount'']
        of Some e \<Rightarrow> Some e
         | None \<Rightarrow> validate_tmpfs_from mounted (insert cleaned seen) entries)"

definition validateTmpfs :: "string list \<Rightarrow> VolumeMount list \<Rightarrow> goerr option" where
  "validateTmpfs tmpfs mounts =
     validate_tmpfs_from ((\<lambda>m. Clean (mnt_To m)) ` set mounts) {} tmpfs"

definition validateContainer :: "parsers \<Rightarrow> Container \<Rightarrow> goerr option" where
  "validateContainer ps c = first_err
     ([refuse (con_Image c = []) ''invalid container: image is required'',
       refuse (\<not> ps_image ps (con_Image c)) ''invalid container: image %q: %w'',
       wrapped ''invalid container'' (validCommand (con_Command c)),
       wrapped ''invalid container: entrypoint'' (validCommand (con_Entrypoint c)),
       refuse (con_ShmSize c \<noteq> [] \<and> \<not> is_size ps (con_ShmSize c))
         ''invalid container: shmSize %q is not a size'',
       validateDevices (con_Devices c),
       refuse (con_Pull c \<notin> {PullPolicyOther [], PullAlways, PullFollow, PullMissing, PullNever})
         ''invalid container: pull must be %q, %q, %q or %q'']
      @ map (\<lambda>cap. refuse (TrimSpace_empty cap) ''invalid container: capability element %d is empty'')
          (con_CapAdd c @ con_CapDrop c)
      @ [refuse (con_PidMode c \<noteq> [] \<and> con_PidMode c \<noteq> ''host'')
           ''invalid container: pidMode must be host or absent'',
         refuse (con_NetworkMode c \<noteq> [] \<and> con_NetworkMode c \<noteq> ''host'')
           ''invalid container: networkMode must be host or absent''])"

definition validateExec :: "Exec \<Rightarrow> goerr option" where
  "validateExec e = first_err
     [refuse (exec_Command e = []) ''invalid exec: command is required'',
      wrapped ''invalid exec'' (validCommand (exec_Command e))]"

section \<open>The whole specification\<close>

definition validate_block :: "parsers \<Rightarrow> Spec \<Rightarrow> Runtime \<Rightarrow> goerr option" where
  "validate_block ps spec runtime = (case runtime of
       RuntimeContainer \<Rightarrow>
         (case spec_Container spec of None \<Rightarrow> None | Some c \<Rightarrow> validateContainer ps c)
     | RuntimeExec \<Rightarrow> (case spec_Exec spec of None \<Rightarrow> None | Some e \<Rightarrow> validateExec e))"

definition ValidateWorkload :: "parsers \<Rightarrow> Spec \<Rightarrow> goerr option" where
  "ValidateWorkload ps spec = first_err
     [validateHeader (spec_Version spec) (spec_Name spec),
      validateCount spec,
      validateRestart (spec_Restart spec),
      validateSchedule ps spec,
      ValidateLabels (spec_Labels spec),
      (case RuntimeOf spec of
         Inl e \<Rightarrow> Some (Wrapf ''invalid manifest'' [e])
       | Inr runtime \<Rightarrow> first_err
           [validatePorts spec runtime,
            validateVolumes (spec_Volumes spec) runtime,
            validateEnv spec,
            validateHealth spec,
            validateResources ps spec,
            validateLogs ps (spec_Logs spec),
            refuse (spec_StopTimeout spec < 0) ''invalid manifest: stopTimeout must not be negative'',
            (case spec_Container spec of
               None \<Rightarrow> None | Some c \<Rightarrow> validateTmpfs (con_Tmpfs c) (spec_Volumes spec)),
            validate_block ps spec runtime])]"

section \<open>What is accepted\<close>

text \<open>
  The rules stated over the whole specification, without the order the checks run in and without the
  sets the loops carry.
\<close>

definition to_key :: "Port \<Rightarrow> int \<times> Protocol" where
  "to_key p = (port_To p, port_Protocol p)"

definition host_key :: "Port \<Rightarrow> int \<times> Protocol" where
  "host_key p = (port_From p, port_Protocol p)"

definition wf_port :: "Port \<Rightarrow> bool" where
  "wf_port p \<longleftrightarrow> port_Protocol p \<in> {ProtocolTCP, ProtocolUDP}
     \<and> 1 \<le> port_To p \<and> port_To p \<le> 65535
     \<and> (port_From p = 0 \<or> 1 \<le> port_From p \<and> port_From p \<le> 65535)
     \<and> (port_Name p = [] \<or> validReferenceName (port_Name p) \<and> \<not> isNumber (port_Name p))"

text \<open>Two ports clash when they share a name and publish different ports inside.\<close>

definition names_clash :: "Port \<Rightarrow> Port \<Rightarrow> bool" where
  "names_clash p q \<longleftrightarrow> port_Name p \<noteq> [] \<and> port_Name p = port_Name q \<and> port_To p \<noteq> port_To q"

definition names_agree :: "Port list \<Rightarrow> bool" where
  "names_agree ps \<longleftrightarrow> list_all (\<lambda>p. \<not> list_ex (names_clash p) ps) ps"

definition wf_ports :: "Port list \<Rightarrow> bool" where
  "wf_ports ps \<longleftrightarrow> list_all wf_port ps \<and> distinct (map to_key ps)
     \<and> distinct (map host_key (filter (\<lambda>p. port_From p \<noteq> 0) ps)) \<and> names_agree ps"

lemma port_name_err_None:
  "port_name_err p named = None \<longleftrightarrow> validReferenceName (port_Name p) \<and> \<not> isNumber (port_Name p)
     \<and> named (port_Name p) \<in> {None, Some (port_To p)}"
  unfolding port_name_err_def accepts
  by (cases "named (port_Name p)") (auto simp: validReferenceName_def accepts)

lemma validPortName_None:
  "fst (validPortName p named) = None \<longleftrightarrow> port_Name p = []
     \<or> validReferenceName (port_Name p) \<and> \<not> isNumber (port_Name p)
       \<and> named (port_Name p) \<in> {None, Some (port_To p)}"
  unfolding validPortName_def port_name_err_None [symmetric]
  by (cases "port_name_err p named") simp_all

lemma validPortName_named:
  "fst (validPortName p named) = None \<Longrightarrow> snd (validPortName p named)
     = (if port_Name p = [] then named else named(port_Name p \<mapsto> port_To p))"
  by (auto simp: validPortName_def split: option.splits)

lemma names_clash_sym: "names_clash p q \<longleftrightarrow> names_clash q p"
  unfolding names_clash_def by metis

lemma names_clash_irrefl [simp]: "\<not> names_clash p p"
  by (simp add: names_clash_def)

lemma names_agree_Cons:
  "names_agree (p # ps) \<longleftrightarrow> (\<forall>q\<in>set ps. \<not> names_clash p q) \<and> names_agree ps"
  unfolding names_agree_def list_all_iff list_ex_iff using names_clash_sym by auto

text \<open>The name of a port is free: it has none, nothing took it, or the same port did.\<close>

definition name_free :: "(string \<rightharpoonup> int) \<Rightarrow> Port \<Rightarrow> bool" where
  "name_free named p \<longleftrightarrow> port_Name p = [] \<or> named (port_Name p) \<in> {None, Some (port_To p)}"

definition name_taken :: "(string \<rightharpoonup> int) \<Rightarrow> Port \<Rightarrow> (string \<rightharpoonup> int)" where
  "name_taken named p = (if port_Name p = [] then named else named(port_Name p \<mapsto> port_To p))"

lemma name_free_empty [simp]: "name_free Map.empty p"
  by (simp add: name_free_def)

lemma name_free_taken:
  "name_free named p \<Longrightarrow> name_free (name_taken named p) q \<longleftrightarrow> \<not> names_clash p q \<and> name_free named q"
  by (cases "port_Name p = port_Name q") (auto simp: names_clash_def name_free_def name_taken_def)

lemma valid_ports_from_Cons:
  "valid_ports_from seenTo seenFrom named (p # ps) = None \<longleftrightarrow>
     wf_port p \<and> to_key p \<notin> seenTo \<and> (port_From p \<noteq> 0 \<longrightarrow> host_key p \<notin> seenFrom) \<and> name_free named p
     \<and> valid_ports_from (insert (to_key p) seenTo)
         (if port_From p = 0 then seenFrom else insert (host_key p) seenFrom) (name_taken named p) ps = None"
proof (cases "fst (validPortName p named) = None")
  case True
  then show ?thesis
    using validPortName_None [of p named] validPortName_named [OF True]
    by (auto simp: case_prod_beta Let_def accepts wf_port_def to_key_def host_key_def validProtocol_def
        validPort_def name_free_def name_taken_def)
next
  case False
  then show ?thesis
    using validPortName_None [of p named]
    by (auto simp: case_prod_beta Let_def accepts wf_port_def name_free_def)
qed

lemma valid_ports_from_None:
  "valid_ports_from seenTo seenFrom named ps = None \<longleftrightarrow>
     wf_ports ps \<and> to_key ` set ps \<inter> seenTo = {}
     \<and> host_key ` {p \<in> set ps. port_From p \<noteq> 0} \<inter> seenFrom = {} \<and> list_all (name_free named) ps"
proof (induction ps arbitrary: seenTo seenFrom named)
  case Nil
  show ?case by (simp add: wf_ports_def names_agree_def)
next
  case (Cons p ps)
  show ?case
  proof (cases "name_free named p")
    case True
    then show ?thesis
      unfolding valid_ports_from_Cons Cons.IH wf_ports_def names_agree_Cons list_all_iff
        name_free_taken [OF True]
      by (cases "port_From p = 0") auto
  next
    case False
    then show ?thesis unfolding valid_ports_from_Cons by simp
  qed
qed

lemma validPorts_None [accepts]: "validPorts ps = None \<longleftrightarrow> wf_ports ps"
  by (simp add: validPorts_def valid_ports_from_None list_all_iff)

definition wf_spec_ports :: "Spec \<Rightarrow> Runtime \<Rightarrow> bool" where
  "wf_spec_ports spec runtime \<longleftrightarrow> wf_ports (spec_Ports spec)
     \<and> (spec_Count spec > 1 \<longrightarrow> list_all (\<lambda>p. port_From p = 0) (spec_Ports spec)
          \<and> (host_networked spec \<longrightarrow> spec_Ports spec = []))
     \<and> (case runtime of
          RuntimeContainer \<Rightarrow>
            host_networked spec \<longrightarrow> list_all (\<lambda>p. port_From p = port_To p) (spec_Ports spec)
        | RuntimeExec \<Rightarrow> list_all (\<lambda>p. port_From p \<noteq> 0) (spec_Ports spec))"

lemma wf_ports_Nil [simp]: "wf_ports []"
  by (simp add: wf_ports_def names_agree_def)

lemma validatePorts_None [accepts]: "validatePorts spec runtime = None \<longleftrightarrow> wf_spec_ports spec runtime"
proof (cases "spec_Ports spec = []")
  case True
  then show ?thesis by (cases runtime) (simp_all add: validatePorts_def wf_spec_ports_def)
next
  case False
  then show ?thesis
    by (cases runtime) (auto simp: validatePorts_def wf_spec_ports_def accepts list_all_iff)
qed

text \<open>Volumes, devices and memory-backed paths.\<close>

definition wf_mount :: "Runtime \<Rightarrow> VolumeMount \<Rightarrow> MountKind \<Rightarrow> bool" where
  "wf_mount runtime m kind \<longleftrightarrow>
     (if kind = MountPath then IsAbs (mount_Source m) else validReferenceName (mount_Source m))
     \<and> (mnt_Signal m = [] \<or> kind \<notin> {MountVolume, MountPath} \<and> mnt_Signal m \<in> set signals)
     \<and> (mnt_Expand m \<longrightarrow> kind = MountVariable)
     \<and> (mnt_ReadOnly m \<longrightarrow> runtime \<noteq> RuntimeExec)
     \<and> (mnt_Propagation m = []
        \<or> mnt_Propagation m \<in> {''rslave'', ''rshared''} \<and> kind = MountPath \<and> runtime \<noteq> RuntimeExec)
     \<and> IsAbs (mnt_To m) \<and> Clean (mnt_To m) \<noteq> ''/''"

text \<open>What a mount with exactly one source is known by; a mount without one is known by nothing.\<close>

definition mount_key :: "VolumeMount \<Rightarrow> (MountKind \<times> string) option" where
  "mount_key m = (case KindOf m of Inl e \<Rightarrow> None | Inr kind \<Rightarrow> Some (source_key m kind))"

definition mounts_at :: "VolumeMount \<Rightarrow> string" where
  "mounts_at m = Clean (mnt_To m)"

definition wf_volumes :: "VolumeMount list \<Rightarrow> Runtime \<Rightarrow> bool" where
  "wf_volumes ms runtime \<longleftrightarrow>
     list_all (\<lambda>m. case KindOf m of Inl e \<Rightarrow> False | Inr kind \<Rightarrow> wf_mount runtime m kind) ms
     \<and> distinct (map mount_key ms) \<and> distinct (map mounts_at ms)"

lemma validate_mount_None:
  "first_err
     [validateSource m kind, validateMountSignal m kind,
      refuse (mnt_Expand m \<and> kind \<noteq> MountVariable) e1, refuse (mnt_ReadOnly m \<and> runtime = RuntimeExec) e2,
      validatePropagation m kind runtime, refuse a e3, refuse (\<not> IsAbs (mnt_To m)) e4,
      refuse (Clean (mnt_To m) = ''/'') e5, refuse b e6] = None \<longleftrightarrow> wf_mount runtime m kind \<and> \<not> a \<and> \<not> b"
  by (auto simp: accepts wf_mount_def validateSource_def validateMountSignal_def validatePropagation_def
      validReferenceName_def maxLabelKeyLength_def)

lemma validate_volumes_from_None:
  "validate_volumes_from sources paths runtime ms = None \<longleftrightarrow>
     wf_volumes ms runtime \<and> mount_key ` set ms \<inter> Some ` sources = {} \<and> mounts_at ` set ms \<inter> paths = {}"
proof (induction ms arbitrary: sources paths)
  case Nil
  show ?case by (simp add: wf_volumes_def)
next
  case (Cons m ms)
  show ?case
  proof (cases "KindOf m")
    case (Inl e)
    then show ?thesis by (simp add: wf_volumes_def)
  next
    case (Inr kind)
    then have key: "mount_key m = Some (source_key m kind)" by (simp add: mount_key_def)
    show ?thesis
      unfolding validate_volumes_from.simps Inr sum.case Let_def case_err_None validate_mount_None Cons.IH
        wf_volumes_def
      using Inr key by (auto simp: mounts_at_def)
  qed
qed

lemma validateVolumes_None [accepts]: "validateVolumes ms runtime = None \<longleftrightarrow> wf_volumes ms runtime"
  by (simp add: validateVolumes_def validate_volumes_from_None)

definition wf_device :: "Device \<Rightarrow> bool" where
  "wf_device d \<longleftrightarrow> IsAbs (dev_Path d) \<and> (dev_To d = [] \<or> IsAbs (dev_To d))"

definition wf_devices :: "Device list \<Rightarrow> bool" where
  "wf_devices ds \<longleftrightarrow> list_all wf_device ds \<and> distinct (map (\<lambda>d. Clean (dev_Path d)) ds)
     \<and> distinct (map device_target ds)"

lemma validate_devices_from_None:
  "validate_devices_from paths targets ds = None \<longleftrightarrow>
     wf_devices ds \<and> (\<lambda>d. Clean (dev_Path d)) ` set ds \<inter> paths = {} \<and> device_target ` set ds \<inter> targets = {}"
proof (induction ds arbitrary: paths targets)
  case (Cons d ds)
  show ?case
    unfolding validate_devices_from.simps case_err_None Cons.IH
    by (auto simp: accepts wf_devices_def wf_device_def)
qed (simp add: wf_devices_def)

lemma validateDevices_None [accepts]: "validateDevices ds = None \<longleftrightarrow> wf_devices ds"
  by (simp add: validateDevices_def validate_devices_from_None)

definition wf_tmpfs :: "string list \<Rightarrow> VolumeMount list \<Rightarrow> bool" where
  "wf_tmpfs tmpfs mounts \<longleftrightarrow> list_all IsAbs tmpfs \<and> ''/'' \<notin> Clean ` set tmpfs
     \<and> distinct (map Clean tmpfs) \<and> Clean ` set tmpfs \<inter> mounts_at ` set mounts = {}"

lemma validate_tmpfs_from_None:
  "validate_tmpfs_from mounted seen es = None \<longleftrightarrow> list_all IsAbs es \<and> ''/'' \<notin> Clean ` set es
     \<and> distinct (map Clean es) \<and> Clean ` set es \<inter> (seen \<union> mounted) = {}"
proof (induction es arbitrary: seen)
  case (Cons e es)
  show ?case
    unfolding validate_tmpfs_from.simps Let_def case_err_None Cons.IH
    by (auto simp: accepts)
qed simp

lemma validateTmpfs_None [accepts]: "validateTmpfs tmpfs mounts = None \<longleftrightarrow> wf_tmpfs tmpfs mounts"
  by (simp add: validateTmpfs_def validate_tmpfs_from_None wf_tmpfs_def mounts_at_def [abs_def])

text \<open>The sections whose rules are checked one after the other.\<close>

definition wf_label :: "string \<Rightarrow> string \<Rightarrow> bool" where
  "wf_label key v \<longleftrightarrow> labelKeyPattern key \<and> length key \<le> maxLabelKeyLength
     \<and> \<not> HasPrefix key reservedLabelPrefix
     \<and> ValidString v \<and> \<not> ContainsControl v \<and> length v \<le> maxLabelValueLength"

definition wf_labels :: "string_map \<Rightarrow> bool" where
  "wf_labels labels \<longleftrightarrow> length labels \<le> maxLabels
     \<and> (\<forall>key\<in>fst ` set labels. wf_label key (lookup_str labels key))"

definition wf_restart :: "Restart \<Rightarrow> bool" where
  "wf_restart r \<longleftrightarrow> rst_Policy r \<in> {RestartAlways, RestartOnFailure, RestartNever}
     \<and> 0 \<le> rst_Attempts r \<and> 0 < rst_Delay r"

definition wf_schedule :: "parsers \<Rightarrow> Spec \<Rightarrow> Schedule \<Rightarrow> bool" where
  "wf_schedule ps spec s \<longleftrightarrow> sch_Cron s \<noteq> [] \<and> ps_cron ps (sch_Cron s)
     \<and> sch_Overlap s \<in> {OverlapReplace, OverlapSkip} \<and> spec_Health spec = None \<and> spec_Count spec \<le> 1"

definition wf_env :: "Spec \<Rightarrow> bool" where
  "wf_env spec \<longleftrightarrow>
     (\<forall>key\<in>fst ` set (spec_Env spec). envKeyPattern key \<and> CHR 0x00 \<notin> set (lookup_str (spec_Env spec) key))
     \<and> (\<exists>refs. References spec = Inr refs)"

text \<open>The ports a check may be performed at, and those of them it selects.\<close>

definition selects :: "Health \<Rightarrow> Port \<Rightarrow> bool" where
  "selects h p \<longleftrightarrow> port_Protocol p = ProtocolTCP
     \<and> (hl_Port h = [] \<or> PortRef_Matches (hl_Port h) (port_Name p) (port_To p))"

definition wf_probe :: "Spec \<Rightarrow> Health \<Rightarrow> bool" where
  "wf_probe spec h \<longleftrightarrow>
     (hl_HTTP h \<noteq> [] \<and> \<not> hl_TCP h \<and> hl_Command h = [] \<and> rootedPath (hl_HTTP h)
      \<or> hl_HTTP h = [] \<and> hl_TCP h \<and> hl_Command h = []
      \<or> hl_HTTP h = [] \<and> \<not> hl_TCP h \<and> hl_Command h \<noteq> [])
     \<and> (if hl_Command h \<noteq> [] then hl_Port h = []
          \<and> (spec_Exec spec \<noteq> None \<longrightarrow>
               (\<forall>key\<in>fst ` set (spec_Env spec). \<not> reads_token (lookup_str (spec_Env spec) key)))
        else list_ex (selects h) (spec_Ports spec)
          \<and> (hl_Port h = [] \<longrightarrow> length (filter (selects h) (spec_Ports spec)) = 1))"

definition wf_health :: "Spec \<Rightarrow> Health \<Rightarrow> bool" where
  "wf_health spec h \<longleftrightarrow> 0 < hl_Timeout h \<and> hl_Timeout h \<le> hl_Interval h \<and> 1 \<le> hl_Retries h
     \<and> 0 \<le> hl_StartPeriod h \<and> wf_probe spec h"

definition wf_resources :: "parsers \<Rightarrow> Resources \<Rightarrow> bool" where
  "wf_resources ps r \<longleftrightarrow> (res_Memory r \<noteq> [] \<or> res_CPU r \<noteq> 0 \<or> res_Pids r \<noteq> 0)
     \<and> (res_Memory r = [] \<or> is_size ps (res_Memory r)) \<and> 0 \<le> res_CPU r \<and> 0 \<le> res_Pids r"

definition wf_logs :: "parsers \<Rightarrow> Logs \<Rightarrow> bool" where
  "wf_logs ps l \<longleftrightarrow> log_MaxSize l \<noteq> [] \<and> is_size ps (log_MaxSize l) \<and> 0 \<le> log_MaxFiles l"

definition wf_command :: "string list \<Rightarrow> bool" where
  "wf_command command \<longleftrightarrow> (\<forall>part\<in>set command. \<not> TrimSpace_empty part)"

definition wf_container :: "parsers \<Rightarrow> Container \<Rightarrow> VolumeMount list \<Rightarrow> bool" where
  "wf_container ps c mounts \<longleftrightarrow> con_Image c \<noteq> [] \<and> ps_image ps (con_Image c)
     \<and> wf_command (con_Command c @ con_Entrypoint c @ con_CapAdd c @ con_CapDrop c)
     \<and> (con_ShmSize c = [] \<or> is_size ps (con_ShmSize c)) \<and> wf_devices (con_Devices c)
     \<and> con_Pull c \<in> {PullPolicyOther [], PullAlways, PullFollow, PullMissing, PullNever}
     \<and> con_PidMode c \<in> {[], ''host''} \<and> con_NetworkMode c \<in> {[], ''host''}
     \<and> wf_tmpfs (con_Tmpfs c) mounts"

definition wf_exec :: "Exec \<Rightarrow> bool" where
  "wf_exec e \<longleftrightarrow> exec_Command e \<noteq> [] \<and> wf_command (exec_Command e)"

definition wf_block :: "parsers \<Rightarrow> Spec \<Rightarrow> Runtime \<Rightarrow> bool" where
  "wf_block ps spec runtime \<longleftrightarrow> (case runtime of
       RuntimeContainer \<Rightarrow> spec_Exec spec = None
         \<and> (\<exists>c. spec_Container spec = Some c \<and> wf_container ps c (spec_Volumes spec))
     | RuntimeExec \<Rightarrow> spec_Container spec = None \<and> (\<exists>e. spec_Exec spec = Some e \<and> wf_exec e))"

text \<open>The rules that do not depend on the runtime, and all of them.\<close>

definition wf_common :: "parsers \<Rightarrow> Spec \<Rightarrow> bool" where
  "wf_common ps spec \<longleftrightarrow> spec_Version spec = version \<and> validReferenceName (spec_Name spec)
     \<and> 1 \<le> spec_Count spec \<and> 0 \<le> spec_StopTimeout spec
     \<and> pred_option wf_restart (spec_Restart spec)
     \<and> pred_option (wf_schedule ps spec) (spec_Schedule spec)
     \<and> wf_labels (spec_Labels spec) \<and> wf_env spec
     \<and> pred_option (wf_health spec) (spec_Health spec)
     \<and> pred_option (wf_resources ps) (spec_Resources spec)
     \<and> pred_option (wf_logs ps) (spec_Logs spec)"

definition wf_spec :: "parsers \<Rightarrow> Spec \<Rightarrow> bool" where
  "wf_spec ps spec \<longleftrightarrow> wf_common ps spec
     \<and> (\<exists>runtime. wf_block ps spec runtime \<and> wf_spec_ports spec runtime
          \<and> wf_volumes (spec_Volumes spec) runtime)"

lemma validateHeader_None [accepts]:
  "validateHeader v name = None \<longleftrightarrow> v = version \<and> validReferenceName name"
  by (auto simp: validateHeader_def validateVersion_def ValidateName_def accepts validReferenceName_def
      maxLabelKeyLength_def version_def dest: namePattern_nonempty)

lemma ValidateLabels_None [accepts]: "ValidateLabels labels = None \<longleftrightarrow> wf_labels labels"
  by (auto simp: ValidateLabels_def validateLabel_def wf_labels_def wf_label_def accepts)

lemma validateRestart_None [accepts]: "validateRestart x = None \<longleftrightarrow> pred_option wf_restart x"
  by (cases x) (auto simp: validateRestart_def wf_restart_def accepts)

lemma validateSchedule_None [accepts]:
  "validateSchedule ps spec = None \<longleftrightarrow> pred_option (wf_schedule ps spec) (spec_Schedule spec)"
  by (cases "spec_Schedule spec") (auto simp: validateSchedule_def wf_schedule_def accepts)

lemma validateEnv_None [accepts]: "validateEnv spec = None \<longleftrightarrow> wf_env spec"
  by (auto simp: validateEnv_def wf_env_def accepts split: sum.splits)

lemma validateResources_None [accepts]:
  "validateResources ps spec = None \<longleftrightarrow> pred_option (wf_resources ps) (spec_Resources spec)"
  by (cases "spec_Resources spec") (auto simp: validateResources_def wf_resources_def accepts)

lemma validateLogs_None [accepts]: "validateLogs ps x = None \<longleftrightarrow> pred_option (wf_logs ps) x"
  by (cases x) (auto simp: validateLogs_def wf_logs_def accepts)

lemma validCommand_None [accepts]: "validCommand command = None \<longleftrightarrow> wf_command command"
  by (simp add: validCommand_def wf_command_def accepts)

lemma validateExec_None [accepts]: "validateExec e = None \<longleftrightarrow> wf_exec e"
  by (simp add: validateExec_def wf_exec_def accepts)

lemma validateContainer_None:
  "validateTmpfs (con_Tmpfs c) mounts = None \<and> validateContainer ps c = None \<longleftrightarrow> wf_container ps c mounts"
  unfolding validateContainer_def wf_container_def accepts wf_command_def by (auto simp: accepts wf_command_def)

lemma validateHealthPort_None [accepts]:
  "validateHealthPort h ports = None \<longleftrightarrow> list_ex (selects h) ports
     \<and> (hl_Port h = [] \<longrightarrow> length (filter (selects h) ports) = 1)"
proof (cases "hl_Port h = []")
  case True
  then have tcp: "selects h = (\<lambda>p. port_Protocol p = ProtocolTCP)" by (auto simp: selects_def)
  have "list_ex (selects h) ports \<longleftrightarrow> filter (selects h) ports \<noteq> []"
    by (simp add: list_ex_iff filter_empty_conv)
  then show ?thesis
    unfolding validateHealthPort_def Let_def tcp [symmetric] using True
    by (cases "filter (selects h) ports") (simp_all add: accepts)
next
  case False
  then show ?thesis
    by (auto simp: validateHealthPort_def Let_def accepts selects_def list_ex_iff filter_empty_conv)
qed

lemma probes_named_one:
  "probes_named h = 1 \<longleftrightarrow>
     hl_HTTP h \<noteq> [] \<and> \<not> hl_TCP h \<and> hl_Command h = [] \<or> hl_HTTP h = [] \<and> hl_TCP h \<and> hl_Command h = []
     \<or> hl_HTTP h = [] \<and> \<not> hl_TCP h \<and> hl_Command h \<noteq> []"
  by (auto simp: probes_named_def)

lemma validateHealthCommand_None [accepts]:
  "validateHealthCommand spec h = None \<longleftrightarrow> hl_Port h = [] \<and> (spec_Exec spec \<noteq> None \<longrightarrow>
     (\<forall>key\<in>fst ` set (spec_Env spec). \<not> reads_token (lookup_str (spec_Env spec) key)))"
  by (auto simp: validateHealthCommand_def accepts)

lemma validateHealth_None [accepts]:
  "validateHealth spec = None \<longleftrightarrow> pred_option (wf_health spec) (spec_Health spec)"
proof (cases "spec_Health spec")
  case (Some h)
  have one: "\<not> probes_named h > 1 \<and> probes_named h \<noteq> 0 \<longleftrightarrow> probes_named h = 1" by auto
  have "validateHealth spec = None \<longleftrightarrow> validate_timing h = None \<and> probes_named h = 1
      \<and> (if hl_Command h \<noteq> [] then validateHealthCommand spec h = None
         else (hl_HTTP h = [] \<or> rootedPath (hl_HTTP h)) \<and> validateHealthPort h (spec_Ports spec) = None)"
    using Some one by (auto simp: validateHealth_def accepts)
  also have "\<dots> \<longleftrightarrow> wf_health spec h"
    unfolding probes_named_one wf_health_def wf_probe_def accepts
    by (cases "hl_Command h = []") (auto simp: validate_timing_def accepts)
  finally show ?thesis using Some by simp
qed (simp add: validateHealth_def)

lemma RuntimeOf_Inr:
  "RuntimeOf spec = Inr runtime \<longleftrightarrow> (case runtime of
     RuntimeContainer \<Rightarrow> spec_Exec spec = None \<and> spec_Container spec \<noteq> None
   | RuntimeExec \<Rightarrow> spec_Container spec = None \<and> spec_Exec spec \<noteq> None)"
  by (auto simp: RuntimeOf_def split: Runtime.splits)

lemma validate_block_None:
  assumes "RuntimeOf spec = Inr runtime"
  shows "(case spec_Container spec of None \<Rightarrow> None
            | Some c \<Rightarrow> validateTmpfs (con_Tmpfs c) (spec_Volumes spec)) = None
         \<and> validate_block ps spec runtime = None \<longleftrightarrow> wf_block ps spec runtime"
proof (cases runtime)
  case RuntimeContainer
  then obtain c where "spec_Container spec = Some c" "spec_Exec spec = None"
    using assms by (auto simp: RuntimeOf_Inr)
  then show ?thesis
    using RuntimeContainer validateContainer_None [of c "spec_Volumes spec" ps]
    by (simp add: validate_block_def wf_block_def)
next
  case RuntimeExec
  then show ?thesis using assms by (auto simp: RuntimeOf_Inr validate_block_def wf_block_def accepts)
qed

lemma wf_block_RuntimeOf: "wf_block ps spec runtime \<Longrightarrow> RuntimeOf spec = Inr runtime"
  by (cases runtime) (auto simp: RuntimeOf_Inr wf_block_def)

lemma ValidateWorkload_None: "ValidateWorkload ps spec = None \<longleftrightarrow> wf_spec ps spec"
proof (cases "RuntimeOf spec")
  case (Inl e)
  then have "\<not> wf_spec ps spec" using wf_block_RuntimeOf by (fastforce simp: wf_spec_def)
  then show ?thesis using Inl by (simp add: ValidateWorkload_def accepts)
next
  case (Inr runtime)
  then have "wf_spec ps spec \<longleftrightarrow> wf_common ps spec \<and> wf_block ps spec runtime
      \<and> wf_spec_ports spec runtime \<and> wf_volumes (spec_Volumes spec) runtime"
    unfolding wf_spec_def using wf_block_RuntimeOf [of ps spec] by auto
  then show ?thesis
    unfolding validate_block_None [OF Inr, symmetric] ValidateWorkload_def wf_common_def Inr
    by (auto simp: accepts validateCount_def)
qed

lemma wf_spec_ports: "wf_spec ps spec \<Longrightarrow> wf_ports (spec_Ports spec)"
  by (auto simp: wf_spec_def wf_spec_ports_def)

text \<open>
  A reference to a port selects at most one of the published TCP ports: a name is not a number, two
  entries with one name publish one port, and one port is published once over TCP.
\<close>

lemma Matches_same_To:
  assumes "wf_ports ps" "p \<in> set ps" "q \<in> set ps"
    and "PortRef_Matches r (port_Name p) (port_To p)" "PortRef_Matches r (port_Name q) (port_To q)"
  shows "port_To p = port_To q"
proof -
  have named: "isNumber (port_Name x) \<longrightarrow> port_Name x = []" if "x \<in> set ps" for x
    using assms(1) that by (auto simp: wf_ports_def list_all_iff wf_port_def)
  have agree: "\<not> names_clash p q"
    using assms(1-3) by (auto simp: wf_ports_def names_agree_def list_all_iff list_ex_iff)
  have "r \<noteq> []" using assms(4) by (auto simp: PortRef_Matches_def)
  then consider "r = port_Name p" "r = port_Name q" | "isNumber r" "r = port_Name p \<or> r = port_Name q"
    | "Atoi r = Some (port_To p)" "Atoi r = Some (port_To q)"
    using assms(4,5) by (auto simp: PortRef_Matches_def isNumber_def split: if_splits)
  then show ?thesis
  proof cases
    case 1
    then show ?thesis using agree \<open>r \<noteq> []\<close> by (auto simp: names_clash_def)
  next
    case 2
    then show ?thesis using named [OF assms(2)] named [OF assms(3)] \<open>r \<noteq> []\<close> by auto
  qed simp
qed

lemma to_key_unique:
  "wf_ports ps \<Longrightarrow> p \<in> set ps \<Longrightarrow> q \<in> set ps \<Longrightarrow> to_key p = to_key q \<Longrightarrow> p = q"
  by (auto simp: wf_ports_def distinct_map inj_on_def)

lemma length_one_unique:
  "length xs = 1 \<Longrightarrow> x \<in> set xs \<Longrightarrow> y \<in> set xs \<Longrightarrow> x = y"
  by (cases xs) auto

lemma selects_unique:
  assumes "wf_ports (spec_Ports spec)" "wf_health spec h" "hl_Command h = []"
    and "p \<in> set (spec_Ports spec)" "q \<in> set (spec_Ports spec)" "selects h p" "selects h q"
  shows "p = q"
proof (cases "hl_Port h = []")
  case True
  then have "length (filter (selects h) (spec_Ports spec)) = 1"
    using assms(2,3) by (auto simp: wf_health_def wf_probe_def)
  then show ?thesis by (rule length_one_unique) (use assms(4-7) in auto)
next
  case False
  then have "port_To p = port_To q"
    using assms(4-7) by (intro Matches_same_To [OF assms(1)]) (auto simp: selects_def)
  then show ?thesis
    using assms(6,7) by (intro to_key_unique [OF assms(1,4,5)]) (simp add: to_key_def selects_def)
qed

section \<open>Properties\<close>

text \<open>
  A specification is accepted exactly when it keeps every rule: the checks the code runs one after
  the other, with sets of what they have seen, amount to conditions on the specification as a whole, such
  as that no two ports, mounts, devices or memory-backed paths claim the same place.
\<close>

lemma ValidateWorkload_accepts: "ValidateWorkload ps spec = None \<longleftrightarrow> wf_spec ps spec"
  by (rule ValidateWorkload_None)

end
