(* ===== verification/Ports.thy ===== *)
theory Ports
  imports Driver
begin

text \<open>
  Host ports: the allocator (\<open>internal/server/port/port.go\<close>), the claimer that settles a workload's
  mappings on host ports (\<open>port/claim.go\<close>), and the table the claims are stored in
  (\<open>database/port.go\<close>).

  What the allocator reads of its surroundings, a random draw and whether the host has a listener, is a
  parameter indexed by the number of the call, so that two calls may see different answers. The table is
  a list of rows; the uniqueness constraints of its schema are checked by \<open>insert_port\<close>.
\<close>

section \<open>Data\<close>

datatype port_error =
    ErrRangeExhausted int int
  | ErrPinnedInstances int
  | ErrHeldBy int Protocol string
  | ErrInUseOnHost int Protocol
  | ErrNoPortsAvailable int port_error
  | ErrAllocate int port_error
  | ErrReadAllocated goerr
  | ErrLookUp goerr

text \<open>The errors that wrap the sentinel \<open>ErrHostPortTaken\<close>, and those that wrap \<open>ErrRangeExhausted\<close>.\<close>

fun is_ErrHostPortTaken :: "port_error \<Rightarrow> bool" where
  "is_ErrHostPortTaken (ErrPinnedInstances n) = True"
| "is_ErrHostPortTaken (ErrHeldBy h p w) = True"
| "is_ErrHostPortTaken (ErrInUseOnHost h p) = True"
| "is_ErrHostPortTaken (ErrAllocate c e) = is_ErrHostPortTaken e"
| "is_ErrHostPortTaken _ = False"

fun is_ErrRangeExhausted :: "port_error \<Rightarrow> bool" where
  "is_ErrRangeExhausted (ErrRangeExhausted a b) = True"
| "is_ErrRangeExhausted (ErrAllocate c e) = is_ErrRangeExhausted e"
| "is_ErrRangeExhausted _ = False"

record Allocator =
  al_min :: int
  al_max :: int

record Claim =
  clm_Instance :: int
  clm_Name :: string
  clm_Container :: int
  clm_Host :: int
  clm_Protocol :: Protocol
  clm_Dynamic :: bool

datatype port_key = PortKey (key_container: int) (key_protocol: Protocol)

type_synonym taken = "Protocol \<Rightarrow> int list"
type_synonym allocation_fn = "nat \<Rightarrow> Protocol list \<Rightarrow> taken \<Rightarrow> port_error + int"

section \<open>The allocator\<close>

definition claimed_ports :: "Protocol list \<Rightarrow> taken \<Rightarrow> Protocol \<Rightarrow> int set" where
  "claimed_ports protocols taken p = (if p \<in> set protocols then set (taken p) else {})"

fun usable :: "(Protocol \<Rightarrow> int \<Rightarrow> bool) \<Rightarrow> Protocol list \<Rightarrow> (Protocol \<Rightarrow> int set) \<Rightarrow> int \<Rightarrow> bool" where
  "usable avail [] claimed candidate = True"
| "usable avail (p # ps) claimed candidate =
     (if candidate \<in> claimed p then False
      else if \<not> avail p candidate then False
      else usable avail ps claimed candidate)"

text \<open>
  \<open>draw n\<close> stands for \<open>rand.IntN\<close> and \<open>avail n\<close> for \<open>Available\<close> during call \<open>n\<close>; within one call no port
  is probed twice on one protocol.
\<close>

definition Allocate ::
  "Allocator \<Rightarrow> (nat \<Rightarrow> int \<Rightarrow> int) \<Rightarrow> (nat \<Rightarrow> Protocol \<Rightarrow> int \<Rightarrow> bool) \<Rightarrow> allocation_fn" where
  "Allocate a draw avail n protocols taken =
     (let claimed = claimed_ports protocols taken;
          size = al_max a - al_min a + 1;
          offset = draw n size
      in case find (usable (avail n) protocols claimed)
                (map (\<lambda>i. al_min a + (offset + i) mod size) [0..size - 1]) of
           Some candidate \<Rightarrow> Inr candidate
         | None \<Rightarrow> Inl (ErrRangeExhausted (al_min a) (al_max a)))"

section \<open>The claimer\<close>

text \<open>
  The claimer's collaborators: how it obtains a port, what it reads of the stored ports, and the
  optional probe of the host.
\<close>

record Claimer =
  cl_Allocate :: allocation_fn
  cl_HolderOf :: "int \<Rightarrow> Protocol \<Rightarrow> goerr + string option"
  cl_Allocated :: "goerr + taken"
  cl_probe :: "(Protocol \<Rightarrow> int \<Rightarrow> bool) option"

definition protocolOf :: "Port \<Rightarrow> Protocol" where
  "protocolOf m = (if port_Protocol m = unset_protocol then ProtocolTCP else port_Protocol m)"

abbreviation mapping_key :: "Port \<Rightarrow> port_key" where
  "mapping_key m \<equiv> PortKey (port_To m) (protocolOf m)"

abbreviation claim_key :: "Claim \<Rightarrow> port_key" where
  "claim_key c \<equiv> PortKey (clm_Container c) (clm_Protocol c)"

fun Pinned :: "Port list \<Rightarrow> bool" where
  "Pinned [] = False"
| "Pinned (m # ms) = (if port_From m \<noteq> 0 then True else Pinned ms)"

definition Requested :: "Port list \<Rightarrow> Claim list \<Rightarrow> Port list" where
  "Requested mappings held =
     (let allocated = claim_key ` {c \<in> set held. clm_Dynamic c \<and> clm_Instance c = 0}
      in map (\<lambda>m. if mapping_key m \<in> allocated
                  then \<lparr>port_Name = port_Name m, port_To = port_To m, port_From = 0,
                        port_Protocol = port_Protocol m\<rparr>
                  else m) mappings)"

definition heldBy :: "Claim list \<Rightarrow> int \<Rightarrow> port_key \<rightharpoonup> Claim" where
  "heldBy existing instance =
     fold (\<lambda>c held. if clm_Instance c \<noteq> instance then held else held(claim_key c \<mapsto> c))
       existing Map.empty"

definition kept :: "(port_key \<rightharpoonup> Claim) \<Rightarrow> Port \<Rightarrow> Claim option" where
  "kept held m = (case held (mapping_key m) of
       None \<Rightarrow> None | Some c \<Rightarrow> if clm_Dynamic c then Some c else None)"

definition add_group ::
  "(port_key \<rightharpoonup> Claim) \<Rightarrow> Port \<Rightarrow> int list \<times> (int \<rightharpoonup> Protocol list)
     \<Rightarrow> int list \<times> (int \<rightharpoonup> Protocol list)" where
  "add_group held m = (\<lambda>(order, groups).
     if port_From m \<noteq> 0 then (order, groups)
     else if kept held m \<noteq> None then (order, groups)
     else (if groups (port_To m) = None then order @ [port_To m] else order,
           groups(port_To m \<mapsto> (case groups (port_To m) of None \<Rightarrow> [] | Some ps \<Rightarrow> ps)
             @ [protocolOf m])))"

definition take_port :: "int \<Rightarrow> Protocol list \<Rightarrow> taken \<Rightarrow> taken" where
  "take_port host protocols taken = fold (\<lambda>p t. t(p := t p @ [host])) protocols taken"

definition settle_port ::
  "int \<Rightarrow> int \<Rightarrow> Protocol list \<Rightarrow> (port_key \<rightharpoonup> int) \<Rightarrow> (port_key \<rightharpoonup> int)" where
  "settle_port container host protocols allocs =
     fold (\<lambda>p a. a(PortKey container p \<mapsto> host)) protocols allocs"

fun allocate_groups ::
  "allocation_fn \<Rightarrow> (int \<rightharpoonup> Protocol list) \<Rightarrow> int list \<Rightarrow> nat \<Rightarrow> taken \<Rightarrow> (port_key \<rightharpoonup> int)
     \<Rightarrow> port_error + (nat \<times> taken \<times> (port_key \<rightharpoonup> int))" where
  "allocate_groups alloc groups [] n taken allocs = Inr (n, taken, allocs)"
| "allocate_groups alloc groups (container # order) n taken allocs =
     (let protocols = (case groups container of None \<Rightarrow> [] | Some ps \<Rightarrow> ps)
      in case alloc n protocols taken of
           Inl err \<Rightarrow> Inl (if is_ErrRangeExhausted err then ErrNoPortsAvailable container err
                           else ErrAllocate container err)
         | Inr host \<Rightarrow> allocate_groups alloc groups order (Suc n) (take_port host protocols taken)
             (settle_port container host protocols allocs))"

definition claimer_allocate ::
  "Claimer \<Rightarrow> (port_key \<rightharpoonup> Claim) \<Rightarrow> nat \<Rightarrow> taken \<Rightarrow> Port list
     \<Rightarrow> port_error + (nat \<times> taken \<times> (port_key \<rightharpoonup> int))" where
  "claimer_allocate c held n taken mappings =
     (let (order, groups) = fold (add_group held) mappings ([], Map.empty)
      in allocate_groups (cl_Allocate c) groups order n taken Map.empty)"

definition claimer_resolve ::
  "Claimer \<Rightarrow> string \<Rightarrow> (port_key \<rightharpoonup> Claim) \<Rightarrow> (port_key \<rightharpoonup> int) \<Rightarrow> Port \<Rightarrow> port_error + Claim" where
  "claimer_resolve c workload held allocs m =
     (let protocol = protocolOf m
      in if port_From m \<noteq> 0 then
           (case cl_HolderOf c (port_From m) protocol of
              Inl err \<Rightarrow> Inl (ErrLookUp err)
            | Inr holder \<Rightarrow>
                if holder \<noteq> None \<and> holder \<noteq> Some workload
                then Inl (ErrHeldBy (port_From m) protocol (the holder))
                else if holder = None \<and> cl_probe c \<noteq> None
                        \<and> \<not> the (cl_probe c) protocol (port_From m)
                then Inl (ErrInUseOnHost (port_From m) protocol)
                else Inr \<lparr>clm_Instance = 0, clm_Name = port_Name m, clm_Container = port_To m,
                          clm_Host = port_From m, clm_Protocol = protocol, clm_Dynamic = False\<rparr>)
         else (case kept held m of
              Some previous \<Rightarrow> Inr (previous\<lparr>clm_Name := port_Name m\<rparr>)
            | None \<Rightarrow> Inr \<lparr>clm_Instance = 0, clm_Name = port_Name m, clm_Container = port_To m,
                clm_Host = (case allocs (mapping_key m) of None \<Rightarrow> 0 | Some h \<Rightarrow> h),
                clm_Protocol = protocol, clm_Dynamic = True\<rparr>))"

fun resolve_mappings ::
  "Claimer \<Rightarrow> string \<Rightarrow> (port_key \<rightharpoonup> Claim) \<Rightarrow> (port_key \<rightharpoonup> int) \<Rightarrow> int \<Rightarrow> Port list
     \<Rightarrow> port_error + Claim list" where
  "resolve_mappings c workload held allocs instance [] = Inr []"
| "resolve_mappings c workload held allocs instance (m # ms) =
     (case claimer_resolve c workload held allocs m of
        Inl err \<Rightarrow> Inl err
      | Inr claim \<Rightarrow> (case resolve_mappings c workload held allocs instance ms of
            Inl err \<Rightarrow> Inl err
          | Inr claims \<Rightarrow> Inr (claim\<lparr>clm_Instance := instance\<rparr> # claims)))"

fun resolve_instances ::
  "Claimer \<Rightarrow> string \<Rightarrow> Claim list \<Rightarrow> Port list \<Rightarrow> nat \<Rightarrow> taken \<Rightarrow> int list
     \<Rightarrow> port_error + Claim list" where
  "resolve_instances c workload existing mappings n taken [] = Inr []"
| "resolve_instances c workload existing mappings n taken (instance # rest) =
     (let held = heldBy existing instance
      in case claimer_allocate c held n taken mappings of
           Inl err \<Rightarrow> Inl err
         | Inr (n', taken', allocs) \<Rightarrow>
             (case resolve_mappings c workload held allocs instance mappings of
                Inl err \<Rightarrow> Inl err
              | Inr claims \<Rightarrow>
                  (case resolve_instances c workload existing mappings n' taken' rest of
                     Inl err \<Rightarrow> Inl err | Inr more_claims \<Rightarrow> Inr (claims @ more_claims))))"

definition pin_port :: "Port \<Rightarrow> taken \<Rightarrow> taken" where
  "pin_port m t = (if port_From m \<noteq> 0
     then t(protocolOf m := t (protocolOf m) @ [port_From m]) else t)"

definition claimer_Resolve ::
  "Claimer \<Rightarrow> string \<Rightarrow> Claim list \<Rightarrow> Port list \<Rightarrow> int \<Rightarrow> port_error + Claim list" where
  "claimer_Resolve c workload existing mappings count =
     (if 1 < count \<and> Pinned mappings then Inl (ErrPinnedInstances count)
      else case cl_Allocated c of
             Inl err \<Rightarrow> Inl (ErrReadAllocated err)
           | Inr allocated \<Rightarrow>
               resolve_instances c workload existing mappings 0 (fold pin_port mappings allocated)
                 [0..count - 1])"

fun preview_instances ::
  "Claimer \<Rightarrow> string \<Rightarrow> Claim list \<Rightarrow> Port list \<Rightarrow> int list \<Rightarrow> port_error + Claim list" where
  "preview_instances c workload existing mappings [] = Inr []"
| "preview_instances c workload existing mappings (instance # rest) =
     (case resolve_mappings c workload (heldBy existing instance) Map.empty instance mappings of
        Inl err \<Rightarrow> Inl err
      | Inr claims \<Rightarrow> (case preview_instances c workload existing mappings rest of
            Inl err \<Rightarrow> Inl err | Inr more_claims \<Rightarrow> Inr (claims @ more_claims)))"

definition claimer_Preview ::
  "Claimer \<Rightarrow> string \<Rightarrow> Claim list \<Rightarrow> Port list \<Rightarrow> int \<Rightarrow> port_error + (Claim list \<times> bool)" where
  "claimer_Preview c workload existing mappings count =
     (if 1 < count \<and> Pinned mappings then Inl (ErrPinnedInstances count)
      else map_sum id (\<lambda>claims. (claims, list_ex (\<lambda>claim. clm_Host claim = 0) claims))
             (preview_instances c workload existing mappings [0..count - 1]))"

definition settled_claims :: "Claim list \<Rightarrow> port_key \<rightharpoonup> Claim" where
  "settled_claims claims =
     fold (\<lambda>c m. if clm_Instance c \<noteq> 0 then m else m(claim_key c \<mapsto> c)) claims Map.empty"

definition Resolved :: "Spec \<Rightarrow> Claim list \<Rightarrow> Spec" where
  "Resolved spec claims =
     (if spec_Ports spec = [] \<or> claims = [] then spec
      else let settled = settled_claims claims
           in spec\<lparr>spec_Ports := List.map_filter (\<lambda>m. map_option (\<lambda>claim.
                  \<lparr>port_Name = port_Name m, port_To = port_To m, port_From = clm_Host claim,
                   port_Protocol = protocolOf m\<rparr>) (settled (mapping_key m))) (spec_Ports spec)\<rparr>)"

section \<open>The table\<close>

text \<open>
  The rows of \<open>workload_port\<close>, with the constraints of its schema: the primary key is the workload, the
  instance, the container port and the protocol, and no two rows share a host port and a protocol. The
  workload's name is read through the join with the workload table, here a map from identifiers.
\<close>

type_synonym port_table = "database_Port list"

definition same_row_key :: "database_Port \<Rightarrow> database_Port \<Rightarrow> bool" where
  "same_row_key p q \<longleftrightarrow> prt_WorkloadID p = prt_WorkloadID q \<and> prt_Instance p = prt_Instance q
     \<and> prt_Container p = prt_Container q \<and> prt_Protocol p = prt_Protocol q"

definition same_host_port :: "database_Port \<Rightarrow> database_Port \<Rightarrow> bool" where
  "same_host_port p q \<longleftrightarrow> prt_Host p = prt_Host q \<and> prt_Protocol p = prt_Protocol q"

datatype table_error = Tbl_ErrHostPortTaken int Protocol

definition insert_port :: "database_Port \<Rightarrow> port_table \<Rightarrow> table_error + port_table" where
  "insert_port p t =
     (if list_ex (\<lambda>q. same_row_key p q \<or> same_host_port p q) t
      then Inl (Tbl_ErrHostPortTaken (prt_Host p) (prt_Protocol p)) else Inr (t @ [p]))"

fun insert_ports :: "string \<Rightarrow> database_Port list \<Rightarrow> port_table \<Rightarrow> table_error + port_table" where
  "insert_ports wid [] t = Inr t"
| "insert_ports wid (p # ps) t =
     (case insert_port (p\<lparr>prt_WorkloadID := wid\<rparr>) t of
        Inl err \<Rightarrow> Inl err | Inr t' \<Rightarrow> insert_ports wid ps t')"

definition table_Release :: "string \<Rightarrow> port_table \<Rightarrow> port_table" where
  "table_Release wid t = filter (\<lambda>p. prt_WorkloadID p \<noteq> wid) t"

text \<open>The transaction: a failed insert rolls the deletion back, so the caller keeps the table it had.\<close>

definition table_Claim :: "string \<Rightarrow> database_Port list \<Rightarrow> port_table \<Rightarrow> table_error option \<times> port_table" where
  "table_Claim wid ps t = (case insert_ports wid ps (table_Release wid t) of
       Inl err \<Rightarrow> (Some err, t) | Inr t' \<Rightarrow> (None, t'))"

fun protocol_string :: "Protocol \<Rightarrow> string" where
  "protocol_string ProtocolTCP = ''tcp''"
| "protocol_string ProtocolUDP = ''udp''"
| "protocol_string (ProtocolOther s) = s"

text \<open>\<open>ORDER BY instance, container_port, protocol\<close>: three stable sorts, the first column last.\<close>

definition table_List :: "port_table \<Rightarrow> string \<Rightarrow> database_Port list" where
  "table_List t wid = sort_key prt_Instance (sort_key prt_Container
     (sort_key (\<lambda>p. protocol_string (prt_Protocol p)) (filter (\<lambda>p. prt_WorkloadID p = wid) t)))"

definition table_HolderOf :: "(string \<rightharpoonup> string) \<Rightarrow> port_table \<Rightarrow> int \<Rightarrow> Protocol \<Rightarrow> goerr + string option" where
  "table_HolderOf names t host protocol =
     Inr (case find (\<lambda>p. prt_Host p = host \<and> prt_Protocol p = protocol
                        \<and> names (prt_WorkloadID p) \<noteq> None) t of
            None \<Rightarrow> None | Some p \<Rightarrow> names (prt_WorkloadID p))"

definition table_Allocated :: "port_table \<Rightarrow> goerr + taken" where
  "table_Allocated t =
     Inr (\<lambda>p. sort (map prt_Host (filter (\<lambda>r. prt_Protocol r = p) t)))"

section \<open>Between claims and rows\<close>

definition row_claim :: "database_Port \<Rightarrow> Claim" where
  "row_claim p = \<lparr>clm_Instance = prt_Instance p, clm_Name = prt_Name p,
     clm_Container = prt_Container p, clm_Host = prt_Host p, clm_Protocol = prt_Protocol p,
     clm_Dynamic = prt_Dynamic p\<rparr>"

definition heldClaims :: "database_Port list \<Rightarrow> Claim list" where
  "heldClaims ports = map row_claim ports"

definition claim_row :: "string \<Rightarrow> Claim \<Rightarrow> database_Port" where
  "claim_row wid c = \<lparr>prt_WorkloadID = wid, prt_Instance = clm_Instance c,
     prt_Name = clm_Name c, prt_Container = clm_Container c, prt_Host = clm_Host c,
     prt_Protocol = clm_Protocol c, prt_Dynamic = clm_Dynamic c\<rparr>"

definition allocations_rows :: "Claim list \<Rightarrow> string \<Rightarrow> database_Port list" where
  "allocations_rows claims wid = map (claim_row wid) claims"

section \<open>The allocator's contract\<close>

lemma usable_iff:
  "usable avail ps claimed h \<longleftrightarrow> (\<forall>p\<in>set ps. h \<notin> claimed p \<and> avail p h)"
  by (induction ps) auto

lemma rotated_range:
  fixes lo hi offset :: int
  assumes "lo \<le> hi"
  shows "(\<lambda>i. lo + (offset + i) mod (hi - lo + 1)) ` {0..hi - lo} = {lo..hi}"
proof (intro equalityI subsetI)
  fix x assume "x \<in> (\<lambda>i. lo + (offset + i) mod (hi - lo + 1)) ` {0..hi - lo}"
  then obtain i where "x = lo + (offset + i) mod (hi - lo + 1)" by blast
  then show "x \<in> {lo..hi}"
    using assms pos_mod_bound [of "hi - lo + 1" "offset + i"] pos_mod_sign [of "hi - lo + 1" "offset + i"]
    by simp
next
  fix x assume x: "x \<in> {lo..hi}"
  let ?n = "hi - lo + 1"
  let ?i = "(x - lo - offset) mod ?n"
  have "(offset + ?i) mod ?n = (x - lo) mod ?n"
    by (metis add.commute diff_add_cancel mod_add_right_eq)
  then have "(offset + ?i) mod ?n = x - lo" using x by simp
  moreover have "?i \<in> {0..hi - lo}"
    using assms pos_mod_bound [of ?n] pos_mod_sign [of ?n] by (simp add: zle_diff1_eq [symmetric])
  ultimately show "x \<in> (\<lambda>i. lo + (offset + i) mod ?n) ` {0..hi - lo}"
    by (intro image_eqI [where x = ?i]) simp_all
qed

text \<open>
  The allocator returns a port of its range that is free on every protocol asked for, neither
  promised to a workload nor bound on the host at the time it was probed; and it reports the range
  exhausted only when every port of the range is unusable. This holds wherever the random draw starts
  the search.
\<close>

lemma Allocate_correct:
  assumes "al_min a \<le> al_max a"
  shows "case Allocate a draw avail n protocols taken of
      Inr h \<Rightarrow> al_min a \<le> h \<and> h \<le> al_max a
        \<and> (\<forall>p\<in>set protocols. h \<notin> set (taken p) \<and> avail n p h)
    | Inl e \<Rightarrow> e = ErrRangeExhausted (al_min a) (al_max a)
        \<and> (\<forall>h. al_min a \<le> h \<and> h \<le> al_max a \<longrightarrow>
             (\<exists>p\<in>set protocols. h \<in> set (taken p) \<or> \<not> avail n p h))"
proof -
  let ?size = "al_max a - al_min a + 1"
  let ?xs = "map (\<lambda>i. al_min a + (draw n ?size + i) mod ?size) [0..?size - 1]"
  let ?u = "usable (avail n) protocols (claimed_ports protocols taken)"
  have range: "set ?xs = {al_min a..al_max a}"
    using rotated_range [OF assms, of "draw n ?size"] by simp
  have u: "?u h \<longleftrightarrow> (\<forall>p\<in>set protocols. h \<notin> set (taken p) \<and> avail n p h)" for h
    by (simp add: usable_iff claimed_ports_def)
  show ?thesis
  proof (cases "find ?u ?xs")
    case None
    then have "\<forall>x\<in>set ?xs. \<not> ?u x" unfolding find_None_iff by blast
    then have "\<not> ?u h" if "al_min a \<le> h" "h \<le> al_max a" for h
      using that unfolding range by simp
    with None u show ?thesis by (auto simp: Allocate_def Let_def)
  next
    case (Some h)
    then have "?u h" "h \<in> set ?xs" by (auto simp: find_Some_iff)
    with Some range u show ?thesis by (simp add: Allocate_def Let_def)
  qed
qed

section \<open>What the claimer needs of an allocator\<close>

text \<open>
  The one law of the \<open>Allocation\<close> interface: a port handed out was taken on none of the protocols it was
  asked for.
\<close>

definition alloc_inv :: "taken \<Rightarrow> taken \<Rightarrow> (port_key \<rightharpoonup> int) \<Rightarrow> bool" where
  "alloc_inv before taken allocs \<longleftrightarrow>
     (\<forall>p. set (taken p) = set (before p) \<union> {h. \<exists>c. allocs (PortKey c p) = Some h})
     \<and> (\<forall>c p h. allocs (PortKey c p) = Some h \<longrightarrow> h \<notin> set (before p))
     \<and> (\<forall>c d p h. allocs (PortKey c p) = Some h \<and> allocs (PortKey d p) = Some h \<longrightarrow> c = d)"

lemma take_port_set:
  "set (take_port h ps t p) = set (t p) \<union> (if p \<in> set ps then {h} else {})"
  unfolding take_port_def by (induction ps arbitrary: t) auto

lemma settle_port_apply:
  "settle_port c h ps m (PortKey d p) = (if d = c \<and> p \<in> set ps then Some h else m (PortKey d p))"
  unfolding settle_port_def by (induction ps arbitrary: m) auto

locale allocation =
  fixes alloc :: allocation_fn
  assumes fresh: "alloc n ps t = Inr h \<Longrightarrow> p \<in> set ps \<Longrightarrow> h \<notin> set (t p)"
begin

lemma step_inv:
  assumes "alloc_inv before t m" and "alloc n ps t = Inr h" and "\<forall>p. m (PortKey c p) = None"
  shows "alloc_inv before (take_port h ps t) (settle_port c h ps m)"
proof -
  have new: "h \<notin> set (before p)" "m (PortKey d p) \<noteq> Some h" if "p \<in> set ps" for d p
    using fresh [OF assms(2) that] assms(1) by (auto simp: alloc_inv_def)
  let ?m = "settle_port c h ps m"
  have here: "?m (PortKey c p) = (if p \<in> set ps then Some h else None)" for p
    using assms(3) by (simp add: settle_port_apply)
  have there: "?m (PortKey d p) = m (PortKey d p)" if "d \<noteq> c" for d p
    using that by (simp add: settle_port_apply)
  have hosts: "(\<exists>d. ?m (PortKey d p) = Some x) \<longleftrightarrow>
      (\<exists>d. m (PortKey d p) = Some x) \<or> p \<in> set ps \<and> x = h" for p x
    using here [of p] there assms(3) by (metis option.distinct(1) option.inject)
  have "?m (PortKey d p) = Some x \<and> ?m (PortKey d' p) = Some x \<Longrightarrow> d = d'" for d d' p x
    using assms(1) new here [of p] there [of d p] there [of d' p] unfolding alloc_inv_def
    by (metis option.distinct(1) option.inject)
  moreover have "?m (PortKey d p) = Some x \<Longrightarrow> x \<notin> set (before p)" for d p x
    using assms(1) new unfolding alloc_inv_def by (auto simp: settle_port_apply split: if_splits)
  moreover have "set (take_port h ps t p) = set (before p) \<union> {x. \<exists>d. ?m (PortKey d p) = Some x}" for p
    using assms(1) unfolding alloc_inv_def hosts take_port_set by auto
  ultimately show ?thesis unfolding alloc_inv_def by blast
qed

lemma groups_inv:
  assumes "allocate_groups alloc groups order n t m = Inr (n', t', m')"
    and "alloc_inv before t m" and "distinct order"
    and "\<forall>c\<in>set order. \<forall>p. m (PortKey c p) = None"
  shows "alloc_inv before t' m'
    \<and> (\<forall>c\<in>set order. \<forall>ps. groups c = Some ps \<longrightarrow> (\<forall>p\<in>set ps. m' (PortKey c p) \<noteq> None))
    \<and> (\<forall>c p. c \<notin> set order \<longrightarrow> m' (PortKey c p) = m (PortKey c p))"
  using assms
proof (induction order arbitrary: n t m)
  case Nil
  then show ?case by simp
next
  case (Cons c order)
  let ?ps = "case groups c of None \<Rightarrow> [] | Some ps \<Rightarrow> ps"
  obtain h where h: "alloc n ?ps t = Inr h"
    using Cons.prems(1) by (auto simp: Let_def split: sum.splits)
  let ?m = "settle_port c h ?ps m"
  have rec: "allocate_groups alloc groups order (Suc n) (take_port h ?ps t) ?m = Inr (n', t', m')"
    using Cons.prems(1) h by (simp add: Let_def)
  have inv: "alloc_inv before (take_port h ?ps t) ?m"
    using Cons.prems h by (intro step_inv) auto
  have "\<forall>d\<in>set order. \<forall>p. ?m (PortKey d p) = None"
    using Cons.prems(3,4) by (auto simp: settle_port_apply)
  note IH = Cons.IH [OF rec inv _ this]
  have "m' (PortKey c p) = ?m (PortKey c p)" for p
    using IH Cons.prems(3) by simp
  then show ?case
    using IH Cons.prems(3) by (auto simp: settle_port_apply split: if_splits)
qed

end

lemma Allocate_fresh:
  "Allocate a draw avail n ps t = Inr h \<Longrightarrow> p \<in> set ps \<Longrightarrow> h \<notin> set (t p)"
  by (auto simp: Allocate_def Let_def find_Some_iff usable_iff claimed_ports_def split: option.splits)

interpretation al: allocation "Allocate a draw avail" for a draw avail
  by unfold_locales (rule Allocate_fresh)

section \<open>Lemmas on the claimer\<close>

lemma heldBy_Some:
  assumes "heldBy existing i k = Some c"
  shows "c \<in> set existing \<and> clm_Instance c = i \<and> claim_key c = k"
proof -
  have "fold (\<lambda>c held. if clm_Instance c \<noteq> i then held else held(claim_key c \<mapsto> c)) cs m k = Some c
      \<Longrightarrow> m k = Some c \<or> c \<in> set cs \<and> clm_Instance c = i \<and> claim_key c = k" for cs m
  proof (induction cs arbitrary: m)
    case (Cons d cs)
    show ?case
      using Cons.IH [of "if clm_Instance d \<noteq> i then m else m(claim_key d \<mapsto> d)"] Cons.prems
      by (auto split: if_splits)
  qed simp
  from this [of existing Map.empty] assms show ?thesis by (simp add: heldBy_def)
qed

lemma kept_Some:
  assumes "kept (heldBy existing i) m = Some c"
  shows "c \<in> set existing" "clm_Instance c = i" "clm_Container c = port_To m"
    "clm_Protocol c = protocolOf m" "clm_Dynamic c"
  using assms heldBy_Some [of existing i "mapping_key m"]
  by (auto simp: kept_def split: option.splits if_splits)

text \<open>The ports that have to be allocated, as the grouping of \<open>allocate\<close> finds them.\<close>

definition unsettled :: "(port_key \<rightharpoonup> Claim) \<Rightarrow> Port \<Rightarrow> bool" where
  "unsettled held m \<longleftrightarrow> port_From m = 0 \<and> kept held m = None"

lemma add_group_fold:
  assumes "fold (add_group held) ms (order0, groups0) = (order, groups)"
    and "distinct order0" and "set order0 = dom groups0"
  shows "distinct order \<and> set order = dom groups
    \<and> (\<forall>c p. (\<exists>ps. groups c = Some ps \<and> p \<in> set ps) \<longleftrightarrow>
         (\<exists>ps. groups0 c = Some ps \<and> p \<in> set ps)
         \<or> (\<exists>m\<in>set ms. unsettled held m \<and> mapping_key m = PortKey c p))"
  using assms
proof (induction ms arbitrary: order0 groups0)
  case (Cons m ms)
  obtain o1 g1 where step: "add_group held m (order0, groups0) = (o1, g1)"
    by (cases "add_group held m (order0, groups0)")
  then have rec: "fold (add_group held) ms (o1, g1) = (order, groups)" using Cons.prems(1) by simp
  have o1: "distinct o1 \<and> set o1 = dom g1"
    using step Cons.prems(2,3) by (auto simp: add_group_def split: if_splits)
  have g1: "(\<exists>ps. g1 c = Some ps \<and> p \<in> set ps) \<longleftrightarrow>
      (\<exists>ps. groups0 c = Some ps \<and> p \<in> set ps) \<or> unsettled held m \<and> mapping_key m = PortKey c p" for c p
    using step by (auto simp: add_group_def unsettled_def split: if_splits option.splits)
  show ?case
    using Cons.IH [OF rec] o1 unfolding g1 by auto
qed auto

lemma claimer_allocate_inv:
  assumes "allocation (cl_Allocate c)"
    and "claimer_allocate c held n t ms = Inr (n', t', allocs)"
  shows "alloc_inv t t' allocs"
    and "m \<in> set ms \<Longrightarrow> unsettled held m \<Longrightarrow> allocs (mapping_key m) \<noteq> None"
proof -
  obtain order groups where g: "fold (add_group held) ms ([], Map.empty) = (order, groups)"
    by (cases "fold (add_group held) ms ([], Map.empty)")
  then have a: "allocate_groups (cl_Allocate c) groups order n t Map.empty = Inr (n', t', allocs)"
    using assms(2) by (simp add: claimer_allocate_def)
  have ord: "distinct order" "set order = dom groups"
    and mem: "(\<exists>ps. groups d = Some ps \<and> p \<in> set ps) \<longleftrightarrow>
      (\<exists>m\<in>set ms. unsettled held m \<and> mapping_key m = PortKey d p)" for d p
    using add_group_fold [OF g] by auto
  have "alloc_inv t t Map.empty" by (simp add: alloc_inv_def)
  note G = allocation.groups_inv [OF assms(1) a this ord(1)]
  then show "alloc_inv t t' allocs" by simp
  assume "m \<in> set ms" "unsettled held m"
  then obtain ps where "groups (port_To m) = Some ps" "protocolOf m \<in> set ps"
    using mem [of "port_To m" "protocolOf m"] by blast
  then show "allocs (mapping_key m) \<noteq> None" using G ord(2) by (auto simp: domI)
qed

text \<open>
  Where one mapping ends up: the port it pins, the one its instance already holds, or the one that was
  allocated for it.
\<close>

definition host_of :: "(port_key \<rightharpoonup> Claim) \<Rightarrow> (port_key \<rightharpoonup> int) \<Rightarrow> Port \<Rightarrow> int" where
  "host_of held allocs m =
     (if port_From m \<noteq> 0 then port_From m
      else case kept held m of
             Some c \<Rightarrow> clm_Host c
           | None \<Rightarrow> (case allocs (mapping_key m) of None \<Rightarrow> 0 | Some h \<Rightarrow> h))"

definition claim_for ::
  "(port_key \<rightharpoonup> Claim) \<Rightarrow> (port_key \<rightharpoonup> int) \<Rightarrow> int \<Rightarrow> Port \<Rightarrow> Claim" where
  "claim_for held allocs i m =
     \<lparr>clm_Instance = i, clm_Name = port_Name m, clm_Container = port_To m,
      clm_Host = host_of held allocs m, clm_Protocol = protocolOf m,
      clm_Dynamic = (port_From m = 0)\<rparr>"

lemma claim_for_simps [simp]:
  "clm_Instance (claim_for held allocs i m) = i" "clm_Name (claim_for held allocs i m) = port_Name m"
  "clm_Container (claim_for held allocs i m) = port_To m"
  "clm_Host (claim_for held allocs i m) = host_of held allocs m"
  "clm_Protocol (claim_for held allocs i m) = protocolOf m"
  "clm_Dynamic (claim_for held allocs i m) = (port_From m = 0)"
  by (simp_all add: claim_for_def)

definition pin_ok :: "Claimer \<Rightarrow> string \<Rightarrow> Port \<Rightarrow> bool" where
  "pin_ok c w m \<longleftrightarrow> port_From m = 0 \<or>
     cl_HolderOf c (port_From m) (protocolOf m) = Inr (Some w)
     \<or> cl_HolderOf c (port_From m) (protocolOf m) = Inr None
       \<and> (case cl_probe c of None \<Rightarrow> True | Some f \<Rightarrow> f (protocolOf m) (port_From m))"

lemma claimer_resolve_iff:
  "(\<exists>d. claimer_resolve c w (heldBy existing i) allocs m = Inr d
      \<and> claim = d\<lparr>clm_Instance := i\<rparr>)
    \<longleftrightarrow> pin_ok c w m \<and> claim = claim_for (heldBy existing i) allocs i m"
  using kept_Some [of existing i m]
  by (auto simp: claimer_resolve_def claim_for_def host_of_def pin_ok_def Let_def
      split: option.splits sum.splits)

lemma resolve_mappings_iff:
  "resolve_mappings c w (heldBy existing i) allocs i ms = Inr claims
    \<longleftrightarrow> (\<forall>m\<in>set ms. pin_ok c w m) \<and> claims = map (claim_for (heldBy existing i) allocs i) ms"
proof (induction ms arbitrary: claims)
  case (Cons m ms)
  have "resolve_mappings c w (heldBy existing i) allocs i (m # ms) = Inr claims \<longleftrightarrow>
      (\<exists>claim rest. claims = claim # rest
        \<and> resolve_mappings c w (heldBy existing i) allocs i ms = Inr rest
        \<and> (\<exists>d. claimer_resolve c w (heldBy existing i) allocs m = Inr d
             \<and> claim = d\<lparr>clm_Instance := i\<rparr>))"
    by (auto split: sum.splits)
  then show ?case unfolding claimer_resolve_iff Cons.IH by auto
qed auto

text \<open>What the stored ports and a valid specification guarantee of the claimer's input.\<close>

definition host_port :: "Claim \<Rightarrow> int \<times> Protocol" where
  "host_port c = (clm_Host c, clm_Protocol c)"

definition pin_of :: "Port \<Rightarrow> int \<times> Protocol" where
  "pin_of m = (port_From m, protocolOf m)"

definition pins :: "Port list \<Rightarrow> (int \<times> Protocol) set" where
  "pins ms = pin_of ` {m \<in> set ms. port_From m \<noteq> 0}"

definition valid_mappings :: "Port list \<Rightarrow> bool" where
  "valid_mappings ms \<longleftrightarrow> distinct (map mapping_key ms)
     \<and> distinct (map pin_of (filter (\<lambda>m. port_From m \<noteq> 0) ms))"

definition valid_held :: "taken \<Rightarrow> Claim list \<Rightarrow> bool" where
  "valid_held t existing \<longleftrightarrow> (\<forall>c\<in>set existing. clm_Host c \<in> set (t (clm_Protocol c)))
     \<and> (\<forall>c\<in>set existing. \<forall>d\<in>set existing. host_port c = host_port d \<longrightarrow> c = d)"

text \<open>No mapping pins a port the workload itself keeps for another of its mappings.\<close>

definition no_self_pin :: "Claim list \<Rightarrow> Port list \<Rightarrow> int \<Rightarrow> bool" where
  "no_self_pin existing ms i \<longleftrightarrow>
     (\<forall>m\<in>set ms. \<forall>c. port_From m = 0 \<longrightarrow> kept (heldBy existing i) m = Some c
        \<longrightarrow> host_port c \<notin> pins ms)"

lemma pins_taken: "set (fold pin_port ms t p) = set (t p) \<union> {h. (h, p) \<in> pins ms}"
proof (induction ms arbitrary: t)
  case (Cons m ms)
  then show ?case by (auto simp: pin_port_def pins_def pin_of_def)
qed (simp add: pins_def)

text \<open>The three sources of a settled port, which are disjoint.\<close>

definition sourced :: "Claim list \<Rightarrow> Port list \<Rightarrow> taken \<Rightarrow> int set \<Rightarrow> int \<times> Protocol \<Rightarrow> bool" where
  "sourced existing ms t is hp \<longleftrightarrow>
     hp \<in> pins ms
     \<or> (\<exists>c\<in>set existing. clm_Instance c \<in> is \<and> hp = host_port c \<and> hp \<notin> pins ms)
     \<or> fst hp \<notin> set (t (snd hp))"

lemma instance_distinct:
  assumes "valid_mappings ms" "valid_held t existing" "no_self_pin existing ms i"
    and pinned: "\<forall>h p. (h, p) \<in> pins ms \<longrightarrow> h \<in> set (t p)"
    and inv: "alloc_inv t t' allocs"
    and all: "\<forall>m\<in>set ms. unsettled (heldBy existing i) m \<longrightarrow> allocs (mapping_key m) \<noteq> None"
  shows "distinct (map (\<lambda>m. host_port (claim_for (heldBy existing i) allocs i m)) ms)"
    and "m \<in> set ms \<Longrightarrow> sourced existing ms t {i} (host_port (claim_for (heldBy existing i) allocs i m))"
    and "m \<in> set ms \<Longrightarrow> host_of (heldBy existing i) allocs m \<in> set (t' (protocolOf m))"
proof -
  let ?held = "heldBy existing i"
  let ?hp = "\<lambda>m. host_port (claim_for ?held allocs i m)"
  have hp: "?hp m = (host_of ?held allocs m, protocolOf m)" for m
    by (simp add: host_port_def claim_for_def)
  have kind: "port_From m \<noteq> 0 \<and> ?hp m = pin_of m \<and> ?hp m \<in> pins ms
      \<or> port_From m = 0 \<and> (\<exists>c. kept ?held m = Some c \<and> ?hp m = host_port c \<and> ?hp m \<notin> pins ms)
      \<or> port_From m = 0 \<and> kept ?held m = None
        \<and> allocs (mapping_key m) = Some (host_of ?held allocs m)"
    if m: "m \<in> set ms" for m
  proof (cases "port_From m \<noteq> 0")
    case True
    then show ?thesis using m by (auto simp: hp host_of_def pin_of_def pins_def)
  next
    case False
    show ?thesis
    proof (cases "kept ?held m")
      case None
      with False m all show ?thesis by (auto simp: unsettled_def host_of_def)
    next
      case (Some c)
      then have "?hp m = host_port c"
        using False Some kept_Some [OF Some] by (simp add: claim_for_def host_of_def host_port_def)
      with Some False m assms(3) show ?thesis by (auto simp: no_self_pin_def)
    qed
  qed
  have held_in: "fst (host_port c) \<in> set (t (snd (host_port c)))" if "c \<in> set existing" for c
    using assms(2) that by (simp add: valid_held_def host_port_def)
  have old: "fst (?hp m) \<in> set (t (snd (?hp m)))"
    if "m \<in> set ms" "port_From m \<noteq> 0 \<or> kept ?held m \<noteq> None" for m
    using kind [OF that(1)] that(2) pinned held_in kept_Some(1) [of existing i m]
    by (metis option.distinct(1) prod.collapse)
  have new: "fst (?hp m) \<notin> set (t (snd (?hp m)))"
    if "m \<in> set ms" "port_From m = 0" "kept ?held m = None" for m
    using kind [OF that(1)] that(2,3) inv by (auto simp: hp alloc_inv_def)
  show "sourced existing ms t {i} (?hp m)" if "m \<in> set ms"
    using kind [OF that] new [OF that] kept_Some [of existing i m] unfolding sourced_def by blast
  show "host_of ?held allocs m \<in> set (t' (protocolOf m))" if "m \<in> set ms"
  proof (cases "port_From m \<noteq> 0 \<or> kept ?held m \<noteq> None")
    case True
    with old [OF that] inv show ?thesis by (simp add: hp alloc_inv_def)
  next
    case False
    with kind [OF that] have "allocs (mapping_key m) = Some (host_of ?held allocs m)" by blast
    with inv show ?thesis by (auto simp: alloc_inv_def)
  qed
  have "m = m'" if m: "m \<in> set ms" "m' \<in> set ms" "?hp m = ?hp m'" for m m'
  proof -
    have inj: "m = m'" if "mapping_key m = mapping_key m'"
      using assms(1) m(1,2) that by (auto simp: valid_mappings_def distinct_map inj_on_def)
    have pin: "m = m'" if "port_From m \<noteq> 0" "port_From m' \<noteq> 0"
      using kind [OF m(1)] kind [OF m(2)] that m assms(1)
      by (auto simp: valid_mappings_def distinct_map inj_on_def)
    have keep: "m = m'" if k: "kept ?held m \<noteq> None" "kept ?held m' \<noteq> None" "port_From m = 0" "port_From m' = 0"
    proof -
      obtain c c' where c: "kept ?held m = Some c" "kept ?held m' = Some c'"
        using k(1,2) by auto
      then have "host_port c = host_port c'" using kind [OF m(1)] kind [OF m(2)] k m(3) by auto
      then have "c = c'" using assms(2) kept_Some(1) c unfolding valid_held_def by blast
      then show ?thesis using kept_Some(3,4) c inj by metis
    qed
    have alloc: "m = m'"
      if "port_From m = 0" "kept ?held m = None" "port_From m' = 0" "kept ?held m' = None"
    proof -
      have a: "allocs (mapping_key m) = Some (host_of ?held allocs m)"
        "allocs (mapping_key m') = Some (host_of ?held allocs m')"
        using kind [OF m(1)] kind [OF m(2)] that by auto
      have e: "host_of ?held allocs m = host_of ?held allocs m'" "protocolOf m = protocolOf m'"
        using m(3) by (simp_all add: hp)
      have "port_To m = port_To m'" using a inv unfolding e alloc_inv_def by blast
      with e inj show ?thesis by simp
    qed
    have same: "(port_From m \<noteq> 0 \<or> kept ?held m \<noteq> None) = (port_From m' \<noteq> 0 \<or> kept ?held m' \<noteq> None)"
      using old [OF m(1)] old [OF m(2)] new [OF m(1)] new [OF m(2)] m(3) by auto
    have "(port_From m \<noteq> 0) = (port_From m' \<noteq> 0)" if "port_From m \<noteq> 0 \<or> kept ?held m \<noteq> None"
      using that same kind [OF m(1)] kind [OF m(2)] m(3) by auto
    with same pin keep alloc show ?thesis by blast
  qed
  then show "distinct (map ?hp ms)"
    using assms(1) by (auto simp: valid_mappings_def distinct_map inj_on_def)
qed

text \<open>Over all instances, each of which allocates around what the earlier ones settled.\<close>

lemma sourced_mono:
  assumes "sourced existing ms t' is hp" "is \<subseteq> js" "\<forall>p. set (t p) \<subseteq> set (t' p)"
  shows "sourced existing ms t js hp"
  using assms unfolding sourced_def by blast

lemma resolve_instances_ConsE:
  assumes "resolve_instances c w existing ms n t (i # is) = Inr claims"
  obtains n' t' allocs rest where
    "claimer_allocate c (heldBy existing i) n t ms = Inr (n', t', allocs)"
    "\<forall>m\<in>set ms. pin_ok c w m"
    "resolve_instances c w existing ms n' t' is = Inr rest"
    "claims = map (claim_for (heldBy existing i) allocs i) ms @ rest"
  using assms that by (auto simp: Let_def resolve_mappings_iff split: sum.splits)

lemma instances_distinct:
  assumes alloc: "allocation (cl_Allocate c)" and maps: "valid_mappings ms"
    and "resolve_instances c w existing ms n t is = Inr claims"
    and "valid_held t existing" "\<forall>i\<in>set is. no_self_pin existing ms i"
    and "\<forall>h p. (h, p) \<in> pins ms \<longrightarrow> h \<in> set (t p)"
    and "distinct is" and "pins ms \<noteq> {} \<Longrightarrow> length is \<le> 1"
  shows "distinct (map host_port claims)
    \<and> (\<forall>d\<in>set claims. sourced existing ms t (set is) (host_port d))
    \<and> map (\<lambda>d. (clm_Instance d, claim_key d)) claims = concat (map (\<lambda>i. map (\<lambda>m. (i, mapping_key m)) ms) is)
    \<and> (is \<noteq> [] \<longrightarrow> (\<forall>m\<in>set ms. pin_ok c w m))"
  using assms(3-)
proof (induction "is" arbitrary: n t claims)
  case Nil
  then show ?case by simp
next
  case (Cons i "is")
  let ?held = "heldBy existing i"
  obtain n' t' allocs rest where
    a: "claimer_allocate c ?held n t ms = Inr (n', t', allocs)"
    and ok: "\<forall>m\<in>set ms. pin_ok c w m"
    and rest: "resolve_instances c w existing ms n' t' is = Inr rest"
    and claims: "claims = map (claim_for ?held allocs i) ms @ rest"
    using Cons.prems(1) by (rule resolve_instances_ConsE)
  note inv = claimer_allocate_inv [OF alloc a]
  have sub: "set (t p) \<subseteq> set (t' p)" for p using inv(1) by (auto simp: alloc_inv_def)
  have held: "valid_held t' existing" using Cons.prems(2) sub unfolding valid_held_def by blast
  have pin': "\<forall>h p. (h, p) \<in> pins ms \<longrightarrow> h \<in> set (t' p)" using Cons.prems(4) sub by blast
  have "no_self_pin existing ms i" using Cons.prems(3) by simp
  note one = instance_distinct [OF maps Cons.prems(2) this Cons.prems(4) inv(1)]
  have all: "\<forall>m\<in>set ms. unsettled ?held m \<longrightarrow> allocs (mapping_key m) \<noteq> None" using inv(2) by blast
  have IH: "distinct (map host_port rest)"
    "\<forall>d\<in>set rest. sourced existing ms t' (set is) (host_port d)"
    "map (\<lambda>d. (clm_Instance d, claim_key d)) rest = concat (map (\<lambda>i. map (\<lambda>m. (i, mapping_key m)) ms) is)"
    using Cons.IH [OF rest held _ pin'] Cons.prems(3,5,6) by auto
  have apart: "False" if m: "m \<in> set ms" and d: "d \<in> set rest"
    and eq: "host_port (claim_for ?held allocs i m) = host_port d" for m d
  proof -
    let ?hp = "host_port d"
    have "is \<noteq> []" using d rest by auto
    then have nopin: "pins ms = {}" using Cons.prems(6) by (cases "is") auto
    have in': "fst ?hp \<in> set (t' (snd ?hp))"
      using one(3) [OF all m] eq by (auto simp: host_port_def claim_for_def)
    have "sourced existing ms t' (set is) ?hp" using IH(2) d by simp
    with in' nopin obtain c where c: "c \<in> set existing" "clm_Instance c \<in> set is" "?hp = host_port c"
      by (auto simp: sourced_def)
    have "fst ?hp \<in> set (t (snd ?hp))"
      using c Cons.prems(2) by (simp add: valid_held_def host_port_def)
    then obtain c' where "c' \<in> set existing" "clm_Instance c' = i" "?hp = host_port c'"
      using one(2) [OF all m] eq nopin by (auto simp: sourced_def)
    then have "c = c'" using c Cons.prems(2) by (simp add: valid_held_def)
    with c \<open>clm_Instance c' = i\<close> Cons.prems(5) show False by auto
  qed
  have "(\<lambda>m. host_port (claim_for ?held allocs i m)) ` set ms \<inter> host_port ` set rest = {}"
  proof (intro equalityI subsetI)
    fix x assume "x \<in> (\<lambda>m. host_port (claim_for ?held allocs i m)) ` set ms \<inter> host_port ` set rest"
    then obtain m d where "m \<in> set ms" "d \<in> set rest"
      "x = host_port (claim_for ?held allocs i m)" "x = host_port d" by blast
    then show "x \<in> {}" using apart [of m d] by simp
  qed simp
  then have "distinct (map host_port claims)"
    using one(1) [OF all] IH(1) by (simp add: claims o_def image_image)
  moreover have "\<forall>d\<in>set claims. sourced existing ms t (set (i # is)) (host_port d)"
  proof -
    have "sourced existing ms t (set (i # is)) (host_port (claim_for ?held allocs i m))"
      if "m \<in> set ms" for m by (rule sourced_mono [OF one(2) [OF all that]]) auto
    moreover have "sourced existing ms t (set (i # is)) (host_port d)" if "d \<in> set rest" for d
      by (rule sourced_mono [OF IH(2) [rule_format, OF that]]) (use sub in auto)
    ultimately show ?thesis by (auto simp: claims)
  qed
  ultimately show ?case using IH(3) ok by (simp add: claims claim_for_def o_def)
qed

text \<open>Each instance's claims are settled mapping by mapping, in the order of the specification.\<close>

definition claims_of :: "Claim list \<Rightarrow> Port list \<Rightarrow> int list \<Rightarrow> (port_key \<rightharpoonup> int) list \<Rightarrow> Claim list" where
  "claims_of existing ms is allocss =
     concat (map2 (\<lambda>i allocs. map (claim_for (heldBy existing i) allocs i) ms) is allocss)"

lemma resolve_instances_claims:
  assumes "resolve_instances c w existing ms n t is = Inr claims"
  shows "\<exists>allocss. length allocss = length is \<and> claims = claims_of existing ms is allocss"
  using assms
proof (induction "is" arbitrary: n t claims)
  case (Cons i "is")
  obtain n' t' allocs rest where
    rest: "resolve_instances c w existing ms n' t' is = Inr rest"
    and claims: "claims = map (claim_for (heldBy existing i) allocs i) ms @ rest"
    using Cons.prems by (rule resolve_instances_ConsE)
  obtain allocss where "length allocss = length is" "rest = claims_of existing ms is allocss"
    using Cons.IH [OF rest] by blast
  then show ?case
    using claims by (intro exI [of _ "allocs # allocss"]) (simp add: claims_of_def)
qed (simp add: claims_of_def)

section \<open>Lemmas on the table\<close>

definition row_key :: "database_Port \<Rightarrow> string \<times> int \<times> port_key" where
  "row_key p = (prt_WorkloadID p, prt_Instance p, PortKey (prt_Container p) (prt_Protocol p))"

definition row_host :: "database_Port \<Rightarrow> int \<times> Protocol" where
  "row_host p = (prt_Host p, prt_Protocol p)"

definition table_ok :: "port_table \<Rightarrow> bool" where
  "table_ok t \<longleftrightarrow> distinct (map row_host t) \<and> distinct (map row_key t)"

lemma insert_port_iff:
  "insert_port p t = Inr t' \<longleftrightarrow> t' = t @ [p] \<and> row_host p \<notin> row_host ` set t \<and> row_key p \<notin> row_key ` set t"
  by (auto simp: insert_port_def list_ex_iff same_row_key_def same_host_port_def row_key_def row_host_def)

lemma insert_ports_ok:
  assumes "insert_ports wid ps t = Inr t'" "table_ok t"
  shows "table_ok t' \<and> t' = t @ map (\<lambda>p. p\<lparr>prt_WorkloadID := wid\<rparr>) ps"
  using assms
proof (induction ps arbitrary: t)
  case (Cons p ps)
  then obtain t1 where t1: "insert_port (p\<lparr>prt_WorkloadID := wid\<rparr>) t = Inr t1"
    "insert_ports wid ps t1 = Inr t'" by (auto split: sum.splits)
  have "table_ok t1" using Cons.prems(2) t1(1) by (simp add: insert_port_iff table_ok_def)
  with Cons.IH [OF t1(2)] t1(1) show ?case by (metis append.assoc append_Cons append_Nil insert_port_iff list.simps(9))
qed simp

lemma insert_ports_succeeds:
  assumes "distinct (map row_host ps)" "row_host ` set ps \<inter> row_host ` set t = {}"
    and "distinct (map (\<lambda>p. row_key (p\<lparr>prt_WorkloadID := wid\<rparr>)) ps)"
    and "\<forall>q\<in>set t. prt_WorkloadID q = wid \<longrightarrow> (\<forall>p\<in>set ps. row_key (p\<lparr>prt_WorkloadID := wid\<rparr>) \<noteq> row_key q)"
  shows "\<exists>t'. insert_ports wid ps t = Inr t'"
  using assms
proof (induction ps arbitrary: t)
  case (Cons p ps)
  let ?p = "p\<lparr>prt_WorkloadID := wid\<rparr>"
  have host: "row_host ?p = row_host p" by (simp add: row_host_def)
  have "row_key ?p \<notin> row_key ` set t" using Cons.prems(4) by (auto simp: row_key_def)
  then have step: "insert_port ?p t = Inr (t @ [?p])"
    using Cons.prems(2) host by (auto simp: insert_port_iff)
  have "\<exists>t'. insert_ports wid ps (t @ [?p]) = Inr t'"
  proof (rule Cons.IH)
    show "row_host ` set ps \<inter> row_host ` set (t @ [?p]) = {}"
      using Cons.prems(1,2) host by (simp add: Int_insert_right)
    show "\<forall>q\<in>set (t @ [?p]). prt_WorkloadID q = wid \<longrightarrow>
        (\<forall>p\<in>set ps. row_key (p\<lparr>prt_WorkloadID := wid\<rparr>) \<noteq> row_key q)"
      using Cons.prems(3,4) by (auto simp: image_iff)
  qed (use Cons.prems in simp_all)
  then show ?case using step by simp
qed simp

lemma row_claim_simps [simp]:
  "clm_Instance (row_claim p) = prt_Instance p" "clm_Host (row_claim p) = prt_Host p"
  "clm_Protocol (row_claim p) = prt_Protocol p" "clm_Dynamic (row_claim p) = prt_Dynamic p"
  "host_port (row_claim p) = row_host p"
  by (simp_all add: row_claim_def host_port_def row_host_def)

lemma claim_row_simps [simp]:
  "row_host (claim_row v c) = host_port c" "row_claim (claim_row v c) = c"
  "(claim_row v c)\<lparr>prt_WorkloadID := wid\<rparr> = claim_row wid c"
  "row_key (claim_row wid c) = (wid, clm_Instance c, claim_key c)"
  "prt_WorkloadID (claim_row wid c) = wid"
  by (simp_all add: claim_row_def row_claim_def host_port_def row_host_def row_key_def)

lemma table_List_set: "set (table_List t wid) = {p \<in> set t. prt_WorkloadID p = wid}"
  by (auto simp: table_List_def)

section \<open>Settling and storing together\<close>

definition table_claimer ::
  "allocation_fn \<Rightarrow> (Protocol \<Rightarrow> int \<Rightarrow> bool) option \<Rightarrow> (string \<rightharpoonup> string) \<Rightarrow> port_table \<Rightarrow> Claimer" where
  "table_claimer alloc probe names t = \<lparr>cl_Allocate = alloc, cl_HolderOf = table_HolderOf names t,
     cl_Allocated = table_Allocated t, cl_probe = probe\<rparr>"

text \<open>
  The foreign key of the table and the uniqueness of workload names: every row belongs to a named
  workload, and only the workload itself has its name.
\<close>

definition named_by :: "(string \<rightharpoonup> string) \<Rightarrow> port_table \<Rightarrow> string \<Rightarrow> string \<Rightarrow> bool" where
  "named_by names t wid w \<longleftrightarrow> names wid = Some w \<and> (\<forall>v. names v = Some w \<longrightarrow> v = wid)
     \<and> (\<forall>p\<in>set t. names (prt_WorkloadID p) \<noteq> None)"

lemma table_ok_hosts: "table_ok t \<Longrightarrow> p \<in> set t \<Longrightarrow> q \<in> set t \<Longrightarrow> row_host p = row_host q \<Longrightarrow> p = q"
  by (simp add: table_ok_def distinct_map inj_on_def)

lemma valid_held_table:
  assumes "table_ok t" "\<forall>r\<in>set t. prt_Host r \<in> set (T (prt_Protocol r))"
  shows "valid_held T (heldClaims (table_List t wid))"
proof -
  have row: "\<exists>r\<in>set t. c = row_claim r" if "c \<in> set (heldClaims (table_List t wid))" for c
    using that by (auto simp: heldClaims_def table_List_set)
  have "c = d" if "c \<in> set (heldClaims (table_List t wid))" "d \<in> set (heldClaims (table_List t wid))"
    "host_port c = host_port d" for c d
    using row [OF that(1)] row [OF that(2)] that(3) table_ok_hosts [OF assms(1)]
    by (metis row_claim_simps(5))
  moreover have "clm_Host c \<in> set (T (clm_Protocol c))"
    if "c \<in> set (heldClaims (table_List t wid))" for c
    using row [OF that] assms(2) by auto
  ultimately show ?thesis unfolding valid_held_def by blast
qed

lemma distinct_pairs:
  "distinct is \<Longrightarrow> distinct (map f ms) \<Longrightarrow> distinct (concat (map (\<lambda>i. map (\<lambda>m. (i, f m)) ms) is))"
  by (induction "is") (auto simp: distinct_map inj_on_def)

lemma HolderOf_other:
  assumes "table_ok t" "named_by names t wid w" "q \<in> set t" "row_host q = (h, p)"
    and "table_HolderOf names t h p = Inr None \<or> table_HolderOf names t h p = Inr (Some w)"
  shows "prt_WorkloadID q = wid"
proof -
  let ?P = "\<lambda>r. prt_Host r = h \<and> prt_Protocol r = p \<and> names (prt_WorkloadID r) \<noteq> None"
  have q: "?P q" using assms(2-4) by (simp add: named_by_def row_host_def)
  have "find ?P t \<noteq> None" using q assms(3) by (auto simp: find_None_iff)
  then obtain r where r: "find ?P t = Some r" by blast
  then have "r \<in> set t" "?P r" by (auto simp: find_Some_iff)
  then have "r = q" using table_ok_hosts [OF assms(1) _ assms(3)] q by (simp add: row_host_def)
  with r q have "names (prt_WorkloadID q) = Some w"
    using assms(5) by (auto simp: table_HolderOf_def)
  with assms(2) show ?thesis by (simp add: named_by_def)
qed

text \<open>
  What \<open>Resolve\<close> settles, the table accepts. For valid mappings and a table that satisfies its
  constraints, the claims of every successful resolution are stored without a collision, whatever the
  random draws were, and the workload's rows are then exactly its claims; provided that no mapping pins a
  port the same workload keeps for another mapping.
\<close>

lemma Resolve_Claim_fits:
  assumes "table_ok t" "named_by names t wid w" "valid_mappings ms"
    and "\<forall>i. 0 \<le> i \<and> i < count \<longrightarrow> no_self_pin (heldClaims (table_List t wid)) ms i"
    and "claimer_Resolve (table_claimer (Allocate a draw avail) probe names t) w
           (heldClaims (table_List t wid)) ms count = Inr claims"
  shows "\<exists>t'. table_Claim wid (allocations_rows claims []) t = (None, t') \<and> table_ok t'
    \<and> t' = table_Release wid t @ allocations_rows claims wid"
proof -
  let ?c = "table_claimer (Allocate a draw avail) probe names t"
  let ?existing = "heldClaims (table_List t wid)"
  let ?T0 = "\<lambda>p. sort (map prt_Host (filter (\<lambda>r. prt_Protocol r = p) t))"
  let ?T = "fold pin_port ms ?T0"
  have T: "\<forall>r\<in>set t. prt_Host r \<in> set (?T (prt_Protocol r))" by (simp add: pins_taken)
  have run: "resolve_instances ?c w ?existing ms 0 ?T [0..count - 1] = Inr claims"
    and few: "Pinned ms \<Longrightarrow> count \<le> 1"
    using assms(5) by (auto simp: claimer_Resolve_def table_claimer_def table_Allocated_def split: if_splits)
  have "Pinned ms" if "pins ms \<noteq> {}" using that
    by (induction ms) (auto simp: pins_def split: if_splits)
  then have one: "pins ms \<noteq> {} \<Longrightarrow> length [0..count - 1] \<le> 1" using few by simp
  have alloc: "allocation (cl_Allocate ?c)" by (simp add: table_claimer_def al.allocation_axioms)
  have self: "\<forall>i\<in>set [0..count - 1]. no_self_pin ?existing ms i" using assms(4) by simp
  have pinT: "\<forall>h p. (h, p) \<in> pins ms \<longrightarrow> h \<in> set (?T p)" by (simp add: pins_taken)
  note D = instances_distinct [OF alloc assms(3) run valid_held_table [OF assms(1) T] self pinT
      distinct_upto one]
  have apart: "host_port d \<noteq> row_host q" if d: "d \<in> set claims" and q: "q \<in> set (table_Release wid t)" for d q
  proof
    assume eq: "host_port d = row_host q"
    have q': "q \<in> set t" "prt_WorkloadID q \<noteq> wid" using q by (auto simp: table_Release_def)
    have nonempty: "[0..count - 1] \<noteq> []" using d run by auto
    have "sourced ?existing ms ?T (set [0..count - 1]) (host_port d)" using D d by blast
    then consider (pin) m where "m \<in> set ms" "port_From m \<noteq> 0" "row_host q = pin_of m"
      | (held) c where "c \<in> set ?existing" "host_port d = host_port c"
      | (new) "fst (row_host q) \<notin> set (?T (snd (row_host q)))"
      unfolding sourced_def eq pins_def by blast
    then show False
    proof cases
      case pin
      then have "pin_ok ?c w m" using D nonempty by blast
      then show False
        using HolderOf_other [OF assms(1,2) q'(1)] pin(2,3) q'(2)
        by (auto simp: pin_ok_def table_claimer_def pin_of_def)
    next
      case held
      then obtain r where "r \<in> set t" "prt_WorkloadID r = wid" "row_host r = row_host q"
        using eq by (auto simp: heldClaims_def table_List_set)
      then show False using table_ok_hosts [OF assms(1)] q' by blast
    next
      case new
      then show False using T q'(1) by (simp add: row_host_def)
    qed
  qed
  have keys: "distinct (map (\<lambda>d. (clm_Instance d, claim_key d)) claims)"
    using D assms(3)
      distinct_pairs [OF distinct_upto, where f = "\<lambda>m. PortKey (port_To m) (protocolOf m)" and ms = ms]
    by (simp add: valid_mappings_def)
  have "\<exists>t'. insert_ports wid (allocations_rows claims []) (table_Release wid t) = Inr t'"
  proof (rule insert_ports_succeeds)
    show "distinct (map row_host (allocations_rows claims []))"
      using D by (simp add: allocations_rows_def o_def)
    show "row_host ` set (allocations_rows claims []) \<inter> row_host ` set (table_Release wid t) = {}"
      using apart by (auto simp: allocations_rows_def) metis
    show "distinct (map (\<lambda>p. row_key (p\<lparr>prt_WorkloadID := wid\<rparr>)) (allocations_rows claims []))"
      using keys by (simp add: allocations_rows_def o_def distinct_map inj_on_def)
  qed (simp add: table_Release_def)
  then obtain t' where t': "insert_ports wid (allocations_rows claims []) (table_Release wid t) = Inr t'" ..
  have "table_ok (table_Release wid t)"
    using assms(1) by (auto simp: table_ok_def table_Release_def distinct_map_filter)
  from insert_ports_ok [OF t' this] t' show ?thesis
    by (auto simp: table_Claim_def allocations_rows_def)
qed

lemma resolve_instances_block:
  assumes "allocation (cl_Allocate c)" "resolve_instances c w existing ms n t is = Inr claims"
    and "i \<in> set is" "m \<in> set ms"
  shows "\<exists>allocs t1 t2. (\<forall>p. set (t p) \<subseteq> set (t1 p)) \<and> alloc_inv t1 t2 allocs
    \<and> (unsettled (heldBy existing i) m \<longrightarrow> allocs (mapping_key m) \<noteq> None)
    \<and> claim_for (heldBy existing i) allocs i m \<in> set claims"
  using assms(2,3)
proof (induction "is" arbitrary: n t claims)
  case (Cons j "is")
  obtain n' t' allocs rest where
    a: "claimer_allocate c (heldBy existing j) n t ms = Inr (n', t', allocs)"
    and rest: "resolve_instances c w existing ms n' t' is = Inr rest"
    and claims: "claims = map (claim_for (heldBy existing j) allocs j) ms @ rest"
    using Cons.prems(1) by (rule resolve_instances_ConsE)
  note inv = claimer_allocate_inv [OF assms(1) a]
  show ?case
  proof (cases "i = j")
    case True
    then show ?thesis
      using inv assms(4) claims by (intro exI [of _ allocs] exI [of _ t] exI [of _ t']) auto
  next
    case False
    then obtain allocs2 t1 t2 where "\<forall>p. set (t' p) \<subseteq> set (t1 p)" "alloc_inv t1 t2 allocs2"
      "unsettled (heldBy existing i) m \<longrightarrow> allocs2 (mapping_key m) \<noteq> None"
      "claim_for (heldBy existing i) allocs2 i m \<in> set rest"
      using Cons.IH [OF rest] Cons.prems(2) by auto
    moreover have "\<forall>p. set (t p) \<subseteq> set (t' p)" using inv(1) by (auto simp: alloc_inv_def)
    ultimately show ?thesis using claims by (metis UnI2 set_append subset_trans)
  qed
qed simp

lemma resolve_instances_pin_ok:
  assumes "resolve_instances c w existing ms n t is = Inr claims"
  shows "is \<noteq> [] \<longrightarrow> (\<forall>m\<in>set ms. pin_ok c w m)"
proof (cases "is")
  case (Cons i js)
  then have "resolve_instances c w existing ms n t (i # js) = Inr claims" using assms by simp
  then show ?thesis by (rule resolve_instances_ConsE) simp
qed simp

lemma Pinned_iff: "Pinned ms \<longleftrightarrow> (\<exists>m\<in>set ms. port_From m \<noteq> 0)"
  by (induction ms) auto

lemma preview_instances_claims:
  assumes "length allocss = length is" "is \<noteq> [] \<longrightarrow> (\<forall>m\<in>set ms. pin_ok c w m)"
  shows "preview_instances c w existing ms is
    = Inr (claims_of existing ms is (map (\<lambda>_. Map.empty) allocss))"
  using assms
proof (induction allocss "is" rule: list_induct2)
  case (Cons a as i "is")
  have "resolve_mappings c w (heldBy existing i) Map.empty i ms
      = Inr (map (claim_for (heldBy existing i) Map.empty i) ms)"
    using Cons.prems by (simp add: resolve_mappings_iff)
  with Cons show ?case by (simp add: claims_of_def)
qed (simp add: claims_of_def)

lemma claim_for_preview:
  "claim_for held Map.empty i m = claim_for held allocs i m
    \<or> claim_for held Map.empty i m = (claim_for held allocs i m)\<lparr>clm_Host := 0\<rparr>"
  by (simp add: claim_for_def host_of_def split: option.splits)

lemma claims_of_preview:
  assumes "length allocss = length is"
  shows "list_all2 (\<lambda>p d. p = d \<or> p = d\<lparr>clm_Host := 0\<rparr>)
    (claims_of existing ms is (map (\<lambda>_. Map.empty) allocss)) (claims_of existing ms is allocss)"
  using assms
proof (induction allocss "is" rule: list_induct2)
  case (Cons a as i "is")
  have "list_all2 (\<lambda>p d. p = d \<or> p = d\<lparr>clm_Host := 0\<rparr>)
      (map (claim_for (heldBy existing i) Map.empty i) ms) (map (claim_for (heldBy existing i) a i) ms)"
    by (simp add: list_all2_map1 list_all2_map2 list.rel_refl claim_for_preview)
  with Cons show ?case by (simp add: claims_of_def list_all2_appendI)
qed (simp add: claims_of_def)

lemma preview_settled:
  assumes "list_all2 (\<lambda>p d. p = d \<or> p = d\<lparr>clm_Host := 0\<rparr>) ps ds"
    and "\<not> list_ex (\<lambda>d. clm_Host d = 0) ps"
  shows "ps = ds"
  using assms by (induction rule: list_all2_induct) auto

lemma claims_of_first:
  assumes "length allocss = length [0..count - 1]" "1 \<le> count"
  shows "\<exists>allocs. \<forall>m\<in>set ms.
    claim_for (heldBy existing 0) allocs 0 m \<in> set (claims_of existing ms [0..count - 1] allocss)"
proof -
  have upto: "[0..count - 1] = 0 # [1..count - 1]" using assms(2) by (simp add: upto_rec1)
  then obtain a as where "allocss = a # as" using assms(1) by (cases allocss) auto
  then show ?thesis by (intro exI [of _ a]) (simp add: claims_of_def upto)
qed

lemma claims_of_keys:
  assumes "length allocss = length is"
  shows "map (\<lambda>d. (clm_Instance d, claim_key d)) (claims_of existing ms is allocss)
    = concat (map (\<lambda>i. map (\<lambda>m. (i, mapping_key m)) ms) is)"
  using assms
  by (induction allocss "is" rule: list_induct2) (simp_all add: claims_of_def claim_for_def o_def)

lemma claims_of_distinct:
  assumes "length allocss = length [0..count - 1]" "distinct (map mapping_key ms)"
  shows "distinct (map (\<lambda>d. (clm_Instance d, claim_key d)) (claims_of existing ms [0..count - 1] allocss))"
  unfolding claims_of_keys [OF assms(1)] by (rule distinct_pairs [OF distinct_upto assms(2)])

lemma keys_unique:
  assumes "distinct (map (\<lambda>d. (clm_Instance d, claim_key d)) claims)" "d \<in> set claims" "e \<in> set claims"
    and "clm_Instance d = clm_Instance e" "claim_key d = claim_key e"
  shows "d = e"
  using assms by (auto simp: distinct_map inj_on_def)

lemma heldBy_None: "heldBy cs i k = None \<Longrightarrow> d \<in> set cs \<Longrightarrow> \<not> (clm_Instance d = i \<and> claim_key d = k)"
proof -
  have "fold (\<lambda>c held. if clm_Instance c \<noteq> i then held else held(claim_key c \<mapsto> c)) cs m k = None
      \<Longrightarrow> m k = None \<and> (\<forall>d\<in>set cs. \<not> (clm_Instance d = i \<and> claim_key d = k))" for m
  proof (induction cs arbitrary: m)
    case (Cons c cs)
    show ?case
      using Cons.IH [of "if clm_Instance c \<noteq> i then m else m(claim_key c \<mapsto> c)"] Cons.prems
      by (auto split: if_splits)
  qed simp
  then show "heldBy cs i k = None \<Longrightarrow> d \<in> set cs \<Longrightarrow> \<not> (clm_Instance d = i \<and> claim_key d = k)"
    unfolding heldBy_def by blast
qed

lemma settled_claims_heldBy: "settled_claims claims = heldBy claims 0"
  by (simp add: settled_claims_def heldBy_def)

lemma settled_claims_unique:
  assumes "distinct (map (\<lambda>d. (clm_Instance d, claim_key d)) claims)" "d \<in> set claims" "clm_Instance d = 0"
  shows "settled_claims claims (claim_key d) = Some d"
proof (cases "settled_claims claims (claim_key d)")
  case None
  then show ?thesis using heldBy_None [of claims 0 "claim_key d" d] assms(2,3) by (simp add: settled_claims_heldBy)
next
  case (Some e)
  then have "e = d"
    using heldBy_Some [of claims 0 "claim_key d" e] keys_unique [OF assms(1) _ assms(2)] assms(3)
    by (simp add: settled_claims_heldBy)
  with Some show ?thesis by simp
qed

lemma dynamic_unique:
  assumes "distinct (map (\<lambda>d. (clm_Instance d, claim_key d)) claims)" "d \<in> set claims" "clm_Instance d = 0"
  shows "claim_key d \<in> claim_key ` {d \<in> set claims. clm_Dynamic d \<and> clm_Instance d = 0} \<longleftrightarrow> clm_Dynamic d"
  using assms keys_unique [OF assms(1,2)] by auto

lemma map_filter_all: "(\<And>x. x \<in> set xs \<Longrightarrow> f x = Some (g x)) \<Longrightarrow> List.map_filter f xs = map g xs"
  by (induction xs) (simp_all add: map_filter_simps)

lemma protocolOf_idem:
  "protocolOf \<lparr>port_Name = n, port_To = to, port_From = from, port_Protocol = protocolOf m\<rparr> = protocolOf m"
  by (simp add: protocolOf_def)

lemma port_eta:
  "m\<lparr>port_Protocol := p\<rparr> = \<lparr>port_Name = port_Name m, port_To = port_To m, port_From = port_From m,
     port_Protocol = p\<rparr>"
  by simp

definition example_port :: "int \<Rightarrow> int \<Rightarrow> Port" where
  "example_port to from = \<lparr>port_Name = [], port_To = to, port_From = from, port_Protocol = ProtocolTCP\<rparr>"

definition example_row :: database_Port where
  "example_row = \<lparr>prt_WorkloadID = ''id1'', prt_Instance = 0, prt_Name = [], prt_Container = 80,
     prt_Host = 20000, prt_Protocol = ProtocolTCP, prt_Dynamic = True\<rparr>"

definition example_names :: "string \<rightharpoonup> string" where
  "example_names = (\<lambda>x. if x = ''id1'' then Some ''web'' else None)"

abbreviation example_Allocate :: allocation_fn where
  "example_Allocate \<equiv> Allocate \<lparr>al_min = 20000, al_max = 20001\<rparr> (\<lambda>n k. 0) (\<lambda>n p h. True)"

lemma example_named_by: "named_by example_names [example_row] ''id1'' ''web''"
  by (simp add: named_by_def example_names_def example_row_def)

lemma example_table_ok: "table_ok [example_row]"
  by (simp add: table_ok_def)

lemma example_resolve:
  "claimer_Resolve (table_claimer example_Allocate None example_names [example_row]) ''web''
     (heldClaims (table_List [example_row] ''id1'')) [example_port 80 0, example_port 443 0] 1
   = Inr [\<lparr>clm_Instance = 0, clm_Name = [], clm_Container = 80, clm_Host = 20000,
           clm_Protocol = ProtocolTCP, clm_Dynamic = True\<rparr>,
          \<lparr>clm_Instance = 0, clm_Name = [], clm_Container = 443, clm_Host = 20001,
           clm_Protocol = ProtocolTCP, clm_Dynamic = True\<rparr>]"
  by code_simp

lemma example_no_self_pin: "no_self_pin existing [example_port 80 0, example_port 443 0] i"
proof -
  have "pins [example_port 80 0, example_port 443 0] = {}"
    by (auto simp: pins_def example_port_def)
  then show ?thesis by (simp add: no_self_pin_def)
qed

text \<open>
  Where \<open>Resolve\<close> settles each mapping of each instance: on the port it pins; else on the port this
  instance already holds for it, so that an address does not move while something else about the
  workload changes; else on a port promised to nobody and pinned by none of the mappings. A specification
  that pins a port is refused for more than one instance.
\<close>

lemma Resolve_settles:
  assumes "cl_Allocate c = Allocate a draw avail" "cl_Allocated c = Inr allocated"
    and "claimer_Resolve c w existing ms count = Inr claims" "0 \<le> i" "i < count" "m \<in> set ms"
  shows "\<exists>d\<in>set claims. clm_Instance d = i \<and> clm_Name d = port_Name m \<and> claim_key d = mapping_key m
    \<and> (clm_Dynamic d \<longleftrightarrow> port_From m = 0)
    \<and> (if port_From m \<noteq> 0 then clm_Host d = port_From m \<and> count = 1
       else case kept (heldBy existing i) m of
              Some p \<Rightarrow> clm_Host d = clm_Host p
            | None \<Rightarrow> clm_Host d \<notin> set (allocated (protocolOf m))
                \<and> (clm_Host d, protocolOf m) \<notin> pins ms)"
proof -
  let ?held = "heldBy existing i" and ?T = "fold pin_port ms allocated"
  have alloc: "allocation (cl_Allocate c)" by (simp add: assms(1) al.allocation_axioms)
  have run: "resolve_instances c w existing ms 0 ?T [0..count - 1] = Inr claims"
    and few: "Pinned ms \<Longrightarrow> count \<le> 1"
    using assms(2,3) by (auto simp: claimer_Resolve_def split: if_splits)
  obtain allocs t1 t2 where t1: "\<forall>p. set (?T p) \<subseteq> set (t1 p)" and inv: "alloc_inv t1 t2 allocs"
    and all: "unsettled ?held m \<longrightarrow> allocs (mapping_key m) \<noteq> None"
    and mem: "claim_for ?held allocs i m \<in> set claims"
    using resolve_instances_block [OF alloc run _ assms(6), of i] assms(4,5) by auto
  have one: "count = 1" if "port_From m \<noteq> 0"
    using few Pinned_iff assms(4-6) that by force
  have new: "host_of ?held allocs m \<notin> set (?T (protocolOf m))" if un: "unsettled ?held m"
  proof -
    from un obtain h where "allocs (mapping_key m) = Some h" using all by auto
    then have "h \<notin> set (t1 (protocolOf m))" "host_of ?held allocs m = h"
      using inv un by (auto simp: alloc_inv_def host_of_def unsettled_def)
    with t1 show ?thesis by blast
  qed
  show ?thesis
    using one new
    by (intro bexI [OF _ mem])
      (auto simp: claim_for_def unsettled_def pins_taken split: option.splits, simp_all add: host_of_def)
qed

text \<open>
  A preview never disagrees with the resolution it stands for: when the specification resolves, the
  preview succeeds too, lists the same claims in the same order, and differs only in mappings it reports
  with no host port; when it reports nothing pending, it is the resolution.
\<close>

lemma Preview_agrees:
  assumes "claimer_Resolve c w existing ms count = Inr claims"
  shows "\<exists>previewed pending. claimer_Preview c w existing ms count = Inr (previewed, pending)
    \<and> list_all2 (\<lambda>p d. p = d \<or> p = d\<lparr>clm_Host := 0\<rparr>) previewed claims
    \<and> (\<not> pending \<longrightarrow> previewed = claims)"
proof -
  obtain n t where run: "resolve_instances c w existing ms n t [0..count - 1] = Inr claims"
    and few: "\<not> (1 < count \<and> Pinned ms)"
    using assms by (auto simp: claimer_Resolve_def split: if_splits sum.splits)
  obtain allocss where len: "length allocss = length [0..count - 1]"
    and claims: "claims = claims_of existing ms [0..count - 1] allocss"
    using resolve_instances_claims [OF run] by blast
  let ?p = "claims_of existing ms [0..count - 1] (map (\<lambda>_. Map.empty) allocss)"
  have "preview_instances c w existing ms [0..count - 1] = Inr ?p"
    using len resolve_instances_pin_ok [OF run] by (rule preview_instances_claims)
  then have "claimer_Preview c w existing ms count = Inr (?p, list_ex (\<lambda>d. clm_Host d = 0) ?p)"
    using few by (simp add: claimer_Preview_def)
  moreover have agree: "list_all2 (\<lambda>p d. p = d \<or> p = d\<lparr>clm_Host := 0\<rparr>) ?p claims"
    unfolding claims using len by (rule claims_of_preview)
  moreover have "?p = claims" if "\<not> list_ex (\<lambda>d. clm_Host d = 0) ?p"
    using agree that by (rule preview_settled)
  ultimately show ?thesis by blast
qed

text \<open>
  The stored specification carries the settled ports, and what was asked for is recovered from it:
  \<open>Requested\<close> undoes \<open>Resolved\<close>, up to the protocol being written out.
\<close>

lemma Requested_Resolved:
  assumes "claimer_Resolve c w existing (spec_Ports spec) count = Inr claims" "1 \<le> count"
    and "valid_mappings (spec_Ports spec)"
  shows "Requested (spec_Ports (Resolved spec claims)) claims
    = map (\<lambda>m. m\<lparr>port_Protocol := protocolOf m\<rparr>) (spec_Ports spec)"
proof (cases "spec_Ports spec = []")
  case True
  then show ?thesis by (simp add: Resolved_def Requested_def)
next
  case False
  let ?ms = "spec_Ports spec"
  obtain n t where "resolve_instances c w existing ?ms n t [0..count - 1] = Inr claims"
    using assms(1) by (auto simp: claimer_Resolve_def split: if_splits sum.splits)
  then obtain allocss where len: "length allocss = length [0..count - 1]"
    and claims: "claims = claims_of existing ?ms [0..count - 1] allocss"
    using resolve_instances_claims by blast
  obtain allocs where first: "\<forall>m\<in>set ?ms. claim_for (heldBy existing 0) allocs 0 m \<in> set claims"
    using claims_of_first [OF len assms(2)] claims by blast
  have unique: "distinct (map (\<lambda>d. (clm_Instance d, claim_key d)) claims)"
    unfolding claims using len assms(3) by (intro claims_of_distinct) (simp_all add: valid_mappings_def)
  have settled: "settled_claims claims (mapping_key m) = Some (claim_for (heldBy existing 0) allocs 0 m)"
    if "m \<in> set ?ms" for m
    using settled_claims_unique [OF unique, of "claim_for (heldBy existing 0) allocs 0 m"] first that by simp
  have dynamic: "mapping_key m \<in> claim_key ` {d \<in> set claims. clm_Dynamic d \<and> clm_Instance d = 0}
      \<longleftrightarrow> port_From m = 0" if "m \<in> set ?ms" for m
    using dynamic_unique [OF unique, of "claim_for (heldBy existing 0) allocs 0 m"] first that by simp
  have "claims \<noteq> []" using first False by (cases ?ms) auto
  then have "spec_Ports (Resolved spec claims) = map (\<lambda>m. \<lparr>port_Name = port_Name m, port_To = port_To m,
      port_From = host_of (heldBy existing 0) allocs m, port_Protocol = protocolOf m\<rparr>) ?ms"
    using False settled by (simp add: Resolved_def Let_def map_filter_all)
  then show ?thesis
    using dynamic by (simp add: Requested_def Let_def protocolOf_idem host_of_def port_eta)
qed

end
