(* ===== verification/Reconciler_State.thy ===== *)
theory Reconciler_State
  imports Workload_State Health_Check Go_Strconv
begin

text \<open>
  The reconciler's state and surroundings (\<open>internal/server/reconciler/reconciler.go\<close>), and what it
  remembers about slots: restart pacing (\<open>backoff.go\<close>), endings and verdicts (\<open>health.go\<close>), the marks
  of starts, pulls, holds and replacements.

  Every call to an interface (a driver, the resolver, the mounts, the tokens, the checker, the stores,
  the recorder, a port probe, the clock) is written to \<open>rs_trace\<close>, in order. What a call answers is a
  function of the record \<open>config\<close> applied to the calls made before it, so two identical calls may be
  answered differently: the surroundings are arbitrary. The fields of \<open>config\<close> that are booleans say
  whether the optional interface is present (not nil). Logging, tracing and metrics are left out, and so
  are the timeouts of contexts, which show only as an error the call answers.
\<close>

section \<open>Events\<close>

datatype Reason =
    ImagePulling | RestartPaced | RestartGaveUp | ReferenceUnresolved
  | DependencyNotReady | DependencyWaitGivenUp
  | SpecificationModified | PortsDrifted | HashMoved | SecretChanged | VariableChanged
  | AddressMoved | AddressRemoved | HealthCheckFailing | HealthCheckRecovered
  | InstanceExited | InstanceUnhealthy
  | Applied | Suspended_event | Resumed | RestartRequested | Deleted
  | InstanceStarted | InstanceRemoved | PortsAbandoned | MountsRefreshed | CommandRan
  | RunStarted | RunFinished | OccurrenceSkipped | OccurrenceReplaced | ScheduleInvalid
  | ImageDrifted | ImageFollowed | DigestUnresolved | FollowUnscheduled
  | ConvergeFailed

record Fields =
  f_Reference :: string
  f_Name :: string
  f_Hash :: string
  f_Previous :: string
  f_Version :: int
  f_Instance :: int
  f_TargetInstance :: int
  f_ExitCode :: "int option"
  f_Count :: int
  f_Delay :: duration
  f_Digest :: string
  f_Schedule :: string
  f_Signal :: string
  f_Ports :: "int list"
  f_Error :: string
  f_Principal :: string
  f_Command :: "string list"

definition no_fields :: Fields where
  "no_fields = \<lparr>f_Reference = [], f_Name = [], f_Hash = [], f_Previous = [], f_Version = 0,
     f_Instance = 0, f_TargetInstance = 0, f_ExitCode = None, f_Count = 0, f_Delay = 0, f_Digest = [],
     f_Schedule = [], f_Signal = [], f_Ports = [], f_Error = [], f_Principal = [], f_Command = []\<rparr>"

section \<open>Calls\<close>

datatype call =
    ClockRead
  | DriverStart string driver_Workload
  | DriverStop string string string
  | DriverDiscard string string string
  | DriverStopInstance string string string int
  | DriverDiscardInstance string string string int
  | DriverSignal string string string string
  | DriverObserve string
  | DriverPrune string "Spec list"
  | EnvResolve string_map string string int
  | EnvAddresses string_map string int
  | EnvTargets string_map string int
  | MountsDeliver string int Spec
  | MountsRefresh string string int Spec
  | MountsForget string
  | MountsReclaim string int
  | MountsPrune "string list"
  | MountsContents Spec
  | TokensRevokeForWorkload string
  | TokensRevokeForInstance string int
  | TokensRevokeSuperseded string int
  | CheckerSet string int Check
  | CheckerForget string
  | CheckerForgetInstance string int
  | CheckerResult string int
  | WorkloadsList
  | WorkloadsDelete string
  | PortsListAll
  | Reallocate string int
  | PortAvailable Protocol int
  | RecordEvent string Reason Fields

type_synonym history = "call list"

record mount_Refresh =
  mr_Reference :: Reference
  mr_Signal :: string

record config =
  cfg_drivers :: "string list"
  cfg_env :: bool
  cfg_mounts :: bool
  cfg_tokens :: bool
  cfg_checker :: bool
  cfg_events :: bool
  cfg_ports :: bool
  cfg_reallocate :: bool
  cfg_bind :: string
  cfg_readiness :: duration
  cfg_hostPaths :: "HostPath list"
  cfg_now :: "history \<Rightarrow> time"
  cfg_fs :: "history \<Rightarrow> file_system"
  cfg_unmarshal :: "string \<Rightarrow> goerr + Spec"
  cfg_cron :: "string \<Rightarrow> goerr + (time \<Rightarrow> time)"
  cfg_sha256_hex :: "string \<Rightarrow> string"
  cfg_unspecified :: "string \<Rightarrow> bool option"
  cfg_error :: "history \<Rightarrow> call \<Rightarrow> goerr option"
  cfg_strings :: "history \<Rightarrow> call \<Rightarrow> goerr + string_map"
  cfg_targets :: "history \<Rightarrow> call \<Rightarrow> goerr + Target list"
  cfg_volumes :: "history \<Rightarrow> call \<Rightarrow> goerr + driver_Volume list"
  cfg_refreshed :: "history \<Rightarrow> call \<Rightarrow> goerr + mount_Refresh list"
  cfg_moved :: "history \<Rightarrow> call \<Rightarrow> goerr + bool"
  cfg_result :: "history \<Rightarrow> call \<Rightarrow> Result option"
  cfg_available :: "history \<Rightarrow> call \<Rightarrow> bool"
  cfg_observed :: "history \<Rightarrow> call \<Rightarrow> goerr + Instance list"
  cfg_rows :: "history \<Rightarrow> call \<Rightarrow> goerr + database_Workload list"
  cfg_allocated :: "history \<Rightarrow> call \<Rightarrow> goerr + (string \<Rightarrow> database_Port list)"

section \<open>State\<close>

record backoff =
  bo_attempts :: int
  bo_next :: time
  bo_wait :: duration
  bo_gaveUp :: bool

definition no_backoff :: backoff where
  "no_backoff = \<lparr>bo_attempts = 0, bo_next = 0, bo_wait = 0, bo_gaveUp = False\<rparr>"

record Observation =
  ob_At :: time
  ob_Error :: string

record reconciler =
  rs_backoff :: "slot \<rightharpoonup> backoff"
  rs_exits :: "slot \<rightharpoonup> string"
  rs_verdicts :: "slot \<rightharpoonup> Status"
  rs_unhealthy :: "slot \<rightharpoonup> string"
  rs_started :: "slot \<rightharpoonup> int"
  rs_held :: "slot \<rightharpoonup> time"
  rs_pulling :: "slot \<rightharpoonup> unit"
  rs_replacing :: "slot \<rightharpoonup> unit"
  rs_restarts :: "string set"
  rs_reclaimed :: "string \<rightharpoonup> int"
  rs_allocations :: "(string \<Rightarrow> database_Port list) option"
  rs_rows :: "(string \<rightharpoonup> database_Workload) option"
  rs_converging :: "string set"
  rs_observations :: "string \<rightharpoonup> Observation"
  rs_trace :: history

type_synonym 'a op = "(reconciler, 'a) state"

definition new_reconciler :: reconciler where
  "new_reconciler = \<lparr>rs_backoff = Map.empty, rs_exits = Map.empty, rs_verdicts = Map.empty,
     rs_unhealthy = Map.empty, rs_started = Map.empty, rs_held = Map.empty, rs_pulling = Map.empty,
     rs_replacing = Map.empty, rs_restarts = {}, rs_reclaimed = Map.empty, rs_allocations = None,
     rs_rows = None, rs_converging = {}, rs_observations = Map.empty, rs_trace = []\<rparr>"

text \<open>Making a call: it is answered from the calls before it and then written to the trace.\<close>

definition ask :: "(history \<Rightarrow> call \<Rightarrow> 'a) \<Rightarrow> call \<Rightarrow> 'a op" where
  "ask f c = State (\<lambda>s. (f (rs_trace s) c, s\<lparr>rs_trace := rs_trace s @ [c]\<rparr>))"

definition tell :: "call \<Rightarrow> unit op" where
  "tell c = ask (\<lambda>h c. ()) c"

definition read_now :: "config \<Rightarrow> time op" where
  "read_now r = ask (\<lambda>h c. cfg_now r h) ClockRead"

definition record_event :: "config \<Rightarrow> string \<Rightarrow> Reason \<Rightarrow> Fields \<Rightarrow> unit op" where
  "record_event r w reason fs =
     (if \<not> cfg_events r then ret () else tell (RecordEvent w reason fs))"

definition driverFor :: "config \<Rightarrow> database_Workload \<Rightarrow> string option" where
  "driverFor r row = (if row_Runtime row \<in> set (cfg_drivers r) then Some (row_Runtime row) else None)"

section \<open>Requests and marks\<close>

definition Restart_request :: "string \<Rightarrow> unit op" where
  "Restart_request w = modify (\<lambda>s. s\<lparr>rs_restarts := insert w (rs_restarts s)\<rparr>)"

definition restartRequested :: "string \<Rightarrow> bool op" where
  "restartRequested w = do {
     ok \<leftarrow> gets (\<lambda>s. w \<in> rs_restarts s);
     modify (\<lambda>s. s\<lparr>rs_restarts := rs_restarts s - {w}\<rparr>);
     ret ok }"

definition markReplacing :: "string \<Rightarrow> int \<Rightarrow> unit op" where
  "markReplacing w count = each [0..count - 1]
     (\<lambda>i. modify (\<lambda>s. s\<lparr>rs_replacing := (rs_replacing s)(Slot w i \<mapsto> ())\<rparr>))"

definition replacingRequested :: "string \<Rightarrow> int \<Rightarrow> bool op" where
  "replacingRequested w i = gets (\<lambda>s. rs_replacing s (Slot w i) \<noteq> None)"

definition clearReplacing :: "string \<Rightarrow> int \<Rightarrow> unit op" where
  "clearReplacing w i = modify (\<lambda>s. s\<lparr>rs_replacing := (rs_replacing s)(Slot w i := None)\<rparr>)"

definition forgetReplacing :: "string \<Rightarrow> unit op" where
  "forgetReplacing w = modify (\<lambda>s. s\<lparr>rs_replacing := drop_workload w (rs_replacing s)\<rparr>)"

definition Pulling :: "string \<Rightarrow> int \<Rightarrow> bool op" where
  "Pulling w i = gets (\<lambda>s. rs_pulling s (Slot w i) \<noteq> None)"

definition markPulling :: "string \<Rightarrow> int \<Rightarrow> bool \<Rightarrow> unit op" where
  "markPulling w i waiting = modify (\<lambda>s. s\<lparr>rs_pulling :=
     (rs_pulling s)(Slot w i := (if waiting then Some () else None))\<rparr>)"

definition release :: "slot \<Rightarrow> unit op" where
  "release key = modify (\<lambda>s. s\<lparr>rs_held := (rs_held s)(key := None)\<rparr>)"

definition markStarted :: "string \<Rightarrow> int \<Rightarrow> int \<Rightarrow> unit op" where
  "markStarted w i version = modify (\<lambda>s. s\<lparr>rs_started := (rs_started s)(Slot w i \<mapsto> version),
     rs_held := (rs_held s)(Slot w i := None)\<rparr>)"

text \<open>Only the held entries of slots that are also in \<open>started\<close> are deleted, as the loop has it.\<close>

definition forgetStarted :: "string \<Rightarrow> unit op" where
  "forgetStarted w = modify (\<lambda>s. s\<lparr>
     rs_held := (\<lambda>k. if slot_workload k = w \<and> rs_started s k \<noteq> None then None else rs_held s k),
     rs_started := drop_workload w (rs_started s),
     rs_pulling := drop_workload w (rs_pulling s)\<rparr>)"

definition reclaimedVersion :: "string \<Rightarrow> int op" where
  "reclaimedVersion wid = gets (\<lambda>s. case rs_reclaimed s wid of None \<Rightarrow> 0 | Some v \<Rightarrow> v)"

definition markReclaimed :: "string \<Rightarrow> int \<Rightarrow> unit op" where
  "markReclaimed wid version = modify (\<lambda>s. s\<lparr>rs_reclaimed := (rs_reclaimed s)(wid \<mapsto> version)\<rparr>)"

definition forgetReclaimed :: "string \<Rightarrow> unit op" where
  "forgetReclaimed wid = modify (\<lambda>s. s\<lparr>rs_reclaimed := (rs_reclaimed s)(wid := None)\<rparr>)"

section \<open>Restart pacing\<close>

definition baseBackoff :: duration where
  "baseBackoff = Second"

definition maxBackoff :: duration where
  "maxBackoff = 2 * Minute"

definition settlePeriod :: duration where
  "settlePeriod = 10 * Second"

definition delay :: "int \<Rightarrow> duration \<Rightarrow> duration" where
  "delay attempts base0 =
     (let base = (if base0 \<le> 0 then baseBackoff else base0);
          d = wrap64 (base * 2 ^ nat (min (max (attempts - 1) 0) 8))
      in if d > maxBackoff \<or> d \<le> 0 then maxBackoff else d)"

definition backoff_at :: "slot \<Rightarrow> reconciler \<Rightarrow> backoff" where
  "backoff_at k s = (case rs_backoff s k of None \<Rightarrow> no_backoff | Some b \<Rightarrow> b)"

definition waiting :: "config \<Rightarrow> string \<Rightarrow> int \<Rightarrow> bool op" where
  "waiting r w i = do {
     b \<leftarrow> gets (backoff_at (Slot w i));
     if IsZero (bo_next b) then ret False
     else do { now \<leftarrow> read_now r; ret (now < bo_next b) } }"

definition hold :: "config \<Rightarrow> string \<Rightarrow> int \<Rightarrow> Restart \<Rightarrow> backoff op" where
  "hold r w i restart = do {
     b \<leftarrow> gets (backoff_at (Slot w i));
     now \<leftarrow> read_now r;
     let attempts = bo_attempts b + 1;
     let wait = delay attempts (rst_Delay restart);
     let b' = b\<lparr>bo_attempts := attempts, bo_wait := wait, bo_next := now + wait\<rparr>;
     modify (\<lambda>s. s\<lparr>rs_backoff := (rs_backoff s)(Slot w i \<mapsto> b')\<rparr>);
     ret b' }"

definition paced :: "config \<Rightarrow> string \<Rightarrow> backoff \<Rightarrow> goerr \<Rightarrow> unit op" where
  "paced r w b err = record_event r w RestartPaced
     (no_fields\<lparr>f_Count := bo_attempts b, f_Delay := bo_wait b, f_Error := err_text err\<rparr>)"

definition giveUp :: "string \<Rightarrow> int \<Rightarrow> bool op" where
  "giveUp w i = do {
     b \<leftarrow> gets (backoff_at (Slot w i));
     if bo_gaveUp b then ret False
     else do {
       modify (\<lambda>s. s\<lparr>rs_backoff := (rs_backoff s)(Slot w i \<mapsto> b\<lparr>bo_gaveUp := True\<rparr>)\<rparr>);
       ret True } }"

definition attempts :: "string \<Rightarrow> int \<Rightarrow> int op" where
  "attempts w i = gets (\<lambda>s. bo_attempts (backoff_at (Slot w i) s))"

definition settle :: "string \<Rightarrow> int \<Rightarrow> unit op" where
  "settle w i = modify (\<lambda>s. s\<lparr>rs_backoff := (rs_backoff s)(Slot w i := None)\<rparr>)"

definition forgetRun :: "string \<Rightarrow> unit op" where
  "forgetRun w = modify (\<lambda>s. s\<lparr>rs_exits := drop_workload w (rs_exits s),
     rs_verdicts := drop_workload w (rs_verdicts s),
     rs_unhealthy := drop_workload w (rs_unhealthy s)\<rparr>)"

definition settleAll :: "string \<Rightarrow> unit op" where
  "settleAll w = do {
     forgetRun w;
     modify (\<lambda>s. s\<lparr>rs_backoff := drop_workload w (rs_backoff s)\<rparr>) }"

definition settled :: "Instance \<Rightarrow> time \<Rightarrow> bool" where
  "settled i now = (if inst_State i \<noteq> StateRunning then False
     else IsZero (inst_StartedAt i) \<or> time_Sub now (inst_StartedAt i) \<ge> settlePeriod)"

section \<open>Endings and verdicts\<close>

definition verdict :: "string \<Rightarrow> int \<Rightarrow> Status \<Rightarrow> (Status option \<times> bool) op" where
  "verdict w i status = do {
     previous \<leftarrow> gets (\<lambda>s. rs_verdicts s (Slot w i));
     if previous = Some status then ret (previous, False)
     else do {
       modify (\<lambda>s. s\<lparr>rs_verdicts := (rs_verdicts s)(Slot w i \<mapsto> status)\<rparr>);
       ret (previous, True) } }"

definition failCheck :: "Instance \<Rightarrow> unit op" where
  "failCheck i = modify (\<lambda>s. s\<lparr>rs_unhealthy :=
     (rs_unhealthy s)(Slot (inst_Workload i) (inst_Index i) \<mapsto> inst_ID i)\<rparr>)"

definition checkFailed :: "string \<Rightarrow> int \<Rightarrow> string \<Rightarrow> bool op" where
  "checkFailed w i ident = gets (\<lambda>s.
     (case rs_unhealthy s (Slot w i) of None \<Rightarrow> [] | Some x \<Rightarrow> x) = ident)"

definition firstSighting :: "string \<Rightarrow> int \<Rightarrow> string \<Rightarrow> bool op" where
  "firstSighting w i ident = do {
     seen \<leftarrow> gets (\<lambda>s. case rs_exits s (Slot w i) of None \<Rightarrow> [] | Some x \<Rightarrow> x);
     if seen = ident then ret False
     else do {
       modify (\<lambda>s. s\<lparr>rs_exits := (rs_exits s)(Slot w i \<mapsto> ident)\<rparr>);
       ret True } }"

section \<open>Reading instances\<close>

definition running :: "Instance \<Rightarrow> bool" where
  "running i \<longleftrightarrow> inst_State i = StateRunning \<or> inst_State i = StatePending"

definition failed :: "Instance \<Rightarrow> bool" where
  "failed i \<longleftrightarrow> inst_State i = StateFailed"

definition terminating :: "Instance \<Rightarrow> bool" where
  "terminating i \<longleftrightarrow> inst_State i = StateTerminating"

definition failureOf :: "Instance \<Rightarrow> int" where
  "failureOf i = (if failed i \<and> inst_ExitCode i = 0 then 1 else inst_ExitCode i)"

fun failureCodeOf :: "Instance list \<Rightarrow> int" where
  "failureCodeOf [] = 0"
| "failureCodeOf (i # is) = (if failureOf i \<noteq> 0 then failureOf i else failureCodeOf is)"

fun exitCodeOf :: "Instance list \<Rightarrow> int" where
  "exitCodeOf [] = 0"
| "exitCodeOf (i # is) = (if inst_ExitCode i \<noteq> 0 then inst_ExitCode i else exitCodeOf is)"

definition retired :: "Restart \<Rightarrow> Instance list \<Rightarrow> bool" where
  "retired restart is = (if is = [] then False
     else list_all (\<lambda>i. \<not> (running i \<or> policy_Restarts (rst_Policy restart) (failureOf i))) is)"

fun last_ended :: "Instance list \<Rightarrow> Instance option \<Rightarrow> Instance option" where
  "last_ended [] latest = latest"
| "last_ended (i # is) latest =
     (if running i \<or> terminating i then last_ended is latest
      else (case latest of
              None \<Rightarrow> last_ended is (Some i)
            | Some l \<Rightarrow> last_ended is (if inst_StartedAt i > inst_StartedAt l then Some i else Some l)))"

definition lastEnded :: "Instance list \<Rightarrow> Instance option" where
  "lastEnded is = last_ended is None"

definition lastRun :: "Instance list \<Rightarrow> time" where
  "lastRun is = fold (\<lambda>i t. if inst_StartedAt i > t then inst_StartedAt i else t) is 0"

section \<open>Reading the stored specification\<close>

definition default_restart :: Restart where
  "default_restart = \<lparr>rst_Policy = RestartAlways, rst_Attempts = 0, rst_Delay = DefaultRestartDelay\<rparr>"

text \<open>Decoding fills in the restart section, so the missing case of a decoded specification is not reached.\<close>

definition restartPolicy :: "config \<Rightarrow> database_Workload \<Rightarrow> Restart" where
  "restartPolicy r row = (case DecodeWorkload (cfg_unmarshal r) (row_Spec row) of
       Inl e \<Rightarrow> default_restart
     | Inr spec \<Rightarrow> (case spec_Restart spec of None \<Rightarrow> default_restart | Some p \<Rightarrow> p))"

definition countOf :: "config \<Rightarrow> database_Workload \<Rightarrow> int" where
  "countOf r row = (case DecodeWorkload (cfg_unmarshal r) (row_Spec row) of
       Inl e \<Rightarrow> 1 | Inr spec \<Rightarrow> if spec_Count spec < 1 then 1 else spec_Count spec)"

definition driverTimeout :: duration where
  "driverTimeout = 30 * Second"

definition stopBudget :: "config \<Rightarrow> database_Workload \<Rightarrow> duration" where
  "stopBudget r row = (case DecodeWorkload (cfg_unmarshal r) (row_Spec row) of
       Inl e \<Rightarrow> driverTimeout
     | Inr spec \<Rightarrow> if spec_StopTimeout spec \<le> 0 then driverTimeout
         else wrap64 (driverTimeout + spec_StopTimeout spec))"

definition scheduled :: "config \<Rightarrow> database_Workload \<Rightarrow> bool" where
  "scheduled r row = (case DecodeWorkload (cfg_unmarshal r) (row_Spec row) of
       Inl e \<Rightarrow> False | Inr spec \<Rightarrow> spec_Schedule spec \<noteq> None)"

definition overlap :: "config \<Rightarrow> database_Workload \<Rightarrow> OverlapPolicy" where
  "overlap r row = (case DecodeWorkload (cfg_unmarshal r) (row_Spec row) of
       Inl e \<Rightarrow> OverlapReplace
     | Inr spec \<Rightarrow> (case spec_Schedule spec of None \<Rightarrow> OverlapReplace | Some d \<Rightarrow> sch_Overlap d))"

definition checked_row :: "config \<Rightarrow> database_Workload \<Rightarrow> bool" where
  "checked_row r row = (case DecodeWorkload (cfg_unmarshal r) (row_Spec row) of
       Inl e \<Rightarrow> False | Inr spec \<Rightarrow> spec_Health spec \<noteq> None)"

definition imageOf :: "Spec \<Rightarrow> string" where
  "imageOf spec = (case spec_Container spec of None \<Rightarrow> [] | Some c \<Rightarrow> con_Image c)"

section \<open>Reading port rows\<close>

definition hostPorts :: "database_Port list \<Rightarrow> int list" where
  "hostPorts rows = map prt_Host rows"

definition driverPorts :: "database_Port list \<Rightarrow> driver_Port list" where
  "driverPorts rows = map (\<lambda>p. \<lparr>dp_Container = prt_Container p, dp_Host = prt_Host p,
     dp_Protocol = prt_Protocol p\<rparr>) rows"

definition slotPorts :: "database_Workload \<Rightarrow> int \<Rightarrow> database_Port list op" where
  "slotPorts row i = gets (\<lambda>s. case rs_allocations s of
       None \<Rightarrow> [] | Some m \<Rightarrow> filter (\<lambda>p. prt_Instance p = i) (m (row_ID row)))"

definition portsDrifted :: "Instance list \<Rightarrow> database_Port list \<Rightarrow> bool" where
  "portsDrifted is rows = (if rows = [] then False
     else list_ex (\<lambda>i. inst_State i = StateRunning \<and> inst_Ports i \<noteq> []
       \<and> list_ex (\<lambda>row. \<not> list_ex (\<lambda>p. dp_Container p = prt_Container row
            \<and> dp_Host p = prt_Host row \<and> dp_Protocol p = prt_Protocol row) (inst_Ports i)) rows) is)"

text \<open>The probe loop of \<open>taken\<close> stops at the first dynamic port that is not available.\<close>

fun taken_ports :: "config \<Rightarrow> database_Port list \<Rightarrow> bool op" where
  "taken_ports r [] = ret False"
| "taken_ports r (p # ps) =
     (if \<not> prt_Dynamic p then taken_ports r ps
      else do {
        free \<leftarrow> ask (cfg_available r) (PortAvailable (prt_Protocol p) (prt_Host p));
        if \<not> free then ret True else taken_ports r ps })"

section \<open>A concrete reconciler\<close>

text \<open>
  One driver, an event recorder, mounts and tokens, and surroundings in which every call succeeds and the
  clock advances by a second with every call.
\<close>

definition example_config :: config where
  "example_config = \<lparr>cfg_drivers = [''docker''], cfg_env = False, cfg_mounts = True, cfg_tokens = True,
     cfg_checker = False, cfg_events = True, cfg_ports = True, cfg_reallocate = False,
     cfg_bind = ''127.0.0.1'', cfg_readiness = Minute, cfg_hostPaths = [],
     cfg_now = (\<lambda>h. (100 + int (length h)) * Second),
     cfg_fs = (\<lambda>h. \<lparr>fs_EvalSymlinks = Inr, fs_Lstat = (\<lambda>p. None)\<rparr>),
     cfg_unmarshal = (\<lambda>d. Inr (example_spec\<lparr>spec_Volumes := []\<rparr>)), cfg_cron = (\<lambda>e. Inl (ErrMsg ''cron'')),
     cfg_sha256_hex = (\<lambda>d. d), cfg_unspecified = (\<lambda>a. Some False),
     cfg_error = (\<lambda>h c. None), cfg_strings = (\<lambda>h c. Inr []), cfg_targets = (\<lambda>h c. Inr []),
     cfg_volumes = (\<lambda>h c. Inr []), cfg_refreshed = (\<lambda>h c. Inr []), cfg_moved = (\<lambda>h c. Inr False),
     cfg_result = (\<lambda>h c. None), cfg_available = (\<lambda>h c. True), cfg_observed = (\<lambda>h c. Inr []),
     cfg_rows = (\<lambda>h c. Inr []), cfg_allocated = (\<lambda>h c. Inr (\<lambda>w. []))\<rparr>"

definition example_wrow :: database_Workload where
  "example_wrow = \<lparr>row_ID = ''id1'', row_Name = ''web'', row_Version = 1, row_Runtime = ''docker'',
     row_Spec = [], row_SpecHash = ''h1'', row_Labels = [], row_CreatedAt = 1, row_UpdatedAt = 1, row_DeletedAt = 0,
     row_SuspendedAt = 0\<rparr>"

definition example_winst :: "State_driver \<Rightarrow> Instance" where
  "example_winst st = \<lparr>inst_ID = ''c1'', inst_Workload = ''web'', inst_Index = 0, inst_SpecHash = ''h1'',
     inst_Version = 1, inst_State = st, inst_ExitCode = 0, inst_StartedAt = 1, inst_Ports = [],
     inst_RuntimeHealth = [], inst_Retained = False\<rparr>"

end
