(* ===== verification/Reconciler_Ops.thy ===== *)
theory Reconciler_Ops
  imports Reconciler_State
begin

text \<open>
  What the reconciler does to one workload's instances: the hash a slot is expected to carry and the
  start that stamps it (\<open>start.go\<close>, \<open>converge.go\<close>), the stops and discards (\<open>stop.go\<close>), and the two
  paced ways of bringing an instance up, \<open>attempt\<close> and \<open>restart\<close> (\<open>backoff.go\<close>).

  An operation that may fail returns \<open>None\<close> for a nil error and \<open>Some err\<close> otherwise; an operation that
  returns a value or an error returns a sum.
\<close>

section \<open>The hash a slot is expected to carry\<close>

text \<open>The markers looked for in the stored bytes before anything is decoded.\<close>

definition reads_workload :: "string \<Rightarrow> bool" where
  "reads_workload data \<longleftrightarrow> Contains data ''${workload:''"

definition expands_file :: "string \<Rightarrow> bool" where
  "expands_file data \<longleftrightarrow> Contains data ''\"expand\":true''"

definition names_signal :: "string \<Rightarrow> bool" where
  "names_signal data \<longleftrightarrow> Contains data ''\"signal\"''"

text \<open>The variables mounted with \<open>expand\<close> and no signal, in the contents the mounts reported.\<close>

definition replaced_contents :: "Spec \<Rightarrow> string_map \<Rightarrow> string_map" where
  "replaced_contents spec contents =
     (let named = map mnt_Var (filter (\<lambda>m. mnt_Expand m \<and> mnt_Signal m = []) (spec_Volumes spec))
      in filter (\<lambda>(k, v). k \<in> set named) contents)"

definition mountedAddresses :: "config \<Rightarrow> database_Workload \<Rightarrow> Spec \<Rightarrow> (goerr + string_map) op" where
  "mountedAddresses r row spec =
     (if \<not> cfg_mounts r then ret (Inr [])
      else do {
        contents \<leftarrow> ask (cfg_strings r) (MountsContents spec);
        case contents of
          Inl e \<Rightarrow> ret (Inl e)
        | Inr cs \<Rightarrow>
            if replaced_contents spec cs = [] then ret (Inr [])
            else ask (cfg_strings r) (EnvAddresses (replaced_contents spec cs) (row_Name row) 0) })"

definition address_lines :: "string \<Rightarrow> string_map \<Rightarrow> string" where
  "address_lines heading addresses = concat (map (\<lambda>k.
     [CHR 0x0A] @ heading @ k @ ''='' @ (case map_of addresses k of None \<Rightarrow> [] | Some v \<Rightarrow> v))
     (sort (map fst addresses)))"

definition slotHash :: "config \<Rightarrow> database_Workload \<Rightarrow> int \<Rightarrow> (goerr + string) op" where
  "slotHash r row i =
     (if \<not> cfg_env r \<or> (\<not> reads_workload (row_Spec row) \<and> \<not> expands_file (row_Spec row))
      then ret (Inr (row_SpecHash row))
      else case DecodeWorkload (cfg_unmarshal r) (row_Spec row) of
        Inl e \<Rightarrow> ret (Inl e)
      | Inr spec \<Rightarrow> do {
          addresses \<leftarrow> ask (cfg_strings r) (EnvAddresses (spec_Env spec) (row_Name row) i);
          case addresses of
            Inl e \<Rightarrow> ret (Inl e)
          | Inr as \<Rightarrow> do {
              mounted \<leftarrow> mountedAddresses r row spec;
              case mounted of
                Inl e \<Rightarrow> ret (Inl e)
              | Inr ms \<Rightarrow>
                  if as = [] \<and> ms = [] then ret (Inr (row_SpecHash row))
                  else ret (Inr (cfg_sha256_hex r (row_SpecHash row
                    @ address_lines [] as @ address_lines ''mounted '' ms))) } })"

section \<open>Starting\<close>

text \<open>An error of \<open>NewWorkload\<close> carries its own message; the refused path is named by its constructor.\<close>

definition host_path_text :: "host_path_error \<Rightarrow> string" where
  "host_path_text e = (case e of
       ErrResolve p f \<Rightarrow> ''failed to resolve '' @ p
     | ErrResolvePrefix p f \<Rightarrow> ''failed to resolve allowed prefix '' @ p
     | ErrHostPathDenied p \<Rightarrow> ''host path not allowed: '' @ p
     | ErrHostPathReadOnly p q \<Rightarrow> ''host path is read only: '' @ p
     | ErrHostPathNotFile p q \<Rightarrow> ''host path is not a file: '' @ p
     | ErrRelativePrefix p \<Rightarrow> ''host path prefix is not absolute: '' @ p)"

definition of_workload_error :: "workload_error \<Rightarrow> goerr" where
  "of_workload_error e = (case e of
       DecodeFailed g \<Rightarrow> g | HostPathFailed h \<Rightarrow> ErrMsg (host_path_text h))"

definition abandonPorts :: "config \<Rightarrow> database_Workload \<Rightarrow> int \<Rightarrow> unit op" where
  "abandonPorts r row i =
     (if \<not> cfg_reallocate r then ret ()
      else do {
        held \<leftarrow> slotPorts row i;
        bound \<leftarrow> taken_ports r held;
        if \<not> bound then ret ()
        else do {
          moved \<leftarrow> ask (cfg_moved r) (Reallocate (row_Name row) i);
          case moved of
            Inl e \<Rightarrow> ret ()
          | Inr changed \<Rightarrow>
              if changed then record_event r (row_Name row) PortsAbandoned
                  (no_fields\<lparr>f_Instance := i, f_Ports := hostPorts held\<rparr>)
              else ret () } })"

definition start_env ::
  "config \<Rightarrow> database_Workload \<Rightarrow> driver_Workload \<Rightarrow> (goerr + driver_Workload) op" where
  "start_env r row w =
     (if \<not> cfg_env r then ret (Inr w)
      else do {
        env \<leftarrow> ask (cfg_strings r) (EnvResolve (dw_Env w) (row_ID row) (dw_Name w) (dw_Instance w));
        case env of
          Inl e \<Rightarrow> ret (Inl (Wrapf ''failed to resolve environment for workload'' [e]))
        | Inr m \<Rightarrow> ret (Inr (w\<lparr>dw_Env := m\<rparr>)) })"

definition start_mounts ::
  "config \<Rightarrow> database_Workload \<Rightarrow> driver_Workload \<Rightarrow> (goerr + driver_Workload) op" where
  "start_mounts r row w =
     (if \<not> cfg_mounts r then ret (Inr w)
      else do {
        mounted \<leftarrow> ask (cfg_volumes r) (MountsDeliver (row_ID row) (row_Version row) (dw_Spec w));
        case mounted of
          Inl e \<Rightarrow> ret (Inl (Wrapf ''failed to deliver mounted values for workload'' [e]))
        | Inr vs \<Rightarrow> ret (Inr (w\<lparr>dw_Volumes := dw_Volumes w @ vs\<rparr>)) })"

definition launch ::
  "config \<Rightarrow> database_Workload \<Rightarrow> int \<Rightarrow> Reason \<Rightarrow> string \<Rightarrow> driver_Workload \<Rightarrow> reconciler action" where
  "launch r row i reason d w = do {
     err \<leftarrow> ask (cfg_error r) (DriverStart d w);
     markPulling (row_Name row) i (case err of None \<Rightarrow> False | Some e \<Rightarrow> errors_Is e ErrImagePulling);
     case err of
       Some e \<Rightarrow>
         if errors_Is e ErrImagePulling then do {
           record_event r (row_Name row) ImagePulling (no_fields\<lparr>f_Reference := imageOf (dw_Spec w)\<rparr>);
           ret None }
         else do {
           abandonPorts r row i;
           ret (Some (Wrapf ''failed to start workload'' [e])) }
     | None \<Rightarrow> do {
         record_event r (row_Name row) reason (no_fields\<lparr>f_Instance := i\<rparr>);
         markStarted (row_Name row) i (row_Version row);
         ret None } }"

definition start_on ::
  "config \<Rightarrow> database_Workload \<Rightarrow> int \<Rightarrow> Reason \<Rightarrow> string \<Rightarrow> driver_Workload \<Rightarrow> reconciler action" where
  "start_on r row i reason d w = do {
     resolved \<leftarrow> start_env r row w;
     case resolved of
       Inl e \<Rightarrow> ret (Some e)
     | Inr w1 \<Rightarrow> do {
         delivered \<leftarrow> start_mounts r row w1;
         case delivered of
           Inl e \<Rightarrow> ret (Some e)
         | Inr w2 \<Rightarrow> launch r row i reason d w2 } }"

definition start :: "config \<Rightarrow> database_Workload \<Rightarrow> int \<Rightarrow> Reason \<Rightarrow> reconciler action" where
  "start r row i reason = do {
     fs \<leftarrow> gets (\<lambda>s. cfg_fs r (rs_trace s));
     case NewWorkload (cfg_unmarshal r) fs row (cfg_hostPaths r) of
       Inl e \<Rightarrow> ret (Some (of_workload_error e))
     | Inr w0 \<Rightarrow> do {
         ports \<leftarrow> slotPorts row i;
         let w1 = w0\<lparr>dw_Instance := i\<rparr>;
         let w2 = (if i > 0 then w1\<lparr>dw_Ports := driverPorts ports\<rparr> else w1);
         hash \<leftarrow> slotHash r row i;
         case hash of
           Inl e \<Rightarrow> ret (Some (Wrapf ''failed to resolve the instance's expected hash'' [e]))
         | Inr hs \<Rightarrow>
             (case driverFor r row of
                None \<Rightarrow> ret None
              | Some d \<Rightarrow> start_on r row i reason d (w2\<lparr>dw_SpecHash := hs\<rparr>)) } }"

definition startAll :: "config \<Rightarrow> database_Workload \<Rightarrow> int \<Rightarrow> reconciler action" where
  "startAll r row count = each_err [0..count - 1] (\<lambda>i. start r row i InstanceStarted)"

section \<open>Stopping\<close>

definition forget :: "config \<Rightarrow> string \<Rightarrow> unit op" where
  "forget r w = (if cfg_checker r then tell (CheckerForget w) else ret ())"

definition forget_instance :: "config \<Rightarrow> string \<Rightarrow> int \<Rightarrow> unit op" where
  "forget_instance r w i = (if cfg_checker r then tell (CheckerForgetInstance w i) else ret ())"

definition on_runtime :: "string \<Rightarrow> string \<Rightarrow> string" where
  "on_runtime what d = ''failed to '' @ what @ '' on the '' @ d @ '' runtime''"

definition stop :: "config \<Rightarrow> database_Workload \<Rightarrow> reconciler action" where
  "stop r row = (case driverFor r row of
       None \<Rightarrow> do { forget r (row_Name row); ret None }
     | Some d \<Rightarrow> check_err
         (wrap_err (on_runtime ''stop workload'' d)
           (ask (cfg_error r) (DriverStop d (row_ID row) (row_Name row))))
         (do { forget r (row_Name row); ret None }))"

definition revoke_instance :: "config \<Rightarrow> database_Workload \<Rightarrow> int \<Rightarrow> reconciler action" where
  "revoke_instance r row i = (if \<not> cfg_tokens r then ret None
     else wrap_err ''failed to revoke instance tokens''
       (ask (cfg_error r) (TokensRevokeForInstance (row_ID row) i)))"

definition stopInstance :: "config \<Rightarrow> database_Workload \<Rightarrow> int \<Rightarrow> reconciler action" where
  "stopInstance r row i = (case driverFor r row of
       None \<Rightarrow> ret None
     | Some d \<Rightarrow> check_err
         (wrap_err (on_runtime ''stop instance'' d)
           (ask (cfg_error r) (DriverStopInstance d (row_ID row) (row_Name row) i)))
         (check_err (revoke_instance r row i)
           (do { forget_instance r (row_Name row) i; ret None })))"

definition forget_slot :: "slot \<Rightarrow> unit op" where
  "forget_slot key = modify (\<lambda>s. s\<lparr>rs_backoff := (rs_backoff s)(key := None),
     rs_exits := (rs_exits s)(key := None), rs_verdicts := (rs_verdicts s)(key := None),
     rs_unhealthy := (rs_unhealthy s)(key := None), rs_started := (rs_started s)(key := None),
     rs_held := (rs_held s)(key := None), rs_pulling := (rs_pulling s)(key := None),
     rs_replacing := (rs_replacing s)(key := None)\<rparr>)"

definition discardInstance :: "config \<Rightarrow> database_Workload \<Rightarrow> int \<Rightarrow> reconciler action" where
  "discardInstance r row i = (case driverFor r row of
       None \<Rightarrow> ret None
     | Some d \<Rightarrow> check_err
         (wrap_err (on_runtime ''discard instance'' d)
           (ask (cfg_error r) (DriverDiscardInstance d (row_ID row) (row_Name row) i)))
         (check_err (revoke_instance r row i)
           (do { forget_slot (Slot (row_Name row) i); forget_instance r (row_Name row) i; ret None })))"

definition discard :: "config \<Rightarrow> database_Workload \<Rightarrow> reconciler action" where
  "discard r row = (case driverFor r row of
       None \<Rightarrow> ret None
     | Some d \<Rightarrow> wrap_err (on_runtime ''discard workload'' d)
         (ask (cfg_error r) (DriverDiscard d (row_ID row) (row_Name row))))"

definition stopOrphan :: "config \<Rightarrow> string \<Rightarrow> reconciler action" where
  "stopOrphan r w = check_err
     (each_err (cfg_drivers r) (\<lambda>d. wrap_err (on_runtime ''stop workload'' d)
        (ask (cfg_error r) (DriverDiscard d [] w))))
     (do { forget r w; ret None })"

definition forget_mounts :: "config \<Rightarrow> database_Workload \<Rightarrow> reconciler action" where
  "forget_mounts r row = (if \<not> cfg_mounts r then ret None
     else wrap_err ''failed to remove mounted values''
       (ask (cfg_error r) (MountsForget (row_ID row))))"

definition revoke_workload :: "config \<Rightarrow> database_Workload \<Rightarrow> reconciler action" where
  "revoke_workload r row = (if \<not> cfg_tokens r then ret None
     else wrap_err ''failed to revoke workload tokens''
       (ask (cfg_error r) (TokensRevokeForWorkload (row_ID row))))"

definition forget_deleted :: "database_Workload \<Rightarrow> unit op" where
  "forget_deleted row = do {
     settleAll (row_Name row);
     forgetStarted (row_Name row);
     forgetReclaimed (row_ID row);
     restartRequested (row_Name row);
     forgetReplacing (row_Name row) }"

definition teardown :: "config \<Rightarrow> database_Workload \<Rightarrow> Instance list \<Rightarrow> reconciler action" where
  "teardown r row is =
     (if is \<noteq> [] then
        (if list_ex terminating is then ret None
         else wrap_err ''failed to stop deleted workload'' (discard r row))
      else
        check_err (discard r row)
        (check_err (forget_mounts r row)
        (check_err (revoke_workload r row)
        (check_err (wrap_err ''failed to delete workload''
            (ask (cfg_error r) (WorkloadsDelete (row_Name row))))
          (do { forget_deleted row; ret None })))))"

definition suspend :: "config \<Rightarrow> database_Workload \<Rightarrow> Instance list \<Rightarrow> reconciler action" where
  "suspend r row is =
     (if list_ex terminating is then ret None
      else if list_ex running is then stop r row
      else
        check_err (forget_mounts r row)
        (check_err (revoke_workload r row)
        (do {
           settleAll (row_Name row);
           restartRequested (row_Name row);
           forgetReplacing (row_Name row);
           ret None })))"

section \<open>Paced starts\<close>

text \<open>A start that failed is held off and the hold is recorded.\<close>

definition pace ::
  "config \<Rightarrow> database_Workload \<Rightarrow> int \<Rightarrow> Restart \<Rightarrow> goerr \<Rightarrow> reconciler action" where
  "pace r row i policy err = do {
     b \<leftarrow> hold r (row_Name row) i policy;
     paced r (row_Name row) b err;
     ret (Some (Wrapf [] [errPaced, err])) }"

definition attempt :: "config \<Rightarrow> database_Workload \<Rightarrow> int \<Rightarrow> reconciler action" where
  "attempt r row i = do {
     wait \<leftarrow> waiting r (row_Name row) i;
     if wait then ret None
     else do {
       err \<leftarrow> start r row i InstanceStarted;
       case err of
         Some e \<Rightarrow> pace r row i (restartPolicy r row) e
       | None \<Rightarrow> do { settle (row_Name row) i; ret None } } }"

definition give_up :: "config \<Rightarrow> database_Workload \<Rightarrow> int \<Rightarrow> unit op" where
  "give_up r row i = do {
     first \<leftarrow> giveUp (row_Name row) i;
     if first then do {
       n \<leftarrow> attempts (row_Name row) i;
       record_event r (row_Name row) RestartGaveUp (no_fields\<lparr>f_Instance := i, f_Count := n\<rparr>) }
     else ret () }"

definition restart ::
  "config \<Rightarrow> database_Workload \<Rightarrow> int \<Rightarrow> Instance list \<Rightarrow> Reason \<Rightarrow> reconciler action" where
  "restart r row i is reason = do {
     wait \<leftarrow> waiting r (row_Name row) i;
     if wait then ret None
     else do {
       let policy = restartPolicy r row;
       n \<leftarrow> attempts (row_Name row) i;
       if \<not> Restarts policy (failureCodeOf is) n then do { give_up r row i; ret None }
       else
         check_err (wrap_err ''failed to clear stopped instance'' (stopInstance r row i))
         (do {
            err \<leftarrow> start r row i reason;
            case err of
              Some e \<Rightarrow> pace r row i policy e
            | None \<Rightarrow> do { b \<leftarrow> hold r (row_Name row) i policy; ret None } }) } }"

end
