(* ===== verification/Reconciler_Health.thy ===== *)
theory Reconciler_Health
  imports Reconciler_Ops
begin

text \<open>
  How the reconciler uses health checks (\<open>health.go\<close>): which check each instance is registered with,
  how a verdict changes the state an instance is read in, which edges of a verdict are recorded, and how
  an ending is recorded once. The probe function of a command check is left out, as a check's equality
  leaves it out.
\<close>

section \<open>Registering checks\<close>

definition probeHost :: "(string \<Rightarrow> bool option) \<Rightarrow> string \<Rightarrow> string" where
  "probeHost unspecified addr = (case unspecified addr of
       None \<Rightarrow> ''127.0.0.1'' | Some u \<Rightarrow> if u then ''127.0.0.1'' else addr)"

definition healthPort :: "Health \<Rightarrow> database_Port list \<Rightarrow> goerr + int" where
  "healthPort check ports =
     (case filter (\<lambda>p. prt_Protocol p \<noteq> ProtocolUDP) ports of
        [] \<Rightarrow> Inl (ErrMsg ''workload publishes no tcp port to check'')
      | p # ps \<Rightarrow>
          if hl_Port check = [] then Inr (prt_Host p)
          else (case find (\<lambda>q. PortRef_Matches (hl_Port check) (prt_Name q) (prt_Container q)) (p # ps) of
                  Some q \<Rightarrow> Inr (prt_Host q)
                | None \<Rightarrow> Inl (ErrMsg (''port '' @ hl_Port check
                    @ '' is not published by the workload over tcp''))))"

definition healthCheck :: "config \<Rightarrow> database_Workload \<Rightarrow> int \<Rightarrow> (goerr + Check option) op" where
  "healthCheck r row i = (case DecodeWorkload (cfg_unmarshal r) (row_Spec row) of
       Inl e \<Rightarrow> ret (Inl e)
     | Inr spec \<Rightarrow>
         (case spec_Health spec of
            None \<Rightarrow> ret (Inr None)
          | Some h \<Rightarrow>
              (let check = \<lparr>chk_Address = [], chk_HTTP = [], chk_Command = [],
                     chk_Interval = hl_Interval h, chk_Timeout = hl_Timeout h,
                     chk_Retries = hl_Retries h, chk_StartPeriod = hl_StartPeriod h\<rparr>
               in if hl_Command h \<noteq> [] then
                    (case driverFor r row of
                       None \<Rightarrow> ret (Inl (ErrMsg (''no driver for the '' @ row_Runtime row @ '' runtime'')))
                     | Some d \<Rightarrow> ret (Inr (Some (check\<lparr>chk_Command := hl_Command h\<rparr>))))
                  else do {
                    ports \<leftarrow> slotPorts row i;
                    case healthPort h ports of
                      Inl e \<Rightarrow> ret (Inl e)
                    | Inr host \<Rightarrow> ret (Inr (Some (check\<lparr>
                        chk_Address := JoinHostPort (probeHost (cfg_unspecified r) (cfg_bind r)) (Itoa host),
                        chk_HTTP := hl_HTTP h\<rparr>))) })))"

fun any_checkFailed :: "string \<Rightarrow> int \<Rightarrow> Instance list \<Rightarrow> bool op" where
  "any_checkFailed w i [] = ret False"
| "any_checkFailed w i (x # xs) = do {
     f \<leftarrow> checkFailed w i (inst_ID x);
     if f then ret True else any_checkFailed w i xs }"

definition checkable :: "database_Workload \<Rightarrow> int \<Rightarrow> Instance list \<Rightarrow> bool op" where
  "checkable row i is = (if list_ex running is then ret True else any_checkFailed (row_Name row) i is)"

definition register_slot :: "config \<Rightarrow> database_Workload \<Rightarrow> int \<Rightarrow> Instance list \<Rightarrow> unit op" where
  "register_slot r row i is = do {
     check \<leftarrow> healthCheck r row i;
     case check of
       Inl e \<Rightarrow> ret ()
     | Inr None \<Rightarrow> tell (CheckerForgetInstance (row_Name row) i)
     | Inr (Some c) \<Rightarrow>
         if \<not> IsZero (row_DeletedAt row) \<or> \<not> IsZero (row_SuspendedAt row)
         then tell (CheckerForgetInstance (row_Name row) i)
         else do {
           ok \<leftarrow> checkable row i is;
           if ok then tell (CheckerSet (row_Name row) i c)
           else tell (CheckerForgetInstance (row_Name row) i) } }"

definition at_index :: "Instance list \<Rightarrow> int \<Rightarrow> Instance list" where
  "at_index is i = filter (\<lambda>x. inst_Index x = i) is"

definition register ::
  "config \<Rightarrow> database_Workload list \<Rightarrow> (string \<Rightarrow> Instance list) \<Rightarrow> string set \<Rightarrow> unit op" where
  "register r rows observed unobserved =
     (if \<not> cfg_checker r \<or> \<not> cfg_ports r then ret ()
      else each rows (\<lambda>row.
        if row_Runtime row \<in> unobserved then ret ()
        else each [0..countOf r row - 1]
          (\<lambda>i. register_slot r row i (at_index (observed (row_Name row)) i))))"

section \<open>Reading verdicts\<close>

definition health_edge :: "config \<Rightarrow> Instance \<Rightarrow> Result \<Rightarrow> unit op" where
  "health_edge r i result = do {
     (previous, changed) \<leftarrow> verdict (inst_Workload i) (inst_Index i) (hr_Status result);
     if \<not> changed then ret ()
     else if hr_Status result = StatusUnhealthy then
       record_event r (inst_Workload i) HealthCheckFailing
         (no_fields\<lparr>f_Instance := inst_Index i, f_Count := hr_Failures result,
                    f_Error := hr_Error result\<rparr>)
     else if hr_Status result = StatusHealthy \<and> previous = Some StatusUnhealthy then
       record_event r (inst_Workload i) HealthCheckRecovered (no_fields\<lparr>f_Instance := inst_Index i\<rparr>)
     else ret () }"

definition checked :: "config \<Rightarrow> Instance \<Rightarrow> Instance op" where
  "checked r i =
     (if \<not> cfg_checker r \<or> inst_State i \<noteq> StateRunning then ret i
      else do {
        result \<leftarrow> ask (cfg_result r) (CheckerResult (inst_Workload i) (inst_Index i));
        case result of
          None \<Rightarrow> ret i
        | Some res \<Rightarrow> do {
            health_edge r i res;
            case hr_Status res of
              StatusUnhealthy \<Rightarrow> do { failCheck i; ret (i\<lparr>inst_State := StateFailed\<rparr>) }
            | StatusStarting \<Rightarrow> ret (i\<lparr>inst_State := StatePending\<rparr>)
            | StatusHealthy \<Rightarrow> ret i } })"

section \<open>Endings\<close>

definition ended ::
  "config \<Rightarrow> database_Workload \<Rightarrow> int \<Rightarrow> Instance list \<Rightarrow> Reason \<Rightarrow> unit op" where
  "ended r row i is reason = (case lastEnded is of
       None \<Rightarrow> ret ()
     | Some last_one \<Rightarrow> do {
         first \<leftarrow> firstSighting (row_Name row) i (inst_ID last_one);
         if \<not> first then ret ()
         else do {
           byCheck \<leftarrow> checkFailed (row_Name row) i (inst_ID last_one);
           if byCheck then do {
             result \<leftarrow> ask (cfg_result r) (CheckerResult (row_Name row) i);
             let res = (case result of None \<Rightarrow> new_Result | Some x \<Rightarrow> x);
             record_event r (row_Name row) InstanceUnhealthy
               (no_fields\<lparr>f_Instance := i, f_Count := hr_Failures res, f_Error := hr_Error res\<rparr>) }
           else record_event r (row_Name row) reason
             (no_fields\<lparr>f_Instance := i, f_ExitCode := Some (inst_ExitCode last_one)\<rparr>) } })"

end
