(* ===== verification/Validated_Specs.thy ===== *)
theory Validated_Specs
  imports Manifest_Validation Ports Reconciler_Health
begin

text \<open>
  What the other components get from validation: the ports of an accepted specification can be settled
  on host ports and recorded, and its health check can be performed against one of them.
\<close>

section \<open>Ports\<close>

lemma protocolOf_wf: "wf_port p \<Longrightarrow> protocolOf p = port_Protocol p"
  by (auto simp: wf_port_def protocolOf_def)

lemma wf_ports_protocol: "wf_ports ps \<Longrightarrow> p \<in> set ps \<Longrightarrow> protocolOf p = port_Protocol p"
  by (auto simp: wf_ports_def list_all_iff intro: protocolOf_wf)

lemma wf_ports_valid_mappings:
  assumes "wf_ports ps"
  shows "valid_mappings ps"
proof -
  have "map mapping_key ps = map ((\<lambda>(c, p). PortKey c p) \<circ> to_key) ps"
    using assms by (simp add: to_key_def wf_ports_protocol)
  then have "distinct (map mapping_key ps)"
    using assms by (auto simp: wf_ports_def distinct_map inj_on_def to_key_def)
  moreover have "map pin_of (filter (\<lambda>m. port_From m \<noteq> 0) ps)
      = map host_key (filter (\<lambda>m. port_From m \<noteq> 0) ps)"
    using assms by (auto simp: pin_of_def host_key_def wf_ports_protocol)
  ultimately show ?thesis using assms unfolding valid_mappings_def wf_ports_def by argo
qed

lemma wf_spec_pinned: "wf_spec ps spec \<Longrightarrow> Pinned (spec_Ports spec) \<Longrightarrow> spec_Count spec = 1"
  by (auto simp: wf_spec_def wf_common_def wf_spec_ports_def Pinned_iff list_all_iff list_ex_iff
      intro: antisym)

text \<open>Settling the instances reports other errors than the one for pinned instances.\<close>

lemma allocate_groups_not_pinned: "allocate_groups f gs order k t as \<noteq> Inl (ErrPinnedInstances n)"
  by (induction order arbitrary: k t as) (auto simp: Let_def split: sum.splits)

lemma resolve_mappings_not_pinned: "resolve_mappings c w held as i ms \<noteq> Inl (ErrPinnedInstances n)"
  by (induction ms) (auto simp: claimer_resolve_def Let_def split: sum.splits if_splits option.splits)

lemma resolve_instances_not_pinned: "resolve_instances c w existing ms k t is \<noteq> Inl (ErrPinnedInstances n)"
  using allocate_groups_not_pinned resolve_mappings_not_pinned
  by (induction "is" arbitrary: k t)
    (fastforce simp: claimer_allocate_def Let_def split_beta split: sum.splits)+

text \<open>The claims of one instance name the ports of the specification.\<close>

abbreviation claim_face :: "Claim \<Rightarrow> string \<times> int \<times> Protocol" where
  "claim_face d \<equiv> (clm_Name d, clm_Container d, clm_Protocol d)"

abbreviation port_face :: "Port \<Rightarrow> string \<times> int \<times> Protocol" where
  "port_face m \<equiv> (port_Name m, port_To m, protocolOf m)"

lemma claims_of_face:
  "length allocss = length is \<Longrightarrow> i \<in> set is \<Longrightarrow>
     claim_face ` {d \<in> set (claims_of existing ms is allocss). clm_Instance d = i} = port_face ` set ms"
proof (induction "is" arbitrary: allocss)
  case (Cons j js)
  then obtain a as where as: "allocss = a # as" "length as = length js" by (cases allocss) auto
  let ?rest = "claims_of existing ms js as"
  have split: "claims_of existing ms (j # js) allocss = map (claim_for (heldBy existing j) a j) ms @ ?rest"
    by (simp add: claims_of_def as)
  have sub: "claim_face ` {d \<in> set ?rest. clm_Instance d = i} \<subseteq> port_face ` set ms"
    by (auto simp: claims_of_def)
  have IH: "claim_face ` {d \<in> set ?rest. clm_Instance d = i} = port_face ` set ms" if "i \<noteq> j"
    using Cons.IH [OF as(2)] Cons.prems that by simp
  show ?case
  proof (cases "i = j")
    case True
    then have "{d \<in> set (claims_of existing ms (j # js) allocss). clm_Instance d = i}
        = claim_for (heldBy existing j) a j ` set ms \<union> {d \<in> set ?rest. clm_Instance d = i}"
      unfolding split by auto
    then show ?thesis using sub by (simp add: image_Un image_image) blast
  next
    case False
    then have "{d \<in> set (claims_of existing ms (j # js) allocss). clm_Instance d = i}
        = {d \<in> set ?rest. clm_Instance d = i}"
      unfolding split by auto
    then show ?thesis using IH [OF False] by simp
  qed
qed simp

lemma Resolve_face:
  assumes "claimer_Resolve c w existing ms count = Inr claims" "0 \<le> i" "i < count"
  shows "claim_face ` {d \<in> set claims. clm_Instance d = i} = port_face ` set ms"
proof -
  obtain n t where "resolve_instances c w existing ms n t [0..count - 1] = Inr claims"
    using assms(1) by (auto simp: claimer_Resolve_def split: if_splits sum.splits)
  from resolve_instances_claims [OF this] show ?thesis using claims_of_face assms(2,3) by force
qed

section \<open>Health checks\<close>

abbreviation row_face :: "database_Port \<Rightarrow> string \<times> int \<times> Protocol" where
  "row_face r \<equiv> (prt_Name r, prt_Container r, prt_Protocol r)"

lemma healthPort_found:
  assumes "\<forall>r\<in>set rows. prt_Protocol r \<in> {ProtocolTCP, ProtocolUDP}" "r \<in> set rows"
    and "prt_Protocol r = ProtocolTCP"
    and "hl_Port h = [] \<or> PortRef_Matches (hl_Port h) (prt_Name r) (prt_Container r)"
  shows "\<exists>q\<in>set rows. healthPort h rows = Inr (prt_Host q) \<and> prt_Protocol q = ProtocolTCP
    \<and> (hl_Port h = [] \<or> PortRef_Matches (hl_Port h) (prt_Name q) (prt_Container q))"
proof -
  let ?tcp = "filter (\<lambda>p. prt_Protocol p \<noteq> ProtocolUDP) rows"
  have mem: "q \<in> set rows \<and> prt_Protocol q = ProtocolTCP" if "q \<in> set ?tcp" for q
    using assms(1) that by auto
  have r: "r \<in> set ?tcp" using assms(2,3) by simp
  then obtain p ps where tcp: "?tcp = p # ps" by (cases ?tcp) auto
  show ?thesis
  proof (cases "hl_Port h = []")
    case True
    then show ?thesis using tcp mem [of p] by (auto simp: healthPort_def)
  next
    case False
    let ?m = "\<lambda>q. PortRef_Matches (hl_Port h) (prt_Name q) (prt_Container q)"
    obtain q where q: "find ?m ?tcp = Some q"
      using r assms(4) False by (cases "find ?m ?tcp") (auto simp: find_None_iff)
    then have "q \<in> set ?tcp" "?m q" using find_SomeD by fastforce+
    then show ?thesis using False q tcp mem [of q] by (auto simp: healthPort_def simp del: find.simps)
  qed
qed

lemma wf_health_selected:
  assumes "wf_spec ps spec" "spec_Health spec = Some h" "hl_Command h = []"
  shows "\<exists>p\<in>set (spec_Ports spec). selects h p \<and> (\<forall>q\<in>set (spec_Ports spec). selects h q \<longrightarrow> q = p)"
proof -
  have wf: "wf_health spec h" using assms(1,2) by (simp add: wf_spec_def wf_common_def)
  then obtain p where p: "p \<in> set (spec_Ports spec)" "selects h p"
    using assms(3) by (auto simp: wf_health_def wf_probe_def list_ex_iff)
  then show ?thesis using selects_unique [OF wf_spec_ports [OF assms(1)] wf assms(3)] by blast
qed

section \<open>Properties\<close>

text \<open>
  A check of an accepted specification has a port to be performed at. Once the ports are settled, the
  reconciler's \<open>healthPort\<close> answers, for every instance, the host port of the one published TCP port the
  check selects, by its name or its number or because there is only one; the error branch is never taken.
\<close>

lemma validated_check_has_port:
  assumes "ValidateWorkload ps spec = None" "spec_Health spec = Some h" "hl_Command h = []"
    and "claimer_Resolve c w existing (spec_Ports spec) (spec_Count spec) = Inr claims"
    and "0 \<le> i" "i < spec_Count spec"
    and "rows = filter (\<lambda>r. prt_Instance r = i) (allocations_rows claims wid)"
  shows "\<exists>p\<in>set (spec_Ports spec). selects h p \<and> (\<forall>q\<in>set (spec_Ports spec). selects h q \<longrightarrow> q = p)
    \<and> (\<exists>r\<in>set rows. row_face r = port_face p \<and> healthPort h rows = Inr (prt_Host r))"
proof -
  have wf: "wf_spec ps spec" using assms(1) by (simp add: ValidateWorkload_None)
  note ports = wf_spec_ports [OF wf]
  obtain p where p: "p \<in> set (spec_Ports spec)" "selects h p"
    and only: "\<forall>q\<in>set (spec_Ports spec). selects h q \<longrightarrow> q = p"
    using wf_health_selected [OF wf assms(2,3)] by blast
  have "set rows = claim_row wid ` {d \<in> set claims. clm_Instance d = i}"
    by (auto simp: assms(7) allocations_rows_def claim_row_def)
  then have "row_face ` set rows = claim_face ` {d \<in> set claims. clm_Instance d = i}"
    by (simp add: image_image claim_row_def)
  then have face: "row_face ` set rows = port_face ` set (spec_Ports spec)"
    using Resolve_face [OF assms(4-6)] by simp
  have of_port: "\<exists>q\<in>set (spec_Ports spec). row_face r = port_face q" if "r \<in> set rows" for r
    proof -
    have "row_face r \<in> port_face ` set (spec_Ports spec)" using imageI [OF that, of row_face] unfolding face .
    then show ?thesis by (elim imageE) blast
  qed
  have tcp: "port_Protocol q \<in> {ProtocolTCP, ProtocolUDP} \<and> protocolOf q = port_Protocol q"
    if "q \<in> set (spec_Ports spec)" for q
    using ports that wf_ports_protocol [OF ports that] by (auto simp: wf_ports_def list_all_iff wf_port_def)
  obtain r where r: "r \<in> set rows" "row_face r = port_face p"
    using imageI [OF p(1), of port_face] unfolding face [symmetric] by (elim imageE) simp
  have "\<forall>r\<in>set rows. prt_Protocol r \<in> {ProtocolTCP, ProtocolUDP}" using of_port tcp by (metis prod.inject)
  then obtain s where s: "s \<in> set rows" "healthPort h rows = Inr (prt_Host s)" "prt_Protocol s = ProtocolTCP"
    "hl_Port h = [] \<or> PortRef_Matches (hl_Port h) (prt_Name s) (prt_Container s)"
    using healthPort_found [of rows r h] r p(2) tcp [OF p(1)] by (auto simp: selects_def)
  obtain q where q: "q \<in> set (spec_Ports spec)" "row_face s = port_face q" using of_port [OF s(1)] by blast
  then have "selects h q" using s(3,4) tcp [OF q(1)] by (auto simp: selects_def)
  then have "row_face s = port_face p" using only q by blast
  then show ?thesis using p only s(1,2) by blast
qed

definition example_parsers :: parsers where
  "example_parsers = \<lparr>ps_cron = (\<lambda>s. True), ps_RAMInBytes = (\<lambda>s. Some 1), ps_image = (\<lambda>s. True)\<rparr>"

definition example_check :: Health where
  "example_check = \<lparr>hl_HTTP = [], hl_TCP = True, hl_Command = [], hl_Port = ''443'',
     hl_Interval = 10 * Second, hl_Timeout = 2 * Second, hl_Retries = 3, hl_StartPeriod = 0\<rparr>"

definition example_container :: Container where
  "example_container = \<lparr>con_Image = ''nginx'', con_Pull = PullPolicyOther [], con_Command = [],
     con_Entrypoint = [], con_User = [], con_ReadOnly = False, con_CapAdd = [], con_CapDrop = [],
     con_PidMode = [], con_NetworkMode = [], con_Tmpfs = [''/tmp''], con_ShmSize = [], con_Devices = []\<rparr>"

definition example_web :: Spec where
  "example_web = \<lparr>spec_Version = ''v1'', spec_Name = ''web'', spec_Count = 1, spec_Schedule = None,
     spec_Labels = [(''app'', ''web'')], spec_Ports = [example_port 80 0, example_port 443 0], spec_Env = [],
     spec_Volumes = [example_mount], spec_Restart = None, spec_Health = Some example_check,
     spec_Resources = None, spec_Logs = None, spec_StopTimeout = 0,
     spec_Container = Some example_container, spec_Exec = None\<rparr>"

lemma example_web_valid: "ValidateWorkload example_parsers example_web = None"
  by code_simp

lemma example_web_simps:
  "spec_Health example_web = Some example_check" "hl_Command example_check = []" "spec_Count example_web = 1"
  "spec_Ports example_web = [example_port 80 0, example_port 443 0]"
  by (simp_all add: example_web_def example_check_def)

abbreviation example_claims :: "Claim list" where
  "example_claims \<equiv> [\<lparr>clm_Instance = 0, clm_Name = [], clm_Container = 80, clm_Host = 20000,
           clm_Protocol = ProtocolTCP, clm_Dynamic = True\<rparr>,
          \<lparr>clm_Instance = 0, clm_Name = [], clm_Container = 443, clm_Host = 20001,
           clm_Protocol = ProtocolTCP, clm_Dynamic = True\<rparr>]"

lemma example_web_resolve:
  "claimer_Resolve (table_claimer example_Allocate None example_names [example_row]) ''web''
     (heldClaims (table_List [example_row] ''id1'')) (spec_Ports example_web) (spec_Count example_web)
   = Inr example_claims"
  unfolding example_web_simps by (rule example_resolve)

text \<open>
  C4. The ports of an accepted specification can be settled and recorded. It is never refused for pinning
  a port with more than one instance, and what \<open>Resolve\<close> settles for it, against a table that satisfies
  its constraints, the table accepts without a collision, whatever the random draws were: the table still
  satisfies its constraints, the workload's rows are exactly its claims and every other workload's rows
  are untouched; provided that no mapping pins a port the same workload keeps for another mapping.
\<close>

theorem validated_ports_stored:
  assumes "ValidateWorkload ps spec = None" "table_ok t" "named_by names t wid w"
    and "\<forall>i. 0 \<le> i \<and> i < spec_Count spec
           \<longrightarrow> no_self_pin (heldClaims (table_List t wid)) (spec_Ports spec) i"
    and "claimer_Resolve (table_claimer (Allocate a draw avail) probe names t) w
           (heldClaims (table_List t wid)) (spec_Ports spec) (spec_Count spec) = answer"
  shows "answer \<noteq> Inl (ErrPinnedInstances (spec_Count spec))
    \<and> (\<forall>claims. answer = Inr claims \<longrightarrow>
        (\<exists>t'. table_Claim wid (allocations_rows claims []) t = (None, t') \<and> table_ok t'
          \<and> t' = table_Release wid t @ allocations_rows claims wid))"
proof -
  have wf: "wf_spec ps spec" using assms(1) by (simp add: ValidateWorkload_None)
  have "\<not> (1 < spec_Count spec \<and> Pinned (spec_Ports spec))" using wf_spec_pinned [OF wf] by auto
  then have "answer \<noteq> Inl (ErrPinnedInstances (spec_Count spec))"
    using assms(5) resolve_instances_not_pinned
    by (auto simp: claimer_Resolve_def table_claimer_def table_Allocated_def)
  then show ?thesis
    using Resolve_Claim_fits [OF assms(2,3) wf_ports_valid_mappings [OF wf_spec_ports [OF wf]] assms(4)] assms(5)
    by blast
qed

theorem validated_ports_stored_witness:
  "\<exists>t'. table_Claim ''id1'' (allocations_rows example_claims []) [example_row] = (None, t') \<and> table_ok t'"
  using validated_ports_stored [OF example_web_valid example_table_ok example_named_by _ example_web_resolve]
  unfolding example_web_simps
  by (simp only: example_no_self_pin simp_thms sum.inject) blast

end
