(* ===== verification/Reconciler_Readiness.thy ===== *)
theory Reconciler_Readiness
  imports Reconciler_Ops
begin

text \<open>
  The gate in front of a slot's first start (\<open>readiness.go\<close>): the slot is held while an instance of a
  workload it references has not passed its health check, for no longer than the configured wait.
\<close>

fun first_blocking ::
  "config \<Rightarrow> (string \<rightharpoonup> database_Workload) \<Rightarrow> Target list \<Rightarrow> (Target \<times> Result) option op" where
  "first_blocking r rows [] = ret None"
| "first_blocking r rows (t # ts) =
     (case rows (tgt_Workload t) of
        None \<Rightarrow> first_blocking r rows ts
      | Some row \<Rightarrow>
          if \<not> checked_row r row then first_blocking r rows ts
          else do {
            result \<leftarrow> ask (cfg_result r) (CheckerResult (tgt_Workload t) (tgt_Instance t));
            case result of
              None \<Rightarrow> ret (Some (t, new_Result))
            | Some res \<Rightarrow> if hr_Status res = StatusHealthy then first_blocking r rows ts
                else ret (Some (t, res)) })"

text \<open>The targets of the environment, then those of the mounted files, resolved as the first instance.\<close>

definition mounted_targets ::
  "config \<Rightarrow> database_Workload \<Rightarrow> Spec \<Rightarrow> (goerr + Target list) op" where
  "mounted_targets r row spec =
     (if \<not> cfg_mounts r then ret (Inr [])
      else do {
        contents \<leftarrow> ask (cfg_strings r) (MountsContents spec);
        case contents of
          Inl e \<Rightarrow> ret (Inl e)
        | Inr cs \<Rightarrow> ask (cfg_targets r) (EnvTargets cs (row_Name row) 0) })"

definition add_targets :: "Target list \<Rightarrow> Target list \<Rightarrow> Target list" where
  "add_targets ts ms = fold (\<lambda>m acc. if m \<in> set acc then acc else acc @ [m]) ms ts"

definition blocker :: "config \<Rightarrow> database_Workload \<Rightarrow> int \<Rightarrow> (Target \<times> Result) option op" where
  "blocker r row i = (case DecodeWorkload (cfg_unmarshal r) (row_Spec row) of
       Inl e \<Rightarrow> ret None
     | Inr spec \<Rightarrow> do {
         targets \<leftarrow> ask (cfg_targets r) (EnvTargets (spec_Env spec) (row_Name row) i);
         case targets of
           Inl e \<Rightarrow> ret None
         | Inr ts \<Rightarrow> do {
             mounted \<leftarrow> mounted_targets r row spec;
             case mounted of
               Inl e \<Rightarrow> ret None
             | Inr ms \<Rightarrow> do {
                 rows \<leftarrow> gets rs_rows;
                 case rows of
                   None \<Rightarrow> ret None
                 | Some m \<Rightarrow> first_blocking r m (add_targets ts ms) } } })"

text \<open>When the slot was first held, which is now unless it is held already.\<close>

definition hold_since :: "slot \<Rightarrow> time \<Rightarrow> time op" where
  "hold_since key now = do {
     since \<leftarrow> gets (\<lambda>s. rs_held s key);
     case since of
       Some t \<Rightarrow> ret t
     | None \<Rightarrow> do { modify (\<lambda>s. s\<lparr>rs_held := (rs_held s)(key \<mapsto> now)\<rparr>); ret now } }"

definition hold_slot ::
  "config \<Rightarrow> database_Workload \<Rightarrow> int \<Rightarrow> Target \<Rightarrow> Result \<Rightarrow> bool op" where
  "hold_slot r row i target result = do {
     now \<leftarrow> read_now r;
     since \<leftarrow> hold_since (Slot (row_Name row) i) now;
     let fs = no_fields\<lparr>f_Instance := i, f_Name := tgt_Workload target,
       f_TargetInstance := tgt_Instance target\<rparr>;
     if time_Sub now since \<ge> cfg_readiness r then do {
       record_event r (row_Name row) DependencyWaitGivenUp (fs\<lparr>f_Delay := cfg_readiness r\<rparr>);
       markStarted (row_Name row) i (row_Version row);
       ret False }
     else do {
       record_event r (row_Name row) DependencyNotReady (fs\<lparr>f_Error := hr_Error result\<rparr>);
       ret True } }"

definition notReady :: "config \<Rightarrow> database_Workload \<Rightarrow> int \<Rightarrow> bool op" where
  "notReady r row i =
     (if cfg_readiness r = 0 \<or> \<not> cfg_checker r \<or> \<not> cfg_env r then ret False
      else if \<not> reads_workload (row_Spec row) \<and> \<not> expands_file (row_Spec row) then ret False
      else do {
        version \<leftarrow> gets (\<lambda>s. rs_started s (Slot (row_Name row) i));
        if version = Some (row_Version row) then ret False
        else do {
          blocked \<leftarrow> blocker r row i;
          case blocked of
            None \<Rightarrow> do { release (Slot (row_Name row) i); ret False }
          | Some (target, result) \<Rightarrow> hold_slot r row i target result } })"

end
