(* ===== verification/Reconciler_Converge.thy ===== *)
theory Reconciler_Converge
  imports Reconciler_Readiness Reconciler_Health
begin

text \<open>
  Converging one workload (\<open>converge.go\<close>) and running a scheduled one (\<open>schedule.go\<close>). The instances
  are those the pass observed, less the retained ones; \<open>indexes\<close> lists the slots anything was observed
  in, retained instances included, in the order the map is ranged over. The flag \<open>replaced\<close> that the
  slots share through a pointer is passed in and returned.
\<close>

section \<open>Staleness\<close>

definition staleSlot ::
  "config \<Rightarrow> database_Workload \<Rightarrow> int \<Rightarrow> Instance list \<Rightarrow> (Instance list \<times> (Reason \<times> Fields) option) op" where
  "staleSlot r row i is =
     (if is = [] then ret ([], None)
      else do {
        hash \<leftarrow> slotHash r row i;
        case hash of
          Inl e \<Rightarrow> do {
            record_event r (row_Name row) ReferenceUnresolved (no_fields\<lparr>f_Error := err_text e\<rparr>);
            ret ([], None) }
        | Inr expected \<Rightarrow>
            (case filter (\<lambda>x. inst_SpecHash x \<noteq> expected) is of
               x # xs \<Rightarrow> ret (x # xs, Some (HashMoved,
                 no_fields\<lparr>f_Instance := i, f_Hash := expected, f_Previous := inst_SpecHash x\<rparr>))
             | [] \<Rightarrow> do {
                 ports \<leftarrow> slotPorts row i;
                 if portsDrifted is ports
                 then ret (is, Some (PortsDrifted, no_fields\<lparr>f_Instance := i, f_Ports := hostPorts ports\<rparr>))
                 else do {
                   requested \<leftarrow> replacingRequested (row_Name row) i;
                   ret (if requested then is else [], None) } }) })"

fun rolling_over ::
  "config \<Rightarrow> database_Workload \<Rightarrow> time \<Rightarrow> Instance list \<Rightarrow> int list \<Rightarrow> bool op" where
  "rolling_over r row now is [] = ret False"
| "rolling_over r row now is (i # rest) = do {
     requested \<leftarrow> replacingRequested (row_Name row) i;
     if requested then rolling_over r row now is rest
     else do {
       hash \<leftarrow> slotHash r row i;
       case hash of
         Inl e \<Rightarrow> rolling_over r row now is rest
       | Inr expected \<Rightarrow>
           if list_ex (\<lambda>x. inst_SpecHash x = expected \<and> \<not> inst_Retained x \<and> \<not> settled x now)
                (at_index is i)
           then ret True else rolling_over r row now is rest } }"

definition rolling :: "config \<Rightarrow> database_Workload \<Rightarrow> int \<Rightarrow> Instance list \<Rightarrow> bool op" where
  "rolling r row count is = do { now \<leftarrow> read_now r; rolling_over r row now is [0..count - 1] }"

section \<open>One slot\<close>

text \<open>Whether any instance has settled; the clock is read for each instance asked.\<close>

fun any_settled :: "config \<Rightarrow> Instance list \<Rightarrow> bool op" where
  "any_settled r [] = ret False"
| "any_settled r (i # is) = do {
     now \<leftarrow> read_now r;
     if settled i now then ret True else any_settled r is }"

definition replace_slot ::
  "config \<Rightarrow> database_Workload \<Rightarrow> int \<Rightarrow> (Reason \<times> Fields) option \<Rightarrow> reconciler action" where
  "replace_slot r row i why = do {
     (case why of None \<Rightarrow> ret () | Some (reason, fs) \<Rightarrow> record_event r (row_Name row) reason fs);
     clearReplacing (row_Name row) i;
     check_err (wrap_err ''failed to stop stale instance'' (stopInstance r row i))
       (start r row i InstanceStarted) }"

definition settle_slot ::
  "config \<Rightarrow> database_Workload \<Rightarrow> int \<Rightarrow> Instance list \<Rightarrow> (goerr option \<times> bool) op" where
  "settle_slot r row i is =
     (if list_ex running is then do {
        ok \<leftarrow> any_settled r is;
        (if ok then settle (row_Name row) i else ret ());
        ret (None, True) }
      else if retired (restartPolicy r row) is then do {
        settle (row_Name row) i;
        ret (None, False) }
      else if is = [] then do {
        clearReplacing (row_Name row) i;
        held \<leftarrow> notReady r row i;
        if held then ret (None, False)
        else do { err \<leftarrow> attempt r row i; ret (err, False) } }
      else do { err \<leftarrow> restart r row i is InstanceStarted; ret (err, False) })"

text \<open>The result is the error, whether something is up in the slot, and the shared flag.\<close>

definition convergeSlot ::
  "config \<Rightarrow> database_Workload \<Rightarrow> int \<Rightarrow> Instance list \<Rightarrow> bool \<Rightarrow> (goerr option \<times> bool \<times> bool) op" where
  "convergeSlot r row i is replaced =
     (if list_ex terminating is then ret (None, True, replaced)
      else do {
        ended r row i is InstanceExited;
        (stale, why) \<leftarrow> staleSlot r row i is;
        if stale \<noteq> [] then
          (if replaced then ret (None, list_ex running is, True)
           else do { err \<leftarrow> replace_slot r row i why; ret (err, False, True) })
        else do {
          (err, up) \<leftarrow> settle_slot r row i is;
          ret (err, up, replaced) } })"

fun converge_slots ::
  "config \<Rightarrow> database_Workload \<Rightarrow> Instance list \<Rightarrow> int list \<Rightarrow> bool \<Rightarrow> bool \<Rightarrow> (goerr option \<times> bool) op" where
  "converge_slots r row is [] replaced anyRunning = ret (None, anyRunning)"
| "converge_slots r row is (i # rest) replaced anyRunning = do {
     (err, up, replaced') \<leftarrow> convergeSlot r row i (at_index is i) replaced;
     case err of
       Some e \<Rightarrow> ret (Some e, anyRunning)
     | None \<Rightarrow> converge_slots r row is rest replaced' (anyRunning \<or> up) }"

section \<open>Mounted values\<close>

definition signalsOf :: "mount_Refresh list \<Rightarrow> string list" where
  "signalsOf refreshed = sort (remdups (map mr_Signal refreshed))"

definition refresh :: "config \<Rightarrow> database_Workload \<Rightarrow> reconciler action" where
  "refresh r row =
     (if \<not> cfg_mounts r then ret None
      else if \<not> names_signal (row_Spec row) then ret None
      else case DecodeWorkload (cfg_unmarshal r) (row_Spec row) of
        Inl e \<Rightarrow> ret (Some e)
      | Inr spec \<Rightarrow> do {
          answer \<leftarrow> ask (cfg_refreshed r)
            (MountsRefresh (row_Name row) (row_ID row) (row_Version row) spec);
          case answer of
            Inl e \<Rightarrow> ret (Some (Wrapf ''failed to refresh mounted values'' [e]))
          | Inr refreshed \<Rightarrow>
              if refreshed = [] then ret None
              else (case driverFor r row of
                  None \<Rightarrow> ret None
                | Some d \<Rightarrow> check_err
                    (each_err (signalsOf refreshed) (\<lambda>sig. wrap_err (on_runtime ''signal workload'' d)
                       (ask (cfg_error r) (DriverSignal d (row_ID row) (row_Name row) sig))))
                    (do {
                       each refreshed (\<lambda>m. record_event r (row_Name row) MountsRefreshed
                         (no_fields\<lparr>f_Name := reference_String (mr_Reference m), f_Signal := mr_Signal m\<rparr>));
                       ret None })) })"

definition reclaim_calls :: "config \<Rightarrow> database_Workload \<Rightarrow> reconciler action" where
  "reclaim_calls r row = check_err
     (if cfg_mounts r then ask (cfg_error r) (MountsReclaim (row_ID row) (row_Version row)) else ret None)
     (if cfg_tokens r then ask (cfg_error r) (TokensRevokeSuperseded (row_ID row) (row_Version row))
      else ret None)"

definition reclaimSuperseded :: "config \<Rightarrow> database_Workload \<Rightarrow> Instance list \<Rightarrow> unit op" where
  "reclaimSuperseded r row is =
     (if \<not> cfg_mounts r \<and> \<not> cfg_tokens r then ret ()
      else do {
        v \<leftarrow> reclaimedVersion (row_ID row);
        if v = row_Version row then ret ()
        else if list_ex (\<lambda>i. \<not> inst_Retained i \<and> inst_Version i \<noteq> row_Version row) is then ret ()
        else do {
          err \<leftarrow> reclaim_calls r row;
          case err of Some e \<Rightarrow> ret () | None \<Rightarrow> markReclaimed (row_ID row) (row_Version row) } })"

section \<open>Schedules\<close>

definition schedule :: "config \<Rightarrow> database_Workload \<Rightarrow> (time \<Rightarrow> time) option op" where
  "schedule r row = (case DecodeWorkload (cfg_unmarshal r) (row_Spec row) of
       Inl e \<Rightarrow> ret None
     | Inr spec \<Rightarrow>
         (case spec_Schedule spec of
            None \<Rightarrow> ret None
          | Some d \<Rightarrow>
              (case cfg_cron r (sch_Cron d) of
                 Inl e \<Rightarrow> do {
                   record_event r (row_Name row) ScheduleInvalid
                     (no_fields\<lparr>f_Schedule := sch_Cron d, f_Error := err_text e\<rparr>);
                   ret None }
               | Inr parsed \<Rightarrow> ret (Some parsed))))"

definition between :: "config \<Rightarrow> database_Workload \<Rightarrow> Instance list \<Rightarrow> reconciler action" where
  "between r row is =
     (if list_ex running is then ret None
      else do {
        ended r row 0 is RunFinished;
        if \<not> list_ex failed is then ret None
        else if retired (restartPolicy r row) is then ret None
        else restart r row 0 is RunStarted })"

definition run_occurrence :: "config \<Rightarrow> database_Workload \<Rightarrow> reconciler action" where
  "run_occurrence r row =
     check_err (wrap_err ''failed to clear the previous run'' (stop r row))
     (do {
        forgetRun (row_Name row);
        err \<leftarrow> start r row 0 RunStarted;
        case err of
          Some e \<Rightarrow> pace r row 0 (restartPolicy r row) e
        | None \<Rightarrow> do { settle (row_Name row) 0; ret None } })"

definition occurrence ::
  "config \<Rightarrow> database_Workload \<Rightarrow> Instance list \<Rightarrow> (time \<Rightarrow> time) \<Rightarrow> reconciler action" where
  "occurrence r row is next_after = do {
     let since = (if row_UpdatedAt row > lastRun is then row_UpdatedAt row else lastRun is);
     now \<leftarrow> read_now r;
     if now < next_after since then between r row is
     else do {
       wait \<leftarrow> waiting r (row_Name row) 0;
       if wait then ret None
       else if list_ex running is \<and> overlap r row = OverlapSkip then do {
         record_event r (row_Name row) OccurrenceSkipped no_fields;
         ret None }
       else do {
         (if list_ex running is then record_event r (row_Name row) OccurrenceReplaced no_fields
          else ret ());
         run_occurrence r row } } }"

section \<open>One workload\<close>

definition converge_scheduled ::
  "config \<Rightarrow> database_Workload \<Rightarrow> Instance list \<Rightarrow> int \<Rightarrow> (time \<Rightarrow> time) \<Rightarrow> reconciler action" where
  "converge_scheduled r row is count next_after =
     (if list_ex terminating is then ret None
      else do {
        requested \<leftarrow> restartRequested (row_Name row);
        if requested then do {
          record_event r (row_Name row) RestartRequested no_fields;
          check_err (wrap_err ''failed to stop workload for restart'' (stop r row))
            (startAll r row count) }
        else occurrence r row is next_after })"

definition remove_excess :: "config \<Rightarrow> database_Workload \<Rightarrow> int \<Rightarrow> int list \<Rightarrow> reconciler action" where
  "remove_excess r row count indexes = each_err indexes (\<lambda>i.
     if i < count then ret None
     else check_err (discardInstance r row i)
       (do { record_event r (row_Name row) InstanceRemoved (no_fields\<lparr>f_Instance := i\<rparr>); ret None }))"

definition converge_running ::
  "config \<Rightarrow> database_Workload \<Rightarrow> Instance list \<Rightarrow> int list \<Rightarrow> int \<Rightarrow> reconciler action" where
  "converge_running r row is indexes count = do {
     requested \<leftarrow> restartRequested (row_Name row);
     (if requested then do {
        record_event r (row_Name row) RestartRequested no_fields;
        markReplacing (row_Name row) count }
      else ret ());
     check_err (remove_excess r row count indexes)
     (do {
        replaced \<leftarrow> rolling r row count is;
        (err, anyRunning) \<leftarrow> converge_slots r row is [0..count - 1] replaced False;
        case err of
          Some e \<Rightarrow> ret (Some e)
        | None \<Rightarrow> if \<not> anyRunning then ret None else refresh r row }) }"

definition converge ::
  "config \<Rightarrow> database_Workload \<Rightarrow> Instance list \<Rightarrow> int list \<Rightarrow> reconciler action" where
  "converge r row is indexes =
     (if \<not> IsZero (row_DeletedAt row) then teardown r row is
      else if \<not> IsZero (row_SuspendedAt row) then suspend r row is
      else case driverFor r row of
        None \<Rightarrow> ret None
      | Some d \<Rightarrow> do {
          reclaimSuperseded r row is;
          let count = countOf r row;
          sched \<leftarrow> schedule r row;
          case sched of
            Some next_after \<Rightarrow> converge_scheduled r row is count next_after
          | None \<Rightarrow> converge_running r row is indexes count })"

end
