(* ===== verification/Reconciler_Frames.thy ===== *)
theory Reconciler_Frames
  imports Reconciler_Converge
begin

text \<open>
  What an operation of the reconciler may touch: the slots whose memory it changes and the calls it
  makes. \<open>touches row K P\<close> relates two states when the second has extended the trace by calls that all
  satisfy \<open>P\<close>, has changed what is remembered of no slot outside \<open>K\<close>, of no restart request but the
  row's own and of no reclaim but the row's own, and has left alone what only a pass writes. It is a
  frame, so the rules of the locale carry it through every composed operation; one rule per operation
  follows, and the properties of the components instantiate \<open>K\<close> and \<open>P\<close>.
\<close>

section \<open>The relation\<close>

definition same_outside :: "'k set \<Rightarrow> ('k \<Rightarrow> 'v) \<Rightarrow> ('k \<Rightarrow> 'v) \<Rightarrow> bool" where
  "same_outside K m m' \<longleftrightarrow> (\<forall>k. k \<notin> K \<longrightarrow> m' k = m k)"

lemma same_outside_refl [simp]: "same_outside K m m"
  by (simp add: same_outside_def)

lemma same_outside_trans: "same_outside K m m' \<Longrightarrow> same_outside K m' m'' \<Longrightarrow> same_outside K m m''"
  by (simp add: same_outside_def)

lemma same_outside_upd: "k \<in> K \<Longrightarrow> same_outside K m (m(k := v))"
  by (auto simp: same_outside_def)

lemma same_outside_mono: "same_outside K m m' \<Longrightarrow> K \<subseteq> L \<Longrightarrow> same_outside L m m'"
  by (auto simp: same_outside_def)

lemma same_outside_drop:
  "(\<And>i. Slot w i \<in> K) \<Longrightarrow> same_outside K m (drop_workload w m)"
  unfolding same_outside_def by (metis drop_workload_apply slot.collapse)

definition touches ::
  "database_Workload \<Rightarrow> slot set \<Rightarrow> (call \<Rightarrow> bool) \<Rightarrow> reconciler \<Rightarrow> reconciler \<Rightarrow> bool" where
  "touches row K P s t \<longleftrightarrow>
     (\<exists>cs. rs_trace t = rs_trace s @ cs \<and> (\<forall>c\<in>set cs. P c))
     \<and> same_outside K (rs_backoff s) (rs_backoff t) \<and> same_outside K (rs_exits s) (rs_exits t)
     \<and> same_outside K (rs_verdicts s) (rs_verdicts t) \<and> same_outside K (rs_unhealthy s) (rs_unhealthy t)
     \<and> same_outside K (rs_started s) (rs_started t) \<and> same_outside K (rs_held s) (rs_held t)
     \<and> same_outside K (rs_pulling s) (rs_pulling t) \<and> same_outside K (rs_replacing s) (rs_replacing t)
     \<and> rs_restarts t - {row_Name row} = rs_restarts s - {row_Name row}
     \<and> same_outside {row_ID row} (rs_reclaimed s) (rs_reclaimed t)
     \<and> rs_allocations t = rs_allocations s \<and> rs_rows t = rs_rows s
     \<and> rs_converging t = rs_converging s \<and> rs_observations t = rs_observations s"

lemma touches_refl: "touches row K P s s"
  by (simp add: touches_def)

lemma touches_trans: "touches row K P s t \<Longrightarrow> touches row K P t u \<Longrightarrow> touches row K P s u"
proof -
  assume a: "touches row K P s t" "touches row K P t u"
  then obtain cs ds where
    "rs_trace t = rs_trace s @ cs" "\<forall>c\<in>set cs. P c" "rs_trace u = rs_trace t @ ds" "\<forall>c\<in>set ds. P c"
    by (auto simp: touches_def)
  then have "\<exists>cs. rs_trace u = rs_trace s @ cs \<and> (\<forall>c\<in>set cs. P c)"
    by (intro exI [of _ "cs @ ds"]) auto
  with a show ?thesis unfolding touches_def by (simp add: same_outside_def)
qed

interpretation tw: frame "touches row K P" for row K P
  by unfold_locales (rule touches_refl, rule touches_trans)

lemma touches_mono:
  assumes "stays (touches row K P) m" "\<And>c. P c \<Longrightarrow> Q c" "K \<subseteq> L"
  shows "stays (touches row L Q) m"
proof -
  have "touches row L Q s t" if "touches row K P s t" for s t
    using that assms(2) by (auto simp: touches_def intro: same_outside_mono [OF _ assms(3)])
  then show ?thesis using assms(1) by (simp add: stays_def)
qed

section \<open>Calls by what they do\<close>

text \<open>Calls that ask and change nothing outside the reconciler, and the event of one workload.\<close>

fun read_call :: "database_Workload \<Rightarrow> call \<Rightarrow> bool" where
  "read_call row ClockRead = True"
| "read_call row (EnvAddresses m n i) = (n = row_Name row)"
| "read_call row (EnvTargets m n i) = (n = row_Name row)"
| "read_call row (MountsContents spec) = True"
| "read_call row (CheckerResult w i) = True"
| "read_call row (PortAvailable p h) = True"
| "read_call row (RecordEvent w reason fs) = (w = row_Name row)"
| "read_call row _ = False"

text \<open>Calls that bring up one instance.\<close>

definition own_work :: "database_Workload \<Rightarrow> int \<Rightarrow> driver_Workload \<Rightarrow> bool" where
  "own_work row i w \<longleftrightarrow> dw_ID w = row_ID row \<and> dw_Name w = row_Name row \<and> dw_Instance w = i
     \<and> dw_Version w = row_Version row"

fun start_call :: "database_Workload \<Rightarrow> int \<Rightarrow> call \<Rightarrow> bool" where
  "start_call row i (EnvResolve m ident n j) = (ident = row_ID row \<and> n = row_Name row \<and> j = i)"
| "start_call row i (MountsDeliver ident v spec) = (ident = row_ID row \<and> v = row_Version row)"
| "start_call row i (DriverStart d w) = (d = row_Runtime row \<and> own_work row i w)"
| "start_call row i (Reallocate n j) = (n = row_Name row \<and> j = i)"
| "start_call row i _ = False"

text \<open>Calls that take one instance down, and calls that remove it.\<close>

fun halt_call :: "database_Workload \<Rightarrow> int \<Rightarrow> call \<Rightarrow> bool" where
  "halt_call row i (DriverStopInstance d ident n j) =
     (d = row_Runtime row \<and> ident = row_ID row \<and> n = row_Name row \<and> j = i)"
| "halt_call row i (TokensRevokeForInstance ident j) = (ident = row_ID row \<and> j = i)"
| "halt_call row i (CheckerForgetInstance n j) = (n = row_Name row \<and> j = i)"
| "halt_call row i _ = False"

fun drop_call :: "database_Workload \<Rightarrow> int \<Rightarrow> call \<Rightarrow> bool" where
  "drop_call row i (DriverDiscardInstance d ident n j) =
     (d = row_Runtime row \<and> ident = row_ID row \<and> n = row_Name row \<and> j = i)"
| "drop_call row i (TokensRevokeForInstance ident j) = (ident = row_ID row \<and> j = i)"
| "drop_call row i (CheckerForgetInstance n j) = (n = row_Name row \<and> j = i)"
| "drop_call row i _ = False"

text \<open>Calls that stop a whole workload, and calls that remove everything of it.\<close>

fun stop_call :: "database_Workload \<Rightarrow> call \<Rightarrow> bool" where
  "stop_call row (DriverStop d ident n) =
     (d = row_Runtime row \<and> ident = row_ID row \<and> n = row_Name row)"
| "stop_call row (CheckerForget n) = (n = row_Name row)"
| "stop_call row _ = False"

fun release_call :: "database_Workload \<Rightarrow> call \<Rightarrow> bool" where
  "release_call row (MountsForget ident) = (ident = row_ID row)"
| "release_call row (TokensRevokeForWorkload ident) = (ident = row_ID row)"
| "release_call row _ = False"

fun delete_call :: "database_Workload \<Rightarrow> call \<Rightarrow> bool" where
  "delete_call row (DriverDiscard d ident n) =
     (d = row_Runtime row \<and> ident = row_ID row \<and> n = row_Name row)"
| "delete_call row (WorkloadsDelete n) = (n = row_Name row)"
| "delete_call row _ = False"

text \<open>Calls that keep what a running workload mounts up to date.\<close>

fun upkeep_call :: "database_Workload \<Rightarrow> call \<Rightarrow> bool" where
  "upkeep_call row (DriverSignal d ident n sig) =
     (d = row_Runtime row \<and> ident = row_ID row \<and> n = row_Name row)"
| "upkeep_call row (MountsRefresh n ident v spec) =
     (n = row_Name row \<and> ident = row_ID row \<and> v = row_Version row)"
| "upkeep_call row (MountsReclaim ident v) = (ident = row_ID row \<and> v = row_Version row)"
| "upkeep_call row (TokensRevokeSuperseded ident v) = (ident = row_ID row \<and> v = row_Version row)"
| "upkeep_call row _ = False"

section \<open>Primitive operations\<close>

lemma run_ask [simp]:
  "run_state (ask f c) s = (f (rs_trace s) c, s\<lparr>rs_trace := rs_trace s @ [c]\<rparr>)"
  by (simp add: ask_def)

lemma wp_ask [wp_simps]: "wp (ask f c) Q s = Q (f (rs_trace s) c) (s\<lparr>rs_trace := rs_trace s @ [c]\<rparr>)"
  by (simp add: wp_def)

lemma wp_tell [wp_simps]: "wp (tell c) Q s = Q () (s\<lparr>rs_trace := rs_trace s @ [c]\<rparr>)"
  by (simp add: tell_def wp_simps)

lemma touches_ask [frame_rules]: "P c \<Longrightarrow> stays (touches row K P) (ask f c)"
  by (simp add: stays_def final_def touches_def)

lemma touches_tell [frame_rules]: "P c \<Longrightarrow> stays (touches row K P) (tell c)"
  by (simp add: tell_def touches_ask)

lemma touches_read_now [frame_rules]: "P ClockRead \<Longrightarrow> stays (touches row K P) (read_now r)"
  by (simp add: read_now_def touches_ask)

lemma touches_record [frame_rules]:
  "P (RecordEvent w reason fs) \<Longrightarrow> stays (touches row K P) (record_event r w reason fs)"
  by (simp add: record_event_def touches_tell tw.stays_ret)

lemma touches_modify:
  "(\<And>s. touches row K P s (f s)) \<Longrightarrow> stays (touches row K P) (modify f)"
  by (rule tw.stays_modify)

lemmas slot_memory_defs =
  markReplacing_def clearReplacing_def replacingRequested_def Pulling_def markPulling_def release_def
  markStarted_def backoff_at_def settle_def verdict_def failCheck_def checkFailed_def firstSighting_def
  attempts_def giveUp_def hold_since_def forget_slot_def

lemma touches_slot_memory [frame_rules]:
  assumes "Slot w i \<in> K"
  shows "stays (touches row K P) (clearReplacing w i)" "stays (touches row K P) (replacingRequested w i)"
    "stays (touches row K P) (markPulling w i b)" "stays (touches row K P) (release (Slot w i))"
    "stays (touches row K P) (markStarted w i v)" "stays (touches row K P) (settle w i)"
    "stays (touches row K P) (verdict w i st)" "stays (touches row K P) (checkFailed w i ident)"
    "stays (touches row K P) (firstSighting w i ident)" "stays (touches row K P) (attempts w i)"
    "stays (touches row K P) (giveUp w i)" "stays (touches row K P) (hold_since (Slot w i) t)"
    "stays (touches row K P) (forget_slot (Slot w i))"
  unfolding slot_memory_defs
  by (rule tw.stays_rules touches_modify | simp add: touches_def same_outside_upd assms)+

lemma touches_waiting [frame_rules]: "P ClockRead \<Longrightarrow> stays (touches row K P) (waiting r w i)"
  unfolding waiting_def by (rule tw.stays_rules touches_read_now | assumption)+

lemma touches_hold [frame_rules]:
  "P ClockRead \<Longrightarrow> Slot w i \<in> K \<Longrightarrow> stays (touches row K P) (hold r w i policy)"
  unfolding hold_def
  by (rule tw.stays_rules touches_read_now touches_modify | assumption
      | simp add: touches_def same_outside_upd)+

lemma touches_paced [frame_rules]:
  "(\<And>fs. P (RecordEvent w RestartPaced fs)) \<Longrightarrow> stays (touches row K P) (paced r w b err)"
  unfolding paced_def by (rule touches_record)

lemma touches_slotPorts [frame_rules]: "stays (touches row K P) (slotPorts row' i)"
  unfolding slotPorts_def by (rule tw.stays_gets)

lemma touches_workload_memory [frame_rules]:
  assumes "\<And>i. Slot w i \<in> K"
  shows "stays (touches row K P) (forgetReplacing w)" "stays (touches row K P) (forgetRun w)"
    "stays (touches row K P) (settleAll w)" "stays (touches row K P) (forgetStarted w)"
    "stays (touches row K P) (markReplacing w count)"
proof -
  have K: "k \<in> K" if "slot_workload k = w" for k using that assms by (cases k) auto
  show "stays (touches row K P) (forgetReplacing w)"
    unfolding forgetReplacing_def by (rule touches_modify) (simp add: touches_def same_outside_drop assms)
  show run: "stays (touches row K P) (forgetRun w)"
    unfolding forgetRun_def by (rule touches_modify) (simp add: touches_def same_outside_drop assms)
  show "stays (touches row K P) (settleAll w)"
    unfolding settleAll_def
    by (rule tw.stays_bind [OF run touches_modify]) (simp add: touches_def same_outside_drop assms)
  show "stays (touches row K P) (forgetStarted w)"
    unfolding forgetStarted_def
    by (rule touches_modify) (auto simp: touches_def same_outside_drop assms same_outside_def K)
  show "stays (touches row K P) (markReplacing w count)"
    unfolding markReplacing_def
    by (rule tw.stays_each, rule touches_modify) (simp add: touches_def same_outside_upd assms)
qed

lemma touches_own_memory [frame_rules]:
  "stays (touches row K P) (restartRequested (row_Name row))"
  "stays (touches row K P) (reclaimedVersion (row_ID row))"
  "stays (touches row K P) (markReclaimed (row_ID row) v)"
  "stays (touches row K P) (forgetReclaimed (row_ID row))"
  unfolding restartRequested_def reclaimedVersion_def markReclaimed_def forgetReclaimed_def
  by (rule tw.stays_rules touches_modify | simp add: touches_def same_outside_upd)+

section \<open>Composed operations\<close>

text \<open>
  Each rule names the calls the operation may make and the slots it may touch, and lets a caller widen
  both.
\<close>

lemma touches_mountedAddresses [frame_rules]:
  assumes "\<And>c. read_call row c \<Longrightarrow> P c"
  shows "stays (touches row K P) (mountedAddresses r row spec)"
  unfolding mountedAddresses_def by (rule tw.stays_rules touches_ask | simp add: assms)+

lemma touches_slotHash [frame_rules]:
  assumes "\<And>c. read_call row c \<Longrightarrow> P c"
  shows "stays (touches row K P) (slotHash r row i)"
  unfolding slotHash_def
  by (rule tw.stays_rules touches_ask touches_mountedAddresses | simp add: assms)+

lemma touches_taken_ports [frame_rules]:
  assumes "\<And>c. read_call row c \<Longrightarrow> P c"
  shows "stays (touches row K P) (taken_ports r ps)"
proof (induction ps)
  case (Cons p ps)
  then show ?case
    by (simp only: taken_ports.simps) (rule tw.stays_rules touches_ask | simp add: assms)+
qed (simp add: tw.stays_ret)

lemma touches_abandonPorts [frame_rules]:
  assumes "\<And>c. read_call row c \<Longrightarrow> P c" "\<And>c. start_call row i c \<Longrightarrow> P c"
  shows "stays (touches row K P) (abandonPorts r row i)"
  unfolding abandonPorts_def
  by (rule tw.stays_rules touches_ask touches_record touches_slotPorts touches_taken_ports | simp add: assms)+

lemma touches_launch [frame_rules]:
  assumes "\<And>c. read_call row c \<Longrightarrow> P c" "\<And>c. start_call row i c \<Longrightarrow> P c" "Slot (row_Name row) i \<in> K"
    and "d = row_Runtime row" "own_work row i w"
  shows "stays (touches row K P) (launch r row i reason d w)"
  unfolding launch_def
  by (rule tw.stays_rules touches_ask touches_record touches_abandonPorts
      touches_slot_memory(3,5) | simp add: assms)+

text \<open>Resolving the environment and delivering the mounts keeps whose work it is.\<close>

lemma start_env_own:
  "outcome (start_env r row w) s = Inr w' \<Longrightarrow> own_work row i w \<Longrightarrow> own_work row i w'"
  by (auto simp: start_env_def outcome_def own_work_def split: if_splits sum.splits)

lemma start_mounts_own:
  "outcome (start_mounts r row w) s = Inr w' \<Longrightarrow> own_work row i w \<Longrightarrow> own_work row i w'"
  by (auto simp: start_mounts_def outcome_def own_work_def split: if_splits sum.splits)

lemma NewWorkload_own:
  "NewWorkload un fs row hps = Inr w \<Longrightarrow> own_work row i (w\<lparr>dw_Instance := i\<rparr>)"
  by (auto simp: NewWorkload_def own_work_def split: sum.splits)

lemma touches_start_env [frame_rules]:
  assumes "\<And>c. start_call row i c \<Longrightarrow> P c" "own_work row i w"
  shows "stays (touches row K P) (start_env r row w)"
  unfolding start_env_def
  by (rule tw.stays_rules touches_ask | simp add: assms(1) assms(2) [unfolded own_work_def])+

lemma touches_start_mounts [frame_rules]:
  assumes "\<And>c. start_call row i c \<Longrightarrow> P c"
  shows "stays (touches row K P) (start_mounts r row w)"
  unfolding start_mounts_def by (rule tw.stays_rules touches_ask | simp add: assms)+

lemma touches_start_on [frame_rules]:
  assumes "\<And>c. read_call row c \<Longrightarrow> P c" "\<And>c. start_call row i c \<Longrightarrow> P c" "Slot (row_Name row) i \<in> K"
    and "d = row_Runtime row" "own_work row i w"
  shows "stays (touches row K P) (start_on r row i reason d w)"
proof -
  have "stays (touches row K P) (do { x \<leftarrow> start_mounts r row w1;
      case x of Inl e \<Rightarrow> ret (Some e) | Inr w2 \<Rightarrow> launch r row i reason d w2 })" if "own_work row i w1" for w1
  proof (rule tw.stays_bind_outcome)
    fix s
    show "stays (touches row K P) (case outcome (start_mounts r row w1) s of
        Inl e \<Rightarrow> ret (Some e) | Inr w2 \<Rightarrow> launch r row i reason d w2)"
      using start_mounts_own [OF _ that] assms
      by (cases "outcome (start_mounts r row w1) s") (auto intro: tw.stays_ret touches_launch)
  qed (rule touches_start_mounts [OF assms(2)])
  then show ?thesis
    unfolding start_on_def
    by (intro tw.stays_bind_outcome touches_start_env [OF assms(2,5)])
      (auto intro: tw.stays_ret dest: start_env_own [OF _ assms(5)] split: sum.split)
qed

lemma touches_start [frame_rules]:
  assumes "\<And>c. read_call row c \<Longrightarrow> P c" "\<And>c. start_call row i c \<Longrightarrow> P c" "Slot (row_Name row) i \<in> K"
  shows "stays (touches row K P) (start r row i reason)"
proof -
  have go: "stays (touches row K P) (case driverFor r row of None \<Rightarrow> ret None
      | Some d \<Rightarrow> start_on r row i reason d w)" if "own_work row i w" for w
    using assms that by (auto simp: driverFor_def intro: tw.stays_ret touches_start_on)
  have "stays (touches row K P) (case NewWorkload (cfg_unmarshal r) fs row (cfg_hostPaths r) of
      Inl e \<Rightarrow> ret (Some (of_workload_error e))
    | Inr w0 \<Rightarrow> do {
         ports \<leftarrow> slotPorts row i;
         let w1 = w0\<lparr>dw_Instance := i\<rparr>;
         let w2 = (if i > 0 then w1\<lparr>dw_Ports := driverPorts ports\<rparr> else w1);
         hash \<leftarrow> slotHash r row i;
         case hash of
           Inl e \<Rightarrow> ret (Some (Wrapf ''failed to resolve the instance's expected hash'' [e]))
         | Inr hs \<Rightarrow>
             (case driverFor r row of
                None \<Rightarrow> ret None
              | Some d \<Rightarrow> start_on r row i reason d (w2\<lparr>dw_SpecHash := hs\<rparr>)) })" for fs
  proof (cases "NewWorkload (cfg_unmarshal r) fs row (cfg_hostPaths r)")
    case (Inl e)
    then show ?thesis by (simp add: tw.stays_ret)
  next
    case (Inr w0)
    have "own_work row i (w0\<lparr>dw_Instance := i\<rparr>)" using NewWorkload_own [OF Inr] .
    then have "own_work row i ((if i > 0 then w0\<lparr>dw_Instance := i, dw_Ports := ps\<rparr>
        else w0\<lparr>dw_Instance := i\<rparr>)\<lparr>dw_SpecHash := hs\<rparr>)" for ps hs
      by (simp add: own_work_def)
    then show ?thesis
      unfolding Inr sum.case Let_def
      by (intro tw.stays_bind touches_slotPorts touches_slotHash tw.stays_sum tw.stays_ret go assms(1))
        simp_all
  qed
  then show ?thesis unfolding start_def by (intro tw.stays_bind tw.stays_gets)
qed

lemma touches_startAll [frame_rules]:
  assumes "\<And>c. read_call row c \<Longrightarrow> P c" "\<And>i c. start_call row i c \<Longrightarrow> P c" "\<And>i. Slot (row_Name row) i \<in> K"
  shows "stays (touches row K P) (startAll r row count)"
  unfolding startAll_def by (intro tw.stays_each_err touches_start assms)

lemma touches_forget [frame_rules]: "P (CheckerForget w) \<Longrightarrow> stays (touches row K P) (forget r w)"
  unfolding forget_def by (simp add: touches_tell tw.stays_ret)

lemma touches_forget_instance [frame_rules]:
  "P (CheckerForgetInstance w i) \<Longrightarrow> stays (touches row K P) (forget_instance r w i)"
  unfolding forget_instance_def by (simp add: touches_tell tw.stays_ret)

lemma driverFor_Some: "driverFor r row = Some d \<longleftrightarrow> d = row_Runtime row \<and> row_Runtime row \<in> set (cfg_drivers r)"
  by (auto simp: driverFor_def)

lemma touches_driver:
  "stays (touches row K P) m \<Longrightarrow> stays (touches row K P) (f (row_Runtime row))
    \<Longrightarrow> stays (touches row K P) (case driverFor r row of None \<Rightarrow> m | Some d \<Rightarrow> f d)"
  by (simp add: driverFor_def)

lemma touches_stop [frame_rules]:
  assumes "\<And>c. stop_call row c \<Longrightarrow> P c"
  shows "stays (touches row K P) (stop r row)"
  unfolding stop_def
  by (rule touches_driver tw.stays_rules touches_ask touches_forget | simp add: assms)+

lemma touches_revoke_instance:
  "P (TokensRevokeForInstance (row_ID row) i) \<Longrightarrow> stays (touches row K P) (revoke_instance r row i)"
  unfolding revoke_instance_def by (rule tw.stays_rules touches_ask | simp)+

lemma touches_stopInstance [frame_rules]:
  assumes "\<And>c. halt_call row i c \<Longrightarrow> P c"
  shows "stays (touches row K P) (stopInstance r row i)"
  unfolding stopInstance_def
  by (rule touches_driver tw.stays_rules touches_ask touches_revoke_instance touches_forget_instance
      | simp add: assms)+

lemma touches_discardInstance [frame_rules]:
  assumes "\<And>c. drop_call row i c \<Longrightarrow> P c" "Slot (row_Name row) i \<in> K"
  shows "stays (touches row K P) (discardInstance r row i)"
  unfolding discardInstance_def
  by (rule touches_driver tw.stays_rules touches_ask touches_revoke_instance touches_forget_instance
      touches_slot_memory(13) | simp add: assms)+

lemma touches_discard [frame_rules]:
  assumes "\<And>c. delete_call row c \<Longrightarrow> P c"
  shows "stays (touches row K P) (discard r row)"
  unfolding discard_def by (rule touches_driver tw.stays_rules touches_ask | simp add: assms)+

lemma touches_forget_mounts [frame_rules]:
  assumes "\<And>c. release_call row c \<Longrightarrow> P c"
  shows "stays (touches row K P) (forget_mounts r row)" "stays (touches row K P) (revoke_workload r row)"
  unfolding forget_mounts_def revoke_workload_def
  by (rule tw.stays_rules touches_ask | simp add: assms)+

lemma touches_teardown [frame_rules]:
  assumes "\<And>c. delete_call row c \<Longrightarrow> P c" "\<And>c. release_call row c \<Longrightarrow> P c" "\<And>i. Slot (row_Name row) i \<in> K"
  shows "stays (touches row K P) (teardown r row is)"
  unfolding teardown_def forget_deleted_def
  by (rule tw.stays_rules touches_ask touches_discard touches_forget_mounts touches_workload_memory
      touches_own_memory | simp add: assms)+

lemma touches_suspend [frame_rules]:
  assumes "\<And>c. stop_call row c \<Longrightarrow> P c" "\<And>c. release_call row c \<Longrightarrow> P c" "\<And>i. Slot (row_Name row) i \<in> K"
  shows "stays (touches row K P) (suspend r row is)"
  unfolding suspend_def
  by (rule tw.stays_rules touches_stop touches_forget_mounts touches_workload_memory
      touches_own_memory | simp add: assms)+

lemma touches_pace [frame_rules]:
  assumes "\<And>c. read_call row c \<Longrightarrow> P c" "Slot (row_Name row) i \<in> K"
  shows "stays (touches row K P) (pace r row i policy err)"
  unfolding pace_def by (rule tw.stays_rules touches_hold touches_paced | simp add: assms)+

lemma touches_attempt [frame_rules]:
  assumes "\<And>c. read_call row c \<Longrightarrow> P c" "\<And>c. start_call row i c \<Longrightarrow> P c" "Slot (row_Name row) i \<in> K"
  shows "stays (touches row K P) (attempt r row i)"
  unfolding attempt_def
  by (rule tw.stays_rules touches_waiting touches_start touches_pace touches_slot_memory(6)
      | simp add: assms)+

lemma touches_give_up [frame_rules]:
  assumes "\<And>c. read_call row c \<Longrightarrow> P c" "Slot (row_Name row) i \<in> K"
  shows "stays (touches row K P) (give_up r row i)"
  unfolding give_up_def
  by (rule tw.stays_rules touches_slot_memory touches_record | simp add: assms)+

lemma touches_restart [frame_rules]:
  assumes "\<And>c. read_call row c \<Longrightarrow> P c" "\<And>c. start_call row i c \<Longrightarrow> P c" "\<And>c. halt_call row i c \<Longrightarrow> P c"
    and "Slot (row_Name row) i \<in> K"
  shows "stays (touches row K P) (restart r row i is reason)"
  unfolding restart_def
  by (rule tw.stays_rules touches_waiting touches_slot_memory(10) touches_give_up touches_stopInstance
      touches_start touches_pace touches_hold | simp add: assms)+

section \<open>Readiness, health and slots\<close>

lemma touches_first_blocking [frame_rules]:
  assumes "\<And>c. read_call row c \<Longrightarrow> P c"
  shows "stays (touches row K P) (first_blocking r rows ts)"
proof (induction ts)
  case (Cons t ts)
  then show ?case
    by (simp only: first_blocking.simps) (rule tw.stays_rules touches_ask | simp add: assms)+
qed (simp add: tw.stays_ret)

lemma touches_blocker [frame_rules]:
  assumes "\<And>c. read_call row c \<Longrightarrow> P c"
  shows "stays (touches row K P) (blocker r row i)"
  unfolding blocker_def mounted_targets_def
  by (rule tw.stays_rules touches_ask touches_first_blocking | simp add: assms)+

lemma touches_notReady [frame_rules]:
  assumes "\<And>c. read_call row c \<Longrightarrow> P c" "Slot (row_Name row) i \<in> K"
  shows "stays (touches row K P) (notReady r row i)"
  unfolding notReady_def hold_slot_def
  by (rule tw.stays_rules touches_blocker touches_read_now touches_record touches_slot_memory
      | simp add: assms)+

lemma touches_ended [frame_rules]:
  assumes "\<And>c. read_call row c \<Longrightarrow> P c" "Slot (row_Name row) i \<in> K"
  shows "stays (touches row K P) (ended r row i is reason)"
  unfolding ended_def
  by (rule tw.stays_rules touches_ask touches_record touches_slot_memory | simp add: assms)+

lemma touches_staleSlot [frame_rules]:
  assumes "\<And>c. read_call row c \<Longrightarrow> P c" "Slot (row_Name row) i \<in> K"
  shows "stays (touches row K P) (staleSlot r row i is)"
proof -
  have "stays (touches row K P) (case xs of x # ys \<Rightarrow> ret (f x ys) | [] \<Rightarrow> m)"
    if "stays (touches row K P) m" for xs f and m :: "(Instance list \<times> (Reason \<times> Fields) option) op"
    using that by (cases xs) (simp_all add: tw.stays_ret)
  note list = this
  show ?thesis
    unfolding staleSlot_def
    by (rule tw.stays_rules list touches_slotHash touches_slotPorts touches_record touches_slot_memory
        | simp add: assms)+
qed

lemma touches_any_settled [frame_rules]:
  "P ClockRead \<Longrightarrow> stays (touches row K P) (any_settled r is)"
proof (induction "is")
  case (Cons i "is")
  then show ?case
    by (simp only: any_settled.simps) (rule tw.stays_rules touches_read_now | simp)+
qed (simp add: tw.stays_ret)

lemma touches_replace_slot [frame_rules]:
  assumes "\<And>c. read_call row c \<Longrightarrow> P c" "\<And>c. start_call row i c \<Longrightarrow> P c" "\<And>c. halt_call row i c \<Longrightarrow> P c"
    and "Slot (row_Name row) i \<in> K"
  shows "stays (touches row K P) (replace_slot r row i why)"
  unfolding replace_slot_def
  by (rule tw.stays_rules touches_record touches_slot_memory(1) touches_stopInstance touches_start
      | simp add: assms)+

lemma touches_settle_slot [frame_rules]:
  assumes "\<And>c. read_call row c \<Longrightarrow> P c" "\<And>c. start_call row i c \<Longrightarrow> P c"
    and "is \<noteq> [] \<Longrightarrow> \<not> list_ex running is \<Longrightarrow> (\<And>c. halt_call row i c \<Longrightarrow> P c)"
    and "Slot (row_Name row) i \<in> K"
  shows "stays (touches row K P) (settle_slot r row i is)"
proof -
  have "stays (touches row K P) (restart r row i is InstanceStarted)"
    if "is \<noteq> []" "\<not> list_ex running is"
    by (rule touches_restart) (use assms that in auto)
  then show ?thesis
    unfolding settle_slot_def
    by (intro tw.stays_rules touches_any_settled touches_slot_memory(1,6) touches_notReady touches_attempt)
      (simp_all add: assms(1,2,4))
qed

lemma touches_rolling [frame_rules]:
  assumes "\<And>c. read_call row c \<Longrightarrow> P c"
  shows "stays (touches row K P) (rolling r row count is)"
proof -
  have "stays (touches row K P) (replacingRequested w i)" for w i
    unfolding replacingRequested_def by (rule tw.stays_gets)
  then have "stays (touches row K P) (rolling_over r row now is idx)" for now idx
  proof (induction idx)
    case (Cons i idx)
    then show ?case
      by (simp only: rolling_over.simps)
        (rule tw.stays_rules touches_slotHash | simp add: assms)+
  qed (simp add: tw.stays_ret)
  then show ?thesis
    unfolding rolling_def by (intro tw.stays_bind touches_read_now) (simp_all add: assms)
qed

lemma touches_refresh [frame_rules]:
  assumes "\<And>c. read_call row c \<Longrightarrow> P c" "\<And>c. upkeep_call row c \<Longrightarrow> P c"
  shows "stays (touches row K P) (refresh r row)"
  unfolding refresh_def
  by (rule touches_driver tw.stays_rules touches_ask touches_record | simp add: assms)+

lemma touches_reclaimSuperseded [frame_rules]:
  assumes "\<And>c. upkeep_call row c \<Longrightarrow> P c"
  shows "stays (touches row K P) (reclaimSuperseded r row is)"
  unfolding reclaimSuperseded_def reclaim_calls_def
  by (rule tw.stays_rules touches_ask touches_own_memory | simp add: assms)+

lemma touches_schedule [frame_rules]:
  assumes "\<And>c. read_call row c \<Longrightarrow> P c"
  shows "stays (touches row K P) (schedule r row)"
  unfolding schedule_def by (rule tw.stays_rules touches_record | simp add: assms)+

lemma touches_between [frame_rules]:
  assumes "\<And>c. read_call row c \<Longrightarrow> P c" "\<And>c. start_call row 0 c \<Longrightarrow> P c"
    and "\<And>c. \<not> list_ex running is \<Longrightarrow> halt_call row 0 c \<Longrightarrow> P c" "Slot (row_Name row) 0 \<in> K"
  shows "stays (touches row K P) (between r row is)"
proof (cases "list_ex running is")
  case True
  then show ?thesis by (simp add: between_def tw.stays_ret)
next
  case False
  then show ?thesis
    unfolding between_def
    by (intro tw.stays_rules touches_ended touches_restart) (use assms in auto)
qed

lemma touches_run_occurrence [frame_rules]:
  assumes "\<And>c. read_call row c \<Longrightarrow> P c" "\<And>c. start_call row 0 c \<Longrightarrow> P c" "\<And>c. stop_call row c \<Longrightarrow> P c"
    and "\<And>i. Slot (row_Name row) i \<in> K"
  shows "stays (touches row K P) (run_occurrence r row)"
  unfolding run_occurrence_def
  by (rule tw.stays_rules touches_stop touches_workload_memory(2) touches_start touches_pace
      touches_slot_memory(6) | simp add: assms)+

lemma touches_occurrence [frame_rules]:
  assumes "\<And>c. read_call row c \<Longrightarrow> P c" "\<And>c. start_call row 0 c \<Longrightarrow> P c" "\<And>c. stop_call row c \<Longrightarrow> P c"
    and "\<And>c. \<not> list_ex running is \<Longrightarrow> halt_call row 0 c \<Longrightarrow> P c" "\<And>i. Slot (row_Name row) i \<in> K"
  shows "stays (touches row K P) (occurrence r row is next_after)"
  unfolding occurrence_def
  by (intro tw.stays_rules touches_read_now touches_between touches_waiting touches_record
      touches_run_occurrence) (use assms in auto)

lemma touches_remove_excess [frame_rules]:
  assumes "\<And>c. read_call row c \<Longrightarrow> P c" "\<And>i c. i \<ge> count \<Longrightarrow> drop_call row i c \<Longrightarrow> P c"
    and "\<And>i. i \<ge> count \<Longrightarrow> Slot (row_Name row) i \<in> K"
  shows "stays (touches row K P) (remove_excess r row count indexes)"
  unfolding remove_excess_def
  by (intro tw.stays_rules touches_discardInstance touches_record)
    (auto simp: not_less assms(1) intro: assms(2,3))

section \<open>One workload\<close>

definition slot_call :: "database_Workload \<Rightarrow> int \<Rightarrow> call \<Rightarrow> bool" where
  "slot_call row i c \<longleftrightarrow> read_call row c \<or> start_call row i c \<or> halt_call row i c"

definition own_call :: "database_Workload \<Rightarrow> call \<Rightarrow> bool" where
  "own_call row c \<longleftrightarrow> read_call row c \<or> (\<exists>i. start_call row i c \<or> halt_call row i c \<or> drop_call row i c)
     \<or> stop_call row c \<or> release_call row c \<or> delete_call row c \<or> upkeep_call row c"

lemma touches_convergeSlot [frame_rules]:
  assumes "\<And>c. read_call row c \<Longrightarrow> P c" "\<And>c. start_call row i c \<Longrightarrow> P c" "\<And>c. halt_call row i c \<Longrightarrow> P c"
    and "Slot (row_Name row) i \<in> K"
  shows "stays (touches row K P) (convergeSlot r row i is replaced)"
  unfolding convergeSlot_def
  by (intro tw.stays_rules touches_ended touches_staleSlot touches_replace_slot touches_settle_slot)
    (use assms in auto)

lemma touches_converge_slots:
  assumes "\<And>c. read_call row c \<Longrightarrow> P c" "\<And>i c. i \<in> set idx \<Longrightarrow> start_call row i c \<Longrightarrow> P c"
    and "\<And>i c. i \<in> set idx \<Longrightarrow> halt_call row i c \<Longrightarrow> P c" "\<And>i. i \<in> set idx \<Longrightarrow> Slot (row_Name row) i \<in> K"
  shows "stays (touches row K P) (converge_slots r row is idx replaced up)"
  using assms(2-4)
proof (induction idx arbitrary: replaced up)
  case (Cons i idx)
  show ?case
    unfolding converge_slots.simps
    by (intro tw.stays_bind tw.stays_prod tw.stays_option tw.stays_ret Cons.IH
        touches_convergeSlot) (auto intro: assms(1) Cons.prems)
qed (simp add: tw.stays_ret)

definition workload_slots :: "database_Workload \<Rightarrow> slot set" where
  "workload_slots row = {k. slot_workload k = row_Name row}"

lemma workload_slots_Slot [simp]: "Slot (row_Name row) i \<in> workload_slots row"
  by (simp add: workload_slots_def)

lemma touches_converge:
  "stays (touches row (workload_slots row) (own_call row)) (converge r row is indexes)"
proof -
  have own: "read_call row c \<Longrightarrow> own_call row c" "start_call row i c \<Longrightarrow> own_call row c"
    "halt_call row i c \<Longrightarrow> own_call row c" "drop_call row i c \<Longrightarrow> own_call row c"
    "stop_call row c \<Longrightarrow> own_call row c" "release_call row c \<Longrightarrow> own_call row c"
    "delete_call row c \<Longrightarrow> own_call row c" "upkeep_call row c \<Longrightarrow> own_call row c" for c i
    by (auto simp: own_call_def)
  have event: "own_call row (RecordEvent (row_Name row) reason fs)" for reason fs
    by (simp add: own_call_def)
  have sched: "stays (touches row (workload_slots row) (own_call row)) (converge_scheduled r row is n f)" for n f
    unfolding converge_scheduled_def
    by (intro tw.stays_rules touches_own_memory touches_record touches_stop touches_startAll
        touches_occurrence) (auto intro: own event)
  have cont: "stays (touches row (workload_slots row) (own_call row)) (converge_running r row is indexes n)" for n
    unfolding converge_running_def
    by (intro tw.stays_rules touches_own_memory touches_record touches_workload_memory
        touches_remove_excess touches_rolling touches_converge_slots touches_refresh)
      (auto intro: own event)
  show ?thesis
    unfolding converge_def
    by (intro tw.stays_rules touches_teardown touches_suspend touches_reclaimSuperseded touches_schedule
        sched cont) (auto intro: own event)
qed

end
