(* ===== verification/Reconciler_Rollout.thy ===== *)
theory Reconciler_Rollout
  imports Reconciler_Frames
begin

text \<open>
  How a change rolls across the instances of a workload: what converging one workload and one slot may
  touch, that at most one instance that is up is taken down in a pass and none while an earlier
  replacement has not settled, and that a workload that matches what is wanted is left alone.
\<close>

section \<open>The calls of an operation\<close>

definition calls :: "'a op \<Rightarrow> reconciler \<Rightarrow> call list" where
  "calls m s = drop (length (rs_trace s)) (rs_trace (final m s))"

lemma calls_stays:
  assumes "stays (touches row K P) m"
  shows "rs_trace (final m s) = rs_trace s @ calls m s" "c \<in> set (calls m s) \<Longrightarrow> P c"
  using stays_final [OF assms, of s] by (auto simp: touches_def calls_def)

lemma calls_bind:
  assumes "stays (touches row K P) m" "\<And>a. stays (touches row K P) (f a)"
  shows "calls (State_Monad.bind m f) s = calls m s @ calls (f (outcome m s)) (final m s)"
proof -
  have "final (State_Monad.bind m f) s = final (f (outcome m s)) (final m s)"
    by (simp add: final_def outcome_def split_beta)
  then have "rs_trace (final (State_Monad.bind m f) s)
      = rs_trace s @ calls m s @ calls (f (outcome m s)) (final m s)"
    using calls_stays(1) [OF assms(1), of s] calls_stays(1) [OF assms(2), of "outcome m s" "final m s"]
    by simp
  then show ?thesis unfolding calls_def [of "State_Monad.bind m f"] by simp
qed

lemma calls_ret [simp]: "calls (ret a) s = []"
  by (simp add: calls_def final_def)

lemma calls_ask [simp]: "calls (ask f c) s = [c]"
  by (simp add: calls_def final_def)

lemma calls_check_err:
  assumes "stays (touches row K P) m" "stays (touches row K P) k"
  shows "calls (check_err m k) s = calls m s @ (if outcome m s = None then calls k (final m s) else [])"
proof -
  have "stays (touches row K P) (case e of None \<Rightarrow> k | Some x \<Rightarrow> ret (Some x))" for e
    using assms(2) by (cases e) (simp_all add: tw.stays_ret)
  then show ?thesis
    unfolding check_err_def by (subst calls_bind [OF assms(1)]) (auto split: option.splits)
qed

lemma final_wrap_err [simp]: "final (wrap_err msg m) s = final m s"
  by (simp add: wrap_err_def final_def split_beta)

lemma calls_wrap_err [simp]: "calls (wrap_err msg m) s = calls m s"
  by (simp add: calls_def)

lemma outcome_wrap_err [simp]: "outcome (wrap_err msg m) s = None \<longleftrightarrow> outcome m s = None"
  by (simp add: wrap_err_def outcome_def split_beta split: option.splits)

section \<open>Taking an instance down\<close>

text \<open>The slots whose instances a call stops: one, or all of the workload's.\<close>

fun stops_slot :: "call \<Rightarrow> int \<Rightarrow> bool" where
  "stops_slot (DriverStopInstance d ident n i) j = (j = i)"
| "stops_slot (DriverDiscardInstance d ident n i) j = (j = i)"
| "stops_slot (DriverStop d ident n) j = True"
| "stops_slot (DriverDiscard d ident n) j = True"
| "stops_slot _ j = False"

text \<open>A call that stops a slot in which something is up.\<close>

definition takes_down :: "Instance list \<Rightarrow> call \<Rightarrow> bool" where
  "takes_down is c \<longleftrightarrow> (\<exists>j. stops_slot c j \<and> list_ex running (at_index is j))"

text \<open>The stop of one instance the workload still wants, and the discard of one it has too many of.\<close>

definition roll_call :: "database_Workload \<Rightarrow> int \<Rightarrow> call \<Rightarrow> bool" where
  "roll_call row count c \<longleftrightarrow> (\<exists>j. 0 \<le> j \<and> j < count \<and> c = DriverStopInstance (row_Runtime row) (row_ID row) (row_Name row) j)"

definition excess_call :: "database_Workload \<Rightarrow> int \<Rightarrow> call \<Rightarrow> bool" where
  "excess_call row count c \<longleftrightarrow> (\<exists>j\<ge>count. c = DriverDiscardInstance (row_Runtime row) (row_ID row) (row_Name row) j)"

definition downs :: "Instance list \<Rightarrow> call list \<Rightarrow> nat" where
  "downs is cs = length (filter (takes_down is) cs)"

lemma downs_append [simp]: "downs is (cs @ ds) = downs is cs + downs is ds"
  by (simp add: downs_def)

lemma downs_none: "(\<And>c. c \<in> set cs \<Longrightarrow> \<not> takes_down is c) \<Longrightarrow> downs is cs = 0"
  by (simp add: downs_def)

lemma read_not_down: "read_call row c \<Longrightarrow> \<not> takes_down is c"
  by (cases c) (auto simp: takes_down_def)

lemma start_not_down: "start_call row i c \<Longrightarrow> \<not> takes_down is c"
  by (cases c) (auto simp: takes_down_def)

lemma upkeep_not_down: "upkeep_call row c \<Longrightarrow> \<not> takes_down is c"
  by (cases c) (auto simp: takes_down_def)

abbreviation any_call :: "call \<Rightarrow> bool" where
  "any_call \<equiv> (\<lambda>c. True)"

lemma weaken: "stays (touches row K P) m \<Longrightarrow> stays (touches row UNIV any_call) m"
  by (rule touches_mono) auto

lemma halt_down:
  "halt_call row i c \<Longrightarrow> \<not> list_ex running (at_index is i) \<Longrightarrow> \<not> takes_down is c"
  by (cases c) (auto simp: takes_down_def)

lemma stopInstance_downs: "downs is (calls (stopInstance r row i) s) \<le> 1"
proof (cases "driverFor r row")
  case None
  then show ?thesis by (simp add: stopInstance_def downs_def)
next
  case (Some d)
  let ?rest = "check_err (revoke_instance r row i) (do { forget_instance r (row_Name row) i; ret None })"
  have rest: "stays (touches row UNIV (\<lambda>c. \<not> takes_down is c)) ?rest"
    by (rule tw.stays_rules touches_revoke_instance touches_forget_instance | simp add: takes_down_def)+
  have "downs is (calls ?rest t) = 0" for t
    using calls_stays(2) [OF rest] by (intro downs_none) auto
  moreover have "calls (stopInstance r row i) s =
      calls (ask (cfg_error r) (DriverStopInstance d (row_ID row) (row_Name row) i)) s
      @ (if outcome (ask (cfg_error r) (DriverStopInstance d (row_ID row) (row_Name row) i)) s = None
         then calls ?rest (final (ask (cfg_error r) (DriverStopInstance d (row_ID row) (row_Name row) i)) s)
         else [])"
    using calls_check_err [where row = row and K = UNIV and P = any_call and k = ?rest, OF _ weaken [OF rest]]
    by (simp add: stopInstance_def Some tw.stays_wrap_err touches_ask)
  ultimately show ?thesis by (simp add: downs_def)
qed

lemma replace_slot_downs: "downs is (calls (replace_slot r row i why) s) \<le> 1"
proof -
  let ?quiet = "\<lambda>c. \<not> takes_down is c"
  let ?say = "case why of None \<Rightarrow> ret () | Some (reason, fs) \<Rightarrow> record_event r (row_Name row) reason fs"
  have say: "stays (touches row UNIV ?quiet) ?say"
    by (rule tw.stays_rules touches_record | simp add: takes_down_def)+
  have clear: "stays (touches row UNIV ?quiet) (clearReplacing (row_Name row) i)"
    by (rule touches_slot_memory) simp
  have go: "stays (touches row UNIV ?quiet) (start r row i InstanceStarted)"
    by (rule touches_start) (simp_all add: read_not_down start_not_down)
  have halt: "stays (touches row UNIV any_call) (wrap_err ''failed to stop stale instance'' (stopInstance r row i))"
    by (intro tw.stays_wrap_err touches_stopInstance) simp
  have none: "downs is (calls m t) = 0" if "stays (touches row UNIV ?quiet) m" for m :: "'b op" and t
    using calls_stays(2) [OF that] by (intro downs_none) auto
  note parts = weaken [OF say] weaken [OF clear] weaken [OF go]
  have "calls (replace_slot r row i why) s = calls ?say s
      @ calls (clearReplacing (row_Name row) i) (final ?say s)
      @ (let t = final (clearReplacing (row_Name row) i) (final ?say s) in
         calls (stopInstance r row i) t
         @ (if outcome (stopInstance r row i) t = None
            then calls (start r row i InstanceStarted) (final (stopInstance r row i) t) else []))"
    unfolding replace_slot_def
    by (simp add: calls_bind [OF parts(1)] calls_bind [OF parts(2)] calls_check_err [OF halt parts(3)]
        tw.stays_bind parts tw.stays_check_err halt Let_def)
  then show ?thesis
    using none [OF say] none [OF clear] none [OF go] stopInstance_downs
    by (simp add: Let_def downs_def)
qed

text \<open>
  With the flag set no slot with something up is taken down; without it, at most one is, and the flag
  comes back set.
\<close>

definition after_stale ::
  "config \<Rightarrow> database_Workload \<Rightarrow> int \<Rightarrow> Instance list \<Rightarrow> bool \<Rightarrow> Instance list \<times> (Reason \<times> Fields) option
     \<Rightarrow> (goerr option \<times> bool \<times> bool) op" where
  "after_stale r row i is replaced = (\<lambda>(stale, why).
     if stale \<noteq> [] then
       (if replaced then ret (None, list_ex running is, True)
        else do { err \<leftarrow> replace_slot r row i why; ret (err, False, True) })
     else do {
       (err, up) \<leftarrow> settle_slot r row i is;
       ret (err, up, replaced) })"

lemma convergeSlot_split:
  "convergeSlot r row i is replaced = (if list_ex terminating is then ret (None, True, replaced)
     else do { ended r row i is InstanceExited; x \<leftarrow> staleSlot r row i is;
               after_stale r row i is replaced x })"
  by (simp add: convergeSlot_def after_stale_def)

lemma quiet_none:
  "stays (touches row K (\<lambda>c. \<not> takes_down is c)) m \<Longrightarrow> downs is (calls m s) = 0"
  using calls_stays(2) by (intro downs_none) blast

lemma settle_slot_quiet:
  "stays (touches row UNIV (\<lambda>c. \<not> takes_down is c)) (settle_slot r row i (at_index is i))"
  by (rule touches_settle_slot) (auto simp: read_not_down start_not_down halt_down)

lemma after_stale_downs:
  assumes m_def: "m = after_stale r row i (at_index is i) replaced x"
  shows "downs is (calls m s) + (if replaced then 1 else 0)
    \<le> (if snd (snd (outcome m s)) then 1 else (0::nat))"
proof -
  obtain stale why where x: "x = (stale, why)" by (cases x)
  consider (wait) "stale \<noteq> []" "replaced" | (roll) "stale \<noteq> []" "\<not> replaced" | (settle) "stale = []" by blast
  then show ?thesis
  proof cases
    case wait
    then show ?thesis by (simp add: m_def after_stale_def x downs_def outcome_def)
  next
    case roll
    have "stays (touches row UNIV any_call) (replace_slot r row i why)"
      by (rule touches_replace_slot) simp_all
    then have "calls m s = calls (replace_slot r row i why) s"
      using roll by (simp add: m_def after_stale_def x calls_bind [where row = row] tw.stays_ret)
    then show ?thesis
      using roll replace_slot_downs [of "is" r row i why s]
      by (simp add: m_def after_stale_def x outcome_bind)
  next
    case settle
    have quiet: "stays (touches row UNIV (\<lambda>c. \<not> takes_down is c)) m"
      unfolding m_def after_stale_def x using settle
      by (auto intro!: tw.stays_bind tw.stays_prod tw.stays_ret settle_slot_quiet)
    have "snd (snd (outcome m s)) = replaced"
      using settle by (simp add: m_def after_stale_def x outcome_bind split_beta)
    then show ?thesis using quiet_none [OF quiet] by simp
  qed
qed

lemma convergeSlot_downs:
  assumes m_def: "m = convergeSlot r row i (at_index is i) replaced"
  shows "downs is (calls m s) + (if replaced then 1 else 0)
    \<le> (if snd (snd (outcome m s)) then 1 else (0::nat))"
proof (cases "list_ex terminating (at_index is i)")
  case True
  then show ?thesis by (simp add: m_def convergeSlot_def downs_def outcome_def)
next
  case False
  let ?q = "\<lambda>c. \<not> takes_down is c"
  let ?e = "ended r row i (at_index is i) InstanceExited" and ?st = "staleSlot r row i (at_index is i)"
  have e: "stays (touches row UNIV ?q) ?e" by (rule touches_ended) (simp_all add: read_not_down)
  have st: "stays (touches row UNIV ?q) ?st" by (rule touches_staleSlot) (simp_all add: read_not_down)
  have tail: "stays (touches row UNIV any_call) (after_stale r row i (at_index is i) replaced x)" for x
    unfolding after_stale_def
    by (intro tw.stays_prod tw.stays_if tw.stays_bind tw.stays_ret touches_replace_slot touches_settle_slot) simp_all
  have m: "m = do { u \<leftarrow> ?e; x \<leftarrow> ?st; after_stale r row i (at_index is i) replaced x }"
    using False by (simp add: m_def convergeSlot_split)
  note e' = weaken [OF e]
  note st' = weaken [OF st]
  let ?t = "final ?st (final ?e s)"
  let ?last = "after_stale r row i (at_index is i) replaced (outcome ?st (final ?e s))"
  have "calls m s = calls ?e s @ calls ?st (final ?e s) @ calls ?last ?t"
    by (simp add: m calls_bind [OF e'] calls_bind [OF st'] tail tw.stays_bind st')
  moreover have "outcome m s = outcome ?last ?t" by (simp add: m outcome_bind)
  ultimately show ?thesis
    using quiet_none [OF e] quiet_none [OF st] after_stale_downs [OF refl] by simp
qed

lemma converge_slots_downs:
  "downs is (calls (converge_slots r row is idx replaced up) s) \<le> (if replaced then 0 else 1)"
proof (induction idx arbitrary: replaced up s)
  case Nil
  then show ?case by (simp add: downs_def)
next
  case (Cons i idx)
  let ?m = "convergeSlot r row i (at_index is i) replaced"
  obtain err up1 rep1 where o: "outcome ?m s = (err, up1, rep1)" by (cases "outcome ?m s") auto
  have m: "stays (touches row UNIV any_call) ?m" by (rule touches_convergeSlot) simp_all
  have k: "stays (touches row UNIV any_call) (converge_slots r row is idx rep u)" for rep u
    by (rule touches_converge_slots) simp_all
  let ?f = "\<lambda>(err, up1, rep1). case err of Some e \<Rightarrow> ret (Some e, up)
      | None \<Rightarrow> converge_slots r row is idx rep1 (up \<or> up1)"
  have f: "stays (touches row UNIV any_call) (?f x)" for x
    by (cases x) (auto intro: tw.stays_ret k split: option.split)
  have "calls (converge_slots r row is (i # idx) replaced up) s = calls ?m s @ calls (?f (outcome ?m s)) (final ?m s)"
    unfolding converge_slots.simps by (rule calls_bind [OF m f])
  moreover have "downs is (calls (?f (outcome ?m s)) t) \<le> (if rep1 then 0 else 1)" for t
    using Cons.IH [of rep1 "up \<or> up1" t] by (cases err) (simp_all add: o downs_def [of _ "[]"])
  ultimately show ?case
    using convergeSlot_downs [OF refl, of "is" r row i replaced s] by (auto simp: o split: if_splits) 
qed

section \<open>Converging a workload\<close>

definition after_excess ::
  "config \<Rightarrow> database_Workload \<Rightarrow> Instance list \<Rightarrow> int \<Rightarrow> reconciler action" where
  "after_excess r row is count = do {
     replaced \<leftarrow> rolling r row count is;
     (err, anyRunning) \<leftarrow> converge_slots r row is [0..count - 1] replaced False;
     case err of
       Some e \<Rightarrow> ret (Some e)
     | None \<Rightarrow> if \<not> anyRunning then ret None else refresh r row }"

definition take_request :: "config \<Rightarrow> database_Workload \<Rightarrow> int \<Rightarrow> unit op" where
  "take_request r row count = do {
     requested \<leftarrow> restartRequested (row_Name row);
     if requested then do {
       record_event r (row_Name row) RestartRequested no_fields;
       markReplacing (row_Name row) count }
     else ret () }"

lemma converge_running_split:
  "converge_running r row is indexes count =
     do { take_request r row count; check_err (remove_excess r row count indexes) (after_excess r row is count) }"
  by (simp add: converge_running_def take_request_def after_excess_def bind_assoc)

lemma after_excess_any: "stays (touches row UNIV any_call) (after_excess r row is count)"
  unfolding after_excess_def
  by (intro tw.stays_bind tw.stays_prod tw.stays_option tw.stays_if tw.stays_ret touches_rolling
      touches_converge_slots touches_refresh) simp_all

lemma take_request_quiet:
  "stays (touches row UNIV (\<lambda>c. \<not> takes_down is c)) (take_request r row count)"
  unfolding take_request_def
  by (intro tw.stays_rules touches_own_memory touches_record touches_workload_memory) (simp_all add: takes_down_def)

lemma remove_excess_only:
  "stays (touches row UNIV (\<lambda>c. takes_down is c \<longrightarrow> excess_call row count c)) (remove_excess r row count indexes)"
proof (rule touches_remove_excess)
  show "takes_down is c \<longrightarrow> excess_call row count c" if "count \<le> i" "drop_call row i c" for i c
    using that by (cases c) (auto simp: takes_down_def excess_call_def)
qed (simp_all add: read_not_down)

lemma after_excess_only:
  "stays (touches row UNIV (\<lambda>c. takes_down is c \<longrightarrow> roll_call row count c)) (after_excess r row is count)"
proof -
  have halt: "takes_down is c \<longrightarrow> roll_call row count c" if "i \<in> set [0..count - 1]" "halt_call row i c" for i c
    using that by (cases c) (auto simp: takes_down_def roll_call_def)
  note quiet = read_not_down [THEN notE] start_not_down [THEN notE] upkeep_not_down [THEN notE]
  show ?thesis
    unfolding after_excess_def
    by (intro tw.stays_bind tw.stays_prod tw.stays_option tw.stays_if tw.stays_ret touches_rolling
        touches_converge_slots touches_refresh) (erule (1) halt | blast intro: quiet | simp)+
qed

lemma refresh_quiet: "stays (touches row UNIV (\<lambda>c. \<not> takes_down is c)) (refresh r row)"
  by (rule touches_refresh) (simp_all add: read_not_down upkeep_not_down)

lemma after_excess_downs:
  "downs is (calls (after_excess r row is count) s)
    \<le> (if outcome (rolling r row count is) s then 0 else 1)"
proof -
  let ?q = "\<lambda>c. \<not> takes_down is c"
  let ?k = "\<lambda>(err, up). case err of Some e \<Rightarrow> ret (Some e)
      | None \<Rightarrow> if \<not> up then ret None else refresh r row"
  let ?t = "final (rolling r row count is) s"
  let ?m = "converge_slots r row is [0..count - 1] (outcome (rolling r row count is) s) False"
  have roll: "stays (touches row UNIV ?q) (rolling r row count is)"
    by (rule touches_rolling) (simp add: read_not_down)
  note roll' = weaken [OF roll]
  have k: "stays (touches row UNIV ?q) (?k x)" for x
    by (cases x) (auto intro: tw.stays_ret refresh_quiet split: option.split)
  note k' = weaken [OF k]
  have slots: "stays (touches row UNIV any_call) (converge_slots r row is idx b u)" for idx b u
    by (rule touches_converge_slots) simp_all
  have "calls (after_excess r row is count) s
      = calls (rolling r row count is) s @ calls ?m ?t @ calls (?k (outcome ?m ?t)) (final ?m ?t)"
    unfolding after_excess_def
    by (subst calls_bind [OF roll'], intro tw.stays_bind slots k', subst calls_bind [OF slots k']) (rule refl)
  then show ?thesis
    using quiet_none [OF roll] quiet_none [OF k] converge_slots_downs by simp
qed

text \<open>What converging a running workload takes down: the excess first, and then what it rolls.\<close>

lemma converge_running_calls:
  assumes s1: "s1 = final (take_request r row count) s"
  shows "\<exists>excess roll. filter (takes_down is) (calls (converge_running r row is indexes count) s) = excess @ roll
    \<and> (\<forall>c\<in>set excess. excess_call row count c) \<and> (\<forall>c\<in>set roll. roll_call row count c)
    \<and> length roll \<le> (if outcome (rolling r row count is) (final (remove_excess r row count indexes) s1) then 0 else 1)"
proof (intro exI conjI)
  let ?ex = "remove_excess r row count indexes"
  let ?s2 = "final ?ex s1"
  let ?roll = "if outcome ?ex s1 = None then calls (after_excess r row is count) ?s2 else []"
  note q' = weaken [OF take_request_quiet]
  note x' = weaken [OF remove_excess_only]
  have "filter (takes_down is) (calls (take_request r row count) s) = []"
    using calls_stays(2) [OF take_request_quiet] by (simp add: filter_empty_conv)
  then show "filter (takes_down is) (calls (converge_running r row is indexes count) s)
      = filter (takes_down is) (calls ?ex s1) @ filter (takes_down is) ?roll"
    unfolding converge_running_split s1
    by (simp add: calls_bind [OF q'] tw.stays_check_err [OF x' after_excess_any] calls_check_err [OF x' after_excess_any])
  show "\<forall>c\<in>set (filter (takes_down is) (calls ?ex s1)). excess_call row count c"
    using calls_stays(2) [OF remove_excess_only] by fastforce
  show "\<forall>c\<in>set (filter (takes_down is) ?roll). roll_call row count c"
    using calls_stays(2) [OF after_excess_only] by fastforce
  show "length (filter (takes_down is) ?roll) \<le> (if outcome (rolling r row count is) ?s2 then 0 else 1)"
    using after_excess_downs [where s = ?s2 and row = row and r = r and count = count, of "is"] by (auto simp: downs_def split: if_splits)
qed

text \<open>A workload that is to be kept running: it is neither deleted nor suspended and has no schedule.\<close>

definition kept_running :: "config \<Rightarrow> database_Workload \<Rightarrow> bool" where
  "kept_running r row \<longleftrightarrow> IsZero (row_DeletedAt row) \<and> IsZero (row_SuspendedAt row)
     \<and> (case DecodeWorkload (cfg_unmarshal r) (row_Spec row) of
          Inl e \<Rightarrow> True
        | Inr spec \<Rightarrow> (case spec_Schedule spec of None \<Rightarrow> True | Some d \<Rightarrow> isl (cfg_cron r (sch_Cron d))))"

lemma schedule_kept_running: "kept_running r row \<Longrightarrow> outcome (schedule r row) s = None"
  by (auto simp: kept_running_def schedule_def outcome_bind isl_def split: sum.splits option.splits)

text \<open>Keeping one component of the state is a frame too.\<close>

definition keeps :: "(reconciler \<Rightarrow> 'v) \<Rightarrow> reconciler \<Rightarrow> reconciler \<Rightarrow> bool" where
  "keeps f s t \<longleftrightarrow> f t = f s"

interpretation kp: frame "keeps f" for f
  by unfold_locales (simp_all add: keeps_def)

lemma keeps_ask: "(\<And>s h. f (s\<lparr>rs_trace := h\<rparr>) = f s) \<Longrightarrow> stays (keeps f) (ask g c)"
  by (simp add: stays_def final_def keeps_def)

lemma keeps_restarts:
  "stays (keeps rs_restarts) (reclaimSuperseded r row is)" "stays (keeps rs_restarts) (schedule r row)"
  unfolding reclaimSuperseded_def reclaim_calls_def reclaimedVersion_def markReclaimed_def schedule_def
    record_event_def tell_def
  by (rule kp.stays_rules keeps_ask kp.stays_modify | simp add: keeps_def)+

lemma slotHash_plain:
  "\<not> reads_workload (row_Spec row) \<Longrightarrow> \<not> expands_file (row_Spec row)
    \<Longrightarrow> slotHash r row i = ret (Inr (row_SpecHash row))"
  by (simp add: slotHash_def)

text \<open>An instance that is the outcome of a replacement and has not settled keeps the roll in flight.\<close>

lemma rolling_in_flight:
  assumes plain: "\<not> reads_workload (row_Spec row)" "\<not> expands_file (row_Spec row)"
    and x: "x \<in> set is" "inst_SpecHash x = row_SpecHash row" "\<not> inst_Retained x"
      "\<forall>h. \<not> settled x (cfg_now r h)" "0 \<le> inst_Index x" "inst_Index x < count"
    and s: "rs_replacing s (Slot (row_Name row) (inst_Index x)) = None"
  shows "outcome (rolling r row count is) s"
proof -
  have "outcome (rolling_over r row (cfg_now r h) is idx) t"
    if "inst_Index x \<in> set idx" "rs_replacing t (Slot (row_Name row) (inst_Index x)) = None" for h idx t
    using that
  proof (induction idx)
    case (Cons j idx)
    have "x \<in> set (at_index is (inst_Index x))" using x(1) by (simp add: at_index_def)
    then have "list_ex (\<lambda>y. inst_SpecHash y = row_SpecHash row \<and> \<not> inst_Retained y
        \<and> \<not> settled y (cfg_now r h)) (at_index is (inst_Index x))"
      using x(2-4) by (auto simp: list_ex_iff)
    with Cons show ?case
      by (auto simp: slotHash_plain [OF plain] replacingRequested_def outcome_def)
  qed simp
  then have "outcome (rolling_over r row (cfg_now r (rs_trace s)) is [0..count - 1])
      (s\<lparr>rs_trace := rs_trace s @ [ClockRead]\<rparr>)"
    using x(5,6) s by simp
  then show ?thesis by (simp add: rolling_def read_now_def outcome_def)
qed

lemma take_request_none:
  "row_Name row \<notin> rs_restarts s \<Longrightarrow> final (take_request r row count) s = s"
  by (simp add: take_request_def restartRequested_def final_def)

lemma rolling_held:
  assumes plain: "\<not> reads_workload (row_Spec row)" "\<not> expands_file (row_Spec row)"
    and x: "x \<in> set is" "inst_SpecHash x = row_SpecHash row" "\<not> inst_Retained x"
      "\<forall>h. \<not> settled x (cfg_now r h)" "0 \<le> inst_Index x" "inst_Index x < count"
    and s: "row_Name row \<notin> rs_restarts s" "rs_replacing s (Slot (row_Name row) (inst_Index x)) = None"
  shows "outcome (rolling r row count is) (final (remove_excess r row count indexes) (final (take_request r row count) s))"
proof -
  let ?ex = "remove_excess r row count indexes" and ?K = "{Slot (row_Name row) j |j. j \<ge> count}"
  have "stays (touches row ?K any_call) ?ex" by (rule touches_remove_excess) auto
  then have "rs_replacing (final ?ex s) (Slot (row_Name row) (inst_Index x)) = None"
    using stays_final [of _ ?ex s] s(2) x(6) by (fastforce simp: touches_def same_outside_def)
  then have "outcome (rolling r row count is) (final ?ex s)"
    by (rule rolling_in_flight [OF plain x])
  then show ?thesis by (simp add: take_request_none s(1))
qed

text \<open>Converging a workload that is kept running takes down what \<open>converge_running\<close> does, from the same requests.\<close>

lemma converge_kept_running:
  assumes "kept_running r row"
  obtains "filter (takes_down is) (calls (converge r row is indexes) s) = []"
  | t where "filter (takes_down is) (calls (converge r row is indexes) s)
      = filter (takes_down is) (calls (converge_running r row is indexes (countOf r row)) t)"
    "rs_restarts t = rs_restarts s" "rs_replacing t = rs_replacing s"
proof (cases "driverFor r row")
  case None
  then show ?thesis using assms that(1) by (simp add: kept_running_def converge_def)
next
  case (Some d)
  let ?run = "converge_running r row is indexes (countOf r row)"
  let ?f = "\<lambda>x. case x of Some next_after \<Rightarrow> converge_scheduled r row is (countOf r row) next_after | None \<Rightarrow> ?run"
  let ?s1 = "final (reclaimSuperseded r row is) s" let ?s2 = "final (schedule r row) ?s1"
  have reclaim: "stays (touches row {} (\<lambda>c. \<not> takes_down is c)) (reclaimSuperseded r row is)"
    by (rule touches_reclaimSuperseded) (simp add: upkeep_not_down)
  have sched: "stays (touches row {} (\<lambda>c. \<not> takes_down is c)) (schedule r row)"
    by (rule touches_schedule) (simp add: read_not_down)
  have run: "stays (touches row UNIV any_call) ?run"
    unfolding converge_running_split
    by (intro tw.stays_bind tw.stays_check_err after_excess_any weaken [OF take_request_quiet]
        weaken [OF remove_excess_only])
  have later: "stays (touches row UNIV any_call) (?f x)" for x
    using run unfolding converge_scheduled_def
    by (intro tw.stays_rules touches_own_memory touches_record touches_stop touches_startAll touches_occurrence) auto
  have tail: "stays (touches row UNIV any_call) (State_Monad.bind (schedule r row) ?f)"
    by (intro tw.stays_bind weaken [OF sched] later)
  have "converge r row is indexes = State_Monad.bind (reclaimSuperseded r row is) (\<lambda>u. State_Monad.bind (schedule r row) ?f)"
    using assms by (simp add: converge_def Some kept_running_def Let_def)
  then have "calls (converge r row is indexes) s
      = calls (reclaimSuperseded r row is) s @ calls (schedule r row) ?s1 @ calls ?run ?s2"
    by (simp add: calls_bind [OF weaken [OF reclaim] tail] calls_bind [OF weaken [OF sched] later]
        schedule_kept_running [OF assms])
  moreover have "filter (takes_down is) (calls (reclaimSuperseded r row is) s) = []"
    "filter (takes_down is) (calls (schedule r row) ?s1) = []"
    using calls_stays(2) [OF reclaim, of _ s] calls_stays(2) [OF sched, of _ ?s1] by (simp_all add: filter_empty_conv)
  moreover have "rs_restarts ?s2 = rs_restarts s"
    using stays_final [OF keeps_restarts(1), of s] stays_final [OF keeps_restarts(2), of ?s1] by (simp add: keeps_def)
  moreover have "rs_replacing ?s2 = rs_replacing s"
    using stays_final [OF reclaim, of s] stays_final [OF sched, of ?s1] by (simp add: touches_def same_outside_def fun_eq_iff)
  ultimately show ?thesis using that(2) [of ?s2] by simp
qed

section \<open>Properties\<close>

text \<open>
  C33. Converging one workload touches that workload alone. Whatever the surroundings answer, what is
  remembered of every other workload's slots, restart requests and reclaims is unchanged, and every call
  it makes is about the workload itself: to its own runtime's driver under its own name and identifier,
  to the stores under its own name or identifier, to the recorder under its own name, or a read.
\<close>

theorem converge_isolated:
  "touches row (workload_slots row) (own_call row) s (final (converge r row is indexes) s)"
  by (rule stays_final [OF touches_converge])

text \<open>
  One instance never touches its siblings: converging slot \<open>i\<close> changes what is remembered of slot \<open>i\<close>
  alone, and every call that changes anything names instance \<open>i\<close> of the workload.
\<close>

lemma convergeSlot_isolated:
  "touches row {Slot (row_Name row) i} (slot_call row i) s (final (convergeSlot r row i is replaced) s)"
  by (rule stays_final, rule touches_convergeSlot) (auto simp: slot_call_def)

text \<open>
  C1. A change rolls one instance at a time. Converging a workload that is to be kept running, one that is
  neither deleted nor suspended and has no schedule, first discards the instances beyond its count, and
  then stops at most one of the slots it wants in which something is up, however many slots are stale,
  whatever made them stale, a restart that was asked for included, and whatever the surroundings answer. No
  other call of it, to stop or discard an instance or the whole workload, touches a slot that is up.
\<close>

theorem one_replacement_per_pass:
  assumes "kept_running r row"
  shows "\<exists>excess roll. filter (takes_down is) (calls (converge r row is indexes) s) = excess @ roll
    \<and> (\<forall>c\<in>set excess. excess_call row (countOf r row) c)
    \<and> (\<forall>c\<in>set roll. roll_call row (countOf r row) c) \<and> length roll \<le> 1"
proof (rule converge_kept_running [OF assms, of "is" indexes s])
  fix t
  assume same: "filter (takes_down is) (calls (converge r row is indexes) s)
      = filter (takes_down is) (calls (converge_running r row is indexes (countOf r row)) t)"
  have "length roll \<le> 1" if "length roll \<le> (if b then 0 else 1)" for roll :: "call list" and b
    using that by (simp split: if_splits)
  then show ?thesis
    using converge_running_calls [OF refl, of "is" r row indexes "countOf r row" t] unfolding same by blast
qed simp

lemma example_kept_running: "kept_running example_config example_wrow"
  by code_simp

theorem one_replacement_per_pass_witness:
  "\<exists>excess roll. filter (takes_down [example_winst StateRunning])
      (calls (converge example_config example_wrow [example_winst StateRunning] [0, 1]) new_reconciler) = excess @ roll
    \<and> length roll \<le> 1"
  using one_replacement_per_pass [OF example_kept_running] by blast

text \<open>
  C2. Nothing that is up is replaced while a replacement is in flight: for a workload that is to be kept
  running and references no other, as long as one of its slots holds an instance of the current specification
  that has not settled (not up for the settle period, or not past its health check) and no restart was asked
  for, the only instances that are up which converging it stops are those beyond its count. A replacement
  that never settles therefore holds the roll at one instance.
\<close>

theorem roll_held_until_settled:
  assumes "kept_running r row" "\<not> reads_workload (row_Spec row)" "\<not> expands_file (row_Spec row)"
    and "x \<in> set is" "inst_SpecHash x = row_SpecHash row" "\<not> inst_Retained x"
    and "\<forall>h. \<not> settled x (cfg_now r h)" "0 \<le> inst_Index x" "inst_Index x < countOf r row"
    and "row_Name row \<notin> rs_restarts s" "rs_replacing s (Slot (row_Name row) (inst_Index x)) = None"
    and "c \<in> set (calls (converge r row is indexes) s)" "takes_down is c"
  shows "excess_call row (countOf r row) c"
proof (rule converge_kept_running [OF assms(1), of "is" indexes s])
  have it: "c \<in> set (filter (takes_down is) (calls (converge r row is indexes) s))" using assms(12,13) by simp
  show ?thesis if "filter (takes_down is) (calls (converge r row is indexes) s) = []"
    using it unfolding that by simp
  fix t
  assume same: "filter (takes_down is) (calls (converge r row is indexes) s)
      = filter (takes_down is) (calls (converge_running r row is indexes (countOf r row)) t)"
    and t: "rs_restarts t = rs_restarts s" "rs_replacing t = rs_replacing s"
  have "outcome (rolling r row (countOf r row) is) (final (remove_excess r row (countOf r row) indexes)
      (final (take_request r row (countOf r row)) t))"
    by (rule rolling_held [OF assms(2-9)]) (use assms(10,11) t in simp_all)
  then show ?thesis
    using it converge_running_calls [OF refl, of "is" r row indexes "countOf r row" t] unfolding same by auto
qed

lemma example_count: "countOf example_config example_wrow \<ge> 1"
  by (simp add: countOf_def split: sum.split)

text \<open>An instance that is pending in slot 0, and one that is up beyond the count.\<close>

theorem roll_held_until_settled_witness:
  "filter (\<lambda>c. takes_down [example_winst StatePending, (example_winst StateRunning)\<lparr>inst_Index := 1\<rparr>] c
        \<and> \<not> excess_call example_wrow (countOf example_config example_wrow) c)
      (calls (converge example_config example_wrow
        [example_winst StatePending, (example_winst StateRunning)\<lparr>inst_Index := 1\<rparr>] [0, 1]) new_reconciler) = []"
  unfolding filter_empty_conv
  using roll_held_until_settled [OF example_kept_running, of "example_winst StatePending"
      "[example_winst StatePending, (example_winst StateRunning)\<lparr>inst_Index := 1\<rparr>]" new_reconciler _ "[0, 1]"] example_count
  by (auto simp: example_wrow_def example_winst_def reads_workload_def expands_file_def settled_def
      new_reconciler_def)

end
