(* ===== verification/Reconciler_Lifecycle.thy ===== *)
theory Reconciler_Lifecycle
  imports Reconciler_Rollout
begin

text \<open>
  How a workload leaves: the order in which a deletion takes things down, what a suspension stops and
  keeps, and what is forgotten afterwards. A sequence of calls each of which is made only when the one
  before answered no error is a plan; the operations are shown to carry out the plans the code's comments
  describe.
\<close>

section \<open>Plans\<close>

fun until_error :: "config \<Rightarrow> history \<Rightarrow> call list \<Rightarrow> call list" where
  "until_error r h [] = []"
| "until_error r h (c # cs) =
     c # (if cfg_error r h c = None then until_error r (h @ [c]) cs else [])"

fun all_ok :: "config \<Rightarrow> history \<Rightarrow> call list \<Rightarrow> bool" where
  "all_ok r h [] = True"
| "all_ok r h (c # cs) \<longleftrightarrow> cfg_error r h c = None \<and> all_ok r (h @ [c]) cs"

lemma all_ok_complete: "all_ok r h cs \<Longrightarrow> until_error r h cs = cs"
  by (induction cs arbitrary: h) auto

lemma all_ok_append: "all_ok r h (cs @ ds) \<longleftrightarrow> all_ok r h cs \<and> all_ok r (h @ cs) ds"
  by (induction cs arbitrary: h) auto

lemma until_error_append:
  "until_error r h (cs @ ds) = until_error r h cs @ (if all_ok r h cs then until_error r (h @ cs) ds else [])"
  by (induction cs arbitrary: h) auto

text \<open>An operation that does nothing but carry out a plan.\<close>

definition carries_out :: "config \<Rightarrow> call list \<Rightarrow> reconciler action \<Rightarrow> bool" where
  "carries_out r cs m \<longleftrightarrow> (\<forall>s.
     final m s = s\<lparr>rs_trace := rs_trace s @ until_error r (rs_trace s) cs\<rparr>
     \<and> (outcome m s = None \<longleftrightarrow> all_ok r (rs_trace s) cs))"

lemma carries_out_ret: "carries_out r [] (ret None)"
  by (simp add: carries_out_def final_def outcome_def)

lemma carries_out_ask: "carries_out r [c] (ask (cfg_error r) c)"
  by (simp add: carries_out_def final_def outcome_def)

lemma carries_out_wrap: "carries_out r cs m \<Longrightarrow> carries_out r cs (wrap_err msg m)"
  by (simp add: carries_out_def)

lemma run_check_err:
  "final (check_err m k) s = (if outcome m s = None then final k (final m s) else final m s)"
  "outcome (check_err m k) s = (if outcome m s = None then outcome k (final m s) else outcome m s)"
  by (auto simp: check_err_def final_def outcome_def split_beta split: option.splits)

lemma carries_out_check:
  assumes "carries_out r cs m" "carries_out r ds k"
  shows "carries_out r (cs @ ds) (check_err m k)"
  using assms by (auto simp: carries_out_def run_check_err until_error_append all_ok_append all_ok_complete)

lemma carries_out_calls: "carries_out r cs m \<Longrightarrow> calls m s = until_error r (rs_trace s) cs"
  by (simp add: carries_out_def calls_def)

lemmas carries_out_rules = carries_out_ret carries_out_ask carries_out_wrap

section \<open>The plans\<close>

definition discard_plan :: "config \<Rightarrow> database_Workload \<Rightarrow> call list" where
  "discard_plan r row = (case driverFor r row of
       None \<Rightarrow> [] | Some d \<Rightarrow> [DriverDiscard d (row_ID row) (row_Name row)])"

definition release_plan :: "config \<Rightarrow> database_Workload \<Rightarrow> call list" where
  "release_plan r row = (if cfg_mounts r then [MountsForget (row_ID row)] else [])
     @ (if cfg_tokens r then [TokensRevokeForWorkload (row_ID row)] else [])"

definition teardown_plan :: "config \<Rightarrow> database_Workload \<Rightarrow> call list" where
  "teardown_plan r row = discard_plan r row @ release_plan r row @ [WorkloadsDelete (row_Name row)]"

lemma discard_carries_out: "carries_out r (discard_plan r row) (discard r row)"
  by (auto simp: discard_plan_def discard_def intro: carries_out_rules split: option.split)

lemma forget_mounts_carries_out:
  "carries_out r (if cfg_mounts r then [MountsForget (row_ID row)] else []) (forget_mounts r row)"
  by (auto simp: forget_mounts_def intro: carries_out_rules)

lemma revoke_workload_carries_out:
  "carries_out r (if cfg_tokens r then [TokensRevokeForWorkload (row_ID row)] else []) (revoke_workload r row)"
  by (auto simp: revoke_workload_def intro: carries_out_rules)

lemma release_carries_out:
  "carries_out r (release_plan r row) (check_err (forget_mounts r row) (revoke_workload r row))"
  unfolding release_plan_def
  by (intro carries_out_check forget_mounts_carries_out revoke_workload_carries_out)

text \<open>A plan followed by forgetting, which makes no call.\<close>

lemma plan_then:
  assumes "carries_out r cs m" "\<And>s. rs_trace (final f s) = rs_trace s"
  shows "calls (check_err m (do { u \<leftarrow> f; ret None })) s = until_error r (rs_trace s) cs"
    and "outcome (check_err m (do { u \<leftarrow> f; ret None })) s = None \<longleftrightarrow> all_ok r (rs_trace s) cs"
    and "all_ok r (rs_trace s) cs \<Longrightarrow> final (check_err m (do { u \<leftarrow> f; ret None })) s
        = final f (s\<lparr>rs_trace := rs_trace s @ cs\<rparr>)"
proof -
  have fin: "final (do { u \<leftarrow> f; ret None }) t = final f t"
    and out: "outcome (do { u \<leftarrow> f; ret None }) t = None" for t
    by (simp_all add: final_def outcome_def split_beta)
  show "calls (check_err m (do { u \<leftarrow> f; ret None })) s = until_error r (rs_trace s) cs"
    using assms(1) assms(2) by (simp add: carries_out_def calls_def run_check_err fin)
  show "outcome (check_err m (do { u \<leftarrow> f; ret None })) s = None \<longleftrightarrow> all_ok r (rs_trace s) cs"
    using assms(1) by (auto simp: carries_out_def run_check_err out)
  show "all_ok r (rs_trace s) cs \<Longrightarrow> final (check_err m (do { u \<leftarrow> f; ret None })) s
        = final f (s\<lparr>rs_trace := rs_trace s @ cs\<rparr>)"
    using assms(1) by (simp add: carries_out_def run_check_err fin all_ok_complete)
qed

lemma check_err_assoc: "check_err (check_err a b) c = check_err a (check_err b c)"
proof (rule state.expand)
  show "run_state (check_err (check_err a b) c) = run_state (check_err a (check_err b c))"
    by (rule ext) (auto simp: check_err_def split_beta split: option.split)
qed

lemma forget_deleted_run:
  "final (forget_deleted row) s = s\<lparr>
     rs_exits := drop_workload (row_Name row) (rs_exits s),
     rs_verdicts := drop_workload (row_Name row) (rs_verdicts s),
     rs_unhealthy := drop_workload (row_Name row) (rs_unhealthy s),
     rs_backoff := drop_workload (row_Name row) (rs_backoff s),
     rs_held := (\<lambda>k. if slot_workload k = row_Name row \<and> rs_started s k \<noteq> None then None else rs_held s k),
     rs_started := drop_workload (row_Name row) (rs_started s),
     rs_pulling := drop_workload (row_Name row) (rs_pulling s),
     rs_reclaimed := (rs_reclaimed s)(row_ID row := None),
     rs_restarts := rs_restarts s - {row_Name row},
     rs_replacing := drop_workload (row_Name row) (rs_replacing s)\<rparr>"
  by (simp add: forget_deleted_def settleAll_def forgetRun_def forgetStarted_def forgetReclaimed_def
      restartRequested_def forgetReplacing_def final_def cong: if_cong)

lemma teardown_empty:
  "\<exists>m. carries_out r (teardown_plan r row) m
    \<and> teardown r row [] = check_err m (do { u \<leftarrow> forget_deleted row; ret None })"
proof -
  let ?del = "wrap_err ''failed to delete workload'' (ask (cfg_error r) (WorkloadsDelete (row_Name row)))"
  let ?m = "check_err (discard r row) (check_err (check_err (forget_mounts r row) (revoke_workload r row)) ?del)"
  have "carries_out r (teardown_plan r row) ?m"
    unfolding teardown_plan_def
    by (intro carries_out_check discard_carries_out release_carries_out carries_out_wrap carries_out_ask)
  moreover have "teardown r row [] = check_err ?m (do { u \<leftarrow> forget_deleted row; ret None })"
    by (simp add: teardown_def check_err_assoc)
  ultimately show ?thesis by blast
qed

section \<open>Properties\<close>

text \<open>
  A deletion goes in order and the row goes last. While anything is observed nothing but a discard is
  asked for, and nothing at all while an instance is terminating. Once nothing is observed, the driver
  discards what it kept, the mounted values are removed, the tokens are revoked and then the row is
  deleted, each only when everything before it succeeded; the operation reports no error exactly when all
  of them succeeded. So a failure at any point leaves the row, and the deletion is tried again.
\<close>

lemma teardown_in_order:
  "calls (teardown r row is) s =
     until_error r (rs_trace s)
       (if is = [] then teardown_plan r row else if list_ex terminating is then [] else discard_plan r row)
   \<and> (outcome (teardown r row is) s = None \<longleftrightarrow> all_ok r (rs_trace s)
       (if is = [] then teardown_plan r row else if list_ex terminating is then [] else discard_plan r row))"
proof (cases "is = []")
  case True
  obtain m where "carries_out r (teardown_plan r row) m"
    "teardown r row [] = check_err m (do { u \<leftarrow> forget_deleted row; ret None })"
    using teardown_empty by blast
  with True show ?thesis using plan_then(1,2) [of r _ m "forget_deleted row"] by (simp add: forget_deleted_run)
next
  case False
  have "carries_out r (if list_ex terminating is then [] else discard_plan r row) (teardown r row is)"
    using False by (auto simp: teardown_def intro: carries_out_ret carries_out_wrap discard_carries_out)
  with False show ?thesis by (simp add: carries_out_calls) (simp add: carries_out_def)
qed

text \<open>
  A completed deletion leaves nothing behind for a later workload of the same name: no pacing, no
  ending, no verdict, no mark of a start, a pull or a replacement, no restart request and no reclaim; and
  the readiness hold of every slot that had started is gone.
\<close>

lemma teardown_forgets:
  assumes "outcome (teardown r row []) s = None" "t = final (teardown r row []) s"
  shows "(\<forall>k. slot_workload k = row_Name row \<longrightarrow>
      rs_backoff t k = None \<and> rs_exits t k = None \<and> rs_verdicts t k = None \<and> rs_unhealthy t k = None
      \<and> rs_started t k = None \<and> rs_pulling t k = None \<and> rs_replacing t k = None
      \<and> (rs_started s k \<noteq> None \<longrightarrow> rs_held t k = None))
    \<and> row_Name row \<notin> rs_restarts t \<and> rs_reclaimed t (row_ID row) = None"
proof -
  obtain m where "carries_out r (teardown_plan r row) m"
    "teardown r row [] = check_err m (do { u \<leftarrow> forget_deleted row; ret None })"
    using teardown_empty by blast
  then have "t = final (forget_deleted row) (s\<lparr>rs_trace := rs_trace s @ teardown_plan r row\<rparr>)"
    using assms plan_then(2,3) [of r _ m "forget_deleted row" s] by (simp add: forget_deleted_run)
  then show ?thesis by (simp add: forget_deleted_run)
qed

definition example_deleted :: database_Workload where
  "example_deleted = example_wrow\<lparr>row_DeletedAt := 7\<rparr>"

definition example_memory :: reconciler where
  "example_memory = new_reconciler\<lparr>rs_backoff := [Slot ''web'' 0 \<mapsto> no_backoff],
     rs_held := [Slot ''web'' 0 \<mapsto> 5]\<rparr>"

lemma example_all_ok: "all_ok example_config h cs"
  by (induction cs arbitrary: h) (simp_all add: example_config_def)

lemma example_teardown_ok: "outcome (teardown example_config example_deleted []) example_memory = None"
proof -
  obtain m where "carries_out example_config (teardown_plan example_config example_deleted) m"
    "teardown example_config example_deleted [] = check_err m (do { u \<leftarrow> forget_deleted example_deleted; ret None })"
    using teardown_empty by blast
  then show ?thesis
    using plan_then(2) [of example_config _ m "forget_deleted example_deleted"] example_all_ok
    by (simp add: forget_deleted_run)
qed

text \<open>
  The readiness hold is the exception of \<open>teardown_forgets\<close>: a workload deleted while its slot was held, before it
  ever started, leaves its hold behind, because the loop that forgets holds ranges over the slots that
  started. A later workload of the same name whose target is not ready is then not held at all: the wait is
  measured from the hold its predecessor left.
\<close>

lemma hold_survives_deletion:
  "outcome (teardown example_config example_deleted []) example_memory = None
   \<and> rs_held (final (teardown example_config example_deleted []) example_memory) (Slot ''web'' 0) = Some 5
   \<and> \<not> outcome (hold_slot example_config example_wrow 0 \<lparr>tgt_Workload = ''db'', tgt_Instance = 0\<rparr> new_Result)
        (final (teardown example_config example_deleted []) example_memory)"
proof -
  let ?t = "final (teardown example_config example_deleted []) example_memory"
  obtain m where m: "carries_out example_config (teardown_plan example_config example_deleted) m"
    "teardown example_config example_deleted [] = check_err m (do { u \<leftarrow> forget_deleted example_deleted; ret None })"
    using teardown_empty by blast
  then have t: "?t = final (forget_deleted example_deleted) (example_memory\<lparr>rs_trace :=
      rs_trace example_memory @ teardown_plan example_config example_deleted\<rparr>)"
    using plan_then(3) [OF m(1), of "forget_deleted example_deleted" example_memory] example_all_ok
    by (simp add: forget_deleted_run)
  have held: "rs_held ?t (Slot ''web'' 0) = Some 5"
    unfolding t by (simp add: forget_deleted_run example_memory_def new_reconciler_def)
  have "\<not> outcome (hold_slot example_config example_wrow 0 \<lparr>tgt_Workload = ''db'', tgt_Instance = 0\<rparr> new_Result) u"
    if "rs_held u (Slot ''web'' 0) = Some 5" for u
    using that by (simp add: hold_slot_def hold_since_def read_now_def outcome_def example_wrow_def
        example_config_def time_Sub_def maxDuration_def minDuration_def Let_def record_event_def tell_def
        markStarted_def)
  with held example_teardown_ok show ?thesis by blast
qed

definition stop_plan :: "config \<Rightarrow> database_Workload \<Rightarrow> call list" where
  "stop_plan r row = (case driverFor r row of
       None \<Rightarrow> [] | Some d \<Rightarrow> [DriverStop d (row_ID row) (row_Name row)])"

lemma stop_calls:
  "calls (stop r row) s = until_error r (rs_trace s) (stop_plan r row)
     @ (if all_ok r (rs_trace s) (stop_plan r row) \<and> cfg_checker r then [CheckerForget (row_Name row)] else [])"
proof (cases "driverFor r row")
  case None
  then show ?thesis
    by (simp add: stop_def stop_plan_def forget_def tell_def calls_def final_def)
next
  case (Some d)
  then show ?thesis
    by (simp add: stop_def stop_plan_def forget_def tell_def calls_def run_check_err)
      (simp add: final_def outcome_def)
qed

lemma forget_suspended_run:
  "final (do { a \<leftarrow> settleAll w; b \<leftarrow> restartRequested w; forgetReplacing w }) s = s\<lparr>
     rs_exits := drop_workload w (rs_exits s), rs_verdicts := drop_workload w (rs_verdicts s),
     rs_unhealthy := drop_workload w (rs_unhealthy s), rs_backoff := drop_workload w (rs_backoff s),
     rs_restarts := rs_restarts s - {w}, rs_replacing := drop_workload w (rs_replacing s)\<rparr>"
  by (simp add: settleAll_def forgetRun_def restartRequested_def forgetReplacing_def final_def)

lemma suspend_idle:
  assumes "\<not> list_ex terminating is" "\<not> list_ex running is"
  shows "\<exists>m. carries_out r (release_plan r row) m
    \<and> suspend r row is = check_err m (do { u \<leftarrow> do { a \<leftarrow> settleAll (row_Name row);
         b \<leftarrow> restartRequested (row_Name row); forgetReplacing (row_Name row) }; ret None })"
  by (rule exI [of _ "check_err (forget_mounts r row) (revoke_workload r row)"])
    (simp add: suspend_def assms check_err_assoc bind_assoc release_carries_out)

text \<open>
  A suspension only takes down. It never starts, discards or deletes anything: while an instance is
  terminating it does nothing, while something is up it asks the workload's own driver to stop it and
  drops its check once it did, and once nothing is up it removes the mounted values and revokes the
  tokens. When that succeeded no pacing, ending, verdict, replacement mark or restart request is left to
  shape the resume.
\<close>

lemma suspend_only_takes_down:
  "calls (suspend r row is) s =
     (if list_ex terminating is then []
      else if list_ex running is then
        until_error r (rs_trace s) (stop_plan r row)
        @ (if all_ok r (rs_trace s) (stop_plan r row) \<and> cfg_checker r then [CheckerForget (row_Name row)] else [])
      else until_error r (rs_trace s) (release_plan r row))
   \<and> (\<not> list_ex terminating is \<and> \<not> list_ex running is \<and> all_ok r (rs_trace s) (release_plan r row) \<longrightarrow>
       final (suspend r row is) s = s\<lparr>rs_trace := rs_trace s @ release_plan r row,
         rs_exits := drop_workload (row_Name row) (rs_exits s),
         rs_verdicts := drop_workload (row_Name row) (rs_verdicts s),
         rs_unhealthy := drop_workload (row_Name row) (rs_unhealthy s),
         rs_backoff := drop_workload (row_Name row) (rs_backoff s),
         rs_restarts := rs_restarts s - {row_Name row},
         rs_replacing := drop_workload (row_Name row) (rs_replacing s)\<rparr>)"
proof (cases "list_ex terminating is \<or> list_ex running is")
  case True
  then show ?thesis by (auto simp: suspend_def stop_calls)
next
  case False
  obtain m where "carries_out r (release_plan r row) m"
    "suspend r row is = check_err m (do { u \<leftarrow> do { a \<leftarrow> settleAll (row_Name row);
         b \<leftarrow> restartRequested (row_Name row); forgetReplacing (row_Name row) }; ret None })"
    using suspend_idle False by blast
  then show ?thesis
    using False plan_then(1,3) [of r "release_plan r row" m "do { a \<leftarrow> settleAll (row_Name row);
         b \<leftarrow> restartRequested (row_Name row); forgetReplacing (row_Name row) }" s]
    by (simp add: forget_suspended_run)
qed

end
