(* ===== verification/Reconciler_Pacing.thy ===== *)
theory Reconciler_Pacing
  imports Reconciler_Rollout
begin

text \<open>
  Restart pacing (\<open>backoff.go\<close>): the delay, the wait it imposes on both ways of bringing an instance up,
  what a failed start adds to it, and giving up.
\<close>

section \<open>The delay\<close>

lemma delay_bounds: "0 < delay n base" "delay n base \<le> maxBackoff"
  by (simp_all add: delay_def Let_def maxBackoff_def)

definition shifts :: "int \<Rightarrow> nat" where
  "shifts n = nat (min (max (n - 1) 0) 8)"

lemma shifts_le: "shifts n \<le> 8"
  by (simp add: shifts_def)

lemma delay_small:
  assumes "0 < base" "base < 2 ^ 55"
  shows "delay n base = min maxBackoff (base * 2 ^ shifts n)"
proof -
  have "(2::int) ^ shifts n \<le> 2 ^ 8" using shifts_le by (intro power_increasing) auto
  then have "base * 2 ^ shifts n < 2 ^ 55 * 2 ^ 8"
    using assms by (intro mult_less_le_imp_less) auto
  moreover have pos: "0 < base * 2 ^ shifts n" using assms by simp
  ultimately have "wrap64 (base * 2 ^ shifts n) = base * 2 ^ shifts n"
    by (intro wrap64_id) simp_all
  moreover have "delay n base = (let d = wrap64 (base * 2 ^ shifts n)
      in if d > maxBackoff \<or> d \<le> 0 then maxBackoff else d)"
    using assms unfolding delay_def shifts_def by (simp only: Let_def not_less [symmetric] if_True if_False simp_thms)
  ultimately show ?thesis
    using pos unfolding Let_def min_def by (metis leD le_less_linear order.strict_iff_order)
qed

lemma shifts_mono: "m \<le> n \<Longrightarrow> shifts m \<le> shifts n"
  by (simp add: shifts_def)

text \<open>
  The wait before a restart is always positive and never above two minutes, whatever the attempts and
  whatever base a manifest names. For a base below 2 to the 55 nanoseconds (over a year) it is the base itself
  at the first attempt, capped; it doubles with each attempt up to the eighth doubling and the cap; and it
  never shrinks as the attempts grow. A base of zero or less is read as one second.
\<close>

lemma delay_correct:
  "0 < delay n base \<and> delay n base \<le> 2 * Minute
   \<and> (base \<le> 0 \<longrightarrow> delay n base = delay n Second)
   \<and> (0 < base \<and> base < 2 ^ 55 \<longrightarrow>
       delay 1 base = min (2 * Minute) base
       \<and> delay n base = min (2 * Minute) (base * 2 ^ nat (min (max (n - 1) 0) 8))
       \<and> (1 \<le> n \<and> n \<le> 8 \<longrightarrow> delay (n + 1) base = min (2 * Minute) (2 * delay n base))
       \<and> (\<forall>m. m \<le> n \<longrightarrow> delay m base \<le> delay n base))"
proof -
  have small: "delay 1 base = min (2 * Minute) base
       \<and> delay n base = min (2 * Minute) (base * 2 ^ nat (min (max (n - 1) 0) 8))
       \<and> (1 \<le> n \<and> n \<le> 8 \<longrightarrow> delay (n + 1) base = min (2 * Minute) (2 * delay n base))
       \<and> (\<forall>m. m \<le> n \<longrightarrow> delay m base \<le> delay n base)"
    if base: "0 < base" "base < 2 ^ 55"
  proof -
    note d = delay_small [OF base]
    have first: "delay 1 base = min (2 * Minute) base"
      by (simp add: d maxBackoff_def shifts_def)
    have all: "delay n base = min (2 * Minute) (base * 2 ^ nat (min (max (n - 1) 0) 8))"
      by (simp add: d maxBackoff_def shifts_def)
    have double: "delay (n + 1) base = min (2 * Minute) (2 * delay n base)" if "1 \<le> n" "n \<le> 8"
    proof -
      have "shifts (n + 1) = Suc (shifts n)" using that by (simp add: shifts_def nat_eq_iff)
      then have "delay (n + 1) base = min maxBackoff (2 * (base * 2 ^ shifts n))" by (simp add: d)
      then show ?thesis by (simp add: d maxBackoff_def min_def)
    qed
    have "delay m base \<le> delay n base" if "m \<le> n" for m
    proof -
      have "base * 2 ^ shifts m \<le> base * 2 ^ shifts n"
        using base(1) shifts_mono [OF that] by (simp add: power_increasing)
      then show ?thesis by (simp add: d min_le_iff_disj)
    qed
    with first all double show ?thesis by blast
  qed
  moreover have "base \<le> 0 \<longrightarrow> delay n base = delay n Second" by (simp add: delay_def baseBackoff_def)
  moreover have "0 < delay n base" "delay n base \<le> 2 * Minute"
    using delay_bounds [of n base] by (simp_all add: maxBackoff_def)
  ultimately show ?thesis by blast
qed

lemma wrap64_shift8: "wrap64 (base * 256) = (let k = base mod 2 ^ 56 in if k < 2 ^ 55 then 256 * k else 256 * k - 2 ^ 64)"
proof -
  define j k where "j = base div 2 ^ 56" and "k = base mod 2 ^ 56"
  have base: "base = j * 2 ^ 56 + k" and k: "0 \<le> k" "k < 2 ^ 56" by (simp_all add: j_def k_def)
  have "wrap64 (base * 256) = (256 * k + 2 ^ 63 + j * 2 ^ 64) mod 2 ^ 64 - 2 ^ 63"
    by (simp add: wrap64_def signed_take_bit_eq_take_bit_shift take_bit_eq_mod base algebra_simps)
  also have "\<dots> = (256 * k + 2 ^ 63) mod 2 ^ 64 - 2 ^ 63" by (simp only: mod_mult_self1)
  also have "\<dots> = (if k < 2 ^ 55 then 256 * k else 256 * k - 2 ^ 64)"
  proof (cases "k < 2 ^ 55")
    case True
    then have "(256 * k + 2 ^ 63) mod 2 ^ 64 = 256 * k + 2 ^ 63" using k by (intro mod_pos_pos_trivial) simp_all
    then show ?thesis using True by simp
  next
    case False
    have "(256 * k + 2 ^ 63) mod 2 ^ 64 = (256 * k + 2 ^ 63 - 2 ^ 64) mod (2 ^ 64 :: int)"
      by (rule minus_mod_self2 [symmetric])
    also have "\<dots> = 256 * k + 2 ^ 63 - 2 ^ 64"
      by (rule mod_pos_pos_trivial) (use k False in simp_all)
    finally show ?thesis using False by simp
  qed
  finally show ?thesis by (simp add: k_def)
qed

text \<open>
  C36. What the delay is once the shift can overflow, for every base a duration holds. From the ninth attempt on it is
  decided by the base modulo 2 to the 56: 256 times that remainder where it is positive and within the ceiling,
  and the ceiling otherwise. The ceiling therefore does not catch every shift that overflows, as the
  comment of the code says it does: a base of 2 to the 56 plus one nanoseconds, more than two years, waits
  256 nanoseconds. And the first attempt waits the base or the ceiling, whichever is less, and not the base
  itself as the comment has it.
\<close>

theorem delay_overflow:
  assumes "0 < base" "base < 2 ^ 63" "9 \<le> n"
  shows "delay n base = (let k = base mod 2 ^ 56 in if 0 < k \<and> 256 * k \<le> maxBackoff then 256 * k else maxBackoff)
    \<and> delay 1 base = min base maxBackoff"
proof
  define k where "k = base mod 2 ^ 56"
  have "0 \<le> k" "k < 2 ^ 56" by (simp_all add: k_def)
  moreover have "nat (min (max (n - 1) 0) 8) = 8" using assms(3) by simp
  moreover have "wrap64 (base * 256) = (if k < 2 ^ 55 then 256 * k else 256 * k - 2 ^ 64)"
    using wrap64_shift8 [of base] by (simp only: k_def Let_def)
  ultimately have "delay n base = (if 0 < k \<and> 256 * k \<le> maxBackoff then 256 * k else maxBackoff)"
    using assms(1) by (simp add: delay_def maxBackoff_def)
  then show "delay n base = (let k = base mod 2 ^ 56 in if 0 < k \<and> 256 * k \<le> maxBackoff then 256 * k else maxBackoff)"
    by (simp only: k_def Let_def)
  show "delay 1 base = min base maxBackoff"
    using assms(1,2) wrap64_id [of base] by (simp add: delay_def min_def)
qed

theorem delay_overflow_witness:
  "delay 9 (2 ^ 56 + 1) = 256 \<and> delay 1 (2 ^ 56 + 1) = 2 * Minute"
  using delay_overflow [of "2 ^ 56 + 1" 9] by (simp add: maxBackoff_def Let_def)

section \<open>Waiting\<close>

lemma waiting_run:
  "run_state (waiting r w i) s =
     (if IsZero (bo_next (backoff_at (Slot w i) s)) then (False, s)
      else (cfg_now r (rs_trace s) < bo_next (backoff_at (Slot w i) s),
            s\<lparr>rs_trace := rs_trace s @ [ClockRead]\<rparr>))"
  by (simp add: waiting_def read_now_def)

text \<open>
  Inside its backoff window an instance is left alone: both ways of bringing it up return without an
  error, having done nothing but read the clock.
\<close>

lemma backoff_window_respected:
  assumes "rs_backoff s (Slot (row_Name row) i) = Some b" "bo_next b \<noteq> 0"
    and "cfg_now r (rs_trace s) < bo_next b"
  shows "run_state (attempt r row i) s = (None, s\<lparr>rs_trace := rs_trace s @ [ClockRead]\<rparr>)
    \<and> run_state (restart r row i is reason) s = (None, s\<lparr>rs_trace := rs_trace s @ [ClockRead]\<rparr>)"
  using assms by (simp add: attempt_def restart_def waiting_run backoff_at_def)

section \<open>Failed starts\<close>

lemma keeps_backoff_start: "stays (keeps rs_backoff) (start r row i reason)"
proof -
  have hash: "stays (keeps rs_backoff) (slotHash r row i)"
    unfolding slotHash_def mountedAddresses_def by (rule kp.stays_rules keeps_ask | simp)+
  have taken: "stays (keeps rs_backoff) (taken_ports r ps)" for ps
  proof (induction ps)
    case (Cons p ps)
    then show ?case by (simp only: taken_ports.simps) (rule kp.stays_rules keeps_ask | simp)+
  qed (simp add: kp.stays_ret)
  show ?thesis
    unfolding start_def start_on_def start_env_def start_mounts_def launch_def abandonPorts_def slotPorts_def
      record_event_def tell_def markPulling_def markStarted_def
    by (rule kp.stays_rules keeps_ask kp.stays_modify hash taken | simp add: keeps_def)+
qed

lemma hold_run:
  "run_state (hold r w i policy) s =
     (let b = backoff_at (Slot w i) s; n = bo_attempts b + 1; d = delay n (rst_Delay policy);
          b' = b\<lparr>bo_attempts := n, bo_wait := d, bo_next := cfg_now r (rs_trace s) + d\<rparr>
      in (b', s\<lparr>rs_trace := rs_trace s @ [ClockRead], rs_backoff := (rs_backoff s)(Slot w i \<mapsto> b')\<rparr>))"
  by (simp add: hold_def read_now_def Let_def)

text \<open>A paced failure: what it remembers, whatever was remembered before.\<close>

definition pushed_out :: "config \<Rightarrow> Restart \<Rightarrow> backoff \<Rightarrow> history \<Rightarrow> backoff" where
  "pushed_out r policy b h = b\<lparr>bo_attempts := bo_attempts b + 1,
     bo_wait := delay (bo_attempts b + 1) (rst_Delay policy),
     bo_next := cfg_now r h + delay (bo_attempts b + 1) (rst_Delay policy)\<rparr>"

lemma pace_run:
  "outcome (pace r row i policy e) s = Some (Wrapf [] [errPaced, e])"
  "rs_backoff (final (pace r row i policy e) s)
     = (rs_backoff s)(Slot (row_Name row) i \<mapsto>
         pushed_out r policy (backoff_at (Slot (row_Name row) i) s) (rs_trace s))"
  by (simp_all add: pace_def paced_def record_event_def tell_def outcome_def final_def hold_run Let_def
      pushed_out_def)

text \<open>
  A start that fails is paced: \<open>attempt\<close> reports the failure as paced, counts one more attempt, and
  pushes the next one out by the delay of that attempt, measured from the time the failure was seen; a start
  that succeeds clears the pacing.
\<close>

lemma failed_attempt_paced:
  fixes row :: database_Workload and i :: int
  defines "key \<equiv> Slot (row_Name row) i"
  assumes "\<not> outcome (waiting r (row_Name row) i) s"
  shows "let s1 = final (waiting r (row_Name row) i) s; t = final (start r row i InstanceStarted) s1;
             u = final (attempt r row i) s
         in case outcome (start r row i InstanceStarted) s1 of
              Some e \<Rightarrow> outcome (attempt r row i) s = Some (Wrapf [] [errPaced, e])
                \<and> rs_backoff u key = Some (pushed_out r (restartPolicy r row) (backoff_at key s) (rs_trace t))
                \<and> bo_next (pushed_out r (restartPolicy r row) (backoff_at key s) (rs_trace t))
                    > cfg_now r (rs_trace t)
            | None \<Rightarrow> outcome (attempt r row i) s = None \<and> rs_backoff u key = None"
proof -
  let ?s1 = "final (waiting r (row_Name row) i) s"
  let ?st = "start r row i InstanceStarted"
  have kept: "rs_backoff (final ?st ?s1) = rs_backoff s"
    using stays_final [OF keeps_backoff_start, of ?s1]
    by (simp add: keeps_def waiting_run final_def [of "waiting _ _ _"])
  then have at: "backoff_at k (final ?st ?s1) = backoff_at k s" for k by (simp add: backoff_at_def)
  have run: "run_state (attempt r row i) s = (case outcome ?st ?s1 of
      Some e \<Rightarrow> run_state (pace r row i (restartPolicy r row) e) (final ?st ?s1)
    | None \<Rightarrow> run_state (do { u \<leftarrow> settle (row_Name row) i; ret None }) (final ?st ?s1))"
    using assms(2) by (simp add: attempt_def outcome_def final_def split_beta split: option.split)
  show ?thesis
  proof (cases "outcome ?st ?s1")
    case None
    then show ?thesis
      using run by (simp add: outcome_def [of "attempt _ _ _"] final_def [of "attempt _ _ _"] settle_def key_def)
  next
    case (Some e)
    have "final (attempt r row i) s = final (pace r row i (restartPolicy r row) e) (final ?st ?s1)"
      "outcome (attempt r row i) s = outcome (pace r row i (restartPolicy r row) e) (final ?st ?s1)"
      using run Some by (simp_all add: final_def outcome_def)
    then show ?thesis
      using Some by (simp add: Let_def pace_run at key_def pushed_out_def delay_bounds)
  qed
qed

section \<open>Giving up\<close>

lemma give_up_run:
  "run_state (give_up r row i) s =
     (let key = Slot (row_Name row) i; b = backoff_at key s in
      if bo_gaveUp b then ((), s)
      else ((), s\<lparr>rs_backoff := (rs_backoff s)(key \<mapsto> b\<lparr>bo_gaveUp := True\<rparr>),
        rs_trace := rs_trace s @ (if cfg_events r then [RecordEvent (row_Name row) RestartGaveUp
          (no_fields\<lparr>f_Instance := i, f_Count := bo_attempts b\<rparr>)] else [])\<rparr>))"
  by (simp add: give_up_def giveUp_def attempts_def record_event_def tell_def Let_def backoff_at_def)

text \<open>
  Giving up is final and said once. When the policy asks for no further restart (its attempts are
  used up, or it does not restart this exit code) and the instance is outside its backoff window,
  \<open>restart\<close> starts and stops nothing and reports no error; the event is recorded exactly when the instance
  had not been given up on before, and it is given up on afterwards.
\<close>

lemma give_up_once:
  assumes "\<not> outcome (waiting r (row_Name row) i) s"
    and "\<not> Restarts (restartPolicy r row) (failureCodeOf is)
           (bo_attempts (backoff_at (Slot (row_Name row) i) s))"
  shows "outcome (restart r row i is reason) s = None
    \<and> filter (\<lambda>c. c \<noteq> ClockRead) (calls (restart r row i is reason) s) =
        (if bo_gaveUp (backoff_at (Slot (row_Name row) i) s) \<or> \<not> cfg_events r then []
         else [RecordEvent (row_Name row) RestartGaveUp (no_fields\<lparr>f_Instance := i,
           f_Count := bo_attempts (backoff_at (Slot (row_Name row) i) s)\<rparr>)])
    \<and> bo_gaveUp (backoff_at (Slot (row_Name row) i) (final (restart r row i is reason) s))"
proof -
  let ?s1 = "final (waiting r (row_Name row) i) s"
  have s1: "\<exists>h. ?s1 = s\<lparr>rs_trace := rs_trace s @ h\<rparr> \<and> filter (\<lambda>c. c \<noteq> ClockRead) h = []"
    by (cases "IsZero (bo_next (backoff_at (Slot (row_Name row) i) s))")
      (auto simp: final_def waiting_run intro: exI [of _ "[]"] exI [of _ "[ClockRead]"])
  then obtain h where h: "?s1 = s\<lparr>rs_trace := rs_trace s @ h\<rparr>" "filter (\<lambda>c. c \<noteq> ClockRead) h = []" by blast
  have at: "backoff_at k ?s1 = backoff_at k s" for k by (simp add: h backoff_at_def)
  have "run_state (restart r row i is reason) s = (None, final (give_up r row i) ?s1)"
    using assms at [of "Slot (row_Name row) i"]
    by (simp add: restart_def attempts_def outcome_def final_def split_beta Let_def)
  then have "run_state (restart r row i is reason) s =
      (None, final (give_up r row i) (s\<lparr>rs_trace := rs_trace s @ h\<rparr>))"
    unfolding h(1) .
  then show ?thesis
    using h(2) by (auto simp: outcome_def calls_def final_def give_up_run Let_def backoff_at_def)
qed

end
