(* ===== verification/Reconciler_Steady.thy ===== *)
theory Reconciler_Steady
  imports Reconciler_Rollout
begin

text \<open>
  When nothing is to be done: a workload that matches what is wanted is left alone, a scheduled workload
  is left alone between its occurrences, a first start is held only for a bounded wait, and a steady
  verdict is said once.
\<close>

section \<open>Asking without acting\<close>

text \<open>Calls that ask for the time, for addresses or for a mounted value.\<close>

fun question :: "call \<Rightarrow> bool" where
  "question ClockRead = True"
| "question (EnvAddresses m n i) = True"
| "question (MountsContents spec) = True"
| "question _ = False"

text \<open>Only questions are asked and nothing but the pacing of slots is forgotten or remembered.\<close>

definition idles :: "reconciler \<Rightarrow> reconciler \<Rightarrow> bool" where
  "idles s t \<longleftrightarrow> (\<exists>cs b. t = s\<lparr>rs_trace := rs_trace s @ cs, rs_backoff := b\<rparr> \<and> list_all question cs)"

lemma idles_trans: "idles s t \<Longrightarrow> idles t u \<Longrightarrow> idles s u"
  unfolding idles_def by (elim exE conjE, rule_tac x = "cs @ csa" in exI, rule_tac x = ba in exI) simp

interpretation id: frame idles
proof unfold_locales
  fix s
  show "idles s s" unfolding idles_def by (intro exI [of _ "[]"] exI [of _ "rs_backoff s"]) simp
qed (rule idles_trans)

lemma idles_ask: "question c \<Longrightarrow> stays idles (ask f c)"
  unfolding stays_def idles_def final_def
  by (rule allI, rule exI [of _ "[c]"], rule_tac x = "rs_backoff s" in exI) simp

lemma idles_settle: "stays idles (settle w i)"
  unfolding stays_def idles_def final_def settle_def
  by (intro allI exI [of _ "[]"] exI) simp

lemma idles_slotHash: "stays idles (slotHash r row i)"
  unfolding slotHash_def mountedAddresses_def by (intro id.stays_rules idles_ask) simp_all

lemma idles_any_settled: "stays idles (any_settled r is)"
  by (induction "is") (auto simp: read_now_def intro!: id.stays_rules idles_ask)

lemma idles_rolling: "stays idles (rolling r row count is)"
proof -
  have "stays idles (rolling_over r row now is idx)" for now idx
    by (induction idx) (auto simp: replacingRequested_def intro!: id.stays_rules idles_slotHash)
  then show ?thesis
    unfolding rolling_def read_now_def by (intro id.stays_rules idles_ask) simp_all
qed

lemma idles_kept:
  "idles s t \<Longrightarrow> rs_replacing t = rs_replacing s" "idles s t \<Longrightarrow> rs_allocations t = rs_allocations s"
  "idles s t \<Longrightarrow> rs_restarts t = rs_restarts s" "idles s t \<Longrightarrow> rs_reclaimed t = rs_reclaimed s"
  by (auto simp: idles_def)

lemma wp_idles: "stays idles m \<Longrightarrow> (\<And>t. idles s t \<Longrightarrow> Q (outcome m s) t) \<Longrightarrow> wp m Q s"
  by (simp add: wp_iff_run stays_def)

section \<open>A slot that matches\<close>

text \<open>
  Everything in the slot is up and carries the hash the slot is expected to carry, its ports are the
  allocated ones and no restart is due.
\<close>

definition matches_slot ::
  "config \<Rightarrow> database_Workload \<Rightarrow> Instance list \<Rightarrow> reconciler \<Rightarrow> int \<Rightarrow> bool" where
  "matches_slot r row is s i \<longleftrightarrow> at_index is i \<noteq> [] \<and> list_all running (at_index is i)
     \<and> (\<exists>h. (\<forall>t. idles s t \<longrightarrow> outcome (slotHash r row i) t = Inr h)
          \<and> list_all (\<lambda>x. inst_SpecHash x = h) (at_index is i))
     \<and> \<not> portsDrifted (at_index is i) (outcome (slotPorts row i) s)
     \<and> rs_replacing s (Slot (row_Name row) i) = None"

lemma last_ended_running: "list_all running is \<Longrightarrow> last_ended is l = l"
  by (induction "is" arbitrary: l) simp_all

lemma ended_running: "list_all running is \<Longrightarrow> ended r row i is reason = ret ()"
  by (simp add: ended_def lastEnded_def last_ended_running)

lemma not_terminating: "list_all running is \<Longrightarrow> \<not> list_ex terminating is"
  by (auto simp: list_all_iff list_ex_iff running_def terminating_def)

lemma matches_later: "matches_slot r row is s i \<Longrightarrow> idles s t \<Longrightarrow> matches_slot r row is t i"
  unfolding matches_slot_def
  by (auto simp: slotPorts_def outcome_def idles_kept intro: idles_trans)

lemma staleSlot_matching:
  assumes m: "matches_slot r row is s i"
  shows "outcome (staleSlot r row i (at_index is i)) s = ([], None)"
    and "idles s (final (staleSlot r row i (at_index is i)) s)"
proof -
  from m obtain h where h: "\<forall>t. idles s t \<longrightarrow> outcome (slotHash r row i) t = Inr h"
      and all: "list_all (\<lambda>x. inst_SpecHash x = h) (at_index is i)"
    unfolding matches_slot_def by blast
  have none: "filter (\<lambda>x. inst_SpecHash x \<noteq> h) (at_index is i) = []"
    using all by (simp add: filter_empty_conv list_all_iff)
  have hs: "outcome (slotHash r row i) s = Inr h" using h id.R_refl by blast
  have t: "idles s (final (slotHash r row i) s)" by (rule stays_final [OF idles_slotHash])
  note later = matches_later [OF m t]
  show "outcome (staleSlot r row i (at_index is i)) s = ([], None)"
    "idles s (final (staleSlot r row i (at_index is i)) s)"
    using later t
    by (simp_all add: staleSlot_def outcome_bind final_bind hs none slotPorts_def replacingRequested_def
        matches_slot_def)
qed

lemma convergeSlot_matching:
  assumes m: "matches_slot r row is s i"
  shows "outcome (convergeSlot r row i (at_index is i) b) s = (None, True, b)"
    and "idles s (final (convergeSlot r row i (at_index is i) b) s)"
proof -
  let ?is = "at_index is i"
  have up: "list_all running ?is" "?is \<noteq> []" using m by (simp_all add: matches_slot_def)
  then have ex: "list_ex running ?is" by (cases ?is) simp_all
  have st: "stays idles (settle_slot r row i ?is)"
    unfolding settle_slot_def using ex
    by (auto intro!: id.stays_rules idles_any_settled idles_settle)
  have os: "outcome (settle_slot r row i ?is) t = (None, True)" for t
    using ex by (simp add: settle_slot_def outcome_bind)
  show "outcome (convergeSlot r row i ?is b) s = (None, True, b)"
    "idles s (final (convergeSlot r row i ?is b) s)"
    using staleSlot_matching [OF m] stays_final [OF st] not_terminating [OF up(1)] os
    by (auto simp: convergeSlot_def ended_running [OF up(1)] outcome_bind final_bind intro: idles_trans)
qed

lemma converge_slots_matching:
  assumes "\<And>i. i \<in> set idx \<Longrightarrow> matches_slot r row is s i"
  shows "fst (outcome (converge_slots r row is idx b up) s) = None
    \<and> idles s (final (converge_slots r row is idx b up) s)"
  using assms
proof (induction idx arbitrary: s b up)
  case (Cons i idx)
  have m: "matches_slot r row is s i" using Cons.prems by simp
  let ?t = "final (convergeSlot r row i (at_index is i) b) s"
  note slot = convergeSlot_matching [OF m, of b]
  have "matches_slot r row is ?t j" if "j \<in> set idx" for j
    using Cons.prems [of j] that by (simp add: matches_later [OF _ slot(2)])
  from Cons.IH [OF this] show ?case
    using slot by (auto simp: outcome_bind final_bind intro: idles_trans)
qed (simp add: id.R_refl)

section \<open>A workload that matches\<close>

definition matches ::
  "config \<Rightarrow> database_Workload \<Rightarrow> Instance list \<Rightarrow> int list \<Rightarrow> reconciler \<Rightarrow> bool" where
  "matches r row is indexes s \<longleftrightarrow> IsZero (row_DeletedAt row) \<and> IsZero (row_SuspendedAt row)
     \<and> \<not> scheduled r row \<and> row_Name row \<notin> rs_restarts s
     \<and> rs_reclaimed s (row_ID row) = Some (row_Version row) \<and> \<not> names_signal (row_Spec row)
     \<and> list_all (\<lambda>i. i < countOf r row) indexes
     \<and> (\<forall>i\<in>{0..<countOf r row}. matches_slot r row is s i)"

lemma remove_excess_none: "list_all (\<lambda>i. i < count) indexes \<Longrightarrow> remove_excess r row count indexes = ret None"
  unfolding remove_excess_def
  by (induction indexes) (simp_all add: check_err_def)

lemma converge_running_matching:
  assumes m: "matches r row is indexes s"
  shows "outcome (converge_running r row is indexes (countOf r row)) s = None
    \<and> idles s (final (converge_running r row is indexes (countOf r row)) s)"
proof -
  let ?count = "countOf r row"
  have req: "run_state (restartRequested (row_Name row)) s = (False, s)"
    using m by (simp add: matches_def restartRequested_def)
  let ?t = "final (rolling r row ?count is) s"
  have t: "idles s ?t" by (rule stays_final [OF idles_rolling])
  have "matches_slot r row is ?t i" if "i \<in> set [0..?count - 1]" for i
    using m that matches_later [OF _ t] by (auto simp: matches_def)
  note slots = converge_slots_matching [where idx = "[0..?count - 1]" and b = "outcome (rolling r row ?count is) s" and up = False, OF this]
  have "refresh r row = ret None" using m by (simp add: refresh_def matches_def)
  moreover have "remove_excess r row ?count indexes = ret None"
    using m by (intro remove_excess_none) (simp add: matches_def)
  ultimately show ?thesis
    using slots t req
    by (auto simp: converge_running_def outcome_bind final_bind check_err_def split_beta
        outcome_def [of "restartRequested _"] final_def [of "restartRequested _"] intro: idles_trans)
qed

lemma converge_matching:
  assumes m: "matches r row is indexes s"
  shows "outcome (converge r row is indexes) s = None \<and> idles s (final (converge r row is indexes) s)"
proof (cases "driverFor r row")
  case None
  with m show ?thesis by (simp add: converge_def matches_def id.R_refl)
next
  case (Some d)
  have "outcome (reclaimSuperseded r row is) s = () \<and> final (reclaimSuperseded r row is) s = s"
    using m by (simp add: reclaimSuperseded_def reclaimedVersion_def matches_def outcome_bind final_bind)
  moreover have "schedule r row = ret None"
    using m by (auto simp: schedule_def matches_def scheduled_def split: sum.splits option.splits)
  ultimately show ?thesis
    using m Some converge_running_matching [OF m]
    by (simp add: converge_def matches_def outcome_bind final_bind Let_def)
qed

section \<open>Holding a first start\<close>

lemma keeps_blocker: "stays (keeps rs_held) (blocker r row i)"
proof -
  have "stays (keeps rs_held) (first_blocking r m ts)" for m ts
    by (induction ts) (auto intro!: kp.stays_rules keeps_ask split: option.split)
  then show ?thesis
    unfolding blocker_def mounted_targets_def by (intro kp.stays_rules keeps_ask) simp_all
qed

lemma hold_slot_expired:
  assumes "rs_held s (Slot (row_Name row) i) = Some since" and "\<forall>h. time_Sub (cfg_now r h) since \<ge> cfg_readiness r"
  shows "\<not> outcome (hold_slot r row i target result) s"
    and "rs_held (final (hold_slot r row i target result) s) (Slot (row_Name row) i) = None"
    and "rs_started (final (hold_slot r row i target result) s) (Slot (row_Name row) i) = Some (row_Version row)"
  using assms
  by (auto simp: hold_slot_def hold_since_def read_now_def record_event_def tell_def markStarted_def Let_def
      outcome_def final_def)

section \<open>Between occurrences\<close>

lemma occurrence_quiet:
  assumes now: "\<forall>h. cfg_now r h < next_after (max (row_UpdatedAt row) (lastRun is))" and ok: "\<not> list_ex failed is"
  shows "outcome (occurrence r row is next_after) s = None"
    and "c \<in> set (calls (occurrence r row is next_after) s) \<Longrightarrow> read_call row c"
proof -
  let ?since = "if row_UpdatedAt row > lastRun is then row_UpdatedAt row else lastRun is"
  have since: "?since = max (row_UpdatedAt row) (lastRun is)" by auto
  let ?m = "do { now \<leftarrow> read_now r; between r row is }"
  have same: "run_state (occurrence r row is next_after) s = run_state ?m s"
    using now by (simp add: occurrence_def since read_now_def Let_def)
  have none: "outcome (between r row is) t = None" for t
    using ok by (simp add: between_def outcome_bind)
  then show "outcome (occurrence r row is next_after) s = None"
    using same by (simp add: outcome_def split_beta)
  have "stays (touches row {Slot (row_Name row) 0} (read_call row)) ?m"
    unfolding between_def using ok
    by (auto intro!: tw.stays_rules touches_read_now touches_ended)
  from calls_stays(2) [OF this] show "c \<in> set (calls (occurrence r row is next_after) s) \<Longrightarrow> read_call row c"
    using same by (simp add: calls_def final_def)
qed

lemma occurrence_skipped:
  assumes now: "\<forall>h. \<not> cfg_now r h < next_after (max (row_UpdatedAt row) (lastRun is))"
    and up: "list_ex running is" "overlap r row = OverlapSkip"
  shows "outcome (occurrence r row is next_after) s = None"
    and "c \<in> set (calls (occurrence r row is next_after) s) \<Longrightarrow> read_call row c"
proof -
  let ?since = "if row_UpdatedAt row > lastRun is then row_UpdatedAt row else lastRun is"
  have since: "?since = max (row_UpdatedAt row) (lastRun is)" by auto
  let ?m = "do { now \<leftarrow> read_now r; wait \<leftarrow> waiting r (row_Name row) 0;
    if wait then ret None
    else do { record_event r (row_Name row) OccurrenceSkipped no_fields; ret None } }"
  have same: "run_state (occurrence r row is next_after) s = run_state ?m s"
    using now up by (simp add: occurrence_def since read_now_def Let_def cong: if_cong)
  show "outcome (occurrence r row is next_after) s = None"
    using same by (simp add: outcome_def split_beta)
  have "stays (touches row {} (read_call row)) ?m"
    by (auto intro!: tw.stays_rules touches_read_now touches_waiting touches_record)
  from calls_stays(2) [OF this] show "c \<in> set (calls (occurrence r row is next_after) s) \<Longrightarrow> read_call row c"
    using same by (simp add: calls_def final_def)
qed

section \<open>Edges of a verdict\<close>

definition edge_events :: "config \<Rightarrow> Instance \<Rightarrow> Status option \<Rightarrow> Result \<Rightarrow> call list" where
  "edge_events r i previous res =
     (if \<not> cfg_events r \<or> previous = Some (hr_Status res) then []
      else if hr_Status res = StatusUnhealthy then [RecordEvent (inst_Workload i) HealthCheckFailing
        (no_fields\<lparr>f_Instance := inst_Index i, f_Count := hr_Failures res, f_Error := hr_Error res\<rparr>)]
      else if hr_Status res = StatusHealthy \<and> previous = Some StatusUnhealthy
      then [RecordEvent (inst_Workload i) HealthCheckRecovered (no_fields\<lparr>f_Instance := inst_Index i\<rparr>)]
      else [])"

lemma health_edge_run:
  "run_state (health_edge r i res) s = ((), s\<lparr>
     rs_verdicts := (rs_verdicts s)(Slot (inst_Workload i) (inst_Index i) \<mapsto> hr_Status res),
     rs_trace := rs_trace s @ edge_events r i (rs_verdicts s (Slot (inst_Workload i) (inst_Index i))) res\<rparr>)"
  by (auto simp: health_edge_def verdict_def record_event_def tell_def edge_events_def fun_upd_idem)

fun edges_of :: "config \<Rightarrow> Instance \<Rightarrow> Status option \<Rightarrow> Result list \<Rightarrow> call list" where
  "edges_of r i previous [] = []"
| "edges_of r i previous (x # xs) = edge_events r i previous x @ edges_of r i (Some (hr_Status x)) xs"

lemma each_health_edge_calls:
  "calls (each xs (health_edge r i)) s =
     edges_of r i (rs_verdicts s (Slot (inst_Workload i) (inst_Index i))) xs"
proof -
  have "rs_trace (final (each xs (health_edge r i)) s) =
      rs_trace s @ edges_of r i (rs_verdicts s (Slot (inst_Workload i) (inst_Index i))) xs"
    by (induction xs arbitrary: s) (simp_all add: final_def health_edge_run)
  then show ?thesis by (simp add: calls_def)
qed

definition says :: "Reason \<Rightarrow> call \<Rightarrow> bool" where
  "says reason c \<longleftrightarrow> (\<exists>w fs. c = RecordEvent w reason fs)"

lemma edges_counted:
  assumes "cfg_events r"
  shows "length (filter (says HealthCheckFailing) (edges_of r i p xs)) =
      length (filter (\<lambda>(a, b). b = Some StatusUnhealthy \<and> a \<noteq> b)
        (zip (p # map (Some \<circ> hr_Status) xs) (map (Some \<circ> hr_Status) xs)))"
    and "length (filter (says HealthCheckRecovered) (edges_of r i p xs)) =
      length (filter (\<lambda>(a, b). a = Some StatusUnhealthy \<and> b = Some StatusHealthy)
        (zip (p # map (Some \<circ> hr_Status) xs) (map (Some \<circ> hr_Status) xs)))"
  using assms by (induction xs arbitrary: p) (auto simp: edge_events_def says_def)

section \<open>Properties\<close>

text \<open>
  C32. A workload that matches what is wanted is left alone. When every slot of its count holds instances
  that are up, carry the hash the slot is expected to carry and publish the allocated ports, when nothing
  exists past its count, no restart is due, its superseded versions are reclaimed and it is neither
  deleted, suspended, scheduled nor to be signalled, then converging it reports no error, only asks
  questions (the time, addresses, mounted contents) and changes nothing remembered but the pacing of its
  slots: nothing is started, stopped, revoked or recorded, on this pass and on every later one.
\<close>

theorem matching_left_alone:
  assumes "matches r row is indexes s"
  shows "outcome (converge r row is indexes) s = None \<and> idles s (final (converge r row is indexes) s)
    \<and> matches r row is indexes (final (converge r row is indexes) s)"
proof -
  note run = converge_matching [OF assms]
  then have "matches r row is indexes (final (converge r row is indexes) s)"
    using assms by (auto simp: matches_def idles_kept intro: matches_later)
  with run show ?thesis by simp
qed

theorem matching_left_alone_witness:
  "outcome (converge example_config example_wrow
     [example_winst StateRunning, (example_winst StateRunning)\<lparr>inst_Index := 1\<rparr>] [0, 1])
     (new_reconciler\<lparr>rs_reclaimed := [''id1'' \<mapsto> 1]\<rparr>) = None"
proof -
  let ?s = "new_reconciler\<lparr>rs_reclaimed := [''id1'' \<mapsto> 1]\<rparr>"
  let ?is = "[example_winst StateRunning, (example_winst StateRunning)\<lparr>inst_Index := 1\<rparr>]"
  have hash: "outcome (slotHash example_config example_wrow i) t = Inr ''h1''" for i t
    by (simp add: slotHash_def example_config_def example_wrow_def)
  have count: "countOf example_config example_wrow = 2" by code_simp
  have "\<not> scheduled example_config example_wrow" by code_simp
  moreover have "\<not> names_signal (row_Spec example_wrow)" by code_simp
  moreover have "matches_slot example_config example_wrow ?is ?s i" if "i = 0 \<or> i = 1" for i
    using that unfolding matches_slot_def
    by (auto simp: hash at_index_def example_winst_def running_def portsDrifted_def slotPorts_def
        new_reconciler_def)
  moreover have "{0..<2::int} = {0, 1}" by auto
  ultimately have "matches example_config example_wrow ?is [0, 1] ?s"
    by (simp add: matches_def count) (simp add: example_wrow_def new_reconciler_def)
  from matching_left_alone [OF this] show ?thesis by simp
qed

text \<open>
  A first start is held for a bounded wait. Once the time a slot was first held at lies the
  configured wait behind, \<open>notReady\<close> lets the slot start whatever its dependencies look like; and a slot
  that started, or was let go, under the row's version is never held again under that version: nothing
  is asked and nothing changes.
\<close>

lemma hold_is_bounded:
  assumes "rs_held s (Slot (row_Name row) i) = Some since"
    and "\<forall>h. time_Sub (cfg_now r h) since \<ge> cfg_readiness r"
    and "rs_started t (Slot (row_Name row) i) = Some (row_Version row)"
  shows "\<not> outcome (notReady r row i) s \<and> run_state (notReady r row i) t = (False, t)"
proof -
  let ?u = "final (blocker r row i) s"
  have "rs_held ?u (Slot (row_Name row) i) = Some since"
    using stays_final [OF keeps_blocker, of s] assms(1) by (simp add: keeps_def)
  then have "\<not> outcome (hold_slot r row i target result) ?u" for target result
    using assms(2) by (rule hold_slot_expired)
  then have "\<not> outcome (notReady r row i) s"
    by (auto simp: notReady_def outcome_bind split: option.split)
  moreover have "run_state (notReady r row i) t = (False, t)"
    using assms(3) by (simp add: notReady_def)
  ultimately show ?thesis by blast
qed

text \<open>
  A scheduled workload runs when its expression says to and not otherwise. As long as the next time
  after the last run (or the last change, when that is later) lies ahead and the last run did not fail,
  nothing is started or stopped; and an occurrence that falls due while a run is still up is skipped
  under the policy \<open>skip\<close>, again without starting or stopping anything.
\<close>

lemma occurrence_in_time:
  assumes "(\<forall>h. cfg_now r h < next_after (max (row_UpdatedAt row) (lastRun is))) \<and> \<not> list_ex failed is
    \<or> (\<forall>h. \<not> cfg_now r h < next_after (max (row_UpdatedAt row) (lastRun is)))
       \<and> list_ex running is \<and> overlap r row = OverlapSkip"
  shows "outcome (occurrence r row is next_after) s = None
    \<and> (\<forall>c\<in>set (calls (occurrence r row is next_after) s). read_call row c)"
  using assms
proof (elim disjE conjE)
  assume "\<forall>h. cfg_now r h < next_after (max (row_UpdatedAt row) (lastRun is))" "\<not> list_ex failed is"
  note quiet = occurrence_quiet [where r = r and next_after = next_after and row = row and s = s, OF this]
  show ?thesis by (intro conjI ballI quiet)
next
  assume "\<forall>h. \<not> cfg_now r h < next_after (max (row_UpdatedAt row) (lastRun is))"
    "list_ex running is" "overlap r row = OverlapSkip"
  note skipped = occurrence_skipped [where r = r and next_after = next_after and row = row and s = s, OF this]
  show ?thesis by (intro conjI ballI skipped)
qed

text \<open>
  A verdict is recorded on its edges and nowhere else. However many passes read a slot's verdict,
  the failing event is recorded once for every time the verdict turned unhealthy and the recovered event
  once for every time it went from unhealthy straight to healthy: a check that holds steady is silent.
\<close>

lemma verdict_edges_recorded:
  assumes "cfg_events r"
  shows "let seen = rs_verdicts s (Slot (inst_Workload i) (inst_Index i)) # map (Some \<circ> hr_Status) results;
             recorded = calls (each results (health_edge r i)) s
         in length (filter (says HealthCheckFailing) recorded) =
              length (filter (\<lambda>(a, b). b = Some StatusUnhealthy \<and> a \<noteq> b) (zip seen (tl seen)))
            \<and> length (filter (says HealthCheckRecovered) recorded) =
              length (filter (\<lambda>(a, b). a = Some StatusUnhealthy \<and> b = Some StatusHealthy) (zip seen (tl seen)))"
  using edges_counted [OF assms] by (simp add: Let_def each_health_edge_calls)

end
