(* ===== verification/Reconciler_Pass.thy ===== *)
theory Reconciler_Pass
  imports Reconciler_Converge
begin

text \<open>
  A pass (\<open>reconciler.go\<close>, \<open>observe.go\<close>) and the goroutines it leaves behind. A pass runs in the loop's
  own goroutine: it lists the workloads, observes the drivers, folds the health verdicts in, registers
  the checks, and spawns one job for each workload it may converge, for each orphan, and now and then
  for a prune. The jobs run after the pass, in any order and across later passes: \<open>server_step\<close> lets any
  job run next. A job is one step. Two jobs never concern one workload, and converging one workload
  leaves the memory of every other alone, so this loses no interleaving of jobs; what it leaves out is a
  pass or a restart request that falls in the middle of a job of the same workload. The semaphore that
  bounds how many jobs act at once delays jobs and forbids no order, so it is left out.

  Cancellation of the context, which ends a pass early at shutdown, is not modelled.
\<close>

section \<open>Observing\<close>

definition recordObservation :: "config \<Rightarrow> string \<Rightarrow> goerr option \<Rightarrow> unit op" where
  "recordObservation r name err = do {
     now \<leftarrow> read_now r;
     modify (\<lambda>s. s\<lparr>rs_observations := (rs_observations s)(name \<mapsto>
       \<lparr>ob_At = now, ob_Error = (case err of None \<Rightarrow> [] | Some e \<Rightarrow> err_text e)\<rparr>)\<rparr>) }"

definition observeDriver :: "config \<Rightarrow> string \<Rightarrow> (goerr + Instance list) op" where
  "observeDriver r name = do {
     answer \<leftarrow> ask (cfg_observed r) (DriverObserve name);
     recordObservation r name (case answer of Inl e \<Rightarrow> Some e | Inr _ \<Rightarrow> None);
     ret answer }"

fun observe :: "config \<Rightarrow> string list \<Rightarrow> (Instance list \<times> string set) op" where
  "observe r [] = ret ([], {})"
| "observe r (name # names) = do {
     answer \<leftarrow> observeDriver r name;
     (instances, unobserved) \<leftarrow> observe r names;
     ret (case answer of
            Inl e \<Rightarrow> (instances, insert name unobserved)
          | Inr xs \<Rightarrow> (xs @ instances, unobserved)) }"

definition Observations :: "reconciler \<Rightarrow> string \<rightharpoonup> Observation" where
  "Observations s = rs_observations s"

fun check_all :: "config \<Rightarrow> Instance list \<Rightarrow> Instance list op" where
  "check_all r [] = ret []"
| "check_all r (i # is) =
     (if inst_Retained i then check_all r is
      else do { x \<leftarrow> checked r i; xs \<leftarrow> check_all r is; ret (x # xs) })"

definition of_workload :: "string \<Rightarrow> Instance list \<Rightarrow> Instance list" where
  "of_workload w is = filter (\<lambda>i. inst_Workload i = w) is"

definition indexes_of :: "string \<Rightarrow> Instance list \<Rightarrow> int list" where
  "indexes_of w is = remdups (map inst_Index (of_workload w is))"

text \<open>
  What \<open>measure\<close> counts: the workloads in each state, with the completion rules and the pulls folded into
  the instances first.
\<close>

definition measured_state ::
  "config \<Rightarrow> reconciler \<Rightarrow> database_Workload \<Rightarrow> Instance list \<Rightarrow> workload_state" where
  "measured_state r s row is =
     (let policy = restartPolicy r row; onSchedule = scheduled r row;
          completed = map (\<lambda>i. i\<lparr>inst_State := Completion i policy onSchedule\<rparr>) is;
          waiting = map (\<lambda>i. i\<lparr>inst_State :=
            Replacing i (rs_pulling s (Slot (row_Name row) (inst_Index i)) \<noteq> None)\<rparr>) completed
      in state_Of waiting (\<not> IsZero (row_DeletedAt row)) (\<not> IsZero (row_SuspendedAt row)))"

definition measure_states ::
  "config \<Rightarrow> reconciler \<Rightarrow> database_Workload list \<Rightarrow> (string \<Rightarrow> Instance list) \<Rightarrow> (workload_state \<times> nat) list" where
  "measure_states r s rows observed = map (\<lambda>st. (st,
     length (filter (\<lambda>row. measured_state r s row (observed (row_Name row)) = st) rows))) Workloads"

section \<open>Jobs\<close>

datatype job =
    ConvergeJob database_Workload "Instance list" "int list"
  | OrphanJob string
  | PruneJob "Spec list"

fun job_workload :: "job \<Rightarrow> string option" where
  "job_workload (ConvergeJob row is indexes) = Some (row_Name row)"
| "job_workload (OrphanJob w) = Some w"
| "job_workload (PruneJob specs) = None"

definition begin_work :: "string \<Rightarrow> bool op" where
  "begin_work w = do {
     busy \<leftarrow> gets (\<lambda>s. w \<in> rs_converging s);
     if busy then ret False
     else do { modify (\<lambda>s. s\<lparr>rs_converging := insert w (rs_converging s)\<rparr>); ret True } }"

definition finish_work :: "string \<Rightarrow> unit op" where
  "finish_work w = modify (\<lambda>s. s\<lparr>rs_converging := rs_converging s - {w}\<rparr>)"

fun convergeAll ::
  "config \<Rightarrow> database_Workload list \<Rightarrow> (string \<Rightarrow> Instance list) \<Rightarrow> (string \<Rightarrow> int list) \<Rightarrow> string set
     \<Rightarrow> job list op" where
  "convergeAll r [] observed indexes unobserved = ret []"
| "convergeAll r (row # rows) observed indexes unobserved =
     (if row_Runtime row \<in> unobserved then convergeAll r rows observed indexes unobserved
      else do {
        ok \<leftarrow> begin_work (row_Name row);
        jobs \<leftarrow> convergeAll r rows observed indexes unobserved;
        ret (if ok then ConvergeJob row (observed (row_Name row)) (indexes (row_Name row)) # jobs
             else jobs) })"

fun orphans :: "string set \<Rightarrow> string list \<Rightarrow> job list op" where
  "orphans desired [] = ret []"
| "orphans desired (w # ws) =
     (if w \<in> desired then orphans desired ws
      else do {
        ok \<leftarrow> begin_work w;
        jobs \<leftarrow> orphans desired ws;
        ret (if ok then OrphanJob w # jobs else jobs) })"

fun decode_all :: "config \<Rightarrow> database_Workload list \<Rightarrow> Spec list option" where
  "decode_all r [] = Some []"
| "decode_all r (row # rows) = (case DecodeWorkload (cfg_unmarshal r) (row_Spec row) of
       Inl e \<Rightarrow> None | Inr spec \<Rightarrow> map_option (Cons spec) (decode_all r rows))"

definition pruneEvery :: nat where
  "pruneEvery = 64"

definition prune :: "config \<Rightarrow> nat \<Rightarrow> database_Workload list \<Rightarrow> job list op" where
  "prune r began rows =
     (if began mod pruneEvery \<noteq> 0 then ret []
      else do {
        (if cfg_mounts r then do { e \<leftarrow> ask (cfg_error r) (MountsPrune (map row_ID rows)); ret () }
         else ret ());
        ret (case decode_all r rows of None \<Rightarrow> [] | Some specs \<Rightarrow> [PruneJob specs]) })"

definition spawn_all ::
  "config \<Rightarrow> nat \<Rightarrow> database_Workload list \<Rightarrow> Instance list \<Rightarrow> Instance list \<Rightarrow> string set \<Rightarrow> job list op" where
  "spawn_all r began rows instances seen unobserved = do {
     register r rows (\<lambda>w. of_workload w seen) unobserved;
     jobs \<leftarrow> convergeAll r rows (\<lambda>w. of_workload w seen) (\<lambda>w. indexes_of w instances) unobserved;
     os \<leftarrow> orphans (row_Name ` set rows) (remdups (map inst_Workload instances));
     ps \<leftarrow> prune r began rows;
     ret (jobs @ os @ ps) }"

definition reconcile :: "config \<Rightarrow> nat \<Rightarrow> job list op" where
  "reconcile r began = do {
     listed \<leftarrow> ask (cfg_rows r) WorkloadsList;
     case listed of
       Inl e \<Rightarrow> ret []
     | Inr rows \<Rightarrow> do {
         modify (\<lambda>s. s\<lparr>rs_rows := Some (\<lambda>w. find (\<lambda>row. row_Name row = w) (rev rows))\<rparr>);
         (instances, unobserved) \<leftarrow> observe r (cfg_drivers r);
         if unobserved = set (cfg_drivers r) then ret []
         else do {
           seen \<leftarrow> check_all r instances;
           ports \<leftarrow> (if cfg_ports r then ask (cfg_allocated r) PortsListAll else ret (Inr (\<lambda>w. [])));
           case ports of
             Inl e \<Rightarrow> ret []
           | Inr m \<Rightarrow> do {
               modify (\<lambda>s. s\<lparr>rs_allocations := Some m\<rparr>);
               spawn_all r began rows instances seen unobserved } } } }"

text \<open>A job's error is recorded unless the pacing already did.\<close>

fun run_job :: "config \<Rightarrow> job \<Rightarrow> unit op" where
  "run_job r (ConvergeJob row is indexes) = do {
     err \<leftarrow> converge r row is indexes;
     (case err of
        None \<Rightarrow> ret ()
      | Some e \<Rightarrow> if errors_Is e errPaced then ret ()
          else record_event r (row_Name row) ConvergeFailed (no_fields\<lparr>f_Error := err_text e\<rparr>));
     finish_work (row_Name row) }"
| "run_job r (OrphanJob w) = do { err \<leftarrow> stopOrphan r w; finish_work w }"
| "run_job r (PruneJob specs) =
     each (cfg_drivers r) (\<lambda>d. do { e \<leftarrow> ask (cfg_error r) (DriverPrune d specs); ret () })"

section \<open>Passes and jobs interleaved\<close>

text \<open>
  Every job carries the number of the pass that spawned it. A pass is counted complete once every job it
  spawned has finished and the pass before it is counted.
\<close>

record server =
  sv_rec :: reconciler
  sv_jobs :: "(nat \<times> job) list"
  sv_began :: nat
  sv_passes :: nat

text \<open>\<open>New\<close>: every driver has an observation from the start, of the zero time and with no error.\<close>

definition New :: "config \<Rightarrow> reconciler" where
  "New r = new_reconciler\<lparr>rs_observations := (\<lambda>name. if name \<in> set (cfg_drivers r)
     then Some \<lparr>ob_At = 0, ob_Error = []\<rparr> else None)\<rparr>"

definition new_server :: "config \<Rightarrow> server" where
  "new_server r = \<lparr>sv_rec = New r, sv_jobs = [], sv_began = 0, sv_passes = 0\<rparr>"

definition run_pass :: "config \<Rightarrow> server \<Rightarrow> server" where
  "run_pass r v = (case run_state (reconcile r (sv_began v)) (sv_rec v) of (jobs, s) \<Rightarrow>
     v\<lparr>sv_rec := s, sv_began := Suc (sv_began v),
       sv_jobs := sv_jobs v @ map (Pair (Suc (sv_began v))) jobs\<rparr>)"

inductive server_step :: "config \<Rightarrow> server \<Rightarrow> server \<Rightarrow> bool" for r where
  pass: "server_step r v (run_pass r v)"
| job: "sv_jobs v = before @ (n, j) # after \<Longrightarrow>
    server_step r v (v\<lparr>sv_rec := final (run_job r j) (sv_rec v), sv_jobs := before @ after\<rparr>)"
| complete: "sv_passes v < sv_began v \<Longrightarrow> Suc (sv_passes v) \<notin> fst ` set (sv_jobs v) \<Longrightarrow>
    server_step r v (v\<lparr>sv_passes := Suc (sv_passes v)\<rparr>)"
| restart: "server_step r v (v\<lparr>sv_rec := final (Restart_request w) (sv_rec v)\<rparr>)"

inductive server_reachable :: "config \<Rightarrow> server \<Rightarrow> bool" for r where
  start: "server_reachable r (new_server r)"
| step: "server_reachable r v \<Longrightarrow> server_step r v u \<Longrightarrow> server_reachable r u"

end
