(* ===== verification/Reconciler_Server.thy ===== *)
theory Reconciler_Server
  imports Reconciler_Pass Reconciler_Rollout
begin

text \<open>
  Passes and the jobs they leave behind: which jobs a pass spawns, that a pass looks and never acts on
  a runtime, that two jobs never hold one workload, that passes are counted in order and after their
  jobs, and that every job outstanding can finish.
\<close>

section \<open>Claiming workloads\<close>

fun claimable :: "string set \<Rightarrow> string set \<Rightarrow> database_Workload list \<Rightarrow> database_Workload list" where
  "claimable C u [] = []"
| "claimable C u (row # rows) =
     (if row_Runtime row \<in> u \<or> row_Name row \<in> C then claimable C u rows
      else row # claimable (insert (row_Name row) C) u rows)"

lemma claimable_free:
  "distinct (map row_Name (claimable C u rows)) \<and> row_Name ` set (claimable C u rows) \<inter> C = {}"
proof (induction rows arbitrary: C)
  case (Cons row rows)
  show ?case
    using Cons.IH [of C] Cons.IH [of "insert (row_Name row) C"] by auto
qed simp

lemma claimable_sub:
  "row \<in> set (claimable C u rows) \<Longrightarrow> row \<in> set rows \<and> row_Runtime row \<notin> u \<and> row_Name row \<notin> C"
  by (induction rows arbitrary: C) (auto split: if_splits)

lemma claimable_distinct:
  "distinct (map row_Name rows) \<Longrightarrow>
     claimable C u rows = filter (\<lambda>row. row_Runtime row \<notin> u \<and> row_Name row \<notin> C) rows"
proof (induction rows arbitrary: C)
  case (Cons row rows)
  have "filter (\<lambda>x. row_Runtime x \<notin> u \<and> row_Name x \<notin> insert (row_Name row) C) rows
      = filter (\<lambda>x. row_Runtime x \<notin> u \<and> row_Name x \<notin> C) rows"
    using Cons.prems by (intro filter_cong) (auto simp: rev_image_eqI)
  with Cons show ?case by simp
qed simp

lemma convergeAll_run:
  "run_state (convergeAll r rows ob ix u) s =
     (map (\<lambda>row. ConvergeJob row (ob (row_Name row)) (ix (row_Name row)))
        (claimable (rs_converging s) u rows),
      s\<lparr>rs_converging := rs_converging s \<union> row_Name ` set (claimable (rs_converging s) u rows)\<rparr>)"
  by (induction rows arbitrary: s) (simp_all add: begin_work_def split_beta insert_commute)

lemma orphans_run:
  "distinct ws \<Longrightarrow> run_state (orphans desired ws) s =
     (map OrphanJob (filter (\<lambda>w. w \<notin> desired \<and> w \<notin> rs_converging s) ws),
      s\<lparr>rs_converging := rs_converging s
          \<union> {w \<in> set ws. w \<notin> desired \<and> w \<notin> rs_converging s}\<rparr>)"
proof (induction ws arbitrary: s)
  case (Cons w ws)
  have f: "filter (\<lambda>x. x \<notin> desired \<and> x \<noteq> w \<and> x \<notin> C) ws = filter (\<lambda>x. x \<notin> desired \<and> x \<notin> C) ws" for C
    using Cons.prems by (intro filter_cong) auto
  have set: "insert w C \<union> {x \<in> set ws. x \<notin> desired \<and> x \<notin> insert w C}
      = C \<union> {x \<in> set (w # ws). x \<notin> desired \<and> x \<notin> C}" if "w \<notin> desired" for C
    using that by auto
  have skip: "{x \<in> set (w # ws). x \<notin> desired \<and> x \<notin> C} = {x \<in> set ws. x \<notin> desired \<and> x \<notin> C}"
    if "w \<in> desired \<or> w \<in> C" for C
    using that by auto
  consider "w \<in> desired" | "w \<notin> desired" "w \<in> rs_converging s" | "w \<notin> desired" "w \<notin> rs_converging s"
    by blast
  then show ?case
  proof cases
    case 3
    then show ?thesis
      using Cons.prems set [OF 3(1), of "rs_converging s"] f [of "rs_converging s"]
      by (simp add: begin_work_def split_beta Cons.IH)
  qed (use Cons skip [of "rs_converging s"] in \<open>simp_all add: begin_work_def split_beta\<close>)
qed simp

section \<open>A pass looks\<close>

fun look_call :: "call \<Rightarrow> bool" where
  "look_call ClockRead = True"
| "look_call WorkloadsList = True"
| "look_call PortsListAll = True"
| "look_call (DriverObserve d) = True"
| "look_call (CheckerResult w i) = True"
| "look_call (CheckerSet w i c) = True"
| "look_call (CheckerForgetInstance w i) = True"
| "look_call (MountsPrune ids) = True"
| "look_call (RecordEvent w reason fs) = (reason = HealthCheckFailing \<or> reason = HealthCheckRecovered)"
| "look_call _ = False"

text \<open>With \<open>quiet\<close> the relation also keeps the workloads that are claimed, which only spawning changes.\<close>

definition looks :: "bool \<Rightarrow> reconciler \<Rightarrow> reconciler \<Rightarrow> bool" where
  "looks quiet s t \<longleftrightarrow> (\<exists>cs. rs_trace t = rs_trace s @ cs \<and> (\<forall>c\<in>set cs. look_call c))
     \<and> rs_backoff t = rs_backoff s \<and> rs_exits t = rs_exits s \<and> rs_started t = rs_started s
     \<and> rs_held t = rs_held s \<and> rs_pulling t = rs_pulling s \<and> rs_replacing t = rs_replacing s
     \<and> rs_restarts t = rs_restarts s \<and> rs_reclaimed t = rs_reclaimed s
     \<and> (quiet \<longrightarrow> rs_converging t = rs_converging s)"

lemma looks_trans: "looks q s t \<Longrightarrow> looks q t u \<Longrightarrow> looks q s u"
proof -
  assume a: "looks q s t" "looks q t u"
  then obtain cs ds where
    "rs_trace t = rs_trace s @ cs" "\<forall>c\<in>set cs. look_call c" "rs_trace u = rs_trace t @ ds" "\<forall>c\<in>set ds. look_call c"
    by (auto simp: looks_def)
  then have "\<exists>cs. rs_trace u = rs_trace s @ cs \<and> (\<forall>c\<in>set cs. look_call c)"
    by (intro exI [of _ "cs @ ds"]) auto
  with a show ?thesis unfolding looks_def by auto
qed

interpretation lk: frame "looks q" for q
  by unfold_locales (simp add: looks_def, rule looks_trans)

lemma looks_ask: "look_call c \<Longrightarrow> stays (looks q) (ask f c)"
  by (simp add: stays_def final_def looks_def)

lemma looks_each_slot: "stays (looks q) (verdict w i st)" "stays (looks q) (failCheck x)" "stays (looks q) (checkFailed w i ident)"
  unfolding verdict_def failCheck_def checkFailed_def
  by (rule lk.stays_rules lk.stays_modify | simp add: looks_def)+

lemma looks_checked: "stays (looks q) (checked r i)"
proof -
  have edge: "stays (looks q) (health_edge r i res)" for res
    unfolding health_edge_def record_event_def tell_def
    by (intro lk.stays_rules looks_ask looks_each_slot) simp_all
  have act: "stays (looks q) (case hr_Status res of
      StatusUnhealthy \<Rightarrow> do { failCheck i; ret (i\<lparr>inst_State := StateFailed\<rparr>) }
    | StatusStarting \<Rightarrow> ret (i\<lparr>inst_State := StatePending\<rparr>)
    | StatusHealthy \<Rightarrow> ret i)" for res
    by (cases "hr_Status res") (auto intro: lk.stays_rules looks_each_slot)
  show ?thesis
    unfolding checked_def by (intro lk.stays_rules looks_ask edge act) simp
qed

lemma looks_any_checkFailed: "stays (looks q) (any_checkFailed w i xs)"
  by (induction xs) (auto intro!: lk.stays_rules looks_each_slot)

lemma looks_register: "stays (looks q) (register r rows ob u)"
proof -
  have slot: "stays (looks q) (register_slot r row i is)" for row i "is"
  proof -
    have "stays (looks q) (healthCheck r row i)"
      unfolding healthCheck_def slotPorts_def Let_def by (intro lk.stays_rules)
    moreover have "stays (looks q) (checkable row i is)"
      unfolding checkable_def by (intro lk.stays_rules looks_any_checkFailed)
    ultimately show ?thesis
      unfolding register_slot_def tell_def by (intro lk.stays_rules looks_ask) simp_all
  qed
  show ?thesis unfolding register_def by (intro lk.stays_rules slot)
qed

lemma looks_observe: "stays (looks q) (observe r names)"
proof (induction names)
  case (Cons name names)
  have one: "stays (looks q) (observeDriver r name)"
    unfolding observeDriver_def recordObservation_def read_now_def
    by (intro lk.stays_rules looks_ask lk.stays_modify) (simp_all add: looks_def)
  show ?case unfolding observe.simps by (intro lk.stays_rules one Cons.IH)
qed (simp add: lk.stays_ret)

lemma looks_check_all: "stays (looks q) (check_all r xs)"
  by (induction xs) (auto intro!: lk.stays_rules looks_checked)

lemma looks_convergeAll: "stays (looks False) (convergeAll r rows ob ix u)"
  by (simp add: stays_def final_def convergeAll_run looks_def)

lemma looks_orphans: "stays (looks False) (orphans desired ws)"
proof (induction ws)
  case (Cons w ws)
  have "stays (looks False) (begin_work w)"
    unfolding begin_work_def by (intro lk.stays_rules lk.stays_modify) (auto simp: looks_def)
  then show ?case unfolding orphans.simps by (intro lk.stays_rules Cons.IH)
qed (simp add: lk.stays_ret)

lemma looks_prune: "stays (looks q) (prune r began rows)"
  unfolding prune_def by (intro lk.stays_rules looks_ask) simp

lemma looks_reconcile: "stays (looks False) (reconcile r began)"
  unfolding reconcile_def spawn_all_def
  by (intro lk.stays_rules looks_ask looks_observe looks_check_all looks_register looks_convergeAll
      looks_orphans looks_prune lk.stays_modify) (simp_all add: looks_def)

section \<open>Jobs hold their workloads\<close>

definition held_by :: "job list \<Rightarrow> string list" where
  "held_by jobs = List.map_filter job_workload jobs"

lemma held_by_simps [simp]:
  "held_by [] = []" "held_by (xs @ ys) = held_by xs @ held_by ys"
  "held_by (j # js) = (case job_workload j of None \<Rightarrow> [] | Some w \<Rightarrow> [w]) @ held_by js"
  by (simp_all add: held_by_def List.map_filter_def split: option.split)

lemma held_by_map [simp]:
  "held_by (map (\<lambda>row. ConvergeJob row (f row) (g row)) rows) = map row_Name rows"
  "held_by (map OrphanJob ws) = ws"
  by (induction rows) (simp_all, induction ws, simp_all)

definition claims :: "string set \<Rightarrow> job list \<Rightarrow> string set \<Rightarrow> bool" where
  "claims C jobs C' \<longleftrightarrow>
     distinct (held_by jobs) \<and> set (held_by jobs) \<inter> C = {} \<and> C' = C \<union> set (held_by jobs)"

lemma wp_quiet: "stays (looks True) m \<Longrightarrow> wp m (\<lambda>a t. rs_converging t = rs_converging s) s"
  by (simp add: wp_iff_run stays_def looks_def)

lemma prune_jobs: "held_by (outcome (prune r began rows) s) = []"
  by (simp add: prune_def outcome_def split_beta split: option.split)

lemmas spawned = convergeAll_run [THEN arg_cong, of fst, folded outcome_def, simplified]
  convergeAll_run [THEN arg_cong, of snd, folded final_def, simplified]
  orphans_run [OF distinct_remdups, THEN arg_cong, of fst, folded outcome_def, simplified]
  orphans_run [OF distinct_remdups, THEN arg_cong, of snd, folded final_def, simplified]

lemma spawn_all_run:
  assumes C_def: "C = rs_converging s"
  shows "\<exists>ps. held_by ps = [] \<and> outcome (spawn_all r began rows instances seen u) s =
      map (\<lambda>row. ConvergeJob row (of_workload (row_Name row) seen) (indexes_of (row_Name row) instances))
        (claimable C u rows)
      @ map OrphanJob (filter (\<lambda>w. w \<notin> row_Name ` set rows \<and> w \<notin> C)
          (remdups (map inst_Workload instances))) @ ps"
    and "rs_converging (final (spawn_all r began rows instances seen u) s)
      = C \<union> row_Name ` set (claimable C u rows)
        \<union> {w \<in> inst_Workload ` set instances. w \<notin> row_Name ` set rows \<and> w \<notin> C}"
proof -
  let ?t = "final (register r rows (\<lambda>w. of_workload w seen) u) s"
  have t: "rs_converging ?t = C"
    using stays_final [OF looks_register [of True]] C_def by (simp add: looks_def)
  have p: "rs_converging (final (prune r began rows) s') = rs_converging s'" for s'
    using stays_final [OF looks_prune [of True]] by (simp add: looks_def)
  have sub: "w \<notin> row_Name ` set (claimable C u rows)" if "w \<notin> row_Name ` set rows" for w
    using that claimable_sub by blast
  then have f: "filter (\<lambda>w. w \<notin> row_Name ` set rows \<and> w \<notin> C \<and> w \<notin> row_Name ` set (claimable C u rows)) xs
      = filter (\<lambda>w. w \<notin> row_Name ` set rows \<and> w \<notin> C) xs" for xs
    by (intro filter_cong) auto
  show "\<exists>ps. held_by ps = [] \<and> outcome (spawn_all r began rows instances seen u) s =
      map (\<lambda>row. ConvergeJob row (of_workload (row_Name row) seen) (indexes_of (row_Name row) instances))
        (claimable C u rows)
      @ map OrphanJob (filter (\<lambda>w. w \<notin> row_Name ` set rows \<and> w \<notin> C)
          (remdups (map inst_Workload instances))) @ ps"
    using prune_jobs by (auto simp: spawn_all_def outcome_bind final_bind spawned t f)
  show "rs_converging (final (spawn_all r began rows instances seen u) s)
      = C \<union> row_Name ` set (claimable C u rows)
        \<union> {w \<in> inst_Workload ` set instances. w \<notin> row_Name ` set rows \<and> w \<notin> C}"
    using sub by (auto simp: spawn_all_def outcome_bind final_bind spawned t p)
qed

lemma spawn_all_claims:
  "claims (rs_converging s) (outcome (spawn_all r began rows instances seen u) s)
     (rs_converging (final (spawn_all r began rows instances seen u) s))"
proof -
  note run = spawn_all_run [OF refl, of r began rows instances seen u s]
  obtain ps where ps: "held_by ps = []" and jobs: "outcome (spawn_all r began rows instances seen u) s =
      map (\<lambda>row. ConvergeJob row (of_workload (row_Name row) seen) (indexes_of (row_Name row) instances))
        (claimable (rs_converging s) u rows)
      @ map OrphanJob (filter (\<lambda>w. w \<notin> row_Name ` set rows \<and> w \<notin> rs_converging s)
          (remdups (map inst_Workload instances))) @ ps"
    using run(1) by blast
  have "row_Name ` set (claimable (rs_converging s) u rows) \<subseteq> row_Name ` set rows"
    using claimable_sub by blast
  then show ?thesis
    unfolding claims_def jobs run(2)
    using claimable_free [of "rs_converging s" u rows] by (auto simp: ps)
qed

text \<open>A pass either spawns nothing or spawns from what it listed and observed.\<close>

lemma reconcile_cases:
  obtains (idle) "outcome (reconcile r b) s = []" "rs_converging (final (reconcile r b) s) = rs_converging s"
  | (spawned) rows instances u s1 s2 s3 where
      "cfg_rows r (rs_trace s) WorkloadsList = Inr rows"
      "outcome (observe r (cfg_drivers r)) s1 = (instances, u)"
      "rs_converging s3 = rs_converging s"
      "outcome (reconcile r b) s = outcome (spawn_all r b rows instances (outcome (check_all r instances) s2) u) s3"
      "final (reconcile r b) s = final (spawn_all r b rows instances (outcome (check_all r instances) s2) u) s3"
proof (cases "cfg_rows r (rs_trace s) WorkloadsList")
  case (Inl e)
  then show thesis by (intro idle) (simp_all add: reconcile_def outcome_def final_def)
next
  case (Inr rows)
  let ?s1 = "s\<lparr>rs_trace := rs_trace s @ [WorkloadsList],
    rs_rows := Some (\<lambda>w. find (\<lambda>row. row_Name row = w) (rev rows))\<rparr>"
  obtain instances u where ob: "outcome (observe r (cfg_drivers r)) ?s1 = (instances, u)" by force
  let ?s2 = "final (observe r (cfg_drivers r)) ?s1"
  let ?s3 = "final (check_all r instances) ?s2"
  let ?ask = "if cfg_ports r then ask (cfg_allocated r) PortsListAll else ret (Inr (\<lambda>w. []))"
  have quiet: "rs_converging ?s2 = rs_converging s" "rs_converging ?s3 = rs_converging s"
    "rs_converging (final ?ask ?s3) = rs_converging s"
    using stays_final [OF looks_observe [of True], of ?s1] stays_final [OF looks_check_all [of True], of ?s2]
    by (simp_all add: looks_def final_def)
  have run: "outcome (reconcile r b) s = outcome (if u = set (cfg_drivers r) then ret [] else do {
           seen \<leftarrow> check_all r instances;
           ports \<leftarrow> ?ask;
           case ports of
             Inl e \<Rightarrow> ret []
           | Inr m \<Rightarrow> do {
               modify (\<lambda>s. s\<lparr>rs_allocations := Some m\<rparr>);
               spawn_all r b rows instances seen u } }) ?s2"
    "final (reconcile r b) s = final (if u = set (cfg_drivers r) then ret [] else do {
           seen \<leftarrow> check_all r instances;
           ports \<leftarrow> ?ask;
           case ports of
             Inl e \<Rightarrow> ret []
           | Inr m \<Rightarrow> do {
               modify (\<lambda>s. s\<lparr>rs_allocations := Some m\<rparr>);
               spawn_all r b rows instances seen u } }) ?s2"
    using ob Inr by (simp_all add: reconcile_def outcome_def final_def split_beta)
  show thesis
  proof (cases "u = set (cfg_drivers r)")
    case True
    then show thesis using run quiet by (intro idle) simp_all
  next
    case False
    show thesis
    proof (cases "outcome ?ask ?s3")
      case (Inl e)
      then show thesis using run quiet False by (intro idle) (simp_all add: outcome_bind final_bind)
    next
      case ports: (Inr m)
      let ?s4 = "(final ?ask ?s3)\<lparr>rs_allocations := Some m\<rparr>"
      have "final (modify (\<lambda>s. s\<lparr>rs_allocations := Some m\<rparr>)) (final ?ask ?s3) = ?s4"
        by (simp add: final_def)
      then show thesis
        using run quiet False ports Inr ob
        by (intro spawned [of rows ?s1 instances u ?s4 ?s2]) (simp_all add: outcome_bind final_bind)
    qed
  qed
qed

lemma reconcile_claims:
  "claims (rs_converging s) (outcome (reconcile r b) s) (rs_converging (final (reconcile r b) s))"
proof (cases rule: reconcile_cases [of r b s])
  case idle
  then show ?thesis by (simp add: claims_def)
next
  case (spawned rows instances u s1 s2 s3)
  then show ?thesis using spawn_all_claims [of s3] by simp
qed

lemma run_job_releases:
  "rs_converging (final (run_job r j) s) = rs_converging s - set (held_by [j])"
proof (cases j)
  case (ConvergeJob row "is" indexes)
  have "rs_converging (final (converge r row is indexes) s) = rs_converging s"
    using stays_final [OF touches_converge] by (simp add: touches_def)
  moreover have "stays (keeps rs_converging) (case err of None \<Rightarrow> ret ()
      | Some e \<Rightarrow> if errors_Is e errPaced then ret ()
          else record_event r (row_Name row) ConvergeFailed (no_fields\<lparr>f_Error := err_text e\<rparr>))" for err
    unfolding record_event_def tell_def by (intro kp.stays_rules keeps_ask) simp_all
  then have "rs_converging (final (case err of None \<Rightarrow> ret ()
      | Some e \<Rightarrow> if errors_Is e errPaced then ret ()
          else record_event r (row_Name row) ConvergeFailed (no_fields\<lparr>f_Error := err_text e\<rparr>)) t)
      = rs_converging t" for err t
    by (simp add: stays_def keeps_def)
  moreover have "rs_converging (final (finish_work w) t) = rs_converging t - {w}" for w t
    by (simp add: finish_work_def final_def)
  ultimately show ?thesis
    unfolding ConvergeJob run_job.simps final_bind by simp
next
  case (OrphanJob w)
  have "stays (keeps rs_converging) (stopOrphan r w)"
    unfolding stopOrphan_def forget_def tell_def by (intro kp.stays_rules keeps_ask) simp_all
  then have "rs_converging (final (stopOrphan r w) s) = rs_converging s"
    by (simp add: stays_def keeps_def)
  then show ?thesis by (simp add: OrphanJob finish_work_def final_def split_beta)
next
  case (PruneJob specs)
  have "stays (keeps rs_converging) (run_job r (PruneJob specs))"
    unfolding run_job.simps by (intro kp.stays_rules keeps_ask) simp_all
  then show ?thesis by (simp add: PruneJob stays_def keeps_def)
qed

section \<open>Every reachable server\<close>

definition server_inv :: "server \<Rightarrow> bool" where
  "server_inv v \<longleftrightarrow> distinct (held_by (map snd (sv_jobs v)))
     \<and> set (held_by (map snd (sv_jobs v))) = rs_converging (sv_rec v)
     \<and> sv_passes v \<le> sv_began v \<and> (\<forall>(n, j) \<in> set (sv_jobs v). sv_passes v < n \<and> n \<le> sv_began v)"

lemma server_inv_pass:
  assumes "server_inv v"
  shows "server_inv (run_pass r v)"
proof -
  obtain jobs s' where run: "run_state (reconcile r (sv_began v)) (sv_rec v) = (jobs, s')" by force
  have "claims (rs_converging (sv_rec v)) jobs (rs_converging s')"
    using reconcile_claims [of "sv_rec v" r "sv_began v"] by (simp add: outcome_def final_def run)
  moreover have "map snd (map (Pair n) jobs) = jobs" for n :: nat by (induction jobs) simp_all
  ultimately have "distinct (held_by (map snd (sv_jobs (run_pass r v))))"
    "set (held_by (map snd (sv_jobs (run_pass r v)))) = rs_converging (sv_rec (run_pass r v))"
    using assms by (auto simp: server_inv_def run_pass_def run claims_def)
  moreover have "sv_passes (run_pass r v) < n \<and> n \<le> sv_began (run_pass r v)"
    if "(n, j) \<in> set (sv_jobs (run_pass r v))" for n j
    using that assms by (force simp: server_inv_def run_pass_def run)
  ultimately show ?thesis
    using assms by (auto simp: server_inv_def run_pass_def run)
qed

lemma server_inv_job:
  assumes "server_inv v" "sv_jobs v = before @ (n, j) # after"
  shows "server_inv (v\<lparr>sv_rec := final (run_job r j) (sv_rec v), sv_jobs := before @ after\<rparr>)"
  using assms by (fastforce simp: server_inv_def run_job_releases)

lemma server_inv_step: "server_step r v u \<Longrightarrow> server_inv v \<Longrightarrow> server_inv u"
proof (induction rule: server_step.induct)
  case (pass v)
  then show ?case by (rule server_inv_pass)
next
  case (job v before n j after)
  then show ?case by (intro server_inv_job)
next
  case (complete v)
  then show ?case by (force simp: server_inv_def)
next
  case (restart v w)
  then show ?case by (simp add: server_inv_def Restart_request_def final_def)
qed

lemma server_inv_reachable: "server_reachable r v \<Longrightarrow> server_inv v"
  by (induction rule: server_reachable.induct)
    (simp_all add: server_inv_step, simp add: server_inv_def new_server_def New_def new_reconciler_def)

section \<open>What the drivers answered\<close>

lemma observe_answered:
  assumes "outcome (observe r names) s = (instances, u)"
  shows "u \<subseteq> set names"
    and "d \<in> set names \<Longrightarrow> d \<notin> u \<Longrightarrow> \<exists>h xs. cfg_observed r h (DriverObserve d) = Inr xs \<and> set xs \<subseteq> set instances"
proof -
  have "u \<subseteq> set names \<and> (\<forall>d\<in>set names - u. \<exists>h xs. cfg_observed r h (DriverObserve d) = Inr xs
      \<and> set xs \<subseteq> set instances)"
    using assms
  proof (induction names arbitrary: s instances u)
    case Nil
    then show ?case by simp
  next
    case (Cons name names)
    let ?s' = "final (observeDriver r name) s"
    obtain xs v where rest: "outcome (observe r names) ?s' = (xs, v)" by force
    have one: "outcome (observeDriver r name) s = cfg_observed r (rs_trace s) (DriverObserve name)"
      by (simp add: observeDriver_def outcome_def split_beta)
    show ?case
      using Cons.prems Cons.IH [OF rest] rest
      by (cases "cfg_observed r (rs_trace s) (DriverObserve name)")
        (fastforce simp: outcome_bind one)+
  qed
  then show "u \<subseteq> set names"
    "d \<in> set names \<Longrightarrow> d \<notin> u \<Longrightarrow> \<exists>h xs. cfg_observed r h (DriverObserve d) = Inr xs \<and> set xs \<subseteq> set instances"
    by auto
qed

lemma checked_same: "\<exists>st. outcome (checked r i) s = i\<lparr>inst_State := st\<rparr>"
proof -
  have "\<exists>st. i = i\<lparr>inst_State := st\<rparr>" by (intro exI [of _ "inst_State i"]) simp
  then show ?thesis
    by (auto simp: checked_def outcome_bind failCheck_def split: option.split Status.split)
qed

lemma check_all_kept: "x \<in> set (outcome (check_all r is) s) \<Longrightarrow> \<not> inst_Retained x"
proof (induction "is" arbitrary: s)
  case (Cons i "is")
  obtain st where "outcome (checked r i) s = i\<lparr>inst_State := st\<rparr>" using checked_same by blast
  with Cons show ?case by (auto simp: outcome_bind split: if_splits)
qed simp

lemma example_pass: "server_reachable c (run_pass c (new_server c))"
  by (rule server_reachable.step [OF server_reachable.start server_step.pass])

section \<open>Properties\<close>

text \<open>
  A pass looks and its jobs act. Whatever the surroundings answer, the pass itself makes no call
  that starts, stops, signals or removes anything of a workload: it lists, observes, reads verdicts,
  registers checks, prunes the files of workloads that no longer exist and records verdict edges. It
  leaves the pacing, the endings, the marks and the restart requests as they were.
\<close>

lemma pass_only_looks:
  "looks False s (final (reconcile r began) s)"
  by (rule stays_final [OF looks_reconcile])

text \<open>
  What a pass converges, it knows: a workload a pass spawns a converge for is a row the pass listed,
  no earlier pass is still converging it, its runtime's driver answered this pass's observation (a
  workload whose driver did not answer is left alone), and the instances it is converged from are its
  own and not retained ones.
\<close>

lemma pass_converges_observed:
  assumes "ConvergeJob row is indexes \<in> set (outcome (reconcile r began) s)"
  shows "\<exists>rows. cfg_rows r (rs_trace s) WorkloadsList = Inr rows \<and> row \<in> set rows
    \<and> row_Name row \<notin> rs_converging s
    \<and> (row_Runtime row \<in> set (cfg_drivers r) \<longrightarrow>
         (\<exists>h xs. cfg_observed r h (DriverObserve (row_Runtime row)) = Inr xs))
    \<and> (\<forall>x\<in>set is. inst_Workload x = row_Name row \<and> \<not> inst_Retained x)"
proof (cases rule: reconcile_cases [of r began s])
  case idle
  with assms show ?thesis by simp
next
  case (spawned rows instances u s1 s2 s3)
  let ?seen = "outcome (check_all r instances) s2"
  obtain ps where ps: "held_by ps = []" and jobs: "outcome (reconcile r began) s =
      map (\<lambda>row. ConvergeJob row (of_workload (row_Name row) ?seen) (indexes_of (row_Name row) instances))
        (claimable (rs_converging s3) u rows)
      @ map OrphanJob (filter (\<lambda>w. w \<notin> row_Name ` set rows \<and> w \<notin> rs_converging s3)
          (remdups (map inst_Workload instances))) @ ps"
    using spawn_all_run(1) [OF refl, of r began rows instances ?seen u s3] unfolding spawned(4) by blast
  have "ConvergeJob row is indexes \<notin> set ps"
    using ps by (induction ps) (auto split: option.splits)
  then have row: "row \<in> set (claimable (rs_converging s) u rows)" "is = of_workload (row_Name row) ?seen"
    using assms jobs spawned(3) by auto
  show ?thesis
    using claimable_sub [OF row(1)] spawned(1) observe_answered(2) [OF spawned(2), of "row_Runtime row"]
      check_all_kept [of _ r instances s2]
    by (auto simp: row(2) of_workload_def)
qed

text \<open>
  C3. One converge per workload. In every state the server reaches, however passes, jobs, restarts and
  completions interleave, no workload has two jobs outstanding, and the workloads marked as being
  converged are exactly those of the outstanding jobs: none is acted on twice at once, and none stays
  marked after its job.
\<close>

theorem jobs_exclusive:
  assumes "server_reachable r v"
  shows "distinct (held_by (map snd (sv_jobs v)))
    \<and> set (held_by (map snd (sv_jobs v))) = rs_converging (sv_rec v)"
  using server_inv_reachable [OF assms] by (simp add: server_inv_def)

theorem jobs_exclusive_witness:
  "let c = example_config\<lparr>cfg_rows := (\<lambda>h c. Inr [example_wrow])\<rparr>; v = run_pass c (new_server c)
   in held_by (map snd (sv_jobs v)) = [''web''] \<and> rs_converging (sv_rec v) = {''web''}"
proof -
  let ?c = "example_config\<lparr>cfg_rows := (\<lambda>h c. Inr [example_wrow])\<rparr>"
  have "held_by (map snd (sv_jobs (run_pass ?c (new_server ?c)))) = [''web'']" by code_simp
  with jobs_exclusive [OF example_pass [of ?c]] show ?thesis by (simp add: Let_def)
qed

text \<open>
  Passes are counted in order and only once they have done all they set out to do: in every state
  the server reaches, a job outstanding belongs to a pass that has begun and is not counted yet.
\<close>

lemma passes_counted_in_order:
  assumes "server_reachable r v"
  shows "sv_passes v \<le> sv_began v
    \<and> (\<forall>(n, j) \<in> set (sv_jobs v). sv_passes v < n \<and> n \<le> sv_began v)"
  using server_inv_reachable [OF assms] by (simp add: server_inv_def)

end
