(* ===== verification/Workload_Store.thy ===== *)
theory Workload_Store
  imports Ports
begin

text \<open>
  The stored workloads (\<open>internal/server/database/workload.go\<close>): the table of workloads, with the port
  rows of the theory \<open>Ports\<close> and the links from a workload to the secrets, variables and workloads its
  specification reads.

  A transaction either applies all of its statements or none, so an operation that fails returns the
  database it was given. Statements fail only where the schema refuses them; the clock and the identifier
  a new row is given (\<open>xid.New\<close>) are arguments. Foreign keys are enforced with \<open>ON DELETE CASCADE\<close>, so
  deleting a workload deletes its ports and links.
\<close>

section \<open>Tables\<close>

text \<open>The names a row's specification references, written with the row and not read back.\<close>

record row_reads =
  rd_Secrets :: "string list"
  rd_Variables :: "string list"
  rd_Workloads :: "string list"

type_synonym link_table = "(string \<times> string) list"

record database =
  db_workloads :: "database_Workload list"
  db_ports :: port_table
  db_secrets :: link_table
  db_variables :: link_table
  db_references :: link_table

datatype store_error =
    ErrWorkloadNotFound
  | ErrWorkloadDeleting
  | ErrWorkloadReferenced
  | ErrWorkloadChanged
  | Store_ErrHostPortTaken int Protocol
  | ErrConstraint string

definition empty_database :: database where
  "empty_database = \<lparr>db_workloads = [], db_ports = [], db_secrets = [], db_variables = [],
     db_references = []\<rparr>"

definition store_get :: "string \<Rightarrow> database \<Rightarrow> store_error + database_Workload" where
  "store_get name db = (case find (\<lambda>w. row_Name w = name) (db_workloads db) of
       None \<Rightarrow> Inl ErrWorkloadNotFound | Some w \<Rightarrow> Inr w)"

section \<open>Writing a workload\<close>

definition store_insert ::
  "string \<Rightarrow> time \<Rightarrow> database_Workload \<Rightarrow> database \<Rightarrow> store_error + database_Workload \<times> database" where
  "store_insert newid now w db =
     (if newid \<in> row_ID ` set (db_workloads db) then Inl (ErrConstraint ''failed to insert workload'')
      else (let stored = w\<lparr>row_ID := newid, row_Version := 1, row_CreatedAt := now, row_UpdatedAt := now\<rparr>
            in Inr (stored, db\<lparr>db_workloads :=
                 db_workloads db @ [stored\<lparr>row_DeletedAt := 0, row_SuspendedAt := 0\<rparr>]\<rparr>)))"

text \<open>The columns the update sets; the others keep what they hold.\<close>

definition updated_row :: "time \<Rightarrow> database_Workload \<Rightarrow> int \<Rightarrow> database_Workload \<Rightarrow> database_Workload" where
  "updated_row now w version old =
     old\<lparr>row_Version := version, row_Runtime := row_Runtime w, row_Spec := row_Spec w,
         row_SpecHash := row_SpecHash w, row_Labels := row_Labels w, row_UpdatedAt := now\<rparr>"

definition store_update ::
  "time \<Rightarrow> database_Workload \<Rightarrow> database_Workload \<Rightarrow> database \<Rightarrow> database_Workload \<times> database" where
  "store_update now w existing db =
     (let version = row_Version existing + 1
      in (w\<lparr>row_ID := row_ID existing, row_Version := version, row_CreatedAt := row_CreatedAt existing,
            row_UpdatedAt := now\<rparr>,
          db\<lparr>db_workloads := map (\<lambda>old. if row_Name old = row_Name w
                 then updated_row now w version old else old) (db_workloads db)\<rparr>))"

definition link_names :: "string \<Rightarrow> string list \<Rightarrow> link_table \<Rightarrow> store_error + link_table" where
  "link_names wid names t =
     (if distinct names then Inr (filter (\<lambda>l. fst l \<noteq> wid) t @ map (Pair wid) names)
      else Inl (ErrConstraint ''failed to record reference''))"

definition store_link :: "string \<Rightarrow> row_reads \<Rightarrow> database \<Rightarrow> store_error + database" where
  "store_link wid reads db =
     (case link_names wid (rd_Secrets reads) (db_secrets db) of
        Inl e \<Rightarrow> Inl e
      | Inr secrets \<Rightarrow> (case link_names wid (rd_Variables reads) (db_variables db) of
            Inl e \<Rightarrow> Inl e
          | Inr variables \<Rightarrow> (case link_names wid (rd_Workloads reads) (db_references db) of
                Inl e \<Rightarrow> Inl e
              | Inr references \<Rightarrow> Inr (db\<lparr>db_secrets := secrets, db_variables := variables,
                    db_references := references\<rparr>))))"

text \<open>What is written for the row itself: the row as it is returned, whether it is new, and the database.\<close>

definition write_row ::
  "string \<Rightarrow> time \<Rightarrow> database_Workload \<Rightarrow> int \<Rightarrow> database
     \<Rightarrow> store_error + database_Workload \<times> bool \<times> database" where
  "write_row newid now w ifMatch db = (case store_get (row_Name w) db of
       Inl e \<Rightarrow>
         if ifMatch \<noteq> 0 then Inl e
         else (case store_insert newid now w db of
                 Inl e' \<Rightarrow> Inl e' | Inr (stored, db') \<Rightarrow> Inr (stored, True, db'))
     | Inr existing \<Rightarrow>
         if \<not> IsZero (row_DeletedAt existing) then Inl ErrWorkloadDeleting
         else if ifMatch \<noteq> 0 \<and> row_Version existing \<noteq> ifMatch then Inl ErrWorkloadChanged
         else if row_SpecHash existing = row_SpecHash w then Inr (existing, False, db)
         else (case store_update now w existing db of (stored, db') \<Rightarrow> Inr (stored, False, db')))"

definition Upsert ::
  "string \<Rightarrow> time \<Rightarrow> database_Workload \<Rightarrow> row_reads \<Rightarrow> int \<Rightarrow> database_Port list \<Rightarrow> database
     \<Rightarrow> (store_error + database_Workload \<times> bool) \<times> database" where
  "Upsert newid now w reads ifMatch ports db = (case write_row newid now w ifMatch db of
       Inl e \<Rightarrow> (Inl e, db)
     | Inr (stored, created, db') \<Rightarrow>
         (case table_Claim (row_ID stored) ports (db_ports db') of
            (Some (Tbl_ErrHostPortTaken h p), _) \<Rightarrow> (Inl (Store_ErrHostPortTaken h p), db)
          | (None, t) \<Rightarrow> (case store_link (row_ID stored) reads (db'\<lparr>db_ports := t\<rparr>) of
                Inl e \<Rightarrow> (Inl e, db)
              | Inr db'' \<Rightarrow> (Inr (stored, created), db''))))"

section \<open>Deleting, suspending and resuming\<close>

definition ReferencedBy :: "string \<Rightarrow> database \<Rightarrow> string list" where
  "ReferencedBy name db = sort (map row_Name (filter
     (\<lambda>w. (row_ID w, name) \<in> set (db_references db) \<and> row_Name w \<noteq> name) (db_workloads db)))"

definition set_row :: "string \<Rightarrow> (database_Workload \<Rightarrow> database_Workload) \<Rightarrow> database \<Rightarrow> database" where
  "set_row name f db = db\<lparr>db_workloads :=
     map (\<lambda>w. if row_Name w = name then f w else w) (db_workloads db)\<rparr>"

definition MarkDeleting ::
  "time \<Rightarrow> string \<Rightarrow> bool \<Rightarrow> database \<Rightarrow> (store_error + database_Workload) \<times> string list \<times> database" where
  "MarkDeleting now name force db = (case store_get name db of
       Inl e \<Rightarrow> (Inl e, [], db)
     | Inr existing \<Rightarrow>
         (let referencing = ReferencedBy name db
          in if referencing \<noteq> [] \<and> \<not> force then (Inl ErrWorkloadReferenced, referencing, db)
             else if \<not> IsZero (row_DeletedAt existing) then (Inr existing, referencing, db)
             else (Inr (existing\<lparr>row_DeletedAt := now\<rparr>), referencing,
                   set_row name (\<lambda>w. if IsZero (row_DeletedAt w) then w\<lparr>row_DeletedAt := now\<rparr> else w) db)))"

definition store_Suspend :: "time \<Rightarrow> string \<Rightarrow> database \<Rightarrow> (store_error + database_Workload) \<times> database" where
  "store_Suspend now name db = (case store_get name db of
       Inl e \<Rightarrow> (Inl e, db)
     | Inr existing \<Rightarrow>
         if \<not> IsZero (row_SuspendedAt existing) then (Inr existing, db)
         else (Inr (existing\<lparr>row_SuspendedAt := now\<rparr>),
               set_row name (\<lambda>w. if IsZero (row_SuspendedAt w) then w\<lparr>row_SuspendedAt := now\<rparr> else w) db))"

definition store_Resume :: "time \<Rightarrow> string \<Rightarrow> database \<Rightarrow> (store_error + database_Workload) \<times> database" where
  "store_Resume now name db = (case store_get name db of
       Inl e \<Rightarrow> (Inl e, db)
     | Inr existing \<Rightarrow>
         if IsZero (row_SuspendedAt existing) then (Inr existing, db)
         else (Inr (existing\<lparr>row_SuspendedAt := 0, row_UpdatedAt := now\<rparr>),
               set_row name (\<lambda>w. if IsZero (row_SuspendedAt w) then w
                 else w\<lparr>row_SuspendedAt := 0, row_UpdatedAt := now\<rparr>) db))"

text \<open>The rows of the other tables that belong to a workload go with it.\<close>

definition cascade :: "string set \<Rightarrow> database \<Rightarrow> database" where
  "cascade ids db = db\<lparr>db_ports := filter (\<lambda>p. prt_WorkloadID p \<notin> ids) (db_ports db),
     db_secrets := filter (\<lambda>l. fst l \<notin> ids) (db_secrets db),
     db_variables := filter (\<lambda>l. fst l \<notin> ids) (db_variables db),
     db_references := filter (\<lambda>l. fst l \<notin> ids) (db_references db)\<rparr>"

definition store_Delete :: "string \<Rightarrow> database \<Rightarrow> store_error option \<times> database" where
  "store_Delete name db =
     (let gone = filter (\<lambda>w. row_Name w = name) (db_workloads db)
      in if gone = [] then (Some ErrWorkloadNotFound, db)
         else (None, cascade (row_ID ` set gone)
           (db\<lparr>db_workloads := filter (\<lambda>w. row_Name w \<noteq> name) (db_workloads db)\<rparr>)))"

section \<open>Steps\<close>

text \<open>
  What the server does to the tables: an apply or a rehash writes a row with its ports and links, ports
  are claimed for a workload that is stored, and the others change or remove one row. The identifiers
  handed out so far are kept beside the database: \<open>xid.New\<close> never hands one out twice.
\<close>

inductive store_step :: "string set \<Rightarrow> database \<Rightarrow> string set \<Rightarrow> database \<Rightarrow> bool" where
  upsert: "newid \<notin> used \<Longrightarrow>
    store_step used db (insert newid used) (snd (Upsert newid now w reads ifMatch ports db))"
| claim: "wid \<in> row_ID ` set (db_workloads db) \<Longrightarrow>
    store_step used db used (db\<lparr>db_ports := snd (table_Claim wid ports (db_ports db))\<rparr>)"
| mark_deleting: "store_step used db used (snd (snd (MarkDeleting now name force db)))"
| suspend: "store_step used db used (snd (store_Suspend now name db))"
| resume: "store_step used db used (snd (store_Resume now name db))"
| delete: "store_step used db used (snd (store_Delete name db))"

inductive store_reaches :: "string set \<Rightarrow> database \<Rightarrow> string set \<Rightarrow> database \<Rightarrow> bool" where
  start: "store_reaches used db used db"
| step: "store_reaches used db used' db' \<Longrightarrow> store_step used' db' used'' db''
    \<Longrightarrow> store_reaches used db used'' db''"

section \<open>The invariant of the tables\<close>

abbreviation ids :: "database \<Rightarrow> string set" where
  "ids db \<equiv> row_ID ` set (db_workloads db)"

definition links_ok :: "string set \<Rightarrow> link_table \<Rightarrow> bool" where
  "links_ok owners t \<longleftrightarrow> distinct t \<and> (\<forall>l\<in>set t. fst l \<in> owners)"

definition store_ok :: "database \<Rightarrow> bool" where
  "store_ok db \<longleftrightarrow> distinct (map row_Name (db_workloads db)) \<and> distinct (map row_ID (db_workloads db))
     \<and> (\<forall>w\<in>set (db_workloads db). 1 \<le> row_Version w)
     \<and> table_ok (db_ports db) \<and> (\<forall>p\<in>set (db_ports db). prt_WorkloadID p \<in> ids db)
     \<and> links_ok (ids db) (db_secrets db) \<and> links_ok (ids db) (db_variables db)
     \<and> links_ok (ids db) (db_references db)"

lemma store_ok_empty: "store_ok empty_database"
  by (simp add: store_ok_def empty_database_def links_ok_def table_ok_def)

lemma store_get_Inr:
  "store_get name db = Inr w \<Longrightarrow> w \<in> set (db_workloads db) \<and> row_Name w = name"
  by (auto simp: store_get_def find_Some_iff split: option.splits)

lemma store_get_Inl: "store_get name db = Inl e \<Longrightarrow> name \<notin> row_Name ` set (db_workloads db)"
  by (auto simp: store_get_def find_None_iff split: option.splits)

lemma same_name:
  "store_ok db \<Longrightarrow> w \<in> set (db_workloads db) \<Longrightarrow> v \<in> set (db_workloads db) \<Longrightarrow> row_Name w = row_Name v \<Longrightarrow> w = v"
  by (auto simp: store_ok_def distinct_map inj_on_def)

lemma store_get_iff:
  "store_ok db \<Longrightarrow> store_get name db = Inr w \<longleftrightarrow> w \<in> set (db_workloads db) \<and> row_Name w = name"
  by (metis old.sum.exhaust store_get_Inl store_get_Inr rev_image_eqI same_name)

text \<open>Rewriting the rows of one name keeps every column the rewriting keeps.\<close>

lemma map_row_keeps:
  "(\<And>w. f (g w) = f w) \<Longrightarrow> map f (map (\<lambda>w. if P w then g w else w) ws) = map f ws"
  by (induction ws) auto

lemma store_ok_rows:
  assumes "store_ok db" "map row_Name ws = map row_Name (db_workloads db)"
    and "map row_ID ws = map row_ID (db_workloads db)" "\<forall>w\<in>set ws. 1 \<le> row_Version w"
  shows "store_ok (db\<lparr>db_workloads := ws\<rparr>)"
proof -
  have "row_ID ` set ws = ids db" using assms(3) by (metis list.set_map)
  then show ?thesis using assms by (simp add: store_ok_def)
qed

lemma store_ok_set_row:
  assumes "store_ok db" "\<And>w. row_Name (f w) = row_Name w" "\<And>w. row_ID (f w) = row_ID w"
    and "\<And>w. row_Version (f w) = row_Version w"
  shows "store_ok (set_row name f db)"
  unfolding set_row_def
  by (rule store_ok_rows [OF assms(1)])
    (use assms in \<open>auto simp: map_row_keeps store_ok_def split: if_splits\<close>)

lemma links_ok_filter: "links_ok owners t \<Longrightarrow> links_ok owners (filter P t)"
  by (auto simp: links_ok_def)

lemma links_ok_mono: "links_ok owners t \<Longrightarrow> owners \<subseteq> more_owners \<Longrightarrow> links_ok more_owners t"
  by (auto simp: links_ok_def)

lemma link_names_ok:
  "link_names wid names t = Inr t' \<Longrightarrow> links_ok owners t \<Longrightarrow> wid \<in> owners \<Longrightarrow> links_ok owners t'"
  by (auto simp: link_names_def links_ok_def distinct_map inj_on_def split: if_splits)

lemma table_Claim_ok:
  assumes "table_ok t" "\<forall>p\<in>set t. prt_WorkloadID p \<in> owners" "wid \<in> owners"
  shows "table_ok (snd (table_Claim wid ps t))
    \<and> (\<forall>p\<in>set (snd (table_Claim wid ps t)). prt_WorkloadID p \<in> owners)"
proof (cases "insert_ports wid ps (table_Release wid t)")
  case (Inl e)
  then show ?thesis using assms by (simp add: table_Claim_def)
next
  case (Inr t')
  have "table_ok (table_Release wid t)"
    using assms(1) by (simp add: table_ok_def table_Release_def distinct_map_filter)
  from insert_ports_ok [OF Inr this] show ?thesis
    using assms Inr by (auto simp: table_Claim_def table_Release_def)
qed

lemma store_link_ok:
  assumes "store_link wid reads db = Inr db'" "store_ok db" "wid \<in> ids db"
  shows "store_ok db' \<and> db_workloads db' = db_workloads db \<and> db_ports db' = db_ports db"
  using assms
  by (auto simp: store_link_def store_ok_def intro: link_names_ok split: sum.splits)

lemma store_insert_ok:
  assumes "store_insert newid now w db = Inr (stored, db')" "store_ok db" "store_get (row_Name w) db = Inl e"
  shows "store_ok db' \<and> row_ID stored \<in> ids db'"
proof -
  have fresh: "newid \<notin> ids db" "row_Name w \<notin> row_Name ` set (db_workloads db)"
    using assms(1) store_get_Inl [OF assms(3)] by (auto simp: store_insert_def split: if_splits)
  moreover have "\<exists>v. db_workloads db' = db_workloads db @ [v] \<and> row_ID v = newid \<and> row_Name v = row_Name w
      \<and> row_Version v = 1 \<and> row_ID stored = newid \<and> db' = db\<lparr>db_workloads := db_workloads db @ [v]\<rparr>"
    using assms(1) fresh(1) by (auto simp: store_insert_def Let_def)
  ultimately show ?thesis using assms(2) by (auto simp: store_ok_def intro: links_ok_mono)
qed

lemma store_update_ok:
  assumes "store_update now w existing db = (stored, db')" "store_ok db" "existing \<in> set (db_workloads db)"
    and "row_Name existing = row_Name w"
  shows "store_ok db' \<and> row_ID stored \<in> ids db'"
proof -
  let ?u = "updated_row now w (row_Version existing + 1)"
  have db': "db' = db\<lparr>db_workloads := map (\<lambda>old. if row_Name old = row_Name w then ?u old else old) (db_workloads db)\<rparr>"
    and stored: "row_ID stored = row_ID existing"
    using assms(1) by (auto simp: store_update_def Let_def)
  have "store_ok db'"
    unfolding db'
    by (rule store_ok_rows [OF assms(2)])
      (use assms(2,3) in \<open>auto simp: map_row_keeps updated_row_def store_ok_def\<close>)
  moreover have "map row_ID (db_workloads db') = map row_ID (db_workloads db)"
    unfolding db' by (simp add: updated_row_def)
  then have "ids db' = ids db" by (metis list.set_map)
  ultimately show ?thesis using stored assms(3) by auto
qed

lemma write_row_ok:
  assumes "write_row newid now w ifMatch db = Inr (stored, created, db')" "store_ok db"
  shows "store_ok db' \<and> row_ID stored \<in> ids db'"
proof (cases "store_get (row_Name w) db")
  case (Inl e)
  then show ?thesis
    using assms store_insert_ok [OF _ assms(2) Inl] by (auto simp: write_row_def split: if_splits sum.splits)
next
  case (Inr existing)
  then show ?thesis
    using assms store_get_Inr [OF Inr] store_update_ok [OF _ assms(2), of now w existing]
    by (auto simp: write_row_def split: if_splits prod.splits)
qed

lemma Upsert_ok:
  assumes "store_ok db"
  shows "store_ok (snd (Upsert newid now w reads ifMatch ports db))"
proof (cases "write_row newid now w ifMatch db")
  case (Inl e)
  then show ?thesis using assms by (simp add: Upsert_def)
next
  case (Inr r)
  then obtain stored created db' where row: "write_row newid now w ifMatch db = Inr (stored, created, db')"
    by (cases r) auto
  note ok = write_row_ok [OF row assms]
  obtain err t where claim: "table_Claim (row_ID stored) ports (db_ports db') = (err, t)" by force
  have "store_ok (db'\<lparr>db_ports := t\<rparr>)"
    using ok table_Claim_ok [of "db_ports db'" "ids db'" "row_ID stored" ports] claim
    by (simp add: store_ok_def)
  then have linked: "store_ok db''" if "store_link (row_ID stored) reads (db'\<lparr>db_ports := t\<rparr>) = Inr db''" for db''
    using store_link_ok [OF that] ok by simp
  show ?thesis
  proof (cases err)
    case None
    then show ?thesis
      using row claim assms linked
      by (cases "store_link (row_ID stored) reads (db'\<lparr>db_ports := t\<rparr>)") (simp_all add: Upsert_def)
  next
    case (Some e)
    then show ?thesis using row claim assms by (cases e) (simp add: Upsert_def)
  qed
qed

lemma store_Delete_ok:
  assumes "store_ok db"
  shows "store_ok (snd (store_Delete name db))"
proof -
  let ?gone = "filter (\<lambda>w. row_Name w = name) (db_workloads db)"
  have stay: "row_ID w \<in> row_ID ` {w \<in> set (db_workloads db). row_Name w \<noteq> name}"
    if "w \<in> set (db_workloads db)" "row_ID w \<notin> row_ID ` set ?gone" for w
    using that by auto
  have owner: "x \<in> row_ID ` {w \<in> set (db_workloads db). row_Name w \<noteq> name}"
    if "x \<in> ids db" "x \<notin> row_ID ` set ?gone" for x
    using that stay by auto
  show ?thesis
    using assms owner
    by (auto simp: store_Delete_def Let_def cascade_def store_ok_def links_ok_def table_ok_def
        distinct_map_filter image_subset_iff)
qed

lemma store_step_ok:
  assumes "store_step used db used' db'" "store_ok db"
  shows "store_ok db'"
  using assms(1)
proof cases
  case (claim wid ports)
  then show ?thesis
    using assms(2) table_Claim_ok [of "db_ports db" "ids db" wid ports] by (simp add: store_ok_def)
next
  case (mark_deleting now name force)
  then show ?thesis
    using assms(2) by (auto simp: MarkDeleting_def Let_def split: sum.splits intro!: store_ok_set_row)
next
  case (suspend now name)
  then show ?thesis
    using assms(2) by (auto simp: store_Suspend_def split: sum.splits intro!: store_ok_set_row)
next
  case (resume now name)
  then show ?thesis
    using assms(2) by (auto simp: store_Resume_def split: sum.splits intro!: store_ok_set_row)
qed (use assms(2) Upsert_ok store_Delete_ok in simp_all)

section \<open>Versions\<close>

text \<open>
  How the rows of a step come about: each is a row there was, at the same version with the same
  specification or at a later version, or it is new, under an identifier handed out by this step.
\<close>

definition same_definition :: "database_Workload \<Rightarrow> database_Workload \<Rightarrow> bool" where
  "same_definition w v \<longleftrightarrow> row_Runtime w = row_Runtime v \<and> row_Spec w = row_Spec v
     \<and> row_SpecHash w = row_SpecHash v \<and> row_Labels w = row_Labels v"

definition succeeds :: "database_Workload \<Rightarrow> database_Workload \<Rightarrow> bool" where
  "succeeds w v \<longleftrightarrow> row_ID w = row_ID v \<and> row_Name w = row_Name v
     \<and> (row_Version w = row_Version v \<and> same_definition w v \<or> row_Version w < row_Version v)"

definition from_rows :: "database \<Rightarrow> database_Workload \<Rightarrow> bool" where
  "from_rows db v \<longleftrightarrow> (\<exists>w\<in>set (db_workloads db). succeeds w v)"

lemma succeeds_refl [simp]: "succeeds w w"
  by (simp add: succeeds_def same_definition_def)

lemma succeeds_marks [simp]:
  "succeeds w (w\<lparr>row_DeletedAt := a\<rparr>)" "succeeds w (w\<lparr>row_SuspendedAt := a\<rparr>)"
  "succeeds w (w\<lparr>row_SuspendedAt := a, row_UpdatedAt := b\<rparr>)"
  by (simp_all add: succeeds_def same_definition_def)

lemma succeeds_trans: "succeeds u v \<Longrightarrow> succeeds v w \<Longrightarrow> succeeds u w"
  by (auto simp: succeeds_def same_definition_def)

lemma from_rows_self: "w \<in> set (db_workloads db) \<Longrightarrow> from_rows db w"
  using succeeds_refl unfolding from_rows_def by blast

lemma set_row_from_rows:
  "(\<And>w. succeeds w (f w)) \<Longrightarrow> v \<in> set (db_workloads (set_row name f db)) \<Longrightarrow> from_rows db v"
  using from_rows_self by (auto simp: set_row_def from_rows_def split: if_splits)

lemma write_row_from_rows:
  assumes "write_row newid now w ifMatch db = Inr (stored, created, db')" "store_ok db"
    and "v \<in> set (db_workloads db')"
  shows "from_rows db v \<or> row_ID v = newid"
proof (cases "store_get (row_Name w) db")
  case (Inl e)
  then show ?thesis
    using assms by (auto simp: write_row_def store_insert_def Let_def intro: from_rows_self split: if_splits)
next
  case (Inr existing)
  note found = store_get_Inr [OF Inr]
  have "from_rows db (updated_row now w (row_Version existing + 1) old)"
    if "old \<in> set (db_workloads db)" "row_Name old = row_Name w" for old
  proof -
    have "old = existing" using same_name [OF assms(2)] found that by auto
    then show ?thesis using found by (auto simp: from_rows_def succeeds_def updated_row_def intro!: bexI [of _ existing])
  qed
  then show ?thesis
    using assms Inr
    by (auto simp: write_row_def store_update_def Let_def intro: from_rows_self split: if_splits)
qed

lemma Upsert_rows:
  assumes "v \<in> set (db_workloads (snd (Upsert newid now w reads ifMatch ports db)))"
  shows "v \<in> set (db_workloads db)
    \<or> (\<exists>stored created db'. write_row newid now w ifMatch db = Inr (stored, created, db')
         \<and> v \<in> set (db_workloads db'))"
  using assms
  by (auto simp: Upsert_def store_link_def
      split: sum.splits prod.splits option.splits table_error.splits)

lemma store_step_from_rows:
  assumes "store_step used db used' db'" "store_ok db" "v \<in> set (db_workloads db')"
  shows "from_rows db v \<or> row_ID v \<in> used' - used"
  using assms(1)
proof cases
  case (upsert newid now w reads ifMatch ports)
  then show ?thesis
    using assms(2,3) Upsert_rows [of v newid now w reads ifMatch ports db]
    by (auto intro: from_rows_self dest: write_row_from_rows)
next
  case (mark_deleting now name force)
  then show ?thesis
    using assms(3)
    by (auto simp: MarkDeleting_def Let_def intro: from_rows_self elim!: set_row_from_rows [rotated]
        split: sum.splits if_splits)
next
  case (suspend now name)
  then show ?thesis
    using assms(3)
    by (auto simp: store_Suspend_def intro: from_rows_self elim!: set_row_from_rows [rotated]
        split: sum.splits if_splits)
next
  case (resume now name)
  then show ?thesis
    using assms(3)
    by (auto simp: store_Resume_def intro: from_rows_self elim!: set_row_from_rows [rotated]
        split: sum.splits if_splits)
next
  case (delete name)
  then show ?thesis
    using assms(3)
    by (auto simp: store_Delete_def Let_def cascade_def intro: from_rows_self split: if_splits)
qed (use assms(3) in \<open>auto intro: from_rows_self\<close>)

lemma store_step_used: "store_step used db used' db' \<Longrightarrow> used \<subseteq> used'"
  by (auto elim: store_step.cases)

lemma store_reaches_ok:
  "store_reaches used db used' db' \<Longrightarrow> store_ok db \<Longrightarrow> store_ok db'"
  by (induction rule: store_reaches.induct) (auto intro: store_step_ok)

text \<open>Whatever row an identifier names later on succeeds the row it names now.\<close>

lemma store_reaches_succeeds:
  assumes "store_reaches used db used' db'" "store_ok db" "w \<in> set (db_workloads db)" "row_ID w \<in> used"
  shows "row_ID w \<in> used' \<and> (\<forall>v\<in>set (db_workloads db'). row_ID v = row_ID w \<longrightarrow> succeeds w v)"
  using assms
proof (induction rule: store_reaches.induct)
  case (start used db)
  then have "v = w" if "v \<in> set (db_workloads db)" "row_ID v = row_ID w" for v
    using that by (auto simp: store_ok_def distinct_map inj_on_def)
  then show ?case using start.prems(3) succeeds_refl by blast
next
  case (step used db used' db' used'' db'')
  have ok: "store_ok db'" using store_reaches_ok step.hyps(1) step.prems(1) by blast
  have IH: "row_ID w \<in> used'" "\<forall>v\<in>set (db_workloads db'). row_ID v = row_ID w \<longrightarrow> succeeds w v"
    using step.IH step.prems by auto
  have "succeeds w v" if v: "v \<in> set (db_workloads db'')" "row_ID v = row_ID w" for v
  proof -
    have "from_rows db' v" using store_step_from_rows [OF step.hyps(2) ok v(1)] v(2) IH(1) by auto
    then obtain u where "u \<in> set (db_workloads db')" "succeeds u v" by (auto simp: from_rows_def)
    moreover then have "succeeds w u" using IH(2) v(2) by (auto simp: succeeds_def)
    ultimately show ?thesis using succeeds_trans by blast
  qed
  then show ?case using IH(1) store_step_used [OF step.hyps(2)] by auto
qed

section \<open>Properties\<close>

text \<open>
  The tables stay consistent whatever the server does to them, in any order: names and identifiers
  are unique, every version is at least one, no host port is held twice, and every port row and every
  recorded reference belongs to a workload that is stored.
\<close>

lemma store_consistent:
  assumes "store_reaches used empty_database used' db"
  shows "store_ok db"
  by (rule store_reaches_ok [OF assms store_ok_empty])

definition example_stored :: database_Workload where
  "example_stored = \<lparr>row_ID = [], row_Name = ''web'', row_Version = 0, row_Runtime = ''container'',
     row_Spec = ''{}'', row_SpecHash = ''h1'', row_Labels = [], row_CreatedAt = 0, row_UpdatedAt = 0,
     row_DeletedAt = 0, row_SuspendedAt = 0\<rparr>"

definition example_reads :: row_reads where
  "example_reads = \<lparr>rd_Secrets = [''db''], rd_Variables = [], rd_Workloads = []\<rparr>"

definition example_db :: database where
  "example_db = snd (Upsert ''id1'' 5 example_stored example_reads 0 [example_row] empty_database)"

lemma example_db_reached: "store_reaches {} empty_database {''id1''} example_db"
  unfolding example_db_def by (rule store_reaches.step [OF store_reaches.start store_step.upsert]) simp

text \<open>
  C7. A version names one definition. While a workload keeps its identifier, its version never goes down,
  and two rows under that identifier with the same version have the same runtime, specification, hash and
  labels; an identifier never comes to name another workload.
\<close>

theorem version_names_definition:
  assumes "store_reaches used db used' db'" "store_ok db" "ids db \<subseteq> used"
    and "w \<in> set (db_workloads db)" "v \<in> set (db_workloads db')" "row_ID v = row_ID w"
  shows "row_Name v = row_Name w \<and> row_Version w \<le> row_Version v
    \<and> (row_Version w = row_Version v \<longrightarrow> row_Runtime w = row_Runtime v \<and> row_Spec w = row_Spec v
        \<and> row_SpecHash w = row_SpecHash v \<and> row_Labels w = row_Labels v)"
proof -
  have "succeeds w v" using store_reaches_succeeds [OF assms(1,2,4)] assms(3-6) by blast
  then show ?thesis by (auto simp: succeeds_def same_definition_def)
qed

definition example_moved_db :: database where
  "example_moved_db = snd (Upsert ''id2'' 9 (example_stored\<lparr>row_SpecHash := ''h2''\<rparr>) example_reads 1
     [example_row] example_db)"

lemma example_moved_reached: "store_reaches {''id1''} example_db {''id2'', ''id1''} example_moved_db"
  unfolding example_moved_db_def by (rule store_reaches.step [OF store_reaches.start store_step.upsert]) simp

definition example_row1 :: database_Workload where
  "example_row1 = example_stored\<lparr>row_ID := ''id1'', row_Version := 1, row_CreatedAt := 5, row_UpdatedAt := 5\<rparr>"

definition example_row2 :: database_Workload where
  "example_row2 = example_row1\<lparr>row_Version := 2, row_SpecHash := ''h2'', row_UpdatedAt := 9\<rparr>"

lemma example_db_rows:
  "db_workloads example_db = [example_row1]" "db_workloads example_moved_db = [example_row2]"
  by code_simp+

theorem version_names_definition_witness: "row_Version example_row1 \<le> row_Version example_row2"
  using version_names_definition [OF example_moved_reached store_reaches_ok [OF example_db_reached store_ok_empty],
      of example_row1 example_row2]
  by (simp add: example_db_rows example_row1_def example_row2_def)

text \<open>What a successful write leaves of the ports and links: those of the row it wrote, and the others'.\<close>

lemma link_names_effect:
  "link_names wid names t = Inr t' \<Longrightarrow> t' = filter (\<lambda>l. fst l \<noteq> wid) t @ map (Pair wid) names"
  by (simp add: link_names_def split: if_splits)

lemma store_link_effect:
  "store_link wid reads db = Inr db' \<Longrightarrow> db' = db\<lparr>
     db_secrets := filter (\<lambda>l. fst l \<noteq> wid) (db_secrets db) @ map (Pair wid) (rd_Secrets reads),
     db_variables := filter (\<lambda>l. fst l \<noteq> wid) (db_variables db) @ map (Pair wid) (rd_Variables reads),
     db_references := filter (\<lambda>l. fst l \<noteq> wid) (db_references db) @ map (Pair wid) (rd_Workloads reads)\<rparr>"
  by (auto simp: store_link_def dest!: link_names_effect split: sum.splits)

lemma table_Claim_effect:
  assumes "table_Claim wid ps t = (None, t')" "table_ok t"
  shows "t' = table_Release wid t @ map (\<lambda>p. p\<lparr>prt_WorkloadID := wid\<rparr>) ps"
proof -
  have "insert_ports wid ps (table_Release wid t) = Inr t'"
    using assms(1) by (simp add: table_Claim_def split: sum.splits)
  moreover have "table_ok (table_Release wid t)"
    using assms(2) by (simp add: table_ok_def table_Release_def distinct_map_filter)
  ultimately show ?thesis using insert_ports_ok by blast
qed

lemma write_row_same:
  "write_row newid now w ifMatch db = Inr (stored, created, db') \<Longrightarrow>
     db_ports db' = db_ports db \<and> db_secrets db' = db_secrets db \<and> db_variables db' = db_variables db
     \<and> db_references db' = db_references db"
  by (auto simp: write_row_def store_insert_def store_update_def Let_def split: sum.splits if_splits)

lemma Upsert_Inr:
  assumes "Upsert newid now w reads ifMatch ports db = (Inr (stored, created), db')" "store_ok db"
  shows "\<exists>db1. write_row newid now w ifMatch db = Inr (stored, created, db1)
    \<and> db_workloads db' = db_workloads db1
    \<and> db_ports db' = table_Release (row_ID stored) (db_ports db)
        @ map (\<lambda>p. p\<lparr>prt_WorkloadID := row_ID stored\<rparr>) ports
    \<and> db_references db' = filter (\<lambda>l. fst l \<noteq> row_ID stored) (db_references db)
        @ map (Pair (row_ID stored)) (rd_Workloads reads)"
proof -
  obtain s c db1 where row: "write_row newid now w ifMatch db = Inr (s, c, db1)"
    using assms(1) by (auto simp: Upsert_def split: sum.splits)
  obtain t where claim: "table_Claim (row_ID s) ports (db_ports db1) = (None, t)"
    and link: "store_link (row_ID s) reads (db1\<lparr>db_ports := t\<rparr>) = Inr db'"
    and same: "s = stored" "c = created"
    using assms(1) row
    by (auto simp: Upsert_def split: prod.splits option.splits table_error.splits sum.splits)
  show ?thesis
    using row same store_link_effect [OF link] table_Claim_effect [OF claim] write_row_same [OF row]
      write_row_ok [OF row assms(2)]
    by (simp add: store_ok_def)
qed

text \<open>How the written row relates to what was stored under the name.\<close>

definition written ::
  "database_Workload \<Rightarrow> int \<Rightarrow> database \<Rightarrow> database_Workload \<Rightarrow> bool \<Rightarrow> bool" where
  "written w ifMatch db row created \<longleftrightarrow> (case store_get (row_Name w) db of
       Inl e \<Rightarrow> created \<and> ifMatch = 0 \<and> row_Version row = 1 \<and> row_Spec row = row_Spec w
     | Inr old \<Rightarrow> \<not> created \<and> IsZero (row_DeletedAt old) \<and> ifMatch \<in> {0, row_Version old}
         \<and> (if row_SpecHash old = row_SpecHash w then row = old
            else row_Version row = row_Version old + 1 \<and> row_Spec row = row_Spec w
              \<and> row_ID row = row_ID old \<and> row_SuspendedAt row = row_SuspendedAt old))"

lemma write_row_effect:
  assumes "write_row newid now w ifMatch db = Inr (stored, created, db1)" "store_ok db"
  shows "\<exists>row\<in>set (db_workloads db1). row_Name row = row_Name w \<and> row_ID row = row_ID stored
    \<and> row_SpecHash row = row_SpecHash w \<and> written w ifMatch db row created
    \<and> {v \<in> set (db_workloads db1). row_Name v \<noteq> row_Name w}
        = {v \<in> set (db_workloads db). row_Name v \<noteq> row_Name w}"
proof (cases "store_get (row_Name w) db")
  case (Inl e)
  then show ?thesis
    using assms(1) store_get_Inl [OF Inl]
    by (auto simp: write_row_def store_insert_def written_def Let_def split: if_splits)
next
  case (Inr old)
  note found = store_get_Inr [OF Inr]
  show ?thesis
  proof (cases "row_SpecHash old = row_SpecHash w")
    case True
    then show ?thesis
      using assms(1) Inr found by (auto simp: write_row_def written_def split: if_splits)
  next
    case False
    let ?u = "updated_row now w (row_Version old + 1)"
    have db1: "db_workloads db1 = map (\<lambda>v. if row_Name v = row_Name w then ?u v else v) (db_workloads db)"
      and id: "row_ID stored = row_ID old"
      using assms(1) Inr False by (auto simp: write_row_def store_update_def Let_def split: if_splits)
    have "?u old \<in> set (db_workloads db1)" using found unfolding db1 by auto
    moreover have "row_Name (?u v) = row_Name v" for v by (simp add: updated_row_def)
    then have "{v \<in> set (db_workloads db1). row_Name v \<noteq> row_Name w}
        = {v \<in> set (db_workloads db). row_Name v \<noteq> row_Name w}"
      unfolding db1 by auto
    moreover have "written w ifMatch db (?u old) created"
      using assms(1) Inr False found by (auto simp: write_row_def written_def updated_row_def
          split: if_splits prod.splits)
    moreover have "row_Name (?u old) = row_Name w \<and> row_ID (?u old) = row_ID stored
        \<and> row_SpecHash (?u old) = row_SpecHash w"
      using found id by (simp add: updated_row_def)
    ultimately show ?thesis by blast
  qed
qed

lemma table_List_written:
  "set (table_List (table_Release wid t @ map (\<lambda>p. p\<lparr>prt_WorkloadID := wid\<rparr>) ps) wid)
     = (\<lambda>p. p\<lparr>prt_WorkloadID := wid\<rparr>) ` set ps"
  by (auto simp: table_List_set table_Release_def)

lemma Upsert_success:
  assumes "store_ok db" "Upsert newid now w reads ifMatch ports db = (Inr (stored, created), db')"
  shows "\<exists>row. store_get (row_Name w) db' = Inr row \<and> row_SpecHash row = row_SpecHash w
    \<and> row_ID row = row_ID stored
    \<and> {v \<in> set (db_workloads db'). row_Name v \<noteq> row_Name w}
        = {v \<in> set (db_workloads db). row_Name v \<noteq> row_Name w}
    \<and> set (table_List (db_ports db') (row_ID row))
        = (\<lambda>p. p\<lparr>prt_WorkloadID := row_ID row\<rparr>) ` set ports
    \<and> {n. (row_ID row, n) \<in> set (db_references db')} = set (rd_Workloads reads)
    \<and> written w ifMatch db row created"
proof -
  obtain db1 where row: "write_row newid now w ifMatch db = Inr (stored, created, db1)"
    and rows: "db_workloads db' = db_workloads db1"
    and ports: "db_ports db' = table_Release (row_ID stored) (db_ports db)
        @ map (\<lambda>p. p\<lparr>prt_WorkloadID := row_ID stored\<rparr>) ports"
    and refs: "db_references db' = filter (\<lambda>l. fst l \<noteq> row_ID stored) (db_references db)
        @ map (Pair (row_ID stored)) (rd_Workloads reads)"
    using Upsert_Inr assms by metis
  obtain row where "row \<in> set (db_workloads db')" "row_Name row = row_Name w" "row_ID row = row_ID stored"
    "row_SpecHash row = row_SpecHash w" "written w ifMatch db row created"
    "{v \<in> set (db_workloads db'). row_Name v \<noteq> row_Name w}
        = {v \<in> set (db_workloads db). row_Name v \<noteq> row_Name w}"
    using write_row_effect [OF row assms(1)] unfolding rows by blast
  moreover then have "store_get (row_Name w) db' = Inr row"
    using Upsert_ok [OF assms(1), of newid now w reads ifMatch ports] assms(2) by (simp add: store_get_iff)
  moreover have "{n. (row_ID stored, n) \<in> set (db_references db')} = set (rd_Workloads reads)"
    unfolding refs by (simp add: set_eq_iff image_iff)
  moreover have "set (table_List (db_ports db') (row_ID stored))
      = (\<lambda>p. p\<lparr>prt_WorkloadID := row_ID stored\<rparr>) ` set ports"
    unfolding ports by (rule table_List_written)
  ultimately show ?thesis by auto
qed

text \<open>
  What a write does. An error leaves the database as it was. A success leaves exactly one row under the
  name, and every other row as it was: a new row at version one when the name was free; the row that was
  there, untouched, when the hash has not moved; and otherwise the same row at the next version with the
  new specification and hash. The workload's ports and references are then exactly those written.
\<close>

lemma Upsert_effect:
  assumes "store_ok db" "Upsert newid now w reads ifMatch ports db = (answer, db')"
  shows "case answer of
      Inl e \<Rightarrow> db' = db
    | Inr (stored, created) \<Rightarrow>
        \<exists>row. store_get (row_Name w) db' = Inr row \<and> row_SpecHash row = row_SpecHash w
        \<and> {v \<in> set (db_workloads db'). row_Name v \<noteq> row_Name w}
            = {v \<in> set (db_workloads db). row_Name v \<noteq> row_Name w}
        \<and> set (table_List (db_ports db') (row_ID row))
            = (\<lambda>p. p\<lparr>prt_WorkloadID := row_ID row\<rparr>) ` set ports
        \<and> {n. (row_ID row, n) \<in> set (db_references db')} = set (rd_Workloads reads)
        \<and> written w ifMatch db row created"
proof (cases answer)
  case (Inl e)
  then show ?thesis
    using assms(2) by (auto simp: Upsert_def split: sum.splits prod.splits option.splits table_error.splits)
next
  case (Inr r)
  then obtain stored created where r: "answer = Inr (stored, created)" by (cases r) auto
  show ?thesis using Upsert_success [OF assms(1) assms(2) [unfolded r]] r by auto
qed

text \<open>
  A write to a suspended workload whose hash moves keeps the suspension in the table, but the row it
  hands back, from which the apply answers its caller, says the workload is not suspended.
\<close>

lemma suspension_not_reported:
  assumes "store_ok db" "store_get (row_Name w) db = Inr old" "\<not> IsZero (row_SuspendedAt old)"
    and "IsZero (row_SuspendedAt w)" "row_SpecHash old \<noteq> row_SpecHash w"
    and "Upsert newid now w reads ifMatch ports db = (Inr (stored, created), db')"
  shows "IsZero (row_SuspendedAt stored)
    \<and> (\<exists>row. store_get (row_Name w) db' = Inr row \<and> row_SuspendedAt row = row_SuspendedAt old)"
proof -
  obtain db1 where row: "write_row newid now w ifMatch db = Inr (stored, created, db1)"
    and rows: "db_workloads db' = db_workloads db1"
    using Upsert_Inr [OF assms(6,1)] by blast
  have "IsZero (row_SuspendedAt stored)"
    using row assms(2,4,5) by (auto simp: write_row_def store_update_def Let_def split: if_splits)
  moreover obtain r where "r \<in> set (db_workloads db')" "row_Name r = row_Name w"
    "written w ifMatch db r created"
    using write_row_effect [OF row assms(1)] unfolding rows by blast
  moreover then have "store_get (row_Name w) db' = Inr r"
    using Upsert_ok [OF assms(1), of newid now w reads ifMatch ports] assms(6) by (simp add: store_get_iff)
  ultimately show ?thesis using assms(2,5) by (simp add: written_def)
qed

end
