(* ===== verification/Address_Resolve.thy ===== *)
theory Address_Resolve
  imports Workload_Store "HOL-Library.Word"
begin

text \<open>
  Resolving a reference to another workload to the address it is reached at
  (\<open>internal/server/resolve/address.go\<close>), against the stored workloads and their ports. Which instance of
  the referenced workload a reader lands on is chosen by 32-bit arithmetic on the FNV-1a hash of the
  reader's name, kept at its width.
\<close>

unbundle bit_operations_syntax

section \<open>Choosing an instance\<close>

definition fnv_offset :: "32 word" where
  "fnv_offset = 2166136261"

definition fnv_prime :: "32 word" where
  "fnv_prime = 16777619"

text \<open>\<open>fnv.New32a\<close>: each byte is mixed in by exclusive or, then the hash is multiplied by the prime.\<close>

definition fnv_byte :: "char \<Rightarrow> 32 word \<Rightarrow> 32 word" where
  "fnv_byte c h = (h XOR word_of_nat (of_char c)) * fnv_prime"

definition fnv32a :: "string \<Rightarrow> 32 word" where
  "fnv32a s = fold fnv_byte s fnv_offset"

definition pick :: "string \<Rightarrow> int \<Rightarrow> int \<Rightarrow> int" where
  "pick reader readerInstance count =
     (if count \<le> 1 then 0
      else uint ((fnv32a reader + word_of_int readerInstance) mod (word_of_int count)))"

definition published_count :: "database_Port list \<Rightarrow> int" where
  "published_count rows = fold (\<lambda>p n. if prt_Instance p \<ge> n then prt_Instance p + 1 else n) rows 1"

section \<open>Resolving\<close>

datatype address_error =
    Addr_ErrWorkloadNotFound string
  | ErrPortNotPublished string

definition published :: "database \<Rightarrow> Reference \<Rightarrow> address_error + database_Workload \<times> database_Port list" where
  "published db r = (case store_get (ref_Name r) db of
       Inl e \<Rightarrow> Inl (Addr_ErrWorkloadNotFound (ref_Name r))
     | Inr row \<Rightarrow>
         (let rows = table_List (db_ports db) (row_ID row)
          in if rows = [] then Inl (ErrPortNotPublished (ref_Name r)) else Inr (row, rows)))"

definition Address :: "string \<Rightarrow> database \<Rightarrow> Reference \<Rightarrow> string \<Rightarrow> int \<Rightarrow> address_error + string" where
  "Address address db r reader readerInstance = (case published db r of
       Inl e \<Rightarrow> Inl e
     | Inr (row, rows) \<Rightarrow>
         if ref_Port r = [] then Inr address
         else (let slot = pick reader readerInstance (published_count rows)
               in case find (\<lambda>p. prt_Instance p = slot
                               \<and> PortRef_Matches (ref_Port r) (prt_Name p) (prt_Container p)) rows of
                    Some p \<Rightarrow> Inr (JoinHostPort address (Itoa (prt_Host p)))
                  | None \<Rightarrow> Inl (ErrPortNotPublished (ref_Name r))))"

definition resolve_Target :: "database \<Rightarrow> Reference \<Rightarrow> string \<Rightarrow> int \<Rightarrow> address_error + Target option" where
  "resolve_Target db r reader readerInstance =
     (if ref_Port r = [] then Inr None
      else case published db r of
        Inl e \<Rightarrow> Inl e
      | Inr (row, rows) \<Rightarrow> Inr (Some \<lparr>tgt_Workload = row_Name row,
          tgt_Instance = pick reader readerInstance (published_count rows)\<rparr>))"

section \<open>Lemmas\<close>

lemma pick_range:
  assumes "1 \<le> count" "count < 2 ^ 32"
  shows "0 \<le> pick reader i count \<and> pick reader i count < count"
proof (cases "count \<le> 1")
  case False
  then have "uint (word_of_int count :: 32 word) = count"
    using assms(2) by (simp add: uint_word_of_int take_bit_int_eq_self)
  then show ?thesis using False by (simp add: pick_def uint_mod)
qed (use assms in \<open>simp add: pick_def\<close>)

lemma pick_no_wrap:
  assumes "1 < count" "count < 2 ^ 32" "0 \<le> i" "uint (fnv32a reader) + i < 2 ^ 32"
  shows "pick reader i count = (uint (fnv32a reader) + i) mod count"
proof -
  have "i < 2 ^ 32" using assms(4) uint_ge_0 [of "fnv32a reader"] by linarith
  then have "uint (word_of_int i :: 32 word) = i" "uint (word_of_int count :: 32 word) = count"
    using assms by (simp_all add: uint_word_of_int take_bit_int_eq_self)
  then have "uint (fnv32a reader + word_of_int i) = uint (fnv32a reader) + i"
    using assms(3,4) by (simp add: uint_word_ariths take_bit_int_eq_self)
  then show ?thesis
    using assms(1) \<open>uint (word_of_int count :: 32 word) = count\<close> by (simp add: pick_def uint_mod)
qed

lemma published_count_fold:
  "n \<le> fold (\<lambda>p n. if prt_Instance p \<ge> n then prt_Instance p + 1 else n) rows n
   \<and> (\<forall>p\<in>set rows. prt_Instance p < fold (\<lambda>p n. if prt_Instance p \<ge> n then prt_Instance p + 1 else n) rows n)"
proof (induction rows arbitrary: n)
  case (Cons p rows)
  show ?case using Cons [of "if prt_Instance p \<ge> n then prt_Instance p + 1 else n"] by auto
qed simp

lemma published_count_bounds:
  "1 \<le> published_count rows" "p \<in> set rows \<Longrightarrow> prt_Instance p < published_count rows"
  using published_count_fold unfolding published_count_def by blast+

text \<open>Consecutive numbers below a window of that size leave every remainder once.\<close>

lemma mod_window:
  assumes "0 < (n::int)"
  shows "(\<lambda>i. (h + i) mod n) ` {0..<n} = {0..<n}"
proof
  show "(\<lambda>i. (h + i) mod n) ` {0..<n} \<subseteq> {0..<n}" using assms by auto
  show "{0..<n} \<subseteq> (\<lambda>i. (h + i) mod n) ` {0..<n}"
  proof
    fix k assume k: "k \<in> {0..<n}"
    have "(h + (k - h) mod n) mod n = k" using k by (simp add: mod_add_right_eq)
    then show "k \<in> (\<lambda>i. (h + i) mod n) ` {0..<n}"
      using assms by (intro image_eqI [of _ _ "(k - h) mod n"]) auto
  qed
qed

section \<open>Properties\<close>

text \<open>
  A resolved address reaches the workload it names. A reference that names a port resolves to the host
  port of a row the referenced workload holds, for a port the reference names, of the very instance
  \<open>Target\<close> answers; so the instance whose readiness a reader waits for is the one it will dial. That
  instance is one of those the workload publishes.
\<close>

lemma Address_reaches_target:
  assumes "Address address db r reader i = Inr a" "ref_Port r \<noteq> []"
  shows "\<exists>row p t. store_get (ref_Name r) db = Inr row \<and> p \<in> set (db_ports db) \<and> prt_WorkloadID p = row_ID row
    \<and> PortRef_Matches (ref_Port r) (prt_Name p) (prt_Container p)
    \<and> a = JoinHostPort address (Itoa (prt_Host p))
    \<and> resolve_Target db r reader i = Inr (Some t)
    \<and> tgt_Workload t = ref_Name r \<and> tgt_Instance t = prt_Instance p"
proof -
  obtain row rows where pub: "published db r = Inr (row, rows)"
    using assms(1) by (auto simp: Address_def split: sum.splits)
  then have row: "store_get (ref_Name r) db = Inr row" and rows: "rows = table_List (db_ports db) (row_ID row)"
    by (auto simp: published_def Let_def split: sum.splits if_splits)
  let ?slot = "pick reader i (published_count rows)"
  obtain p where p: "find (\<lambda>p. prt_Instance p = ?slot
      \<and> PortRef_Matches (ref_Port r) (prt_Name p) (prt_Container p)) rows = Some p"
    and a: "a = JoinHostPort address (Itoa (prt_Host p))"
    using assms pub by (auto simp: Address_def Let_def split: option.splits)
  have "p \<in> set rows" "prt_Instance p = ?slot" "PortRef_Matches (ref_Port r) (prt_Name p) (prt_Container p)"
    using find_SomeD [OF p] by blast+
  moreover from this(1) have "p \<in> set (db_ports db)" "prt_WorkloadID p = row_ID row"
    by (simp_all add: rows table_List_set)
  moreover have "resolve_Target db r reader i = Inr (Some \<lparr>tgt_Workload = ref_Name r, tgt_Instance = ?slot\<rparr>)"
    using pub assms(2) store_get_Inr [OF row] by (simp add: resolve_Target_def)
  ultimately show ?thesis
    using row a
    by (intro exI [of _ row] exI [of _ p] exI [of _ "\<lparr>tgt_Workload = ref_Name r, tgt_Instance = ?slot\<rparr>"]) simp
qed

text \<open>
  The instances of a reader spread evenly: as many readers as the target has instances land one on
  each, whatever the reader is called, as long as its hash leaves room for them below \<open>2^32\<close>.
\<close>

lemma pick_spreads:
  assumes "1 \<le> count" "count < 2 ^ 32" "uint (fnv32a reader) + count \<le> 2 ^ 32"
  shows "(\<lambda>i. pick reader i count) ` {0..<count} = {0..<count}"
proof (cases "count = 1")
  case True
  have "(\<lambda>i. pick reader i 1) ` {0..<1::int} = {0..<1}" by (auto simp: pick_def)
  then show ?thesis using True by simp
next
  case False
  then have "(\<lambda>i. pick reader i count) ` {0..<count}
      = (\<lambda>i. (uint (fnv32a reader) + i) mod count) ` {0..<count}"
    using assms pick_no_wrap [of count _ reader] by (intro image_cong) auto
  then show ?thesis using mod_window assms(1) by simp
qed

text \<open>
  The spread is lost when the sum wraps around. The hash of the reader \<open>prezece\<close> is the greatest
  32-bit number, so of its first three instances two land on instance 0 of a target with three, and none
  on instance 2, although the code promises that three readers of three instances land one on each.
\<close>

lemma pick_uneven:
  "fnv32a ''prezece'' = - 1 \<and> pick ''prezece'' 0 3 = 0 \<and> pick ''prezece'' 1 3 = 0 \<and> pick ''prezece'' 2 3 = 1"
  by code_simp

end
