(* ===== verification/Spec_Hash.thy ===== *)
theory Spec_Hash
  imports Manifest
begin

text \<open>
  The hash of a specification (\<open>internal/server/spechash/spechash.go\<close>), which decides whether a running
  instance is replaced. The encodings (\<open>json.Marshal\<close> of a specification and of the wrapper that is only
  hashed) and SHA-256 are the fields of the record \<open>codec\<close>; a map is given to the encoder with its keys
  sorted, which is how Go encodes one.
\<close>

record codec =
  cd_marshal :: "Spec \<Rightarrow> goerr + string"
  cd_unmarshal :: "string \<Rightarrow> goerr + Spec"
  cd_hashedSpec :: "string \<Rightarrow> string_map \<Rightarrow> string_map \<Rightarrow> string_map \<Rightarrow> string \<Rightarrow> string"
  cd_sha256 :: "string \<Rightarrow> string"

record Inputs =
  in_Revisions :: string_map
  in_Values :: string_map
  in_Addresses :: string_map
  in_Refreshed :: "Reference list"
  in_Digest :: string

definition without :: "string set \<Rightarrow> string_map \<Rightarrow> string_map" where
  "without names m = filter (\<lambda>(k, v). k \<notin> names) m"

text \<open>The keys a refreshed reference of one kind removes: names, and for a workload the whole reference.\<close>

definition refreshed_keys :: "ReferenceKind \<Rightarrow> Reference list \<Rightarrow> string set" where
  "refreshed_keys kind refs =
     (if kind = KindWorkload then reference_String ` {r \<in> set refs. ref_Kind r = kind}
      else ref_Name ` {r \<in> set refs. ref_Kind r = kind})"

definition hashed :: "Inputs \<Rightarrow> string_map \<times> string_map \<times> string_map" where
  "hashed i =
     (if in_Refreshed i = [] then (in_Revisions i, in_Values i, in_Addresses i)
      else (without (refreshed_keys KindSecret (in_Refreshed i)) (in_Revisions i),
            without (refreshed_keys KindVariable (in_Refreshed i)) (in_Values i),
            without (refreshed_keys KindWorkload (in_Refreshed i)) (in_Addresses i)))"

definition Compute :: "codec \<Rightarrow> Spec \<Rightarrow> Inputs \<Rightarrow> goerr + string \<times> string" where
  "Compute c spec inputs = (case cd_marshal c spec of
       Inl e \<Rightarrow> Inl (Wrapf ''failed to encode workload spec'' [e])
     | Inr encoded \<Rightarrow>
         (case hashed inputs of (revisions, vals, addresses) \<Rightarrow>
            if revisions = [] \<and> vals = [] \<and> addresses = [] \<and> in_Digest inputs = []
            then Inr (encoded, cd_sha256 c encoded)
            else Inr (encoded, cd_sha256 c (cd_hashedSpec c encoded (sort_key fst revisions)
                   (sort_key fst vals) (sort_key fst addresses) (in_Digest inputs)))))"

lemma without_empty [simp]: "without {} m = m"
  by (simp add: without_def)

lemma refreshed_keys_Nil [simp]: "refreshed_keys kind [] = {}"
  by (simp add: refreshed_keys_def)

lemma hashed_without:
  "hashed i = (without (refreshed_keys KindSecret (in_Refreshed i)) (in_Revisions i),
     without (refreshed_keys KindVariable (in_Refreshed i)) (in_Values i),
     without (refreshed_keys KindWorkload (in_Refreshed i)) (in_Addresses i))"
  by (simp add: hashed_def)

text \<open>Inputs that agree on what is not refreshed have one hash.\<close>

lemma Compute_cong:
  assumes "hashed i = hashed j" "in_Digest i = in_Digest j"
  shows "Compute c spec i = Compute c spec j"
  unfolding Compute_def assms by (rule refl)

end
