(* ===== verification/Workload_Service.thy ===== *)
theory Workload_Service
  imports Manifest_Validation Address_Resolve Spec_Hash Reconciler_State
begin

text \<open>
  The workload service (\<open>internal/server/service\<close>): resolving a specification
  (\<open>workload_resolve.go\<close>), applying it and reporting what applying it would do (\<open>workload_apply.go\<close>),
  recomputing hashes and reallocating ports (\<open>workload_rehash.go\<close>), and deleting, stopping, starting and
  restarting a workload (\<open>workload.go\<close>).

  The stored workloads are the database of \<open>Workload_Store\<close> and addresses are resolved against it. The
  service's other collaborators, the drivers, the stores of volumes, secrets and variables and the image
  registry, are fields of the record \<open>service\<close>, \<open>None\<close> where Go's may be nil; the file system of
  \<open>Driver\<close> is one as well. What each write draws from the outside, an identifier, the time and the port
  allocations, is indexed by the number of the write. What other requests do to the database between the
  resolution of a workload's ports and the write of its row is the field \<open>sv_others\<close>.

  The view an operation answers with is the row it answers from; observing the drivers for it is left
  out, and so is the audit log.
\<close>

section \<open>The service\<close>

record service =
  sv_parsers :: parsers
  sv_codec :: codec
  sv_confinable :: "Runtime \<Rightarrow> goerr option option"
  sv_enforceable :: "Runtime \<Rightarrow> goerr option"
  sv_volumes :: "(string \<Rightarrow> goerr + string) option"
  sv_fs :: file_system
  sv_hostPaths :: "HostPath list"
  sv_secrets :: "(string list \<Rightarrow> goerr + string_map) option"
  sv_variables :: "(string list \<Rightarrow> goerr + string_map) option"
  sv_address :: "string option"
  sv_images :: "(string \<Rightarrow> goerr + string) option"
  sv_allocate :: "nat \<Rightarrow> allocation_fn"
  sv_probe :: "(Protocol \<Rightarrow> int \<Rightarrow> bool) option"
  sv_newid :: "nat \<Rightarrow> string"
  sv_now :: "nat \<Rightarrow> time"
  sv_others :: "nat \<Rightarrow> database \<Rightarrow> database"
  sv_digests :: duration
  sv_reconciler :: bool

datatype service_error =
    Svc_Runtime goerr
  | ErrInvalidSpec goerr
  | ErrUnsupportedRuntime goerr
  | Svc_ErrWorkloadNotFound "string list"
  | Svc_ErrWorkloadDeleting
  | Svc_ErrWorkloadChanged
  | ErrWorkloadSuspended
  | ErrWorkloadInUse "string list"
  | ErrSecretNotFound "string list"
  | ErrVariableNotFound "string list"
  | ErrVolumeNotFound
  | Svc_ErrPortNotPublished "string list"
  | Svc_Port port_error
  | Svc_ErrHostPortTaken
  | Svc_Store store_error
  | Svc_Failed goerr

section \<open>Resolving a specification\<close>

record references =
  rf_secrets :: "string list"
  rf_variables :: "string list"
  rf_workloads :: "string list"
  rf_revisions :: string_map
  rf_values :: string_map
  rf_addresses :: string_map
  rf_unknown :: "string list"
  rf_absentPorts :: "string list"
  rf_refreshed :: "Reference list"

record resolution =
  res_spec :: Spec
  res_runtime :: Runtime
  res_existing :: "database_Workload option"
  res_held :: "database_Port list"
  res_read :: references
  res_digest :: string

fun runtime_string :: "Runtime \<Rightarrow> string" where
  "runtime_string RuntimeContainer = ''container''"
| "runtime_string RuntimeExec = ''exec''"

fun resolve_mounts :: "service \<Rightarrow> VolumeMount list \<Rightarrow> service_error + VolumeMount list" where
  "resolve_mounts sv [] = Inr []"
| "resolve_mounts sv (m # ms) = (case KindOf m of
       Inl e \<Rightarrow> Inl (ErrInvalidSpec (mount_goerr e))
     | Inr kind \<Rightarrow>
         (let one =
            (if kind = MountPath then
               (case ResolveHostPath (sv_fs sv) (mnt_Path m) (mnt_ReadOnly m) (sv_hostPaths sv) of
                  Inl e \<Rightarrow> Inl (ErrInvalidSpec (ErrMsg ''host path refused''))
                | Inr p \<Rightarrow> Inr m)
             else if kind \<noteq> MountVolume then Inr m
             else (case sv_volumes sv of
                  None \<Rightarrow> Inl ErrVolumeNotFound
                | Some path \<Rightarrow> (case path (mnt_Name m) of
                      Inl e \<Rightarrow> Inl (Svc_Failed e) | Inr p \<Rightarrow> Inr (m\<lparr>mnt_From := p\<rparr>))))
          in case one of
               Inl e \<Rightarrow> Inl e
             | Inr m' \<Rightarrow> map_sum id (Cons m') (resolve_mounts sv ms)))"

definition resolveVolumes :: "service \<Rightarrow> Spec \<Rightarrow> service_error + Spec" where
  "resolveVolumes sv spec =
     map_sum id (\<lambda>ms. spec\<lparr>spec_Volumes := ms\<rparr>) (resolve_mounts sv (spec_Volumes spec))"

definition checkDevices :: "service \<Rightarrow> Spec \<Rightarrow> service_error option" where
  "checkDevices sv spec = (case spec_Container spec of
       None \<Rightarrow> None
     | Some c \<Rightarrow>
         if list_all (\<lambda>d. case ResolveHostPath (sv_fs sv) (dev_Path d) True (sv_hostPaths sv) of
              Inl e \<Rightarrow> False | Inr p \<Rightarrow> True) (con_Devices c)
         then None else Some (ErrInvalidSpec (ErrMsg ''host path refused'')))"

definition contents :: "service \<Rightarrow> Spec \<Rightarrow> service_error + Contents" where
  "contents sv spec =
     (let names = map mnt_Var (filter (\<lambda>m. mnt_Expand m \<and> mnt_Var m \<noteq> []) (spec_Volumes spec))
      in if names = [] then Inr None
         else case sv_variables sv of
           None \<Rightarrow> Inl (ErrVariableNotFound [])
         | Some read \<Rightarrow> (case read names of
               Inl e \<Rightarrow> Inl (Svc_Failed (Wrapf ''failed to read variable values'' [e]))
             | Inr vals \<Rightarrow> Inr (Some (map_of vals))))"

text \<open>
  What a kind of reference currently holds, read only when the specification names any of that kind.
\<close>

definition read_names ::
  "(string list \<Rightarrow> goerr + string_map) option \<Rightarrow> service_error \<Rightarrow> string list
     \<Rightarrow> service_error + string_map" where
  "read_names source absent names =
     (if names = [] then Inr []
      else case source of
        None \<Rightarrow> Inl absent
      | Some read \<Rightarrow> map_sum Svc_Failed id (read names))"

text \<open>The addresses of the workload references, each resolved for the reader's first instance.\<close>

fun resolve_addresses ::
  "service \<Rightarrow> database \<Rightarrow> string \<Rightarrow> Reference list
     \<Rightarrow> service_error + string_map \<times> string list \<times> string list" where
  "resolve_addresses sv db reader [] = Inr ([], [], [])"
| "resolve_addresses sv db reader (r # rs) = (case sv_address sv of
       None \<Rightarrow> Inl (Svc_ErrWorkloadNotFound [])
     | Some host \<Rightarrow>
         (case resolve_addresses sv db reader rs of
            Inl e \<Rightarrow> Inl e
          | Inr (addresses, unknown, absent) \<Rightarrow>
              (case Address host db r reader 0 of
                 Inl (Addr_ErrWorkloadNotFound n) \<Rightarrow> Inr (addresses, reference_String r # unknown, absent)
               | Inl (ErrPortNotPublished n) \<Rightarrow> Inr (addresses, unknown, reference_String r # absent)
               | Inr a \<Rightarrow> Inr ((reference_String r, a) # addresses, unknown, absent))))"

definition resolveReferences :: "service \<Rightarrow> database \<Rightarrow> Spec \<Rightarrow> service_error + references" where
  "resolveReferences sv db spec = (case contents sv spec of
       Inl e \<Rightarrow> Inl e
     | Inr cs \<Rightarrow>
     (case (ReferencesIn spec cs, RefreshedIn spec cs) of
        (Inl e, _) \<Rightarrow> Inl (ErrInvalidSpec (scan_goerr e))
      | (_, Inl e) \<Rightarrow> Inl (ErrInvalidSpec (scan_goerr e))
      | (Inr found, Inr refreshed) \<Rightarrow>
     (case read_names (sv_secrets sv) (ErrSecretNotFound []) (Names found KindSecret) of
        Inl e \<Rightarrow> Inl e
      | Inr revisions \<Rightarrow>
     (case read_names (sv_variables sv) (ErrVariableNotFound []) (Names found KindVariable) of
        Inl e \<Rightarrow> Inl e
      | Inr vals \<Rightarrow>
     (case resolve_addresses sv db (spec_Name spec) (references_Of found KindWorkload) of
        Inl e \<Rightarrow> Inl e
      | Inr (addresses, unknown, absent) \<Rightarrow>
          Inr \<lparr>rf_secrets = Names found KindSecret, rf_variables = Names found KindVariable,
               rf_workloads = Names found KindWorkload, rf_revisions = revisions, rf_values = vals,
               rf_addresses = addresses, rf_unknown = unknown, rf_absentPorts = absent,
               rf_refreshed = refreshed\<rparr>)))))"

definition pull_Always :: "PullPolicy \<Rightarrow> bool" where
  "pull_Always p \<longleftrightarrow> p = PullAlways \<or> p = PullFollow"

definition resolveDigest :: "service \<Rightarrow> Spec \<Rightarrow> service_error + string" where
  "resolveDigest sv spec = (case spec_Container spec of
       None \<Rightarrow> Inr []
     | Some c \<Rightarrow>
         if \<not> pull_Always (con_Pull c) then Inr []
         else (case sv_images sv of
             None \<Rightarrow> Inl (ErrInvalidSpec (ErrMsg ''this server cannot resolve image digests''))
           | Some digest \<Rightarrow> map_sum (\<lambda>e. Svc_Failed (Wrapf ''failed to resolve image digest'' [e])) id
               (digest (con_Image c))))"

definition missing :: "string list \<Rightarrow> string_map \<Rightarrow> string list" where
  "missing names held = filter (\<lambda>n. map_of held n = None) names"

definition hashInputs :: "references \<Rightarrow> string \<Rightarrow> Inputs" where
  "hashInputs r digest = \<lparr>in_Revisions = rf_revisions r, in_Values = rf_values r,
     in_Addresses = rf_addresses r, in_Refreshed = rf_refreshed r, in_Digest = digest\<rparr>"

text \<open>Whether this host can run what the specification asks for.\<close>

definition supported :: "service \<Rightarrow> Spec \<Rightarrow> Runtime \<Rightarrow> service_error option" where
  "supported sv spec runtime = (case sv_confinable sv runtime of
       None \<Rightarrow> None
     | Some (Some e) \<Rightarrow> Some (ErrUnsupportedRuntime e)
     | Some None \<Rightarrow>
         if spec_Resources spec = None then None
         else map_option ErrUnsupportedRuntime (sv_enforceable sv runtime))"

definition refuse_missing :: "references \<Rightarrow> service_error option" where
  "refuse_missing r =
     (if missing (rf_secrets r) (rf_revisions r) \<noteq> []
      then Some (ErrSecretNotFound (missing (rf_secrets r) (rf_revisions r)))
      else if missing (rf_variables r) (rf_values r) \<noteq> []
      then Some (ErrVariableNotFound (missing (rf_variables r) (rf_values r)))
      else if rf_unknown r \<noteq> [] then Some (Svc_ErrWorkloadNotFound (rf_unknown r))
      else if rf_absentPorts r \<noteq> [] then Some (Svc_ErrPortNotPublished (rf_absentPorts r))
      else None)"

definition service_resolve :: "service \<Rightarrow> database \<Rightarrow> Spec \<Rightarrow> service_error + resolution" where
  "service_resolve sv db spec0 =
     (let spec = Defaults spec0
      in case RuntimeOf spec of
        Inl e \<Rightarrow> Inl (Svc_Runtime e)
      | Inr runtime \<Rightarrow>
     (case ValidateWorkload (sv_parsers sv) spec of
        Some e \<Rightarrow> Inl (ErrInvalidSpec e)
      | None \<Rightarrow>
     (case supported sv spec runtime of
        Some e \<Rightarrow> Inl e
      | None \<Rightarrow>
     (let existing = (case store_get (spec_Name spec) db of Inl e \<Rightarrow> None | Inr w \<Rightarrow> Some w);
          held = (case existing of None \<Rightarrow> [] | Some w \<Rightarrow> table_List (db_ports db) (row_ID w))
      in if (case existing of None \<Rightarrow> False | Some w \<Rightarrow> \<not> IsZero (row_DeletedAt w))
         then Inl Svc_ErrWorkloadDeleting
         else case resolveVolumes sv spec of
           Inl e \<Rightarrow> Inl e
         | Inr resolved \<Rightarrow>
     (case checkDevices sv spec of
        Some e \<Rightarrow> Inl e
      | None \<Rightarrow>
     (case resolveReferences sv db resolved of
        Inl e \<Rightarrow> Inl e
      | Inr read \<Rightarrow>
     (case refuse_missing read of
        Some e \<Rightarrow> Inl e
      | None \<Rightarrow>
     (case resolveDigest sv resolved of
        Inl e \<Rightarrow> Inl e
      | Inr digest \<Rightarrow>
          Inr \<lparr>res_spec = resolved, res_runtime = runtime, res_existing = existing, res_held = held,
               res_read = read, res_digest = digest\<rparr>))))))))"

section \<open>State\<close>

text \<open>
  The database, how many writes the service has made, what it recorded, how often it woke the reconciler,
  the restarts it asked for, and which pulled workloads were last found behind their tag.
\<close>

record service_state =
  ss_db :: database
  ss_writes :: nat
  ss_events :: "(string \<times> Reason \<times> Fields) list"
  ss_wakes :: nat
  ss_restarts :: "string list"
  ss_drifted :: "(string \<times> bool) list"

type_synonym 'a svc = "(service_state, 'a) state"

definition svc_record :: "string \<Rightarrow> Reason \<Rightarrow> Fields \<Rightarrow> unit svc" where
  "svc_record name reason fs = modify (\<lambda>s. s\<lparr>ss_events := ss_events s @ [(name, reason, fs)]\<rparr>)"

definition wake :: "service \<Rightarrow> unit svc" where
  "wake sv = (if sv_reconciler sv then modify (\<lambda>s. s\<lparr>ss_wakes := ss_wakes s + 1\<rparr>) else ret ())"

definition db_names :: "database \<Rightarrow> string \<rightharpoonup> string" where
  "db_names db = map_of (map (\<lambda>w. (row_ID w, row_Name w)) (db_workloads db))"

definition claimer_of :: "service \<Rightarrow> nat \<Rightarrow> database \<Rightarrow> Claimer" where
  "claimer_of sv n db = table_claimer (sv_allocate sv n) (sv_probe sv) (db_names db) (db_ports db)"

text \<open>One operation on the database, and one that also takes the next identifier and time.\<close>

definition with_db :: "(database \<Rightarrow> 'a \<times> database) \<Rightarrow> 'a svc" where
  "with_db f = do {
     answer \<leftarrow> gets (\<lambda>s. fst (f (ss_db s)));
     modify (\<lambda>s. s\<lparr>ss_db := snd (f (ss_db s))\<rparr>);
     ret answer }"

definition next_write :: "nat svc" where
  "next_write = do {
     n \<leftarrow> gets ss_writes;
     modify (\<lambda>s. s\<lparr>ss_writes := Suc n\<rparr>);
     ret n }"

definition upsert ::
  "service \<Rightarrow> database_Workload \<Rightarrow> row_reads \<Rightarrow> int \<Rightarrow> database_Port list
     \<Rightarrow> (store_error + database_Workload \<times> bool) svc" where
  "upsert sv w reads ifMatch ports = do {
     n \<leftarrow> next_write;
     with_db (Upsert (sv_newid sv n) (sv_now sv n) w reads ifMatch ports) }"

definition row_reads_of :: "references \<Rightarrow> row_reads" where
  "row_reads_of r = \<lparr>rd_Secrets = rf_secrets r, rd_Variables = rf_variables r, rd_Workloads = rf_workloads r\<rparr>"

section \<open>Applying\<close>

definition store_row :: "resolution \<Rightarrow> string \<Rightarrow> string \<Rightarrow> database_Workload" where
  "store_row r encoded hash = \<lparr>row_ID = [], row_Name = spec_Name (res_spec r), row_Version = 0,
     row_Runtime = runtime_string (res_runtime r), row_Spec = encoded, row_SpecHash = hash,
     row_Labels = spec_Labels (res_spec r), row_CreatedAt = 0, row_UpdatedAt = 0, row_DeletedAt = 0,
     row_SuspendedAt = 0\<rparr>"

definition settle_claims :: "service \<Rightarrow> resolution \<Rightarrow> nat \<Rightarrow> database \<Rightarrow> port_error + Claim list" where
  "settle_claims sv r n db =
     (let spec = res_spec r
      in claimer_Resolve (claimer_of sv n db) (spec_Name spec) (heldClaims (res_held r))
           (spec_Ports spec) (spec_Count spec))"

definition store_attempts_max :: nat where
  "store_attempts_max = 5"

fun store_attempts ::
  "service \<Rightarrow> resolution \<Rightarrow> int \<Rightarrow> nat \<Rightarrow> (service_error + database_Workload \<times> bool) svc" where
  "store_attempts sv r ifMatch 0 = ret (Inl Svc_ErrHostPortTaken)"
| "store_attempts sv r ifMatch (Suc k) = do {
     n \<leftarrow> gets ss_writes;
     db \<leftarrow> gets ss_db;
     case settle_claims sv r n db of
       Inl e \<Rightarrow> ret (Inl (Svc_Port e))
     | Inr claims \<Rightarrow>
         (case Compute (sv_codec sv) (Resolved (res_spec r) claims) (hashInputs (res_read r) (res_digest r)) of
            Inl e \<Rightarrow> ret (Inl (Svc_Failed e))
          | Inr (encoded, hash) \<Rightarrow> do {
              modify (\<lambda>s. s\<lparr>ss_db := sv_others sv n (ss_db s)\<rparr>);
              answer \<leftarrow> upsert sv (store_row r encoded hash) (row_reads_of (res_read r)) ifMatch
                (allocations_rows claims []);
              case answer of
                Inr stored \<Rightarrow> ret (Inr stored)
              | Inl ErrWorkloadDeleting \<Rightarrow> ret (Inl Svc_ErrWorkloadDeleting)
              | Inl ErrWorkloadChanged \<Rightarrow> ret (Inl Svc_ErrWorkloadChanged)
              | Inl ErrWorkloadNotFound \<Rightarrow> ret (Inl Svc_ErrWorkloadChanged)
              | Inl (Store_ErrHostPortTaken h p) \<Rightarrow>
                  if Pinned (spec_Ports (res_spec r)) then ret (Inl Svc_ErrHostPortTaken)
                  else store_attempts sv r ifMatch k
              | Inl e \<Rightarrow> ret (Inl (Svc_Store e)) }) }"

definition store :: "service \<Rightarrow> resolution \<Rightarrow> int \<Rightarrow> (service_error + database_Workload \<times> bool) svc" where
  "store sv r ifMatch = store_attempts sv r ifMatch store_attempts_max"

section \<open>Rehashing\<close>

definition recompute :: "service \<Rightarrow> database \<Rightarrow> Spec \<Rightarrow> string \<Rightarrow> service_error + references \<times> string" where
  "recompute sv db spec digest = (case resolveReferences sv db spec of
       Inl e \<Rightarrow> Inl e
     | Inr read \<Rightarrow> (case Compute (sv_codec sv) spec (hashInputs read digest) of
           Inl e \<Rightarrow> Inl (Svc_Failed e) | Inr (encoded, hash) \<Rightarrow> Inr (read, hash)))"

definition rehash :: "service \<Rightarrow> database_Workload \<Rightarrow> references \<Rightarrow> string \<Rightarrow> service_error option svc" where
  "rehash sv row read hash = do {
     held \<leftarrow> gets (\<lambda>s. table_List (db_ports (ss_db s)) (row_ID row));
     answer \<leftarrow> upsert sv (row\<lparr>row_SpecHash := hash\<rparr>) (row_reads_of read) 0 held;
     case answer of
       Inl e \<Rightarrow> ret (Some (Svc_Store e))
     | Inr stored \<Rightarrow> do { wake sv; ret None } }"

text \<open>What \<open>Rehash\<close> finds out before it writes: the row, what its specification reads and the hash.\<close>

definition rehash_of :: "service \<Rightarrow> string \<Rightarrow> database \<Rightarrow> service_error + database_Workload \<times> references \<times> string" where
  "rehash_of sv name db = (case store_get name db of
       Inl e \<Rightarrow> Inl (Svc_ErrWorkloadNotFound [name])
     | Inr row \<Rightarrow> (case DecodeWorkload (cd_unmarshal (sv_codec sv)) (row_Spec row) of
           Inl e \<Rightarrow> Inl (Svc_Failed e)
         | Inr spec \<Rightarrow> (case resolveDigest sv spec of
               Inl e \<Rightarrow> Inl e
             | Inr digest \<Rightarrow> map_sum id (Pair row) (recompute sv db spec digest))))"

definition Rehash :: "service \<Rightarrow> string \<Rightarrow> (service_error + bool) svc" where
  "Rehash sv name = do {
     db \<leftarrow> gets ss_db;
     case rehash_of sv name db of
       Inl e \<Rightarrow> ret (Inl e)
     | Inr (row, read, hash) \<Rightarrow>
         if hash = row_SpecHash row then do {
           (if rf_refreshed read \<noteq> [] then wake sv else ret ());
           ret (Inr False) }
         else do {
           err \<leftarrow> rehash sv row read hash;
           ret (case err of Some e \<Rightarrow> Inl e | None \<Rightarrow> Inr True) } }"

fun rehashAll :: "service \<Rightarrow> string \<Rightarrow> Reason \<Rightarrow> string list \<Rightarrow> unit svc" where
  "rehashAll sv name reason [] = ret ()"
| "rehashAll sv name reason (w # ws) = do {
     changed \<leftarrow> Rehash sv w;
     (case changed of
        Inr True \<Rightarrow> svc_record w reason (no_fields\<lparr>f_Name := name\<rparr>)
      | _ \<Rightarrow> ret ());
     rehashAll sv name reason ws }"

definition redeploy :: "service \<Rightarrow> string \<Rightarrow> unit svc" where
  "redeploy sv name = do {
     referencing \<leftarrow> gets (\<lambda>s. ReferencedBy name (ss_db s));
     rehashAll sv name AddressMoved referencing }"

section \<open>Apply and dry run\<close>

definition follows :: "Spec \<Rightarrow> bool" where
  "follows spec = (case spec_Container spec of None \<Rightarrow> False | Some c \<Rightarrow> con_Pull c = PullFollow)"

definition image_of :: "Spec \<Rightarrow> string" where
  "image_of spec = (case spec_Container spec of None \<Rightarrow> [] | Some c \<Rightarrow> con_Image c)"

definition apply_events ::
  "service \<Rightarrow> resolution \<Rightarrow> database_Workload \<Rightarrow> bool \<Rightarrow> unit svc" where
  "apply_events sv r stored created = do {
     let previous = (case res_existing r of None \<Rightarrow> None | Some w \<Rightarrow> Some (row_Version w, row_SpecHash w));
     let moved = (row_Version stored \<noteq> (case previous of None \<Rightarrow> 0 | Some (v, h) \<Rightarrow> v));
     (if created then svc_record (row_Name stored) Applied
        (no_fields\<lparr>f_Version := row_Version stored, f_Hash := row_SpecHash stored\<rparr>)
      else if moved then svc_record (row_Name stored) SpecificationModified
        (no_fields\<lparr>f_Version := row_Version stored, f_Hash := row_SpecHash stored,
           f_Previous := (case previous of None \<Rightarrow> [] | Some (v, h) \<Rightarrow> h)\<rparr>)
      else ret ());
     (if (created \<or> moved) \<and> follows (res_spec r) \<and> sv_digests sv = 0
      then svc_record (row_Name stored) FollowUnscheduled
        (no_fields\<lparr>f_Reference := image_of (res_spec r)\<rparr>)
      else ret ()) }"

definition Apply :: "service \<Rightarrow> Spec \<Rightarrow> int \<Rightarrow> (service_error + database_Workload \<times> bool) svc" where
  "Apply sv spec ifMatch = do {
     db \<leftarrow> gets ss_db;
     case service_resolve sv db spec of
       Inl e \<Rightarrow> ret (Inl e)
     | Inr r \<Rightarrow> do {
         answer \<leftarrow> store sv r ifMatch;
         case answer of
           Inl e \<Rightarrow> ret (Inl e)
         | Inr (stored, created) \<Rightarrow> do {
             redeploy sv (row_Name stored);
             apply_events sv r stored created;
             wake sv;
             ret (Inr (stored, created)) } } }"

text \<open>The paths of the ports that are settled only as the specification is applied, as their indexes.\<close>

definition unknown_ports :: "Port list \<Rightarrow> nat list" where
  "unknown_ports ports = filter (\<lambda>i. port_From (ports ! i) = 0) [0..<length ports]"

record DryRun =
  dr_Spec :: Spec
  dr_SpecHash :: string
  dr_Created :: bool
  dr_Replaced :: bool
  dr_Unknown :: "nat list"

definition dry_run :: "service \<Rightarrow> database \<Rightarrow> Spec \<Rightarrow> service_error + DryRun" where
  "dry_run sv db spec0 = (case service_resolve sv db spec0 of
       Inl e \<Rightarrow> Inl e
     | Inr r \<Rightarrow>
         (let spec = res_spec r
          in case claimer_Preview (claimer_of sv 0 db) (spec_Name spec) (heldClaims (res_held r))
                    (spec_Ports spec) (spec_Count spec) of
            Inl e \<Rightarrow> Inl (Svc_Port e)
          | Inr (claims, pending) \<Rightarrow>
              (let settled_spec = Resolved spec claims; exists = (res_existing r \<noteq> None)
               in case Compute (sv_codec sv) settled_spec (hashInputs (res_read r) (res_digest r)) of
                 Inl e \<Rightarrow> Inl (Svc_Failed (Wrapf ''failed to hash specification'' [e]))
               | Inr (encoded, hash) \<Rightarrow> Inr \<lparr>dr_Spec = settled_spec,
                   dr_SpecHash = (if pending then [] else hash), dr_Created = (\<not> exists),
                   dr_Replaced = (if pending then exists
                     else (case res_existing r of None \<Rightarrow> False | Some w \<Rightarrow> hash \<noteq> row_SpecHash w)),
                   dr_Unknown = unknown_ports (spec_Ports settled_spec)\<rparr>)))"

section \<open>Reallocating ports\<close>

definition store_moved ::
  "service \<Rightarrow> database_Workload \<Rightarrow> Spec \<Rightarrow> Claim list \<Rightarrow> (service_error + bool) svc" where
  "store_moved sv row spec claims = do {
     db \<leftarrow> gets ss_db;
     case resolveReferences sv db spec of
       Inl e \<Rightarrow> ret (Inl e)
     | Inr read \<Rightarrow> (case resolveDigest sv spec of
           Inl e \<Rightarrow> ret (Inl e)
         | Inr digest \<Rightarrow> (case Compute (sv_codec sv) (Resolved spec claims) (hashInputs read digest) of
               Inl e \<Rightarrow> ret (Inl (Svc_Failed e))
             | Inr (encoded, hash) \<Rightarrow> do {
                 answer \<leftarrow> upsert sv (row\<lparr>row_Spec := encoded, row_SpecHash := hash\<rparr>) (row_reads_of read) 0
                   (allocations_rows claims (row_ID row));
                 case answer of
                   Inl e \<Rightarrow> ret (Inl (Svc_Store e))
                 | Inr stored \<Rightarrow> do {
                     redeploy sv (row_Name row);
                     wake sv;
                     ret (Inr True) } })) }"

text \<open>The allocations given up: every dynamic one, or those of one instance.\<close>

definition Reallocate :: "service \<Rightarrow> string \<Rightarrow> (service_error + bool) svc" where
  "Reallocate sv name = do {
     db \<leftarrow> gets ss_db;
     n \<leftarrow> gets ss_writes;
     case store_get name db of
       Inl e \<Rightarrow> ret (Inl (Svc_ErrWorkloadNotFound [name]))
     | Inr row \<Rightarrow> (case DecodeWorkload (cd_unmarshal (sv_codec sv)) (row_Spec row) of
           Inl e \<Rightarrow> ret (Inl (Svc_Failed e))
         | Inr spec \<Rightarrow>
             (let current = heldClaims (table_List (db_ports db) (row_ID row))
              in if \<not> list_ex clm_Dynamic current then ret (Inr False)
                 else (case claimer_Resolve (claimer_of sv n db) name (filter (\<lambda>c. \<not> clm_Dynamic c) current)
                         (Requested (spec_Ports spec) current) (spec_Count spec) of
                     Inl e \<Rightarrow> ret (Inl (Svc_Port e))
                   | Inr claims \<Rightarrow> store_moved sv row spec claims))) }"

text \<open>Claiming ports outside a write: the foreign key refuses a workload that is not stored.\<close>

definition store_claim :: "string \<Rightarrow> database_Port list \<Rightarrow> database \<Rightarrow> store_error option \<times> database" where
  "store_claim wid ports db =
     (if wid \<notin> ids db then (Some (ErrConstraint ''failed to claim workload ports''), db)
      else (case table_Claim wid ports (db_ports db) of
          (Some (Tbl_ErrHostPortTaken h p), t) \<Rightarrow> (Some (Store_ErrHostPortTaken h p), db)
        | (None, t) \<Rightarrow> (None, db\<lparr>db_ports := t\<rparr>)))"

definition ReallocateInstance :: "service \<Rightarrow> string \<Rightarrow> int \<Rightarrow> (service_error + bool) svc" where
  "ReallocateInstance sv name instance =
     (if instance = 0 then Reallocate sv name
      else do {
        db \<leftarrow> gets ss_db;
        n \<leftarrow> gets ss_writes;
        case store_get name db of
          Inl e \<Rightarrow> ret (Inl (Svc_ErrWorkloadNotFound [name]))
        | Inr row \<Rightarrow> (case DecodeWorkload (cd_unmarshal (sv_codec sv)) (row_Spec row) of
              Inl e \<Rightarrow> ret (Inl (Svc_Failed e))
            | Inr spec \<Rightarrow>
                (let current = heldClaims (table_List (db_ports db) (row_ID row));
                     mine = (\<lambda>c. clm_Dynamic c \<and> clm_Instance c = instance)
                 in if \<not> list_ex mine current then ret (Inr False)
                    else (case claimer_Resolve (claimer_of sv n db) name (filter (\<lambda>c. \<not> mine c) current)
                            (Requested (spec_Ports spec) current) (spec_Count spec) of
                        Inl e \<Rightarrow> ret (Inl (Svc_Port e))
                      | Inr claims \<Rightarrow>
                          do {
                            next_write;
                            err \<leftarrow> with_db (store_claim (row_ID row) (allocations_rows claims (row_ID row)));
                            case err of
                              Some e \<Rightarrow> ret (Inl (Svc_Store e))
                            | None \<Rightarrow> do { wake sv; ret (Inr True) } }))) })"

section \<open>Following tags\<close>

text \<open>
  One row of \<open>Drift\<close>: what it adds to the errors and to the workloads found behind their tag or not. The
  event of a digest that could not be resolved leaves out the text of the error. The rows are those whose container pulls always or follows its tag, the former first.
\<close>

definition drift_row ::
  "service \<Rightarrow> database_Workload \<Rightarrow> (service_error list \<times> (string \<times> bool) list) svc" where
  "drift_row sv row =
     (if \<not> IsZero (row_DeletedAt row) \<or> \<not> IsZero (row_SuspendedAt row) then ret ([], [])
      else case DecodeWorkload (cd_unmarshal (sv_codec sv)) (row_Spec row) of
        Inl e \<Rightarrow> ret ([Svc_Failed e], [])
      | Inr spec \<Rightarrow>
          (case resolveDigest sv spec of
             Inl e \<Rightarrow> do {
               svc_record (row_Name row) DigestUnresolved (no_fields\<lparr>f_Reference := image_of spec\<rparr>);
               ret ([e], []) }
           | Inr digest \<Rightarrow> do {
               db \<leftarrow> gets ss_db;
               case recompute sv db spec digest of
                 Inl e \<Rightarrow> ret ([e], [])
               | Inr (read, hash) \<Rightarrow>
                   if hash = row_SpecHash row then ret ([], [(row_Name row, False)])
                   else if follows spec then do {
                     err \<leftarrow> rehash sv row read hash;
                     case err of
                       Some e \<Rightarrow> ret ([e], [(row_Name row, False)])
                     | None \<Rightarrow> do {
                         svc_record (row_Name row) ImageFollowed
                           (no_fields\<lparr>f_Reference := image_of spec, f_Digest := digest\<rparr>);
                         ret ([], [(row_Name row, False)]) } }
                   else do {
                     svc_record (row_Name row) ImageDrifted
                       (no_fields\<lparr>f_Reference := image_of spec, f_Digest := digest\<rparr>);
                     ret ([], [(row_Name row, True)]) } }))"

fun drift_rows :: "service \<Rightarrow> database_Workload list \<Rightarrow> (service_error list \<times> (string \<times> bool) list) svc" where
  "drift_rows sv [] = ret ([], [])"
| "drift_rows sv (row # rows) = do {
     (errs, found) \<leftarrow> drift_row sv row;
     (errs', found') \<leftarrow> drift_rows sv rows;
     ret (errs @ errs', found @ found') }"

definition pulls :: "service \<Rightarrow> PullPolicy \<Rightarrow> database_Workload \<Rightarrow> bool" where
  "pulls sv policy row = (case cd_unmarshal (sv_codec sv) (row_Spec row) of
       Inl e \<Rightarrow> False
     | Inr spec \<Rightarrow> (case spec_Container spec of None \<Rightarrow> False | Some c \<Rightarrow> con_Pull c = policy))"

definition Drift :: "service \<Rightarrow> service_error list svc" where
  "Drift sv = do {
     rows \<leftarrow> gets (\<lambda>s. filter (pulls sv PullAlways) (sort_key row_Name (db_workloads (ss_db s)))
                      @ filter (pulls sv PullFollow) (sort_key row_Name (db_workloads (ss_db s))));
     (errs, found) \<leftarrow> drift_rows sv rows;
     modify (\<lambda>s. s\<lparr>ss_drifted := found\<rparr>);
     ret errs }"

section \<open>Checking a variable's contents\<close>

fun CheckContents :: "service \<Rightarrow> database \<Rightarrow> string \<Rightarrow> string \<Rightarrow> string list \<Rightarrow> service_error option" where
  "CheckContents sv db name v [] = None"
| "CheckContents sv db name v (w # ws) = (case store_get w db of
       Inl e \<Rightarrow> CheckContents sv db name v ws
     | Inr row \<Rightarrow> (case DecodeWorkload (cd_unmarshal (sv_codec sv)) (row_Spec row) of
           Inl e \<Rightarrow> Some (Svc_Failed e)
         | Inr spec \<Rightarrow>
             (case ReferencesIn spec (Some (\<lambda>x. if x = name then Some v else None)) of
                Inl e \<Rightarrow> Some (ErrInvalidSpec (scan_goerr e))
              | Inr refs \<Rightarrow> CheckContents sv db name v ws)))"

section \<open>Deleting, stopping, starting and restarting\<close>

definition Delete :: "service \<Rightarrow> string \<Rightarrow> bool \<Rightarrow> (service_error + database_Workload) svc" where
  "Delete sv name force = do {
     n \<leftarrow> next_write;
     (answer, referencing) \<leftarrow> with_db (\<lambda>db. case MarkDeleting (sv_now sv n) name force db of
       (answer, referencing, db') \<Rightarrow> ((answer, referencing), db'));
     case answer of
       Inl ErrWorkloadNotFound \<Rightarrow> ret (Inl (Svc_ErrWorkloadNotFound [name]))
     | Inl ErrWorkloadReferenced \<Rightarrow> ret (Inl (ErrWorkloadInUse referencing))
     | Inl e \<Rightarrow> ret (Inl (Svc_Store e))
     | Inr marked \<Rightarrow> do {
         rehashAll sv name AddressRemoved referencing;
         svc_record name Deleted no_fields;
         wake sv;
         ret (Inr marked) } }"

text \<open>What \<open>Stop\<close>, \<open>Start\<close> and \<open>Restart\<close> refuse before they act.\<close>

definition load_live :: "string \<Rightarrow> (service_error + database_Workload) svc" where
  "load_live name = gets (\<lambda>s. case store_get name (ss_db s) of
       Inl e \<Rightarrow> Inl (Svc_ErrWorkloadNotFound [name])
     | Inr w \<Rightarrow> if IsZero (row_DeletedAt w) then Inr w else Inl Svc_ErrWorkloadDeleting)"

definition Stop :: "service \<Rightarrow> string \<Rightarrow> (service_error + database_Workload) svc" where
  "Stop sv name = do {
     found \<leftarrow> load_live name;
     case found of
       Inl e \<Rightarrow> ret (Inl e)
     | Inr existing \<Rightarrow> do {
         n \<leftarrow> next_write;
         answer \<leftarrow> with_db (store_Suspend (sv_now sv n) name);
         case answer of
           Inl e \<Rightarrow> ret (Inl (Svc_Store e))
         | Inr marked \<Rightarrow> do {
             (if IsZero (row_SuspendedAt existing) then svc_record name Suspended_event no_fields else ret ());
             wake sv;
             ret (Inr marked) } } }"

definition Start :: "service \<Rightarrow> string \<Rightarrow> (service_error + database_Workload) svc" where
  "Start sv name = do {
     found \<leftarrow> load_live name;
     case found of
       Inl e \<Rightarrow> ret (Inl e)
     | Inr existing \<Rightarrow> do {
         n \<leftarrow> next_write;
         answer \<leftarrow> with_db (store_Resume (sv_now sv n) name);
         case answer of
           Inl e \<Rightarrow> ret (Inl (Svc_Store e))
         | Inr resumed \<Rightarrow> do {
             (if \<not> IsZero (row_SuspendedAt existing) then svc_record name Resumed no_fields else ret ());
             wake sv;
             ret (Inr resumed) } } }"

definition svc_Restart :: "service \<Rightarrow> string \<Rightarrow> (service_error + database_Workload) svc" where
  "svc_Restart sv name = do {
     found \<leftarrow> load_live name;
     case found of
       Inl e \<Rightarrow> ret (Inl e)
     | Inr existing \<Rightarrow>
         if \<not> IsZero (row_SuspendedAt existing) then ret (Inl ErrWorkloadSuspended)
         else do {
           (if sv_reconciler sv then modify (\<lambda>s. s\<lparr>ss_restarts := ss_restarts s @ [name]\<rparr>) else ret ());
           wake sv;
           ret (Inr existing) } }"

end
