(* ===== verification/Workload_Apply.thy ===== *)
theory Workload_Apply
  imports Workload_Service Validated_Specs
begin

text \<open>
  The workload service against its store: every operation keeps the tables consistent, what one attempt at
  storing a workload does, and a dry run that says what the apply does.
\<close>

section \<open>Consistency\<close>

definition keeps_ok :: "service_state \<Rightarrow> service_state \<Rightarrow> bool" where
  "keeps_ok s t \<longleftrightarrow> (store_ok (ss_db s) \<longrightarrow> store_ok (ss_db t))"

interpretation ok: frame keeps_ok
  by unfold_locales (auto simp: keeps_ok_def)

abbreviation consistent :: "'a svc \<Rightarrow> bool" where
  "consistent m \<equiv> stays keeps_ok m"

lemma consistent_with_db:
  "(\<And>db. store_ok db \<Longrightarrow> store_ok (snd (f db))) \<Longrightarrow> consistent (with_db f)"
  unfolding with_db_def
  by (intro ok.stays_bind ok.stays_gets ok.stays_ret ok.stays_modify) (simp add: keeps_ok_def)

lemma consistent_next_write: "consistent next_write"
  unfolding next_write_def
  by (intro ok.stays_bind ok.stays_gets ok.stays_ret ok.stays_modify) (simp add: keeps_ok_def)

lemma consistent_svc_record: "consistent (svc_record name reason fs)"
  unfolding svc_record_def by (intro ok.stays_modify) (simp add: keeps_ok_def)

lemma consistent_wake: "consistent (wake sv)"
  unfolding wake_def by (intro ok.stays_if ok.stays_ret ok.stays_modify) (simp add: keeps_ok_def)

lemma consistent_upsert: "consistent (upsert sv w reads ifMatch ports)"
  unfolding upsert_def
  by (intro ok.stays_bind consistent_next_write consistent_with_db Upsert_ok)

lemma store_claim_ok: "store_ok db \<Longrightarrow> store_ok (snd (store_claim wid ports db))"
  using table_Claim_ok [of "db_ports db" "ids db" wid ports]
  by (auto simp: store_claim_def store_ok_def split: prod.splits option.splits table_error.splits)

lemma MarkDeleting_ok: "store_ok db \<Longrightarrow> store_ok (snd (snd (MarkDeleting now name force db)))"
  by (rule store_step_ok [OF store_step.mark_deleting])

lemma consistent_mark:
  "consistent (with_db (\<lambda>db. case MarkDeleting now name force db of
     (answer, referencing, db') \<Rightarrow> ((answer, referencing), db')))"
  by (rule consistent_with_db) (auto simp: split_beta dest: MarkDeleting_ok)

lemma store_Suspend_ok: "store_ok db \<Longrightarrow> store_ok (snd (store_Suspend now name db))"
  by (rule store_step_ok [OF store_step.suspend])

lemma store_Resume_ok: "store_ok db \<Longrightarrow> store_ok (snd (store_Resume now name db))"
  by (rule store_step_ok [OF store_step.resume])

lemma consistent_case_error:
  assumes "consistent m1" "consistent m2" "consistent m3" "consistent m4" "\<And>h p. consistent (f h p)"
    and "\<And>x. consistent (g x)"
  shows "consistent (case_store_error m1 m2 m3 m4 f g e)"
  using assms by (cases e) simp_all

lemma consistent_case_bool: "consistent m \<Longrightarrow> consistent n \<Longrightarrow> consistent (case_bool m n b)"
  by (cases b) simp_all

lemmas consistent_rules =
  ok.stays_rules consistent_next_write consistent_svc_record consistent_wake consistent_upsert
  consistent_mark consistent_case_error consistent_case_bool

text \<open>What other requests do between the steps of an apply keeps the tables consistent too.\<close>

definition others_ok :: "service \<Rightarrow> bool" where
  "others_ok sv \<longleftrightarrow> (\<forall>n db. store_ok db \<longrightarrow> store_ok (sv_others sv n db))"

lemma consistent_others:
  "others_ok sv \<Longrightarrow> consistent (modify (\<lambda>s. s\<lparr>ss_db := sv_others sv n (ss_db s)\<rparr>))"
  by (rule ok.stays_modify) (simp add: keeps_ok_def others_ok_def)

lemma consistent_store_attempts:
  assumes "others_ok sv"
  shows "consistent (store_attempts sv r ifMatch k)"
proof (induction k)
  case (Suc k)
  show ?case
    unfolding store_attempts.simps
    by (intro consistent_rules consistent_others [OF assms] Suc.IH)
qed (simp add: ok.stays_ret)

lemma consistent_rehash: "consistent (rehash sv row read hash)"
  unfolding rehash_def by (intro consistent_rules)

lemma consistent_Rehash: "consistent (Rehash sv name)"
  unfolding Rehash_def by (intro consistent_rules consistent_rehash)

lemma consistent_rehashAll: "consistent (rehashAll sv name reason ws)"
proof (induction ws)
  case (Cons w ws)
  show ?case unfolding rehashAll.simps by (intro consistent_rules consistent_Rehash Cons.IH)
qed (simp add: ok.stays_ret)

lemma consistent_redeploy: "consistent (redeploy sv name)"
  unfolding redeploy_def by (intro consistent_rules consistent_rehashAll)

lemma consistent_apply_events: "consistent (apply_events sv r stored created)"
  unfolding apply_events_def by (intro consistent_rules)

lemma consistent_Apply: "others_ok sv \<Longrightarrow> consistent (Apply sv spec ifMatch)"
  unfolding Apply_def store_def
  by (intro consistent_rules consistent_store_attempts consistent_redeploy consistent_apply_events)

lemma consistent_Reallocate: "consistent (Reallocate sv name)"
  unfolding Reallocate_def store_moved_def by (intro consistent_rules consistent_redeploy)

lemma consistent_ReallocateInstance: "consistent (ReallocateInstance sv name i)"
  unfolding ReallocateInstance_def
  by (intro consistent_rules consistent_Reallocate consistent_with_db store_claim_ok)

lemma consistent_Drift: "consistent (Drift sv)"
proof -
  have row: "consistent (drift_row sv row)" for row
    unfolding drift_row_def by (intro consistent_rules consistent_rehash)
  have "consistent (drift_rows sv rows)" for rows
    by (induction rows) (simp_all add: ok.stays_ret, intro consistent_rules row)
  then show ?thesis
    unfolding Drift_def by (intro consistent_rules ok.stays_modify) (simp_all add: keeps_ok_def)
qed

lemma consistent_load_live: "consistent (load_live name)"
  unfolding load_live_def by (intro consistent_rules)

lemma consistent_Delete: "consistent (Delete sv name force)"
  unfolding Delete_def by (intro consistent_rules consistent_rehashAll)

lemma consistent_Stop: "consistent (Stop sv name)"
  unfolding Stop_def
  by (intro consistent_rules consistent_load_live consistent_with_db store_Suspend_ok)

lemma consistent_Start: "consistent (Start sv name)"
  unfolding Start_def
  by (intro consistent_rules consistent_load_live consistent_with_db store_Resume_ok)

lemma consistent_Restart: "consistent (svc_Restart sv name)"
  unfolding svc_Restart_def
  by (intro consistent_rules consistent_load_live ok.stays_modify) (simp add: keeps_ok_def)

section \<open>Settling the claims a workload holds\<close>

text \<open>Settling reads of the claimer only what it holds; a preview never asks it for a port.\<close>

lemma claimer_resolve_cong:
  assumes "cl_HolderOf c = cl_HolderOf d" "cl_probe c = cl_probe d"
  shows "claimer_resolve c = claimer_resolve d"
  by (intro ext) (simp only: claimer_resolve_def assms)

lemma resolve_mappings_cong:
  assumes "cl_HolderOf c = cl_HolderOf d" "cl_probe c = cl_probe d"
  shows "resolve_mappings c w held allocs i ms = resolve_mappings d w held allocs i ms"
  by (induction ms) (simp_all only: resolve_mappings.simps claimer_resolve_cong [OF assms])

lemma claimer_Preview_cong:
  assumes "cl_HolderOf c = cl_HolderOf d" "cl_probe c = cl_probe d"
  shows "claimer_Preview c w existing ms count = claimer_Preview d w existing ms count"
proof -
  have "preview_instances c w existing ms is = preview_instances d w existing ms is" for "is"
    by (induction "is") (simp_all only: preview_instances.simps resolve_mappings_cong [OF assms])
  then show ?thesis by (simp add: claimer_Preview_def)
qed

section \<open>One attempt at storing\<close>

lemma Upsert_Inl: "Upsert newid now w reads ifMatch ports db = (Inl e, db') \<Longrightarrow> db' = db"
  by (auto simp: Upsert_def split: sum.splits prod.splits option.splits table_error.splits)

lemma run_with_db: "run_state (with_db f) s = (fst (f (ss_db s)), s\<lparr>ss_db := snd (f (ss_db s))\<rparr>)"
  by (simp add: with_db_def)

lemma run_next_write: "run_state next_write s = (ss_writes s, s\<lparr>ss_writes := Suc (ss_writes s)\<rparr>)"
  by (simp add: next_write_def)

lemma run_upsert:
  "run_state (upsert sv w reads ifMatch ports) s =
     (let u = Upsert (sv_newid sv (ss_writes s)) (sv_now sv (ss_writes s)) w reads ifMatch ports (ss_db s)
      in (fst u, s\<lparr>ss_writes := Suc (ss_writes s), ss_db := snd u\<rparr>))"
  by (simp add: upsert_def run_with_db run_next_write Let_def)

text \<open>What the store writes once the claims are settled and the hash is known.\<close>

definition stores ::
  "service \<Rightarrow> resolution \<Rightarrow> int \<Rightarrow> nat \<Rightarrow> database \<Rightarrow> Claim list \<Rightarrow> string \<Rightarrow> string
     \<Rightarrow> (store_error + database_Workload \<times> bool) \<times> database" where
  "stores sv r ifMatch n db claims encoded hash = Upsert (sv_newid sv n) (sv_now sv n)
     (store_row r encoded hash) (row_reads_of (res_read r)) ifMatch (allocations_rows claims []) db"

definition attempt_of ::
  "service \<Rightarrow> resolution \<Rightarrow> nat \<Rightarrow> database \<Rightarrow> service_error + Claim list \<times> string \<times> string" where
  "attempt_of sv r n db = (case settle_claims sv r n db of
       Inl e \<Rightarrow> Inl (Svc_Port e)
     | Inr claims \<Rightarrow> map_sum Svc_Failed (Pair claims)
         (Compute (sv_codec sv) (Resolved (res_spec r) claims) (hashInputs (res_read r) (res_digest r))))"

lemma run_store_attempts:
  "run_state (store_attempts sv r ifMatch (Suc k)) s =
     (case attempt_of sv r (ss_writes s) (ss_db s) of
        Inl e \<Rightarrow> (Inl e, s)
      | Inr (claims, encoded, hash) \<Rightarrow>
          (case stores sv r ifMatch (ss_writes s) (sv_others sv (ss_writes s) (ss_db s)) claims encoded hash of
             (answer, db') \<Rightarrow>
               (let s' = s\<lparr>ss_writes := Suc (ss_writes s), ss_db := db'\<rparr>
                in case answer of
                  Inr stored \<Rightarrow> (Inr stored, s')
                | Inl ErrWorkloadDeleting \<Rightarrow> (Inl Svc_ErrWorkloadDeleting, s')
                | Inl ErrWorkloadChanged \<Rightarrow> (Inl Svc_ErrWorkloadChanged, s')
                | Inl ErrWorkloadNotFound \<Rightarrow> (Inl Svc_ErrWorkloadChanged, s')
                | Inl (Store_ErrHostPortTaken h p) \<Rightarrow>
                    if Pinned (spec_Ports (res_spec r)) then (Inl Svc_ErrHostPortTaken, s')
                    else run_state (store_attempts sv r ifMatch k) s'
                | Inl e \<Rightarrow> (Inl (Svc_Store e), s'))))"
proof (cases "attempt_of sv r (ss_writes s) (ss_db s)")
  case (Inl e)
  then show ?thesis by (auto simp: attempt_of_def split: sum.splits)
next
  case (Inr a)
  then obtain claims encoded hash where "settle_claims sv r (ss_writes s) (ss_db s) = Inr claims"
    "Compute (sv_codec sv) (Resolved (res_spec r) claims) (hashInputs (res_read r) (res_digest r))
       = Inr (encoded, hash)" "a = (claims, encoded, hash)"
    by (auto simp: attempt_of_def map_sum_eq_Inr split: sum.splits)
  moreover obtain answer db' where
    "stores sv r ifMatch (ss_writes s) (sv_others sv (ss_writes s) (ss_db s)) claims encoded hash = (answer, db')"
    by force
  ultimately show ?thesis
    using Inr by (cases answer; cases "projl answer") (simp_all add: stores_def run_upsert Let_def)
qed

text \<open>
  While nobody else writes, a success is one attempt against the database the store began with: an
  attempt that lost its ports leaves the database as it was.
\<close>

definition alone :: "service \<Rightarrow> bool" where
  "alone sv \<longleftrightarrow> (\<forall>n db. sv_others sv n db = db)"

lemma store_attempts_alone:
  assumes "alone sv" "run_state (store_attempts sv r ifMatch k) s = (Inr (stored, created), s')"
  shows "\<exists>n claims encoded hash. attempt_of sv r n (ss_db s) = Inr (claims, encoded, hash)
    \<and> stores sv r ifMatch n (ss_db s) claims encoded hash = (Inr (stored, created), ss_db s')"
  using assms(2)
proof (induction k arbitrary: s)
  case (Suc k)
  let ?n = "ss_writes s"
  obtain claims encoded hash where attempt: "attempt_of sv r ?n (ss_db s) = Inr (claims, encoded, hash)"
    using Suc.prems unfolding run_store_attempts by (auto split: sum.splits)
  obtain answer db' where stores: "stores sv r ifMatch ?n (ss_db s) claims encoded hash = (answer, db')"
    by force
  then have "stores sv r ifMatch ?n (sv_others sv ?n (ss_db s)) claims encoded hash = (answer, db')"
    using assms(1) by (simp add: alone_def)
  note run = Suc.prems [unfolded run_store_attempts attempt sum.case prod.case this Let_def]
  show ?case
  proof (cases answer)
    case (Inl e)
    have "db' = ss_db s" using stores Inl Upsert_Inl unfolding stores_def by metis
    then show ?thesis
      using run Inl Suc.IH [of "s\<lparr>ss_writes := Suc ?n, ss_db := db'\<rparr>"]
      by (auto split: store_error.splits if_splits)
  next
    case (Inr a)
    then have "a = (stored, created)" "ss_db s' = db'" using run by auto
    then show ?thesis using attempt stores Inr by blast
  qed
qed simp

lemma Defaults_name: "spec_Name (Defaults spec) = spec_Name spec"
  by (simp add: Defaults_def)

text \<open>What a successful resolution knows of the workload that is stored.\<close>

lemma service_resolve_Inr:
  assumes "service_resolve sv db spec = Inr r"
  shows "spec_Name (res_spec r) = spec_Name spec"
    and "res_existing r = (case store_get (spec_Name spec) db of Inl e \<Rightarrow> None | Inr w \<Rightarrow> Some w)"
    and "res_held r = (case res_existing r of None \<Rightarrow> [] | Some w \<Rightarrow> table_List (db_ports db) (row_ID w))"
    and "ValidateWorkload (sv_parsers sv) (Defaults spec) = None"
    and "spec_Ports (res_spec r) = spec_Ports (Defaults spec)"
    and "spec_Count (res_spec r) = spec_Count (Defaults spec)"
  using assms
  by (auto simp: service_resolve_def resolveVolumes_def Let_def map_sum_eq_Inr Defaults_name
      split: sum.splits option.splits if_splits)

lemma claimer_of_same:
  "cl_HolderOf (claimer_of sv n db) = cl_HolderOf (claimer_of sv m db)"
  "cl_probe (claimer_of sv n db) = cl_probe (claimer_of sv m db)"
  by (simp_all add: claimer_of_def table_claimer_def)

lemma settle_Preview:
  assumes "settle_claims sv r n db = Inr claims"
  shows "\<exists>previewed pending. claimer_Preview (claimer_of sv m db) (spec_Name (res_spec r))
      (heldClaims (res_held r)) (spec_Ports (res_spec r)) (spec_Count (res_spec r)) = Inr (previewed, pending)
    \<and> (\<not> pending \<longrightarrow> previewed = claims)"
  using Preview_agrees [OF assms [unfolded settle_claims_def Let_def]]
  unfolding claimer_Preview_cong [OF claimer_of_same [of sv n db m]] by blast

text \<open>\<open>json.Marshal\<close> never fails on the strings, numbers and maps of a specification.\<close>

definition encodes :: "codec \<Rightarrow> bool" where
  "encodes c \<longleftrightarrow> (\<forall>spec. \<exists>encoded. cd_marshal c spec = Inr encoded)"

lemma Compute_total: "encodes c \<Longrightarrow> \<exists>encoded hash. Compute c spec i = Inr (encoded, hash)"
  by (auto simp: Compute_def encodes_def split: sum.splits prod.splits) (metis Inl_Inr_False)

text \<open>Whether a write moved the version of the workload stored under a name.\<close>

definition version_moved :: "string \<Rightarrow> database \<Rightarrow> database_Workload \<Rightarrow> bool" where
  "version_moved name db stored = (case store_get name db of
       Inl e \<Rightarrow> False | Inr old \<Rightarrow> row_Version stored \<noteq> row_Version old)"

lemma stores_row:
  assumes "stores sv r ifMatch n db claims encoded hash = (Inr (stored, created), db')"
    and "res_existing r = (case store_get (spec_Name (res_spec r)) db of Inl e \<Rightarrow> None | Inr w \<Rightarrow> Some w)"
  shows "row_SpecHash stored = hash" "created \<longleftrightarrow> res_existing r = None"
    and "version_moved (spec_Name (res_spec r)) db stored
      \<longleftrightarrow> (case res_existing r of None \<Rightarrow> False | Some w \<Rightarrow> hash \<noteq> row_SpecHash w)"
proof -
  obtain db1 where "write_row (sv_newid sv n) (sv_now sv n) (store_row r encoded hash) ifMatch db
      = Inr (stored, created, db1)"
    using assms(1) by (auto simp: stores_def Upsert_def
        split: sum.splits prod.splits option.splits table_error.splits)
  then show "row_SpecHash stored = hash" "created \<longleftrightarrow> res_existing r = None"
    "version_moved (spec_Name (res_spec r)) db stored
      \<longleftrightarrow> (case res_existing r of None \<Rightarrow> False | Some w \<Rightarrow> hash \<noteq> row_SpecHash w)"
    using assms(2)
    by (auto simp: write_row_def store_insert_def store_update_def store_row_def version_moved_def Let_def
        split: sum.splits if_splits)
qed

section \<open>A dry run\<close>

lemma Apply_Inr:
  assumes "alone sv" "outcome (Apply sv spec ifMatch) s = Inr (stored, created)"
  shows "\<exists>r n claims encoded hash db'. service_resolve sv (ss_db s) spec = Inr r
    \<and> attempt_of sv r n (ss_db s) = Inr (claims, encoded, hash)
    \<and> stores sv r ifMatch n (ss_db s) claims encoded hash = (Inr (stored, created), db')"
proof -
  obtain r where r: "service_resolve sv (ss_db s) spec = Inr r"
    using assms(2) by (auto simp: Apply_def outcome_bind split: sum.splits)
  obtain answer s' where run: "run_state (store_attempts sv r ifMatch store_attempts_max) s = (answer, s')"
    by force
  have "answer = Inr (stored, created)"
    using assms(2) r run
    by (auto simp: Apply_def outcome_bind store_def outcome_def split: sum.splits prod.splits)
  with r show ?thesis using store_attempts_alone [OF assms(1), of r ifMatch store_attempts_max s] run by blast
qed

text \<open>
  C6. A dry run says what the apply does. Where the apply succeeds, with nobody else writing, the dry run
  of the same specification against the same database succeeds; it says rightly whether the workload is
  created; a version that moves is never unannounced; and the hash it reports, when it reports one, is the
  one that is stored, and then it says exactly whether the running instances are replaced.
\<close>

theorem dry_run_agrees:
  assumes "alone sv" "encodes (sv_codec sv)" "outcome (Apply sv spec ifMatch) s = Inr (stored, created)"
  shows "\<exists>dr. dry_run sv (ss_db s) spec = Inr dr \<and> dr_Created dr = created
    \<and> dr_SpecHash dr \<in> {[], row_SpecHash stored}
    \<and> (version_moved (spec_Name spec) (ss_db s) stored \<longrightarrow> dr_Replaced dr)
    \<and> (dr_SpecHash dr \<noteq> [] \<longrightarrow> dr_Replaced dr = version_moved (spec_Name spec) (ss_db s) stored)"
proof -
  obtain r n claims encoded hash db' where r: "service_resolve sv (ss_db s) spec = Inr r"
    and attempt: "attempt_of sv r n (ss_db s) = Inr (claims, encoded, hash)"
    and stores: "stores sv r ifMatch n (ss_db s) claims encoded hash = (Inr (stored, created), db')"
    using Apply_Inr [OF assms(1,3)] by blast
  note known = service_resolve_Inr [OF r]
  note row = stores_row [OF stores, unfolded known(1), OF known(2)]
  have settled: "settle_claims sv r n (ss_db s) = Inr claims"
    and hashed: "Compute (sv_codec sv) (Resolved (res_spec r) claims) (hashInputs (res_read r) (res_digest r))
      = Inr (encoded, hash)"
    using attempt by (auto simp: attempt_of_def map_sum_eq_Inr split: sum.splits)
  obtain previewed pending where preview: "claimer_Preview (claimer_of sv 0 (ss_db s)) (spec_Name (res_spec r))
      (heldClaims (res_held r)) (spec_Ports (res_spec r)) (spec_Count (res_spec r)) = Inr (previewed, pending)"
    and same: "\<not> pending \<longrightarrow> previewed = claims"
    using settle_Preview [OF settled] by blast
  obtain encoded' hash' where hash': "Compute (sv_codec sv) (Resolved (res_spec r) previewed)
      (hashInputs (res_read r) (res_digest r)) = Inr (encoded', hash')"
    using Compute_total [OF assms(2)] by blast
  have "\<not> pending \<longrightarrow> hash' = hash" using same hashed hash' by auto
  then show ?thesis
    using r preview hash' row
    by (auto simp: dry_run_def Let_def split: option.splits)
qed

section \<open>An example service\<close>

text \<open>
  A host with ports from 20000, one secret and nothing else. Its encoding keeps of a specification its
  name, and its hash is the encoding.
\<close>

definition example_codec :: codec where
  "example_codec = \<lparr>cd_marshal = (\<lambda>s. Inr (spec_Name s)),
     cd_unmarshal = (\<lambda>t. if t = ''web'' then Inr example_web else Inl (ErrMsg ''not a specification'')),
     cd_hashedSpec = (\<lambda>e secrets variables addresses digest. e @ concat (map snd secrets)),
     cd_sha256 = (\<lambda>e. e)\<rparr>"

definition example_service :: service where
  "example_service = \<lparr>sv_parsers = example_parsers, sv_codec = example_codec,
     sv_confinable = (\<lambda>r. None), sv_enforceable = (\<lambda>r. None), sv_volumes = None, sv_fs = example_fs,
     sv_hostPaths = [], sv_secrets = Some (\<lambda>names. Inr (map (\<lambda>n. (n, ''1'')) names)),
     sv_variables = None, sv_address = None, sv_images = None, sv_allocate = (\<lambda>n. example_Allocate),
     sv_probe = None, sv_newid = (\<lambda>n. replicate n CHR ''i''), sv_now = (\<lambda>n. int n + 1),
     sv_others = (\<lambda>n db. db), sv_digests = 0, sv_reconciler = True\<rparr>"

definition example_state :: service_state where
  "example_state = \<lparr>ss_db = empty_database, ss_writes = 0, ss_events = [], ss_wakes = 0,
     ss_restarts = [], ss_drifted = []\<rparr>"

lemma example_alone: "alone example_service"
  by (simp add: alone_def example_service_def)

lemma example_encodes: "encodes (sv_codec example_service)"
  by (simp add: encodes_def example_service_def example_codec_def)

definition example_applied :: database_Workload where
  "example_applied = \<lparr>row_ID = [], row_Name = ''web'', row_Version = 1, row_Runtime = ''container'',
     row_Spec = ''web'', row_SpecHash = ''web'', row_Labels = [(''app'', ''web'')], row_CreatedAt = 1,
     row_UpdatedAt = 1, row_DeletedAt = 0, row_SuspendedAt = 0\<rparr>"

lemma example_apply:
  "outcome (Apply example_service example_web 0) example_state = Inr (example_applied, True)"
  by code_simp

theorem dry_run_agrees_witness:
  "\<exists>dr. dry_run example_service empty_database example_web = Inr dr \<and> dr_Created dr"
  using dry_run_agrees [OF example_alone example_encodes example_apply]
  by (auto simp: example_state_def)

end
