(* ===== verification/Workload_Reapply.thy ===== *)
theory Workload_Reapply
  imports Workload_Apply
begin

text \<open>
  Applying again what is stored changes nothing: every mapping is settled on the host port it was settled
  on, so the hash is the same and the row, with its version, stays. And a specification that pins no port
  loses one only to another request: without a race the first attempt at storing it decides.
\<close>

section \<open>Settling again\<close>

lemma heldBy_unique:
  assumes "distinct (map (\<lambda>d. (clm_Instance d, claim_key d)) claims)" "set existing = set claims"
    and "d \<in> set claims"
  shows "heldBy existing (clm_Instance d) (claim_key d) = Some d"
proof (cases "heldBy existing (clm_Instance d) (claim_key d)")
  case None
  then show ?thesis using heldBy_None assms(2,3) by blast
next
  case (Some e)
  then show ?thesis
    using heldBy_Some [OF Some] keys_unique [OF assms(1) _ assms(3), of e] assms(2) by simp
qed

lemma allocate_settled:
  assumes "\<forall>m\<in>set ms. \<not> unsettled held m"
  shows "claimer_allocate c held n t ms = Inr (n, t, Map.empty)"
proof -
  have "fold (add_group held) ms ([], Map.empty) = ([], Map.empty)"
    using assms by (induction ms) (auto simp: add_group_def unsettled_def)
  then show ?thesis by (simp add: claimer_allocate_def)
qed

lemma claim_for_held:
  assumes "held' (mapping_key m) = Some (claim_for held allocs i m)"
  shows "\<not> unsettled held' m" "claim_for held' allocs' i m = claim_for held allocs i m"
  using assms by (auto simp: unsettled_def kept_def claim_for_def host_of_def)

lemma resolve_instances_again:
  assumes "length allocss = length is" "\<forall>m\<in>set ms. pin_ok c w m"
    and "\<forall>(i, a)\<in>set (zip is allocss). \<forall>m\<in>set ms.
      heldBy held i (mapping_key m) = Some (claim_for (heldBy existing i) a i m)"
  shows "resolve_instances c w held ms n t is = Inr (claims_of existing ms is allocss)"
  using assms
proof (induction allocss "is" arbitrary: n t rule: list_induct2)
  case (Cons a as i "is")
  then have here: "\<forall>m\<in>set ms. heldBy held i (mapping_key m) = Some (claim_for (heldBy existing i) a i m)"
    by simp
  have "claimer_allocate c (heldBy held i) n t ms = Inr (n, t, Map.empty)"
    using here claim_for_held(1) by (intro allocate_settled) fast
  moreover have "map (claim_for (heldBy held i) Map.empty i) ms = map (claim_for (heldBy existing i) a i) ms"
    using here claim_for_held(2) by (intro map_cong) auto
  then have "resolve_mappings c w (heldBy held i) Map.empty i ms
      = Inr (map (claim_for (heldBy existing i) a i) ms)"
    using Cons.prems(1) by (simp add: resolve_mappings_iff)
  ultimately show ?case
    using Cons by (simp add: claims_of_def)
qed (simp add: claims_of_def)

lemma claims_of_member:
  "(i, a) \<in> set (zip is allocss) \<Longrightarrow> m \<in> set ms \<Longrightarrow>
     claim_for (heldBy existing i) a i m \<in> set (claims_of existing ms is allocss)"
  by (fastforce simp: claims_of_def)

lemma Resolve_again:
  assumes "claimer_Resolve c w existing ms count = Inr claims" "valid_mappings ms"
    and "set held = set claims" "\<forall>m\<in>set ms. pin_ok d w m" "cl_Allocated d = Inr allocated"
  shows "claimer_Resolve d w held ms count = Inr claims"
proof -
  obtain n t where run: "resolve_instances c w existing ms n t [0..count - 1] = Inr claims"
    and few: "\<not> (1 < count \<and> Pinned ms)"
    using assms(1) by (auto simp: claimer_Resolve_def split: if_splits sum.splits)
  obtain allocss where len: "length allocss = length [0..count - 1]"
    and claims: "claims = claims_of existing ms [0..count - 1] allocss"
    using resolve_instances_claims [OF run] by blast
  have unique: "distinct (map (\<lambda>d. (clm_Instance d, claim_key d)) claims)"
    unfolding claims using len assms(2) by (intro claims_of_distinct) (simp_all add: valid_mappings_def)
  have "heldBy held i (mapping_key m) = Some (claim_for (heldBy existing i) a i m)"
    if "(i, a) \<in> set (zip [0..count - 1] allocss)" "m \<in> set ms" for i a m
    using heldBy_unique [OF unique assms(3), of "claim_for (heldBy existing i) a i m"]
      claims_of_member [OF that] claims by simp
  then have "resolve_instances d w held ms 0 (fold pin_port ms allocated) [0..count - 1] = Inr claims"
    unfolding claims by (intro resolve_instances_again [OF len assms(4)]) auto
  then show ?thesis using few assms(5) by (simp add: claimer_Resolve_def)
qed

lemma claimer_Resolve_pin:
  assumes "claimer_Resolve c w existing ms count = Inr claims" "1 \<le> count" "m \<in> set ms" "port_From m \<noteq> 0"
  shows "\<exists>d\<in>set claims. clm_Host d = port_From m \<and> clm_Protocol d = protocolOf m"
proof -
  obtain n t where "resolve_instances c w existing ms n t [0..count - 1] = Inr claims"
    using assms(1) by (auto simp: claimer_Resolve_def split: if_splits sum.splits)
  then obtain allocs where "claim_for (heldBy existing 0) allocs 0 m \<in> set claims"
    using resolve_instances_claims claims_of_first [OF _ assms(2)] assms(3) by metis
  then show ?thesis using assms(4) by (intro bexI) (auto simp: host_of_def)
qed

section \<open>What is stored\<close>

lemma HolderOf_row:
  assumes "table_ok t" "q \<in> set t" "names (prt_WorkloadID q) = Some w"
  shows "table_HolderOf names t (prt_Host q) (prt_Protocol q) = Inr (Some w)"
proof -
  let ?P = "\<lambda>p. prt_Host p = prt_Host q \<and> prt_Protocol p = prt_Protocol q \<and> names (prt_WorkloadID p) \<noteq> None"
  obtain r where r: "find ?P t = Some r" using assms(2,3) by (cases "find ?P t") (auto simp: find_None_iff)
  then have "r = q"
    using find_SomeD [OF r] table_ok_hosts [OF assms(1) _ assms(2)] by (simp add: row_host_def)
  with r assms(3) show ?thesis by (simp add: table_HolderOf_def)
qed

lemma db_names_row: "store_ok db \<Longrightarrow> w \<in> set (db_workloads db) \<Longrightarrow> db_names db (row_ID w) = Some (row_Name w)"
  unfolding db_names_def by (rule map_of_is_SomeI) (auto simp: store_ok_def o_def)

text \<open>The claims a workload was stored with, as the table holds them.\<close>

lemma held_claims:
  assumes "set (table_List t wid) = (\<lambda>p. p\<lparr>prt_WorkloadID := wid\<rparr>) ` set (allocations_rows claims [])"
  shows "set (heldClaims (table_List t wid)) = set claims" "d \<in> set claims \<Longrightarrow> claim_row wid d \<in> set t"
proof -
  have rows: "set (table_List t wid) = claim_row wid ` set claims"
    using assms by (simp add: allocations_rows_def image_image)
  then show "set (heldClaims (table_List t wid)) = set claims"
    by (simp add: heldClaims_def image_image)
  show "d \<in> set claims \<Longrightarrow> claim_row wid d \<in> set t" using rows by (auto simp: table_List_set)
qed

section \<open>The row of one workload\<close>

text \<open>Rehashing the workloads that reference another leaves that one's row alone.\<close>

definition same_row :: "string \<Rightarrow> service_state \<Rightarrow> service_state \<Rightarrow> bool" where
  "same_row name s t \<longleftrightarrow> store_get name (ss_db t) = store_get name (ss_db s)"

interpretation row: frame "same_row name" for name
  by unfold_locales (auto simp: same_row_def)

lemma find_map_other:
  "(\<And>x. P (f x) \<longleftrightarrow> P x) \<Longrightarrow> (\<And>x. P x \<Longrightarrow> f x = x) \<Longrightarrow> find P (map f xs) = find P xs"
  by (induction xs) auto

lemma find_snoc_other: "\<not> P x \<Longrightarrow> find P (xs @ [x]) = find P xs"
  by (induction xs) auto

lemma Upsert_other:
  assumes "row_Name w \<noteq> name"
  shows "store_get name (snd (Upsert newid now w reads ifMatch ports db)) = store_get name db"
proof -
  have rows: "store_get name db1 = store_get name db"
    if "write_row newid now w ifMatch db = Inr (stored, created, db1)" for stored created db1
    using that assms
    by (auto simp: write_row_def store_insert_def store_update_def updated_row_def store_get_def Let_def
        find_snoc_other find_map_other split: sum.splits if_splits option.splits)
  have link: "store_get name db2 = store_get name db1" if "store_link wid reads db1 = Inr db2" for wid db1 db2
    using store_link_effect [OF that] by (simp add: store_get_def)
  show ?thesis
    by (auto simp: Upsert_def rows link split: sum.splits prod.splits option.splits table_error.splits)
      (simp add: store_get_def rows [unfolded store_get_def])
qed

lemma upsert_same_row: "row_Name w \<noteq> name \<Longrightarrow> stays (same_row name) (upsert sv w reads ifMatch ports)"
  by (simp add: stays_def final_def run_upsert Let_def same_row_def Upsert_other)

lemma wake_same_row: "stays (same_row name) (wake sv)"
  unfolding wake_def by (intro row.stays_if row.stays_ret row.stays_modify) (simp add: same_row_def)

lemma svc_record_same_row: "stays (same_row name) (svc_record w reason fs)"
  unfolding svc_record_def by (intro row.stays_modify) (simp add: same_row_def)

lemma rehash_of_Name: "rehash_of sv w db = Inr (row, read, hash) \<Longrightarrow> row_Name row = w"
  by (auto simp: rehash_of_def map_sum_eq_Inr split: sum.splits dest: store_get_Inr)

lemma rehash_same_row: "row_Name w \<noteq> name \<Longrightarrow> stays (same_row name) (rehash sv w read hash)"
  unfolding rehash_def by (intro row.stays_rules upsert_same_row wake_same_row) simp

lemma Rehash_same_row:
  assumes "w \<noteq> name"
  shows "stays (same_row name) (Rehash sv w)"
  unfolding Rehash_def
proof (rule row.stays_bind [OF row.stays_gets])
  fix db
  show "stays (same_row name) (case rehash_of sv w db of
       Inl e \<Rightarrow> ret (Inl e)
     | Inr (row, read, hash) \<Rightarrow>
         if hash = row_SpecHash row then do {
           (if rf_refreshed read \<noteq> [] then wake sv else ret ());
           ret (Inr False) }
         else do {
           err \<leftarrow> rehash sv row read hash;
           ret (case err of Some e \<Rightarrow> Inl e | None \<Rightarrow> Inr True) })"
  proof (cases "rehash_of sv w db")
    case (Inr a)
    then obtain row read hash where "a = (row, read, hash)" "row_Name row \<noteq> name"
      using rehash_of_Name assms by (cases a) auto
    then show ?thesis
      using Inr by (simp add: row.stays_rules rehash_same_row wake_same_row)
  qed (simp add: row.stays_ret)
qed

lemma rehashAll_same_row: "name \<notin> set ws \<Longrightarrow> stays (same_row name) (rehashAll sv moved reason ws)"
proof (induction ws)
  case (Cons w ws)
  then show ?case
    unfolding rehashAll.simps
    by (intro row.stays_bind Rehash_same_row row.stays_sum row.stays_ret svc_record_same_row Cons.IH)
      (auto split: bool.splits simp: row.stays_ret svc_record_same_row)
qed (simp add: row.stays_ret)

lemma redeploy_same_row: "stays (same_row name) (redeploy sv name)"
proof -
  have "stays (same_row name) (rehashAll sv name AddressMoved (ReferencedBy name db))" for db
    by (rule rehashAll_same_row) (auto simp: ReferencedBy_def)
  then show ?thesis
    unfolding redeploy_def by (intro row.stays_bind_outcome row.stays_gets) simp
qed

lemma apply_events_same_row: "stays (same_row name) (apply_events sv r stored created)"
  unfolding apply_events_def by (intro row.stays_rules svc_record_same_row)

section \<open>Writing again\<close>

lemma Claim_again:
  assumes "table_ok t" "table_ok (map (\<lambda>p. p\<lparr>prt_WorkloadID := wid\<rparr>) ps)"
    and "set (table_List t wid) = (\<lambda>p. p\<lparr>prt_WorkloadID := wid\<rparr>) ` set ps"
  shows "\<exists>t'. table_Claim wid ps t = (None, t')"
proof -
  let ?f = "\<lambda>p. p\<lparr>prt_WorkloadID := wid\<rparr>"
  have host: "row_host (?f p) = row_host p" for p by (simp add: row_host_def)
  have apart: "row_host p \<noteq> row_host q" if p: "p \<in> set ps" and q: "q \<in> set (table_Release wid t)" for p q
  proof
    assume "row_host p = row_host q"
    moreover have "?f p \<in> set t" using p assms(3) by (auto simp: table_List_set)
    ultimately have "q = ?f p"
      using table_ok_hosts [OF assms(1), of q "?f p"] q host by (auto simp: table_Release_def)
    then show False using q by (simp add: table_Release_def)
  qed
  have "\<exists>t'. insert_ports wid ps (table_Release wid t) = Inr t'"
  proof (rule insert_ports_succeeds)
    show "distinct (map row_host ps)" "distinct (map (\<lambda>p. row_key (?f p)) ps)"
      using assms(2) by (simp_all add: table_ok_def o_def host)
    show "row_host ` set ps \<inter> row_host ` set (table_Release wid t) = {}" using apart by blast
  qed (simp add: table_Release_def)
  then show ?thesis by (auto simp: table_Claim_def)
qed

lemma Upsert_distinct:
  assumes "store_ok db" "Upsert newid now w reads ifMatch ports db = (Inr (stored, created), db')"
  shows "table_ok (map (\<lambda>p. p\<lparr>prt_WorkloadID := row_ID stored\<rparr>) ports)"
    and "distinct (rd_Secrets reads)" "distinct (rd_Variables reads)" "distinct (rd_Workloads reads)"
proof -
  have "store_ok db'" using Upsert_ok [OF assms(1), of newid now w reads ifMatch ports] assms(2) by simp
  then have "table_ok (db_ports db')" by (simp add: store_ok_def)
  then show "table_ok (map (\<lambda>p. p\<lparr>prt_WorkloadID := row_ID stored\<rparr>) ports)"
    using Upsert_Inr [OF assms(2,1)] by (auto simp: table_ok_def)
  show "distinct (rd_Secrets reads)" "distinct (rd_Variables reads)" "distinct (rd_Workloads reads)"
    using assms(2) by (auto simp: Upsert_def store_link_def link_names_def
        split: sum.splits prod.splits option.splits table_error.splits if_splits)
qed

lemma Upsert_again:
  assumes "store_ok db" "store_get (row_Name w) db = Inr row" "IsZero (row_DeletedAt row)"
    and "row_SpecHash row = row_SpecHash w" "table_ok (map (\<lambda>p. p\<lparr>prt_WorkloadID := row_ID row\<rparr>) ports)"
    and "distinct (rd_Secrets reads)" "distinct (rd_Variables reads)" "distinct (rd_Workloads reads)"
    and "set (table_List (db_ports db) (row_ID row)) = (\<lambda>p. p\<lparr>prt_WorkloadID := row_ID row\<rparr>) ` set ports"
  shows "\<exists>db'. Upsert newid now w reads 0 ports db = (Inr (row, False), db')
    \<and> db_workloads db' = db_workloads db"
proof -
  have "table_ok (db_ports db)" using assms(1) by (simp add: store_ok_def)
  then obtain t where "table_Claim (row_ID row) ports (db_ports db) = (None, t)"
    using Claim_again assms(5,9) by blast
  then show ?thesis
    using assms(2-4,6-8) by (simp add: Upsert_def write_row_def store_link_def link_names_def)
qed

section \<open>Applying again\<close>

lemma service_resolve_spec:
  assumes "service_resolve sv db spec = Inr r"
  shows "resolveVolumes sv (Defaults spec) = Inr (res_spec r)" "RuntimeOf (Defaults spec) = Inr (res_runtime r)"
    and "res_existing r = Some w \<Longrightarrow> IsZero (row_DeletedAt w)"
  using assms
  by (auto simp: service_resolve_def Let_def split: sum.splits option.splits if_splits)

lemma service_resolve_same:
  assumes "service_resolve sv db spec = Inr r" "service_resolve sv db' spec = Inr r'"
  shows "res_spec r' = res_spec r" "res_runtime r' = res_runtime r"
  using service_resolve_spec [OF assms(1)] service_resolve_spec [OF assms(2)] by simp_all

text \<open>The claims of a workload are found again against any database that still holds them.\<close>

lemma settle_again:
  assumes "service_resolve sv db spec = Inr r" "settle_claims sv r n db = Inr claims"
    and "service_resolve sv db' spec = Inr r'" "store_ok db'" "store_get (spec_Name spec) db' = Inr row"
    and "set (table_List (db_ports db') (row_ID row))
      = (\<lambda>p. p\<lparr>prt_WorkloadID := row_ID row\<rparr>) ` set (allocations_rows claims [])"
  shows "settle_claims sv r' n' db' = Inr claims"
proof -
  let ?ms = "spec_Ports (res_spec r)" and ?count = "spec_Count (res_spec r)"
  note known = service_resolve_Inr [OF assms(1)] and known' = service_resolve_Inr [OF assms(3)]
  have wf: "wf_spec (sv_parsers sv) (Defaults spec)" using known(4) by (simp add: ValidateWorkload_None)
  have valid: "valid_mappings ?ms" unfolding known(5) by (rule wf_ports_valid_mappings [OF wf_spec_ports [OF wf]])
  have count: "1 \<le> ?count" unfolding known(6) using wf by (simp add: wf_spec_def wf_common_def)
  have run: "claimer_Resolve (claimer_of sv n db) (spec_Name spec) (heldClaims (res_held r)) ?ms ?count = Inr claims"
    using assms(2) known(1) by (simp add: settle_claims_def Let_def)
  note held = held_claims [OF assms(6)]
  have row: "db_names db' (row_ID row) = Some (spec_Name spec)"
    using db_names_row [OF assms(4)] store_get_Inr [OF assms(5)] by auto
  have "pin_ok (claimer_of sv n' db') (spec_Name spec) m" if m: "m \<in> set ?ms" for m
  proof (cases "port_From m = 0")
    case False
    obtain d where "d \<in> set claims" "clm_Host d = port_From m" "clm_Protocol d = protocolOf m"
      using claimer_Resolve_pin [OF run count m False] by blast
    then have "table_HolderOf (db_names db') (db_ports db') (port_From m) (protocolOf m) = Inr (Some (spec_Name spec))"
      using HolderOf_row [of "db_ports db'" "claim_row (row_ID row) d" "db_names db'" "spec_Name spec"]
        held(2) [of d] row assms(4)
      by (simp add: store_ok_def claim_row_def)
    then show ?thesis by (simp add: pin_ok_def claimer_of_def table_claimer_def)
  qed (simp add: pin_ok_def)
  then have "claimer_Resolve (claimer_of sv n' db') (spec_Name spec) (heldClaims (res_held r')) ?ms ?count = Inr claims"
    using assms(5) known'(2,3) held(1)
    by (intro Resolve_again [OF run valid]) (simp_all add: claimer_of_def table_claimer_def table_Allocated_def)
  then show ?thesis
    using known'(1) service_resolve_same [OF assms(1,3)] by (simp add: settle_claims_def Let_def)
qed

text \<open>
  Applying again what is stored changes nothing. When a specification was stored, and the workload's row
  and ports are still what that wrote, applying it again, with what it references and its image unchanged,
  settles every port where it is, finds the same hash, and answers with the very row that is there; the row
  and its version stay, through the rehashing of the workloads that reference it as well.
\<close>

lemma apply_again_unchanged:
  assumes "alone sv" "store_ok (ss_db s)" "service_resolve sv (ss_db s) spec = Inr r"
    and "run_state (store sv r ifMatch) s = (Inr (stored, created), s1)"
    and "store_ok (ss_db t)" "store_get (spec_Name spec) (ss_db t) = store_get (spec_Name spec) (ss_db s1)"
    and "set (table_List (db_ports (ss_db t)) (row_ID stored))
      = set (table_List (db_ports (ss_db s1)) (row_ID stored))"
    and "service_resolve sv (ss_db t) spec = Inr r'" "res_read r' = res_read r" "res_digest r' = res_digest r"
  shows "\<exists>row. store_get (spec_Name spec) (ss_db t) = Inr row \<and> row_SpecHash row = row_SpecHash stored
    \<and> outcome (Apply sv spec 0) t = Inr (row, False)
    \<and> store_get (spec_Name spec) (ss_db (final (Apply sv spec 0) t)) = Inr row"
proof -
  obtain n claims encoded hash where attempt: "attempt_of sv r n (ss_db s) = Inr (claims, encoded, hash)"
    and stores: "stores sv r ifMatch n (ss_db s) claims encoded hash = (Inr (stored, created), ss_db s1)"
    using store_attempts_alone [OF assms(1) assms(4) [unfolded store_def]] by blast
  let ?ports = "allocations_rows claims []" and ?w = "store_row r encoded hash" and ?n = "ss_writes t"
  have name: "row_Name ?w = spec_Name spec" "row_SpecHash ?w = hash"
    using service_resolve_Inr(1) [OF assms(3)] by (simp_all add: store_row_def)
  note first = stores [unfolded stores_def]
  obtain row where row: "store_get (spec_Name spec) (ss_db t) = Inr row" "row_SpecHash row = hash"
    "row_ID row = row_ID stored"
    and ports: "set (table_List (db_ports (ss_db t)) (row_ID row))
      = (\<lambda>p. p\<lparr>prt_WorkloadID := row_ID row\<rparr>) ` set ?ports"
    using Upsert_success [OF assms(2) first] assms(6,7) unfolding name by auto
  have settled: "settle_claims sv r n (ss_db s) = Inr claims"
    and hashed: "Compute (sv_codec sv) (Resolved (res_spec r) claims) (hashInputs (res_read r) (res_digest r))
      = Inr (encoded, hash)"
    using attempt by (auto simp: attempt_of_def map_sum_eq_Inr split: sum.splits)
  have again: "attempt_of sv r' ?n (ss_db t) = Inr (claims, encoded, hash)"
    using settle_again [OF assms(3) settled assms(8,5) row(1) ports, of ?n] hashed assms(9,10)
      service_resolve_same [OF assms(3,8)]
    by (simp add: attempt_of_def)
  have live: "IsZero (row_DeletedAt row)"
    using service_resolve_spec(3) [OF assms(8)] service_resolve_Inr(2) [OF assms(8)] row(1) by simp
  have w': "store_row r' encoded hash = ?w" using service_resolve_same [OF assms(3,8)] by (simp add: store_row_def)
  obtain db' where write_t: "stores sv r' 0 ?n (ss_db t) claims encoded hash = (Inr (row, False), db')"
    and rows: "db_workloads db' = db_workloads (ss_db t)"
    using Upsert_again [OF assms(5), of ?w row ?ports "row_reads_of (res_read r)" "sv_newid sv ?n" "sv_now sv ?n"]
      Upsert_distinct [OF assms(2) first] row ports live name
    unfolding stores_def w' assms(9) by auto
  have run: "run_state (store sv r' 0) t = (Inr (row, False), t\<lparr>ss_writes := Suc ?n, ss_db := db'\<rparr>)"
    using again write_t assms(1)
    by (simp add: store_def store_attempts_max_def numeral_eq_Suc run_store_attempts alone_def del: store_attempts.simps)
  have rest: "stays (same_row (spec_Name spec)) (do {
      redeploy sv (row_Name row); apply_events sv r' row False; wake sv; ret (Inr (row, False)) })"
    using store_get_Inr [OF row(1)] redeploy_same_row [of "row_Name row" sv]
    by (intro row.stays_bind apply_events_same_row wake_same_row row.stays_ret) simp
  have "store_get (spec_Name spec) db' = Inr row" using row(1) rows by (simp add: store_get_def)
  then show ?thesis
    using row(1,2) run assms(8) stores_row(1) [OF stores] service_resolve_Inr(1,2) [OF assms(3)]
      stays_final [OF rest, of "t\<lparr>ss_writes := Suc ?n, ss_db := db'\<rparr>"]
    by (simp add: Apply_def outcome_bind final_bind same_row_def outcome_def final_def split_beta)
qed

section \<open>Losing a port\<close>

text \<open>Without pinned ports, settling reads nothing of who holds a port.\<close>

lemma claimer_Resolve_unpinned:
  assumes "\<not> Pinned ms" "cl_Allocate c = cl_Allocate d" "cl_Allocated c = cl_Allocated d"
  shows "claimer_Resolve c w existing ms count = claimer_Resolve d w existing ms count"
proof -
  have "claimer_resolve c w held allocs m = claimer_resolve d w held allocs m"
    if "m \<in> set ms" for held allocs m
    using assms(1) that by (simp add: Pinned_iff claimer_resolve_def)
  then have "resolve_mappings c w held allocs i ms' = resolve_mappings d w held allocs i ms'"
    if "set ms' \<subseteq> set ms" for held allocs i ms'
    using that by (induction ms') (simp_all cong: sum.case_cong)
  then have "resolve_instances c w existing ms n t is = resolve_instances d w existing ms n t is" for n t "is"
    by (induction "is" arbitrary: n t) (simp_all add: claimer_allocate_def assms(2) cong: sum.case_cong)
  then show ?thesis by (simp add: claimer_Resolve_def assms(3) cong: sum.case_cong)
qed

lemma db_names_None: "wid \<notin> ids db \<Longrightarrow> db_names db wid = None"
  by (simp add: db_names_def map_of_eq_None_iff image_image)

lemma db_names_Some: "db_names db wid = Some n \<Longrightarrow> \<exists>w\<in>set (db_workloads db). row_ID w = wid \<and> row_Name w = n"
  by (auto simp: db_names_def dest!: map_of_SomeD)

lemma db_names_stored: "wid \<in> ids db \<Longrightarrow> db_names db wid \<noteq> None"
  by (auto simp: db_names_def map_of_eq_None_iff image_image)

text \<open>The names with the workload that is written, new or not.\<close>

lemma named_by_written:
  assumes "store_ok db" "write_row newid now w ifMatch db = Inr (stored, created, db1)" "newid \<notin> ids db"
  shows "named_by ((db_names db)(row_ID stored \<mapsto> row_Name w)) (db_ports db) (row_ID stored) (row_Name w)"
proof -
  have one: "v = row_ID stored" if v: "db_names db v = Some (row_Name w)" for v
  proof -
    obtain u where u: "u \<in> set (db_workloads db)" "row_ID u = v" "row_Name u = row_Name w"
      using db_names_Some [OF v] by blast
    then have "store_get (row_Name w) db = Inr u" using store_get_iff [OF assms(1)] by blast
    then show ?thesis
      using assms(2) u(2) by (auto simp: write_row_def store_update_def Let_def split: if_splits)
  qed
  have "\<forall>p\<in>set (db_ports db). db_names db (prt_WorkloadID p) \<noteq> None"
    using assms(1) db_names_stored unfolding store_ok_def by blast
  then show ?thesis using one by (auto simp: named_by_def)
qed

lemma write_row_not_taken: "write_row newid now w ifMatch db \<noteq> Inl (Store_ErrHostPortTaken h p)"
  by (auto simp: write_row_def store_get_def store_insert_def store_update_def Let_def
      split: sum.splits option.splits if_splits)

lemma store_link_not_taken: "store_link wid reads db \<noteq> Inl (Store_ErrHostPortTaken h p)"
  by (auto simp: store_link_def link_names_def split: sum.splits if_splits)

lemma held_written:
  assumes "store_ok db" "service_resolve sv db spec = Inr r" "newid \<notin> ids db"
    and "write_row newid now w ifMatch db = Inr (stored, created, db1)" "row_Name w = spec_Name spec"
  shows "res_held r = table_List (db_ports db) (row_ID stored)"
proof (cases "store_get (spec_Name spec) db")
  case (Inl e)
  then have "row_ID stored = newid"
    using assms(4,5) by (auto simp: write_row_def store_insert_def Let_def split: if_splits)
  moreover have "filter (\<lambda>p. prt_WorkloadID p = newid) (db_ports db) = []"
    using assms(1,3) by (auto simp: store_ok_def filter_empty_conv)
  ultimately show ?thesis
    using Inl service_resolve_Inr(2,3) [OF assms(2)] by (simp add: table_List_def)
next
  case (Inr old)
  then have "row_ID stored = row_ID old"
    using assms(4,5) by (auto simp: write_row_def store_update_def Let_def split: if_splits)
  then show ?thesis using Inr service_resolve_Inr(2,3) [OF assms(2)] by simp
qed

lemma stores_not_taken:
  assumes "store_ok db" "service_resolve sv db spec = Inr r" "\<not> Pinned (spec_Ports (res_spec r))"
    and "sv_allocate sv n = Allocate a draw avail" "sv_newid sv n \<notin> ids db"
    and "settle_claims sv r n db = Inr claims"
  shows "fst (stores sv r ifMatch n db claims encoded hash) \<noteq> Inl (Store_ErrHostPortTaken h p)"
proof (cases "write_row (sv_newid sv n) (sv_now sv n) (store_row r encoded hash) ifMatch db")
  case (Inl e)
  then show ?thesis using write_row_not_taken by (auto simp: stores_def Upsert_def)
next
  case (Inr b)
  obtain stored created db1 where b: "b = (stored, created, db1)" by (cases b)
  let ?ms = "spec_Ports (res_spec r)" and ?name = "spec_Name spec"
    and ?names = "(db_names db)(row_ID stored \<mapsto> spec_Name spec)"
  note known = service_resolve_Inr [OF assms(2)]
  have name: "row_Name (store_row r encoded hash) = ?name" using known(1) by (simp add: store_row_def)
  note row = Inr [unfolded b]
  have wf: "wf_spec (sv_parsers sv) (Defaults spec)" using known(4) by (simp add: ValidateWorkload_None)
  have valid: "valid_mappings ?ms" unfolding known(5) by (rule wf_ports_valid_mappings [OF wf_spec_ports [OF wf]])
  have "pins ?ms = {}" using assms(3) by (auto simp: Pinned_iff pins_def)
  then have self: "\<forall>i. 0 \<le> i \<and> i < spec_Count (res_spec r)
      \<longrightarrow> no_self_pin (heldClaims (table_List (db_ports db) (row_ID stored))) ?ms i"
    by (simp add: no_self_pin_def)
  have "claimer_Resolve (claimer_of sv n db) ?name (heldClaims (res_held r)) ?ms (spec_Count (res_spec r))
      = Inr claims"
    using assms(6) known(1) by (simp add: settle_claims_def Let_def)
  then have "claimer_Resolve (table_claimer (Allocate a draw avail) (sv_probe sv) ?names (db_ports db)) ?name
      (heldClaims (table_List (db_ports db) (row_ID stored))) ?ms (spec_Count (res_spec r)) = Inr claims"
    using claimer_Resolve_unpinned [OF assms(3), of "claimer_of sv n db"
        "table_claimer (Allocate a draw avail) (sv_probe sv) ?names (db_ports db)"]
      held_written [OF assms(1,2,5) row name] assms(4)
    by (simp add: claimer_of_def table_claimer_def)
  moreover have "table_ok (db_ports db)" using assms(1) by (simp add: store_ok_def)
  moreover have "named_by ?names (db_ports db) (row_ID stored) ?name"
    using named_by_written [OF assms(1) row assms(5)] unfolding name .
  ultimately obtain t where "table_Claim (row_ID stored) (allocations_rows claims []) (db_ports db) = (None, t)"
    using Resolve_Claim_fits [OF _ _ valid self] by blast
  then show ?thesis
    using row store_link_not_taken write_row_same [OF row]
    by (auto simp: stores_def Upsert_def split: sum.splits)
qed

text \<open>
  An apply loses a port only to somebody else. For a specification that pins no host port, while nobody
  else writes, storing it never fails with a host port being taken, and never writes twice: the first
  attempt decides, whatever the random draws and the probes of the host answer.
\<close>

lemma ports_lost_only_in_a_race:
  assumes "alone sv" "store_ok (ss_db s)" "service_resolve sv (ss_db s) spec = Inr r"
    and "\<not> Pinned (spec_Ports (res_spec r))"
    and "sv_allocate sv (ss_writes s) = Allocate a draw avail" "sv_newid sv (ss_writes s) \<notin> ids (ss_db s)"
  shows "outcome (store sv r ifMatch) s \<noteq> Inl Svc_ErrHostPortTaken
    \<and> ss_writes (final (store sv r ifMatch) s) \<le> ss_writes s + 1"
proof (cases "attempt_of sv r (ss_writes s) (ss_db s)")
  case (Inl e)
  then have "e \<noteq> Svc_ErrHostPortTaken" by (auto simp: attempt_of_def map_sum_eq_Inl split: sum.splits)
  then show ?thesis
    using Inl by (simp add: store_def store_attempts_max_def numeral_eq_Suc run_store_attempts outcome_def
        final_def del: store_attempts.simps)
next
  case (Inr x)
  obtain claims encoded hash where x: "x = (claims, encoded, hash)" by (cases x)
  have settled: "settle_claims sv r (ss_writes s) (ss_db s) = Inr claims"
    using Inr x by (auto simp: attempt_of_def map_sum_eq_Inr split: sum.splits)
  obtain answer db' where stores: "stores sv r ifMatch (ss_writes s) (ss_db s) claims encoded hash = (answer, db')"
    by force
  have "answer \<noteq> Inl (Store_ErrHostPortTaken h p)" for h p
    using stores_not_taken [OF assms(2-6) settled] stores by (metis fst_conv)
  then show ?thesis
    using Inr x stores assms(1)
    by (cases answer; cases "projl answer")
      (simp_all add: store_def store_attempts_max_def numeral_eq_Suc run_store_attempts outcome_def final_def
        alone_def Let_def del: store_attempts.simps)
qed

section \<open>Pinning a port of one's own\<close>

lemma heldClaims_distinct:
  assumes "table_ok t"
  shows "distinct (map (\<lambda>d. (clm_Instance d, claim_key d)) (heldClaims (table_List t wid)))"
proof -
  have rows: "p = q" if "p \<in> set t" "q \<in> set t" "row_key p = row_key q" for p q
    using assms that by (simp add: table_ok_def distinct_map inj_on_def)
  have "distinct t" using assms by (simp add: table_ok_def distinct_map)
  then have "distinct (table_List t wid)" by (simp add: table_List_def)
  moreover have "inj_on (\<lambda>p. (clm_Instance (row_claim p), claim_key (row_claim p))) (set (table_List t wid))"
    by (rule inj_onI) (auto simp: table_List_set row_claim_def row_key_def intro!: rows)
  ultimately show ?thesis by (simp add: heldClaims_def distinct_map o_def)
qed

text \<open>A dynamic mapping keeps its port, and a pin of that port adds a second claim of it.\<close>

lemma self_pin_claims:
  assumes "table_ok t" "q \<in> set (table_List t wid)" "prt_Instance q = 0" "prt_Dynamic q"
    and "m \<in> set ms" "port_From m = 0" "port_To m = prt_Container q" "protocolOf m = prt_Protocol q"
    and "p \<in> set ms" "port_From p = prt_Host q" "prt_Host q \<noteq> 0" "protocolOf p = prt_Protocol q"
    and "claimer_Resolve c w (heldClaims (table_List t wid)) ms count = Inr claims" "1 \<le> count"
  shows "\<not> distinct (map row_host (allocations_rows claims []))"
proof -
  let ?held = "heldClaims (table_List t wid)"
  obtain n t' where "resolve_instances c w ?held ms n t' [0..count - 1] = Inr claims"
    using assms(13) by (auto simp: claimer_Resolve_def split: if_splits sum.splits)
  then obtain allocs where claimed: "\<forall>m\<in>set ms. claim_for (heldBy ?held 0) allocs 0 m \<in> set claims"
    using resolve_instances_claims claims_of_first [OF _ assms(14)] by metis
  have "row_claim q \<in> set ?held" using assms(2) by (simp add: heldClaims_def)
  from heldBy_unique [OF heldClaims_distinct [OF assms(1)] refl this]
  have "kept (heldBy ?held 0) m = Some (row_claim q)"
    using assms(3,4,7,8) by (simp add: kept_def row_claim_def)
  then have "host_of (heldBy ?held 0) allocs m = prt_Host q"
    using assms(6) by (simp add: host_of_def row_claim_def)
  moreover have "host_of (heldBy ?held 0) allocs p = prt_Host q" using assms(10,11) by (simp add: host_of_def)
  ultimately have same: "clm_Host (claim_for (heldBy ?held 0) allocs 0 m) = clm_Host (claim_for (heldBy ?held 0) allocs 0 p)"
    "clm_Protocol (claim_for (heldBy ?held 0) allocs 0 m) = clm_Protocol (claim_for (heldBy ?held 0) allocs 0 p)"
    using assms(8,12) by simp_all
  have "clm_Dynamic (claim_for (heldBy ?held 0) allocs 0 m) \<noteq> clm_Dynamic (claim_for (heldBy ?held 0) allocs 0 p)"
    using assms(6,10,11) by simp
  then have apart: "claim_for (heldBy ?held 0) allocs 0 m \<noteq> claim_for (heldBy ?held 0) allocs 0 p" by (rule contrapos_nn) simp
  have "\<not> inj_on (\<lambda>d. (clm_Host d, clm_Protocol d)) (set claims)"
  proof
    assume "inj_on (\<lambda>d. (clm_Host d, clm_Protocol d)) (set claims)"
    from inj_onD [OF this _ claimed [rule_format, OF assms(5)] claimed [rule_format, OF assms(9)]] same apart
    show False by simp
  qed
  then show ?thesis by (simp add: allocations_rows_def claim_row_def row_host_def distinct_map o_def inj_on_def)
qed

lemma table_Claim_collides:
  assumes "table_ok t" "\<not> distinct (map row_host ps)"
  shows "\<exists>h p. table_Claim wid ps t = (Some (Tbl_ErrHostPortTaken h p), t)"
proof (cases "insert_ports wid ps (table_Release wid t)")
  case (Inl e)
  then show ?thesis by (cases e) (simp add: table_Claim_def)
next
  case (Inr t')
  have "table_ok (table_Release wid t)" using assms(1) by (simp add: table_ok_def table_Release_def distinct_map_filter)
  from insert_ports_ok [OF Inr this] have "distinct (map row_host (map (\<lambda>p. p\<lparr>prt_WorkloadID := wid\<rparr>) ps))"
    by (auto simp: table_ok_def)
  then show ?thesis using assms(2) by (simp add: o_def row_host_def [abs_def])
qed

text \<open>
  C40. A workload cannot pin a port it already holds. When a stored workload was given a host port for a mapping that
  leaves its port open, and a specification keeps that mapping and pins the same port for another one of that
  protocol, every apply of it fails and leaves the database as it was, while no other request writes. When nothing else
  refuses the apply, so that every mapping was settled and the hash computed, it fails as a host port taken:
  both mappings were settled on that port, and the table refuses the workload's own second claim.
\<close>

theorem self_pin_collides:
  assumes "alone sv" "store_ok (ss_db s)" "store_get (spec_Name spec) (ss_db s) = Inr row"
    and "q \<in> set (table_List (db_ports (ss_db s)) (row_ID row))" "prt_Instance q = 0" "prt_Dynamic q"
    and "m \<in> set (spec_Ports (Defaults spec))" "port_From m = 0" "port_To m = prt_Container q" "protocolOf m = prt_Protocol q"
    and "p \<in> set (spec_Ports (Defaults spec))" "port_From p = prt_Host q" "prt_Host q \<noteq> 0" "protocolOf p = prt_Protocol q"
  shows "isl (outcome (Apply sv spec ifMatch) s) \<and> ss_db (final (Apply sv spec ifMatch) s) = ss_db s
    \<and> (case service_resolve sv (ss_db s) spec of Inl e \<Rightarrow> True
       | Inr r \<Rightarrow> ifMatch = 0 \<and> \<not> isl (attempt_of sv r (ss_writes s) (ss_db s))
           \<longrightarrow> outcome (Apply sv spec ifMatch) s = Inl Svc_ErrHostPortTaken)"
proof (cases "service_resolve sv (ss_db s) spec")
  case (Inl e)
  then show ?thesis by (simp add: Apply_def outcome_def final_def run_state_bind)
next
  case (Inr r)
  note known = service_resolve_Inr [OF Inr]
  let ?n = "ss_writes s" and ?db = "ss_db s"
  have wf: "wf_spec (sv_parsers sv) (Defaults spec)" using known(4) by (simp add: ValidateWorkload_None)
  have count: "1 \<le> spec_Count (res_spec r)" unfolding known(6) using wf by (simp add: wf_spec_def wf_common_def)
  have row: "res_existing r = Some row" "res_held r = table_List (db_ports ?db) (row_ID row)"
    using known(2,3) assms(3) by simp_all
  have live: "IsZero (row_DeletedAt row)" by (rule service_resolve_spec(3) [OF Inr row(1)])
  have pinned: "Pinned (spec_Ports (res_spec r))"
    using assms(11-13) unfolding known(5) by (auto simp: Pinned_iff intro!: bexI [of _ p])
  show ?thesis
  proof (cases "attempt_of sv r ?n ?db")
    case (Inl e)
    then have "run_state (store sv r ifMatch) s = (Inl e, s)"
      by (simp add: store_def store_attempts_max_def numeral_eq_Suc run_store_attempts del: store_attempts.simps)
    then show ?thesis using Inr Inl by (simp add: Apply_def outcome_def final_def run_state_bind)
  next
    case att: (Inr x)
    obtain claims encoded hash where x: "x = (claims, encoded, hash)" by (cases x)
    have settled: "claimer_Resolve (claimer_of sv ?n ?db) (spec_Name spec) (heldClaims (table_List (db_ports ?db) (row_ID row)))
        (spec_Ports (Defaults spec)) (spec_Count (res_spec r)) = Inr claims"
      using att x known(1,5) row(2) by (auto simp: attempt_of_def map_sum_eq_Inr settle_claims_def Let_def split: sum.splits)
    have tables: "table_ok (db_ports ?db)" using assms(2) by (simp add: store_ok_def)
    have twice: "\<not> distinct (map row_host (allocations_rows claims []))"
      by (rule self_pin_claims [OF tables assms(4-14) settled count])
    let ?w = "store_row r encoded hash"
    have name: "row_Name ?w = spec_Name spec" using known(1) by (simp add: store_row_def)
    obtain answer where stores: "stores sv r ifMatch ?n ?db claims encoded hash = (Inl answer, ?db)"
      "ifMatch = 0 \<Longrightarrow> \<exists>h p. answer = Store_ErrHostPortTaken h p"
    proof (cases "write_row (sv_newid sv ?n) (sv_now sv ?n) ?w ifMatch ?db")
      case (Inl e)
      have "ifMatch \<noteq> 0" using Inl assms(3) name live
        by (auto simp: write_row_def store_update_def Let_def split: if_splits)
      then show ?thesis using Inl that [of e] by (simp add: stores_def Upsert_def)
    next
      case (Inr b)
      obtain stored created db1 where b: "b = (stored, created, db1)" by (cases b)
      have "db_ports db1 = db_ports ?db" using write_row_same [OF Inr [unfolded b]] by simp
      then obtain h p where "table_Claim (row_ID stored) (allocations_rows claims []) (db_ports db1) = (Some (Tbl_ErrHostPortTaken h p), db_ports db1)"
        using table_Claim_collides [OF tables twice] by metis
      then show ?thesis using Inr b that [of "Store_ErrHostPortTaken h p"] by (simp add: stores_def Upsert_def)
    qed
    have "isl (outcome (store sv r ifMatch) s) \<and> ss_db (final (store sv r ifMatch) s) = ?db
        \<and> (ifMatch = 0 \<longrightarrow> outcome (store sv r ifMatch) s = Inl Svc_ErrHostPortTaken)"
      using att x stores assms(1) pinned
      by (cases answer) (auto simp add: store_def store_attempts_max_def numeral_eq_Suc run_store_attempts outcome_def
          final_def alone_def Let_def simp del: store_attempts.simps)
    note result = this
    obtain a s' where run: "run_state (store sv r ifMatch) s = (a, s')" by force
    obtain e where e: "a = Inl e" "ss_db s' = ?db" "ifMatch = 0 \<longrightarrow> e = Svc_ErrHostPortTaken"
      using result unfolding outcome_def final_def run by (cases a) auto
    have "run_state (Apply sv spec ifMatch) s = (Inl e, s')"
      using Inr run e(1) by (simp add: Apply_def run_state_bind)
    note apply_run = this
    show ?thesis unfolding outcome_def final_def apply_run using Inr e by simp
  qed
qed

text \<open>The example workload, applied and then applied again with its second port pinned to the port of its first.\<close>

definition example_pinned :: Spec where
  "example_pinned = example_web\<lparr>spec_Ports := [example_port 80 0, example_port 443 20000]\<rparr>"

theorem self_pin_collides_witness:
  "let s = final (Apply example_service example_web 0) example_state
   in outcome (Apply example_service example_pinned 0) s = Inl Svc_ErrHostPortTaken
     \<and> ss_db (final (Apply example_service example_pinned 0) s) = ss_db s"
proof -
  let ?s = "final (Apply example_service example_web 0) example_state"
  let ?q = "\<lparr>prt_WorkloadID = [], prt_Instance = 0, prt_Name = [], prt_Container = 80, prt_Host = 20000,
    prt_Protocol = ProtocolTCP, prt_Dynamic = True\<rparr>"
  have "others_ok example_service" by (simp add: others_ok_def example_service_def)
  then have ok: "store_ok (ss_db ?s)"
    using stays_final [OF consistent_Apply, of example_service example_state example_web 0]
    store_ok_empty by (simp add: keeps_ok_def example_state_def)
  have row: "store_get (spec_Name example_pinned) (ss_db ?s) = Inr example_applied" by code_simp
  have q: "?q \<in> set (table_List (db_ports (ss_db ?s)) (row_ID example_applied))" by code_simp
  have ports: "spec_Ports (Defaults example_pinned) = [example_port 80 0, example_port 443 20000]" by code_simp
  have settled: "case service_resolve example_service (ss_db ?s) example_pinned of Inl e \<Rightarrow> False
    | Inr r \<Rightarrow> \<not> isl (attempt_of example_service r (ss_writes ?s) (ss_db ?s))"
    by code_simp
  show ?thesis
    using self_pin_collides [OF example_alone ok row q, where m = "example_port 80 0" and p = "example_port 443 20000" and ifMatch = 0]
      settled
    by (simp add: Let_def ports example_port_def protocolOf_def split: sum.splits)
qed

end
