(* ===== verification/Workload_Rehash.thy ===== *)
theory Workload_Rehash
  imports Workload_Apply
begin

text \<open>
  What the operations of the workload service do together: the requests as steps of a transition system,
  under which the tables stay consistent and no change of the database goes unnoticed by the reconciler;
  and what rehashing a workload leaves alone.
\<close>

section \<open>Requests\<close>

inductive service_step :: "service \<Rightarrow> service_state \<Rightarrow> service_state \<Rightarrow> bool" where
  request_apply: "service_step sv s (final (Apply sv spec ifMatch) s)"
| request_rehash: "service_step sv s (final (rehashAll sv name reason ws) s)"
| request_reallocate: "service_step sv s (final (Reallocate sv name) s)"
| request_reallocate_instance: "service_step sv s (final (ReallocateInstance sv name i) s)"
| request_drift: "service_step sv s (final (Drift sv) s)"
| request_delete: "service_step sv s (final (Delete sv name force) s)"
| request_stop: "service_step sv s (final (Stop sv name) s)"
| request_start: "service_step sv s (final (Start sv name) s)"
| request_restart: "service_step sv s (final (svc_Restart sv name) s)"

inductive service_reaches :: "service \<Rightarrow> service_state \<Rightarrow> service_state \<Rightarrow> bool" where
  served_nothing: "service_reaches sv s s"
| served: "service_reaches sv s t \<Longrightarrow> service_step sv t u \<Longrightarrow> service_reaches sv s u"

section \<open>Waking the reconciler\<close>

text \<open>
  \<open>quieter\<close>: wakes are never taken back. \<open>noticed\<close>: a change of the database comes with one. \<open>woken\<close>: an
  operation that wakes whatever else it does.
\<close>

definition quieter :: "service_state \<Rightarrow> service_state \<Rightarrow> bool" where
  "quieter s t \<longleftrightarrow> ss_wakes s \<le> ss_wakes t"

definition noticed :: "service_state \<Rightarrow> service_state \<Rightarrow> bool" where
  "noticed s t \<longleftrightarrow> ss_wakes s \<le> ss_wakes t \<and> (ss_db s \<noteq> ss_db t \<longrightarrow> ss_wakes s < ss_wakes t)"

definition woken :: "service_state \<Rightarrow> service_state \<Rightarrow> bool" where
  "woken s t \<longleftrightarrow> ss_wakes s < ss_wakes t"

interpretation quiet: frame quieter
  by unfold_locales (auto simp: quieter_def)

interpretation notice: frame noticed
  by unfold_locales (auto simp: noticed_def)

lemma stays_weaken: "stays R m \<Longrightarrow> (\<And>s t. R s t \<Longrightarrow> Q s t) \<Longrightarrow> stays Q m"
  by (simp add: stays_def)

lemma noticed_quieter: "stays noticed m \<Longrightarrow> stays quieter m"
  by (erule stays_weaken) (simp add: noticed_def quieter_def)

lemma woken_noticed: "stays woken m \<Longrightarrow> stays noticed m"
  by (erule stays_weaken) (simp add: noticed_def woken_def)

lemma woken_then: "stays quieter m \<Longrightarrow> (\<And>a. stays woken (f a)) \<Longrightarrow> stays woken (State_Monad.bind m f)"
  unfolding stays_def final_bind woken_def quieter_def by (meson order_le_less_trans)

lemma woken_first: "stays woken m \<Longrightarrow> (\<And>a. stays quieter (f a)) \<Longrightarrow> stays woken (State_Monad.bind m f)"
  unfolding stays_def final_bind woken_def quieter_def by (meson order_less_le_trans)

text \<open>A change that is answered by a wake, whatever the answer of the change decides.\<close>

lemma noticed_bind:
  assumes "stays quieter m"
    and "\<And>s. ss_db (final m s) = ss_db s \<and> stays noticed (f (outcome m s)) \<or> stays woken (f (outcome m s))"
  shows "stays noticed (State_Monad.bind m f)"
  unfolding stays_def
proof
  fix s
  have "ss_wakes s \<le> ss_wakes (final m s)" using assms(1) by (simp add: stays_def quieter_def)
  moreover have "ss_db (final m s) = ss_db s \<and> noticed (final m s) (final (f (outcome m s)) (final m s))
      \<or> woken (final m s) (final (f (outcome m s)) (final m s))"
    using assms(2) [of s] by (auto simp: stays_def)
  ultimately show "noticed s (final (State_Monad.bind m f) s)"
    unfolding final_bind noticed_def woken_def by auto
qed

lemma quiet_modify: "(\<And>s. ss_wakes (f s) = ss_wakes s) \<Longrightarrow> stays quieter (modify f)"
  by (rule quiet.stays_modify) (simp add: quieter_def)

lemma silent_modify: "(\<And>s. ss_wakes (f s) = ss_wakes s \<and> ss_db (f s) = ss_db s) \<Longrightarrow> stays noticed (modify f)"
  by (rule notice.stays_modify) (simp add: noticed_def)

lemma woken_wake: "sv_reconciler sv \<Longrightarrow> stays woken (wake sv)"
  by (simp add: wake_def stays_def woken_def)

lemma quiet_wake: "stays quieter (wake sv)"
  unfolding wake_def by (intro quiet.stays_if quiet.stays_ret quiet.stays_modify) (simp add: quieter_def)

lemma noticed_wake: "stays noticed (wake sv)"
  unfolding wake_def by (intro notice.stays_if notice.stays_ret notice.stays_modify) (simp add: noticed_def)

lemma noticed_record: "stays noticed (svc_record name reason fs)"
  unfolding svc_record_def by (rule silent_modify) simp

lemma quiet_with_db: "stays quieter (with_db f)"
  by (simp add: stays_def final_def run_with_db quieter_def)

lemma noticed_next_write: "stays noticed next_write"
  by (simp add: stays_def final_def run_next_write noticed_def)

lemma quiet_upsert: "stays quieter (upsert sv w reads ifMatch ports)"
  by (simp add: stays_def final_def run_upsert quieter_def Let_def)

lemma upsert_failed:
  "outcome (upsert sv w reads ifMatch ports) s = Inl e \<Longrightarrow>
     ss_db (final (upsert sv w reads ifMatch ports) s) = ss_db s"
  using Upsert_Inl by (simp add: outcome_def final_def run_upsert Let_def) (metis prod.collapse)

lemma noticed_rehash: "sv_reconciler sv \<Longrightarrow> stays noticed (rehash sv row read hash)"
  unfolding rehash_def
  by (intro notice.stays_bind notice.stays_gets noticed_bind quiet_upsert)
    (auto simp: notice.stays_ret upsert_failed intro!: woken_first woken_wake quiet.stays_ret
       split: sum.split)

lemma noticed_Rehash: "sv_reconciler sv \<Longrightarrow> stays noticed (Rehash sv w)"
  unfolding Rehash_def by (intro notice.stays_rules noticed_wake noticed_rehash)

lemma noticed_bool: "stays noticed m \<Longrightarrow> stays noticed n \<Longrightarrow> stays noticed (case_bool m n b)"
  by (cases b) simp_all

lemma noticed_rehashAll: "sv_reconciler sv \<Longrightarrow> stays noticed (rehashAll sv name reason ws)"
proof (induction ws)
  case (Cons w ws)
  show ?case
    unfolding rehashAll.simps
    by (intro notice.stays_rules noticed_bool noticed_Rehash noticed_record Cons)
qed (simp add: notice.stays_ret)

lemma noticed_redeploy: "sv_reconciler sv \<Longrightarrow> stays noticed (redeploy sv name)"
  unfolding redeploy_def by (intro notice.stays_rules noticed_rehashAll)

lemma noticed_apply_events: "stays noticed (apply_events sv r stored created)"
  unfolding apply_events_def by (intro notice.stays_rules noticed_record)

section \<open>Every request\<close>

lemma alone_others: "alone sv \<Longrightarrow> modify (\<lambda>s. s\<lparr>ss_db := sv_others sv n (ss_db s)\<rparr>) = modify (\<lambda>s. s)"
  by (simp add: alone_def)

lemma quiet_case_error:
  assumes "stays quieter m1" "stays quieter m2" "stays quieter m3" "stays quieter m4"
    and "\<And>h p. stays quieter (f h p)" "\<And>x. stays quieter (g x)"
  shows "stays quieter (case_store_error m1 m2 m3 m4 f g e)"
  using assms by (cases e) simp_all

lemma quiet_store_attempts: "alone sv \<Longrightarrow> stays quieter (store_attempts sv r ifMatch k)"
proof (induction k)
  case (Suc k)
  show ?case
    unfolding store_attempts.simps alone_others [OF Suc.prems]
    by (intro quiet.stays_rules quiet_upsert quiet_modify quiet_case_error Suc) (rule refl)
qed (simp add: quiet.stays_ret)

lemma store_failed:
  "alone sv \<Longrightarrow> outcome (store_attempts sv r ifMatch k) s = Inl e \<Longrightarrow>
     ss_db (final (store_attempts sv r ifMatch k) s) = ss_db s"
proof (induction k arbitrary: s)
  case (Suc k)
  let ?n = "ss_writes s"
  show ?case
  proof (cases "attempt_of sv r ?n (ss_db s)")
    case (Inl e')
    then show ?thesis by (simp add: final_def run_store_attempts del: store_attempts.simps)
  next
    case (Inr a)
    then obtain claims encoded hash where a: "attempt_of sv r ?n (ss_db s) = Inr (claims, encoded, hash)"
      by (cases a) auto
    obtain answer db' where stores: "stores sv r ifMatch ?n (ss_db s) claims encoded hash = (answer, db')"
      by force
    have others: "sv_others sv ?n (ss_db s) = ss_db s" using Suc.prems(1) by (simp add: alone_def)
    have same: "db' = ss_db s" if "answer = Inl e'" for e'
      using stores that Upsert_Inl unfolding stores_def by metis
    have run: "run_state (store_attempts sv r ifMatch (Suc k)) s = (case answer of
          Inr stored \<Rightarrow> (Inr stored, s\<lparr>ss_writes := Suc ?n, ss_db := db'\<rparr>)
        | Inl ErrWorkloadDeleting \<Rightarrow> (Inl Svc_ErrWorkloadDeleting, s\<lparr>ss_writes := Suc ?n, ss_db := db'\<rparr>)
        | Inl ErrWorkloadChanged \<Rightarrow> (Inl Svc_ErrWorkloadChanged, s\<lparr>ss_writes := Suc ?n, ss_db := db'\<rparr>)
        | Inl ErrWorkloadNotFound \<Rightarrow> (Inl Svc_ErrWorkloadChanged, s\<lparr>ss_writes := Suc ?n, ss_db := db'\<rparr>)
        | Inl (Store_ErrHostPortTaken h p) \<Rightarrow>
            if Pinned (spec_Ports (res_spec r)) then (Inl Svc_ErrHostPortTaken, s\<lparr>ss_writes := Suc ?n, ss_db := db'\<rparr>)
            else run_state (store_attempts sv r ifMatch k) (s\<lparr>ss_writes := Suc ?n, ss_db := db'\<rparr>)
        | Inl e \<Rightarrow> (Inl (Svc_Store e), s\<lparr>ss_writes := Suc ?n, ss_db := db'\<rparr>))"
      by (simp only: run_store_attempts a others stores sum.case prod.case Let_def)
    show ?thesis
    proof (cases answer)
      case (Inl e')
      then show ?thesis
        using run Suc.prems same [OF Inl] Suc.IH [OF Suc.prems(1), of "s\<lparr>ss_writes := Suc ?n\<rparr>"]
        by (cases e') (auto simp: outcome_def final_def simp del: store_attempts.simps split: if_splits)
    next
      case (Inr b)
      then show ?thesis using run Suc.prems(2) by (simp add: outcome_def del: store_attempts.simps)
    qed
  qed
qed simp

lemma noticed_Apply:
  assumes "alone sv" "sv_reconciler sv"
  shows "stays noticed (Apply sv spec ifMatch)"
proof -
  have rest: "stays woken (do { redeploy sv (row_Name stored); apply_events sv r stored created; wake sv;
      ret (Inr (stored, created)) })" for r stored created
    by (intro woken_then noticed_quieter [OF noticed_redeploy [OF assms(2)]] noticed_quieter [OF noticed_apply_events]
        woken_first woken_wake assms quiet.stays_ret)
  show ?thesis
    unfolding Apply_def store_def
    by (intro notice.stays_rules noticed_bind quiet_store_attempts assms)
      (auto simp: store_failed [OF assms(1)] notice.stays_ret rest split: sum.split)
qed

lemma wake_answer: "sv_reconciler sv \<Longrightarrow> stays woken (do { wake sv; ret a })"
  by (intro woken_first woken_wake quiet.stays_ret)

lemma noticed_store_moved:
  assumes "sv_reconciler sv"
  shows "stays noticed (store_moved sv row spec claims)"
proof -
  have rest: "stays woken (do { redeploy sv name; wake sv; ret a })" for name and a :: "service_error + bool"
    by (intro woken_then noticed_quieter [OF noticed_redeploy [OF assms]] wake_answer assms)
  show ?thesis
    unfolding store_moved_def
    by (intro notice.stays_rules noticed_bind quiet_upsert)
      (auto simp: upsert_failed notice.stays_ret rest split: sum.split)
qed

lemma noticed_Reallocate: "sv_reconciler sv \<Longrightarrow> stays noticed (Reallocate sv name)"
  unfolding Reallocate_def by (intro notice.stays_rules noticed_store_moved)

lemma noticed_with_db:
  assumes "\<And>db. snd (f db) = db \<and> stays noticed (k (fst (f db))) \<or> stays woken (k (fst (f db)))"
  shows "stays noticed (State_Monad.bind (with_db f) k)"
  using assms by (intro noticed_bind quiet_with_db) (simp add: outcome_def final_def run_with_db)

lemma store_claim_failed: "store_claim wid ports db = (Some e, db') \<Longrightarrow> db' = db"
  by (auto simp: store_claim_def split: if_splits prod.splits option.splits table_error.splits)

lemma noticed_ReallocateInstance:
  assumes "sv_reconciler sv"
  shows "stays noticed (ReallocateInstance sv name i)"
proof -
  have tail: "stays noticed (do { err \<leftarrow> with_db (store_claim wid ports);
      case err of Some e \<Rightarrow> ret (Inl (Svc_Store e)) | None \<Rightarrow> do { wake sv; ret (Inr True) } })"
    for wid ports
  proof (rule noticed_with_db)
    fix db
    let ?c = "store_claim wid ports db"
    show "snd ?c = db \<and> stays noticed (case fst ?c of
        Some e \<Rightarrow> ret (Inl (Svc_Store e)) | None \<Rightarrow> do { wake sv; ret (Inr True) })
      \<or> stays woken (case fst ?c of
        Some e \<Rightarrow> ret (Inl (Svc_Store e)) | None \<Rightarrow> do { wake sv; ret (Inr True) })"
      using store_claim_failed by (cases ?c; cases "fst ?c") (auto simp: notice.stays_ret wake_answer [OF assms])
  qed
  show ?thesis
    unfolding ReallocateInstance_def
    by (intro tail notice.stays_rules noticed_Reallocate noticed_next_write assms)
qed

lemma noticed_Drift:
  assumes "sv_reconciler sv"
  shows "stays noticed (Drift sv)"
proof -
  have row: "stays noticed (drift_row sv row)" for row
    unfolding drift_row_def by (intro notice.stays_rules noticed_record noticed_rehash assms)
  have "stays noticed (drift_rows sv rows)" for rows
    by (induction rows) (simp_all add: notice.stays_ret, intro notice.stays_rules row)
  then show ?thesis
    unfolding Drift_def by (intro notice.stays_rules silent_modify) simp_all
qed

lemma MarkDeleting_failed: "MarkDeleting now name force db = (Inl e, referencing, db') \<Longrightarrow> db' = db"
  by (auto simp: MarkDeleting_def Let_def split: sum.splits if_splits)

lemma noticed_Delete:
  assumes "sv_reconciler sv"
  shows "stays noticed (Delete sv name force)"
proof -
  have rest: "stays woken (do { rehashAll sv name AddressRemoved ws; svc_record name Deleted no_fields;
      wake sv; ret a })" for ws and a :: "service_error + database_Workload"
    by (intro woken_then noticed_quieter [OF noticed_rehashAll [OF assms]] noticed_quieter [OF noticed_record]
        wake_answer assms)
  show ?thesis
    unfolding Delete_def
  proof (rule notice.stays_bind [OF noticed_next_write], rule noticed_with_db)
    fix n db
    let ?m = "MarkDeleting (sv_now sv n) name force db"
    obtain answer referencing db' where m: "?m = (answer, referencing, db')" by (cases ?m)
    show "snd (case ?m of (a, b, c) \<Rightarrow> ((a, b), c)) = db \<and> stays noticed
        (case fst (case ?m of (a, b, c) \<Rightarrow> ((a, b), c)) of (answer, referencing) \<Rightarrow> case answer of
          Inl ErrWorkloadNotFound \<Rightarrow> ret (Inl (Svc_ErrWorkloadNotFound [name]))
        | Inl ErrWorkloadReferenced \<Rightarrow> ret (Inl (ErrWorkloadInUse referencing))
        | Inl e \<Rightarrow> ret (Inl (Svc_Store e))
        | Inr marked \<Rightarrow> do { rehashAll sv name AddressRemoved referencing; svc_record name Deleted no_fields;
            wake sv; ret (Inr marked) })
      \<or> stays woken
        (case fst (case ?m of (a, b, c) \<Rightarrow> ((a, b), c)) of (answer, referencing) \<Rightarrow> case answer of
          Inl ErrWorkloadNotFound \<Rightarrow> ret (Inl (Svc_ErrWorkloadNotFound [name]))
        | Inl ErrWorkloadReferenced \<Rightarrow> ret (Inl (ErrWorkloadInUse referencing))
        | Inl e \<Rightarrow> ret (Inl (Svc_Store e))
        | Inr marked \<Rightarrow> do { rehashAll sv name AddressRemoved referencing; svc_record name Deleted no_fields;
            wake sv; ret (Inr marked) })"
      using m MarkDeleting_failed [of "sv_now sv n" name force db] rest
      by (cases answer) (auto simp: notice.stays_ret split: store_error.split)
  qed
qed

lemma noticed_load_live: "stays noticed (load_live name)"
  unfolding load_live_def by (rule notice.stays_gets)

lemma noticed_mark:
  assumes "sv_reconciler sv" "\<And>db e. fst (f db) = Inl e \<Longrightarrow> snd (f db) = db" "stays quieter m"
  shows "stays noticed (do { answer \<leftarrow> with_db f;
    case answer of Inl e \<Rightarrow> ret (Inl (Svc_Store e) :: service_error + 'a) | Inr marked \<Rightarrow> do { m; wake sv; ret (Inr marked) } })"
proof (rule noticed_with_db)
  have rest: "stays woken (do { m; wake sv; ret (Inr b :: service_error + 'a) })" for b
    by (intro woken_then assms(3) wake_answer assms(1))
  fix db
  show "snd (f db) = db \<and> stays noticed (case fst (f db) of
      Inl e \<Rightarrow> ret (Inl (Svc_Store e)) | Inr marked \<Rightarrow> do { m; wake sv; ret (Inr marked) })
    \<or> stays woken (case fst (f db) of
      Inl e \<Rightarrow> ret (Inl (Svc_Store e)) | Inr marked \<Rightarrow> do { m; wake sv; ret (Inr marked) })"
    using assms(2) [of db] rest by (cases "fst (f db)") (simp_all add: notice.stays_ret)
qed

lemma quiet_record_if: "stays quieter (if b then svc_record name reason fs else ret ())"
  by (intro quiet.stays_if quiet.stays_ret noticed_quieter noticed_record)

lemma store_Suspend_failed: "fst (store_Suspend now name db) = Inl e \<Longrightarrow> snd (store_Suspend now name db) = db"
  by (simp add: store_Suspend_def split: sum.splits if_splits)

lemma noticed_Stop: "sv_reconciler sv \<Longrightarrow> stays noticed (Stop sv name)"
  unfolding Stop_def
  by (rule notice.stays_bind [OF noticed_load_live], rule notice.stays_sum [OF notice.stays_ret],
      rule notice.stays_bind [OF noticed_next_write], rule noticed_mark [OF _ _ quiet_record_if])
    (simp_all add: store_Suspend_failed)

lemma store_Resume_failed: "fst (store_Resume now name db) = Inl e \<Longrightarrow> snd (store_Resume now name db) = db"
  by (simp add: store_Resume_def split: sum.splits if_splits)

lemma noticed_Start: "sv_reconciler sv \<Longrightarrow> stays noticed (Start sv name)"
  unfolding Start_def
  by (rule notice.stays_bind [OF noticed_load_live], rule notice.stays_sum [OF notice.stays_ret],
      rule notice.stays_bind [OF noticed_next_write], rule noticed_mark [OF _ _ quiet_record_if])
    (simp_all add: store_Resume_failed)

lemma noticed_Restart: "stays noticed (svc_Restart sv name)"
  unfolding svc_Restart_def
  by (intro notice.stays_rules noticed_load_live noticed_wake silent_modify) simp

lemma service_step_noticed:
  "service_step sv s t \<Longrightarrow> alone sv \<Longrightarrow> sv_reconciler sv \<Longrightarrow> noticed s t"
  by (induction rule: service_step.induct)
    (rule stays_final, rule noticed_Apply noticed_rehashAll noticed_Reallocate noticed_ReallocateInstance
       noticed_Drift noticed_Delete noticed_Stop noticed_Start noticed_Restart; assumption)+

lemma service_step_consistent: "service_step sv s t \<Longrightarrow> others_ok sv \<Longrightarrow> keeps_ok s t"
  by (induction rule: service_step.induct)
    (rule stays_final, rule consistent_Apply consistent_rehashAll consistent_Reallocate
       consistent_ReallocateInstance consistent_Drift consistent_Delete consistent_Stop consistent_Start
       consistent_Restart; assumption)+

section \<open>What rehashing leaves alone\<close>

text \<open>Only the revisions read of the secrets depend on the store of the secrets.\<close>

lemma with_secrets [simp]:
  "contents (sv\<lparr>sv_secrets := f\<rparr>) = contents sv"
  "resolveDigest (sv\<lparr>sv_secrets := f\<rparr>) = resolveDigest sv"
  by (intro ext; simp add: contents_def resolveDigest_def cong: option.case_cong if_cong)+

lemma resolve_addresses_secrets [simp]:
  "resolve_addresses (sv\<lparr>sv_secrets := f\<rparr>) db reader rs = resolve_addresses sv db reader rs"
  by (induction rs) (simp_all cong: option.case_cong sum.case_cong)

lemma read_names_simps:
  "f names = Inr after \<Longrightarrow> read_names (Some f) e names = Inr (if names = [] then [] else after)"
  "read_names source e [] = Inr []"
  by (simp_all add: read_names_def)

lemma resolveReferences_secrets:
  assumes "resolveReferences sv db spec = Inr read" "f (rf_secrets read) = Inr after"
  shows "resolveReferences (sv\<lparr>sv_secrets := Some f\<rparr>) db spec
    = Inr (if rf_secrets read = [] then read else read\<lparr>rf_revisions := after\<rparr>)"
proof -
  obtain cs found refreshed where "contents sv spec = Inr cs" "ReferencesIn spec cs = Inr found"
    "RefreshedIn spec cs = Inr refreshed"
    using assms(1) by (auto simp: resolveReferences_def split: sum.splits)
  then show ?thesis
    using assms unfolding resolveReferences_def
    by (auto simp: read_names_simps split: sum.splits prod.splits)
qed

lemma recompute_rotated:
  assumes "recompute sv db spec digest = Inr (read, hash)" "f (rf_secrets read) = Inr after"
    and "without (refreshed_keys KindSecret (rf_refreshed read)) after
      = without (refreshed_keys KindSecret (rf_refreshed read)) (rf_revisions read)"
  shows "\<exists>read'. recompute (sv\<lparr>sv_secrets := Some f\<rparr>) db spec digest = Inr (read', hash)
    \<and> rf_refreshed read' = rf_refreshed read"
proof -
  let ?after = "read\<lparr>rf_revisions := after\<rparr>"
  have read: "resolveReferences sv db spec = Inr read"
    and hash: "\<exists>encoded. Compute (sv_codec sv) spec (hashInputs read digest) = Inr (encoded, hash)"
    using assms(1) by (auto simp: recompute_def split: sum.splits)
  have "Compute (sv_codec sv) spec (hashInputs ?after digest) = Compute (sv_codec sv) spec (hashInputs read digest)"
    using assms(3) by (intro Compute_cong) (simp_all add: hashed_without hashInputs_def)
  then show ?thesis
    using hash resolveReferences_secrets [OF read, of f, OF assms(2)] by (auto simp: recompute_def)
qed

section \<open>Properties\<close>

text \<open>
  C5. No change goes unnoticed. Whatever requests are served, applies, rehashes, reallocations, deletions,
  stops and starts, those that fail included, the tables stay consistent, and a database that differs from
  what it was means that the reconciler was woken in between.
\<close>

theorem changes_noticed:
  assumes "service_reaches sv s t" "alone sv" "sv_reconciler sv" "store_ok (ss_db s)"
  shows "store_ok (ss_db t) \<and> (ss_db t \<noteq> ss_db s \<longrightarrow> ss_wakes s < ss_wakes t)"
proof -
  have others: "others_ok sv" using assms(2) by (simp add: alone_def others_ok_def)
  have "noticed s t \<and> keeps_ok s t"
    using assms(1-3) others
  proof (induction rule: service_reaches.induct)
    case (served sv s t u)
    then show ?case
      using notice.R_trans ok.R_trans service_step_noticed service_step_consistent by blast
  qed (simp add: notice.R_refl ok.R_refl)
  then show ?thesis using assms(4) by (auto simp: noticed_def keeps_ok_def)
qed

theorem changes_noticed_witness:
  "store_ok (ss_db (final (Apply example_service example_web 0) example_state))
    \<and> 0 < ss_wakes (final (Apply example_service example_web 0) example_state)"
proof -
  let ?t = "final (Apply example_service example_web 0) example_state"
  have reached: "service_reaches example_service example_state ?t"
    by (rule served [OF served_nothing request_apply])
  have "sv_reconciler example_service" "store_ok (ss_db example_state)" "ss_wakes example_state = 0"
    by (simp_all add: example_service_def example_state_def store_ok_empty)
  moreover have "db_workloads (ss_db ?t) \<noteq> db_workloads (ss_db example_state)" by code_simp
  ultimately show ?thesis using changes_noticed [OF reached example_alone] by force
qed

text \<open>
  Rotating a secret restarts nothing that reloads it. When a workload is stored under its current hash
  and the secrets it reads change only where it reads them through mounts it is signalled about, rehashing
  it finds the hash unchanged: the database stays as it is, so no version moves and no instance is
  replaced, and the reconciler is woken to rewrite the files.
\<close>

lemma rotation_replaces_nothing:
  assumes "rehash_of sv name (ss_db s) = Inr (row, read, row_SpecHash row)"
    and "f (rf_secrets read) = Inr after"
    and "without (refreshed_keys KindSecret (rf_refreshed read)) after
      = without (refreshed_keys KindSecret (rf_refreshed read)) (rf_revisions read)"
    and "sv' = sv\<lparr>sv_secrets := Some f\<rparr>" "sv_reconciler sv"
  shows "outcome (Rehash sv' name) s = Inr False \<and> ss_db (final (Rehash sv' name) s) = ss_db s
    \<and> (rf_refreshed read \<noteq> [] \<longrightarrow> ss_wakes (final (Rehash sv' name) s) = ss_wakes s + 1)"
proof -
  obtain spec dg where row: "store_get name (ss_db s) = Inr row"
    "DecodeWorkload (cd_unmarshal (sv_codec sv)) (row_Spec row) = Inr spec" "resolveDigest sv spec = Inr dg"
    and current: "recompute sv (ss_db s) spec dg = Inr (read, row_SpecHash row)"
    using assms(1) by (auto simp: rehash_of_def map_sum_eq_Inr split: sum.splits)
  obtain read' where "recompute sv' (ss_db s) spec dg = Inr (read', row_SpecHash row)"
    and refreshed: "rf_refreshed read' = rf_refreshed read"
    using recompute_rotated [of sv "ss_db s" spec dg read _ f after, OF current assms(2,3)] unfolding assms(4) by blast
  then have "rehash_of sv' name (ss_db s) = Inr (row, read', row_SpecHash row)"
    using row by (simp add: rehash_of_def assms(4))
  then show ?thesis
    using refreshed assms(5)
    by (simp add: Rehash_def outcome_bind final_bind wake_def assms(4))
qed

text \<open>The example reads its one secret through a mount it is signalled about.\<close>

definition example_rotated :: "string list \<Rightarrow> goerr + string_map" where
  "example_rotated names = Inr (map (\<lambda>n. (n, ''2'')) names)"

definition example_applied_state :: service_state where
  "example_applied_state = final (Apply example_service example_web 0) example_state"

definition example_current :: "database_Workload \<times> references \<times> string" where
  "example_current = projr (rehash_of example_service ''web'' (ss_db example_applied_state))"

lemma example_current:
  "rehash_of example_service ''web'' (ss_db example_applied_state)
     = Inr (fst example_current, fst (snd example_current), row_SpecHash (fst example_current))"
  "example_rotated (rf_secrets (fst (snd example_current))) = Inr [(''tls'', ''2'')]"
  "without (refreshed_keys KindSecret (rf_refreshed (fst (snd example_current)))) [(''tls'', ''2'')]
     = without (refreshed_keys KindSecret (rf_refreshed (fst (snd example_current))))
         (rf_revisions (fst (snd example_current)))"
  "sv_reconciler example_service"
  by code_simp+

end
