(* ===== verification/Access_Policy.thy ===== *)
theory Access_Policy
  imports Manifest_Validation
begin

text \<open>
  Who may call the API: the policy document (\<open>pkg/manifest/policy.go\<close>), the role it grants a principal
  and what a role covers (\<open>internal/server/auth/auth.go\<close>), the stored policy with its conditional writes
  (\<open>internal/server/database/policy.go\<close>) and the service in front of it
  (\<open>internal/server/service/policy.go\<close>).
\<close>

section \<open>The document\<close>

datatype Role = RoleViewer | RoleOperator | RoleAdmin | RoleOther string

abbreviation no_role :: Role where
  "no_role \<equiv> RoleOther []"

record PolicyOIDC =
  oidc_PrincipalClaim :: string
  oidc_GroupsClaim :: string

record PolicyGroup =
  grp_Name :: string
  grp_Members :: "string list"

record PolicyGrant =
  grt_Principals :: "string list"
  grt_Role :: Role

record Policy =
  pol_Version :: string
  pol_OIDC :: "PolicyOIDC option"
  pol_Groups :: "PolicyGroup list"
  pol_Grants :: "PolicyGrant list"

definition groupPrefix :: string where
  "groupPrefix = ''group:''"

fun validateGroups :: "string list \<Rightarrow> PolicyGroup list \<Rightarrow> goerr option" where
  "validateGroups names [] = None"
| "validateGroups names (g # gs) = first_err
     [refuse (grp_Name g = []) ''invalid policy: a group requires a name'',
      refuse (CHR '':'' \<in> set (grp_Name g)) ''invalid policy: group name %q must not contain a colon'',
      refuse (grp_Name g \<in> set names) ''invalid policy: group %q is defined more than once'',
      refuse (grp_Members g = []) ''invalid policy: group %q has no members'',
      refuse ([] \<in> set (grp_Members g)) ''invalid policy: group %q has an empty member'',
      validateGroups (names @ [grp_Name g]) gs]"

fun known_role :: "Role \<Rightarrow> bool" where
  "known_role (RoleOther r) = False"
| "known_role _ = True"

fun validateGrants :: "PolicyGrant list \<Rightarrow> goerr option" where
  "validateGrants [] = None"
| "validateGrants (g # gs) = first_err
     [refuse (grt_Principals g = []) ''invalid policy: a grant requires at least one principal'',
      refuse (list_ex (\<lambda>p. p = [] \<or> p = groupPrefix) (grt_Principals g))
        ''invalid policy: a grant names an empty principal'',
      refuse (\<not> known_role (grt_Role g)) ''invalid policy: role %q is not one of %s, %s or %s'',
      validateGrants gs]"

definition ValidatePolicy :: "Policy \<Rightarrow> goerr option" where
  "ValidatePolicy policy = first_err
     [validateVersion (pol_Version policy),
      (case pol_OIDC policy of
         None \<Rightarrow> None
       | Some o' \<Rightarrow> refuse (oidc_PrincipalClaim o' = []) ''invalid policy: oidc requires a principalClaim''),
      validateGroups [] (pol_Groups policy),
      validateGrants (pol_Grants policy)]"

section \<open>Evaluating it\<close>

text \<open>The rank of a role the code's map does not hold is zero.\<close>

fun roleRank :: "Role \<Rightarrow> int" where
  "roleRank RoleViewer = 1"
| "roleRank RoleOperator = 2"
| "roleRank RoleAdmin = 3"
| "roleRank (RoleOther r) = 0"

definition Allows :: "Role \<Rightarrow> Role \<Rightarrow> bool" where
  "Allows held required \<longleftrightarrow> roleRank held \<ge> roleRank required"

definition entry_matches :: "Policy \<Rightarrow> string \<Rightarrow> string list \<Rightarrow> string \<Rightarrow> bool" where
  "entry_matches policy who groups entry =
     (if \<not> HasPrefix entry groupPrefix then entry = who
      else (let name = drop (length groupPrefix) entry
            in name \<in> set groups
               \<or> list_ex (\<lambda>g. grp_Name g = name \<and> who \<in> set (grp_Members g)) (pol_Groups policy)))"

definition grantMatches :: "Policy \<Rightarrow> PolicyGrant \<Rightarrow> string \<Rightarrow> string list \<Rightarrow> bool" where
  "grantMatches policy grant who groups =
     list_ex (entry_matches policy who groups) (grt_Principals grant)"

definition Evaluate :: "Policy \<Rightarrow> string \<Rightarrow> string list \<Rightarrow> Role \<times> bool" where
  "Evaluate policy who groups = fold (\<lambda>grant (held, matched).
     if \<not> grantMatches policy grant who groups then (held, matched)
     else (if \<not> matched \<or> Allows (grt_Role grant) held then grt_Role grant else held, True))
     (pol_Grants policy) (no_role, False)"

section \<open>Storing it\<close>

record database_Policy =
  dbp_Document :: string
  dbp_Version :: int
  dbp_UpdatedAt :: time

datatype policy_error =
    ErrPolicyChanged
  | ErrInvalidPolicy goerr
  | Policy_Failed goerr

text \<open>The one row of the table, or none, and the write conditioned on its version.\<close>

definition policy_Apply ::
  "time \<Rightarrow> string \<Rightarrow> int \<Rightarrow> database_Policy option
     \<Rightarrow> (policy_error + database_Policy) \<times> database_Policy option" where
  "policy_Apply now document ifMatch stored = (case stored of
       None \<Rightarrow>
         if ifMatch \<noteq> 0 then (Inl ErrPolicyChanged, stored)
         else (let p = \<lparr>dbp_Document = document, dbp_Version = 1, dbp_UpdatedAt = now\<rparr> in (Inr p, Some p))
     | Some existing \<Rightarrow>
         if dbp_Version existing \<noteq> ifMatch then (Inl ErrPolicyChanged, stored)
         else if dbp_Document existing = document then (Inr existing, stored)
         else (let p = \<lparr>dbp_Document = document, dbp_Version = dbp_Version existing + 1, dbp_UpdatedAt = now\<rparr>
               in (Inr p, Some p)))"

record policy_codec =
  pc_marshal :: "Policy \<Rightarrow> goerr + string"
  pc_unmarshal :: "string \<Rightarrow> goerr + Policy"

definition empty_policy :: Policy where
  "empty_policy = \<lparr>pol_Version = ''v1'', pol_OIDC = None, pol_Groups = [], pol_Grants = []\<rparr>"

definition hydratePolicy :: "policy_codec \<Rightarrow> database_Policy \<Rightarrow> policy_error + Policy \<times> int" where
  "hydratePolicy c stored = (case pc_unmarshal c (dbp_Document stored) of
       Inl e \<Rightarrow> Inl (Policy_Failed (Wrapf ''failed to decode the stored policy'' [e]))
     | Inr p \<Rightarrow> Inr (p, dbp_Version stored))"

definition policy_Get :: "policy_codec \<Rightarrow> database_Policy option \<Rightarrow> policy_error + Policy \<times> int" where
  "policy_Get c stored = (case stored of None \<Rightarrow> Inr (empty_policy, 0) | Some p \<Rightarrow> hydratePolicy c p)"

definition PolicyService_Apply ::
  "policy_codec \<Rightarrow> time \<Rightarrow> Policy \<Rightarrow> int \<Rightarrow> database_Policy option
     \<Rightarrow> (policy_error + Policy \<times> int) \<times> database_Policy option" where
  "PolicyService_Apply c now policy ifMatch stored = (case ValidatePolicy policy of
       Some e \<Rightarrow> (Inl (ErrInvalidPolicy e), stored)
     | None \<Rightarrow> (case pc_marshal c policy of
           Inl e \<Rightarrow> (Inl (Policy_Failed (Wrapf ''failed to encode policy'' [e])), stored)
         | Inr document \<Rightarrow> (case policy_Apply now document ifMatch stored of
               (Inl e, stored') \<Rightarrow> (Inl e, stored')
             | (Inr p, stored') \<Rightarrow> (hydratePolicy c p, stored'))))"

section \<open>What evaluating grants\<close>

definition matching :: "Policy \<Rightarrow> string \<Rightarrow> string list \<Rightarrow> PolicyGrant set" where
  "matching policy who groups = {g \<in> set (pol_Grants policy). grantMatches policy g who groups}"

text \<open>What the loop has found after some of the grants.\<close>

definition highest :: "PolicyGrant set \<Rightarrow> Role \<times> bool \<Rightarrow> bool" where
  "highest found r \<longleftrightarrow> (snd r \<longleftrightarrow> found \<noteq> {})
     \<and> (if found = {} then fst r = no_role
        else fst r \<in> grt_Role ` found \<and> (\<forall>g\<in>found. Allows (fst r) (grt_Role g)))"

lemma Allows_refl [simp]: "Allows r r"
  by (simp add: Allows_def)

lemma Allows_trans: "Allows a b \<Longrightarrow> Allows b c \<Longrightarrow> Allows a c"
  by (simp add: Allows_def)

lemma Allows_total: "Allows a b \<or> Allows b a"
  by (auto simp: Allows_def)

lemma highest_insert:
  assumes "highest found (held, matched)"
  shows "highest (insert g found)
    (if \<not> matched \<or> Allows (grt_Role g) held then grt_Role g else held, True)"
proof (cases "found = {}")
  case False
  then have "matched" "held \<in> grt_Role ` found" "\<forall>x\<in>found. Allows held (grt_Role x)"
    using assms by (auto simp: highest_def)
  moreover then have "Allows held (grt_Role g)" if "\<not> Allows (grt_Role g) held"
    using that Allows_total by blast
  ultimately show ?thesis by (auto simp: highest_def intro: Allows_trans)
qed (use assms in \<open>simp add: highest_def\<close>)

lemma Evaluate_highest: "highest (matching policy who groups) (Evaluate policy who groups)"
proof -
  let ?m = "\<lambda>g. grantMatches policy g who groups"
  have "highest {g \<in> set done \<union> set rest. ?m g} (fold (\<lambda>grant (held, matched).
      if \<not> ?m grant then (held, matched)
      else (if \<not> matched \<or> Allows (grt_Role grant) held then grt_Role grant else held, True)) rest r)"
    if "highest {g \<in> set done. ?m g} r" for "done" rest r
    using that
  proof (induction rest arbitrary: "done" r)
    case (Cons g rest)
    obtain held matched where r: "r = (held, matched)" by (cases r)
    let ?r = "if \<not> ?m g then (held, matched)
      else (if \<not> matched \<or> Allows (grt_Role g) held then grt_Role g else held, True)"
    have "{x \<in> set (g # done). ?m x} = (if ?m g then insert g {x \<in> set done. ?m x} else {x \<in> set done. ?m x})"
      by auto
    then have "highest {x \<in> set (g # done). ?m x} ?r"
      using Cons.prems highest_insert [of "{x \<in> set done. ?m x}" held matched g] unfolding r by simp
    from Cons.IH [OF this] show ?case by (simp add: r insert_commute Un_insert_left)
  qed simp
  from this [of "[]" "(no_role, False)" "pol_Grants policy"] show ?thesis
    by (simp add: Evaluate_def matching_def highest_def)
qed

text \<open>A known role is covered exactly when a matching grant covers it.\<close>

lemma Evaluate_Allows:
  assumes "known_role required"
  shows "Allows (fst (Evaluate policy who groups)) required
    \<longleftrightarrow> (\<exists>g\<in>matching policy who groups. Allows (grt_Role g) required)"
proof -
  have "\<not> Allows no_role required" using assms by (cases required) (simp_all add: Allows_def)
  then show ?thesis
    using Evaluate_highest [of policy who groups]
    by (auto simp: highest_def split: if_splits intro: Allows_trans)
qed

end
