(* ===== verification/Access_Token.thy ===== *)
theory Access_Token
  imports Access_Policy
begin

text \<open>
  The credentials that authenticate a caller: the table of tokens
  (\<open>internal/server/database/token.go\<close>), the services that mint, rotate and revoke them
  (\<open>internal/server/service/token.go\<close>), the one that resolves a credential to an identity and mints what a
  login produces (\<open>internal/server/service/auth.go\<close>), the middleware that reads the credential of a request
  (\<open>internal/server/middleware/authenticate.go\<close>) and the check of an operation's requirement
  (\<open>authorize\<close> of \<open>internal/server/api/api.go\<close>).

  The table is a list of rows in the order of their insertion. What an operation draws from the outside is a
  record: the random text of a credential, the identifier of a row, the time, which is read once per
  operation, and which workloads exist; the hash of a credential is a function of it.
\<close>

section \<open>Tokens\<close>

datatype Kind = KindRecovery | KindClient

record token =
  tok_ID :: string
  tok_Hash :: string
  tok_Type :: Kind
  tok_Source :: string
  tok_Principal :: string
  tok_Groups :: "string list"
  tok_ExpiresAt :: time
  tok_CreatedAt :: time
  tok_LastUsedAt :: time
  tok_WorkloadID :: string
  tok_WorkloadInstance :: "int option"
  tok_WorkloadVersion :: "int option"

record Identity =
  idn_Principal :: string
  idn_Groups :: "string list"
  idn_Role :: Role
  idn_TokenID :: string
  idn_Recovery :: bool
  idn_Disabled :: bool

record auth_env =
  ae_secret :: string
  ae_newid :: string
  ae_now :: time
  ae_hash :: "string \<Rightarrow> string"
  ae_workload :: "string \<Rightarrow> bool"

definition TokenTTL :: duration where
  "TokenTTL = 43200000000000"

definition workloadTokenTTL :: duration where
  "workloadTokenTTL = TokenTTL"

definition rotateMargin :: duration where
  "rotateMargin = workloadTokenTTL div 2"

definition rotationGrace :: duration where
  "rotationGrace = Minute"

definition recoveryPrefix :: string where
  "recoveryPrefix = ''takt_r_''"

definition clientPrefix :: string where
  "clientPrefix = ''takt_c_''"

definition NewToken :: "auth_env \<Rightarrow> Kind \<Rightarrow> string \<times> string" where
  "NewToken env kind =
     (let credential = (if kind = KindRecovery then recoveryPrefix else clientPrefix) @ ae_secret env
      in (credential, ae_hash env credential))"

definition KindOf_credential :: "string \<Rightarrow> Kind option" where
  "KindOf_credential credential =
     (if HasPrefix credential recoveryPrefix then Some KindRecovery
      else if HasPrefix credential clientPrefix then Some KindClient else None)"

section \<open>The table\<close>

datatype token_error = Db_ErrTokenNotFound | ErrTokenAlreadyExists | Tok_Failed

text \<open>The identifier and the hash are unique, at most one row is a recovery token, and a row's workload exists.\<close>

definition tokens_Create :: "auth_env \<Rightarrow> token \<Rightarrow> token list \<Rightarrow> (token_error + token) \<times> token list" where
  "tokens_Create env t ts =
     (let stored = t\<lparr>tok_ID := ae_newid env, tok_CreatedAt := ae_now env\<rparr>
      in if tok_ID stored \<in> tok_ID ` set ts \<or> tok_Hash stored \<in> tok_Hash ` set ts
            \<or> tok_Type stored = KindRecovery \<and> KindRecovery \<in> tok_Type ` set ts
         then (Inl ErrTokenAlreadyExists, ts)
         else if tok_WorkloadID stored \<noteq> [] \<and> \<not> ae_workload env (tok_WorkloadID stored)
         then (Inl Tok_Failed, ts)
         else (Inr stored, ts @ [stored\<lparr>tok_LastUsedAt := 0\<rparr>]))"

definition tokens_get :: "(token \<Rightarrow> bool) \<Rightarrow> token list \<Rightarrow> token_error + token" where
  "tokens_get P ts = (case find P ts of None \<Rightarrow> Inl Db_ErrTokenNotFound | Some t \<Rightarrow> Inr t)"

definition tokens_Delete :: "string \<Rightarrow> token list \<Rightarrow> token_error option \<times> token list" where
  "tokens_Delete i ts =
     (if i \<in> tok_ID ` set ts then (None, filter (\<lambda>t. tok_ID t \<noteq> i) ts) else (Some Db_ErrTokenNotFound, ts))"

definition tokens_DeleteRecovery :: "token list \<Rightarrow> token list" where
  "tokens_DeleteRecovery ts = filter (\<lambda>t. tok_Type t \<noteq> KindRecovery) ts"

definition tokens_HasRecovery :: "token list \<Rightarrow> bool" where
  "tokens_HasRecovery ts \<longleftrightarrow> list_ex (\<lambda>t. tok_Type t = KindRecovery) ts"

text \<open>A row minted for a workload; a query for the empty identifier finds none, since the column is then null.\<close>

definition for_workload :: "string \<Rightarrow> token \<Rightarrow> bool" where
  "for_workload wid t \<longleftrightarrow> wid \<noteq> [] \<and> tok_WorkloadID t = wid"

definition shared_for :: "string \<Rightarrow> int \<Rightarrow> string \<Rightarrow> token \<Rightarrow> bool" where
  "shared_for wid ver who t \<longleftrightarrow> for_workload wid t \<and> tok_WorkloadVersion t = Some ver
     \<and> tok_Principal t = who \<and> tok_WorkloadInstance t = None"

text \<open>The newest, \<open>ORDER BY created_at DESC LIMIT 1\<close>.\<close>

definition tokens_GetForWorkload :: "string \<Rightarrow> int \<Rightarrow> string \<Rightarrow> token list \<Rightarrow> token_error + token" where
  "tokens_GetForWorkload wid ver who ts =
     tokens_get (shared_for wid ver who) (sort_key (\<lambda>t. - tok_CreatedAt t) ts)"

definition tokens_DeleteMinted ::
  "string \<Rightarrow> string \<Rightarrow> int option \<Rightarrow> int option \<Rightarrow> token list \<Rightarrow> token list" where
  "tokens_DeleteMinted wid who instance ver ts = filter (\<lambda>t. \<not> (for_workload wid t
     \<and> tok_Principal t = who \<and> tok_WorkloadInstance t = instance \<and> tok_WorkloadVersion t = ver)) ts"

definition tokens_ExpireMinted ::
  "string \<Rightarrow> string \<Rightarrow> int \<Rightarrow> string \<Rightarrow> time \<Rightarrow> token list \<Rightarrow> token list" where
  "tokens_ExpireMinted wid who ver except until ts = map (\<lambda>t.
     if shared_for wid ver who t \<and> tok_ID t \<noteq> except \<and> (IsZero (tok_ExpiresAt t) \<or> tok_ExpiresAt t > until)
     then t\<lparr>tok_ExpiresAt := until\<rparr> else t) ts"

definition tokens_DeleteSuperseded :: "string \<Rightarrow> int \<Rightarrow> token list \<Rightarrow> token list" where
  "tokens_DeleteSuperseded wid ver ts = filter (\<lambda>t. \<not> (for_workload wid t
     \<and> tok_WorkloadVersion t \<noteq> None \<and> tok_WorkloadVersion t \<noteq> Some ver)) ts"

definition tokens_DeleteForWorkload :: "string \<Rightarrow> token list \<Rightarrow> token list" where
  "tokens_DeleteForWorkload wid ts = filter (\<lambda>t. \<not> for_workload wid t) ts"

definition tokens_DeleteForInstance :: "string \<Rightarrow> int \<Rightarrow> token list \<Rightarrow> token list" where
  "tokens_DeleteForInstance wid instance ts =
     filter (\<lambda>t. \<not> (for_workload wid t \<and> tok_WorkloadInstance t = Some instance)) ts"

definition tokens_Touch :: "string \<Rightarrow> time \<Rightarrow> token list \<Rightarrow> token list" where
  "tokens_Touch i used ts = map (\<lambda>t. if tok_ID t = i then t\<lparr>tok_LastUsedAt := used\<rparr> else t) ts"

definition tokens_DeleteExpired :: "time \<Rightarrow> token list \<Rightarrow> token list" where
  "tokens_DeleteExpired now ts = filter (\<lambda>t. \<not> (\<not> IsZero (tok_ExpiresAt t) \<and> tok_ExpiresAt t \<le> now)) ts"

section \<open>Minting and revoking\<close>

datatype auth_error =
    ErrInvalidCredential
  | ErrRecoveryLogout
  | ErrOIDCDisabled
  | Auth_ErrTokenNotFound
  | ErrACLInitialized
  | ErrInvalidPrincipal
  | ErrRecoveryDelete
  | Auth_Store token_error
  | Auth_Policy policy_error

definition client_token :: "string \<Rightarrow> string \<Rightarrow> string \<Rightarrow> token" where
  "client_token hash source who = \<lparr>tok_ID = [], tok_Hash = hash, tok_Type = KindClient, tok_Source = source,
     tok_Principal = who, tok_Groups = [], tok_ExpiresAt = 0, tok_CreatedAt = 0, tok_LastUsedAt = 0,
     tok_WorkloadID = [], tok_WorkloadInstance = None, tok_WorkloadVersion = None\<rparr>"

definition Token_Init :: "auth_env \<Rightarrow> token list \<Rightarrow> (auth_error + string) \<times> token list" where
  "Token_Init env ts = (case NewToken env KindRecovery of (credential, hash) \<Rightarrow>
     (case tokens_Create env ((client_token hash ''init'' [])\<lparr>tok_Type := KindRecovery\<rparr>) ts of
        (Inl ErrTokenAlreadyExists, ts') \<Rightarrow> (Inl ErrACLInitialized, ts')
      | (Inl e, ts') \<Rightarrow> (Inl (Auth_Store e), ts')
      | (Inr stored, ts') \<Rightarrow> (Inr credential, ts')))"

definition maxPrincipalLength :: nat where
  "maxPrincipalLength = 256"

text \<open>
  \<open>unicode.IsSpace\<close> over the runes of a string: the spaces of ASCII, and those encoded in two bytes and in
  three.
\<close>

fun ContainsSpace :: "string \<Rightarrow> bool" where
  "ContainsSpace [] = False"
| "ContainsSpace (c # cs) =
     (byte c \<in> {9, 10, 11, 12, 13, 32}
      \<or> (case cs of
           d # ds \<Rightarrow> byte c = 194 \<and> byte d \<in> {133, 160}
             \<or> (case ds of
                  e # es \<Rightarrow> byte c = 225 \<and> byte d = 154 \<and> byte e = 128
                    \<or> byte c = 226 \<and> byte d = 128 \<and> (in_range 128 138 e \<or> byte e \<in> {168, 169, 175})
                    \<or> byte c = 226 \<and> byte d = 129 \<and> byte e = 159
                    \<or> byte c = 227 \<and> byte d = 128 \<and> byte e = 128
                | [] \<Rightarrow> False)
         | [] \<Rightarrow> False)
      \<or> ContainsSpace cs)"

definition validatePrincipal :: "string \<Rightarrow> auth_error option" where
  "validatePrincipal who =
     (if who = [] \<or> length who > maxPrincipalLength \<or> ContainsSpace who \<or> ContainsControl who
         \<or> HasPrefix who ''group:''
      then Some ErrInvalidPrincipal else None)"

definition Token_Create :: "auth_env \<Rightarrow> string \<Rightarrow> token list \<Rightarrow> (auth_error + token \<times> string) \<times> token list" where
  "Token_Create env who ts = (case validatePrincipal who of
       Some e \<Rightarrow> (Inl e, ts)
     | None \<Rightarrow> (case NewToken env KindClient of (credential, hash) \<Rightarrow>
         (case tokens_Create env (client_token hash ''static'' who) ts of
            (Inl e, ts') \<Rightarrow> (Inl (Auth_Store e), ts')
          | (Inr stored, ts') \<Rightarrow> (Inr (stored, credential), ts'))))"

definition MintWorkloadToken ::
  "auth_env \<Rightarrow> string \<Rightarrow> string \<Rightarrow> int \<Rightarrow> bool \<Rightarrow> token list \<Rightarrow> (auth_error + string) \<times> token list" where
  "MintWorkloadToken env who wid ver expires ts = (case validatePrincipal who of
       Some e \<Rightarrow> (Inl e, ts)
     | None \<Rightarrow> (case NewToken env KindClient of (credential, hash) \<Rightarrow>
         (case tokens_Create env ((client_token hash ''workload'' who)\<lparr>tok_WorkloadID := wid,
                 tok_WorkloadVersion := Some ver,
                 tok_ExpiresAt := (if expires then ae_now env + workloadTokenTTL else 0)\<rparr>) ts of
            (Inl e, ts') \<Rightarrow> (Inl (Auth_Store e), ts')
          | (Inr stored, ts') \<Rightarrow> (Inr credential, tokens_ExpireMinted wid who ver (tok_ID stored)
                (ae_now env + rotationGrace) ts'))))"

definition MintInstanceToken ::
  "auth_env \<Rightarrow> string \<Rightarrow> string \<Rightarrow> int \<Rightarrow> token list \<Rightarrow> (auth_error + string) \<times> token list" where
  "MintInstanceToken env who wid instance ts = (case validatePrincipal who of
       Some e \<Rightarrow> (Inl e, ts)
     | None \<Rightarrow> (case NewToken env KindClient of (credential, hash) \<Rightarrow>
         (case tokens_Create env ((client_token hash ''workload'' who)\<lparr>tok_WorkloadID := wid,
                 tok_WorkloadInstance := Some instance\<rparr>)
               (tokens_DeleteMinted wid who (Some instance) None ts) of
            (Inl e, ts') \<Rightarrow> (Inl (Auth_Store e), ts')
          | (Inr stored, ts') \<Rightarrow> (Inr credential, ts'))))"

definition RefreshWorkloadToken ::
  "auth_env \<Rightarrow> string \<Rightarrow> string \<Rightarrow> int \<Rightarrow> bool \<Rightarrow> token list
     \<Rightarrow> (auth_error + string \<times> bool) \<times> token list" where
  "RefreshWorkloadToken env who wid ver expires ts =
     (let keep = (case tokens_GetForWorkload wid ver who ts of
            Inl e \<Rightarrow> False
          | Inr t \<Rightarrow> IsZero (tok_ExpiresAt t) \<or> time_Sub (tok_ExpiresAt t) (ae_now env) > rotateMargin)
      in if keep then (Inr ([], False), ts)
         else (case MintWorkloadToken env who wid ver expires ts of
             (Inl e, ts') \<Rightarrow> (Inl e, ts')
           | (Inr credential, ts') \<Rightarrow> (Inr (credential, True), ts')))"

definition Token_Delete :: "string \<Rightarrow> token list \<Rightarrow> auth_error option \<times> token list" where
  "Token_Delete i ts = (case tokens_get (\<lambda>t. tok_ID t = i) ts of
       Inl e \<Rightarrow> (Some Auth_ErrTokenNotFound, ts)
     | Inr t \<Rightarrow>
         if tok_Type t = KindRecovery then (Some ErrRecoveryDelete, ts)
         else (case tokens_Delete i ts of
             (Some e, ts') \<Rightarrow> (Some Auth_ErrTokenNotFound, ts') | (None, ts') \<Rightarrow> (None, ts')))"

section \<open>Authenticating\<close>

definition live :: "time \<Rightarrow> token \<Rightarrow> bool" where
  "live now t \<longleftrightarrow> IsZero (tok_ExpiresAt t) \<or> now \<le> tok_ExpiresAt t"

definition auth_lookup :: "auth_env \<Rightarrow> string \<Rightarrow> token list \<Rightarrow> (auth_error + token) \<times> token list" where
  "auth_lookup env credential ts =
     (if KindOf_credential credential = None then (Inl ErrInvalidCredential, ts)
      else (case tokens_get (\<lambda>t. tok_Hash t = ae_hash env credential) ts of
          Inl e \<Rightarrow> (Inl ErrInvalidCredential, ts)
        | Inr t \<Rightarrow>
            if \<not> IsZero (tok_ExpiresAt t) \<and> ae_now env > tok_ExpiresAt t
            then (Inl ErrInvalidCredential, ts)
            else (Inr t,
              if IsZero (tok_LastUsedAt t) \<or> time_Sub (ae_now env) (tok_LastUsedAt t) > Minute
              then tokens_Touch (tok_ID t) (ae_now env) ts else ts)))"

definition Authenticate ::
  "auth_env \<Rightarrow> policy_codec \<Rightarrow> database_Policy option \<Rightarrow> string \<Rightarrow> token list
     \<Rightarrow> (auth_error + Identity) \<times> token list" where
  "Authenticate env c policy credential ts = (case auth_lookup env credential ts of
       (Inl e, ts') \<Rightarrow> (Inl e, ts')
     | (Inr t, ts') \<Rightarrow>
         if tok_Type t = KindRecovery
         then (Inr \<lparr>idn_Principal = [], idn_Groups = [], idn_Role = RoleAdmin, idn_TokenID = tok_ID t,
                 idn_Recovery = True, idn_Disabled = False\<rparr>, ts')
         else (case policy_Get c policy of
             Inl e \<Rightarrow> (Inl (Auth_Policy e), ts')
           | Inr (spec, ver) \<Rightarrow>
               (Inr \<lparr>idn_Principal = tok_Principal t, idn_Groups = tok_Groups t,
                     idn_Role = fst (Evaluate spec (tok_Principal t) (tok_Groups t)),
                     idn_TokenID = tok_ID t, idn_Recovery = False, idn_Disabled = False\<rparr>, ts')))"

definition Logout :: "Identity \<Rightarrow> token list \<Rightarrow> auth_error option \<times> token list" where
  "Logout identity ts =
     (if idn_Recovery identity then (Some ErrRecoveryLogout, ts)
      else if idn_TokenID identity = [] then (Some ErrInvalidCredential, ts)
      else (None, snd (tokens_Delete (idn_TokenID identity) ts)))"

definition auth_mint ::
  "auth_env \<Rightarrow> string \<Rightarrow> string \<Rightarrow> string list \<Rightarrow> token list \<Rightarrow> (auth_error + token \<times> string) \<times> token list" where
  "auth_mint env source who groups ts = (case NewToken env KindClient of (credential, hash) \<Rightarrow>
     (case tokens_Create env ((client_token hash source who)\<lparr>tok_Groups := groups,
             tok_ExpiresAt := ae_now env + TokenTTL\<rparr>) ts of
        (Inl e, ts') \<Rightarrow> (Inl (Auth_Store e), ts')
      | (Inr stored, ts') \<Rightarrow> (Inr (stored, credential), ts')))"

text \<open>The claims of an identity token, as far as the code looks at their values.\<close>

datatype claim = ClaimString string | ClaimList "claim list" | ClaimOther

fun claim_strings :: "claim list \<Rightarrow> string list" where
  "claim_strings [] = []"
| "claim_strings (ClaimString s # cs) = s # claim_strings cs"
| "claim_strings (_ # cs) = claim_strings cs"

definition claimedGroups :: "(string \<rightharpoonup> claim) \<Rightarrow> string \<Rightarrow> string list" where
  "claimedGroups claims groupsClaim =
     (if groupsClaim = [] then []
      else case claims groupsClaim of Some (ClaimList cs) \<Rightarrow> claim_strings cs | _ \<Rightarrow> [])"

definition defaultPrincipalClaim :: string where
  "defaultPrincipalClaim = ''email''"

definition LoginOIDC ::
  "auth_env \<Rightarrow> policy_codec \<Rightarrow> (string \<Rightarrow> (string \<rightharpoonup> claim) option) option \<Rightarrow> database_Policy option
     \<Rightarrow> string \<Rightarrow> token list \<Rightarrow> (auth_error + token \<times> string) \<times> token list" where
  "LoginOIDC env c verifier policy rawIDToken ts = (case verifier of
       None \<Rightarrow> (Inl ErrOIDCDisabled, ts)
     | Some verify \<Rightarrow> (case verify rawIDToken of
           None \<Rightarrow> (Inl ErrInvalidCredential, ts)
         | Some claims \<Rightarrow> (case policy_Get c policy of
               Inl e \<Rightarrow> (Inl (Auth_Policy e), ts)
             | Inr (spec, ver) \<Rightarrow>
                 (let (principalClaim, groupsClaim) = (case pol_OIDC spec of
                        None \<Rightarrow> (defaultPrincipalClaim, [])
                      | Some o' \<Rightarrow> (oidc_PrincipalClaim o', oidc_GroupsClaim o'))
                  in case claims principalClaim of
                       Some (ClaimString who) \<Rightarrow>
                         if who = [] then (Inl ErrInvalidCredential, ts)
                         else auth_mint env ''oidc'' who (claimedGroups claims groupsClaim) ts
                     | _ \<Rightarrow> (Inl ErrInvalidCredential, ts)))))"

definition LoginToken :: "auth_env \<Rightarrow> string \<Rightarrow> token list \<Rightarrow> (auth_error + token \<times> string) \<times> token list" where
  "LoginToken env credential ts = (case auth_lookup env credential ts of
       (Inl e, ts') \<Rightarrow> (Inl e, ts')
     | (Inr t, ts') \<Rightarrow>
         if tok_Source t \<noteq> ''static'' then (Inl ErrInvalidCredential, ts')
         else auth_mint env ''session'' (tok_Principal t) (tok_Groups t) ts')"

section \<open>Serving a request\<close>

definition anonymous :: Identity where
  "anonymous = \<lparr>idn_Principal = [], idn_Groups = [], idn_Role = no_role, idn_TokenID = [],
     idn_Recovery = False, idn_Disabled = False\<rparr>"

definition disabled :: Identity where
  "disabled = anonymous\<lparr>idn_Disabled := True\<rparr>"

datatype reply = Served | Status int

text \<open>
  The credential a request presents, from its bearer header or its session cookie; empty for none. Whether
  authentication is configured is \<open>enabled\<close>.
\<close>

definition resolveIdentity ::
  "bool \<Rightarrow> auth_env \<Rightarrow> policy_codec \<Rightarrow> database_Policy option \<Rightarrow> string \<Rightarrow> string \<Rightarrow> token list
     \<Rightarrow> (reply + Identity) \<times> token list" where
  "resolveIdentity enabled env c policy bearer cookie ts =
     (if \<not> enabled then (Inr disabled, ts)
      else (let credential = (if bearer = [] then cookie else bearer)
            in if credential = [] then (Inr anonymous, ts)
               else (case Authenticate env c policy credential ts of
                   (Inl ErrInvalidCredential, ts') \<Rightarrow> (Inl (Status 401), ts')
                 | (Inl e, ts') \<Rightarrow> (Inl (Status 500), ts')
                 | (Inr identity, ts') \<Rightarrow> (Inr identity, ts'))))"

text \<open>The roles an operation declares; \<open>None\<close> when it declares no requirement.\<close>

definition authorize :: "Identity \<Rightarrow> Role list option \<Rightarrow> reply" where
  "authorize identity scopes =
     (if idn_Disabled identity \<or> idn_Recovery identity then Served
      else case scopes of
        None \<Rightarrow> Served
      | Some required \<Rightarrow>
          if idn_TokenID identity = [] then Status 401
          else if list_ex (\<lambda>r. \<not> Allows (idn_Role identity) r) required then Status 403 else Served)"

definition serve ::
  "bool \<Rightarrow> auth_env \<Rightarrow> policy_codec \<Rightarrow> database_Policy option \<Rightarrow> string \<Rightarrow> string \<Rightarrow> Role list option
     \<Rightarrow> token list \<Rightarrow> reply \<times> token list" where
  "serve enabled env c policy bearer cookie scopes ts =
     (case resolveIdentity enabled env c policy bearer cookie ts of
        (Inl r, ts') \<Rightarrow> (r, ts')
      | (Inr identity, ts') \<Rightarrow> (authorize identity scopes, ts'))"

end
