(* ===== verification/Access_Control.thy ===== *)
theory Access_Control
  imports Access_Token
begin

text \<open>
  What access control guarantees: which requests are served, that a refused credential stays refused, that
  the recovery token goes only by the reset, that a session ends, that a rotation leaves no gap, and that
  conditional writes of the policy exclude each other. The operations on the tokens are the steps of a
  transition system, in which credentials are never drawn twice.
\<close>

section \<open>The invariant of the table\<close>

definition token_ok :: "token \<Rightarrow> bool" where
  "token_ok t \<longleftrightarrow> tok_ID t \<noteq> []
     \<and> (tok_Type t = KindRecovery \<longrightarrow> tok_WorkloadID t = [] \<and> IsZero (tok_ExpiresAt t) \<and> tok_Source t = ''init'')
     \<and> (tok_Source t \<in> {''oidc'', ''session''} \<longrightarrow> tok_WorkloadID t = []
          \<and> 0 < tok_ExpiresAt t \<and> tok_ExpiresAt t \<le> tok_CreatedAt t + TokenTTL)"

definition tokens_ok :: "token list \<Rightarrow> bool" where
  "tokens_ok ts \<longleftrightarrow> distinct (map tok_ID ts) \<and> distinct (map tok_Hash ts)
     \<and> (\<forall>t\<in>set ts. \<forall>u\<in>set ts. tok_Type t = KindRecovery \<longrightarrow> tok_Type u = KindRecovery \<longrightarrow> t = u)
     \<and> (\<forall>t\<in>set ts. token_ok t)"

text \<open>The same row, living no longer.\<close>

definition shrunk :: "token \<Rightarrow> token \<Rightarrow> bool" where
  "shrunk t t' \<longleftrightarrow> tok_ID t' = tok_ID t \<and> tok_Hash t' = tok_Hash t \<and> tok_Type t' = tok_Type t
     \<and> tok_Source t' = tok_Source t \<and> tok_Principal t' = tok_Principal t \<and> tok_Groups t' = tok_Groups t
     \<and> tok_CreatedAt t' = tok_CreatedAt t \<and> tok_WorkloadID t' = tok_WorkloadID t
     \<and> (\<forall>m. live m t' \<longrightarrow> live m t)"

lemma shrunk_refl [simp]: "shrunk t t"
  by (simp add: shrunk_def)

lemma shrunk_trans: "shrunk t u \<Longrightarrow> shrunk u v \<Longrightarrow> shrunk t v"
  by (simp add: shrunk_def)

text \<open>Every row is one that was there, living no longer, or carries the hash of a credential just minted.\<close>

definition evolves :: "string set \<Rightarrow> token list \<Rightarrow> token list \<Rightarrow> bool" where
  "evolves new ts ts' \<longleftrightarrow> (\<forall>t'\<in>set ts'. (\<exists>t\<in>set ts. shrunk t t') \<or> tok_Hash t' \<in> new)"

lemma evolves_refl [simp]: "evolves new ts ts"
  unfolding evolves_def using shrunk_refl by blast

lemma evolves_trans: "evolves a ts us \<Longrightarrow> evolves b us vs \<Longrightarrow> evolves (a \<union> b) ts vs"
  unfolding evolves_def shrunk_def by (metis UnI1 UnI2)

lemma evolves_mono: "evolves a ts us \<Longrightarrow> a \<subseteq> b \<Longrightarrow> evolves b ts us"
  by (auto simp: evolves_def)

lemma evolves_filter: "evolves new ts (filter P ts)"
  unfolding evolves_def using shrunk_refl by fastforce

lemma evolves_map: "(\<And>t. t \<in> set ts \<Longrightarrow> shrunk t (f t)) \<Longrightarrow> evolves new ts (map f ts)"
  by (auto simp: evolves_def)

lemma tokens_ok_filter: "tokens_ok ts \<Longrightarrow> tokens_ok (filter P ts)"
  by (auto simp: tokens_ok_def distinct_map_filter)

lemma tokens_ok_map:
  assumes "tokens_ok ts" "\<And>t. t \<in> set ts \<Longrightarrow> tok_ID (f t) = tok_ID t"
    and "\<And>t. t \<in> set ts \<Longrightarrow> tok_Hash (f t) = tok_Hash t" "\<And>t. t \<in> set ts \<Longrightarrow> tok_Type (f t) = tok_Type t"
    and "\<And>t. t \<in> set ts \<Longrightarrow> token_ok (f t)"
  shows "tokens_ok (map f ts)"
proof -
  have "map tok_ID (map f ts) = map tok_ID ts" "map tok_Hash (map f ts) = map tok_Hash ts"
    using assms(2,3) by simp_all
  then show ?thesis
    using assms by (auto simp: tokens_ok_def simp del: map_map)
qed

section \<open>What the operations do to the table\<close>

lemma tokens_Create_effect:
  assumes "tokens_Create env t ts = (answer, ts')" "tokens_ok ts" "ae_newid env \<noteq> []"
    and "token_ok (t\<lparr>tok_ID := ae_newid env, tok_CreatedAt := ae_now env\<rparr>)"
  shows "tokens_ok ts' \<and> evolves {tok_Hash t} ts ts'
    \<and> (case answer of Inl e \<Rightarrow> ts' = ts
       | Inr stored \<Rightarrow> stored = t\<lparr>tok_ID := ae_newid env, tok_CreatedAt := ae_now env\<rparr>
           \<and> ts' = ts @ [stored\<lparr>tok_LastUsedAt := 0\<rparr>] \<and> ae_newid env \<notin> tok_ID ` set ts)"
proof (cases answer)
  case (Inl e)
  then show ?thesis using assms by (auto simp: tokens_Create_def Let_def split: if_splits)
next
  case (Inr stored)
  let ?new = "t\<lparr>tok_ID := ae_newid env, tok_CreatedAt := ae_now env, tok_LastUsedAt := 0\<rparr>"
  have new: "ae_newid env \<notin> tok_ID ` set ts" "tok_Hash t \<notin> tok_Hash ` set ts"
    "tok_Type t = KindRecovery \<Longrightarrow> KindRecovery \<notin> tok_Type ` set ts"
    and stored: "stored = t\<lparr>tok_ID := ae_newid env, tok_CreatedAt := ae_now env\<rparr>"
    and ts': "ts' = ts @ [?new]"
    using assms(1) Inr by (auto simp: tokens_Create_def Let_def split: if_splits)
  have "token_ok ?new" using assms(4) by (simp add: token_ok_def)
  moreover have "\<forall>u\<in>set ts. tok_Type t = KindRecovery \<longrightarrow> tok_Type u \<noteq> KindRecovery"
    using new(3) by (metis imageI)
  ultimately have "tokens_ok ts'"
    using assms(2) new(1,2) unfolding ts' tokens_ok_def by auto
  moreover have "evolves {tok_Hash t} ts ts'"
    unfolding ts' evolves_def using shrunk_refl by fastforce
  ultimately show ?thesis using Inr stored ts' new(1) by simp
qed

lemma touch_ok: "tokens_ok ts \<Longrightarrow> tokens_ok (tokens_Touch i m ts)"
  unfolding tokens_Touch_def by (rule tokens_ok_map) (auto simp: tokens_ok_def token_ok_def)

lemma touch_evolves: "evolves new ts (tokens_Touch i m ts)"
  unfolding tokens_Touch_def by (rule evolves_map) (simp add: shrunk_def live_def)

lemma expire_ok: "tokens_ok ts \<Longrightarrow> 0 < m \<Longrightarrow> tokens_ok (tokens_ExpireMinted wid who ver i m ts)"
  unfolding tokens_ExpireMinted_def
  by (rule tokens_ok_map) (auto simp: tokens_ok_def token_ok_def shared_for_def for_workload_def)

lemma expire_evolves: "0 < m \<Longrightarrow> evolves new ts (tokens_ExpireMinted wid who ver i m ts)"
  unfolding tokens_ExpireMinted_def by (rule evolves_map) (auto simp: shrunk_def live_def)

text \<open>An operation upholds the invariant, and adds at most rows with the given hashes.\<close>

definition upholds :: "string set \<Rightarrow> token list \<Rightarrow> token list \<Rightarrow> bool" where
  "upholds new ts ts' \<longleftrightarrow> (tokens_ok ts \<longrightarrow> tokens_ok ts' \<and> evolves new ts ts')"

lemma upholds_refl [simp]: "upholds new ts ts"
  by (simp add: upholds_def)

lemma upholds_trans: "upholds new ts us \<Longrightarrow> upholds new us vs \<Longrightarrow> upholds new ts vs"
  using evolves_trans [of new ts us new vs] by (simp add: upholds_def)

lemma upholds_filter [simp]: "upholds new ts (filter P ts)"
  by (simp add: upholds_def tokens_ok_filter evolves_filter)

lemma upholds_touch: "upholds new ts (tokens_Touch i m ts)"
  by (simp add: upholds_def touch_ok touch_evolves)

lemma upholds_expire: "0 < m \<Longrightarrow> upholds new ts (tokens_ExpireMinted wid who ver i m ts)"
  by (simp add: upholds_def expire_ok expire_evolves)

definition env_ok :: "(string \<Rightarrow> string) \<Rightarrow> time \<Rightarrow> auth_env \<Rightarrow> bool" where
  "env_ok h now env \<longleftrightarrow> ae_hash env = h \<and> now \<le> ae_now env \<and> 0 < now \<and> ae_newid env \<noteq> []"

lemma upholds_Create:
  assumes "token_ok (t\<lparr>tok_ID := ae_newid env, tok_CreatedAt := ae_now env\<rparr>)" "ae_newid env \<noteq> []"
  shows "upholds {tok_Hash t} ts (snd (tokens_Create env t ts))"
  unfolding upholds_def
  using tokens_Create_effect [OF prod.collapse [symmetric] _ assms(2,1), of ts] by blast

definition new_credential :: "auth_env \<Rightarrow> Kind \<Rightarrow> string" where
  "new_credential env kind =
     (if kind = KindRecovery then recoveryPrefix else clientPrefix) @ ae_secret env"

lemma NewToken_eq [simp]: "NewToken env kind = (new_credential env kind, ae_hash env (new_credential env kind))"
  by (simp add: NewToken_def new_credential_def Let_def)

abbreviation minted :: "auth_env \<Rightarrow> Kind \<Rightarrow> string set" where
  "minted env kind \<equiv> {ae_hash env (new_credential env kind)}"

lemma client_token_simps [simp]:
  "tok_Hash (client_token h s w) = h" "tok_Type (client_token h s w) = KindClient"
  "tok_Source (client_token h s w) = s" "tok_WorkloadID (client_token h s w) = []"
  "tok_ExpiresAt (client_token h s w) = 0" "tok_Principal (client_token h s w) = w"
  by (simp_all add: client_token_def)

text \<open>Each operation that mints upholds the table, whatever it answers.\<close>

lemma upholds_Init:
  assumes "env_ok h now env"
  shows "upholds (minted env KindRecovery) ts (snd (Token_Init env ts))"
proof -
  let ?t = "(client_token (ae_hash env (new_credential env KindRecovery)) ''init'' [])\<lparr>tok_Type := KindRecovery\<rparr>"
  have "snd (Token_Init env ts) = snd (tokens_Create env ?t ts)"
    by (simp add: Token_Init_def split: prod.splits sum.splits token_error.splits)
  moreover have "upholds {tok_Hash ?t} ts (snd (tokens_Create env ?t ts))"
    using assms by (intro upholds_Create) (simp_all add: token_ok_def env_ok_def)
  ultimately show ?thesis by simp
qed

lemma upholds_Token_Create:
  assumes "env_ok h now env"
  shows "upholds (minted env KindClient) ts (snd (Token_Create env who ts))"
proof -
  let ?t = "client_token (ae_hash env (new_credential env KindClient)) ''static'' who"
  have "snd (Token_Create env who ts) \<in> {ts, snd (tokens_Create env ?t ts)}"
    by (auto simp: Token_Create_def split: prod.splits sum.splits option.splits)
  moreover have "upholds {tok_Hash ?t} ts (snd (tokens_Create env ?t ts))"
    using assms by (intro upholds_Create) (simp_all add: token_ok_def env_ok_def)
  ultimately show ?thesis by auto
qed

lemma upholds_mint:
  assumes "env_ok h now env" "source \<in> {''oidc'', ''session''}"
  shows "upholds (minted env KindClient) ts (snd (auth_mint env source who groups ts))"
proof -
  let ?t = "(client_token (ae_hash env (new_credential env KindClient)) source who)\<lparr>tok_Groups := groups,
    tok_ExpiresAt := ae_now env + TokenTTL\<rparr>"
  have "snd (auth_mint env source who groups ts) = snd (tokens_Create env ?t ts)"
    by (simp add: auth_mint_def split: prod.splits sum.splits)
  moreover have "upholds {tok_Hash ?t} ts (snd (tokens_Create env ?t ts))"
    using assms by (intro upholds_Create) (auto simp: token_ok_def env_ok_def TokenTTL_def)
  ultimately show ?thesis by simp
qed

lemma upholds_MintWorkloadToken:
  assumes "env_ok h now env"
  shows "upholds (minted env KindClient) ts (snd (MintWorkloadToken env who wid ver expires ts))"
proof -
  let ?t = "(client_token (ae_hash env (new_credential env KindClient)) ''workload'' who)\<lparr>tok_WorkloadID := wid,
    tok_WorkloadVersion := Some ver, tok_ExpiresAt := (if expires then ae_now env + workloadTokenTTL else 0)\<rparr>"
  let ?c = "tokens_Create env ?t ts"
  have create: "upholds {tok_Hash ?t} ts (snd ?c)"
    using assms by (intro upholds_Create) (simp_all add: token_ok_def env_ok_def)
  note create
  moreover have "upholds {tok_Hash ?t} us (tokens_ExpireMinted wid who ver i (ae_now env + rotationGrace) us)"
    for i us
    using assms by (intro upholds_expire) (simp add: env_ok_def rotationGrace_def)
  ultimately have "upholds {tok_Hash ?t} ts (tokens_ExpireMinted wid who ver i (ae_now env + rotationGrace) (snd ?c))"
    for i
    by (rule upholds_trans)
  with create show ?thesis
    by (cases ?c; cases "fst ?c") (simp_all add: MintWorkloadToken_def split: option.split split del: if_split)
qed

lemma upholds_MintInstanceToken:
  assumes "env_ok h now env"
  shows "upholds (minted env KindClient) ts (snd (MintInstanceToken env who wid i ts))"
proof -
  let ?t = "(client_token (ae_hash env (new_credential env KindClient)) ''workload'' who)\<lparr>tok_WorkloadID := wid,
    tok_WorkloadInstance := Some i\<rparr>"
  let ?ts = "tokens_DeleteMinted wid who (Some i) None ts"
  have "upholds {tok_Hash ?t} ts ?ts" by (simp add: tokens_DeleteMinted_def)
  moreover have "upholds {tok_Hash ?t} ?ts (snd (tokens_Create env ?t ?ts))"
    using assms by (intro upholds_Create) (simp_all add: token_ok_def env_ok_def)
  ultimately have "upholds {tok_Hash ?t} ts (snd (tokens_Create env ?t ?ts))" by (rule upholds_trans)
  then show ?thesis
    by (cases "tokens_Create env ?t ?ts"; cases "fst (tokens_Create env ?t ?ts)")
      (simp_all add: MintInstanceToken_def split: option.split split del: if_split)
qed

lemma upholds_Refresh:
  assumes "env_ok h now env"
  shows "upholds (minted env KindClient) ts (snd (RefreshWorkloadToken env who wid ver expires ts))"
proof -
  have "snd (RefreshWorkloadToken env who wid ver expires ts)
      \<in> {ts, snd (MintWorkloadToken env who wid ver expires ts)}"
    by (auto simp: RefreshWorkloadToken_def Let_def split: prod.splits sum.splits)
  then show ?thesis using upholds_MintWorkloadToken [OF assms, of ts who wid ver expires] by auto
qed

lemma upholds_lookup: "upholds new ts (snd (auth_lookup env credential ts))"
  by (auto simp: auth_lookup_def upholds_touch split: sum.splits)

lemma upholds_Authenticate: "upholds new ts (snd (Authenticate env c policy credential ts))"
  using upholds_lookup [of new ts env credential]
  by (auto simp: Authenticate_def split: prod.splits sum.splits)

lemma upholds_LoginOIDC:
  assumes "env_ok h now env"
  shows "upholds (minted env KindClient) ts (snd (LoginOIDC env c verifier policy raw ts))"
  using upholds_mint [OF assms, of "''oidc''"]
  by (auto simp: LoginOIDC_def Let_def split: option.splits sum.splits prod.splits claim.splits)

lemma upholds_LoginToken:
  assumes "env_ok h now env"
  shows "upholds (minted env KindClient) ts (snd (LoginToken env credential ts))"
proof -
  have "upholds (minted env KindClient) (snd (auth_lookup env credential ts))
      (snd (auth_mint env ''session'' who groups (snd (auth_lookup env credential ts))))" for who groups
    by (rule upholds_mint [OF assms]) simp
  then show ?thesis
    using upholds_lookup [of "minted env KindClient" ts env credential]
    by (auto simp: LoginToken_def split: prod.splits sum.splits intro: upholds_trans)
qed

lemma upholds_Token_Delete: "upholds new ts (snd (Token_Delete i ts))"
  by (auto simp: Token_Delete_def tokens_Delete_def split: sum.splits)

lemma upholds_Logout: "upholds new ts (snd (Logout identity ts))"
  by (auto simp: Logout_def tokens_Delete_def)

section \<open>Steps\<close>

text \<open>
  The operations on the tokens, in any order; a logout is one by an identity that a credential proves. Beside the table go the credentials drawn so far, none of
  which is drawn again, and the time, which does not go back.
\<close>

inductive auth_step ::
  "(string \<Rightarrow> string) \<Rightarrow> string set \<Rightarrow> time \<Rightarrow> token list \<Rightarrow> string set \<Rightarrow> time \<Rightarrow> token list \<Rightarrow> bool"
  for h :: "string \<Rightarrow> string" where
  step_init: "env_ok h now env \<Longrightarrow> new_credential env KindRecovery \<notin> K \<Longrightarrow>
    auth_step h K now ts (insert (new_credential env KindRecovery) K) (ae_now env) (snd (Token_Init env ts))"
| step_create: "env_ok h now env \<Longrightarrow> new_credential env KindClient \<notin> K \<Longrightarrow>
    auth_step h K now ts (insert (new_credential env KindClient) K) (ae_now env) (snd (Token_Create env who ts))"
| step_login_oidc: "env_ok h now env \<Longrightarrow> new_credential env KindClient \<notin> K \<Longrightarrow>
    auth_step h K now ts (insert (new_credential env KindClient) K) (ae_now env) (snd (LoginOIDC env c verifier policy raw ts))"
| step_login_token: "env_ok h now env \<Longrightarrow> new_credential env KindClient \<notin> K \<Longrightarrow>
    auth_step h K now ts (insert (new_credential env KindClient) K) (ae_now env) (snd (LoginToken env credential ts))"
| step_mint_workload: "env_ok h now env \<Longrightarrow> new_credential env KindClient \<notin> K \<Longrightarrow>
    auth_step h K now ts (insert (new_credential env KindClient) K) (ae_now env) (snd (MintWorkloadToken env who wid ver expires ts))"
| step_mint_instance: "env_ok h now env \<Longrightarrow> new_credential env KindClient \<notin> K \<Longrightarrow>
    auth_step h K now ts (insert (new_credential env KindClient) K) (ae_now env) (snd (MintInstanceToken env who wid i ts))"
| step_refresh: "env_ok h now env \<Longrightarrow> new_credential env KindClient \<notin> K \<Longrightarrow>
    auth_step h K now ts (insert (new_credential env KindClient) K) (ae_now env) (snd (RefreshWorkloadToken env who wid ver expires ts))"
| step_authenticate: "env_ok h now env \<Longrightarrow>
    auth_step h K now ts K (ae_now env) (snd (Authenticate env c policy credential ts))"
| step_logout: "env_ok h now env \<Longrightarrow> fst (Authenticate env c policy credential ts) = Inr identity \<Longrightarrow>
    auth_step h K now ts K now (snd (Logout identity ts))"
| step_delete: "auth_step h K now ts K now (snd (Token_Delete i ts))"
| step_sweep: "auth_step h K now ts K now (tokens_DeleteExpired m ts)"
| step_revoke_workload: "auth_step h K now ts K now (tokens_DeleteForWorkload wid ts)"
| step_revoke_instance: "auth_step h K now ts K now (tokens_DeleteForInstance wid i ts)"
| step_revoke_superseded: "auth_step h K now ts K now (tokens_DeleteSuperseded wid ver ts)"
| step_reset: "auth_step h K now ts K now (tokens_DeleteRecovery ts)"

inductive auth_reaches ::
  "(string \<Rightarrow> string) \<Rightarrow> string set \<Rightarrow> time \<Rightarrow> token list \<Rightarrow> string set \<Rightarrow> time \<Rightarrow> token list \<Rightarrow> bool"
  for h :: "string \<Rightarrow> string" where
  reached_start: "auth_reaches h K now ts K now ts"
| reached_step: "auth_reaches h K now ts K' now' ts' \<Longrightarrow> auth_step h K' now' ts' K'' now'' ts''
    \<Longrightarrow> auth_reaches h K now ts K'' now'' ts''"

lemma upholds_filters [simp]:
  "upholds new ts (tokens_DeleteExpired m ts)" "upholds new ts (tokens_DeleteForWorkload wid ts)"
  "upholds new ts (tokens_DeleteForInstance wid i ts)" "upholds new ts (tokens_DeleteSuperseded wid ver ts)"
  "upholds new ts (tokens_DeleteRecovery ts)"
  by (simp_all add: tokens_DeleteExpired_def tokens_DeleteForWorkload_def tokens_DeleteForInstance_def
      tokens_DeleteSuperseded_def tokens_DeleteRecovery_def)

lemma drawn: "c \<notin> K \<Longrightarrow> insert c K - K = {c}"
  by auto

lemma auth_step_effect:
  assumes "auth_step h K now ts K' now' ts'"
  shows "K \<subseteq> K' \<and> now \<le> now' \<and> upholds (h ` (K' - K)) ts ts'"
  using assms
proof cases
  case (step_init env)
  then show ?thesis using upholds_Init [of h now env ts] by (simp add: drawn env_ok_def subset_insertI)
next
  case (step_create env who)
  then show ?thesis using upholds_Token_Create [of h now env ts who] by (simp add: drawn env_ok_def subset_insertI)
next
  case (step_login_oidc env c verifier policy raw)
  then show ?thesis
    using upholds_LoginOIDC [of h now env ts c verifier policy raw] by (simp add: drawn env_ok_def subset_insertI)
next
  case (step_login_token env credential)
  then show ?thesis
    using upholds_LoginToken [of h now env ts credential] by (simp add: drawn env_ok_def subset_insertI)
next
  case (step_mint_workload env who wid ver expires)
  then show ?thesis
    using upholds_MintWorkloadToken [of h now env ts who wid ver expires]
    by (simp add: drawn env_ok_def subset_insertI)
next
  case (step_mint_instance env who wid i)
  then show ?thesis
    using upholds_MintInstanceToken [of h now env ts who wid i] by (simp add: drawn env_ok_def subset_insertI)
next
  case (step_refresh env who wid ver expires)
  then show ?thesis
    using upholds_Refresh [of h now env ts who wid ver expires] by (simp add: drawn env_ok_def subset_insertI)
next
  case (step_authenticate env c policy credential)
  then show ?thesis by (simp add: upholds_Authenticate env_ok_def)
qed (simp_all add: upholds_Logout upholds_Token_Delete)

lemma auth_reaches_effect:
  assumes "auth_reaches h K now ts K' now' ts'"
  shows "K \<subseteq> K' \<and> now \<le> now' \<and> upholds (h ` (K' - K)) ts ts'"
  using assms
proof (induction rule: auth_reaches.induct)
  case (reached_step K now ts K' now' ts' K'' now'' ts'')
  note step = auth_step_effect [OF reached_step.hyps(2)]
  have "upholds (h ` (K'' - K)) ts ts'" "upholds (h ` (K'' - K)) ts' ts''"
    using reached_step.IH step unfolding upholds_def by (blast intro: evolves_mono)+
  then show ?case using reached_step.IH step upholds_trans by force
qed simp

lemma tokens_ok_Nil [simp]: "tokens_ok []"
  by (simp add: tokens_ok_def)

end
