(* ===== verification/Access_Properties.thy ===== *)
theory Access_Properties
  imports Access_Control
begin

text \<open>
  What access control guarantees: which requests are served, that a refused credential stays refused, that
  the recovery token goes only by the reset, that a session ends, that a rotation leaves no gap, and that
  conditional writes of the policy exclude each other.
\<close>

section \<open>Looking a credential up\<close>

lemma tokens_hash_unique:
  "tokens_ok ts \<Longrightarrow> t \<in> set ts \<Longrightarrow> u \<in> set ts \<Longrightarrow> tok_Hash t = tok_Hash u \<Longrightarrow> t = u"
  by (auto simp: tokens_ok_def distinct_map dest: inj_onD)

lemma tokens_get_hash:
  assumes "tokens_ok ts"
  shows "tokens_get (\<lambda>t. tok_Hash t = x) ts = Inr t \<longleftrightarrow> t \<in> set ts \<and> tok_Hash t = x"
proof
  show "tokens_get (\<lambda>t. tok_Hash t = x) ts = Inr t \<Longrightarrow> t \<in> set ts \<and> tok_Hash t = x"
    by (auto simp: tokens_get_def dest!: find_SomeD split: option.splits)
next
  assume t: "t \<in> set ts \<and> tok_Hash t = x"
  then obtain u where u: "find (\<lambda>t. tok_Hash t = x) ts = Some u"
    by (cases "find (\<lambda>t. tok_Hash t = x) ts") (auto simp: find_None_iff)
  then have "u = t"
    using t find_SomeD [OF u] tokens_hash_unique [OF assms] by blast
  with u show "tokens_get (\<lambda>t. tok_Hash t = x) ts = Inr t" by (simp add: tokens_get_def)
qed

text \<open>The rows a credential authenticates by; there is at most one.\<close>

definition proves :: "auth_env \<Rightarrow> string \<Rightarrow> token \<Rightarrow> bool" where
  "proves env credential t \<longleftrightarrow>
     KindOf_credential credential \<noteq> None \<and> tok_Hash t = ae_hash env credential \<and> live (ae_now env) t"

lemma auth_lookup_Inr:
  assumes "tokens_ok ts"
  shows "fst (auth_lookup env credential ts) = Inr t \<longleftrightarrow> t \<in> set ts \<and> proves env credential t"
proof (cases "tokens_get (\<lambda>t. tok_Hash t = ae_hash env credential) ts")
  case (Inl e)
  then have "\<not> (t \<in> set ts \<and> tok_Hash t = ae_hash env credential)"
    using tokens_get_hash [OF assms, of "ae_hash env credential" t] by auto
  with Inl show ?thesis by (auto simp: auth_lookup_def proves_def)
next
  case (Inr u)
  then have "t \<in> set ts \<and> tok_Hash t = ae_hash env credential \<longleftrightarrow> t = u"
    using tokens_get_hash [OF assms, of "ae_hash env credential"] by (metis sum.inject(2))
  with Inr show ?thesis by (auto simp: auth_lookup_def proves_def live_def)
qed

lemma auth_lookup_Inl: "fst (auth_lookup env credential ts) = Inl e \<Longrightarrow> e = ErrInvalidCredential"
  by (auto simp: auth_lookup_def split: if_splits sum.splits)

lemma auth_lookup_refused:
  assumes "tokens_ok ts"
  shows "fst (auth_lookup env credential ts) = Inl ErrInvalidCredential \<longleftrightarrow>
    (\<forall>t\<in>set ts. \<not> proves env credential t)"
  using auth_lookup_Inr [OF assms, of env credential] auth_lookup_Inl [of env credential ts]
  by (cases "fst (auth_lookup env credential ts)") (fastforce, metis sum.distinct(1))

lemma Authenticate_fst:
  "fst (Authenticate env c policy credential ts) = (case fst (auth_lookup env credential ts) of
     Inl e \<Rightarrow> Inl e
   | Inr t \<Rightarrow>
       if tok_Type t = KindRecovery
       then Inr \<lparr>idn_Principal = [], idn_Groups = [], idn_Role = RoleAdmin, idn_TokenID = tok_ID t,
                 idn_Recovery = True, idn_Disabled = False\<rparr>
       else (case policy_Get c policy of
           Inl e \<Rightarrow> Inl (Auth_Policy e)
         | Inr (spec, ver) \<Rightarrow>
             Inr \<lparr>idn_Principal = tok_Principal t, idn_Groups = tok_Groups t,
                  idn_Role = fst (Evaluate spec (tok_Principal t) (tok_Groups t)),
                  idn_TokenID = tok_ID t, idn_Recovery = False, idn_Disabled = False\<rparr>))"
  by (simp add: Authenticate_def split: prod.splits sum.splits)

section \<open>Properties\<close>

text \<open>Concrete inputs, for the instances below.\<close>

definition sample_env :: "string \<Rightarrow> string \<Rightarrow> time \<Rightarrow> auth_env" where
  "sample_env secret newid now = \<lparr>ae_secret = secret, ae_newid = newid, ae_now = now, ae_hash = (\<lambda>x. x),
     ae_workload = (\<lambda>_. True)\<rparr>"

definition sample_policy :: Policy where
  "sample_policy = \<lparr>pol_Version = ''v1'', pol_OIDC = None, pol_Groups = [\<lparr>grp_Name = ''ops'', grp_Members = [''alice'']\<rparr>],
     pol_Grants = [\<lparr>grt_Principals = [''bob''], grt_Role = RoleAdmin\<rparr>,
       \<lparr>grt_Principals = [''group:ops''], grt_Role = RoleOperator\<rparr>]\<rparr>"

definition sample_codec :: policy_codec where
  "sample_codec = \<lparr>pc_marshal = (\<lambda>_. Inr ''document''), pc_unmarshal = (\<lambda>_. Inr sample_policy)\<rparr>"

definition sample_stored :: "database_Policy option" where
  "sample_stored = Some \<lparr>dbp_Document = ''document'', dbp_Version = 3, dbp_UpdatedAt = 1\<rparr>"

definition sample_token :: token where
  "sample_token = (client_token ''takt_c_a'' ''static'' ''alice'')\<lparr>tok_ID := ''1'', tok_CreatedAt := 1\<rparr>"

lemmas sample_defs = sample_env_def sample_policy_def sample_codec_def sample_stored_def sample_token_def

lemma sample_ok [simp]: "tokens_ok [sample_token]"
  by (simp add: tokens_ok_def token_ok_def sample_token_def)

lemma sample_env_ok [simp]: "newid \<noteq> [] \<Longrightarrow> 0 < m \<Longrightarrow> m \<le> now \<Longrightarrow> env_ok (\<lambda>x. x) m (sample_env secret newid now)"
  by (simp add: env_ok_def sample_env_def)

text \<open>Whom a grant is made to: a principal by its name, and a group to those the token or the policy puts in it.\<close>

definition granted_to :: "Policy \<Rightarrow> PolicyGrant \<Rightarrow> token \<Rightarrow> bool" where
  "granted_to policy g t \<longleftrightarrow> \<not> HasPrefix (tok_Principal t) groupPrefix \<and> tok_Principal t \<in> set (grt_Principals g)
     \<or> (\<exists>name. groupPrefix @ name \<in> set (grt_Principals g) \<and> (name \<in> set (tok_Groups t)
          \<or> (\<exists>group\<in>set (pol_Groups policy). grp_Name group = name \<and> tok_Principal t \<in> set (grp_Members group))))"

lemma matching_granted: "g \<in> matching policy (tok_Principal t) (tok_Groups t) \<longleftrightarrow> g \<in> set (pol_Grants policy) \<and> granted_to policy g t"
proof -
  have "entry_matches policy who groups entry \<longleftrightarrow> \<not> HasPrefix entry groupPrefix \<and> entry = who
      \<or> (\<exists>name. entry = groupPrefix @ name \<and> (name \<in> set groups
          \<or> (\<exists>group\<in>set (pol_Groups policy). grp_Name group = name \<and> who \<in> set (grp_Members group))))" for who groups entry
    by (auto simp: entry_matches_def list_ex_iff Let_def HasPrefix_iff)
  then show ?thesis by (auto simp: matching_def grantMatches_def granted_to_def list_ex_iff)
qed

text \<open>
  C12. Which requests are served. With authentication on, a request to an operation that requires roles is
  served exactly when it presents a credential that proves a token which is live now, and that token is the
  recovery token, or for every required role the policy as it stands has a grant that names the token's
  principal, or a group of it, and covers the role. So a change of a grant, a revocation or an expiry
  decides the very next request.
\<close>

theorem served_iff_granted:
  assumes "tokens_ok ts" "policy_Get c policy = Inr (spec, ver)" "list_all known_role required"
  shows "fst (serve True env c policy bearer cookie (Some required) ts) = Served \<longleftrightarrow>
    (\<exists>t\<in>set ts. proves env (if bearer = [] then cookie else bearer) t
      \<and> (tok_Type t = KindRecovery \<or>
         (\<forall>r\<in>set required. \<exists>g\<in>set (pol_Grants spec). granted_to spec g t \<and> Allows (grt_Role g) r)))"
proof -
  define credential where "credential = (if bearer = [] then cookie else bearer)"
  show ?thesis
  proof (cases "credential = []")
    case True
    then have "\<not> proves env credential t" for t
      by (simp add: proves_def KindOf_credential_def recoveryPrefix_def clientPrefix_def)
    then show ?thesis
      using True unfolding credential_def [symmetric]
      by (simp add: serve_def resolveIdentity_def credential_def [symmetric] authorize_def anonymous_def Let_def)
  next
    case False
    have serve: "fst (serve True env c policy bearer cookie (Some required) ts)
      = (case fst (Authenticate env c policy credential ts) of
           Inl ErrInvalidCredential \<Rightarrow> Status 401 | Inl e \<Rightarrow> Status 500
         | Inr identity \<Rightarrow> authorize identity (Some required))"
      using False
      by (simp add: serve_def resolveIdentity_def credential_def [symmetric] Let_def
          split: prod.splits sum.splits auth_error.splits)
    show ?thesis
    proof (cases "fst (auth_lookup env credential ts)")
      case (Inl e)
      then show ?thesis
        using serve auth_lookup_Inl [OF Inl] auth_lookup_refused [OF assms(1), of env credential]
        unfolding credential_def [symmetric] by (simp add: Authenticate_fst)
    next
      case (Inr t)
      then have t: "t \<in> set ts" "proves env credential t" using auth_lookup_Inr [OF assms(1)] by auto
      have only: "u = t" if "u \<in> set ts" "proves env credential u" for u
        using that t tokens_hash_unique [OF assms(1)] by (simp add: proves_def)
      have id: "tok_ID t \<noteq> []" using t assms(1) by (auto simp: tokens_ok_def token_ok_def)
      have "fst (serve True env c policy bearer cookie (Some required) ts) = Served \<longleftrightarrow>
        tok_Type t = KindRecovery
        \<or> (\<forall>r\<in>set required. Allows (fst (Evaluate spec (tok_Principal t) (tok_Groups t))) r)"
        using serve Inr assms(2) id by (auto simp: Authenticate_fst authorize_def list_ex_iff)
      moreover have "Allows (fst (Evaluate spec (tok_Principal t) (tok_Groups t))) r
        \<longleftrightarrow> (\<exists>g\<in>set (pol_Grants spec). granted_to spec g t \<and> Allows (grt_Role g) r)" if "r \<in> set required" for r
      proof -
        have "known_role r" using assms(3) that by (simp add: list_all_iff)
        from Evaluate_Allows [OF this, of spec "tok_Principal t" "tok_Groups t"] show ?thesis
          using matching_granted [of _ spec t] by blast
      qed
      ultimately have served: "fst (serve True env c policy bearer cookie (Some required) ts) = Served \<longleftrightarrow>
        tok_Type t = KindRecovery
        \<or> (\<forall>r\<in>set required. \<exists>g\<in>set (pol_Grants spec). granted_to spec g t \<and> Allows (grt_Role g) r)"
        by simp
      show ?thesis unfolding credential_def [symmetric] served
      proof
        assume "tok_Type t = KindRecovery
          \<or> (\<forall>r\<in>set required. \<exists>g\<in>set (pol_Grants spec). granted_to spec g t \<and> Allows (grt_Role g) r)"
        then show "\<exists>t\<in>set ts. proves env credential t \<and> (tok_Type t = KindRecovery
          \<or> (\<forall>r\<in>set required. \<exists>g\<in>set (pol_Grants spec). granted_to spec g t \<and> Allows (grt_Role g) r))"
          using t by blast
      qed (use only in blast)
    qed
  qed
qed

theorem served_iff_granted_witness:
  "fst (serve True (sample_env [] [] 5) sample_codec sample_stored ''takt_c_a'' [] (Some [RoleOperator]) [sample_token])
      = Served
   \<and> fst (serve True (sample_env [] [] 5) sample_codec sample_stored ''takt_c_a'' [] (Some [RoleAdmin]) [sample_token])
      \<noteq> Served"
proof -
  have get: "policy_Get sample_codec sample_stored = Inr (sample_policy, 3)" by code_simp
  have proves: "proves (sample_env [] [] 5) ''takt_c_a'' sample_token" by code_simp
  have granted: "(\<exists>g\<in>set (pol_Grants sample_policy). granted_to sample_policy g sample_token \<and> Allows (grt_Role g) r)
      \<longleftrightarrow> Allows RoleOperator r" for r
    by (auto simp: sample_policy_def granted_to_def sample_token_def client_token_def groupPrefix_def)
  have "tok_Type sample_token = KindClient" "Allows RoleOperator RoleOperator" "\<not> Allows RoleOperator RoleAdmin"
    by (simp_all add: sample_token_def client_token_def Allows_def)
  then show ?thesis
    using served_iff_granted [OF sample_ok get, of "[RoleOperator]" "sample_env [] [] 5" "''takt_c_a''" "[]"]
      served_iff_granted [OF sample_ok get, of "[RoleAdmin]" "sample_env [] [] 5" "''takt_c_a''" "[]"]
    by (simp add: granted proves)
qed

text \<open>
  C13. A credential once refused is refused for good. Whatever was minted, rotated, revoked or swept since,
  and whatever the policy says, a credential that was drawn and that failed to authenticate, because it was
  revoked or has expired, never authenticates again, provided the hash has not collided on the credentials
  drawn.
\<close>

theorem refused_for_good:
  assumes "auth_reaches h K now ts K' now' ts'" "tokens_ok ts" "inj_on h K'"
    and "credential \<in> K" "env_ok h m env" "ae_now env \<le> now" "env_ok h now' env'"
    and "fst (Authenticate env c policy credential ts) = Inl ErrInvalidCredential"
  shows "fst (Authenticate env' c' policy' credential ts') = Inl ErrInvalidCredential"
proof -
  note effect = auth_reaches_effect [OF assms(1)]
  have ok': "tokens_ok ts'" and evolved: "evolves (h ` (K' - K)) ts ts'"
    using effect assms(2) by (auto simp: upholds_def)
  have hash: "ae_hash env = h" "ae_hash env' = h" and later: "ae_now env \<le> ae_now env'"
    using assms(5-7) effect by (auto simp: env_ok_def)
  have refused: "\<forall>t\<in>set ts. \<not> proves env credential t"
    using assms(8) auth_lookup_refused [OF assms(2), of env credential]
    by (auto simp: Authenticate_fst split: sum.splits if_splits)
  have "\<not> proves env' credential t'" if t': "t' \<in> set ts'" for t'
  proof
    assume p: "proves env' credential t'"
    consider t where "t \<in> set ts" "shrunk t t'" | d where "d \<in> K' - K" "tok_Hash t' = h d"
      using evolved t' unfolding evolves_def by blast
    then show False
    proof cases
      case 1
      have "live (ae_now env) t'" using p later by (auto simp: proves_def live_def)
      then have "proves env credential t" using 1(2) p hash by (simp add: proves_def shrunk_def)
      with refused 1(1) show False by blast
    next
      case 2
      then have "h d = h credential" using p hash by (simp add: proves_def)
      then show False using assms(3,4) 2(1) effect by (auto simp: inj_on_def)
    qed
  qed
  then show ?thesis
    using auth_lookup_refused [OF ok', of env' credential] by (simp add: Authenticate_fst)
qed

theorem refused_for_good_witness:
  "fst (Authenticate (sample_env [] ''2'' 9) sample_codec None ''takt_c_b''
      (snd (Token_Create (sample_env ''a'' ''1'' 5) ''alice'' []))) = Inl ErrInvalidCredential"
proof (rule refused_for_good)
  have "auth_step (\<lambda>x. x) {''takt_c_b''} 1 [] (insert (new_credential (sample_env ''a'' ''1'' 5) KindClient) {''takt_c_b''})
      (ae_now (sample_env ''a'' ''1'' 5)) (snd (Token_Create (sample_env ''a'' ''1'' 5) ''alice'' []))"
    by (rule step_create) (simp_all add: new_credential_def sample_env_def clientPrefix_def recoveryPrefix_def env_ok_def)
  then show "auth_reaches (\<lambda>x. x) {''takt_c_b''} 1 []
      (insert (new_credential (sample_env ''a'' ''1'' 5) KindClient) {''takt_c_b''}) (ae_now (sample_env ''a'' ''1'' 5))
      (snd (Token_Create (sample_env ''a'' ''1'' 5) ''alice'' []))"
    by (rule reached_step [OF reached_start])
  show "env_ok (\<lambda>x. x) 1 (sample_env [] ''2'' 1)" "ae_now (sample_env [] ''2'' 1) \<le> 1"
    "env_ok (\<lambda>x. x) (ae_now (sample_env ''a'' ''1'' 5)) (sample_env [] ''2'' 9)"
    by (simp_all add: env_ok_def sample_env_def)
  show "fst (Authenticate (sample_env [] ''2'' 1) sample_codec None ''takt_c_b'' []) = Inl ErrInvalidCredential"
    by code_simp
qed (simp_all add: inj_on_def)

text \<open>
  A session ends, and cannot renew itself. What a login mints from a static token stops authenticating
  twelve hours later at the latest, whatever happens meanwhile, and it never exchanges for another.
\<close>

lemma session_ends:
  assumes "LoginToken env credential ts = (Inr (t, session), ts1)" "tokens_ok ts" "env_ok h now env"
    and "session \<notin> K" "auth_reaches h (insert session K) (ae_now env) ts1 K' now' ts'" "inj_on h K'"
    and "env_ok h now' env'"
  shows "(\<exists>s\<in>set ts. proves env credential s \<and> tok_Source s = ''static'' \<and> tok_Principal t = tok_Principal s)
    \<and> fst (LoginToken env' session ts') = Inl ErrInvalidCredential
    \<and> (ae_now env' > ae_now env + TokenTTL
        \<longrightarrow> fst (Authenticate env' c policy session ts') = Inl ErrInvalidCredential)"
proof -
  obtain s where lookup: "fst (auth_lookup env credential ts) = Inr s" and static: "tok_Source s = ''static''"
    and mint: "auth_mint env ''session'' (tok_Principal s) (tok_Groups s) (snd (auth_lookup env credential ts))
      = (Inr (t, session), ts1)"
    using assms(1) by (auto simp: LoginToken_def split: prod.splits sum.splits if_splits)
  let ?ts0 = "snd (auth_lookup env credential ts)"
  have ok0: "tokens_ok ?ts0"
    using upholds_lookup [of "{}" ts env credential] assms(2) by (simp add: upholds_def)
  let ?new = "(client_token (ae_hash env (new_credential env KindClient)) ''session'' (tok_Principal s))
    \<lparr>tok_Groups := tok_Groups s, tok_ExpiresAt := ae_now env + TokenTTL\<rparr>"
  have session: "session = new_credential env KindClient"
    and create: "tokens_Create env ?new ?ts0 = (Inr t, ts1)"
    using mint by (auto simp: auth_mint_def split: prod.splits sum.splits)
  have effect: "tokens_ok ts1" "t = ?new\<lparr>tok_ID := ae_newid env, tok_CreatedAt := ae_now env\<rparr>"
    "ts1 = ?ts0 @ [t\<lparr>tok_LastUsedAt := 0\<rparr>]"
    using tokens_Create_effect [OF create ok0] assms(3) by (auto simp: env_ok_def token_ok_def TokenTTL_def)
  have hash: "ae_hash env = h" "ae_hash env' = h" using assms(3,7) by (simp_all add: env_ok_def)
  note reached = auth_reaches_effect [OF assms(5)]
  have ok': "tokens_ok ts'" and evolved: "evolves (h ` (K' - insert session K)) ts1 ts'"
    using reached effect(1) by (auto simp: upholds_def)
  have descends: "tok_Source t' = ''session'' \<and> \<not> live m t'"
    if t': "t' \<in> set ts'" "tok_Hash t' = h session" "m > ae_now env + TokenTTL" for t' m
  proof -
    have "tok_Hash t' \<notin> h ` (K' - insert session K)"
      using t'(2) assms(6) reached by (auto simp: inj_on_def)
    then obtain u where u: "u \<in> set ts1" "shrunk u t'" using evolved t'(1) unfolding evolves_def by blast
    have "tok_Hash u = tok_Hash (t\<lparr>tok_LastUsedAt := 0\<rparr>)"
      using u(2) t'(2) effect(2) session hash by (simp add: shrunk_def)
    then have "u = t\<lparr>tok_LastUsedAt := 0\<rparr>"
      using tokens_hash_unique [OF effect(1) u(1)] effect(3) by simp
    then have "tok_Source u = ''session'' \<and> \<not> live m u"
      using t'(3) effect(2) assms(3) by (simp add: live_def env_ok_def TokenTTL_def)
    then show ?thesis using u(2) by (auto simp: shrunk_def)
  qed
  have "fst (LoginToken env' session ts') = Inl ErrInvalidCredential"
  proof (cases "fst (auth_lookup env' session ts')")
    case (Inl e)
    then show ?thesis using auth_lookup_Inl [OF Inl] by (auto simp: LoginToken_def split: prod.splits sum.splits)
  next
    case (Inr u)
    then have "u \<in> set ts'" "tok_Hash u = h session"
      using auth_lookup_Inr [OF ok'] hash by (auto simp: proves_def)
    then have "tok_Source u \<noteq> ''static''" using descends [of u "ae_now env + TokenTTL + 1"] by simp
    with Inr show ?thesis by (auto simp: LoginToken_def split: prod.splits)
  qed
  moreover have "fst (Authenticate env' c policy session ts') = Inl ErrInvalidCredential"
    if "ae_now env' > ae_now env + TokenTTL"
  proof -
    have "\<forall>u\<in>set ts'. \<not> proves env' session u" using descends that hash by (auto simp: proves_def)
    then show ?thesis using auth_lookup_refused [OF ok', of env' session] by (simp add: Authenticate_fst)
  qed
  ultimately show ?thesis
    using lookup static auth_lookup_Inr [OF assms(2), of env credential s] effect(2) by auto
qed

section \<open>The recovery token\<close>

definition recovery :: "token \<Rightarrow> bool" where
  "recovery t \<longleftrightarrow> tok_Type t = KindRecovery \<and> IsZero (tok_ExpiresAt t) \<and> tok_WorkloadID t = []"

text \<open>A recovery token that was there is still there.\<close>

definition spares :: "token list \<Rightarrow> token list \<Rightarrow> bool" where
  "spares ts ts' \<longleftrightarrow> (\<forall>t\<in>set ts. recovery t \<longrightarrow>
     (\<exists>t'\<in>set ts'. recovery t' \<and> tok_ID t' = tok_ID t \<and> tok_Hash t' = tok_Hash t))"

lemma spares_refl [simp]: "spares ts ts"
  by (auto simp: spares_def)

lemma spares_Create: "tokens_Create env t us = (a, vs) \<Longrightarrow> spares ts us \<Longrightarrow> spares ts vs"
  by (fastforce simp: tokens_Create_def spares_def Let_def split: if_splits)

lemma spares_filter: "(\<And>t. t \<in> set us \<Longrightarrow> recovery t \<Longrightarrow> P t) \<Longrightarrow> spares ts us \<Longrightarrow> spares ts (filter P us)"
  by (fastforce simp: spares_def)

lemma spares_map:
  assumes "\<And>t. t \<in> set us \<Longrightarrow> recovery t \<Longrightarrow> recovery (f t) \<and> tok_ID (f t) = tok_ID t \<and> tok_Hash (f t) = tok_Hash t"
    and "spares ts us"
  shows "spares ts (map f us)"
  using assms unfolding spares_def by (metis imageI list.set_map)

lemma spares_touch: "spares ts us \<Longrightarrow> spares ts (tokens_Touch i m us)"
  unfolding tokens_Touch_def by (rule spares_map) (simp add: recovery_def)

lemma spares_expire: "spares ts us \<Longrightarrow> spares ts (tokens_ExpireMinted wid who ver i m us)"
  unfolding tokens_ExpireMinted_def
  by (rule spares_map) (auto simp: recovery_def shared_for_def for_workload_def)

lemma spares_bulk [simp]:
  "spares ts (tokens_DeleteMinted wid who i v ts)" "spares ts (tokens_DeleteForWorkload wid ts)"
  "spares ts (tokens_DeleteForInstance wid j ts)" "spares ts (tokens_DeleteSuperseded wid ver ts)"
  "spares ts (tokens_DeleteExpired m ts)"
  unfolding tokens_DeleteMinted_def tokens_DeleteForWorkload_def tokens_DeleteForInstance_def
    tokens_DeleteSuperseded_def tokens_DeleteExpired_def
  by (rule spares_filter; auto simp: recovery_def for_workload_def)+

lemma spares_mint: "auth_mint env source who groups us = (a, vs) \<Longrightarrow> spares ts us \<Longrightarrow> spares ts vs"
  by (auto simp: auth_mint_def dest: spares_Create split: prod.splits sum.splits)

lemma spares_lookup: "auth_lookup env credential ts = (a, vs) \<Longrightarrow> spares ts vs"
  by (auto simp: auth_lookup_def spares_touch split: if_splits sum.splits)

lemma spares_MintWorkloadToken: "MintWorkloadToken env who wid ver expires ts = (a, vs) \<Longrightarrow> spares ts vs"
  by (auto simp: MintWorkloadToken_def dest!: spares_Create [OF _ spares_refl] intro: spares_expire
      split: prod.splits sum.splits option.splits)

lemma spares_minting:
  "spares ts (snd (Token_Init env ts))" "spares ts (snd (Token_Create env who ts))"
  "spares ts (snd (LoginOIDC env c verifier policy raw ts))" "spares ts (snd (LoginToken env credential ts))"
  "spares ts (snd (MintWorkloadToken env who wid ver expires ts))"
  "spares ts (snd (MintInstanceToken env who wid i ts))"
  "spares ts (snd (RefreshWorkloadToken env who wid ver expires ts))"
  "spares ts (snd (Authenticate env c policy credential ts))"
proof -
  show "spares ts (snd (Token_Init env ts))" "spares ts (snd (Token_Create env who ts))"
    by (auto simp: Token_Init_def Token_Create_def dest: spares_Create [OF _ spares_refl]
        split: prod.splits sum.splits option.splits token_error.splits)
  show "spares ts (snd (LoginOIDC env c verifier policy raw ts))"
    by (auto simp: LoginOIDC_def Let_def split: option.splits sum.splits prod.splits claim.splits)
      (metis spares_mint spares_refl prod.collapse)+
  show "spares ts (snd (LoginToken env credential ts))"
    by (auto simp: LoginToken_def dest: spares_lookup split: prod.splits sum.splits)
      (metis spares_lookup spares_mint prod.collapse)+
  show "spares ts (snd (MintWorkloadToken env who wid ver expires ts))"
    by (rule spares_MintWorkloadToken [OF prod.collapse [symmetric]])
  show "spares ts (snd (MintInstanceToken env who wid i ts))"
    by (auto simp: MintInstanceToken_def dest: spares_Create [OF _ spares_bulk(1)]
        split: prod.splits sum.splits option.splits)
  show "spares ts (snd (RefreshWorkloadToken env who wid ver expires ts))"
    by (auto simp: RefreshWorkloadToken_def Let_def dest: spares_MintWorkloadToken split: prod.splits sum.splits)
  show "spares ts (snd (Authenticate env c policy credential ts))"
    by (auto simp: Authenticate_def dest: spares_lookup split: prod.splits sum.splits)
qed

lemma spares_Token_Delete:
  assumes "tokens_ok ts"
  shows "spares ts (snd (Token_Delete i ts))"
proof (cases "tokens_get (\<lambda>t. tok_ID t = i) ts")
  case (Inr u)
  then have u: "u \<in> set ts" "tok_ID u = i" by (auto simp: tokens_get_def dest!: find_SomeD split: option.splits)
  have "spares ts (filter (\<lambda>t. tok_ID t \<noteq> i) ts)" if "tok_Type u \<noteq> KindRecovery"
  proof (rule spares_filter)
    fix t assume t: "t \<in> set ts" "recovery t"
    show "tok_ID t \<noteq> i"
    proof
      assume "tok_ID t = i"
      then have "t = u" using t(1) u assms by (auto simp: tokens_ok_def distinct_map dest: inj_onD)
      then show False using t(2) that by (simp add: recovery_def)
    qed
  qed simp
  then show ?thesis using Inr u by (auto simp: Token_Delete_def tokens_Delete_def)
qed (simp add: Token_Delete_def)

text \<open>An identity a credential has proved: one that is not the recovery identity names no recovery token.\<close>

lemma spares_Logout:
  assumes "tokens_ok ts" "\<not> idn_Recovery identity \<Longrightarrow>
    \<forall>t\<in>set ts. tok_ID t = idn_TokenID identity \<longrightarrow> tok_Type t \<noteq> KindRecovery"
  shows "spares ts (snd (Logout identity ts))"
  using assms by (auto simp: Logout_def tokens_Delete_def recovery_def intro!: spares_filter)

lemma authentic:
  assumes "tokens_ok ts" "fst (Authenticate env c policy credential ts) = Inr identity" "\<not> idn_Recovery identity"
  shows "\<forall>t\<in>set ts. tok_ID t = idn_TokenID identity \<longrightarrow> tok_Type t \<noteq> KindRecovery"
proof -
  obtain u where u: "fst (auth_lookup env credential ts) = Inr u" "tok_Type u \<noteq> KindRecovery"
    "idn_TokenID identity = tok_ID u"
    using assms(2,3) by (auto simp: Authenticate_fst split: sum.splits if_splits prod.splits)
  then have "u \<in> set ts" using auth_lookup_Inr [OF assms(1)] by blast
  then show ?thesis using u assms(1) by (auto simp: tokens_ok_def distinct_map dest: inj_onD)
qed

lemma auth_step_spares:
  assumes "auth_step h K now ts K' now' ts'" "tokens_ok ts"
  shows "spares ts ts' \<or> ts' = tokens_DeleteRecovery ts"
  using assms(1)
proof cases
  case (step_logout env c policy credential identity)
  then show ?thesis using spares_Logout [OF assms(2)] authentic [OF assms(2)] by metis
qed (simp_all add: spares_minting spares_Token_Delete assms(2))

text \<open>
  Only the reset takes the recovery token. While one exists, no step but the reset file's removes it or
  makes it expire, and there is never a second; initialising again is refused and leaves the table alone;
  and whoever presents its credential is served whatever the policy says.
\<close>

lemma recovery_only_reset:
  assumes "auth_step h K now ts K' now' ts'" "tokens_ok ts" "t \<in> set ts" "tok_Type t = KindRecovery"
    and "KindOf_credential credential \<noteq> None" "ae_hash env credential = tok_Hash t"
  shows "((\<exists>t'\<in>set ts'. tok_ID t' = tok_ID t \<and> tok_Hash t' = tok_Hash t \<and> (\<forall>m. live m t')
          \<and> {u \<in> set ts'. tok_Type u = KindRecovery} = {t'})
        \<or> ts' = tokens_DeleteRecovery ts)
    \<and> Token_Init env ts = (Inl ErrACLInitialized, ts)
    \<and> fst (serve enabled env c policy credential cookie scopes ts) = Served"
proof -
  have rec: "recovery t" using assms(2-4) by (auto simp: recovery_def tokens_ok_def token_ok_def)
  have ok': "tokens_ok ts'" using auth_step_effect [OF assms(1)] assms(2) by (simp add: upholds_def)
  have kept: "\<exists>t'\<in>set ts'. tok_ID t' = tok_ID t \<and> tok_Hash t' = tok_Hash t \<and> (\<forall>m. live m t')
      \<and> {u \<in> set ts'. tok_Type u = KindRecovery} = {t'}" if spared: "spares ts ts'"
  proof -
    obtain t' where t': "t' \<in> set ts'" "recovery t'" "tok_ID t' = tok_ID t" "tok_Hash t' = tok_Hash t"
      using spared rec assms(3) unfolding spares_def by blast
    then have "{u \<in> set ts'. tok_Type u = KindRecovery} = {t'}"
      using ok' unfolding tokens_ok_def recovery_def by blast
    with t' show ?thesis by (auto simp: recovery_def live_def)
  qed
  have "KindRecovery \<in> tok_Type ` set ts" using assms(3,4) by (metis imageI)
  then have init: "Token_Init env ts = (Inl ErrACLInitialized, ts)"
    by (simp add: Token_Init_def tokens_Create_def)
  have "fst (auth_lookup env credential ts) = Inr t"
    using auth_lookup_Inr [OF assms(2), of env credential t] assms(3,5,6) rec
    by (simp add: proves_def live_def recovery_def)
  then have "fst (Authenticate env c policy credential ts) = Inr \<lparr>idn_Principal = [], idn_Groups = [],
      idn_Role = RoleAdmin, idn_TokenID = tok_ID t, idn_Recovery = True, idn_Disabled = False\<rparr>"
    using assms(4) by (simp add: Authenticate_fst)
  moreover have "credential \<noteq> []" using assms(5) by (auto simp: KindOf_credential_def recoveryPrefix_def clientPrefix_def)
  ultimately have "fst (serve enabled env c policy credential cookie scopes ts) = Served"
    by (auto simp: serve_def resolveIdentity_def authorize_def disabled_def Let_def split: prod.splits sum.splits)
  then show ?thesis using init kept auth_step_spares [OF assms(1,2)] by blast
qed

section \<open>Rotation\<close>

text \<open>
  A rotation leaves no gap. When the shared token of a workload is refreshed without minting, the newest
  one stays valid for more than half its life to come; when a new one is minted, it authenticates for its
  full life, or for good when it is not to rotate, and whatever shared token the workload may still hold
  stays valid for the grace period, or as long as it would have been.
\<close>

lemma rotation_leaves_no_gap:
  assumes "RefreshWorkloadToken env who wid ver expires ts = (Inr (credential, fresh), ts')" "tokens_ok ts"
    and "env_ok h now env" "wid \<noteq> []"
  shows "(\<not> fresh \<longrightarrow> ts' = ts \<and> (\<exists>t\<in>set ts. shared_for wid ver who t \<and> live (ae_now env + rotateMargin) t))
    \<and> (fresh \<longrightarrow> (\<exists>t\<in>set ts'. shared_for wid ver who t \<and> tok_Hash t = h credential
            \<and> tok_ExpiresAt t = (if expires then ae_now env + workloadTokenTTL else 0))
        \<and> (\<forall>m t. m \<le> ae_now env + rotationGrace \<and> t \<in> set ts \<and> live m t \<longrightarrow>
             (\<exists>t'\<in>set ts'. tok_ID t' = tok_ID t \<and> tok_Hash t' = tok_Hash t \<and> live m t')))"
proof -
  let ?keep = "case tokens_GetForWorkload wid ver who ts of Inl e \<Rightarrow> False
    | Inr t \<Rightarrow> IsZero (tok_ExpiresAt t) \<or> time_Sub (tok_ExpiresAt t) (ae_now env) > rotateMargin"
  show ?thesis
  proof (cases ?keep)
    case True
    then obtain t where t: "tokens_GetForWorkload wid ver who ts = Inr t"
      "IsZero (tok_ExpiresAt t) \<or> time_Sub (tok_ExpiresAt t) (ae_now env) > rotateMargin"
      by (auto split: sum.splits)
    have "rotateMargin < tok_ExpiresAt t - ae_now env"
      if "time_Sub (tok_ExpiresAt t) (ae_now env) > rotateMargin"
      using that by (simp add: time_Sub_def rotateMargin_def workloadTokenTTL_def TokenTTL_def
          minDuration_def maxDuration_def split: if_splits)
    then have "live (ae_now env + rotateMargin) t" using t(2) by (auto simp: live_def)
    moreover have "t \<in> set ts" "shared_for wid ver who t"
      using t(1) by (auto simp: tokens_GetForWorkload_def tokens_get_def dest!: find_SomeD split: option.splits)
    ultimately show ?thesis
      using assms(1) True by (auto simp: RefreshWorkloadToken_def split: prod.splits sum.splits)
  next
    case False
    let ?t = "(client_token (ae_hash env (new_credential env KindClient)) ''workload'' who)\<lparr>tok_WorkloadID := wid,
      tok_WorkloadVersion := Some ver, tok_ExpiresAt := (if expires then ae_now env + workloadTokenTTL else 0)\<rparr>"
    have mint: "MintWorkloadToken env who wid ver expires ts = (Inr credential, ts')" and fresh: fresh
      using assms(1) False by (auto simp: RefreshWorkloadToken_def split: prod.splits sum.splits)
    then obtain stored us where create: "tokens_Create env ?t ts = (Inr stored, us)"
      and ts': "ts' = tokens_ExpireMinted wid who ver (tok_ID stored) (ae_now env + rotationGrace) us"
      and credential: "credential = new_credential env KindClient"
      by (auto simp: MintWorkloadToken_def split: prod.splits sum.splits option.splits split del: if_split)
    have effect: "stored = ?t\<lparr>tok_ID := ae_newid env, tok_CreatedAt := ae_now env\<rparr>"
      "us = ts @ [stored\<lparr>tok_LastUsedAt := 0\<rparr>]"
      using tokens_Create_effect [OF create assms(2)] assms(3) by (auto simp: env_ok_def token_ok_def)
    have "shared_for wid ver who (stored\<lparr>tok_LastUsedAt := 0\<rparr>)"
      using assms(4) effect(1) by (simp add: shared_for_def for_workload_def client_token_def)
    then have new: "\<exists>t\<in>set ts'. shared_for wid ver who t \<and> tok_Hash t = h credential
        \<and> tok_ExpiresAt t = (if expires then ae_now env + workloadTokenTTL else 0)"
      using effect(1) assms(3) credential
      unfolding ts' effect(2) tokens_ExpireMinted_def by (auto simp: env_ok_def)
    have old: "\<exists>t'\<in>set ts'. tok_ID t' = tok_ID t \<and> tok_Hash t' = tok_Hash t \<and> live m t'"
      if "m \<le> ae_now env + rotationGrace" "t \<in> set ts" "live m t" for m t
    proof -
      let ?f = "\<lambda>t. if shared_for wid ver who t \<and> tok_ID t \<noteq> tok_ID stored
          \<and> (IsZero (tok_ExpiresAt t) \<or> tok_ExpiresAt t > ae_now env + rotationGrace)
        then t\<lparr>tok_ExpiresAt := ae_now env + rotationGrace\<rparr> else t"
      have "?f t \<in> set ts'" using that(2) unfolding ts' effect(2) tokens_ExpireMinted_def by simp
      moreover have "tok_ID (?f t) = tok_ID t \<and> tok_Hash (?f t) = tok_Hash t \<and> live m (?f t)"
        using that(1,3) by (simp add: live_def)
      ultimately show ?thesis by blast
    qed
    from fresh new old show ?thesis by blast
  qed
qed

section \<open>Writing the policy\<close>

text \<open>
  Conditional writes of the policy exclude each other. An apply that fails leaves the stored policy alone.
  One that succeeds was conditioned on the version that was current, stored a valid document that reads back
  as it was submitted, and either stored nothing, since it is what was there, or advanced the version by one,
  so that every other apply conditioned on the version it replaced is refused with the policy untouched.
\<close>

lemma policy_writes_exclude:
  assumes "\<forall>q document. pc_marshal c q = Inr document \<longrightarrow> pc_unmarshal c document = Inr q"
  shows "case PolicyService_Apply c now policy ifMatch stored of
      (Inl e, stored') \<Rightarrow> stored' = stored
    | (Inr (p, ver), stored') \<Rightarrow>
        ValidatePolicy policy = None \<and> p = policy \<and> policy_Get c stored' = Inr (policy, ver)
        \<and> (case policy_Get c stored of Inl e \<Rightarrow> True | Inr (old, current) \<Rightarrow> current = ifMatch)
        \<and> (stored' = stored \<and> ver = ifMatch
           \<or> ver = ifMatch + 1
             \<and> (\<forall>now' q. \<exists>e. PolicyService_Apply c now' q ifMatch stored' = (Inl e, stored')))"
proof (cases "ValidatePolicy policy")
  case (Some e)
  then show ?thesis by (simp add: PolicyService_Apply_def)
next
  case None
  show ?thesis
  proof (cases "pc_marshal c policy")
    case (Inl e)
    with None show ?thesis by (simp add: PolicyService_Apply_def)
  next
    case (Inr document)
    have round: "pc_unmarshal c document = Inr policy" using assms Inr by blast
    have refused: "\<exists>e. PolicyService_Apply c now' q ifMatch (Some d) = (Inl e, Some d)"
      if "dbp_Version d = ifMatch + 1" for now' q d
      using that by (simp add: PolicyService_Apply_def policy_Apply_def split: option.split sum.split)
    show ?thesis
      using None Inr round refused
      by (auto simp: PolicyService_Apply_def policy_Apply_def policy_Get_def hydratePolicy_def Let_def
          split: option.splits sum.splits)
  qed
qed

end
