(* ===== verification/Workload_View.thy ===== *)
theory Workload_View
  imports Workload_Store Workload_State Health_Check
begin

text \<open>
  How a stored workload is reported together with what its drivers observe
  (\<open>internal/server/service/workload_view.go\<close>), and the listing of workloads by queries on their stored
  specifications (\<open>List\<close>, \<open>Fleet\<close> and \<open>parseQueries\<close> of \<open>internal/server/service/workload.go\<close>,
  \<open>internal/server/database/query.go\<close>).

  The answers of the drivers are an argument, in the order the drivers are asked. So is SQLite's
  \<open>json_extract\<close>, which gives nothing for a path it cannot parse and \<open>Some None\<close> for a path the document
  does not have. A health is the result of a check, or \<open>None\<close> where nothing is checked.
\<close>

section \<open>Views\<close>

record view_Instance =
  vi_Instance :: Instance
  vi_Health :: "Result option"

record ResolvedPort =
  rp_Instance :: int
  rp_Name :: string
  rp_To :: int
  rp_From :: int
  rp_Protocol :: Protocol
  rp_Dynamic :: bool

record view_Workload =
  vw_Name :: string
  vw_Version :: int
  vw_Runtime :: string
  vw_Spec :: Spec
  vw_Labels :: string_map
  vw_Instances :: "view_Instance list"
  vw_Ports :: "ResolvedPort list"
  vw_State :: workload_state
  vw_Deleting :: bool
  vw_Suspended :: bool
  vw_ImageDrifted :: bool
  vw_CreatedAt :: time
  vw_UpdatedAt :: time
  vw_NextRun :: time

text \<open>What the service asks of its collaborators, each of which but the decoding may be absent.\<close>

record view_env =
  ve_unmarshal :: "string \<Rightarrow> goerr + Spec"
  ve_cron :: "string \<Rightarrow> (time \<Rightarrow> time) option"
  ve_checker :: "(string \<Rightarrow> int \<Rightarrow> Result option) option"
  ve_pulling :: "(string \<Rightarrow> int \<Rightarrow> bool) option"
  ve_behind :: "string \<Rightarrow> bool"
  ve_extract :: "string \<Rightarrow> string \<Rightarrow> string option option"

section \<open>Observing\<close>

type_synonym observation = "(string \<times> (goerr + Instance list)) list"

fun observed_instances :: "observation \<Rightarrow> Instance list" where
  "observed_instances [] = []"
| "observed_instances ((runtime, answer) # ds) =
     (case answer of Inl e \<Rightarrow> [] | Inr is \<Rightarrow> is) @ observed_instances ds"

definition unobserved_runtimes :: "observation \<Rightarrow> string list" where
  "unobserved_runtimes ds = map fst (filter (\<lambda>(runtime, answer). isl answer) ds)"

text \<open>The instances grouped by the workload they say they belong to, and the runtimes that did not answer.\<close>

definition service_observe :: "observation \<Rightarrow> (string \<Rightarrow> Instance list) \<times> string list" where
  "service_observe ds =
     ((\<lambda>name. filter (\<lambda>i. inst_Workload i = name) (observed_instances ds)), unobserved_runtimes ds)"

definition view_healths :: "view_env \<Rightarrow> string \<Rightarrow> int \<Rightarrow> Result option" where
  "view_healths env w i = (case ve_checker env of None \<Rightarrow> None | Some result \<Rightarrow> result w i)"

definition view_pulling :: "view_env \<Rightarrow> string \<Rightarrow> int \<Rightarrow> bool" where
  "view_pulling env w i = (case ve_pulling env of None \<Rightarrow> False | Some pulling \<Rightarrow> pulling w i)"

section \<open>One workload\<close>

definition healthState :: "State_driver \<Rightarrow> Result option \<Rightarrow> State_driver" where
  "healthState st h = (case h of
       None \<Rightarrow> st
     | Some result \<Rightarrow>
         if st \<noteq> StateRunning then st
         else (case hr_Status result of
                 StatusUnhealthy \<Rightarrow> StateFailed
               | StatusStarting \<Rightarrow> StatePending
               | StatusHealthy \<Rightarrow> st))"

text \<open>The verdict first, then the restart policy, then the wait for an image.\<close>

definition folded :: "view_env \<Rightarrow> Restart \<Rightarrow> bool \<Rightarrow> string \<Rightarrow> Instance \<Rightarrow> Instance" where
  "folded env policy scheduled w i =
     (let one = i\<lparr>inst_State := healthState (inst_State i) (view_healths env w (inst_Index i))\<rparr>;
          two = one\<lparr>inst_State := Completion one policy scheduled\<rparr>
      in two\<lparr>inst_State := Replacing two (view_pulling env w (inst_Index i))\<rparr>)"

definition nextRun :: "view_env \<Rightarrow> Schedule option \<Rightarrow> Instance list \<Rightarrow> time \<Rightarrow> time" where
  "nextRun env schedule is applied = (case schedule of
       None \<Rightarrow> 0
     | Some sch \<Rightarrow> (case ve_cron env (sch_Cron sch) of
           None \<Rightarrow> 0
         | Some next_after \<Rightarrow>
             (let latest = fold (\<lambda>i t. if inst_StartedAt i > t then inst_StartedAt i else t) is 0
              in next_after (if applied > latest then applied else latest))))"

definition newResolvedPorts :: "database_Port list \<Rightarrow> ResolvedPort list" where
  "newResolvedPorts = map (\<lambda>p. \<lparr>rp_Instance = prt_Instance p, rp_Name = prt_Name p, rp_To = prt_Container p,
     rp_From = prt_Host p, rp_Protocol = prt_Protocol p, rp_Dynamic = prt_Dynamic p\<rparr>)"

text \<open>Decoding fills in the restart section, so a decoded specification has one.\<close>

definition newWorkload ::
  "view_env \<Rightarrow> database_Workload \<Rightarrow> Instance list \<Rightarrow> database_Port list \<Rightarrow> goerr + view_Workload" where
  "newWorkload env row observed ports = (case DecodeWorkload (ve_unmarshal env) (row_Spec row) of
       Inl e \<Rightarrow> Inl e
     | Inr spec \<Rightarrow>
         (let deleting = \<not> IsZero (row_DeletedAt row);
              suspended = \<not> IsZero (row_SuspendedAt row);
              policy = (case spec_Restart spec of None \<Rightarrow> new_Restart | Some r \<Rightarrow> r);
              is = map (folded env policy (spec_Schedule spec \<noteq> None) (row_Name row))
                     (filter (\<lambda>i. \<not> inst_Retained i) observed)
          in Inr \<lparr>vw_Name = row_Name row, vw_Version = row_Version row, vw_Runtime = row_Runtime row,
               vw_Spec = spec, vw_Labels = row_Labels row,
               vw_Instances = map (\<lambda>i. \<lparr>vi_Instance = i, vi_Health = view_healths env (row_Name row) (inst_Index i)\<rparr>) is,
               vw_Ports = newResolvedPorts ports, vw_State = state_Of is deleting suspended,
               vw_Deleting = deleting, vw_Suspended = suspended, vw_ImageDrifted = ve_behind env (row_Name row),
               vw_CreatedAt = row_CreatedAt row, vw_UpdatedAt = row_UpdatedAt row,
               vw_NextRun = (if suspended then 0 else nextRun env (spec_Schedule spec) is (row_UpdatedAt row))\<rparr>))"

definition service_hydrate ::
  "view_env \<Rightarrow> database \<Rightarrow> observation \<Rightarrow> database_Workload \<Rightarrow> goerr + view_Workload" where
  "service_hydrate env db ds row =
     newWorkload env row (observed_instances ds) (table_List (db_ports db) (row_ID row))"

section \<open>Queries\<close>

record Query =
  q_Path :: string
  q_Value :: string

datatype query_error = ErrInvalidQuery | ErrInvalidQueryPath | Query_Failed goerr

fun parseQueries :: "string list \<Rightarrow> query_error + Query list" where
  "parseQueries [] = Inr []"
| "parseQueries (q # qs) = (case Cut q (CHR ''='') of
       (path, v, ok) \<Rightarrow>
         if \<not> ok \<or> path = [] then Inl ErrInvalidQuery
         else map_sum id (Cons \<lparr>q_Path = path, q_Value = v\<rparr>) (parseQueries qs))"

definition validPaths :: "(string \<Rightarrow> string \<Rightarrow> string option option) \<Rightarrow> Query list \<Rightarrow> bool" where
  "validPaths extract qs \<longleftrightarrow> list_all (\<lambda>q. extract ''{}'' (q_Path q) \<noteq> None) qs"

text \<open>A document without the path compares as unknown, which selects nothing.\<close>

definition query_filter :: "(string \<Rightarrow> string \<Rightarrow> string option option) \<Rightarrow> Query list \<Rightarrow> string \<Rightarrow> bool" where
  "query_filter extract qs json \<longleftrightarrow> list_all (\<lambda>q. extract json (q_Path q) = Some (Some (q_Value q))) qs"

definition workloads_List ::
  "(string \<Rightarrow> string \<Rightarrow> string option option) \<Rightarrow> Query list \<Rightarrow> database \<Rightarrow> query_error + database_Workload list" where
  "workloads_List extract qs db =
     (if \<not> validPaths extract qs then Inl ErrInvalidQueryPath
      else Inr (sort_key row_Name (filter (\<lambda>w. query_filter extract qs (row_Spec w)) (db_workloads db))))"

fun view_each ::
  "view_env \<Rightarrow> database \<Rightarrow> (string \<Rightarrow> Instance list) \<Rightarrow> database_Workload list \<Rightarrow> query_error + view_Workload list" where
  "view_each env db observed [] = Inr []"
| "view_each env db observed (w # ws) =
     (case newWorkload env w (observed (row_Name w)) (table_List (db_ports db) (row_ID w)) of
        Inl e \<Rightarrow> Inl (Query_Failed e)
      | Inr v \<Rightarrow> map_sum id (Cons v) (view_each env db observed ws))"

definition service_list ::
  "view_env \<Rightarrow> database \<Rightarrow> observation \<Rightarrow> Query list \<Rightarrow> query_error + view_Workload list \<times> string list" where
  "service_list env db ds qs = (case workloads_List (ve_extract env) qs db of
       Inl e \<Rightarrow> Inl (if e = ErrInvalidQueryPath then ErrInvalidQuery else e)
     | Inr rows \<Rightarrow> (case service_observe ds of
           (observed, unobserved) \<Rightarrow>
             map_sum id (\<lambda>ws. (ws, unobserved)) (view_each env db observed rows)))"

definition WorkloadService_List ::
  "view_env \<Rightarrow> database \<Rightarrow> observation \<Rightarrow> string list \<Rightarrow> query_error + view_Workload list" where
  "WorkloadService_List env db ds queries = (case parseQueries queries of
       Inl e \<Rightarrow> Inl e | Inr qs \<Rightarrow> map_sum id fst (service_list env db ds qs))"

definition Fleet :: "view_env \<Rightarrow> database \<Rightarrow> observation \<Rightarrow> query_error + view_Workload list \<times> string list" where
  "Fleet env db ds = service_list env db ds []"

end
