(* ===== verification/View_Properties.thy ===== *)
theory View_Properties
  imports Workload_View Reconciler_Steady Reconciler_Lifecycle
begin

text \<open>
  What a reported workload says: when it reads as running, that the states it is derived from are those the
  reconciler acts on, and that the next run it announces is the time the reconciler waits for.
\<close>

section \<open>The state of a workload\<close>

text \<open>An instance that serves, and one that is read as failed.\<close>

definition serving :: "Instance \<Rightarrow> Result option \<Rightarrow> bool" where
  "serving i h \<longleftrightarrow> inst_State i = StateRunning \<and> (case h of None \<Rightarrow> True | Some r \<Rightarrow> hr_Status r = StatusHealthy)"

definition failing :: "Instance \<Rightarrow> Result option \<Rightarrow> bool" where
  "failing i h \<longleftrightarrow> inst_State i = StateFailed
     \<or> inst_State i = StateRunning \<and> (case h of None \<Rightarrow> False | Some r \<Rightarrow> hr_Status r = StatusUnhealthy)"

lemma folded_running:
  "inst_State (folded env policy sched w i) = StateRunning \<longleftrightarrow> serving i (view_healths env w (inst_Index i))"
  by (cases "inst_State i")
    (auto simp: folded_def healthState_def Completion_def Replacing_def serving_def Let_def
      split: option.splits Status.splits)

lemma folded_failed:
  "inst_State (folded env policy sched w i) = StateFailed
    \<longleftrightarrow> failing i (view_healths env w (inst_Index i)) \<and> \<not> view_pulling env w (inst_Index i)"
  by (cases "inst_State i")
    (auto simp: folded_def healthState_def Completion_def Replacing_def failing_def Let_def
      split: option.splits Status.splits)

lemma folded_keeps [simp]:
  "inst_StartedAt (folded env policy sched w i) = inst_StartedAt i"
  "inst_Index (folded env policy sched w i) = inst_Index i"
  "inst_Workload (folded env policy sched w i) = inst_Workload i"
  by (simp_all add: folded_def Let_def)

lemma state_Of_running: "state_Of is d s = Running
    \<longleftrightarrow> \<not> d \<and> \<not> s \<and> (\<exists>i\<in>set is. inst_State i = StateRunning) \<and> (\<forall>i\<in>set is. inst_State i \<noteq> StateFailed)"
  by (auto simp: state_Of_def has_state_iff Let_def)

lemma newWorkload_Inr:
  assumes "newWorkload env row observed ports = Inr v"
  obtains spec policy where "DecodeWorkload (ve_unmarshal env) (row_Spec row) = Inr spec" "vw_Spec v = spec"
    "vw_State v = state_Of (map (folded env policy (spec_Schedule spec \<noteq> None) (row_Name row))
       (filter (\<lambda>i. \<not> inst_Retained i) observed)) (\<not> IsZero (row_DeletedAt row)) (\<not> IsZero (row_SuspendedAt row))"
    "map vi_Instance (vw_Instances v) = map (folded env policy (spec_Schedule spec \<noteq> None) (row_Name row))
       (filter (\<lambda>i. \<not> inst_Retained i) observed)"
    "vw_NextRun v = (if \<not> IsZero (row_SuspendedAt row) then 0 else nextRun env (spec_Schedule spec)
       (map (folded env policy (spec_Schedule spec \<noteq> None) (row_Name row)) (filter (\<lambda>i. \<not> inst_Retained i) observed))
       (row_UpdatedAt row))"
  using assms that by (auto simp: newWorkload_def Let_def comp_def split: sum.splits)

lemma fold_started_map:
  "(\<And>i. inst_StartedAt (f i) = inst_StartedAt i) \<Longrightarrow>
    fold (\<lambda>i t. if inst_StartedAt i > t then inst_StartedAt i else t) (map f is) t0
      = fold (\<lambda>i t. if inst_StartedAt i > t then inst_StartedAt i else t) is t0"
  by (induction "is" arbitrary: t0) simp_all

section \<open>Properties\<close>

text \<open>
  C11. A workload reads as running only when it works. Its reported state is running exactly when it is
  neither on its way out nor suspended, some instance the runtime has up passes its check or has none, and
  no instance has failed, by its ending or by its check, other than one whose successor waits for its
  image. An ending that is kept for its output counts for nothing.
\<close>

theorem reported_running:
  assumes "newWorkload env row observed ports = Inr v"
  defines "live \<equiv> filter (\<lambda>i. \<not> inst_Retained i) observed"
  shows "vw_State v = Running \<longleftrightarrow> IsZero (row_DeletedAt row) \<and> IsZero (row_SuspendedAt row)
    \<and> (\<exists>i\<in>set live. serving i (view_healths env (row_Name row) (inst_Index i)))
    \<and> \<not> (\<exists>i\<in>set live. failing i (view_healths env (row_Name row) (inst_Index i))
          \<and> \<not> view_pulling env (row_Name row) (inst_Index i))"
  using assms(1)
proof (rule newWorkload_Inr)
  fix spec policy
  assume st: "vw_State v = state_Of (map (folded env policy (spec_Schedule spec \<noteq> None) (row_Name row))
       (filter (\<lambda>i. \<not> inst_Retained i) observed)) (\<not> IsZero (row_DeletedAt row)) (\<not> IsZero (row_SuspendedAt row))"
  show ?thesis
    unfolding st live_def state_Of_running by (auto simp: folded_running folded_failed)
qed

text \<open>A scheduled workload, run every hundred nanoseconds, nothing checked and nothing pulled.\<close>

definition example_view_env :: view_env where
  "example_view_env = \<lparr>ve_unmarshal = (\<lambda>d. Inr (example_spec\<lparr>spec_Schedule := Some \<lparr>sch_Cron = ''hourly'', sch_Overlap = OverlapSkip\<rparr>\<rparr>)),
     ve_cron = (\<lambda>e. Some (\<lambda>t. t + 100)), ve_checker = None, ve_pulling = None, ve_behind = (\<lambda>w. False),
     ve_extract = (\<lambda>d p. Some None)\<rparr>"

definition example_view :: "State_driver \<Rightarrow> view_Workload" where
  "example_view st = projr (newWorkload example_view_env example_wrow [example_winst st] [])"

lemma example_view: "newWorkload example_view_env example_wrow [example_winst st] [] = Inr (example_view st)"
  by (simp add: example_view_def newWorkload_def example_view_env_def DecodeWorkload_def Let_def)

theorem reported_running_witness: "vw_State (example_view StateRunning) = Running"
  using reported_running [OF example_view, of StateRunning]
  by (auto simp: example_wrow_def example_winst_def serving_def failing_def view_healths_def example_view_env_def)

text \<open>
  What is reported is what is acted on. The state the reconciler gives an instance after reading the
  verdict of its check is the one the report starts from, whatever was called before.
\<close>

lemma reported_is_acted_on:
  "inst_State (outcome (checked r i) s)
    = healthState (inst_State i)
        (if cfg_checker r \<and> inst_State i = StateRunning
         then cfg_result r (rs_trace s) (CheckerResult (inst_Workload i) (inst_Index i)) else None)"
proof -
  have "outcome (ask f c) s = f (rs_trace s) c" for f :: "history \<Rightarrow> call \<Rightarrow> Result option" and c
    by (simp add: ask_def outcome_def)
  then show ?thesis by (auto simp: checked_def healthState_def outcome_bind split: option.splits Status.splits)
qed

text \<open>
  The next run announced is the one the reconciler waits for. For a scheduled workload that is not
  suspended, as long as the clock stays before the time the report announces and no run has failed, the
  reconciler neither starts nor stops anything for it; and once that time has come, with nothing running
  and no backoff, it runs the occurrence.
\<close>

lemma next_run_is_waited_for:
  assumes "newWorkload env row observed ports = Inr v" "spec_Schedule (vw_Spec v) = Some sch"
    and "ve_cron env (sch_Cron sch) = Some next_after" "IsZero (row_SuspendedAt row)"
    and "is = filter (\<lambda>i. \<not> inst_Retained i) observed"
  shows "((\<forall>h. cfg_now r h < vw_NextRun v) \<and> \<not> list_ex failed is \<longrightarrow>
      outcome (occurrence r row is next_after) s = None
      \<and> (\<forall>c\<in>set (calls (occurrence r row is next_after) s). read_call row c))
    \<and> ((\<forall>h. vw_NextRun v \<le> cfg_now r h) \<and> \<not> list_ex running is
       \<and> \<not> outcome (waiting r (row_Name row) 0) (final (read_now r) s) \<longrightarrow>
      run_state (occurrence r row is next_after) s
        = run_state (run_occurrence r row) (final (waiting r (row_Name row) 0) (final (read_now r) s)))"
  using assms(1)
proof (rule newWorkload_Inr)
  fix spec policy
  assume spec: "vw_Spec v = spec"
    and "vw_NextRun v = (if \<not> IsZero (row_SuspendedAt row) then 0 else nextRun env (spec_Schedule spec)
       (map (folded env policy (spec_Schedule spec \<noteq> None) (row_Name row)) (filter (\<lambda>i. \<not> inst_Retained i) observed))
       (row_UpdatedAt row))"
  then have announced: "vw_NextRun v = next_after (max (row_UpdatedAt row) (lastRun is))"
    using assms(2-5) by (auto simp: nextRun_def lastRun_def fold_started_map Let_def max_def)
  have due: "run_state (occurrence r row is next_after) s
        = run_state (run_occurrence r row) (final (waiting r (row_Name row) 0) (final (read_now r) s))"
    if "\<forall>h. vw_NextRun v \<le> cfg_now r h" "\<not> list_ex running is"
      "\<not> outcome (waiting r (row_Name row) 0) (final (read_now r) s)"
  proof -
    have "(if row_UpdatedAt row > lastRun is then row_UpdatedAt row else lastRun is)
        = max (row_UpdatedAt row) (lastRun is)" by auto
    moreover have "\<not> outcome (read_now r) s < next_after (max (row_UpdatedAt row) (lastRun is))"
      using that(1) unfolding announced by (simp add: read_now_def ask_def outcome_def not_less)
    ultimately show ?thesis
      using that(2,3) by (simp add: occurrence_def Let_def outcome_def final_def split_beta)
  qed
  show ?thesis
    using occurrence_quiet [where r = r and next_after = next_after and row = row and s = s] due unfolding announced by blast
qed

end
