(* ===== verification/Secret_Vault.thy ===== *)
theory Secret_Vault
  imports Manifest_Validation Workload_Store
begin

text \<open>
  Secrets: the cipher their values are sealed with and the keyring on disk
  (\<open>internal/server/secret\<close>), the tables of secrets and of encryption keys
  (\<open>internal/server/database/secret.go\<close>, \<open>encryption_key.go\<close>), the service over them
  (\<open>internal/server/service/secret.go\<close>), the rekey of a node (\<open>Rekey\<close> of
  \<open>internal/server/service/admin.go\<close>) and the choice of the key a server starts with (\<open>currentKey\<close> of
  \<open>internal/server/server.go\<close>).

  The key derivation and the authenticated encryption are a record of functions, bytes are characters, and
  random bytes, identifiers and times are arguments. The keyring is a directory: a list of named files with
  their mode. What an operation on it does when a system call fails is decided by an argument that says
  which one fails.
\<close>

section \<open>The cipher\<close>

record crypto =
  cr_derive :: "string \<Rightarrow> string"
  cr_seal :: "string \<Rightarrow> string \<Rightarrow> string \<Rightarrow> string \<Rightarrow> string"
  cr_open :: "string \<Rightarrow> string \<Rightarrow> string \<Rightarrow> string \<Rightarrow> string option"

datatype vault_error =
    ErrInvalidKey
  | ErrKeyReadable
  | ErrInvalidCiphertext
  | ErrKeyNotFound
  | ErrDirectoryShared
  | Keyring_Failed
  | ErrNoCurrentKey
  | ErrSecretsSealed
  | Db_ErrSecretNotFound
  | Db_ErrSecretsChanged
  | Db_ErrSecretChanged
  | Vault_Constraint
  | Vault_ErrSecretNotFound
  | ErrSecretInUse "string list"
  | ErrInvalidSecret
  | ErrSecretChanged
  | Vault_Failed string vault_error
  | ErrSecretsSealedUnder string

definition KeyLength :: nat where
  "KeyLength = 32"

definition NonceSize :: nat where
  "NonceSize = 12"

text \<open>A cipher is the key it was derived to.\<close>

definition cipher_New :: "crypto \<Rightarrow> string \<Rightarrow> vault_error + string" where
  "cipher_New cr key = (if length key \<noteq> KeyLength then Inl ErrInvalidKey else Inr (cr_derive cr key))"

definition cipher_Seal :: "crypto \<Rightarrow> string \<Rightarrow> string \<Rightarrow> string \<Rightarrow> string \<Rightarrow> string" where
  "cipher_Seal cr cipher nonce name v = nonce @ cr_seal cr cipher nonce v name"

definition cipher_Open :: "crypto \<Rightarrow> string \<Rightarrow> string \<Rightarrow> string \<Rightarrow> vault_error + string" where
  "cipher_Open cr cipher name sealed =
     (if length sealed < NonceSize then Inl ErrInvalidCiphertext
      else case cr_open cr cipher (take NonceSize sealed) (drop NonceSize sealed) name of
        None \<Rightarrow> Inl ErrInvalidCiphertext | Some v \<Rightarrow> Inr v)"

section \<open>The keyring\<close>

record key_file =
  kf_Data :: string
  kf_Mode :: nat

record keyring =
  kr_Mode :: nat
  kr_Files :: "(string \<times> key_file) list"

definition keyExtension :: string where
  "keyExtension = ''.key''"

text \<open>\<open>mode & 0o077\<close>, the bits of group and others.\<close>

definition shared_mode :: "nat \<Rightarrow> bool" where
  "shared_mode mode \<longleftrightarrow> mode mod 64 \<noteq> 0"

definition NewStore :: "keyring option \<Rightarrow> vault_error + keyring" where
  "NewStore directory = (case directory of
       None \<Rightarrow> Inr \<lparr>kr_Mode = 448, kr_Files = []\<rparr>
     | Some ring \<Rightarrow> if shared_mode (kr_Mode ring) then Inl ErrDirectoryShared else Inr ring)"

definition key_path :: "string \<Rightarrow> string" where
  "key_path i = i @ keyExtension"

text \<open>
  Which call of \<open>Create\<close> fails: none, the opening, or a later one (the write, the flush, the closing, the
  flush of the directory), when so many bytes have reached the file.
\<close>

datatype create_fault = NoFault | OpenFault | LateFault nat

definition Store_Create ::
  "string \<Rightarrow> string \<Rightarrow> create_fault \<Rightarrow> keyring \<Rightarrow> (vault_error + string) \<times> keyring" where
  "Store_Create newid key fault ring =
     (let file = (\<lambda>data. ring\<lparr>kr_Files := kr_Files ring @ [(key_path newid, \<lparr>kf_Data = data, kf_Mode = 384\<rparr>)]\<rparr>)
      in if fault = OpenFault \<or> key_path newid \<in> fst ` set (kr_Files ring) then (Inl Keyring_Failed, ring)
         else case fault of
           LateFault n \<Rightarrow> (Inl Keyring_Failed, file (take n key))
         | _ \<Rightarrow> (Inr newid, file key))"

text \<open>Whether reading a file that is there fails is \<open>faulty\<close>.\<close>

definition Store_Read :: "bool \<Rightarrow> string \<Rightarrow> keyring \<Rightarrow> vault_error + string" where
  "Store_Read faulty i ring = (case map_of (kr_Files ring) (key_path i) of
       None \<Rightarrow> Inl ErrKeyNotFound
     | Some file \<Rightarrow>
         if faulty then Inl Keyring_Failed
         else if length (kf_Data file) \<noteq> KeyLength then Inl ErrInvalidKey
         else if shared_mode (kf_Mode file) then Inl ErrKeyReadable
         else Inr (kf_Data file))"

definition Store_Remove :: "string \<Rightarrow> keyring \<Rightarrow> keyring" where
  "Store_Remove i ring = ring\<lparr>kr_Files := filter (\<lambda>f. fst f \<noteq> key_path i) (kr_Files ring)\<rparr>"

section \<open>The tables\<close>

record Secret =
  sec_ID :: string
  sec_Name :: string
  sec_Value :: string
  sec_KeyID :: string
  sec_Revision :: string
  sec_Labels :: string_map
  sec_Version :: int
  sec_CreatedAt :: time
  sec_UpdatedAt :: time

record secret_tables =
  st_keys :: "(string \<times> bool) list"
  st_secrets :: "Secret list"

definition secrets_Get :: "string \<Rightarrow> secret_tables \<Rightarrow> vault_error + Secret" where
  "secrets_Get name t = (case find (\<lambda>s. sec_Name s = name) (st_secrets t) of
       None \<Rightarrow> Inl Db_ErrSecretNotFound | Some s \<Rightarrow> Inr s)"

definition secret_version :: "string \<Rightarrow> secret_tables \<Rightarrow> int" where
  "secret_version name t = (case secrets_Get name t of Inl e \<Rightarrow> 0 | Inr s \<Rightarrow> sec_Version s)"

text \<open>The columns a conflict on the name updates; the identifier and the creation stay.\<close>

definition secrets_Upsert ::
  "string \<Rightarrow> time \<Rightarrow> Secret \<Rightarrow> int \<Rightarrow> secret_tables \<Rightarrow> (vault_error + Secret) \<times> secret_tables" where
  "secrets_Upsert newid now secret ifMatch t =
     (let current = secret_version (sec_Name secret) t
      in if current = 0 \<and> ifMatch \<noteq> 0 then (Inl Db_ErrSecretNotFound, t)
         else if ifMatch \<noteq> 0 \<and> current \<noteq> ifMatch then (Inl Db_ErrSecretChanged, t)
         else if newid \<in> sec_ID ` set (st_secrets t) \<or> sec_KeyID secret \<notin> fst ` set (st_keys t)
         then (Inl Vault_Constraint, t)
         else case secrets_Get (sec_Name secret) t of
           Inl e \<Rightarrow>
             (let stored = secret\<lparr>sec_ID := newid, sec_Version := current + 1, sec_CreatedAt := now,
                    sec_UpdatedAt := now\<rparr>
              in (Inr stored, t\<lparr>st_secrets := st_secrets t @ [stored]\<rparr>))
         | Inr old \<Rightarrow>
             (let stored = secret\<lparr>sec_ID := sec_ID old, sec_Version := current + 1,
                    sec_CreatedAt := sec_CreatedAt old, sec_UpdatedAt := now\<rparr>
              in (Inr stored, t\<lparr>st_secrets :=
                   map (\<lambda>s. if sec_Name s = sec_Name secret then stored else s) (st_secrets t)\<rparr>)))"

definition secrets_Delete :: "string \<Rightarrow> secret_tables \<Rightarrow> vault_error option \<times> secret_tables" where
  "secrets_Delete name t =
     (if name \<notin> sec_Name ` set (st_secrets t) then (Some Db_ErrSecretNotFound, t)
      else (None, t\<lparr>st_secrets := filter (\<lambda>s. sec_Name s \<noteq> name) (st_secrets t)\<rparr>))"

definition Revisions :: "string list \<Rightarrow> secret_tables \<Rightarrow> string_map" where
  "Revisions names t = map (\<lambda>s. (sec_Name s, sec_Revision s))
     (filter (\<lambda>s. sec_Name s \<in> set names) (st_secrets t))"

text \<open>The workloads linked to a name, of secrets or of variables.\<close>

definition linked :: "string \<Rightarrow> link_table \<Rightarrow> database \<Rightarrow> string list" where
  "linked name links db = sort (map row_Name (filter (\<lambda>w. (row_ID w, name) \<in> set links) (db_workloads db)))"

definition secrets_UsedBy :: "string \<Rightarrow> database \<Rightarrow> string list" where
  "secrets_UsedBy name db = linked name (db_secrets db) db"

definition ListSealed :: "secret_tables \<Rightarrow> Secret list" where
  "ListSealed t = sort_key sec_Name (st_secrets t)"

definition demoted :: "(string \<times> bool) list \<Rightarrow> (string \<times> bool) list" where
  "demoted keys = map (\<lambda>k. (fst k, False)) keys"

definition reseal :: "string \<Rightarrow> (string \<times> string) list \<Rightarrow> Secret \<Rightarrow> Secret" where
  "reseal keyID sealed s = (case map_of sealed (sec_Name s) of
       None \<Rightarrow> s | Some v \<Rightarrow> s\<lparr>sec_Value := v, sec_KeyID := keyID\<rparr>)"

definition secrets_Rekey ::
  "string \<Rightarrow> (string \<times> string) list \<Rightarrow> secret_tables \<Rightarrow> vault_error option \<times> secret_tables" where
  "secrets_Rekey keyID sealed t =
     (if length (st_secrets t) \<noteq> length sealed then (Some Db_ErrSecretsChanged, t)
      else if keyID \<in> fst ` set (st_keys t) then (Some Vault_Constraint, t)
      else if \<not> list_all (\<lambda>p. fst p \<in> sec_Name ` set (st_secrets t)) sealed then (Some Db_ErrSecretsChanged, t)
      else (None, t\<lparr>st_keys := demoted (st_keys t) @ [(keyID, True)],
                    st_secrets := map (reseal keyID sealed) (st_secrets t)\<rparr>))"

definition keys_Current :: "secret_tables \<Rightarrow> vault_error + string" where
  "keys_Current t = (case find snd (st_keys t) of None \<Rightarrow> Inl ErrNoCurrentKey | Some k \<Rightarrow> Inr (fst k))"

text \<open>The primary key, and the unique index over the current key.\<close>

definition keys_Adopt :: "string \<Rightarrow> secret_tables \<Rightarrow> vault_error option \<times> secret_tables" where
  "keys_Adopt i t =
     (if i \<in> fst ` set (st_keys t) \<or> list_ex snd (st_keys t) then (Some Vault_Constraint, t)
      else (None, t\<lparr>st_keys := st_keys t @ [(i, True)]\<rparr>))"

definition keys_Replace :: "string \<Rightarrow> secret_tables \<Rightarrow> vault_error option \<times> secret_tables" where
  "keys_Replace i t =
     (if st_secrets t \<noteq> [] then (Some ErrSecretsSealed, t)
      else if i \<in> fst ` set (st_keys t) then (Some Vault_Constraint, t)
      else (None, t\<lparr>st_keys := demoted (st_keys t) @ [(i, True)]\<rparr>))"

section \<open>The service\<close>

text \<open>What a running server holds in memory: the cipher and the identifier of its key.\<close>

record secret_server =
  srv_cipher :: string
  srv_keyID :: string

record secret_env =
  en_nonce :: string
  en_revision :: string
  en_newid :: string
  en_now :: time

definition unchanged :: "crypto \<Rightarrow> string \<Rightarrow> string \<Rightarrow> string \<Rightarrow> string \<Rightarrow> bool" where
  "unchanged cr cipher name stored v \<longleftrightarrow> cipher_Open cr cipher name stored = Inr v"

definition changedSecret :: "vault_error \<Rightarrow> vault_error" where
  "changedSecret e = (if e = Db_ErrSecretChanged \<or> e = Db_ErrSecretNotFound then ErrSecretChanged else e)"

text \<open>The row as stored, whether it was newly created and whether its revision moved.\<close>

definition SecretService_store ::
  "crypto \<Rightarrow> secret_env \<Rightarrow> secret_server \<Rightarrow> string \<Rightarrow> string \<Rightarrow> string_map \<Rightarrow> int \<Rightarrow> secret_tables
     \<Rightarrow> (vault_error + Secret \<times> bool \<times> bool) \<times> secret_tables" where
  "SecretService_store cr env srv name v labels ifMatch t =
     (let existing = secrets_Get name t;
          write = (case secrets_Upsert (en_newid env) (en_now env)
                \<lparr>sec_ID = [], sec_Name = name, sec_Value = cipher_Seal cr (srv_cipher srv) (en_nonce env) name v,
                 sec_KeyID = srv_keyID srv, sec_Revision = en_revision env, sec_Labels = labels, sec_Version = 0,
                 sec_CreatedAt = 0, sec_UpdatedAt = 0\<rparr> ifMatch t of
              (Inl e, t') \<Rightarrow> (Inl (changedSecret e), t')
            | (Inr stored, t') \<Rightarrow> (Inr (stored, existing = Inl Db_ErrSecretNotFound, True), t'))
      in case existing of
           Inl e \<Rightarrow> if ifMatch \<noteq> 0 then (Inl ErrSecretChanged, t) else write
         | Inr old \<Rightarrow>
             if ifMatch \<noteq> 0 \<and> sec_Version old \<noteq> ifMatch then (Inl ErrSecretChanged, t)
             else if \<not> unchanged cr (srv_cipher srv) name (sec_Value old) v then write
             else if maps_Equal (sec_Labels old) labels then (Inr (old, False, False), t)
             else case secrets_Upsert (en_newid env) (en_now env) (old\<lparr>sec_Labels := labels\<rparr>) ifMatch t of
               (Inl e, t') \<Rightarrow> (Inl (changedSecret e), t')
             | (Inr relabelled, t') \<Rightarrow> (Inr (relabelled, False, False), t'))"

text \<open>What is refused before anything is stored.\<close>

definition validSecret :: "string \<Rightarrow> string_map \<Rightarrow> bool" where
  "validSecret name labels \<longleftrightarrow> namePattern name \<and> length name \<le> 63 \<and> ValidateLabels labels = None"

definition SecretService_Delete ::
  "string \<Rightarrow> bool \<Rightarrow> database \<Rightarrow> secret_tables \<Rightarrow> vault_error option \<times> secret_tables" where
  "SecretService_Delete name force db t =
     (let usedBy = secrets_UsedBy name db
      in if usedBy \<noteq> [] \<and> \<not> force then (Some (ErrSecretInUse usedBy), t)
         else case secrets_Delete name t of
           (Some e, t') \<Rightarrow> (Some Vault_ErrSecretNotFound, t') | (None, t') \<Rightarrow> (None, t'))"

definition SecretService_Value :: "crypto \<Rightarrow> secret_server \<Rightarrow> string \<Rightarrow> secret_tables \<Rightarrow> vault_error + string" where
  "SecretService_Value cr srv name t = (case secrets_Get name t of
       Inl e \<Rightarrow> Inl e
     | Inr stored \<Rightarrow> (case cipher_Open cr (srv_cipher srv) name (sec_Value stored) of
           Inl e \<Rightarrow> Inl (Vault_Failed ''failed to decrypt secret %s: %w'' e) | Inr v \<Rightarrow> Inr v))"

text \<open>Every value opened and sealed again; the nonce each is sealed with is drawn for its name.\<close>

fun reseal_all ::
  "crypto \<Rightarrow> string \<Rightarrow> string \<Rightarrow> (string \<Rightarrow> string) \<Rightarrow> Secret list \<Rightarrow> vault_error + (string \<times> string) list" where
  "reseal_all cr old new nonces [] = Inr []"
| "reseal_all cr old new nonces (s # ss) = (case cipher_Open cr old (sec_Name s) (sec_Value s) of
       Inl e \<Rightarrow> Inl (Vault_Failed ''failed to decrypt secret %s: %w'' e)
     | Inr v \<Rightarrow> map_sum id
         (Cons (sec_Name s, cipher_Seal cr new (nonces (sec_Name s)) (sec_Name s) v)) (reseal_all cr old new nonces ss))"

text \<open>
  Between reading the secrets and writing them other requests may delete secrets, which takes no lock:
  \<open>others\<close> is what they do to the tables.
\<close>

definition SecretService_Rekey ::
  "crypto \<Rightarrow> string \<Rightarrow> string \<Rightarrow> (string \<Rightarrow> string) \<Rightarrow> (secret_tables \<Rightarrow> secret_tables)
     \<Rightarrow> secret_server \<Rightarrow> secret_tables \<Rightarrow> (vault_error + nat \<times> string) \<times> secret_server \<times> secret_tables" where
  "SecretService_Rekey cr cipher keyID nonces others srv t =
     (case reseal_all cr (srv_cipher srv) cipher nonces (ListSealed t) of
        Inl e \<Rightarrow> (Inl e, srv, others t)
      | Inr sealed \<Rightarrow> (case secrets_Rekey keyID sealed (others t) of
            (Some e, t') \<Rightarrow> (Inl e, srv, t')
          | (None, t') \<Rightarrow> (Inr (length sealed, srv_keyID srv), \<lparr>srv_cipher = cipher, srv_keyID = keyID\<rparr>, t')))"

section \<open>The node\<close>

record vault =
  va_ring :: keyring
  va_tables :: secret_tables

text \<open>What a rekey and a start draw: the new key and its identifier, and which calls fail.\<close>

record key_env =
  ke_newid :: string
  ke_key :: string
  ke_create :: create_fault
  ke_read :: bool

definition admin_Rekey ::
  "crypto \<Rightarrow> key_env \<Rightarrow> (string \<Rightarrow> string) \<Rightarrow> (secret_tables \<Rightarrow> secret_tables) \<Rightarrow> secret_server \<Rightarrow> vault
     \<Rightarrow> (vault_error + nat \<times> string \<times> string) \<times> secret_server \<times> vault" where
  "admin_Rekey cr env nonces others srv va =
     (case Store_Create (ke_newid env) (ke_key env) (ke_create env) (va_ring va) of
        (Inl e, ring) \<Rightarrow> (Inl e, srv, va\<lparr>va_ring := ring\<rparr>)
      | (Inr i, ring) \<Rightarrow> (case Store_Read (ke_read env) i ring of
            Inl e \<Rightarrow> (Inl e, srv, va\<lparr>va_ring := ring\<rparr>)
          | Inr key \<Rightarrow> (case cipher_New cr key of
                Inl e \<Rightarrow> (Inl e, srv, va\<lparr>va_ring := ring\<rparr>)
              | Inr cipher \<Rightarrow> (case SecretService_Rekey cr cipher i nonces others srv (va_tables va) of
                    (answer, srv', t) \<Rightarrow>
                      (map_sum id (\<lambda>(count, previous). (count, i, previous)) answer, srv',
                       \<lparr>va_ring = ring, va_tables = t\<rparr>)))))"

definition generateKey ::
  "key_env \<Rightarrow> (string \<Rightarrow> secret_tables \<Rightarrow> vault_error option \<times> secret_tables) \<Rightarrow> vault
     \<Rightarrow> (vault_error + string \<times> string) \<times> vault" where
  "generateKey env recorded va =
     (case Store_Create (ke_newid env) (ke_key env) (ke_create env) (va_ring va) of
        (Inl e, ring) \<Rightarrow> (Inl e, va\<lparr>va_ring := ring\<rparr>)
      | (Inr i, ring) \<Rightarrow> (case recorded i (va_tables va) of
            (Some e, t) \<Rightarrow> (Inl e, \<lparr>va_ring = ring, va_tables = t\<rparr>)
          | (None, t) \<Rightarrow>
              (map_sum id (Pair i) (Store_Read (ke_read env) i ring), \<lparr>va_ring = ring, va_tables = t\<rparr>)))"

definition currentKey :: "key_env \<Rightarrow> vault \<Rightarrow> (vault_error + string \<times> string) \<times> vault" where
  "currentKey env va = (case keys_Current (va_tables va) of
       Inl e \<Rightarrow> generateKey env keys_Adopt va
     | Inr current \<Rightarrow> (case Store_Read (ke_read env) current (va_ring va) of
           Inl ErrKeyNotFound \<Rightarrow> (case generateKey env keys_Replace va of
               (Inl ErrSecretsSealed, va') \<Rightarrow> (Inl (ErrSecretsSealedUnder current), va')
             | (Inl e, va') \<Rightarrow> (Inl e, va')
             | (Inr r, va') \<Rightarrow> (Inr r, va'))
         | Inl e \<Rightarrow> (Inl e, va)
         | Inr key \<Rightarrow> (Inr (current, key), va)))"

text \<open>A server starting: the keyring opened, the key settled, the cipher constructed.\<close>

definition start_secrets :: "crypto \<Rightarrow> key_env \<Rightarrow> vault \<Rightarrow> (vault_error + secret_server) \<times> vault" where
  "start_secrets cr env va = (case NewStore (Some (va_ring va)) of
       Inl e \<Rightarrow> (Inl e, va)
     | Inr ring \<Rightarrow> (case currentKey env (va\<lparr>va_ring := ring\<rparr>) of
           (Inl e, va') \<Rightarrow> (Inl e, va')
         | (Inr (i, key), va') \<Rightarrow>
             (map_sum id (\<lambda>cipher. \<lparr>srv_cipher = cipher, srv_keyID = i\<rparr>) (cipher_New cr key), va')))"

end
