(* ===== verification/Value_Rotation.thy ===== *)
theory Value_Rotation
  imports Secret_Vault Workload_Rehash Workload_Reapply "HOL-Library.Multiset"
begin

text \<open>
  Setting a secret (\<open>Set\<close> of \<open>internal/server/service/secret.go\<close>) or a variable
  (\<open>internal/server/service/variable.go\<close> over \<open>internal/server/database/variable.go\<close>), with the rehash of
  the workloads that read it, which the server wires to the workload service.
\<close>

section \<open>Variables\<close>

record Variable =
  var_ID :: string
  var_Name :: string
  var_Value :: string
  var_Labels :: string_map
  var_Version :: int
  var_CreatedAt :: time
  var_UpdatedAt :: time

datatype value_error =
    Db_ErrVariableNotFound
  | Db_ErrVariableChanged
  | Variable_Constraint
  | Var_ErrVariableNotFound
  | ErrVariableInUse "string list"
  | ErrInvalidVariable
  | ErrVariableChanged
  | Secret_Error vault_error
  | Readers_Failed "service_error list"

definition variables_Get :: "string \<Rightarrow> Variable list \<Rightarrow> value_error + Variable" where
  "variables_Get name t = (case find (\<lambda>v. var_Name v = name) t of
       None \<Rightarrow> Inl Db_ErrVariableNotFound | Some v \<Rightarrow> Inr v)"

definition variable_version :: "string \<Rightarrow> Variable list \<Rightarrow> int" where
  "variable_version name t = (case variables_Get name t of Inl e \<Rightarrow> 0 | Inr v \<Rightarrow> var_Version v)"

definition variables_Upsert ::
  "string \<Rightarrow> time \<Rightarrow> Variable \<Rightarrow> int \<Rightarrow> Variable list \<Rightarrow> (value_error + Variable) \<times> Variable list" where
  "variables_Upsert newid now variable ifMatch t =
     (let current = variable_version (var_Name variable) t
      in if current = 0 \<and> ifMatch \<noteq> 0 then (Inl Db_ErrVariableNotFound, t)
         else if ifMatch \<noteq> 0 \<and> current \<noteq> ifMatch then (Inl Db_ErrVariableChanged, t)
         else if newid \<in> var_ID ` set t then (Inl Variable_Constraint, t)
         else case variables_Get (var_Name variable) t of
           Inl e \<Rightarrow>
             (let stored = variable\<lparr>var_ID := newid, var_Version := current + 1, var_CreatedAt := now,
                    var_UpdatedAt := now\<rparr>
              in (Inr stored, t @ [stored]))
         | Inr old \<Rightarrow>
             (let stored = variable\<lparr>var_ID := var_ID old, var_Version := current + 1,
                    var_CreatedAt := var_CreatedAt old, var_UpdatedAt := now\<rparr>
              in (Inr stored, map (\<lambda>v. if var_Name v = var_Name variable then stored else v) t)))"

definition variables_Delete :: "string \<Rightarrow> Variable list \<Rightarrow> value_error option \<times> Variable list" where
  "variables_Delete name t =
     (if name \<notin> var_Name ` set t then (Some Db_ErrVariableNotFound, t)
      else (None, filter (\<lambda>v. var_Name v \<noteq> name) t))"

definition Values :: "string list \<Rightarrow> Variable list \<Rightarrow> string_map" where
  "Values names t = map (\<lambda>v. (var_Name v, var_Value v)) (filter (\<lambda>v. var_Name v \<in> set names) t)"

definition variables_UsedBy :: "string \<Rightarrow> database \<Rightarrow> string list" where
  "variables_UsedBy name db = linked name (db_variables db) db"

section \<open>Rehashing the readers\<close>

text \<open>One failed rehash does not stop the rest; the failures are joined.\<close>

fun rehash_each :: "service \<Rightarrow> string \<Rightarrow> Reason option \<Rightarrow> string list \<Rightarrow> service_error list svc" where
  "rehash_each sv name reason [] = ret []"
| "rehash_each sv name reason (w # ws) = do {
     (case reason of None \<Rightarrow> ret () | Some r \<Rightarrow> svc_record w r (no_fields\<lparr>f_Name := name\<rparr>));
     answer \<leftarrow> Rehash sv w;
     errs \<leftarrow> rehash_each sv name reason ws;
     ret (case answer of Inl e \<Rightarrow> e # errs | Inr moved \<Rightarrow> errs) }"

text \<open>The service as it reads the secrets, and the variables, that are stored now.\<close>

definition reading_secrets :: "service \<Rightarrow> secret_tables \<Rightarrow> service" where
  "reading_secrets sv t = sv\<lparr>sv_secrets := Some (\<lambda>names. Inr (Revisions names t))\<rparr>"

definition reading_variables :: "service \<Rightarrow> Variable list \<Rightarrow> service" where
  "reading_variables sv t = sv\<lparr>sv_variables := Some (\<lambda>names. Inr (Values names t))\<rparr>"

text \<open>The row as it is reported: with the workloads that reference it, and whether it was created.\<close>

definition secret_Set ::
  "crypto \<Rightarrow> secret_env \<Rightarrow> secret_server \<Rightarrow> service \<Rightarrow> string \<Rightarrow> string \<Rightarrow> string_map \<Rightarrow> int \<Rightarrow> secret_tables
     \<Rightarrow> service_state \<Rightarrow> (value_error + Secret \<times> string list \<times> bool) \<times> secret_tables \<times> service_state" where
  "secret_Set cr env srv sv name v labels ifMatch t s =
     (if \<not> validSecret name labels then (Inl (Secret_Error ErrInvalidSecret), t, s)
      else case SecretService_store cr env srv name v labels ifMatch t of
        (Inl e, t') \<Rightarrow> (Inl (Secret_Error e), t', s)
      | (Inr (stored, created, moved), t') \<Rightarrow>
          (case run_state (rehash_each (reading_secrets sv t') name (if moved then Some SecretChanged else None)
                  (secrets_UsedBy name (ss_db s))) s of
             (errs, s') \<Rightarrow>
               if errs \<noteq> [] then (Inl (Readers_Failed errs), t', s')
               else (Inr (stored, secrets_UsedBy name (ss_db s'), created), t', s')))"

definition changedVariable :: "value_error \<Rightarrow> value_error" where
  "changedVariable e =
     (if e = Db_ErrVariableChanged \<or> e = Db_ErrVariableNotFound then ErrVariableChanged else e)"

definition variable_of :: "string \<Rightarrow> string \<Rightarrow> string_map \<Rightarrow> Variable" where
  "variable_of name v labels = \<lparr>var_ID = [], var_Name = name, var_Value = v, var_Labels = labels,
     var_Version = 0, var_CreatedAt = 0, var_UpdatedAt = 0\<rparr>"

text \<open>The readers are asked whether they could render the value before it is stored.\<close>

definition variable_Set ::
  "string \<Rightarrow> time \<Rightarrow> service \<Rightarrow> string \<Rightarrow> string \<Rightarrow> string_map \<Rightarrow> int \<Rightarrow> Variable list
     \<Rightarrow> service_state \<Rightarrow> (value_error + Variable \<times> string list \<times> bool) \<times> Variable list \<times> service_state" where
  "variable_Set newid now sv name v labels ifMatch t s =
     (let existing = variables_Get name t;
          usedBy = variables_UsedBy name (ss_db s);
          fresh = (case CheckContents sv (ss_db s) name v usedBy of
              Some e \<Rightarrow> (Inl ErrInvalidVariable, t, s)
            | None \<Rightarrow> (case variables_Upsert newid now (variable_of name v labels) ifMatch t of
                  (Inl e, t') \<Rightarrow> (Inl (changedVariable e), t', s)
                | (Inr stored, t') \<Rightarrow>
                    (case run_state (rehash_each (reading_variables sv t') name (Some VariableChanged) usedBy) s of
                       (errs, s') \<Rightarrow>
                         if errs \<noteq> [] then (Inl (Readers_Failed errs), t', s')
                         else (Inr (stored, usedBy, existing = Inl Db_ErrVariableNotFound), t', s'))));
          kept = (\<lambda>stored t'. case run_state (rehash_each (reading_variables sv t') name None usedBy) s of
              (errs, s') \<Rightarrow>
                if errs \<noteq> [] then (Inl (Readers_Failed errs), t', s')
                else (Inr (stored, variables_UsedBy name (ss_db s'), False), t', s'))
      in if \<not> validSecret name labels then (Inl ErrInvalidVariable, t, s)
         else case existing of
           Inl e \<Rightarrow> if ifMatch \<noteq> 0 then (Inl ErrVariableChanged, t, s) else fresh
         | Inr old \<Rightarrow>
             if ifMatch \<noteq> 0 \<and> var_Version old \<noteq> ifMatch then (Inl ErrVariableChanged, t, s)
             else if var_Value old \<noteq> v then fresh
             else if maps_Equal (var_Labels old) labels then kept old t
             else case variables_Upsert newid now (old\<lparr>var_Labels := labels\<rparr>) ifMatch t of
               (Inl e, t') \<Rightarrow> (Inl (changedVariable e), t', s)
             | (Inr relabelled, t') \<Rightarrow> kept relabelled t')"

definition variable_Delete ::
  "string \<Rightarrow> bool \<Rightarrow> database \<Rightarrow> Variable list \<Rightarrow> value_error option \<times> Variable list" where
  "variable_Delete name force db t =
     (let usedBy = variables_UsedBy name db
      in if usedBy \<noteq> [] \<and> \<not> force then (Some (ErrVariableInUse usedBy), t)
         else case variables_Delete name t of
           (Some e, t') \<Rightarrow> (Some Var_ErrVariableNotFound, t') | (None, t') \<Rightarrow> (None, t'))"

definition variable_Value :: "string \<Rightarrow> Variable list \<Rightarrow> value_error + string" where
  "variable_Value name t = map_sum id var_Value (variables_Get name t)"

section \<open>Rehashing moves no address\<close>

lemma sort_key_idem: "sort_key f (sort_key f xs) = sort_key f xs"
  by (simp add: sort_key_id_if_sorted)

text \<open>A sort that commutes with filters stays idempotent under one more stable sort.\<close>

lemma sort_sort_idem:
  assumes "\<And>P xs. filter P (F xs) = F (filter P xs)" "\<And>xs. F (F xs) = F xs" "\<And>xs. mset (F xs) = mset xs"
  shows "sort_key f (F (sort_key f (F xs))) = sort_key f (F xs)"
proof (rule properties_for_sort_key)
  show "mset (sort_key f (F xs)) = mset (F (sort_key f (F xs)))" by (simp add: assms(3))
  show "sorted (map f (sort_key f (F xs)))" by simp
next
  fix k assume "k \<in> set (sort_key f (F xs))"
  have stable: "filter (\<lambda>x. f k = f x) (sort_key f ys) = filter (\<lambda>x. f k = f x) ys" for ys
    using sort_key_stable [of f "f k" ys] by (simp add: eq_commute)
  show "filter (\<lambda>x. f k = f x) (sort_key f (F xs)) = filter (\<lambda>x. f k = f x) (F (sort_key f (F xs)))"
    by (simp add: assms(1,2) stable)
qed

lemma table_List_idem:
  assumes "\<forall>p\<in>set t. prt_WorkloadID p = wid"
  shows "sort_key prt_Instance (sort_key prt_Container (sort_key (\<lambda>p. protocol_string (prt_Protocol p)) (table_List t wid)))
    = table_List t wid"
proof -
  let ?H = "sort_key (\<lambda>p. protocol_string (prt_Protocol p))" and ?G = "\<lambda>t. sort_key prt_Container
    (sort_key (\<lambda>p. protocol_string (prt_Protocol p)) t)"
  have "?G (?G xs) = ?G xs" for xs
    by (rule sort_sort_idem [of ?H]) (simp_all add: filter_sort sort_key_idem)
  then have "sort_key prt_Instance (?G (sort_key prt_Instance (?G xs))) = sort_key prt_Instance (?G xs)" for xs
    by (intro sort_sort_idem) (simp_all add: filter_sort)
  then show ?thesis by (simp add: table_List_def)
qed

text \<open>Claiming the rows a workload holds leaves every listing as it was.\<close>

lemma table_List_reclaimed:
  "table_List (table_Release wid t @ map (\<lambda>p. p\<lparr>prt_WorkloadID := wid\<rparr>) (table_List t wid)) other = table_List t other"
proof (cases "other = wid")
  case True
  have "filter (\<lambda>p. prt_WorkloadID p = wid) (table_Release wid t) = []"
    by (simp add: table_Release_def filter_empty_conv)
  moreover have "map (\<lambda>p. p\<lparr>prt_WorkloadID := wid\<rparr>) (table_List t wid) = table_List t wid"
    by (rule map_idI) (auto simp: table_List_set)
  moreover have "filter (\<lambda>p. prt_WorkloadID p = wid) (table_List t wid) = table_List t wid"
    by (auto simp: filter_id_conv table_List_set)
  ultimately have "table_List (table_Release wid t @ map (\<lambda>p. p\<lparr>prt_WorkloadID := wid\<rparr>) (table_List t wid)) wid
      = sort_key prt_Instance (sort_key prt_Container (sort_key (\<lambda>p. protocol_string (prt_Protocol p)) (table_List t wid)))"
    by (simp add: table_List_def)
  also have "\<dots> = table_List (filter (\<lambda>p. prt_WorkloadID p = wid) t) wid"
    using table_List_idem [of "filter (\<lambda>p. prt_WorkloadID p = wid) t" wid] by (simp add: table_List_def)
  also have "\<dots> = table_List t wid" by (simp add: table_List_def)
  finally show ?thesis using True by simp
next
  case False
  then have "filter (\<lambda>p. prt_WorkloadID p = other)
      (table_Release wid t @ map (\<lambda>p. p\<lparr>prt_WorkloadID := wid\<rparr>) (table_List t wid)) = filter (\<lambda>p. prt_WorkloadID p = other) t"
    by (auto simp: table_Release_def filter_empty_conv intro!: filter_cong)
  then show ?thesis by (simp add: table_List_def)
qed

text \<open>What a rehash writes: the row with its new hash, and what the row held.\<close>

definition rehashed :: "service \<Rightarrow> string \<Rightarrow> database \<Rightarrow> database \<Rightarrow> bool" where
  "rehashed sv name db db' \<longleftrightarrow> (\<exists>row read hash. rehash_of sv name db = Inr (row, read, hash)
     \<and> (if hash = row_SpecHash row then db' = db
        else (\<exists>newid now r. Upsert newid now (row\<lparr>row_SpecHash := hash\<rparr>) (row_reads_of read) 0
             (table_List (db_ports db) (row_ID row)) db = (Inr r, db'))))"

lemma Rehash_run:
  "case outcome (Rehash sv name) s of Inl e \<Rightarrow> ss_db (final (Rehash sv name) s) = ss_db s
    | Inr moved \<Rightarrow> rehashed sv name (ss_db s) (ss_db (final (Rehash sv name) s))"
proof (cases "rehash_of sv name (ss_db s)")
  case (Inl e)
  then show ?thesis by (simp add: Rehash_def outcome_bind final_bind)
next
  case (Inr a)
  obtain row read hash where a: "a = (row, read, hash)" by (cases a)
  show ?thesis
  proof (cases "hash = row_SpecHash row")
    case True
    then show ?thesis
      using Inr a by (auto simp: Rehash_def outcome_bind final_bind rehashed_def wake_def)
  next
    case False
    let ?u = "Upsert (sv_newid sv (ss_writes s)) (sv_now sv (ss_writes s)) (row\<lparr>row_SpecHash := hash\<rparr>) (row_reads_of read) 0
      (table_List (db_ports (ss_db s)) (row_ID row)) (ss_db s)"
    have run: "run_state (upsert sv (row\<lparr>row_SpecHash := hash\<rparr>) (row_reads_of read) 0
        (table_List (db_ports (ss_db s)) (row_ID row))) s = (fst ?u, s\<lparr>ss_writes := Suc (ss_writes s), ss_db := snd ?u\<rparr>)"
      by (simp add: run_upsert Let_def)
    show ?thesis
    proof (cases "fst ?u")
      case (Inl e)
      then have "snd ?u = ss_db s" using Upsert_Inl by (metis prod.collapse)
      then show ?thesis
        using Inr a False run Inl
        by (simp add: Rehash_def rehash_def outcome_def final_def)
    next
      case (Inr r)
      then have "?u = (Inr r, snd ?u)" by (metis prod.collapse)
      then have "\<exists>newid now r. Upsert newid now (row\<lparr>row_SpecHash := hash\<rparr>) (row_reads_of read) 0
          (table_List (db_ports (ss_db s)) (row_ID row)) (ss_db s) = (Inr r, snd ?u)"
        by blast
      then have "rehashed sv name (ss_db s) (snd ?u)"
        using \<open>rehash_of sv name (ss_db s) = Inr a\<close> a False unfolding rehashed_def
        by (intro exI [of _ row] exI [of _ read] exI [of _ hash]) simp
      then show ?thesis
        using \<open>rehash_of sv name (ss_db s) = Inr a\<close> a False run Inr
        by (simp add: Rehash_def rehash_def outcome_def final_def wake_def)
    qed
  qed
qed

lemma rehash_of_row:
  "rehash_of sv name db = Inr (row, read, hash) \<Longrightarrow> store_get name db = Inr row \<and> row_Name row = name"
  by (auto simp: rehash_of_def map_sum_eq_Inr split: sum.splits dest: store_get_Inr)

lemma Upsert_rehash:
  assumes "store_ok db" "store_get name db = Inr row" "row_SpecHash row \<noteq> hash"
    and "Upsert newid now (row\<lparr>row_SpecHash := hash\<rparr>) reads 0 (table_List (db_ports db) (row_ID row)) db = (Inr r, db')"
  shows "\<exists>row'. store_get name db' = Inr row' \<and> row_ID row' = row_ID row \<and> row_Name row' = row_Name row
    \<and> row_Spec row' = row_Spec row \<and> row_SpecHash row' = hash \<and> row_Version row' = row_Version row + 1
    \<and> row_DeletedAt row' = row_DeletedAt row \<and> (\<forall>wid. table_List (db_ports db') wid = table_List (db_ports db) wid)"
proof -
  obtain stored created where r: "r = (stored, created)" by (cases r)
  have name: "row_Name row = name" using store_get_Inr [OF assms(2)] by simp
  obtain db1 where row: "write_row newid now (row\<lparr>row_SpecHash := hash\<rparr>) 0 db = Inr (stored, created, db1)"
    and rows: "db_workloads db' = db_workloads db1"
    and ports: "db_ports db' = table_Release (row_ID stored) (db_ports db)
        @ map (\<lambda>p. p\<lparr>prt_WorkloadID := row_ID stored\<rparr>) (table_List (db_ports db) (row_ID row))"
    using Upsert_Inr [OF assms(4) [unfolded r] assms(1)] by blast
  have stored: "row_ID stored = row_ID row"
    and db1: "db_workloads db1 = map (\<lambda>old. if row_Name old = name
      then updated_row now (row\<lparr>row_SpecHash := hash\<rparr>) (row_Version row + 1) old else old) (db_workloads db)"
    using row assms(2,3) name by (auto simp: write_row_def store_update_def Let_def split: if_splits)
  have "store_get name db' = Inr (updated_row now (row\<lparr>row_SpecHash := hash\<rparr>) (row_Version row + 1) row)"
  proof -
    have "store_ok db'" using Upsert_ok [OF assms(1)] assms(4) by (metis snd_conv)
    moreover have "updated_row now (row\<lparr>row_SpecHash := hash\<rparr>) (row_Version row + 1) row \<in> set (db_workloads db')"
      unfolding rows db1 using store_get_Inr [OF assms(2)] by force
    ultimately show ?thesis by (simp add: store_get_iff updated_row_def name)
  qed
  then show ?thesis
    using table_List_reclaimed [of "row_ID row" "db_ports db"] by (simp add: ports stored updated_row_def)
qed

text \<open>An address depends on the names, the identifiers and the ports, which a rehash keeps.\<close>

definition same_addresses :: "database \<Rightarrow> database \<Rightarrow> bool" where
  "same_addresses db db' \<longleftrightarrow>
     (\<forall>host r reader i. Address host db' r reader i = Address host db r reader i)"

lemma resolve_addresses_cong:
  "same_addresses db db' \<Longrightarrow> resolve_addresses sv db' reader rs = resolve_addresses sv db reader rs"
  by (induction rs) (simp_all add: same_addresses_def cong: option.case_cong sum.case_cong)

lemma recompute_cong: "same_addresses db db' \<Longrightarrow> recompute sv db' spec digest = recompute sv db spec digest"
  unfolding recompute_def resolveReferences_def
  by (simp only: resolve_addresses_cong)

lemma rehash_of_cong:
  assumes "same_addresses db db'" "store_get name db = Inr row" "store_get name db' = Inr row'" "row_Spec row' = row_Spec row"
    and "rehash_of sv name db = Inr (row, read, hash)"
  shows "rehash_of sv name db' = Inr (row', read, hash)"
  using assms by (auto simp: rehash_of_def recompute_cong map_sum_eq_Inr split: sum.splits)

lemma Address_published:
  "Address host db r reader i = (case map_sum id snd (published db r) of
       Inl e \<Rightarrow> Inl e
     | Inr rows \<Rightarrow>
         if ref_Port r = [] then Inr host
         else (let slot = pick reader i (published_count rows)
               in case find (\<lambda>p. prt_Instance p = slot
                               \<and> PortRef_Matches (ref_Port r) (prt_Name p) (prt_Container p)) rows of
                    Some p \<Rightarrow> Inr (JoinHostPort host (Itoa (prt_Host p)))
                  | None \<Rightarrow> Inl (ErrPortNotPublished (ref_Name r))))"
  by (cases "published db r") (simp_all add: Address_def split_beta)

lemma published_cong:
  assumes "\<And>n. map_sum id row_ID (store_get n db') = map_sum id row_ID (store_get n db)"
    and "\<And>wid. table_List (db_ports db') wid = table_List (db_ports db) wid"
  shows "same_addresses db db'"
proof -
  have "map_sum id snd (published db' r) = map_sum id snd (published db r)" for r
    using assms(1) [of "ref_Name r"]
    by (cases "store_get (ref_Name r) db"; cases "store_get (ref_Name r) db'")
      (simp_all add: published_def assms(2) Let_def)
  then show ?thesis unfolding same_addresses_def by (intro allI) (simp only: Address_published)
qed

lemma rehashed_effect:
  assumes "rehashed sv name db db'" "store_ok db"
  shows "store_ok db' \<and> same_addresses db db'
    \<and> (\<exists>row read. rehash_of sv name db' = Inr (row, read, row_SpecHash row))
    \<and> (\<forall>other. other \<noteq> name \<longrightarrow> store_get other db' = store_get other db)"
proof -
  obtain row read hash where found: "rehash_of sv name db = Inr (row, read, hash)"
    and how: "if hash = row_SpecHash row then db' = db
      else (\<exists>newid now r. Upsert newid now (row\<lparr>row_SpecHash := hash\<rparr>) (row_reads_of read) 0
           (table_List (db_ports db) (row_ID row)) db = (Inr r, db'))"
    using assms(1) unfolding rehashed_def by blast
  show ?thesis
  proof (cases "hash = row_SpecHash row")
    case True
    then show ?thesis using assms(2) found how by (auto simp: same_addresses_def)
  next
    case False
    then obtain newid now r where written: "Upsert newid now (row\<lparr>row_SpecHash := hash\<rparr>) (row_reads_of read) 0
        (table_List (db_ports db) (row_ID row)) db = (Inr r, db')"
      using how by auto
    have row: "store_get name db = Inr row" "row_Name row = name" using rehash_of_row [OF found] by auto
    have others: "store_get other db' = store_get other db" if "other \<noteq> name" for other
      using Upsert_other [of "row\<lparr>row_SpecHash := hash\<rparr>" other newid now "row_reads_of read" 0
          "table_List (db_ports db) (row_ID row)" db] written row(2) that by simp
    from Upsert_rehash [OF assms(2) row(1) False [symmetric] written]
    obtain row' where row': "store_get name db' = Inr row'" "row_ID row' = row_ID row" "row_Spec row' = row_Spec row"
      "row_SpecHash row' = hash" "\<And>wid. table_List (db_ports db') wid = table_List (db_ports db) wid"
      by blast
    have "map_sum id row_ID (store_get n db') = map_sum id row_ID (store_get n db)" for n
      using others row(1) row'(1,2) by (cases "n = name") auto
    then have same: "same_addresses db db'" by (rule published_cong) (rule row'(5))
    have "rehash_of sv name db' = Inr (row', read, hash)"
      by (rule rehash_of_cong [OF same row(1) row'(1,3) found])
    moreover have "store_ok db'" using Upsert_ok [OF assms(2)] written by (metis snd_conv)
    ultimately show ?thesis using same others row'(4) by blast
  qed
qed

end
