(* ===== verification/Secret_Properties.thy ===== *)
theory Secret_Properties
  imports Secret_Vault
begin

text \<open>
  What the node guarantees about its secrets. The operations are the steps of a transition system over the
  keyring, the tables and the memory of a server, with any of the keyring's system calls failing, the server
  crashing between any two steps of a rekey or of a start, and secrets deleted while a rekey runs. Beside
  the node goes what it should hold: the value each name was last set to.
\<close>

section \<open>What the node should hold\<close>

definition crypto_ok :: "crypto \<Rightarrow> bool" where
  "crypto_ok cr \<longleftrightarrow>
     (\<forall>k n v a. length n = NonceSize \<longrightarrow> cr_open cr k n (cr_seal cr k n v a) a = Some v)"

lemma Open_Seal [simp]:
  "crypto_ok cr \<Longrightarrow> length nonce = NonceSize \<Longrightarrow>
    cipher_Open cr cipher name (cipher_Seal cr cipher nonce name v) = Inr v"
  by (simp add: cipher_Open_def cipher_Seal_def crypto_ok_def)

definition delete_all :: "string set \<Rightarrow> secret_tables \<Rightarrow> secret_tables" where
  "delete_all D t = t\<lparr>st_secrets := filter (\<lambda>s. sec_Name s \<notin> D) (st_secrets t)\<rparr>"

definition empty_vault :: vault where
  "empty_vault = \<lparr>va_ring = \<lparr>kr_Mode = 448, kr_Files = []\<rparr>, va_tables = \<lparr>st_keys = [], st_secrets = []\<rparr>\<rparr>"

inductive vault_reaches :: "crypto \<Rightarrow> (string \<rightharpoonup> string) \<Rightarrow> secret_server option \<Rightarrow> vault \<Rightarrow> bool"
  for cr :: crypto where
  born: "vault_reaches cr Map.empty None empty_vault"
| started: "vault_reaches cr M None va \<Longrightarrow> length (ke_key env) = KeyLength \<Longrightarrow>
    start_secrets cr env va = (answer, va') \<Longrightarrow>
    vault_reaches cr M (case answer of Inl e \<Rightarrow> None | Inr srv \<Rightarrow> Some srv) va'"
| was_set: "vault_reaches cr M (Some srv) va \<Longrightarrow> length (en_nonce env) = NonceSize \<Longrightarrow>
    SecretService_store cr env srv name v labels ifMatch (va_tables va) = (Inr stored, t) \<Longrightarrow>
    vault_reaches cr (M(name \<mapsto> v)) (Some srv) (va\<lparr>va_tables := t\<rparr>)"
| set_refused: "vault_reaches cr M (Some srv) va \<Longrightarrow>
    SecretService_store cr env srv name v labels ifMatch (va_tables va) = (Inl e, t) \<Longrightarrow>
    vault_reaches cr M (Some srv) (va\<lparr>va_tables := t\<rparr>)"
| deleted: "vault_reaches cr M (Some srv) va \<Longrightarrow>
    SecretService_Delete name force db (va_tables va) = (None, t) \<Longrightarrow>
    vault_reaches cr (M(name := None)) (Some srv) (va\<lparr>va_tables := t\<rparr>)"
| delete_refused: "vault_reaches cr M (Some srv) va \<Longrightarrow>
    SecretService_Delete name force db (va_tables va) = (Some e, t) \<Longrightarrow>
    vault_reaches cr M (Some srv) (va\<lparr>va_tables := t\<rparr>)"
| rekeyed: "vault_reaches cr M (Some srv) va \<Longrightarrow> length (ke_key env) = KeyLength \<Longrightarrow>
    (\<And>name. length (nonces name) = NonceSize) \<Longrightarrow>
    admin_Rekey cr env nonces (delete_all D) srv va = (answer, srv', va') \<Longrightarrow>
    vault_reaches cr (if va_tables va' = va_tables va then M else M |` (- D)) (Some srv') va'"
| crashed: "vault_reaches cr M srv va \<Longrightarrow> vault_reaches cr M None va"
| crashed_creating: "vault_reaches cr M srv va \<Longrightarrow>
    vault_reaches cr M None (va\<lparr>va_ring := snd (Store_Create newid key fault (va_ring va))\<rparr>)"

section \<open>The invariant\<close>

definition current_cipher :: "crypto \<Rightarrow> vault \<Rightarrow> (string \<times> string) option" where
  "current_cipher cr va = (case keys_Current (va_tables va) of
       Inl e \<Rightarrow> None
     | Inr i \<Rightarrow> (case Store_Read False i (va_ring va) of Inl e \<Rightarrow> None | Inr key \<Rightarrow> Some (i, cr_derive cr key)))"

lemma current_cipher_cong:
  "keys_Current (va_tables va') = keys_Current (va_tables va) \<Longrightarrow> va_ring va' = va_ring va \<Longrightarrow>
    current_cipher cr va' = current_cipher cr va"
  by (simp only: current_cipher_def)

text \<open>Every secret is sealed under the given key, to the value it should have.\<close>

definition opens :: "crypto \<Rightarrow> (string \<rightharpoonup> string) \<Rightarrow> string \<Rightarrow> string \<Rightarrow> Secret list \<Rightarrow> bool" where
  "opens cr M i cipher ss \<longleftrightarrow> (\<forall>s\<in>set ss. sec_KeyID s = i
     \<and> (\<exists>v. M (sec_Name s) = Some v \<and> cipher_Open cr cipher (sec_Name s) (sec_Value s) = Inr v))"

definition keys_ok :: "(string \<times> bool) list \<Rightarrow> bool" where
  "keys_ok keys \<longleftrightarrow> distinct (map fst keys) \<and> (\<forall>a\<in>set keys. \<forall>b\<in>set keys. snd a \<longrightarrow> snd b \<longrightarrow> a = b)"

definition vault_ok :: "crypto \<Rightarrow> (string \<rightharpoonup> string) \<Rightarrow> secret_server option \<Rightarrow> vault \<Rightarrow> bool" where
  "vault_ok cr M srv va \<longleftrightarrow>
     \<not> shared_mode (kr_Mode (va_ring va)) \<and> keys_ok (st_keys (va_tables va))
     \<and> distinct (map sec_Name (st_secrets (va_tables va)))
     \<and> dom M = sec_Name ` set (st_secrets (va_tables va))
     \<and> (case current_cipher cr va of
          None \<Rightarrow> st_keys (va_tables va) = [] \<and> st_secrets (va_tables va) = [] \<and> srv = None
        | Some (i, cipher) \<Rightarrow> opens cr M i cipher (st_secrets (va_tables va))
            \<and> (\<forall>s. srv = Some s \<longrightarrow> s = \<lparr>srv_cipher = cipher, srv_keyID = i\<rparr>))"

lemma keys_ok_Nil [simp]: "keys_ok []"
  by (simp add: keys_ok_def)

lemma vault_okI:
  assumes "\<not> shared_mode (kr_Mode (va_ring va))" "keys_ok (st_keys (va_tables va))"
    and "distinct (map sec_Name (st_secrets (va_tables va)))"
    and "dom M = sec_Name ` set (st_secrets (va_tables va))"
    and "current_cipher cr va = Some (i, cipher)" "opens cr M i cipher (st_secrets (va_tables va))"
    and "srv = None \<or> srv = Some \<lparr>srv_cipher = cipher, srv_keyID = i\<rparr>"
  shows "vault_ok cr M srv va"
  using assms by (auto simp: vault_ok_def)

lemma vault_ok_down: "vault_ok cr M srv va \<Longrightarrow> vault_ok cr M None va"
  by (auto simp: vault_ok_def split: option.splits)

lemma vault_ok_up:
  assumes "vault_ok cr M (Some srv) va"
  obtains "current_cipher cr va = Some (srv_keyID srv, srv_cipher srv)"
    "opens cr M (srv_keyID srv) (srv_cipher srv) (st_secrets (va_tables va))"
proof -
  obtain i cipher where c: "current_cipher cr va = Some (i, cipher)"
    using assms by (cases "current_cipher cr va") (auto simp: vault_ok_def)
  then have "srv = \<lparr>srv_cipher = cipher, srv_keyID = i\<rparr>" "opens cr M i cipher (st_secrets (va_tables va))"
    using assms by (auto simp: vault_ok_def)
  with c that show ?thesis by simp
qed

text \<open>What a crash or a failed rekey leaves in the keyring hides no key.\<close>

lemma Create_keeps:
  assumes "Store_Read False i ring = Inr key"
  shows "Store_Read False i (snd (Store_Create newid bytes fault ring)) = Inr key"
proof -
  have "map_of (kr_Files ring) (key_path i) \<noteq> None"
    using assms by (auto simp: Store_Read_def split: option.splits)
  moreover have "map_of (kr_Files ring) (key_path newid) = None" if "key_path newid \<notin> fst ` set (kr_Files ring)"
    using that by (simp add: map_of_eq_None_iff)
  ultimately have "map_of (kr_Files (snd (Store_Create newid bytes fault ring))) (key_path i)
      = map_of (kr_Files ring) (key_path i)"
    by (auto simp: Store_Create_def Let_def map_add_def split: create_fault.split option.split)
  then show ?thesis using assms by (simp add: Store_Read_def)
qed

lemma Create_mode [simp]: "kr_Mode (snd (Store_Create newid bytes fault ring)) = kr_Mode ring"
  by (simp add: Store_Create_def Let_def split: create_fault.split)

lemma Create_reads:
  assumes "Store_Create newid bytes fault ring = (Inr i, ring')" "length bytes = KeyLength"
  shows "i = newid \<and> Store_Read False i ring' = Inr bytes"
proof -
  have new: "key_path newid \<notin> fst ` set (kr_Files ring)" "i = newid"
    "ring' = ring\<lparr>kr_Files := kr_Files ring @ [(key_path newid, \<lparr>kf_Data = bytes, kf_Mode = 384\<rparr>)]\<rparr>"
    using assms(1) by (auto simp: Store_Create_def Let_def split: if_splits create_fault.splits)
  then have "map_of (kr_Files ring) (key_path newid) = None" by (simp add: map_of_eq_None_iff)
  then show ?thesis using new assms(2) by (simp add: Store_Read_def shared_mode_def map_add_def)
qed

lemma Create_cipher:
  assumes "current_cipher cr va = Some c"
  shows "current_cipher cr (va\<lparr>va_ring := snd (Store_Create newid bytes fault (va_ring va))\<rparr>) = Some c"
  using assms Create_keeps by (fastforce simp: current_cipher_def split: sum.splits)

lemma vault_ok_Create:
  "vault_ok cr M srv va \<Longrightarrow> vault_ok cr M srv (va\<lparr>va_ring := snd (Store_Create newid bytes fault (va_ring va))\<rparr>)"
proof (cases "current_cipher cr va")
  case None
  then show "vault_ok cr M srv va \<Longrightarrow> ?thesis"
    by (auto simp: vault_ok_def current_cipher_def keys_Current_def)
next
  case (Some c)
  then show "vault_ok cr M srv va \<Longrightarrow> ?thesis" by (simp add: vault_ok_def Create_cipher)
qed

lemma Read_faulty: "Store_Read f i ring = Inr key \<Longrightarrow> Store_Read False i ring = Inr key"
  by (auto simp: Store_Read_def split: option.splits if_splits)

section \<open>Setting and deleting\<close>

lemma secrets_Get_Inr:
  "distinct (map sec_Name (st_secrets t)) \<Longrightarrow>
    secrets_Get name t = Inr s \<longleftrightarrow> s \<in> set (st_secrets t) \<and> sec_Name s = name"
  by (auto simp: secrets_Get_def find_None_iff distinct_map split: option.splits dest!: find_SomeD dest: inj_onD)

lemma secrets_Get_Inl:
  "secrets_Get name t = Inl e \<longleftrightarrow> e = Db_ErrSecretNotFound \<and> name \<notin> sec_Name ` set (st_secrets t)"
  by (auto simp: secrets_Get_def find_None_iff split: option.splits dest!: find_SomeD)

lemma secrets_Upsert_effect:
  assumes "secrets_Upsert newid now s ifMatch t = (Inr stored, t')" "distinct (map sec_Name (st_secrets t))"
  shows "st_keys t' = st_keys t \<and> sec_KeyID s \<in> fst ` set (st_keys t) \<and> distinct (map sec_Name (st_secrets t'))
    \<and> set (st_secrets t') = insert stored {x \<in> set (st_secrets t). sec_Name x \<noteq> sec_Name s}
    \<and> sec_Name stored = sec_Name s \<and> sec_Value stored = sec_Value s \<and> sec_KeyID stored = sec_KeyID s
    \<and> sec_Revision stored = sec_Revision s \<and> sec_Version stored = secret_version (sec_Name s) t + 1
    \<and> (ifMatch \<noteq> 0 \<longrightarrow> secret_version (sec_Name s) t = ifMatch)"
proof (cases "secrets_Get (sec_Name s) t")
  case (Inl e)
  then have "sec_Name s \<notin> sec_Name ` set (st_secrets t)" by (simp add: secrets_Get_Inl)
  moreover then have same: "{x \<in> set (st_secrets t). sec_Name x \<noteq> sec_Name s} = set (st_secrets t)"
    by (auto intro: image_eqI [OF sym])
  ultimately show ?thesis
    using assms Inl unfolding same by (auto simp: secrets_Upsert_def Let_def split: if_splits)
next
  case (Inr old)
  then have old: "old \<in> set (st_secrets t)" "sec_Name old = sec_Name s"
    using secrets_Get_Inr [OF assms(2)] by auto
  have t': "st_secrets t' = map (\<lambda>x. if sec_Name x = sec_Name s then stored else x) (st_secrets t)"
    and stored: "stored = s\<lparr>sec_ID := sec_ID old, sec_Version := secret_version (sec_Name s) t + 1,
      sec_CreatedAt := sec_CreatedAt old, sec_UpdatedAt := now\<rparr>"
    using assms(1) Inr by (auto simp: secrets_Upsert_def Let_def split: if_splits)
  have "map sec_Name (st_secrets t') = map sec_Name (st_secrets t)" unfolding t' by (simp add: stored)
  moreover have "set (st_secrets t') = insert stored {x \<in> set (st_secrets t). sec_Name x \<noteq> sec_Name s}"
    unfolding t' using old by auto
  ultimately show ?thesis
    using assms Inr stored by (auto simp: secrets_Upsert_def Let_def split: if_splits)
qed

lemma secrets_Upsert_refused: "secrets_Upsert newid now s ifMatch t = (Inl e, t') \<Longrightarrow> t' = t"
  by (auto simp: secrets_Upsert_def Let_def split: if_splits sum.splits)

lemma SecretService_store_refused:
  "SecretService_store cr env srv name v labels ifMatch t = (Inl e, t') \<Longrightarrow> t' = t"
  by (auto simp: SecretService_store_def Let_def split: if_splits sum.splits prod.splits dest!: secrets_Upsert_refused)

text \<open>The row of the name that was set: sealed anew, or the one that held the value already.\<close>

definition holds :: "crypto \<Rightarrow> secret_env \<Rightarrow> secret_server \<Rightarrow> string \<Rightarrow> string \<Rightarrow> secret_tables \<Rightarrow> Secret \<Rightarrow> bool" where
  "holds cr env srv name v t s \<longleftrightarrow> sec_Name s = name
     \<and> (sec_KeyID s = srv_keyID srv \<and> sec_Value s = cipher_Seal cr (srv_cipher srv) (en_nonce env) name v
        \<or> (\<exists>old\<in>set (st_secrets t). sec_Name old = name \<and> sec_KeyID s = sec_KeyID old
             \<and> sec_Value s = sec_Value old \<and> sec_Revision s = sec_Revision old
             \<and> cipher_Open cr (srv_cipher srv) name (sec_Value old) = Inr v))"

lemma SecretService_store_effect:
  assumes "SecretService_store cr env srv name v labels ifMatch t = (Inr (stored, created, moved), t')"
    and "distinct (map sec_Name (st_secrets t))"
  shows "st_keys t' = st_keys t \<and> distinct (map sec_Name (st_secrets t')) \<and> holds cr env srv name v t stored
    \<and> set (st_secrets t') = insert stored {x \<in> set (st_secrets t). sec_Name x \<noteq> name}
    \<and> (created \<longleftrightarrow> name \<notin> sec_Name ` set (st_secrets t))
    \<and> (moved \<longleftrightarrow> (\<forall>old\<in>set (st_secrets t). sec_Name old = name \<longrightarrow>
         cipher_Open cr (srv_cipher srv) name (sec_Value old) \<noteq> Inr v))
    \<and> (moved \<longrightarrow> sec_Revision stored = en_revision env)"
proof -
  let ?new = "\<lparr>sec_ID = [], sec_Name = name, sec_Value = cipher_Seal cr (srv_cipher srv) (en_nonce env) name v,
    sec_KeyID = srv_keyID srv, sec_Revision = en_revision env, sec_Labels = labels, sec_Version = 0,
    sec_CreatedAt = 0, sec_UpdatedAt = 0\<rparr>"
  show ?thesis
  proof (cases "secrets_Get name t")
    case (Inl e)
    then have absent: "name \<notin> sec_Name ` set (st_secrets t)" "secrets_Get name t = Inl Db_ErrSecretNotFound"
      by (auto simp: secrets_Get_Inl)
    then have "secrets_Upsert (en_newid env) (en_now env) ?new ifMatch t = (Inr stored, t')" "created" "moved"
      using assms(1) by (auto simp: SecretService_store_def Let_def split: if_splits prod.splits sum.splits)
    moreover have "\<forall>x\<in>set (st_secrets t). sec_Name x \<noteq> name" using absent(1) by blast
    ultimately show ?thesis
      using secrets_Upsert_effect [of _ _ ?new ifMatch t stored t'] assms(2) absent(1) by (simp add: holds_def)
  next
    case (Inr old)
    then have old: "old \<in> set (st_secrets t)" "sec_Name old = name"
      using secrets_Get_Inr [OF assms(2)] by simp_all
    then have only: "x = old" if "x \<in> set (st_secrets t)" "sec_Name x = name" for x
      using assms(2) old that by (auto simp: distinct_map dest: inj_onD)
    have accepted: "\<not> (ifMatch \<noteq> 0 \<and> sec_Version old \<noteq> ifMatch)"
    proof
      assume "ifMatch \<noteq> 0 \<and> sec_Version old \<noteq> ifMatch"
      then show False using assms(1) Inr by (simp add: SecretService_store_def)
    qed
    have present: "name \<in> sec_Name ` set (st_secrets t)" using old by (metis imageI)
    have others: "set (st_secrets t) = insert old {x \<in> set (st_secrets t). sec_Name x \<noteq> name}"
      using old only by blast
    have moves: "(\<forall>x\<in>set (st_secrets t). sec_Name x = name \<longrightarrow>
        cipher_Open cr (srv_cipher srv) name (sec_Value x) \<noteq> Inr v)
      \<longleftrightarrow> \<not> unchanged cr (srv_cipher srv) name (sec_Value old) v"
      using old only unfolding unchanged_def by metis
    consider (fresh) "\<not> unchanged cr (srv_cipher srv) name (sec_Value old) v" "\<not> created" "moved"
        "secrets_Upsert (en_newid env) (en_now env) ?new ifMatch t = (Inr stored, t')"
      | (same) "unchanged cr (srv_cipher srv) name (sec_Value old) v" "\<not> created" "\<not> moved" "stored = old" "t' = t"
      | (label) "unchanged cr (srv_cipher srv) name (sec_Value old) v" "\<not> created" "\<not> moved"
        "secrets_Upsert (en_newid env) (en_now env) (old\<lparr>sec_Labels := labels\<rparr>) ifMatch t = (Inr stored, t')"
    proof (cases "unchanged cr (srv_cipher srv) name (sec_Value old) v")
      case False
      have "\<exists>x. secrets_Upsert (en_newid env) (en_now env) ?new ifMatch t = (x, t')
          \<and> x = Inr stored \<and> \<not> created \<and> moved"
        using assms(1) False accepted
        by (simp add: SecretService_store_def Inr Let_def split: prod.split_asm sum.split_asm)
      then show ?thesis by (intro that(1) False) auto
    next
      case True
      note known = True
      show ?thesis
      proof (cases "maps_Equal (sec_Labels old) labels")
        case True
        have "old = stored \<and> t = t' \<and> \<not> created \<and> \<not> moved"
          using assms(1) True known accepted by (simp add: SecretService_store_def Inr Let_def)
        then show ?thesis by (intro that(2) known) auto
      next
        case False
        have "\<exists>x. secrets_Upsert (en_newid env) (en_now env) (old\<lparr>sec_Labels := labels\<rparr>) ifMatch t = (x, t')
            \<and> x = Inr stored \<and> \<not> created \<and> \<not> moved"
          using assms(1) False known accepted
          by (simp add: SecretService_store_def Inr Let_def split: prod.split_asm sum.split_asm)
        then show ?thesis by (intro that(3) known) auto
      qed
    qed
    then show ?thesis
    proof cases
      case fresh
      then show ?thesis using secrets_Upsert_effect [OF fresh(4) assms(2)] present moves by (simp add: holds_def)
    next
      case same
      then have "holds cr env srv name v t stored"
        using old unfolding holds_def unchanged_def by blast
      then show ?thesis using same present others moves assms(2) by simp
    next
      case label
      note effect = secrets_Upsert_effect [OF label(4) assms(2)]
      have "holds cr env srv name v t stored"
        using old label(1) effect unfolding holds_def unchanged_def by auto
      then show ?thesis using label effect present moves old(2) by simp
    qed
  qed
qed

lemma vault_ok_set:
  assumes "vault_ok cr M (Some srv) va" "crypto_ok cr" "length (en_nonce env) = NonceSize"
    and "SecretService_store cr env srv name v labels ifMatch (va_tables va) = (Inr stored, t)"
  shows "vault_ok cr (M(name \<mapsto> v)) (Some srv) (va\<lparr>va_tables := t\<rparr>)"
proof (cases rule: vault_ok_up [OF assms(1)])
  case 1
  obtain row created moved where stored: "stored = (row, created, moved)" by (cases stored)
  have d: "distinct (map sec_Name (st_secrets (va_tables va)))"
    and dom: "dom M = sec_Name ` set (st_secrets (va_tables va))"
    using assms(1) by (simp_all add: vault_ok_def)
  note effect = SecretService_store_effect [OF assms(4) [unfolded stored] d]
  have "cipher_Open cr (srv_cipher srv) name (sec_Value row) = Inr v" "sec_KeyID row = srv_keyID srv" "sec_Name row = name"
    using effect 1(2) assms(2,3) by (auto simp: holds_def opens_def)
  then have "opens cr (M(name \<mapsto> v)) (srv_keyID srv) (srv_cipher srv) (st_secrets t)"
    using 1(2) effect by (simp add: opens_def)
  moreover have "insert name (dom M) = sec_Name ` set (st_secrets t)"
    using dom effect \<open>sec_Name row = name\<close> by (auto simp: image_iff)
  moreover have "current_cipher cr (va\<lparr>va_tables := t\<rparr>) = Some (srv_keyID srv, srv_cipher srv)"
    using 1(1) effect current_cipher_cong [of "va\<lparr>va_tables := t\<rparr>" va cr] by (simp add: keys_Current_def)
  ultimately show ?thesis
    using assms(1) effect unfolding vault_ok_def by simp
qed

lemma vault_ok_filter:
  assumes "vault_ok cr M srv va"
  shows "vault_ok cr (M |` (- D)) srv (va\<lparr>va_tables := delete_all D (va_tables va)\<rparr>)"
proof -
  let ?va = "va\<lparr>va_tables := delete_all D (va_tables va)\<rparr>"
  have "current_cipher cr ?va = current_cipher cr va"
    by (rule current_cipher_cong) (simp_all add: keys_Current_def delete_all_def)
  moreover have "dom (M |` (- D)) = sec_Name ` set (st_secrets (va_tables ?va))"
    using assms by (auto simp: vault_ok_def delete_all_def)
  moreover have "distinct (map sec_Name (st_secrets (va_tables ?va)))"
    using assms by (simp add: vault_ok_def delete_all_def distinct_map_filter)
  moreover have "opens cr (M |` (- D)) i cipher (st_secrets (va_tables ?va))"
    if "opens cr M i cipher (st_secrets (va_tables va))" for i cipher
    using that by (auto simp: opens_def delete_all_def)
  ultimately show ?thesis
    using assms by (auto simp: vault_ok_def delete_all_def split: option.splits)
qed

lemma restrict_one: "M |` (- {name}) = M(name := None)"
  by (auto simp: restrict_map_def)

lemma vault_ok_delete:
  assumes "vault_ok cr M srv va" "SecretService_Delete name force db (va_tables va) = (None, t)"
  shows "vault_ok cr (M(name := None)) srv (va\<lparr>va_tables := t\<rparr>)"
proof -
  have "t = delete_all {name} (va_tables va)"
    using assms(2) by (auto simp: SecretService_Delete_def secrets_Delete_def delete_all_def Let_def
        split: if_splits prod.splits option.splits)
  then show ?thesis using vault_ok_filter [OF assms(1), of "{name}"] by (simp add: restrict_one)
qed

lemma SecretService_Delete_refused: "SecretService_Delete name force db t = (Some e, t') \<Longrightarrow> t' = t"
  by (auto simp: SecretService_Delete_def secrets_Delete_def Let_def split: if_splits)

section \<open>Rekeying\<close>

lemma reseal_all_names: "reseal_all cr old new nonces ss = Inr sealed \<Longrightarrow> map fst sealed = map sec_Name ss"
  by (induction ss arbitrary: sealed) (auto simp: map_sum_eq_Inr split: sum.splits)

lemma reseal_all_opens:
  assumes "crypto_ok cr" "\<And>name. length (nonces name) = NonceSize"
    and "\<forall>s\<in>set ss. cipher_Open cr old (sec_Name s) (sec_Value s) = Inr (m (sec_Name s))"
  shows "\<exists>sealed. reseal_all cr old new nonces ss = Inr sealed
    \<and> (\<forall>(name, v)\<in>set sealed. cipher_Open cr new name v = Inr (m name))"
  using assms(3) by (induction ss) (use assms(1,2) in auto)

lemma keys_ok_promote:
  "keys_ok keys \<Longrightarrow> i \<notin> fst ` set keys \<Longrightarrow> keys_ok (demoted keys @ [(i, True)])"
  by (auto simp: keys_ok_def demoted_def comp_def)

lemma find_promote: "find snd (demoted keys @ [(i, True)]) = Some (i, True)"
  by (induction keys) (auto simp: demoted_def)

lemma vault_ok_promote:
  assumes "vault_ok cr M srv va" "i \<notin> fst ` set (st_keys (va_tables va))"
    and "Store_Read False i ring = Inr key" "kr_Mode ring = kr_Mode (va_ring va)"
    and "st_keys t = demoted (st_keys (va_tables va)) @ [(i, True)]"
    and "map sec_Name (st_secrets t) = map sec_Name (st_secrets (va_tables va))"
    and "opens cr M i (cr_derive cr key) (st_secrets t)"
    and "srv' = None \<or> srv' = Some \<lparr>srv_cipher = cr_derive cr key, srv_keyID = i\<rparr>"
  shows "vault_ok cr M srv' \<lparr>va_ring = ring, va_tables = t\<rparr>"
proof (rule vault_okI)
  let ?va = "\<lparr>va_ring = ring, va_tables = t\<rparr>"
  show "current_cipher cr ?va = Some (i, cr_derive cr key)"
    by (simp add: current_cipher_def keys_Current_def assms(3,5) find_promote)
  have "sec_Name ` set (st_secrets t) = sec_Name ` set (st_secrets (va_tables va))"
    using assms(6) by (metis set_map)
  then show "dom M = sec_Name ` set (st_secrets (va_tables ?va))"
    using assms(1) by (simp add: vault_ok_def)
qed (use assms in \<open>simp_all add: vault_ok_def keys_ok_promote\<close>)

lemma vault_ok_service_rekey:
  assumes "vault_ok cr M (Some srv) va" "crypto_ok cr" "\<And>name. length (nonces name) = NonceSize"
    and "Store_Read False i (va_ring va) = Inr key"
    and "SecretService_Rekey cr (cr_derive cr key) i nonces (delete_all D) srv (va_tables va) = (answer, srv', t)"
  shows "vault_ok cr (if t = va_tables va then M else M |` (- D)) (Some srv') (va\<lparr>va_tables := t\<rparr>)"
proof (cases rule: vault_ok_up [OF assms(1)])
  case 1
  let ?t = "delete_all D (va_tables va)" and ?va = "va\<lparr>va_tables := delete_all D (va_tables va)\<rparr>"
  let ?M = "M |` (- D)"
  have filtered: "vault_ok cr ?M (Some srv) ?va" by (rule vault_ok_filter [OF assms(1)])
  have "\<forall>s\<in>set (ListSealed (va_tables va)).
      cipher_Open cr (srv_cipher srv) (sec_Name s) (sec_Value s) = Inr (the (M (sec_Name s)))"
    using 1(2) by (fastforce simp: opens_def ListSealed_def)
  from reseal_all_opens [where nonces = nonces, OF assms(2,3) this] obtain sealed
    where sealed: "reseal_all cr (srv_cipher srv) (cr_derive cr key) nonces (ListSealed (va_tables va)) = Inr sealed"
      "\<forall>(name, v)\<in>set sealed. cipher_Open cr (cr_derive cr key) name v = Inr (the (M name))"
    by blast
  show ?thesis
  proof (cases "fst (secrets_Rekey i sealed ?t)")
    case (Some e)
    then have "srv' = srv" "t = ?t"
      using assms(5) sealed(1) by (auto simp: SecretService_Rekey_def secrets_Rekey_def split: if_splits)
    then show ?thesis using filtered assms(1) by auto
  next
    case None
    then have t: "t = ?t\<lparr>st_keys := demoted (st_keys ?t) @ [(i, True)], st_secrets := map (reseal i sealed) (st_secrets ?t)\<rparr>"
      and srv': "srv' = \<lparr>srv_cipher = cr_derive cr key, srv_keyID = i\<rparr>"
      and new: "i \<notin> fst ` set (st_keys ?t)" "length (st_secrets ?t) = length sealed"
      "list_all (\<lambda>p. fst p \<in> sec_Name ` set (st_secrets ?t)) sealed"
      using assms(5) sealed(1) by (auto simp: SecretService_Rekey_def secrets_Rekey_def split: if_splits)
    have names: "map fst sealed = map sec_Name (ListSealed (va_tables va))" by (rule reseal_all_names [OF sealed(1)])
    have "opens cr ?M i (cr_derive cr key) (map (reseal i sealed) (st_secrets ?t))"
      unfolding opens_def
    proof
      fix x assume "x \<in> set (map (reseal i sealed) (st_secrets ?t))"
      then obtain s where s: "s \<in> set (st_secrets ?t)" "x = reseal i sealed s" by auto
      then have "s \<in> set (st_secrets (va_tables va))" by (simp add: delete_all_def)
      then have "sec_Name s \<in> set (map fst sealed)" by (simp add: names ListSealed_def)
      then obtain v where v: "map_of sealed (sec_Name s) = Some v" by (metis list.set_map map_of_eq_None_iff not_None_eq)
      then have "cipher_Open cr (cr_derive cr key) (sec_Name s) v = Inr (the (M (sec_Name s)))"
        using sealed(2) map_of_SomeD by fastforce
      moreover have "dom ?M = sec_Name ` set (st_secrets ?t)" using filtered by (simp add: vault_ok_def)
      then obtain w where "?M (sec_Name s) = Some w" using s(1) by (metis domD imageI)
      moreover then have "the (M (sec_Name s)) = w" by (simp add: restrict_map_def split: if_splits)
      ultimately show "sec_KeyID x = i \<and> (\<exists>v. ?M (sec_Name x) = Some v
          \<and> cipher_Open cr (cr_derive cr key) (sec_Name x) (sec_Value x) = Inr v)"
        by (simp add: s(2) reseal_def v)
    qed
    moreover have "map sec_Name (st_secrets t) = map sec_Name (st_secrets ?t)"
      by (simp add: t reseal_def split: option.split)
    ultimately have "vault_ok cr ?M (Some srv') \<lparr>va_ring = va_ring va, va_tables = t\<rparr>"
      using vault_ok_promote [OF filtered, of i "va_ring va" key t "Some srv'"] new(1) assms(4) srv' by (simp add: t)
    moreover have "t \<noteq> va_tables va"
    proof
      assume "t = va_tables va"
      moreover have "i \<in> fst ` set (st_keys t)" by (simp add: t)
      ultimately have "i \<in> fst ` set (st_keys (va_tables va))" by simp
      then show False using new(1) by (simp add: delete_all_def)
    qed
    ultimately show ?thesis by (cases va) simp
  qed
qed

lemma vault_ok_admin_rekey:
  assumes "vault_ok cr M (Some srv) va" "crypto_ok cr" "\<And>name. length (nonces name) = NonceSize"
    and "length (ke_key env) = KeyLength"
    and "admin_Rekey cr env nonces (delete_all D) srv va = (answer, srv', va')"
  shows "vault_ok cr (if va_tables va' = va_tables va then M else M |` (- D)) (Some srv') va'"
proof -
  let ?ring = "snd (Store_Create (ke_newid env) (ke_key env) (ke_create env) (va_ring va))"
  have created: "vault_ok cr M (Some srv) (va\<lparr>va_ring := ?ring\<rparr>)" by (rule vault_ok_Create [OF assms(1)])
  consider "srv' = srv" "va' = va\<lparr>va_ring := ?ring\<rparr>"
    | i key a t where "Store_Create (ke_newid env) (ke_key env) (ke_create env) (va_ring va) = (Inr i, ?ring)"
      "Store_Read (ke_read env) i ?ring = Inr key"
      "SecretService_Rekey cr (cr_derive cr key) i nonces (delete_all D) srv (va_tables va) = (a, srv', t)"
      "va' = \<lparr>va_ring = ?ring, va_tables = t\<rparr>"
    using assms(5) by (auto simp: admin_Rekey_def cipher_New_def split: prod.splits sum.splits if_splits)
  then show ?thesis
  proof cases
    case 2
    have "vault_ok cr (if t = va_tables va then M else M |` (- D)) (Some srv') (va\<lparr>va_ring := ?ring, va_tables := t\<rparr>)"
      using vault_ok_service_rekey [where nonces = nonces, OF created assms(2,3), of i key D a srv' t]
        Read_faulty [OF 2(2)] 2(3) by simp
    then show ?thesis by (cases va) (simp add: 2(4))
  qed (use created in simp)
qed

section \<open>Starting\<close>

lemma current_cipher_None:
  "vault_ok cr M srv va \<Longrightarrow> current_cipher cr va = None \<Longrightarrow> st_keys (va_tables va) = [] \<and> st_secrets (va_tables va) = []"
  by (simp add: vault_ok_def)

lemma vault_ok_adopt:
  assumes "vault_ok cr M None va" "current_cipher cr va = None" "length (ke_key env) = KeyLength"
    and "generateKey env keys_Adopt va = (answer, va')"
  shows "vault_ok cr M (case answer of Inl e \<Rightarrow> None
    | Inr (i, key) \<Rightarrow> Some \<lparr>srv_cipher = cr_derive cr key, srv_keyID = i\<rparr>) va'"
proof -
  let ?create = "Store_Create (ke_newid env) (ke_key env) (ke_create env) (va_ring va)"
  have created: "vault_ok cr M None (va\<lparr>va_ring := snd ?create\<rparr>)" by (rule vault_ok_Create [OF assms(1)])
  have none: "st_keys (va_tables va) = []" "st_secrets (va_tables va) = []" "M = Map.empty"
    using current_cipher_None [OF assms(1,2)] assms(1) by (auto simp: vault_ok_def)
  show ?thesis
  proof (cases "fst ?create")
    case (Inl e)
    then show ?thesis using assms(4) created by (cases ?create) (auto simp: generateKey_def)
  next
    case (Inr i)
    then have create: "?create = (Inr i, snd ?create)" by (metis prod.collapse)
    have read: "i = ke_newid env" "Store_Read False i (snd ?create) = Inr (ke_key env)"
      using Create_reads [OF create assms(3)] by auto
    let ?va = "\<lparr>va_ring = snd ?create, va_tables = (va_tables va)\<lparr>st_keys := [(i, True)]\<rparr>\<rparr>"
    have answer: "answer = map_sum id (Pair i) (Store_Read (ke_read env) i (snd ?create))" "va' = ?va"
      using assms(4) none by (simp_all add: generateKey_def keys_Adopt_def case_prod_unfold Inr)
    have "vault_ok cr M s ?va" if "s = None \<or> s = Some \<lparr>srv_cipher = cr_derive cr (ke_key env), srv_keyID = i\<rparr>" for s
      using vault_ok_promote [OF assms(1), of i "snd ?create" "ke_key env" "(va_tables va)\<lparr>st_keys := [(i, True)]\<rparr>" s]
        that read(2) none by (simp add: opens_def demoted_def)
    moreover have "key = ke_key env" if "Store_Read (ke_read env) i (snd ?create) = Inr key" for key
      using Read_faulty [OF that] read(2) by simp
    ultimately show ?thesis
      unfolding answer by (cases "Store_Read (ke_read env) i (snd ?create)") simp_all
  qed
qed

lemma current_readable:
  assumes "current_cipher cr va = Some (i, cipher)"
  obtains key where "keys_Current (va_tables va) = Inr i" "Store_Read False i (va_ring va) = Inr key"
    "cipher = cr_derive cr key"
  using assms by (auto simp: current_cipher_def split: sum.splits)

lemma Read_present: "Store_Read False i ring = Inr key \<Longrightarrow> Store_Read f i ring \<in> {Inl Keyring_Failed, Inr key}"
  by (auto simp: Store_Read_def split: option.splits if_splits)

lemma vault_ok_start:
  assumes "vault_ok cr M None va" "length (ke_key env) = KeyLength" "start_secrets cr env va = (answer, va')"
  shows "vault_ok cr M (case answer of Inl e \<Rightarrow> None | Inr srv \<Rightarrow> Some srv) va'"
proof -
  have opened: "NewStore (Some (va_ring va)) = Inr (va_ring va)" using assms(1) by (simp add: NewStore_def vault_ok_def)
  show ?thesis
  proof (cases "current_cipher cr va")
    case None
    then have none: "keys_Current (va_tables va) = Inl ErrNoCurrentKey"
      using current_cipher_None [OF assms(1)] by (simp add: keys_Current_def)
    obtain a where generated: "generateKey env keys_Adopt va = (a, va')"
      and answer: "answer = (case a of Inl e \<Rightarrow> Inl e
        | Inr (i, key) \<Rightarrow> map_sum id (\<lambda>cipher. \<lparr>srv_cipher = cipher, srv_keyID = i\<rparr>) (cipher_New cr key))"
      using assms(3) opened none by (auto simp: start_secrets_def currentKey_def split: prod.splits sum.splits)
    note ok = vault_ok_adopt [OF assms(1) None assms(2) generated]
    show ?thesis
    proof (cases a)
      case (Inr r)
      then show ?thesis
        using ok vault_ok_down [OF ok] unfolding answer by (auto simp: cipher_New_def split: prod.splits)
    qed (use ok in \<open>simp add: answer\<close>)
  next
    case (Some c)
    obtain i cipher where c: "c = (i, cipher)" by (cases c)
    from Some [unfolded c] obtain key where key: "keys_Current (va_tables va) = Inr i"
      "Store_Read False i (va_ring va) = Inr key" "cipher = cr_derive cr key"
      by (rule current_readable)
    then have "currentKey env va = (map_sum id (Pair i) (Store_Read (ke_read env) i (va_ring va)), va)"
      using Read_present [OF key(2), of "ke_read env"] by (auto simp: currentKey_def)
    then have "va' = va" "answer \<in> {Inl Keyring_Failed, Inl ErrInvalidKey, Inr \<lparr>srv_cipher = cipher, srv_keyID = i\<rparr>}"
      using assms(3) opened Read_present [OF key(2), of "ke_read env"] key(3)
      by (auto simp: start_secrets_def cipher_New_def split: sum.splits)
    then show ?thesis using assms(1) Some c by (auto simp: vault_ok_def)
  qed
qed

lemma reaches_ok:
  assumes "vault_reaches cr M srv va" "crypto_ok cr"
  shows "vault_ok cr M srv va"
  using assms(1)
proof (induction rule: vault_reaches.induct)
  case born
  show ?case
    by (simp add: vault_ok_def empty_vault_def shared_mode_def current_cipher_def keys_Current_def)
next
  case (started M va env answer va')
  then show ?case using vault_ok_start by blast
next
  case (was_set M srv va env name v labels ifMatch stored t)
  then show ?case using vault_ok_set assms(2) by blast
next
  case (set_refused M srv va env name v labels ifMatch e t)
  then show ?case using SecretService_store_refused by fastforce
next
  case (deleted M srv va name force db t)
  then show ?case using vault_ok_delete by blast
next
  case (delete_refused M srv va name force db e t)
  then show ?case using SecretService_Delete_refused by fastforce
next
  case (rekeyed M srv va env nonces D answer srv' va')
  then show ?case using vault_ok_admin_rekey [where nonces = nonces] assms(2) by blast
next
  case (crashed M srv va)
  then show ?case by (blast intro: vault_ok_down)
next
  case (crashed_creating M srv va newid key fault)
  then show ?case by (blast intro: vault_ok_Create vault_ok_down)
qed

lemma Value_opens:
  assumes "vault_ok cr M (Some srv) va"
  shows "SecretService_Value cr srv name (va_tables va)
    = (case M name of None \<Rightarrow> Inl Db_ErrSecretNotFound | Some v \<Rightarrow> Inr v)"
proof (cases rule: vault_ok_up [OF assms])
  case 1
  have dom: "dom M = sec_Name ` set (st_secrets (va_tables va))"
    and d: "distinct (map sec_Name (st_secrets (va_tables va)))"
    using assms by (simp_all add: vault_ok_def)
  show ?thesis
  proof (cases "M name")
    case None
    then have "name \<notin> sec_Name ` set (st_secrets (va_tables va))" using dom by (metis domIff)
    then have "secrets_Get name (va_tables va) = Inl Db_ErrSecretNotFound" by (simp add: secrets_Get_Inl)
    with None show ?thesis by (simp add: SecretService_Value_def)
  next
    case (Some v)
    then have "name \<in> sec_Name ` set (st_secrets (va_tables va))" using dom by (metis domI)
    then obtain s where s: "s \<in> set (st_secrets (va_tables va))" "sec_Name s = name" by blast
    then have "secrets_Get name (va_tables va) = Inr s" using secrets_Get_Inr [OF d] by simp
    moreover have "cipher_Open cr (srv_cipher srv) name (sec_Value s) = Inr v"
      using 1(2) s Some unfolding opens_def by force
    ultimately show ?thesis using Some by (simp add: SecretService_Value_def)
  qed
qed

section \<open>Properties\<close>

text \<open>
  C14. No secret is ever lost. Whatever was set, deleted and rekeyed, whichever calls on the keyring failed,
  and wherever the server crashed and started again, a running server answers every name with the value it
  was last set to, and a server that is down starts again when the calls it makes succeed and the key it
  generates is new.
\<close>

theorem secrets_survive:
  assumes "vault_reaches cr M srv va" "crypto_ok cr"
  shows "(\<forall>s name. srv = Some s \<longrightarrow> SecretService_Value cr s name (va_tables va)
        = (case M name of None \<Rightarrow> Inl Db_ErrSecretNotFound | Some v \<Rightarrow> Inr v))
    \<and> (srv = None \<longrightarrow> (\<forall>env. ke_create env = NoFault \<and> \<not> ke_read env \<and> length (ke_key env) = KeyLength
          \<and> key_path (ke_newid env) \<notin> fst ` set (kr_Files (va_ring va)) \<longrightarrow>
        (\<exists>s va'. start_secrets cr env va = (Inr s, va') \<and> vault_reaches cr M (Some s) va')))"
proof -
  have ok: "vault_ok cr M srv va" by (rule reaches_ok [OF assms])
  have "\<exists>s va'. start_secrets cr env va = (Inr s, va') \<and> vault_reaches cr M (Some s) va'"
    if down: "srv = None" and fresh: "ke_create env = NoFault" "\<not> ke_read env" "length (ke_key env) = KeyLength"
      "key_path (ke_newid env) \<notin> fst ` set (kr_Files (va_ring va))" for env
  proof -
    obtain a va' where start: "start_secrets cr env va = (a, va')" by fastforce
    have opened: "NewStore (Some (va_ring va)) = Inr (va_ring va)" using ok by (simp add: NewStore_def vault_ok_def)
    have "\<exists>s. a = Inr s"
    proof (cases "current_cipher cr va")
      case None
      then have "st_keys (va_tables va) = []" using current_cipher_None [OF ok] by simp
      moreover obtain ring where "Store_Create (ke_newid env) (ke_key env) NoFault (va_ring va) = (Inr (ke_newid env), ring)"
        using fresh(4) by (simp add: Store_Create_def Let_def)
      moreover then have "Store_Read False (ke_newid env) ring = Inr (ke_key env)"
        using Create_reads [OF _ fresh(3)] by blast
      ultimately show ?thesis
        using start opened fresh(1-3)
        by (auto simp: start_secrets_def currentKey_def keys_Current_def generateKey_def keys_Adopt_def cipher_New_def)
    next
      case (Some c)
      obtain i cipher where c: "c = (i, cipher)" by (cases c)
      from Some [unfolded c] obtain key where "keys_Current (va_tables va) = Inr i" "Store_Read False i (va_ring va) = Inr key"
        by (rule current_readable)
      moreover then have "length key = KeyLength" by (auto simp: Store_Read_def split: option.splits if_splits)
      ultimately show ?thesis
        using start opened fresh(2) by (auto simp: start_secrets_def currentKey_def cipher_New_def)
    qed
    then obtain s where "a = Inr s" by blast
    then show ?thesis using vault_reaches.started [of cr M va env a va'] assms(1) down start fresh(3) by auto
  qed
  moreover have "SecretService_Value cr s name (va_tables va)
      = (case M name of None \<Rightarrow> Inl Db_ErrSecretNotFound | Some v \<Rightarrow> Inr v)" if "srv = Some s" for s name
    using Value_opens ok that by simp
  ultimately show ?thesis by simp
qed

text \<open>A server that is born, is given a secret and is rekeyed; its cipher writes the key in front of what it seals.\<close>

definition example_crypto :: crypto where
  "example_crypto = \<lparr>cr_derive = (\<lambda>key. key), cr_seal = (\<lambda>k n v a. k @ n @ a @ v),
     cr_open = (\<lambda>k n c a. if take (length (k @ n @ a)) c = k @ n @ a then Some (drop (length (k @ n @ a)) c) else None)\<rparr>"

lemma example_crypto_ok: "crypto_ok example_crypto"
  by (simp add: crypto_ok_def example_crypto_def)

definition example_key :: "char \<Rightarrow> string \<Rightarrow> key_env" where
  "example_key c i = \<lparr>ke_newid = i, ke_key = replicate 32 c, ke_create = NoFault, ke_read = False\<rparr>"

definition example_secret_env :: secret_env where
  "example_secret_env = \<lparr>en_nonce = replicate 12 CHR ''n'', en_revision = ''r1'', en_newid = ''s1'', en_now = 1\<rparr>"

definition example_vault :: vault where
  "example_vault = snd (start_secrets example_crypto (example_key CHR ''a'' ''k1'') empty_vault)"

definition example_server :: secret_server where
  "example_server = \<lparr>srv_cipher = replicate 32 CHR ''a'', srv_keyID = ''k1''\<rparr>"

definition example_sealed :: "(vault_error + Secret \<times> bool \<times> bool) \<times> secret_tables" where
  "example_sealed = SecretService_store example_crypto example_secret_env example_server ''tls'' ''hunter2'' [] 0
     (va_tables example_vault)"

definition example_rekey :: "(vault_error + nat \<times> string \<times> string) \<times> secret_server \<times> vault" where
  "example_rekey = admin_Rekey example_crypto (example_key CHR ''b'' ''k2'') (\<lambda>name. replicate 12 CHR ''m'')
     (delete_all {}) example_server (example_vault\<lparr>va_tables := snd example_sealed\<rparr>)"

lemma example_reached:
  "vault_reaches example_crypto [''tls'' \<mapsto> ''hunter2''] (Some example_server) (example_vault\<lparr>va_tables := snd example_sealed\<rparr>)"
proof -
  have key: "length (ke_key (example_key CHR ''a'' ''k1'')) = KeyLength" by (simp add: example_key_def KeyLength_def)
  have started: "fst (start_secrets example_crypto (example_key CHR ''a'' ''k1'') empty_vault) = Inr example_server"
    by code_simp
  have up: "vault_reaches example_crypto Map.empty (Some example_server) example_vault"
    using vault_reaches.started [OF vault_reaches.born key prod.collapse [symmetric], of example_crypto]
    unfolding example_vault_def started by simp
  have "isl (fst example_sealed) = False" by code_simp
  then obtain stored where stored: "example_sealed = (Inr stored, snd example_sealed)"
    by (cases "fst example_sealed") (auto simp: prod_eq_iff)
  have "SecretService_store example_crypto example_secret_env example_server ''tls'' ''hunter2'' [] 0
      (va_tables example_vault) = (Inr stored, snd example_sealed)"
    using stored by (metis example_sealed_def)
  then show ?thesis
    by (rule vault_reaches.was_set [OF up _, rotated]) (simp add: example_secret_env_def NonceSize_def)
qed

theorem secrets_survive_witness:
  "SecretService_Value example_crypto (fst (snd example_rekey)) ''tls'' (va_tables (snd (snd example_rekey)))
     = Inr ''hunter2''"
proof -
  let ?M = "if va_tables (snd (snd example_rekey)) = va_tables (example_vault\<lparr>va_tables := snd example_sealed\<rparr>)
    then [''tls'' \<mapsto> ''hunter2''] else [''tls'' \<mapsto> ''hunter2''] |` (- {})"
  have "vault_reaches example_crypto ?M (Some (fst (snd example_rekey))) (snd (snd example_rekey))"
  proof (rule vault_reaches.rekeyed [where nonces = "\<lambda>name. replicate 12 CHR ''m''" and D = "{}", OF example_reached])
    show "length (ke_key (example_key CHR ''b'' ''k2'')) = KeyLength" by (simp add: example_key_def KeyLength_def)
    show "length (replicate 12 CHR ''m'') = NonceSize" for name :: string by (simp add: NonceSize_def)
    show "admin_Rekey example_crypto (example_key CHR ''b'' ''k2'') (\<lambda>name. replicate 12 CHR ''m'') (delete_all {})
        example_server (example_vault\<lparr>va_tables := snd example_sealed\<rparr>)
      = (fst example_rekey, fst (snd example_rekey), snd (snd example_rekey))"
      unfolding example_rekey_def prod.collapse ..
  qed
  from secrets_survive [OF this example_crypto_ok] show ?thesis by simp
qed

end
