(* ===== verification/Rotation_Properties.thy ===== *)
theory Rotation_Properties
  imports Value_Rotation Secret_Properties
begin

text \<open>
  What setting a secret or a variable does to the workloads that read it: after a set that succeeded every
  reader is stored under the hash its specification has with the new value, and a reader that could not be
  rehashed is among the failures that the set reports.
\<close>

section \<open>Every reader is rehashed\<close>

text \<open>A workload whose stored hash is what its hash would be computed to now.\<close>

definition up_to_date :: "service \<Rightarrow> database \<Rightarrow> string \<Rightarrow> bool" where
  "up_to_date sv db name \<longleftrightarrow> (case rehash_of sv name db of
       Inl e \<Rightarrow> False | Inr (row, read, hash) \<Rightarrow> hash = row_SpecHash row)"

lemma up_to_date_iff: "up_to_date sv db name \<longleftrightarrow> (\<exists>row read. rehash_of sv name db = Inr (row, read, row_SpecHash row))"
  by (auto simp: up_to_date_def split: sum.splits)

lemma up_to_date_mono:
  assumes "up_to_date sv db name" "same_addresses db db'" "store_get name db' = store_get name db"
  shows "up_to_date sv db' name"
proof -
  obtain row read where found: "rehash_of sv name db = Inr (row, read, row_SpecHash row)"
    using assms(1) by (auto simp: up_to_date_iff)
  then have "store_get name db = Inr row" using rehash_of_row by blast
  then show ?thesis
    using rehash_of_cong [OF assms(2) _ _ refl found] assms(3) unfolding up_to_date_iff by auto
qed

lemma same_addresses_sym: "same_addresses a b \<Longrightarrow> same_addresses b a"
  by (simp add: same_addresses_def)

lemma same_addresses_trans: "same_addresses a b \<Longrightarrow> same_addresses b c \<Longrightarrow> same_addresses a c"
  by (simp add: same_addresses_def)

lemma up_to_date_cong:
  assumes "same_addresses db db'" "store_get name db' = store_get name db"
  shows "up_to_date sv db' name = up_to_date sv db name"
  using up_to_date_mono assms same_addresses_sym by metis

lemma Rehash_failed:
  assumes "outcome (Rehash sv name) s = Inl e"
  shows "\<not> up_to_date sv (ss_db s) name"
  using assms by (auto simp: Rehash_def outcome_bind up_to_date_iff split: sum.splits)

text \<open>A rehash fails exactly where it leaves a workload behind.\<close>

lemma Rehash_up_to_date:
  assumes "store_ok (ss_db s)" "db' = ss_db (final (Rehash sv name) s)"
  shows "store_ok db' \<and> same_addresses (ss_db s) db'
    \<and> (\<forall>other. other \<noteq> name \<longrightarrow> store_get other db' = store_get other (ss_db s))
    \<and> up_to_date sv db' name = (\<exists>moved. outcome (Rehash sv name) s = Inr moved)"
proof (cases "outcome (Rehash sv name) s")
  case (Inl e)
  then have "db' = ss_db s" using Rehash_run [of sv name s] by (simp add: assms(2))
  then show ?thesis using Rehash_failed [OF Inl] assms(1) Inl by (simp add: same_addresses_def)
next
  case (Inr moved)
  then have "rehashed sv name (ss_db s) db'" using Rehash_run [of sv name s] by (simp add: assms(2))
  then show ?thesis using rehashed_effect [OF _ assms(1)] Inr unfolding up_to_date_iff by blast
qed

lemma record_db: "ss_db (final (case reason of None \<Rightarrow> ret () | Some r \<Rightarrow> svc_record w r fs) s) = ss_db s"
  by (simp add: svc_record_def split: option.split)

text \<open>The failures are those of the readers that were left behind; all others are up to date.\<close>

lemma rehash_each_effect:
  assumes "store_ok (ss_db s)" "distinct ws" "m = rehash_each sv name reason ws"
  shows "store_ok (ss_db (final m s)) \<and> same_addresses (ss_db s) (ss_db (final m s))
    \<and> length (outcome m s) = length (filter (\<lambda>w. \<not> up_to_date sv (ss_db (final m s)) w) ws)
    \<and> (\<forall>w. w \<notin> set ws \<longrightarrow> store_get w (ss_db (final m s)) = store_get w (ss_db s))"
  using assms(1,2) unfolding assms(3)
proof (induction ws arbitrary: s)
  case Nil
  then show ?case by (simp add: same_addresses_def)
next
  case (Cons w ws)
  let ?r = "case reason of None \<Rightarrow> ret () | Some r \<Rightarrow> svc_record w r (no_fields\<lparr>f_Name := name\<rparr>)"
  let ?s1 = "final ?r s"
  let ?s2 = "final (Rehash sv w) ?s1"
  let ?s3 = "final (rehash_each sv name reason ws) ?s2"
  have s1: "ss_db ?s1 = ss_db s" by (rule record_db)
  then have one: "store_ok (ss_db ?s2)" "same_addresses (ss_db s) (ss_db ?s2)"
    "\<And>other. other \<noteq> w \<Longrightarrow> store_get other (ss_db ?s2) = store_get other (ss_db s)"
    "up_to_date sv (ss_db ?s2) w = (\<exists>moved. outcome (Rehash sv w) ?s1 = Inr moved)"
    using Rehash_up_to_date [of ?s1 _ sv w, OF _ refl, unfolded s1, OF Cons.prems(1)] by blast+
  have rest: "store_ok (ss_db ?s3)" "same_addresses (ss_db ?s2) (ss_db ?s3)"
    "length (outcome (rehash_each sv name reason ws) ?s2) = length (filter (\<lambda>w. \<not> up_to_date sv (ss_db ?s3) w) ws)"
    "\<And>w'. w' \<notin> set ws \<Longrightarrow> store_get w' (ss_db ?s3) = store_get w' (ss_db ?s2)"
    using Cons.IH [OF one(1)] Cons.prems by auto
  have "up_to_date sv (ss_db ?s3) w = up_to_date sv (ss_db ?s2) w"
    using up_to_date_cong [OF rest(2)] rest(4) Cons.prems(2) by simp
  then have head: "up_to_date sv (ss_db ?s3) w = (\<exists>moved. outcome (Rehash sv w) ?s1 = Inr moved)" using one(4) by simp
  have "final (rehash_each sv name reason (w # ws)) s = ?s3"
    by (simp add: final_bind outcome_bind)
  moreover have "outcome (rehash_each sv name reason (w # ws)) s
      = (case outcome (Rehash sv w) ?s1 of Inl e \<Rightarrow> e # outcome (rehash_each sv name reason ws) ?s2
         | Inr moved \<Rightarrow> outcome (rehash_each sv name reason ws) ?s2)"
    by (simp add: final_bind outcome_bind)
  moreover have "same_addresses (ss_db s) (ss_db ?s3)" by (rule same_addresses_trans [OF one(2) rest(2)])
  ultimately show ?case using rest(1,3,4) one(3) head by (cases "outcome (Rehash sv w) ?s1") auto
qed

text \<open>A row that is being deleted is not written, so a rehash that would move its hash fails.\<close>

definition deleting :: "database \<Rightarrow> string \<Rightarrow> bool" where
  "deleting db w \<longleftrightarrow> (\<exists>row. store_get w db = Inr row \<and> \<not> IsZero (row_DeletedAt row))"

lemma rehashed_deleting:
  assumes "rehashed sv name db db'" "store_ok db" "deleting db w"
  shows "store_get w db' = store_get w db"
proof (cases "w = name")
  case True
  obtain row read hash where found: "rehash_of sv name db = Inr (row, read, hash)"
    and how: "if hash = row_SpecHash row then db' = db
      else (\<exists>newid now r. Upsert newid now (row\<lparr>row_SpecHash := hash\<rparr>) (row_reads_of read) 0
           (table_List (db_ports db) (row_ID row)) db = (Inr r, db'))"
    using assms(1) unfolding rehashed_def by blast
  have row: "store_get name db = Inr row" "row_Name row = name" using rehash_of_row [OF found] by auto
  then have "\<not> IsZero (row_DeletedAt row)" using assms(3) True by (auto simp: deleting_def)
  then have "write_row newid now (row\<lparr>row_SpecHash := hash\<rparr>) 0 db = Inl ErrWorkloadDeleting" for newid now
    using row by (simp add: write_row_def)
  then have "fst (Upsert newid now (row\<lparr>row_SpecHash := hash\<rparr>) reads 0 ports db) = Inl ErrWorkloadDeleting" for newid now reads ports
    by (simp add: Upsert_def)
  then have "hash = row_SpecHash row" using how by (metis Inl_Inr_False fst_conv)
  then show ?thesis using how by simp
qed (use rehashed_effect [OF assms(1,2)] in blast)

lemma rehash_each_deleting:
  assumes "store_ok (ss_db s)" "deleting (ss_db s) w"
  shows "store_get w (ss_db (final (rehash_each sv name reason ws) s)) = store_get w (ss_db s)"
  using assms
proof (induction ws arbitrary: s)
  case (Cons x ws)
  let ?s1 = "final (case reason of None \<Rightarrow> ret () | Some r \<Rightarrow> svc_record x r (no_fields\<lparr>f_Name := name\<rparr>)) s"
  let ?s2 = "final (Rehash sv x) ?s1"
  have s1: "ss_db ?s1 = ss_db s" by (rule record_db)
  have "store_get w (ss_db ?s2) = store_get w (ss_db s)"
    using Rehash_run [of sv x ?s1] rehashed_deleting [of sv x "ss_db s" _ w] Cons.prems
    by (auto simp: s1 split: sum.splits)
  moreover have "store_ok (ss_db ?s2)"
    using Rehash_up_to_date [of ?s1 _ sv x, OF _ refl, unfolded s1, OF Cons.prems(1)] by blast
  moreover have "deleting (ss_db ?s2) w" using Cons.prems(2) calculation(1) by (simp add: deleting_def)
  ultimately show ?case using Cons.IH [of ?s2] by (simp add: final_bind outcome_bind)
qed simp

text \<open>What a set reports once the value is stored: nothing, or one failure for each reader left behind.\<close>

definition behind :: "service \<Rightarrow> database \<Rightarrow> string list \<Rightarrow> string list" where
  "behind sv db ws = filter (\<lambda>w. \<not> up_to_date sv db w) ws"

lemma linked_distinct: "store_ok db \<Longrightarrow> distinct (linked name links db)"
  by (simp add: linked_def store_ok_def distinct_map_filter)

lemma rehash_each_report:
  assumes "run_state (rehash_each sv name reason (linked name links (ss_db s))) s = (errs, s')" "store_ok (ss_db s)"
  shows "length errs = length (behind sv (ss_db s') (linked name links (ss_db s)))
    \<and> (\<forall>w. w \<notin> set (linked name links (ss_db s)) \<longrightarrow> store_get w (ss_db s') = store_get w (ss_db s))"
  using rehash_each_effect [OF assms(2) linked_distinct [OF assms(2)] refl, of sv name reason name links] assms(1)
  unfolding behind_def by (metis final_def fst_conv outcome_def snd_conv)

lemma SecretService_store_kept:
  assumes "SecretService_store cr env srv name v labels ifMatch t = (Inr (stored, created, moved), t')"
    and "secrets_Get name t = Inr old" "cipher_Open cr (srv_cipher srv) name (sec_Value old) = Inr v"
  shows "sec_Revision stored = sec_Revision old"
  using assms by (auto simp: SecretService_store_def secrets_Upsert_def unchanged_def Let_def split: if_splits sum.splits prod.splits)

lemma SecretService_store_matched:
  assumes "SecretService_store cr env srv name v labels ifMatch t = (Inr (stored, created, moved), t')" "ifMatch \<noteq> 0"
  shows "secret_version name t = ifMatch"
  using assms by (auto simp: SecretService_store_def secret_version_def Let_def split: if_splits sum.splits)

lemma variables_Get_Inr:
  "distinct (map var_Name t) \<Longrightarrow> variables_Get name t = Inr v \<longleftrightarrow> v \<in> set t \<and> var_Name v = name"
  by (auto simp: variables_Get_def find_None_iff distinct_map split: option.splits dest!: find_SomeD dest: inj_onD)

lemma variables_Upsert_effect:
  assumes "variables_Upsert newid now v ifMatch t = (Inr stored, t')" "distinct (map var_Name t)"
  shows "variables_Get (var_Name v) t' = Inr stored \<and> var_Value stored = var_Value v
    \<and> (ifMatch \<noteq> 0 \<longrightarrow> variable_version (var_Name v) t = ifMatch)"
proof (cases "variables_Get (var_Name v) t")
  case (Inl e)
  then have "find (\<lambda>x. var_Name x = var_Name v) t = None" by (auto simp: variables_Get_def split: option.splits)
  then have "find (\<lambda>x. var_Name x = var_Name v) (t @ [stored]) = (if var_Name stored = var_Name v then Some stored else None)"
    by (induction t) (auto split: if_splits)
  then show ?thesis
    using assms(1) Inl by (auto simp: variables_Upsert_def variables_Get_def Let_def split: if_splits)
next
  case (Inr old)
  have t': "t' = map (\<lambda>x. if var_Name x = var_Name v then stored else x) t" "var_Name stored = var_Name v"
    "var_Value stored = var_Value v" "ifMatch \<noteq> 0 \<longrightarrow> variable_version (var_Name v) t = ifMatch"
    using assms(1) Inr by (auto simp: variables_Upsert_def Let_def split: if_splits)
  then have "map var_Name t' = map var_Name t" by simp
  then have "distinct (map var_Name t')" using assms(2) by (simp only:)
  moreover have "stored \<in> set t'" using Inr variables_Get_Inr [OF assms(2)] t'(1) by force
  ultimately show ?thesis using t'(2-4) by (simp add: variables_Get_Inr)
qed

lemma variables_Upsert_refused: "variables_Upsert newid now v ifMatch t = (Inl e, t') \<Longrightarrow> t' = t"
  by (auto simp: variables_Upsert_def Let_def split: if_splits sum.splits)

text \<open>How a set of a variable ends: refused with nothing written, or reporting the rehash of the readers.\<close>

lemma variable_Set_cases:
  assumes "variable_Set newid now sv name v labels ifMatch t s = (answer, t', s')" "distinct (map var_Name t)"
  shows "(\<exists>e. answer = Inl e \<and> t' = t \<and> s' = s)
    \<or> (\<exists>reason errs stored. run_state (rehash_each (reading_variables sv t') name reason
          (variables_UsedBy name (ss_db s))) s = (errs, s')
        \<and> variables_Get name t' = Inr stored \<and> var_Value stored = v
        \<and> (variable_Value name t \<noteq> Inr v \<longrightarrow> CheckContents sv (ss_db s) name v (variables_UsedBy name (ss_db s)) = None)
        \<and> (ifMatch \<noteq> 0 \<longrightarrow> variable_version name t = ifMatch)
        \<and> (errs \<noteq> [] \<longrightarrow> answer = Inl (Readers_Failed errs))
        \<and> (errs = [] \<longrightarrow> (\<exists>u c. answer = Inr (stored, u, c))))" (is "?refused \<or> ?stored")
proof (cases "validSecret name labels")
  case False
  then show ?thesis using assms(1) by (auto simp: variable_Set_def Let_def)
next
  case valid: True
  let ?ws = "variables_UsedBy name (ss_db s)"
  let ?each = "\<lambda>t' reason. run_state (rehash_each (reading_variables sv t') name reason ?ws) s"
  have stored: ?stored
    if "?each t' reason = (errs, s')" "variables_Get name t' = Inr stored" "var_Value stored = v"
      "variable_Value name t \<noteq> Inr v \<longrightarrow> CheckContents sv (ss_db s) name v ?ws = None"
      "ifMatch \<noteq> 0 \<longrightarrow> variable_version name t = ifMatch"
      "answer = (if errs \<noteq> [] then Inl (Readers_Failed errs) else Inr (stored, u, c))" for reason errs stored u c
    using that by (intro exI [of _ reason] exI [of _ errs] exI [of _ stored]) simp
  have fresh: "?refused \<or> ?stored"
    if asked: "(case CheckContents sv (ss_db s) name v ?ws of
              Some e \<Rightarrow> (Inl ErrInvalidVariable, t, s)
            | None \<Rightarrow> (case variables_Upsert newid now (variable_of name v labels) ifMatch t of
                  (Inl e, t') \<Rightarrow> (Inl (changedVariable e), t', s)
                | (Inr stored, t') \<Rightarrow>
                    (case ?each t' (Some VariableChanged) of
                       (errs, s') \<Rightarrow>
                         if errs \<noteq> [] then (Inl (Readers_Failed errs), t', s')
                         else (Inr (stored, ?ws, c), t', s')))) = (answer, t', s')" for c
  proof (cases "variables_Upsert newid now (variable_of name v labels) ifMatch t")
    case (Pair a t1)
    show ?thesis
    proof (cases "CheckContents sv (ss_db s) name v ?ws = None \<and> (\<exists>stored. a = Inr stored)")
      case True
      then obtain r where r: "a = Inr r" by blast
      then have "t1 = t'" using asked Pair True by (auto split: prod.splits if_splits)
      then have "variables_Get name t' = Inr r \<and> var_Value r = v \<and> (ifMatch \<noteq> 0 \<longrightarrow> variable_version name t = ifMatch)"
        using variables_Upsert_effect [OF Pair [unfolded r] assms(2)] by (simp add: variable_of_def)
      moreover obtain errs where "?each t' (Some VariableChanged) = (errs, s')"
        "answer = (if errs \<noteq> [] then Inl (Readers_Failed errs) else Inr (r, ?ws, c))"
        using asked Pair True r \<open>t1 = t'\<close> by (auto split: prod.splits if_splits)
      ultimately show ?thesis using True by (intro disjI2 stored [of "Some VariableChanged" errs r ?ws c]) auto
    next
      case False
      then show ?thesis
        using asked Pair variables_Upsert_refused by (auto split: option.splits sum.splits)
    qed
  qed
  have kept: "?refused \<or> ?stored"
    if "(case ?each t1 None of (errs, s') \<Rightarrow>
           if errs \<noteq> [] then (Inl (Readers_Failed errs), t1, s')
           else (Inr (r, variables_UsedBy name (ss_db s'), False), t1, s')) = (answer, t', s')"
      "variables_Get name t1 = Inr r" "var_Value r = v" "variable_Value name t = Inr v"
      "ifMatch \<noteq> 0 \<longrightarrow> variable_version name t = ifMatch" for r t1
  proof (cases "?each t1 None")
    case (Pair errs s1)
    then have "t1 = t' \<and> s1 = s'
      \<and> answer = (if errs \<noteq> [] then Inl (Readers_Failed errs) else Inr (r, variables_UsedBy name (ss_db s'), False))"
      using that(1) by (cases "errs = []") auto
    then show ?thesis
      using that(2-5) Pair by (intro disjI2 stored [of None errs r "variables_UsedBy name (ss_db s')" False]) simp_all
  qed
  show ?thesis
  proof (cases "variables_Get name t")
    case (Inl e)
    show ?thesis
    proof (cases "ifMatch = 0")
      case True
      then show ?thesis
        using assms(1) valid fresh [of "e = Db_ErrVariableNotFound"] Inl
        by (simp add: variable_Set_def Let_def cong: option.case_cong sum.case_cong prod.case_cong if_cong)
    qed (use assms(1) valid Inl in \<open>auto simp: variable_Set_def Let_def\<close>)
  next
    case (Inr old)
    then have held: "variable_Value name t = Inr (var_Value old)" "variable_version name t = var_Version old"
      by (simp_all add: variable_Value_def variable_version_def)
    have named: "var_Name old = name" using Inr variables_Get_Inr [OF assms(2)] by simp
    consider "ifMatch \<noteq> 0 \<and> var_Version old \<noteq> ifMatch"
      | "\<not> (ifMatch \<noteq> 0 \<and> var_Version old \<noteq> ifMatch)" "var_Value old \<noteq> v"
      | "\<not> (ifMatch \<noteq> 0 \<and> var_Version old \<noteq> ifMatch)" "var_Value old = v" "maps_Equal (var_Labels old) labels"
      | "\<not> (ifMatch \<noteq> 0 \<and> var_Version old \<noteq> ifMatch)" "var_Value old = v" "\<not> maps_Equal (var_Labels old) labels"
      by blast
    then show ?thesis
    proof cases
      case 1
      then show ?thesis using assms(1) valid Inr by (auto simp: variable_Set_def Let_def)
    next
      case 2
      then show ?thesis using assms(1) valid Inr fresh [of False]
        by (cases "ifMatch = 0") (simp_all add: variable_Set_def Let_def cong: option.case_cong sum.case_cong prod.case_cong if_cong)
    next
      case 3
      then show ?thesis
        using assms(1) valid Inr held by (intro kept [of t old]; cases "ifMatch = 0")
          (simp_all add: variable_Set_def Let_def cong: option.case_cong sum.case_cong prod.case_cong if_cong)
    next
      case 4
      show ?thesis
      proof (cases "variables_Upsert newid now (old\<lparr>var_Labels := labels\<rparr>) ifMatch t")
        case (Pair a t1)
        show ?thesis
        proof (cases a)
          case (Inl e)
          then show ?thesis
            using assms(1) valid \<open>variables_Get name t = Inr old\<close> 4 Pair variables_Upsert_refused
            by (auto simp: variable_Set_def Let_def)
        next
          case (Inr r)
          then show ?thesis
            using assms(1) valid \<open>variables_Get name t = Inr old\<close> 4 Pair held named
              variables_Upsert_effect [OF Pair [unfolded Inr] assms(2)]
            by (intro kept [of t1 r]; cases "ifMatch = 0")
              (simp_all add: variable_Set_def Let_def cong: option.case_cong sum.case_cong prod.case_cong if_cong)
        qed
      qed
    qed
  qed
qed

section \<open>Properties\<close>

text \<open>
  C15. Setting a secret reaches every workload that reads it. A set that is refused writes nothing. A set
  that stores the value reports one failure for each reader whose stored hash is not the one computed with
  the new revision, and succeeds exactly when no reader is left behind; a workload that does not read the
  secret keeps its row. The revision moves only when the value does, and a conditional set stores only over
  the version it names.
\<close>

theorem set_reaches_readers:
  assumes "secret_Set cr env srv sv name v labels ifMatch t s = (answer, t', s')"
    and "store_ok (ss_db s)" "distinct (map sec_Name (st_secrets t))"
  defines "left \<equiv> behind (reading_secrets sv t') (ss_db s') (secrets_UsedBy name (ss_db s))"
  shows "(\<exists>e. answer = Inl (Secret_Error e) \<and> t' = t \<and> s' = s)
    \<or> (\<exists>stored. secrets_Get name t' = Inr stored
        \<and> (left = [] \<longrightarrow> answer = Inr (stored, secrets_UsedBy name (ss_db s'), name \<notin> sec_Name ` set (st_secrets t)))
        \<and> (left \<noteq> [] \<longrightarrow> (\<exists>errs. answer = Inl (Readers_Failed errs) \<and> length errs = length left))
        \<and> (\<forall>w. w \<notin> set (secrets_UsedBy name (ss_db s)) \<longrightarrow> store_get w (ss_db s') = store_get w (ss_db s))
        \<and> (\<forall>old. secrets_Get name t = Inr old \<longrightarrow> cipher_Open cr (srv_cipher srv) name (sec_Value old) = Inr v \<longrightarrow>
             sec_Revision stored = sec_Revision old)
        \<and> (ifMatch \<noteq> 0 \<longrightarrow> secret_version name t = ifMatch))"
proof (cases "validSecret name labels")
  case False
  then show ?thesis using assms(1) by (intro disjI1) (auto simp: secret_Set_def)
next
  case True
  obtain a where stores: "SecretService_store cr env srv name v labels ifMatch t = (a, t')"
    using assms(1) True by (auto simp: secret_Set_def split: prod.splits sum.splits if_splits)
  show ?thesis
  proof (cases a)
    case (Inl e)
    then show ?thesis
      using assms(1) True stores SecretService_store_refused [OF stores [unfolded Inl]] by (intro disjI1) (auto simp: secret_Set_def)
  next
    case (Inr r)
    obtain stored created moved where r: "r = (stored, created, moved)" by (cases r)
    note stored = SecretService_store_effect [OF stores [unfolded Inr r] assms(3)]
    obtain errs where each: "run_state (rehash_each (reading_secrets sv t') name (if moved then Some SecretChanged else None)
        (secrets_UsedBy name (ss_db s))) s = (errs, s')"
      and answer: "answer = (if errs \<noteq> [] then Inl (Readers_Failed errs)
        else Inr (stored, secrets_UsedBy name (ss_db s'), created))"
      using assms(1) True stores Inr r by (auto simp: secret_Set_def split: prod.splits if_splits)
    have report: "length errs = length left"
      "\<forall>w. w \<notin> set (secrets_UsedBy name (ss_db s)) \<longrightarrow> store_get w (ss_db s') = store_get w (ss_db s)"
      using rehash_each_report [OF each [unfolded secrets_UsedBy_def] assms(2)]
      by (simp_all add: left_def secrets_UsedBy_def)
    have got: "secrets_Get name t' = Inr stored" using stored secrets_Get_Inr by (auto simp: holds_def)
    have kept: "sec_Revision stored = sec_Revision old"
      if "secrets_Get name t = Inr old" "cipher_Open cr (srv_cipher srv) name (sec_Value old) = Inr v" for old
      using SecretService_store_kept [OF stores [unfolded Inr r] that] .
    have matched: "ifMatch \<noteq> 0 \<longrightarrow> secret_version name t = ifMatch"
      using SecretService_store_matched [OF stores [unfolded Inr r]] by simp
    have "left = [] \<longleftrightarrow> errs = []" using report(1) by auto
    then show ?thesis using got kept matched report answer stored by auto
  qed
qed

text \<open>
  The example workload reads a secret; the service that rehashes it computes another hash than it was
  stored under.
\<close>

definition example_rehasher :: service where
  "example_rehasher = example_service\<lparr>sv_codec := example_codec\<lparr>cd_sha256 := (\<lambda>e. e @ ''+'')\<rparr>\<rparr>"

lemma example_applied_ok: "store_ok (ss_db example_applied_state)"
proof -
  have "store_ok (ss_db example_state)" by (simp add: example_state_def store_ok_empty)
  moreover have "keeps_ok example_state example_applied_state"
    unfolding example_applied_state_def
    by (rule service_step_consistent [OF request_apply]) (use example_alone in \<open>simp add: alone_def others_ok_def\<close>)
  ultimately show ?thesis by (simp add: keeps_ok_def)
qed

lemma example_tables: "distinct (map sec_Name (st_secrets (va_tables example_vault)))"
  by code_simp

definition example_rotation :: "(value_error + Secret \<times> string list \<times> bool) \<times> secret_tables \<times> service_state" where
  "example_rotation = secret_Set example_crypto example_secret_env example_server example_rehasher ''tls'' ''hunter2'' [] 0
     (va_tables example_vault) example_applied_state"

theorem set_reaches_readers_witness:
  "up_to_date (reading_secrets example_rehasher (fst (snd example_rotation))) (ss_db (snd (snd example_rotation))) ''web''"
proof -
  have run: "secret_Set example_crypto example_secret_env example_server example_rehasher ''tls'' ''hunter2'' [] 0
      (va_tables example_vault) example_applied_state
    = (fst example_rotation, fst (snd example_rotation), snd (snd example_rotation))"
    by (simp add: example_rotation_def)
  have "\<not> isl (fst example_rotation)" by code_simp
  then have "behind (reading_secrets example_rehasher (fst (snd example_rotation))) (ss_db (snd (snd example_rotation)))
      (secrets_UsedBy ''tls'' (ss_db example_applied_state)) = []"
    using set_reaches_readers [OF run example_applied_ok example_tables] by force
  moreover have "''web'' \<in> set (secrets_UsedBy ''tls'' (ss_db example_applied_state))" by code_simp
  ultimately show ?thesis by (auto simp: behind_def filter_empty_conv)
qed

text \<open>
  Setting a variable stores no value that a reader could not be given. A set that is refused writes
  nothing; a value that changes is stored only after every reader was found able to render it into the
  files it mounts. Once stored, the set reports one failure for each reader whose stored hash is not the one
  computed with the new value, and succeeds exactly when no reader is left behind.
\<close>

lemma variable_set_reaches_readers:
  assumes "variable_Set newid now sv name v labels ifMatch t s = (answer, t', s')"
    and "store_ok (ss_db s)" "distinct (map var_Name t)"
  defines "left \<equiv> behind (reading_variables sv t') (ss_db s') (variables_UsedBy name (ss_db s))"
  shows "(\<exists>e. answer = Inl e \<and> t' = t \<and> s' = s)
    \<or> (variable_Value name t' = Inr v
        \<and> (variable_Value name t \<noteq> Inr v \<longrightarrow>
             CheckContents sv (ss_db s) name v (variables_UsedBy name (ss_db s)) = None)
        \<and> (left = [] \<longrightarrow> (\<exists>stored usedBy created. answer = Inr (stored, usedBy, created) \<and> variables_Get name t' = Inr stored))
        \<and> (left \<noteq> [] \<longrightarrow> (\<exists>errs. answer = Inl (Readers_Failed errs) \<and> length errs = length left))
        \<and> (\<forall>w. w \<notin> set (variables_UsedBy name (ss_db s)) \<longrightarrow> store_get w (ss_db s') = store_get w (ss_db s))
        \<and> (ifMatch \<noteq> 0 \<longrightarrow> variable_version name t = ifMatch))"
proof -
  consider "\<exists>e. answer = Inl e \<and> t' = t \<and> s' = s"
    | reason errs stored where "run_state (rehash_each (reading_variables sv t') name reason
          (variables_UsedBy name (ss_db s))) s = (errs, s')"
      "variables_Get name t' = Inr stored" "var_Value stored = v"
      "variable_Value name t \<noteq> Inr v \<longrightarrow> CheckContents sv (ss_db s) name v (variables_UsedBy name (ss_db s)) = None"
      "ifMatch \<noteq> 0 \<longrightarrow> variable_version name t = ifMatch"
      "errs \<noteq> [] \<longrightarrow> answer = Inl (Readers_Failed errs)" "errs = [] \<longrightarrow> (\<exists>u c. answer = Inr (stored, u, c))"
    using variable_Set_cases [OF assms(1,3)] by blast
  then show ?thesis
  proof cases
    case (2 reason errs stored)
    have report: "length errs = length left"
      "\<forall>w. w \<notin> set (variables_UsedBy name (ss_db s)) \<longrightarrow> store_get w (ss_db s') = store_get w (ss_db s)"
      using rehash_each_report [OF 2(1) [unfolded variables_UsedBy_def] assms(2)]
      by (simp_all add: left_def variables_UsedBy_def)
    then have "left = [] \<longleftrightarrow> errs = []" by auto
    then show ?thesis using 2 report by (intro disjI2) (auto simp: variable_Value_def)
  qed blast
qed

text \<open>
  C37. A reader that is being deleted makes a set report a failure. The store refuses to write a row that is
  marked for deletion, and the rehash of the readers does not leave such rows out, so a set that moves the
  hash of one answers that it failed although the value is stored, and fails again until the row is gone.
\<close>

theorem deleting_reader_fails_set:
  assumes "secret_Set cr env srv sv name v labels ifMatch t s = (answer, t', s')"
    and "store_ok (ss_db s)" "distinct (map sec_Name (st_secrets t))"
    and "\<forall>e. answer \<noteq> Inl (Secret_Error e)"
    and "w \<in> set (secrets_UsedBy name (ss_db s))" "deleting (ss_db s) w"
    and "\<not> up_to_date (reading_secrets sv t') (ss_db s) w"
  shows "(\<exists>errs. answer = Inl (Readers_Failed errs)) \<and> (\<exists>stored. secrets_Get name t' = Inr stored)
    \<and> deleting (ss_db s') w \<and> \<not> up_to_date (reading_secrets sv t') (ss_db s') w"
proof -
  let ?sv = "reading_secrets sv t'" and ?ws = "secrets_UsedBy name (ss_db s)"
  have valid: "validSecret name labels" using assms(1,4) by (auto simp: secret_Set_def split: if_splits)
  obtain a where stores: "SecretService_store cr env srv name v labels ifMatch t = (a, t')"
    using assms(1) valid by (auto simp: secret_Set_def split: prod.splits sum.splits if_splits)
  obtain stored created moved where a: "a = Inr (stored, created, moved)"
    using assms(1,4) valid stores by (cases a) (auto simp: secret_Set_def)
  let ?m = "rehash_each ?sv name (if moved then Some SecretChanged else None) ?ws"
  have run: "answer = (if outcome ?m s \<noteq> [] then Inl (Readers_Failed (outcome ?m s))
      else Inr (stored, secrets_UsedBy name (ss_db s'), created)) \<and> s' = final ?m s"
    using assms(1) valid stores a by (cases "outcome ?m s = []") (auto simp: secret_Set_def outcome_def final_def split: prod.splits)
  have each: "same_addresses (ss_db s) (ss_db s')"
    "length (outcome ?m s) = length (behind ?sv (ss_db s') ?ws)"
    using rehash_each_effect [OF assms(2) _ refl, of ?ws ?sv name "if moved then Some SecretChanged else None"]
      linked_distinct [OF assms(2)] run
    unfolding behind_def secrets_UsedBy_def by auto
  have kept: "store_get w (ss_db s') = store_get w (ss_db s)"
    using rehash_each_deleting [OF assms(2,6)] run by simp
  then have left: "\<not> up_to_date ?sv (ss_db s') w" using up_to_date_cong [OF each(1) kept] assms(7) by simp
  then have "w \<in> set (behind ?sv (ss_db s') ?ws)" using assms(5) by (simp add: behind_def)
  then have "outcome ?m s \<noteq> []" using each(2) by auto
  moreover have "secrets_Get name t' = Inr stored"
    using SecretService_store_effect [OF stores [unfolded a] assms(3)] secrets_Get_Inr by (auto simp: holds_def)
  ultimately show ?thesis using run left kept assms(6) by (simp add: deleting_def)
qed

text \<open>The example workload on its way out.\<close>

definition example_leaving :: service_state where
  "example_leaving = example_applied_state\<lparr>ss_db := set_row ''web'' (\<lambda>w. w\<lparr>row_DeletedAt := 7\<rparr>) (ss_db example_applied_state)\<rparr>"

definition example_late :: "(value_error + Secret \<times> string list \<times> bool) \<times> secret_tables \<times> service_state" where
  "example_late = secret_Set example_crypto example_secret_env example_server example_rehasher ''tls'' ''hunter2'' [] 0
     (va_tables example_vault) example_leaving"

theorem deleting_reader_fails_set_witness:
  "\<exists>errs stored. fst example_late = Inl (Readers_Failed errs) \<and> secrets_Get ''tls'' (fst (snd example_late)) = Inr stored"
proof -
  have run: "secret_Set example_crypto example_secret_env example_server example_rehasher ''tls'' ''hunter2'' [] 0
      (va_tables example_vault) example_leaving = (fst example_late, fst (snd example_late), snd (snd example_late))"
    by (simp add: example_late_def)
  have ok: "store_ok (ss_db example_leaving)"
    unfolding example_leaving_def by (simp add: store_ok_set_row example_applied_ok)
  have "case example_late of (a, t, s) \<Rightarrow> (case a of Inl (Secret_Error e) \<Rightarrow> False | _ \<Rightarrow> True)
      \<and> \<not> up_to_date (reading_secrets example_rehasher t) (ss_db example_leaving) ''web''" by code_simp
  then have late: "(case fst example_late of Inl (Secret_Error e) \<Rightarrow> False | _ \<Rightarrow> True)"
    "\<not> up_to_date (reading_secrets example_rehasher (fst (snd example_late))) (ss_db example_leaving) ''web''"
    by (simp_all add: split_beta)
  from late(1) have stores: "\<forall>e. fst example_late \<noteq> Inl (Secret_Error e)" by auto
  have read: "''web'' \<in> set (secrets_UsedBy ''tls'' (ss_db example_leaving))" by code_simp
  have "(case store_get ''web'' (ss_db example_leaving) of Inl e \<Rightarrow> False | Inr w \<Rightarrow> row_DeletedAt w \<noteq> 0)" by code_simp
  then have gone: "deleting (ss_db example_leaving) ''web''" by (auto simp: deleting_def split: sum.splits)
  from deleting_reader_fails_set [OF run ok example_tables stores read gone late(2)] show ?thesis by blast
qed

end
