(* ===== verification/Service_Backends.thy ===== *)
theory Service_Backends
  imports Workload_View Address_Resolve Manifest_Validation
begin

text \<open>
  Services, which balance requests across the instances their labels select: the document
  (\<open>pkg/manifest/service.go\<close>), the table (\<open>internal/server/database/service.go\<close>) and the service that
  resolves backends and streams their changes (\<open>internal/server/service/service.go\<close>).

  The JSON a label query is matched against is an argument, as \<open>json_extract\<close> is. A stream is a function
  of the worlds its reads find, one for each pass of the reconciler it is told of.
\<close>

section \<open>The document\<close>

record ServiceTarget =
  tgt_Labels :: string_map
  tgt_Port :: int
  tgt_Protocol :: Protocol

record manifest_Service =
  svm_Version :: string
  svm_Name :: string
  svm_Labels :: string_map
  svm_Target :: ServiceTarget

definition reservedServiceName :: string where
  "reservedServiceName = ''stream''"

definition validateTarget :: "ServiceTarget \<Rightarrow> goerr option" where
  "validateTarget target = first_err
     [refuse (tgt_Labels target = []) ''invalid target: at least one label is required'',
      wrapped ''invalid target'' (ValidateLabels (tgt_Labels target)),
      wrapped ''invalid target'' (validPort (tgt_Port target)),
      wrapped ''invalid target'' (validProtocol (tgt_Protocol target))]"

definition ValidateService :: "manifest_Service \<Rightarrow> goerr option" where
  "ValidateService service = first_err
     [validateHeader (svm_Version service) (svm_Name service),
      refuse (svm_Name service = reservedServiceName) ''invalid manifest: the name %q is reserved'',
      ValidateLabels (svm_Labels service),
      validateTarget (svm_Target service)]"

definition service_Defaults :: "manifest_Service \<Rightarrow> manifest_Service" where
  "service_Defaults s =
     (if tgt_Protocol (svm_Target s) = unset_protocol
      then s\<lparr>svm_Target := (svm_Target s)\<lparr>tgt_Protocol := ProtocolTCP\<rparr>\<rparr> else s)"

text \<open>A document that was decoded, or the error of decoding it.\<close>

definition ParseService :: "goerr + manifest_Service \<Rightarrow> goerr + manifest_Service" where
  "ParseService decoded = (case decoded of
       Inl e \<Rightarrow> Inl (Wrapf ''failed to parse manifest'' [e])
     | Inr service \<Rightarrow> (case ValidateService (service_Defaults service) of
           Some e \<Rightarrow> Inl e | None \<Rightarrow> Inr (service_Defaults service)))"

section \<open>The table\<close>

record database_Service =
  dbs_ID :: string
  dbs_Name :: string
  dbs_Labels :: string_map
  dbs_TargetLabels :: string_map
  dbs_TargetPort :: int
  dbs_TargetProtocol :: string
  dbs_Version :: int
  dbs_CreatedAt :: time
  dbs_UpdatedAt :: time

datatype balance_error =
    Db_ErrServiceNotFound
  | Db_ErrServiceChanged
  | Service_Constraint
  | ErrServiceNotFound
  | ErrInvalidService goerr
  | ErrServiceChanged
  | Service_Query query_error

definition services_Get :: "string \<Rightarrow> database_Service list \<Rightarrow> balance_error + database_Service" where
  "services_Get name t = (case find (\<lambda>s. dbs_Name s = name) t of
       None \<Rightarrow> Inl Db_ErrServiceNotFound | Some s \<Rightarrow> Inr s)"

definition unchangedService :: "database_Service \<Rightarrow> database_Service \<Rightarrow> bool" where
  "unchangedService existing incoming \<longleftrightarrow>
     dbs_TargetPort existing = dbs_TargetPort incoming
     \<and> dbs_TargetProtocol existing = dbs_TargetProtocol incoming
     \<and> maps_Equal (dbs_Labels existing) (dbs_Labels incoming)
     \<and> maps_Equal (dbs_TargetLabels existing) (dbs_TargetLabels incoming)"

definition insertService ::
  "string \<Rightarrow> time \<Rightarrow> database_Service \<Rightarrow> database_Service list
     \<Rightarrow> (balance_error + database_Service) \<times> database_Service list" where
  "insertService newid now service t =
     (let stored = service\<lparr>dbs_ID := newid, dbs_Version := 1, dbs_CreatedAt := now, dbs_UpdatedAt := now\<rparr>
      in if newid \<in> dbs_ID ` set t then (Inl Service_Constraint, t) else (Inr stored, t @ [stored]))"

definition updateService ::
  "time \<Rightarrow> database_Service \<Rightarrow> database_Service \<Rightarrow> database_Service list
     \<Rightarrow> database_Service \<times> database_Service list" where
  "updateService now service existing t =
     (let stored = service\<lparr>dbs_ID := dbs_ID existing, dbs_Version := dbs_Version existing + 1,
            dbs_CreatedAt := dbs_CreatedAt existing, dbs_UpdatedAt := now\<rparr>
      in (stored, map (\<lambda>s. if dbs_Name s = dbs_Name service then stored else s) t))"

definition services_Upsert ::
  "string \<Rightarrow> time \<Rightarrow> database_Service \<Rightarrow> int \<Rightarrow> database_Service list
     \<Rightarrow> (balance_error + database_Service \<times> bool) \<times> database_Service list" where
  "services_Upsert newid now service ifMatch t = (case services_Get (dbs_Name service) t of
       Inl e \<Rightarrow>
         if ifMatch \<noteq> 0 then (Inl e, t)
         else (case insertService newid now service t of
                 (Inl e', t') \<Rightarrow> (Inl e', t') | (Inr stored, t') \<Rightarrow> (Inr (stored, True), t'))
     | Inr existing \<Rightarrow>
         if ifMatch \<noteq> 0 \<and> dbs_Version existing \<noteq> ifMatch then (Inl Db_ErrServiceChanged, t)
         else if unchangedService existing service then (Inr (existing, False), t)
         else (case updateService now service existing t of (stored, t') \<Rightarrow> (Inr (stored, False), t')))"

text \<open>The document the label queries of the resources other than workloads are matched against.\<close>

definition services_List ::
  "(string \<Rightarrow> string \<Rightarrow> string option option) \<Rightarrow> (string_map \<Rightarrow> string) \<Rightarrow> Query list
     \<Rightarrow> database_Service list \<Rightarrow> query_error + database_Service list" where
  "services_List extract labelSource qs t =
     (if \<not> validPaths extract qs then Inl ErrInvalidQueryPath
      else Inr (sort_key dbs_Name (filter (\<lambda>s. query_filter extract qs (labelSource (dbs_Labels s))) t)))"

definition services_Delete ::
  "string \<Rightarrow> database_Service list \<Rightarrow> balance_error option \<times> database_Service list" where
  "services_Delete name t =
     (if name \<notin> dbs_Name ` set t then (Some Db_ErrServiceNotFound, t)
      else (None, filter (\<lambda>s. dbs_Name s \<noteq> name) t))"

section \<open>Backends\<close>

record Backend =
  be_Workload :: string
  be_Instance :: int
  be_Address :: string

record view_Service =
  svw_Name :: string
  svw_Labels :: string_map
  svw_Target :: ServiceTarget
  svw_Backends :: "Backend list"
  svw_Version :: int
  svw_CreatedAt :: time
  svw_UpdatedAt :: time

text \<open>A key a Go map does not have reads as the empty string.\<close>

definition selectsLabels :: "string_map \<Rightarrow> string_map \<Rightarrow> bool" where
  "selectsLabels labels target \<longleftrightarrow>
     list_all (\<lambda>key. lookup_str labels key = lookup_str target key) (map fst target)"

definition targetPort :: "ResolvedPort list \<Rightarrow> database_Service \<Rightarrow> int \<Rightarrow> ResolvedPort option" where
  "targetPort ports row i = find (\<lambda>p. rp_Instance p = i \<and> rp_To p = dbs_TargetPort row
     \<and> protocol_string (rp_Protocol p) = dbs_TargetProtocol row) ports"

definition instance_backend :: "string \<Rightarrow> database_Service \<Rightarrow> string \<Rightarrow> ResolvedPort list \<Rightarrow> view_Instance \<Rightarrow> Backend list" where
  "instance_backend address row name ports i =
     (if inst_State (vi_Instance i) \<noteq> StateRunning then []
      else case targetPort ports row (inst_Index (vi_Instance i)) of
          None \<Rightarrow> []
        | Some p \<Rightarrow> [\<lparr>be_Workload = name, be_Instance = inst_Index (vi_Instance i),
            be_Address = JoinHostPort address (Itoa (rp_From p))\<rparr>])"

definition workload_backends :: "string \<Rightarrow> database_Service \<Rightarrow> view_Workload \<Rightarrow> Backend list" where
  "workload_backends address row w =
     (if vw_Deleting w \<or> \<not> selectsLabels (vw_Labels w) (dbs_TargetLabels row) then []
      else concat (map (instance_backend address row (vw_Name w) (vw_Ports w)) (vw_Instances w)))"

definition backends :: "string \<Rightarrow> database_Service \<Rightarrow> view_Workload list \<Rightarrow> Backend list" where
  "backends address row ws =
     sort_key be_Workload (sort_key be_Instance (concat (map (workload_backends address row) ws)))"

definition hydrateService :: "string \<Rightarrow> database_Service \<Rightarrow> view_Workload list \<Rightarrow> view_Service" where
  "hydrateService address row ws =
     \<lparr>svw_Name = dbs_Name row, svw_Labels = dbs_Labels row,
      svw_Target = \<lparr>tgt_Labels = dbs_TargetLabels row, tgt_Port = dbs_TargetPort row,
        tgt_Protocol = (if dbs_TargetProtocol row = ''tcp'' then ProtocolTCP
          else if dbs_TargetProtocol row = ''udp'' then ProtocolUDP else ProtocolOther (dbs_TargetProtocol row))\<rparr>,
      svw_Backends = backends address row ws, svw_Version = dbs_Version row,
      svw_CreatedAt = dbs_CreatedAt row, svw_UpdatedAt = dbs_UpdatedAt row\<rparr>"

definition label_path :: "string \<Rightarrow> string" where
  "label_path key = ''$.labels.'' @ [CHR 34] @ key @ [CHR 34]"

definition targetQueries :: "string_map \<Rightarrow> string list" where
  "targetQueries labels = map (\<lambda>key. label_path key @ ''='' @ lookup_str labels key) (sort (remdups (map fst labels)))"

section \<open>The service\<close>

text \<open>The node a service reads: the environment of the views, its address, the tables and the drivers' answers.\<close>

record world =
  wo_env :: view_env
  wo_address :: string
  wo_label_json :: "string_map \<Rightarrow> string"
  wo_db :: database
  wo_observation :: observation
  wo_services :: "database_Service list"

definition selected :: "world \<Rightarrow> database_Service \<Rightarrow> query_error + view_Workload list" where
  "selected wo row = WorkloadService_List (wo_env wo) (wo_db wo) (wo_observation wo) (targetQueries (dbs_TargetLabels row))"

definition service_Get :: "world \<Rightarrow> string \<Rightarrow> balance_error + view_Service" where
  "service_Get wo name = (case services_Get name (wo_services wo) of
       Inl e \<Rightarrow> Inl ErrServiceNotFound
     | Inr row \<Rightarrow> map_sum Service_Query (hydrateService (wo_address wo) row) (selected wo row))"

definition row_of :: "manifest_Service \<Rightarrow> database_Service" where
  "row_of spec = \<lparr>dbs_ID = [], dbs_Name = svm_Name spec, dbs_Labels = svm_Labels spec,
     dbs_TargetLabels = tgt_Labels (svm_Target spec), dbs_TargetPort = tgt_Port (svm_Target spec),
     dbs_TargetProtocol = protocol_string (tgt_Protocol (svm_Target spec)), dbs_Version = 0,
     dbs_CreatedAt = 0, dbs_UpdatedAt = 0\<rparr>"

text \<open>The answer, the world with the table as it is left, and whether a pass was asked for.\<close>

definition service_Apply ::
  "string \<Rightarrow> time \<Rightarrow> manifest_Service \<Rightarrow> int \<Rightarrow> world \<Rightarrow> (balance_error + view_Service \<times> bool) \<times> world \<times> bool" where
  "service_Apply newid now spec0 ifMatch wo =
     (let spec = service_Defaults spec0
      in case ValidateService spec of
        Some e \<Rightarrow> (Inl (ErrInvalidService e), wo, False)
      | None \<Rightarrow> (case services_Upsert newid now (row_of spec) ifMatch (wo_services wo) of
            (Inl e, t) \<Rightarrow>
              (Inl (if e = Db_ErrServiceChanged \<or> e = Db_ErrServiceNotFound then ErrServiceChanged else e),
               wo\<lparr>wo_services := t\<rparr>, False)
          | (Inr (stored, created), t) \<Rightarrow>
              (map_sum Service_Query (\<lambda>ws. (hydrateService (wo_address wo) stored ws, created))
                 (selected (wo\<lparr>wo_services := t\<rparr>) stored), wo\<lparr>wo_services := t\<rparr>, True)))"

definition service_Delete :: "string \<Rightarrow> world \<Rightarrow> balance_error option \<times> world \<times> bool" where
  "service_Delete name wo = (case services_Delete name (wo_services wo) of
       (Some e, t) \<Rightarrow> (Some ErrServiceNotFound, wo\<lparr>wo_services := t\<rparr>, False)
     | (None, t) \<Rightarrow> (None, wo\<lparr>wo_services := t\<rparr>, True))"

text \<open>A map built from a list keeps the last of several workloads of one name.\<close>

definition carry :: "view_Workload list \<Rightarrow> view_Workload list \<Rightarrow> string list \<Rightarrow> view_Workload list" where
  "carry fleet previous unobserved =
     (if unobserved = [] \<or> previous = [] then fleet
      else map (\<lambda>w. if vw_Runtime w \<notin> set unobserved then w
        else case map_of (rev (map (\<lambda>p. (vw_Name p, p)) previous)) (vw_Name w) of
            None \<Rightarrow> w | Some seen \<Rightarrow> w\<lparr>vw_Instances := vw_Instances seen\<rparr>) fleet)"

definition service_read ::
  "world \<Rightarrow> Query list \<Rightarrow> view_Workload list \<Rightarrow> balance_error + view_Service list \<times> view_Workload list" where
  "service_read wo qs previous =
     (case services_List (ve_extract (wo_env wo)) (wo_label_json wo) qs (wo_services wo) of
        Inl e \<Rightarrow> Inl (Service_Query (if e = ErrInvalidQueryPath then ErrInvalidQuery else e))
      | Inr rows \<Rightarrow>
          if rows = [] then Inr ([], previous)
          else (case Fleet (wo_env wo) (wo_db wo) (wo_observation wo) of
              Inl e \<Rightarrow> Inl (Service_Query e)
            | Inr (fleet, unobserved) \<Rightarrow>
                (let carried = carry fleet previous unobserved
                 in Inr (map (\<lambda>row. hydrateService (wo_address wo) row carried) rows, carried))))"

definition ServiceService_List :: "world \<Rightarrow> string list \<Rightarrow> balance_error + view_Service list" where
  "ServiceService_List wo queries = (case parseQueries queries of
       Inl e \<Rightarrow> Inl (Service_Query e) | Inr qs \<Rightarrow> map_sum id fst (service_read wo qs []))"

section \<open>Streaming\<close>

definition equalService :: "view_Service \<Rightarrow> view_Service \<Rightarrow> bool" where
  "equalService a b \<longleftrightarrow>
     svw_Name a = svw_Name b
     \<and> tgt_Port (svw_Target a) = tgt_Port (svw_Target b)
     \<and> tgt_Protocol (svw_Target a) = tgt_Protocol (svw_Target b)
     \<and> svw_CreatedAt a = svw_CreatedAt b
     \<and> svw_UpdatedAt a = svw_UpdatedAt b
     \<and> maps_Equal (svw_Labels a) (svw_Labels b)
     \<and> maps_Equal (tgt_Labels (svw_Target a)) (tgt_Labels (svw_Target b))
     \<and> svw_Backends a = svw_Backends b"

definition equalServices :: "view_Service list \<Rightarrow> view_Service list \<Rightarrow> bool" where
  "equalServices a b \<longleftrightarrow> list_all2 equalService a b"

datatype stream_error = Read_Failed balance_error | Fn_Failed goerr

text \<open>
  What is reported to the caller and how the stream ends: \<open>None\<close> when the context does. The caller answers
  each report, the passes are the worlds found after each of them.
\<close>

fun stream_loop ::
  "(view_Service list \<Rightarrow> goerr option) \<Rightarrow> Query list \<Rightarrow> view_Service list \<Rightarrow> view_Workload list
     \<Rightarrow> world list \<Rightarrow> view_Service list list \<times> stream_error option" where
  "stream_loop fn qs latest fleet [] = ([], None)"
| "stream_loop fn qs latest fleet (wo # passes) = (case service_read wo qs fleet of
       Inl e \<Rightarrow> ([], Some (Read_Failed e))
     | Inr (next_set, seen) \<Rightarrow>
         if equalServices latest next_set then stream_loop fn qs latest seen passes
         else (case fn next_set of
             Some e \<Rightarrow> ([next_set], Some (Fn_Failed e))
           | None \<Rightarrow> (case stream_loop fn qs next_set seen passes of
                 (reports, err) \<Rightarrow> (next_set # reports, err))))"

definition Stream ::
  "(view_Service list \<Rightarrow> goerr option) \<Rightarrow> string list \<Rightarrow> world \<Rightarrow> world list
     \<Rightarrow> view_Service list list \<times> stream_error option" where
  "Stream fn queries wo passes = (case parseQueries queries of
       Inl e \<Rightarrow> ([], Some (Read_Failed (Service_Query e)))
     | Inr qs \<Rightarrow> (case service_read wo qs [] of
           Inl e \<Rightarrow> ([], Some (Read_Failed e))
         | Inr (first, fleet) \<Rightarrow> (case fn first of
               Some e \<Rightarrow> ([first], Some (Fn_Failed e))
             | None \<Rightarrow> (case stream_loop fn qs first fleet passes of
                   (reports, err) \<Rightarrow> (first # reports, err)))))"

end
