(* ===== verification/Service_Properties.thy ===== *)
theory Service_Properties
  imports Service_Backends Reconciler_State "HOL-Library.Sublist" "HOL-Library.Multiset"
begin

text \<open>
  What a service reports: exactly the instances that are fit to serve, in an order of its own; the same
  whether it is read alone or in a list, but for an empty label value; the last instances seen of a runtime
  that does not answer; and a stream that reports each change and nothing else.
\<close>

section \<open>Backends\<close>

lemma set_backends: "set (backends address row ws) = (\<Union>w\<in>set ws. set (workload_backends address row w))"
  by (simp add: backends_def)

lemma workload_backends_iff:
  "b \<in> set (workload_backends address row w) \<longleftrightarrow> \<not> vw_Deleting w \<and> selectsLabels (vw_Labels w) (dbs_TargetLabels row)
    \<and> (\<exists>i\<in>set (vw_Instances w). inst_State (vi_Instance i) = StateRunning
        \<and> (\<exists>p. targetPort (vw_Ports w) row (inst_Index (vi_Instance i)) = Some p
             \<and> b = \<lparr>be_Workload = vw_Name w, be_Instance = inst_Index (vi_Instance i),
                  be_Address = JoinHostPort address (Itoa (rp_From p))\<rparr>))"
proof -
  have "b \<in> set (instance_backend address row (vw_Name w) (vw_Ports w) i) \<longleftrightarrow> inst_State (vi_Instance i) = StateRunning
        \<and> (\<exists>p. targetPort (vw_Ports w) row (inst_Index (vi_Instance i)) = Some p
             \<and> b = \<lparr>be_Workload = vw_Name w, be_Instance = inst_Index (vi_Instance i),
                  be_Address = JoinHostPort address (Itoa (rp_From p))\<rparr>)" for i
    by (cases "targetPort (vw_Ports w) row (inst_Index (vi_Instance i))") (auto simp: instance_backend_def)
  then show ?thesis by (simp add: workload_backends_def)
qed

text \<open>The workload and the instance of a backend determine it.\<close>

lemma backends_determined:
  assumes "distinct (map vw_Name ws)" "a \<in> set (backends address row ws)" "b \<in> set (backends address row ws)"
    and "be_Workload a = be_Workload b" "be_Instance a = be_Instance b"
  shows "a = b"
proof -
  obtain w where w: "w \<in> set ws" "a \<in> set (workload_backends address row w)" using assms(2) by (auto simp: set_backends)
  obtain v where v: "v \<in> set ws" "b \<in> set (workload_backends address row v)" using assms(3) by (auto simp: set_backends)
  have "vw_Name w = vw_Name v" using assms(4) w(2) v(2) by (auto simp: workload_backends_iff)
  then have "w = v" using assms(1) w(1) v(1) by (simp add: distinct_map inj_on_def)
  then show ?thesis using w(2) v(2) assms(5) by (auto simp: workload_backends_iff)
qed

lemma sort_key_mset_cong:
  assumes "mset xs = mset ys" "inj_on f (set xs)"
  shows "sort_key f xs = sort_key f ys"
  using assms by (metis mset_sort sort_key_inj_key_eq sorted_sort_key)

text \<open>Sorting by one key after another depends on the elements alone when the two keys tell them apart.\<close>

lemma sort_sort_mset_cong:
  assumes same: "mset xs = mset ys"
    and keys: "\<And>a b. a \<in> set xs \<Longrightarrow> b \<in> set xs \<Longrightarrow> f a = f b \<Longrightarrow> g a = g b \<Longrightarrow> a = b"
  shows "sort_key f (sort_key g xs) = sort_key f (sort_key g ys)"
proof (rule properties_for_sort_key)
  show "mset (sort_key f (sort_key g ys)) = mset (sort_key g xs)" using same by simp
next
  fix k assume "k \<in> set (sort_key f (sort_key g ys))"
  have "filter (\<lambda>x. f k = f x) (sort_key f (sort_key g ys)) = filter (\<lambda>x. f k = f x) (sort_key g ys)"
    using sort_key_stable [of f "f k" "sort_key g ys"] by (simp add: eq_commute)
  also have "\<dots> = sort_key g (filter (\<lambda>x. f k = f x) ys)" by (simp add: filter_sort)
  also have "\<dots> = sort_key g (filter (\<lambda>x. f k = f x) xs)"
  proof (rule sort_key_mset_cong)
    show "mset (filter (\<lambda>x. f k = f x) ys) = mset (filter (\<lambda>x. f k = f x) xs)" using same by simp
    have "set ys = set xs" using same by (metis set_mset_mset)
    then show "inj_on g (set (filter (\<lambda>x. f k = f x) ys))" using keys by (fastforce intro: inj_onI)
  qed
  also have "\<dots> = filter (\<lambda>x. f k = f x) (sort_key g xs)" by (simp add: filter_sort)
  finally show "filter (\<lambda>x. f k = f x) (sort_key f (sort_key g ys)) = filter (\<lambda>x. f k = f x) (sort_key g xs)" .
next
  show "sorted (map f (sort_key f (sort_key g ys)))" by simp
qed

text \<open>Fleets that differ in the order of their workloads, and of the instances of each, alone.\<close>

definition same_fleet :: "view_Workload list \<Rightarrow> view_Workload list \<Rightarrow> bool" where
  "same_fleet ws vs \<longleftrightarrow> image_mset (\<lambda>w. (w\<lparr>vw_Instances := []\<rparr>, mset (vw_Instances w))) (mset ws)
     = image_mset (\<lambda>w. (w\<lparr>vw_Instances := []\<rparr>, mset (vw_Instances w))) (mset vs)"

definition backends_of :: "string \<Rightarrow> database_Service \<Rightarrow> view_Workload \<Rightarrow> view_Instance multiset \<Rightarrow> Backend multiset" where
  "backends_of address row w is = \<Sum>\<^sub># (image_mset
     (\<lambda>i. mset (workload_backends address row (w\<lparr>vw_Instances := [i]\<rparr>))) is)"

lemma workload_backends_mset:
  "mset (workload_backends address row w) = backends_of address row (w\<lparr>vw_Instances := []\<rparr>) (mset (vw_Instances w))"
proof -
  have "mset (workload_backends address row (w\<lparr>vw_Instances := is\<rparr>))
      = backends_of address row (w\<lparr>vw_Instances := []\<rparr>) (mset is)" for "is"
  proof (induction "is")
    case (Cons i "is")
    have "workload_backends address row (w\<lparr>vw_Instances := i # is\<rparr>)
        = workload_backends address row (w\<lparr>vw_Instances := [i]\<rparr>) @ workload_backends address row (w\<lparr>vw_Instances := is\<rparr>)"
      by (simp add: workload_backends_def)
    then show ?case using Cons by (simp add: backends_of_def)
  qed (simp add: backends_of_def workload_backends_def)
  from this [of "vw_Instances w"] show ?thesis by simp
qed

lemma backends_mset:
  "mset (backends address row ws) = \<Sum>\<^sub># (image_mset (\<lambda>(w, is). backends_of address row w is)
     (image_mset (\<lambda>w. (w\<lparr>vw_Instances := []\<rparr>, mset (vw_Instances w))) (mset ws)))"
  by (simp add: backends_def mset_concat comp_def workload_backends_mset flip: sum_mset_sum_list mset_map)

lemma backends_same_fleet:
  assumes "distinct (map vw_Name ws)" "same_fleet ws vs"
  shows "backends address row ws = backends address row vs"
proof -
  have "mset (backends address row ws) = mset (backends address row vs)"
    unfolding backends_mset using assms(2) by (simp add: same_fleet_def)
  then have "mset (concat (map (workload_backends address row) ws)) = mset (concat (map (workload_backends address row) vs))"
    by (simp add: backends_def)
  then show ?thesis
    unfolding backends_def
  proof (rule sort_sort_mset_cong)
    fix a b
    assume "a \<in> set (concat (map (workload_backends address row) ws))" "b \<in> set (concat (map (workload_backends address row) ws))"
    then have "a \<in> set (backends address row ws)" "b \<in> set (backends address row ws)" by (simp_all add: backends_def)
    then show "be_Workload a = be_Workload b \<Longrightarrow> be_Instance a = be_Instance b \<Longrightarrow> a = b"
      using backends_determined [OF assms(1)] by blast
  qed
qed

section \<open>Streaming\<close>

lemma equalServices_refl [simp]: "equalServices a a"
  by (simp add: equalServices_def equalService_def maps_Equal_iff list_all2_same)

text \<open>The reads of a stream, each carrying on from the one before.\<close>

fun stream_reads :: "Query list \<Rightarrow> view_Workload list \<Rightarrow> world list \<Rightarrow> view_Service list list option" where
  "stream_reads qs fleet [] = Some []"
| "stream_reads qs fleet (wo # ws) = (case service_read wo qs fleet of
       Inl e \<Rightarrow> None | Inr (x, seen) \<Rightarrow> map_option (Cons x) (stream_reads qs seen ws))"

lemma stream_loop_follows:
  assumes "stream_reads qs fleet ws = Some rs" "\<And>x. fn x = None"
  shows "\<exists>reports. stream_loop fn qs latest fleet ws = (reports, None)
    \<and> successively (\<lambda>a b. \<not> equalServices a b) (latest # reports) \<and> subseq reports rs
    \<and> equalServices (last (latest # reports)) (last (latest # rs))"
  using assms(1)
proof (induction ws arbitrary: latest fleet rs)
  case (Cons wo ws)
  obtain x seen rs' where read: "service_read wo qs fleet = Inr (x, seen)" "stream_reads qs seen ws = Some rs'" "rs = x # rs'"
    using Cons.prems by (auto split: sum.splits)
  show ?case
  proof (cases "equalServices latest x")
    case True
    obtain reports where "stream_loop fn qs latest seen ws = (reports, None)"
      "successively (\<lambda>a b. \<not> equalServices a b) (latest # reports)" "subseq reports rs'"
      "equalServices (last (latest # reports)) (last (latest # rs'))"
      using Cons.IH [OF read(2)] by blast
    then show ?thesis using read True by (cases rs') auto
  next
    case False
    obtain reports where "stream_loop fn qs x seen ws = (reports, None)"
      "successively (\<lambda>a b. \<not> equalServices a b) (x # reports)" "subseq reports rs'"
      "equalServices (last (x # reports)) (last (x # rs'))"
      using Cons.IH [OF read(2)] by blast
    then show ?thesis
      using read False assms(2) [of x] by (intro exI [of _ "x # reports"]) auto
  qed
qed simp

section \<open>Reading one service and reading them all\<close>

text \<open>
  What SQLite does with the path of a label: it parses, an empty document does not have it, and the stored
  specification of a workload has it when the workload carries the label.
\<close>

definition labels_readable :: "(string \<Rightarrow> string \<Rightarrow> string option option) \<Rightarrow> database \<Rightarrow> bool" where
  "labels_readable extract db \<longleftrightarrow>
     (\<forall>key. labelKeyPattern key \<longrightarrow> extract ''{}'' (label_path key) = Some None
       \<and> (\<forall>w\<in>set (db_workloads db). extract (row_Spec w) (label_path key) = Some (map_of (row_Labels w) key)))"

definition carries :: "string_map \<Rightarrow> string_map \<Rightarrow> bool" where
  "carries labels target \<longleftrightarrow> (\<forall>key\<in>fst ` set target. map_of labels key = Some (lookup_str target key))"

lemma Cut_first: "c \<notin> set p \<Longrightarrow> Cut (p @ c # v) c = (p, v, True)"
proof -
  assume "c \<notin> set p"
  then have "IndexByte (p @ c # v) c = Some (length p)" by (induction p) auto
  then show ?thesis by (simp add: Cut_def)
qed

lemma parse_label_queries:
  assumes "\<forall>key\<in>set keys. CHR ''='' \<notin> set key"
  shows "parseQueries (map (\<lambda>key. label_path key @ ''='' @ f key) keys)
    = Inr (map (\<lambda>key. \<lparr>q_Path = label_path key, q_Value = f key\<rparr>) keys)"
  using assms
proof (induction keys)
  case (Cons key keys)
  then have "CHR ''='' \<notin> set (label_path key)" by (simp add: label_path_def)
  then have "Cut (label_path key @ ''='' @ f key) (CHR ''='') = (label_path key, f key, True)"
    using Cut_first by simp
  then show ?case using Cons by (simp add: label_path_def)
qed simp

lemma labelKeyPattern_plain: "labelKeyPattern key \<Longrightarrow> CHR ''='' \<notin> set key"
  by (auto simp: labelKeyPattern_def list_all_iff lower_alnum_def)

lemma parse_targetQueries:
  assumes "\<forall>key\<in>fst ` set target. labelKeyPattern key"
  shows "parseQueries (targetQueries target)
    = Inr (map (\<lambda>key. \<lparr>q_Path = label_path key, q_Value = lookup_str target key\<rparr>) (sort (remdups (map fst target))))"
  unfolding targetQueries_def by (rule parse_label_queries) (use assms labelKeyPattern_plain in auto)

lemma view_each_Inr:
  "view_each env db observed ws = Inr vs \<Longrightarrow>
    vs = map (\<lambda>w. projr (newWorkload env w (observed (row_Name w)) (table_List (db_ports db) (row_ID w)))) ws
    \<and> (\<forall>w\<in>set ws. \<exists>v. newWorkload env w (observed (row_Name w)) (table_List (db_ports db) (row_ID w)) = Inr v)"
  by (induction ws arbitrary: vs) (auto simp: map_sum_eq_Inr split: sum.splits)

lemma view_each_filter:
  "view_each env db observed ws = Inr vs \<Longrightarrow> view_each env db observed (filter P ws)
    = Inr (map (\<lambda>w. projr (newWorkload env w (observed (row_Name w)) (table_List (db_ports db) (row_ID w)))) (filter P ws))"
  by (induction ws arbitrary: vs) (auto simp: map_sum_eq_Inr split: sum.splits)

lemma newWorkload_labels:
  "newWorkload env row observed ports = Inr v \<Longrightarrow> vw_Labels v = row_Labels row \<and> vw_Name v = row_Name row"
  by (auto simp: newWorkload_def Let_def split: sum.splits)

text \<open>The fleet, and what the database selects of it, as views of rows.\<close>

lemma selected_of_fleet:
  assumes "Fleet (wo_env wo) (wo_db wo) (wo_observation wo) = Inr (fleet, unobserved)"
    and "labels_readable (ve_extract (wo_env wo)) (wo_db wo)"
    and "\<forall>key\<in>fst ` set (dbs_TargetLabels row). labelKeyPattern key"
  shows "selected wo row = Inr (filter (\<lambda>w. carries (vw_Labels w) (dbs_TargetLabels row)) fleet)
    \<and> map vw_Name fleet = map row_Name (sort_key row_Name (db_workloads (wo_db wo)))"
proof -
  let ?env = "wo_env wo" and ?db = "wo_db wo" and ?target = "dbs_TargetLabels row"
  let ?observed = "fst (service_observe (wo_observation wo))"
  let ?qs = "map (\<lambda>key. \<lparr>q_Path = label_path key, q_Value = lookup_str ?target key\<rparr>) (sort (remdups (map fst ?target)))"
  let ?V = "\<lambda>w. projr (newWorkload ?env w (?observed (row_Name w)) (table_List (db_ports ?db) (row_ID w)))"
  let ?ws = "sort_key row_Name (db_workloads ?db)"
  have each: "view_each ?env ?db ?observed ?ws = Inr fleet"
    using assms(1)
    by (auto simp: Fleet_def service_list_def workloads_List_def validPaths_def query_filter_def map_sum_eq_Inr
        service_observe_def)
  note views = view_each_Inr [OF each]
  have labels: "vw_Labels (?V w) = row_Labels w \<and> vw_Name (?V w) = row_Name w" if "w \<in> set ?ws" for w
    using views that newWorkload_labels by fastforce
  have valid: "validPaths (ve_extract ?env) ?qs"
    using assms(2,3) by (auto simp: validPaths_def list_all_iff labels_readable_def)
  have filtered: "query_filter (ve_extract ?env) ?qs (row_Spec w) = carries (row_Labels w) ?target"
    if "w \<in> set (db_workloads ?db)" for w
    using that assms(2,3) by (auto simp: query_filter_def list_all_iff labels_readable_def carries_def)
  have rows: "workloads_List (ve_extract ?env) ?qs ?db = Inr (filter (\<lambda>w. carries (row_Labels w) ?target) ?ws)"
    using valid filtered by (simp add: workloads_List_def filter_sort cong: filter_cong)
  have "selected wo row = Inr (map ?V (filter (\<lambda>w. carries (row_Labels w) ?target) ?ws))"
    using parse_targetQueries [OF assms(3)] rows view_each_filter [OF each]
    by (simp add: selected_def WorkloadService_List_def service_list_def service_observe_def)
  also have "map ?V (filter (\<lambda>w. carries (row_Labels w) ?target) ?ws)
      = filter (\<lambda>w. carries (vw_Labels w) ?target) (map ?V ?ws)"
    unfolding filter_map comp_def using labels by (intro arg_cong [of _ _ "map ?V"] filter_cong) auto
  also have "map ?V ?ws = fleet" using views by simp
  finally show ?thesis using views labels by simp
qed

lemma concat_map_filter: "(\<And>x. x \<in> set xs \<Longrightarrow> \<not> P x \<Longrightarrow> f x = []) \<Longrightarrow> concat (map f (filter P xs)) = concat (map f xs)"
  by (induction xs) auto

lemma selectsLabels_carries:
  "\<forall>key\<in>fst ` set target. lookup_str target key \<noteq> [] \<Longrightarrow> selectsLabels labels target \<longleftrightarrow> carries labels target"
  by (fastforce simp: carries_def selectsLabels_def list_all_iff lookup_str_def split: option.splits)

lemma backends_carrying:
  assumes "\<forall>key\<in>fst ` set (dbs_TargetLabels row). lookup_str (dbs_TargetLabels row) key \<noteq> []"
  shows "backends address row (filter (\<lambda>w. carries (vw_Labels w) (dbs_TargetLabels row)) ws) = backends address row ws"
proof -
  have "workload_backends address row w = []" if "\<not> carries (vw_Labels w) (dbs_TargetLabels row)" for w
  proof -
    have "\<not> selectsLabels (vw_Labels w) (dbs_TargetLabels row)"
      using that assms by (simp add: selectsLabels_carries)
    then show ?thesis by (simp add: workload_backends_def)
  qed
  then show ?thesis by (simp add: backends_def concat_map_filter)
qed

lemma List_Inr:
  assumes "ServiceService_List wo [] = Inr vs" "services_Get name (wo_services wo) = Inr row"
  obtains fleet unobserved where "Fleet (wo_env wo) (wo_db wo) (wo_observation wo) = Inr (fleet, unobserved)"
    "hydrateService (wo_address wo) row fleet \<in> set vs"
proof -
  have row: "row \<in> set (wo_services wo)"
    using assms(2) by (auto simp: services_Get_def split: option.splits dest: find_SomeD)
  then have rows: "services_List (ve_extract (wo_env wo)) (wo_label_json wo) [] (wo_services wo)
      = Inr (sort_key dbs_Name (wo_services wo))" "sort_key dbs_Name (wo_services wo) \<noteq> []"
    by (auto simp: services_List_def validPaths_def query_filter_def) (metis empty_iff list.set(1) set_sort)
  obtain fleet unobserved where fleet: "Fleet (wo_env wo) (wo_db wo) (wo_observation wo) = Inr (fleet, unobserved)"
    and vs: "vs = map (\<lambda>row. hydrateService (wo_address wo) row (carry fleet [] unobserved)) (sort_key dbs_Name (wo_services wo))"
    using assms(1) rows by (auto simp: ServiceService_List_def service_read_def Let_def map_sum_eq_Inr split: sum.splits prod.splits)
  then show thesis using that [OF fleet] row by (auto simp: carry_def)
qed

section \<open>A concrete node\<close>

text \<open>One workload with one label, one instance up and one port, and a service with the given target.\<close>

definition example_row :: database_Workload where
  "example_row = example_wrow\<lparr>row_Labels := [(''app'', ''web'')]\<rparr>"

definition example_port :: database_Port where
  "example_port = \<lparr>prt_WorkloadID = ''id1'', prt_Instance = 0, prt_Name = [], prt_Container = 80, prt_Host = 20000,
     prt_Protocol = ProtocolTCP, prt_Dynamic = True\<rparr>"

definition example_front :: "string_map \<Rightarrow> database_Service" where
  "example_front target = \<lparr>dbs_ID = ''s'', dbs_Name = ''front'', dbs_Labels = [], dbs_TargetLabels = target,
     dbs_TargetPort = 80, dbs_TargetProtocol = ''tcp'', dbs_Version = 1, dbs_CreatedAt = 1, dbs_UpdatedAt = 1\<rparr>"

definition example_env :: view_env where
  "example_env = \<lparr>ve_unmarshal = (\<lambda>d. Inr example_spec), ve_cron = (\<lambda>e. None), ve_checker = None,
     ve_pulling = None, ve_behind = (\<lambda>w. False),
     ve_extract = (\<lambda>d p. Some (if d = [] \<and> p = label_path ''app'' then Some ''web'' else None))\<rparr>"

definition example_up :: view_Workload where
  "example_up = projr (newWorkload example_env example_row [example_winst StateRunning] [example_port])"

lemma example_up:
  "newWorkload example_env example_row [example_winst StateRunning] [example_port] = Inr example_up"
  by (simp add: example_up_def newWorkload_def example_env_def DecodeWorkload_def Let_def)

lemma example_up_fields:
  "vw_Name example_up = ''web''" "vw_Labels example_up = [(''app'', ''web'')]" "\<not> vw_Deleting example_up"
  "vw_Ports example_up = newResolvedPorts [example_port]"
  "map (\<lambda>i. (inst_State (vi_Instance i), inst_Index (vi_Instance i))) (vw_Instances example_up) = [(StateRunning, 0)]"
  by code_simp+

lemma example_up_backend:
  assumes "selectsLabels [(''app'', ''web'')] target"
  shows "workload_backends address (example_front target) example_up \<noteq> []"
proof -
  obtain i where i: "vw_Instances example_up = [i]" "inst_State (vi_Instance i) = StateRunning" "inst_Index (vi_Instance i) = 0"
    using example_up_fields(5) by (cases "vw_Instances example_up") auto
  moreover have "targetPort (newResolvedPorts [example_port]) (example_front target) 0 \<noteq> None"
    by (simp add: targetPort_def newResolvedPorts_def example_port_def example_front_def)
  ultimately show ?thesis
    using assms by (auto simp: workload_backends_def instance_backend_def example_up_fields(2-4) example_front_def)
qed

section \<open>Properties\<close>

text \<open>
  C10. A service reports exactly the instances that are fit to serve. For a target whose labels all have a
  value, a backend is listed when, and only when, a workload that is not being torn down and carries every
  target label with its value has an instance in the running state that publishes the target port over the
  target protocol; they come ordered by workload and instance, and the same fleet gives the same list in
  whatever order it was observed. A target label with an empty value is left out: a workload without it is
  then selected too, which \<open>empty_label_disagrees\<close> shows.
\<close>

theorem backends_exact:
  assumes "distinct (map vw_Name ws)" "\<forall>key\<in>fst ` set (dbs_TargetLabels row). lookup_str (dbs_TargetLabels row) key \<noteq> []"
  shows "set (backends address row ws)
      = {b. \<exists>w\<in>set ws. \<not> vw_Deleting w \<and> carries (vw_Labels w) (dbs_TargetLabels row)
          \<and> (\<exists>i\<in>set (vw_Instances w). inst_State (vi_Instance i) = StateRunning
              \<and> (\<exists>p. targetPort (vw_Ports w) row (inst_Index (vi_Instance i)) = Some p
                   \<and> b = \<lparr>be_Workload = vw_Name w, be_Instance = inst_Index (vi_Instance i),
                        be_Address = JoinHostPort address (Itoa (rp_From p))\<rparr>))}
    \<and> sorted (map be_Workload (backends address row ws))
    \<and> (\<forall>name. sorted (map be_Instance (filter (\<lambda>b. be_Workload b = name) (backends address row ws))))
    \<and> (\<forall>vs. same_fleet ws vs \<longrightarrow> backends address row vs = backends address row ws)"
proof -
  have "sorted (map be_Instance (filter (\<lambda>b. be_Workload b = name) (backends address row ws)))" for name
    unfolding backends_def by (simp add: sort_key_stable filter_sort)
  moreover have "sorted (map be_Workload (backends address row ws))" by (simp add: backends_def)
  ultimately show ?thesis
    using backends_same_fleet [OF assms(1)]
    by (simp add: set_eq_iff set_backends workload_backends_iff selectsLabels_carries [OF assms(2)])
qed

theorem backends_exact_witness:
  "backends ''127.0.0.1'' (example_front [(''app'', ''web'')]) [example_up] \<noteq> []
    \<and> sorted (map be_Workload (backends ''127.0.0.1'' (example_front [(''app'', ''web'')]) [example_up]))"
proof -
  have "selectsLabels [(''app'', ''web'')] [(''app'', ''web'')]" by (simp add: selectsLabels_def)
  then have "set (backends ''127.0.0.1'' (example_front [(''app'', ''web'')]) [example_up]) \<noteq> {}"
    using example_up_backend by (simp add: set_backends)
  then have "backends ''127.0.0.1'' (example_front [(''app'', ''web'')]) [example_up] \<noteq> []" by auto
  moreover have "distinct (map vw_Name [example_up])"
    "\<forall>key\<in>fst ` set (dbs_TargetLabels (example_front [(''app'', ''web'')])). lookup_str (dbs_TargetLabels (example_front [(''app'', ''web'')])) key \<noteq> []"
    by (simp_all add: example_front_def lookup_str_def)
  note backends_exact [OF this, of "''127.0.0.1''", THEN conjunct2, THEN conjunct1]
  ultimately show ?thesis by (intro conjI)
qed

text \<open>
  A service reads the same alone and in a list. When no target label is empty, the service that a get
  answers, whose workloads the database selects, is the one the list holds, whose workloads are selected
  from the fleet in memory.
\<close>

lemma get_agrees_with_list:
  assumes "ServiceService_List wo [] = Inr vs" "services_Get name (wo_services wo) = Inr row"
    and "labels_readable (ve_extract (wo_env wo)) (wo_db wo)"
    and "\<forall>key\<in>fst ` set (dbs_TargetLabels row). labelKeyPattern key \<and> lookup_str (dbs_TargetLabels row) key \<noteq> []"
  shows "\<exists>v\<in>set vs. service_Get wo name = Inr v"
  using assms(1,2)
proof (rule List_Inr)
  fix fleet unobserved
  assume fleet: "Fleet (wo_env wo) (wo_db wo) (wo_observation wo) = Inr (fleet, unobserved)"
    and listed: "hydrateService (wo_address wo) row fleet \<in> set vs"
  have "selected wo row = Inr (filter (\<lambda>w. carries (vw_Labels w) (dbs_TargetLabels row)) fleet)"
    using selected_of_fleet [OF fleet assms(3)] assms(4) by blast
  then have "service_Get wo name = Inr (hydrateService (wo_address wo) row fleet)"
    using assms(2,4) backends_carrying by (simp add: service_Get_def hydrateService_def)
  with listed show ?thesis by blast
qed

text \<open>
  An empty target label tells the two apart. A target may ask for an empty value, and a workload that
  does not carry the label at all is then selected in memory, where a missing key reads as empty, and not
  by the database: the list sends requests to its instances, and a get does not report them.
\<close>

lemma empty_label_disagrees:
  assumes "ServiceService_List wo [] = Inr vs" "services_Get name (wo_services wo) = Inr row"
    and "labels_readable (ve_extract (wo_env wo)) (wo_db wo)" "store_ok (wo_db wo)"
    and "\<forall>key\<in>fst ` set (dbs_TargetLabels row). labelKeyPattern key"
    and "Fleet (wo_env wo) (wo_db wo) (wo_observation wo) = Inr (fleet, unobserved)" "w \<in> set fleet"
    and "key \<in> fst ` set (dbs_TargetLabels row)" "map_of (vw_Labels w) key = None"
    and "workload_backends (wo_address wo) row w \<noteq> []"
  shows "(\<exists>v\<in>set vs. svw_Name v = dbs_Name row \<and> vw_Name w \<in> be_Workload ` set (svw_Backends v))
    \<and> (\<exists>g. service_Get wo name = Inr g \<and> vw_Name w \<notin> be_Workload ` set (svw_Backends g))"
proof -
  have named: "b \<in> set (workload_backends a row v) \<Longrightarrow> be_Workload b = vw_Name v" for a b v
    by (auto simp: workload_backends_iff)
  obtain b where b: "b \<in> set (workload_backends (wo_address wo) row w)" using assms(10) by (metis list.set_intros(1) neq_Nil_conv)
  have listed: "\<exists>v\<in>set vs. svw_Name v = dbs_Name row \<and> vw_Name w \<in> be_Workload ` set (svw_Backends v)"
    using assms(1,2)
  proof (rule List_Inr)
    fix fleet' unobserved'
    assume "Fleet (wo_env wo) (wo_db wo) (wo_observation wo) = Inr (fleet', unobserved')"
      and v: "hydrateService (wo_address wo) row fleet' \<in> set vs"
    then have "fleet' = fleet" using assms(6) by simp
    then have "vw_Name w \<in> be_Workload ` set (svw_Backends (hydrateService (wo_address wo) row fleet'))"
      using b assms(7) named [OF b] by (auto simp: hydrateService_def set_backends intro!: image_eqI [of _ _ b])
    then show ?thesis using v by (auto simp: hydrateService_def intro!: bexI [OF _ v])
  qed
  let ?sel = "filter (\<lambda>w. carries (vw_Labels w) (dbs_TargetLabels row)) fleet"
  have sel: "selected wo row = Inr ?sel"
    and names: "map vw_Name fleet = map row_Name (sort_key row_Name (db_workloads (wo_db wo)))"
    using selected_of_fleet [OF assms(6,3,5)] by auto
  have "distinct (map row_Name (db_workloads (wo_db wo)))" using assms(4) by (simp add: store_ok_def)
  then have "distinct (map row_Name (sort_key row_Name (db_workloads (wo_db wo))))"
    by (simp add: distinct_map)
  then have d: "distinct (map vw_Name fleet)" by (simp only: names)
  have "vw_Name w \<notin> be_Workload ` set (backends (wo_address wo) row ?sel)"
  proof
    assume "vw_Name w \<in> be_Workload ` set (backends (wo_address wo) row ?sel)"
    then obtain v where v: "v \<in> set fleet" "carries (vw_Labels v) (dbs_TargetLabels row)" "vw_Name v = vw_Name w"
      using named by (auto simp: set_backends)
    then have "v = w" using d assms(7) by (simp add: distinct_map inj_on_def)
    then show False using v(2) assms(8,9) unfolding carries_def by force
  qed
  then show ?thesis
    using listed assms(2) sel by (simp add: service_Get_def hydrateService_def)
qed

text \<open>
  A stream follows the services and says nothing twice. While the reads succeed and the caller accepts,
  it ends with the context, what it reports is a subsequence of what it reads, no report equals the one
  before it, and the last report always describes the last read.
\<close>

lemma stream_follows:
  assumes "parseQueries queries = Inr qs" "stream_reads qs [] (wo # passes) = Some rs" "\<forall>x. fn x = None"
  shows "\<exists>reports. Stream fn queries wo passes = (reports, None) \<and> reports \<noteq> [] \<and> subseq reports rs
    \<and> successively (\<lambda>a b. \<not> equalServices a b) reports \<and> equalServices (last reports) (last rs)"
proof -
  obtain x seen rs' where read: "service_read wo qs [] = Inr (x, seen)" "stream_reads qs seen passes = Some rs'" "rs = x # rs'"
    using assms(2) by (auto split: sum.splits)
  obtain reports where "stream_loop fn qs x seen passes = (reports, None)"
    "successively (\<lambda>a b. \<not> equalServices a b) (x # reports)" "subseq reports rs'"
    "equalServices (last (x # reports)) (last (x # rs'))"
    using stream_loop_follows [OF read(2), of fn x] assms(3) by blast
  then show ?thesis
    using assms(1) assms(3) [THEN spec, of x] read by (intro exI [of _ "x # reports"]) (simp add: Stream_def)
qed

text \<open>
  A runtime that stalls drains nothing. When a read finds that a runtime did not answer, a workload on
  it keeps the instances the read before saw, and with them its backends as long as its ports and labels
  are the same; when every runtime answered, what is read is what was observed.
\<close>

lemma stall_keeps_backends:
  assumes "service_read wo qs previous = Inr (vs, seen)"
    and "services_List (ve_extract (wo_env wo)) (wo_label_json wo) qs (wo_services wo) \<noteq> Inr []"
    and "Fleet (wo_env wo) (wo_db wo) (wo_observation wo) = Inr (fleet, unobserved)" "distinct (map vw_Name previous)"
  shows "(\<forall>w\<in>set fleet. \<forall>p\<in>set previous. vw_Runtime w \<in> set unobserved \<and> vw_Name p = vw_Name w
        \<and> vw_Deleting p = vw_Deleting w \<and> vw_Labels p = vw_Labels w \<and> vw_Ports p = vw_Ports w \<longrightarrow>
      (\<exists>k\<in>set seen. vw_Name k = vw_Name w \<and> vw_Instances k = vw_Instances p
        \<and> (\<forall>row. workload_backends (wo_address wo) row k = workload_backends (wo_address wo) row p)))
    \<and> (unobserved = [] \<longrightarrow> seen = fleet)"
proof -
  have seen: "seen = carry fleet previous unobserved"
    using assms(1-3) by (auto simp: service_read_def Let_def split: sum.splits if_splits)
  have "\<exists>k\<in>set seen. vw_Name k = vw_Name w \<and> vw_Instances k = vw_Instances p
        \<and> (\<forall>row. workload_backends (wo_address wo) row k = workload_backends (wo_address wo) row p)"
    if w: "w \<in> set fleet" "p \<in> set previous" "vw_Runtime w \<in> set unobserved" "vw_Name p = vw_Name w"
      "vw_Deleting p = vw_Deleting w" "vw_Labels p = vw_Labels w" "vw_Ports p = vw_Ports w" for w p
  proof
    have "map_of (rev (map (\<lambda>p. (vw_Name p, p)) previous)) (vw_Name w) = Some p"
      using w(2,4) assms(4) by (intro map_of_is_SomeI) (auto simp: comp_def rev_map [symmetric] intro!: image_eqI [of _ _ p])
    moreover have "unobserved \<noteq> [] \<and> previous \<noteq> []" using w(2,3) by auto
    ultimately show "w\<lparr>vw_Instances := vw_Instances p\<rparr> \<in> set seen"
      using w(1,3) by (force simp: seen carry_def)
    show "vw_Name (w\<lparr>vw_Instances := vw_Instances p\<rparr>) = vw_Name w
      \<and> vw_Instances (w\<lparr>vw_Instances := vw_Instances p\<rparr>) = vw_Instances p
      \<and> (\<forall>row. workload_backends (wo_address wo) row (w\<lparr>vw_Instances := vw_Instances p\<rparr>)
          = workload_backends (wo_address wo) row p)"
      using w(4-7) by (simp add: workload_backends_def)
  qed
  then show ?thesis by (auto simp: seen carry_def)
qed

end
