(* ===== verification/Volumes.thy ===== *)
theory Volumes
  imports Manifest_Validation Workload_Store "HOL-Library.Word"
begin

text \<open>
  Volumes: the document (\<open>pkg/manifest/volume.go\<close>), the table (\<open>internal/server/database/volume.go\<close>) and
  the service that keeps a directory for each row (\<open>internal/server/service/volume.go\<close>).

  The directory that holds the volumes is a map from the names of its entries to directories, each with the
  nine permission bits and the three special ones, its owner and its files. Which system call fails is an
  argument. User and group identifiers are the 32-bit words of the kernel, where the greatest one asks
  \<open>chown\<close> to leave the identifier as it is.
\<close>

section \<open>The document\<close>

record manifest_Volume =
  vom_Version :: string
  vom_Name :: string
  vom_Labels :: string_map
  vom_Owner :: string
  vom_Mode :: string

text \<open>\<open>^[0-9]+(:[0-9]+)?$\<close>\<close>

definition is_digit :: "char \<Rightarrow> bool" where
  "is_digit c \<longleftrightarrow> digit_of c \<noteq> None"

definition ownerPattern :: "string \<Rightarrow> bool" where
  "ownerPattern s = (case Cut s (CHR '':'') of
       (uid, gid, found) \<Rightarrow> uid \<noteq> [] \<and> list_all is_digit uid \<and> (found \<longrightarrow> gid \<noteq> [] \<and> list_all is_digit gid))"

text \<open>\<open>strconv.ParseUint\<close> in base ten and eight, into 32 bits.\<close>

fun read_octal :: "string \<Rightarrow> nat \<Rightarrow> nat option" where
  "read_octal [] acc = Some acc"
| "read_octal (c # cs) acc = (case digit_of c of
       None \<Rightarrow> None | Some d \<Rightarrow> if 8 \<le> d then None else read_octal cs (8 * acc + d))"

definition ParseUint10 :: "string \<Rightarrow> nat option" where
  "ParseUint10 s = (case read_nat s of None \<Rightarrow> None | Some n \<Rightarrow> if n < 2 ^ 32 then Some n else None)"

definition ParseUint8 :: "string \<Rightarrow> nat option" where
  "ParseUint8 s = (if s = [] then None else case read_octal s 0 of
       None \<Rightarrow> None | Some n \<Rightarrow> if n < 2 ^ 32 then Some n else None)"

definition owner_parts :: "string \<Rightarrow> string list" where
  "owner_parts s = (case Cut s (CHR '':'') of (uid, gid, found) \<Rightarrow> if found then [uid, gid] else [uid])"

definition validateOwner :: "string \<Rightarrow> goerr option" where
  "validateOwner owner =
     (if owner = [] then None
      else first_err
        (refuse (\<not> ownerPattern owner) ''invalid volume: owner %q must be a numeric uid or uid:gid''
         # map (\<lambda>part. refuse (ParseUint10 part = None)
             ''invalid volume: owner %q is not an identifier the host can hold'') (owner_parts owner)))"

definition validateMode :: "string \<Rightarrow> goerr option" where
  "validateMode mode =
     (if mode = [] then None
      else refuse (ParseUint8 mode = None \<or> length mode > 4) ''invalid volume: mode %q must be an octal mode'')"

definition ValidateVolume :: "manifest_Volume \<Rightarrow> goerr option" where
  "ValidateVolume volume = first_err
     [validateHeader (vom_Version volume) (vom_Name volume), ValidateLabels (vom_Labels volume),
      validateOwner (vom_Owner volume), validateMode (vom_Mode volume)]"

definition ParseVolume :: "goerr + manifest_Volume \<Rightarrow> goerr + manifest_Volume" where
  "ParseVolume decoded = (case decoded of
       Inl e \<Rightarrow> Inl (Wrapf ''failed to parse manifest'' [e])
     | Inr volume \<Rightarrow> (case ValidateVolume volume of Some e \<Rightarrow> Inl e | None \<Rightarrow> Inr volume))"

section \<open>The table\<close>

record database_Volume =
  dbv_ID :: string
  dbv_Name :: string
  dbv_Labels :: string_map
  dbv_Owner :: string
  dbv_Mode :: string
  dbv_Version :: int
  dbv_CreatedAt :: time
  dbv_UpdatedAt :: time

datatype volume_error =
    Db_ErrVolumeNotFound
  | Db_ErrVolumeChanged
  | Volume_Constraint
  | Vol_ErrVolumeNotFound
  | ErrVolumeInUse "string list"
  | ErrInvalidVolume
  | ErrVolumeChanged
  | Directory_Failed
  | Volume_Db_Failed

definition volumes_Get :: "string \<Rightarrow> database_Volume list \<Rightarrow> volume_error + database_Volume" where
  "volumes_Get name t = (case find (\<lambda>v. dbv_Name v = name) t of
       None \<Rightarrow> Inl Db_ErrVolumeNotFound | Some v \<Rightarrow> Inr v)"

definition unchangedVolume :: "database_Volume \<Rightarrow> database_Volume \<Rightarrow> bool" where
  "unchangedVolume existing incoming \<longleftrightarrow> dbv_Owner existing = dbv_Owner incoming
     \<and> dbv_Mode existing = dbv_Mode incoming \<and> maps_Equal (dbv_Labels existing) (dbv_Labels incoming)"

definition insertVolume ::
  "string \<Rightarrow> time \<Rightarrow> database_Volume \<Rightarrow> database_Volume list \<Rightarrow> (volume_error + database_Volume) \<times> database_Volume list" where
  "insertVolume newid now volume t =
     (let stored = volume\<lparr>dbv_ID := newid, dbv_Version := 1, dbv_CreatedAt := now, dbv_UpdatedAt := now\<rparr>
      in if newid \<in> dbv_ID ` set t then (Inl Volume_Constraint, t) else (Inr stored, t @ [stored]))"

definition updateVolume ::
  "time \<Rightarrow> database_Volume \<Rightarrow> database_Volume \<Rightarrow> database_Volume list \<Rightarrow> database_Volume \<times> database_Volume list" where
  "updateVolume now volume existing t =
     (let stored = volume\<lparr>dbv_ID := dbv_ID existing, dbv_Version := dbv_Version existing + 1,
            dbv_CreatedAt := dbv_CreatedAt existing, dbv_UpdatedAt := now\<rparr>
      in (stored, map (\<lambda>v. if dbv_Name v = dbv_Name volume then stored else v) t))"

definition volumes_Upsert ::
  "string \<Rightarrow> time \<Rightarrow> database_Volume \<Rightarrow> int \<Rightarrow> database_Volume list
     \<Rightarrow> (volume_error + database_Volume \<times> bool) \<times> database_Volume list" where
  "volumes_Upsert newid now volume ifMatch t = (case volumes_Get (dbv_Name volume) t of
       Inl e \<Rightarrow>
         if ifMatch \<noteq> 0 then (Inl e, t)
         else (case insertVolume newid now volume t of
                 (Inl e', t') \<Rightarrow> (Inl e', t') | (Inr stored, t') \<Rightarrow> (Inr (stored, True), t'))
     | Inr existing \<Rightarrow>
         if ifMatch \<noteq> 0 \<and> dbv_Version existing \<noteq> ifMatch then (Inl Db_ErrVolumeChanged, t)
         else if unchangedVolume existing volume then (Inr (existing, False), t)
         else (case updateVolume now volume existing t of (stored, t') \<Rightarrow> (Inr (stored, False), t')))"

definition volumes_Delete :: "string \<Rightarrow> database_Volume list \<Rightarrow> volume_error option \<times> database_Volume list" where
  "volumes_Delete name t =
     (if name \<notin> dbv_Name ` set t then (Some Db_ErrVolumeNotFound, t)
      else (None, filter (\<lambda>v. dbv_Name v \<noteq> name) t))"

text \<open>The workloads whose stored specification mounts the volume, those being deleted included.\<close>

definition volumes_UsedBy :: "(string \<Rightarrow> goerr + Spec) \<Rightarrow> string \<Rightarrow> database \<Rightarrow> string list" where
  "volumes_UsedBy unmarshal name db = sort (map row_Name (filter (\<lambda>w. case unmarshal (row_Spec w) of
       Inl e \<Rightarrow> False | Inr spec \<Rightarrow> name \<in> mnt_Name ` set (spec_Volumes spec)) (db_workloads db)))"

section \<open>Directories\<close>

record directory =
  dir_Mode :: nat
  dir_UID :: "32 word"
  dir_GID :: "32 word"
  dir_Files :: "string list"

type_synonym directories = "string \<rightharpoonup> directory"

text \<open>Which calls fail, what is left of a directory whose removal fails, and the identity of the server.\<close>

record volume_env =
  vn_mkdir :: bool
  vn_chmod :: bool
  vn_chown :: bool
  vn_remove :: bool
  vn_left :: "string list"
  vn_delete :: bool
  vn_uid :: "32 word"
  vn_gid :: "32 word"

definition MkdirAll :: "volume_env \<Rightarrow> string \<Rightarrow> directories \<Rightarrow> bool \<times> directories" where
  "MkdirAll env path ds =
     (if vn_mkdir env then (False, ds)
      else (True, if ds path = None then ds(path \<mapsto> \<lparr>dir_Mode = 448, dir_UID = vn_uid env, dir_GID = vn_gid env,
                    dir_Files = []\<rparr>) else ds))"

text \<open>
  Go keeps the special bits of a file mode apart from the permission bits: converting a number to a mode
  and giving it to \<open>Chmod\<close> sets the low nine bits and clears the special ones.
\<close>

definition Chmod :: "volume_env \<Rightarrow> string \<Rightarrow> nat \<Rightarrow> directories \<Rightarrow> bool \<times> directories" where
  "Chmod env path mode ds =
     (if vn_chmod env then (False, ds)
      else (True, ds(path := map_option (\<lambda>d. d\<lparr>dir_Mode := mode mod 512\<rparr>) (ds path))))"

text \<open>The identifiers are Go integers, of which the kernel reads 32 bits.\<close>

definition new_id :: "int \<Rightarrow> 32 word \<Rightarrow> 32 word" where
  "new_id i old = (if (word_of_int i :: 32 word) = - 1 then old else word_of_int i)"

definition Chown :: "volume_env \<Rightarrow> string \<Rightarrow> int \<Rightarrow> int \<Rightarrow> directories \<Rightarrow> bool \<times> directories" where
  "Chown env path uid gid ds =
     (if vn_chown env then (False, ds)
      else (True, ds(path := map_option (\<lambda>d. d\<lparr>dir_UID := new_id uid (dir_UID d), dir_GID := new_id gid (dir_GID d)\<rparr>)
                              (ds path))))"

definition RemoveAll :: "volume_env \<Rightarrow> string \<Rightarrow> directories \<Rightarrow> bool \<times> directories" where
  "RemoveAll env path ds =
     (if vn_remove env then (False, ds(path := map_option
        (\<lambda>d. d\<lparr>dir_Files := filter (\<lambda>f. f \<in> set (vn_left env)) (dir_Files d)\<rparr>) (ds path)))
      else (True, ds(path := None)))"

section \<open>The service\<close>

record volume_state =
  vs_rows :: "database_Volume list"
  vs_dirs :: directories

definition ownerIDs :: "string \<Rightarrow> volume_error + int \<times> int" where
  "ownerIDs owner = (case Cut owner (CHR '':'') of
       (uidPart, gidPart, hasGroup) \<Rightarrow> (case Atoi uidPart of
           None \<Rightarrow> Inl ErrInvalidVolume
         | Some uid \<Rightarrow>
             if \<not> hasGroup then Inr (uid, - 1)
             else (case Atoi gidPart of None \<Rightarrow> Inl ErrInvalidVolume | Some gid \<Rightarrow> Inr (uid, gid))))"

definition validateOwnership :: "string \<Rightarrow> string \<Rightarrow> volume_error option" where
  "validateOwnership owner mode =
     (if owner \<noteq> [] \<and> isl (ownerIDs owner) then Some ErrInvalidVolume
      else if mode \<noteq> [] \<and> ParseUint8 mode = None then Some ErrInvalidVolume
      else None)"

definition idPattern :: "string \<Rightarrow> bool" where
  "idPattern i \<longleftrightarrow> length i = 20 \<and> list_all (\<lambda>c. is_digit c \<or> c \<in> set ''abcdefghijklmnopqrstuv'') i"

text \<open>The entry of the root directory that holds the volume.\<close>

definition volume_path :: "string \<Rightarrow> volume_error + string" where
  "volume_path i = (if idPattern i then Inr i else Inl ErrInvalidVolume)"

text \<open>The directory, then the mode while the server still owns it, then the owner.\<close>

definition materialise ::
  "volume_env \<Rightarrow> string \<Rightarrow> string \<Rightarrow> string \<Rightarrow> directories \<Rightarrow> volume_error option \<times> directories" where
  "materialise env path owner mode ds =
     (case MkdirAll env path ds of (made, ds1) \<Rightarrow>
        if \<not> made then (Some Directory_Failed, ds1)
        else (case (if mode = [] then (None, ds1)
                    else case ParseUint8 mode of
                        None \<Rightarrow> (Some ErrInvalidVolume, ds1)
                      | Some parsed \<Rightarrow> (case Chmod env path parsed ds1 of (ok, ds2) \<Rightarrow>
                            (if ok then None else Some Directory_Failed, ds2))) of
                (Some e, ds2) \<Rightarrow> (Some e, ds2)
              | (None, ds2) \<Rightarrow>
                  if owner = [] then (None, ds2)
                  else (case ownerIDs owner of
                      Inl e \<Rightarrow> (Some e, ds2)
                    | Inr (uid, gid) \<Rightarrow> (case Chown env path uid gid ds2 of (ok, ds3) \<Rightarrow>
                          (if ok then None else Some Directory_Failed, ds3)))))"

definition volume_row :: "manifest_Volume \<Rightarrow> database_Volume" where
  "volume_row volume = \<lparr>dbv_ID = [], dbv_Name = vom_Name volume, dbv_Labels = vom_Labels volume,
     dbv_Owner = vom_Owner volume, dbv_Mode = vom_Mode volume, dbv_Version = 0, dbv_CreatedAt = 0, dbv_UpdatedAt = 0\<rparr>"

definition VolumeService_Apply ::
  "string \<Rightarrow> time \<Rightarrow> volume_env \<Rightarrow> manifest_Volume \<Rightarrow> int \<Rightarrow> volume_state
     \<Rightarrow> (volume_error + database_Volume \<times> bool) \<times> volume_state" where
  "VolumeService_Apply newid now env volume ifMatch st =
     (if \<not> namePattern (vom_Name volume) \<or> length (vom_Name volume) > 63 \<or> ValidateLabels (vom_Labels volume) \<noteq> None
      then (Inl ErrInvalidVolume, st)
      else case validateOwnership (vom_Owner volume) (vom_Mode volume) of
        Some e \<Rightarrow> (Inl e, st)
      | None \<Rightarrow> (case volumes_Upsert newid now (volume_row volume) ifMatch (vs_rows st) of
            (Inl e, rows) \<Rightarrow>
              (Inl (if e = Db_ErrVolumeChanged \<or> e = Db_ErrVolumeNotFound then ErrVolumeChanged else e),
               st\<lparr>vs_rows := rows\<rparr>)
          | (Inr (stored, created), rows) \<Rightarrow> (case volume_path (dbv_ID stored) of
                Inl e \<Rightarrow> (Inl e, st\<lparr>vs_rows := rows\<rparr>)
              | Inr path \<Rightarrow> (case materialise env path (dbv_Owner stored) (dbv_Mode stored) (vs_dirs st) of
                    (None, ds) \<Rightarrow> (Inr (stored, created), \<lparr>vs_rows = rows, vs_dirs = ds\<rparr>)
                  | (Some e, ds) \<Rightarrow>
                      (Inl e,
                       if created
                       then \<lparr>vs_rows = (if vn_delete env then rows else snd (volumes_Delete (vom_Name volume) rows)),
                             vs_dirs = snd (RemoveAll env path ds)\<rparr>
                       else \<lparr>vs_rows = rows, vs_dirs = ds\<rparr>)))))"

definition VolumeService_Delete ::
  "volume_env \<Rightarrow> string list \<Rightarrow> string \<Rightarrow> bool \<Rightarrow> volume_state \<Rightarrow> volume_error option \<times> volume_state" where
  "VolumeService_Delete env usedBy name force st = (case volumes_Get name (vs_rows st) of
       Inl e \<Rightarrow> (Some Vol_ErrVolumeNotFound, st)
     | Inr stored \<Rightarrow>
         if usedBy \<noteq> [] \<and> \<not> force then (Some (ErrVolumeInUse usedBy), st)
         else (case volume_path (dbv_ID stored) of
             Inl e \<Rightarrow> (Some e, st)
           | Inr path \<Rightarrow> (case RemoveAll env path (vs_dirs st) of
                 (removed, ds) \<Rightarrow>
                   if \<not> removed then (Some Directory_Failed, st\<lparr>vs_dirs := ds\<rparr>)
                   else if vn_delete env then (Some Volume_Db_Failed, st\<lparr>vs_dirs := ds\<rparr>)
                   else (case volumes_Delete name (vs_rows st) of
                       (err, rows) \<Rightarrow> (err, \<lparr>vs_rows = rows, vs_dirs = ds\<rparr>)))))"

text \<open>The delete as it is asked for, with the workloads that mount the volume read from the database.\<close>

definition volume_Delete ::
  "(string \<Rightarrow> goerr + Spec) \<Rightarrow> volume_env \<Rightarrow> database \<Rightarrow> string \<Rightarrow> bool \<Rightarrow> volume_state
     \<Rightarrow> volume_error option \<times> volume_state" where
  "volume_Delete unmarshal env db name force st =
     VolumeService_Delete env (volumes_UsedBy unmarshal name db) name force st"

definition volume_Path :: "string \<Rightarrow> volume_state \<Rightarrow> volume_error + string" where
  "volume_Path name st = (case volumes_Get name (vs_rows st) of
       Inl e \<Rightarrow> Inl Vol_ErrVolumeNotFound | Inr stored \<Rightarrow> volume_path (dbv_ID stored))"

end
