(* ===== verification/Volume_Properties.thy ===== *)
theory Volume_Properties
  imports Volumes
begin

text \<open>
  What is kept of a volume: the data in it is destroyed by deleting it and by nothing else, whatever fails
  and wherever the server stops; and what an apply makes of its mode and its owner.
\<close>

section \<open>Looking rows up\<close>

lemma find_row_replaced:
  "key stored = n \<Longrightarrow> find (\<lambda>x. key x = k) (map (\<lambda>x. if key x = n then stored else x) t)
    = (if k = n then (if n \<in> key ` set t then Some stored else None) else find (\<lambda>x. key x = k) t)"
  by (induction t) auto

lemma find_row_appended:
  "find (\<lambda>x. key x = k) (t @ [stored])
    = (case find (\<lambda>x. key x = k) t of None \<Rightarrow> if key stored = k then Some stored else None | Some x \<Rightarrow> Some x)"
  by (induction t) auto

lemma find_row_removed:
  "find (\<lambda>x. key x = k) (filter (\<lambda>x. key x \<noteq> n) t) = (if k = n then None else find (\<lambda>x. key x = k) t)"
  by (induction t) auto

lemma find_key: "find (\<lambda>x. key x = k) t = Some x \<Longrightarrow> key x = k \<and> x \<in> set t \<and> k \<in> key ` set t"
  by (auto dest: find_SomeD)

section \<open>Rows\<close>

definition rows_ok :: "database_Volume list \<Rightarrow> bool" where
  "rows_ok t \<longleftrightarrow> distinct (map dbv_Name t) \<and> distinct (map dbv_ID t)"

lemma volumes_Get_Inr: "volumes_Get name t = Inr v \<Longrightarrow> v \<in> set t \<and> dbv_Name v = name"
  by (auto simp: volumes_Get_def split: option.splits dest: find_SomeD)

lemma volumes_Get_in: "rows_ok t \<Longrightarrow> v \<in> set t \<Longrightarrow> volumes_Get (dbv_Name v) t = Inr v"
  by (induction t) (auto simp: volumes_Get_def rows_ok_def image_iff)

lemma same_ID: "rows_ok t \<Longrightarrow> v \<in> set t \<Longrightarrow> w \<in> set t \<Longrightarrow> dbv_ID v = dbv_ID w \<Longrightarrow> v = w"
  by (auto simp: rows_ok_def distinct_map dest: inj_onD)

lemma volumes_Upsert_refused: "volumes_Upsert newid now v ifMatch t = (Inl e, t') \<Longrightarrow> t' = t"
  by (auto simp: volumes_Upsert_def insertVolume_def updateVolume_def Let_def split: sum.splits if_splits)

lemma volumes_Upsert_effect:
  assumes "volumes_Upsert newid now v ifMatch t = (Inr (stored, created), t')"
  shows "(\<forall>name. volumes_Get name t' = (if name = dbv_Name v then Inr stored else volumes_Get name t))
    \<and> dbv_Name stored = dbv_Name v \<and> dbv_Owner stored = dbv_Owner v \<and> dbv_Mode stored = dbv_Mode v
    \<and> (created \<longleftrightarrow> (\<forall>old. volumes_Get (dbv_Name v) t \<noteq> Inr old))
    \<and> (created \<longrightarrow> dbv_ID stored = newid)
    \<and> (\<forall>old. volumes_Get (dbv_Name v) t = Inr old \<longrightarrow> dbv_ID stored = dbv_ID old)"
proof (cases "volumes_Get (dbv_Name v) t")
  case (Inl e)
  then show ?thesis
    using assms
    by (auto simp: volumes_Upsert_def insertVolume_def volumes_Get_def Let_def find_row_appended
        split: if_splits option.splits)
next
  case (Inr old)
  note found = volumes_Get_Inr [OF Inr]
  show ?thesis
  proof (cases "unchangedVolume old v")
    case True
    then show ?thesis
      using assms Inr found by (auto simp: volumes_Upsert_def unchangedVolume_def split: if_splits)
  next
    case False
    then have stored: "\<not> created" "dbv_Name stored = dbv_Name v" "dbv_Owner stored = dbv_Owner v"
      "dbv_Mode stored = dbv_Mode v" "dbv_ID stored = dbv_ID old"
      and t': "t' = map (\<lambda>x. if dbv_Name x = dbv_Name v then stored else x) t"
      using assms Inr by (auto simp: volumes_Upsert_def updateVolume_def Let_def split: if_splits)
    have "dbv_Name v \<in> dbv_Name ` set t" using found by (metis image_eqI)
    then have "volumes_Get name t' = (if name = dbv_Name v then Inr stored else volumes_Get name t)" for name
      unfolding t' volumes_Get_def by (simp add: find_row_replaced [of dbv_Name, OF stored(2)])
    then show ?thesis using stored Inr by simp
  qed
qed

lemma volumes_Upsert_ok:
  assumes "volumes_Upsert newid now v ifMatch t = (a, t')" "rows_ok t"
  shows "rows_ok t'"
proof (cases "volumes_Get (dbv_Name v) t")
  case (Inl e)
  then have "dbv_Name v \<notin> dbv_Name ` set t" by (auto simp: volumes_Get_def find_None_iff split: option.splits)
  then show ?thesis
    using assms Inl
    by (auto simp: volumes_Upsert_def insertVolume_def rows_ok_def Let_def split: if_splits)
next
  case (Inr old)
  have id: "dbv_ID x = dbv_ID old" if "x \<in> set t" "dbv_Name x = dbv_Name v" for x
    using volumes_Get_in [OF assms(2) that(1)] that(2) Inr by simp
  have same: "rows_ok (map (\<lambda>x. if dbv_Name x = dbv_Name v then s else x) t)"
    if "dbv_Name s = dbv_Name v" "dbv_ID s = dbv_ID old" for s
  proof -
    have "map dbv_Name (map (\<lambda>x. if dbv_Name x = dbv_Name v then s else x) t) = map dbv_Name t"
      "map dbv_ID (map (\<lambda>x. if dbv_Name x = dbv_Name v then s else x) t) = map dbv_ID t"
      using that id by auto
    then show ?thesis using assms(2) by (simp only: rows_ok_def)
  qed
  then show ?thesis
    using assms Inr
    by (auto simp: volumes_Upsert_def updateVolume_def Let_def split: if_splits)
qed

lemma volumes_Delete_Get:
  "volumes_Get name (snd (volumes_Delete n t)) = (if name = n then Inl Db_ErrVolumeNotFound else volumes_Get name t)"
proof (cases "n \<in> dbv_Name ` set t")
  case False
  then have "find (\<lambda>v. dbv_Name v = n) t = None" by (auto simp: find_None_iff)
  then show ?thesis using False by (simp add: volumes_Delete_def volumes_Get_def)
next
  case True
  then show ?thesis by (simp add: volumes_Delete_def volumes_Get_def find_row_removed)
qed

lemma volumes_Delete_ok: "rows_ok t \<Longrightarrow> rows_ok (snd (volumes_Delete n t))"
  by (auto simp: volumes_Delete_def rows_ok_def distinct_map_filter)

section \<open>Directories\<close>

text \<open>Two states of a directory that hold the same files.\<close>

definition same_data :: "directory option \<Rightarrow> directory option \<Rightarrow> bool" where
  "same_data a b \<longleftrightarrow> (\<forall>d. a = Some d \<longrightarrow> (\<exists>d'. b = Some d' \<and> dir_Files d' = dir_Files d))"

lemma same_data_refl [simp]: "same_data a a"
  by (simp add: same_data_def)

lemma same_data_trans: "same_data a b \<Longrightarrow> same_data b c \<Longrightarrow> same_data a c"
  unfolding same_data_def by metis

lemma MkdirAll_keeps: "same_data (ds p) (snd (MkdirAll env path ds) p)"
  by (auto simp: same_data_def MkdirAll_def)

lemma Chmod_keeps: "same_data (ds p) (snd (Chmod env path mode ds) p)"
  by (auto simp: same_data_def Chmod_def)

lemma Chown_keeps: "same_data (ds p) (snd (Chown env path uid gid ds) p)"
  by (auto simp: same_data_def Chown_def)

lemma materialise_calls:
  "\<exists>ds1 ds2. ds1 = snd (MkdirAll env path ds) \<and> (ds2 = ds1 \<or> (\<exists>n. ds2 = snd (Chmod env path n ds1)))
    \<and> (snd (materialise env path owner mode ds) = ds2
      \<or> (\<exists>uid gid. snd (materialise env path owner mode ds) = snd (Chown env path uid gid ds2)))"
proof -
  let ?ds1 = "snd (MkdirAll env path ds)"
  let ?m = "snd (materialise env path owner mode ds)"
  have "?m = ?ds1 \<or> (\<exists>n. ?m = snd (Chmod env path n ?ds1)) \<or> (\<exists>uid gid. ?m = snd (Chown env path uid gid ?ds1))
      \<or> (\<exists>n uid gid. ?m = snd (Chown env path uid gid (snd (Chmod env path n ?ds1))))"
    by (cases "mode = []"; cases "owner = []"; cases "ParseUint8 mode"; cases "ownerIDs owner";
        simp add: materialise_def split_def) blast+
  then show ?thesis by blast
qed

lemma materialise_other: "p \<noteq> path \<Longrightarrow> snd (materialise env path owner mode ds) p = ds p"
  using materialise_calls [of env path ds owner mode] by (auto simp: MkdirAll_def Chmod_def Chown_def)

lemma materialise_keeps_data: "same_data (ds p) (snd (materialise env path owner mode ds) p)"
  using materialise_calls [of env path ds owner mode] MkdirAll_keeps Chmod_keeps Chown_keeps same_data_trans by metis

section \<open>What an apply and a delete come to\<close>

lemma VolumeService_Apply_cases:
  assumes "VolumeService_Apply newid now env volume ifMatch st = (a, st')"
  obtains "st' = st"
  | stored created rows ds where
      "volumes_Upsert newid now (volume_row volume) ifMatch (vs_rows st) = (Inr (stored, created), rows)"
      "st' = \<lparr>vs_rows = rows, vs_dirs = ds\<rparr>"
      "ds = vs_dirs st \<or> ds = snd (materialise env (dbv_ID stored) (dbv_Owner stored) (dbv_Mode stored) (vs_dirs st))"
  | stored rows rows' where
      "volumes_Upsert newid now (volume_row volume) ifMatch (vs_rows st) = (Inr (stored, True), rows)"
      "rows' = rows \<or> rows' = snd (volumes_Delete (vom_Name volume) rows)"
      "st' = \<lparr>vs_rows = rows', vs_dirs = snd (RemoveAll env (dbv_ID stored)
         (snd (materialise env (dbv_ID stored) (dbv_Owner stored) (dbv_Mode stored) (vs_dirs st))))\<rparr>"
proof (cases "volumes_Upsert newid now (volume_row volume) ifMatch (vs_rows st)")
  case (Pair r rows)
  note up = this
  have same: "st\<lparr>vs_rows := rows\<rparr> = \<lparr>vs_rows = rows, vs_dirs = vs_dirs st\<rparr>" by (cases st) simp
  show ?thesis
  proof (cases r)
    case (Inl e)
    then have "rows = vs_rows st" using volumes_Upsert_refused up by blast
    then have "st' = st"
      using assms up Inl by (auto simp: VolumeService_Apply_def split: if_splits option.splits)
    then show ?thesis by (rule that(1))
  next
    case (Inr p)
    obtain stored created where p: "p = (stored, created)" by (cases p)
    obtain err ds where mat: "materialise env (dbv_ID stored) (dbv_Owner stored) (dbv_Mode stored) (vs_dirs st) = (err, ds)"
      by (cases "materialise env (dbv_ID stored) (dbv_Owner stored) (dbv_Mode stored) (vs_dirs st)")
    have "st' = st \<or> st' = \<lparr>vs_rows = rows, vs_dirs = vs_dirs st\<rparr> \<or> st' = \<lparr>vs_rows = rows, vs_dirs = ds\<rparr>
       \<or> created \<and> st' = \<lparr>vs_rows = (if vn_delete env then rows else snd (volumes_Delete (vom_Name volume) rows)),
           vs_dirs = snd (RemoveAll env (dbv_ID stored) ds)\<rparr>"
      using assms up Inr p mat
      by (simp add: VolumeService_Apply_def volume_path_def same split: if_splits option.splits)
    then show ?thesis
      using that(1) that(2) [of stored created rows] that(3) [of stored rows] up Inr p mat
      by (cases "vn_delete env") auto
  qed
qed

section \<open>The life of the volumes\<close>

text \<open>
  A step is an apply, an apply that the server did not live to finish, a delete, or a write by a workload that
  has the directory mounted. What a call does when it fails is part of \<open>volume_env\<close>, so a delete that is cut
  short is a delete whose later calls fail.
\<close>

datatype volume_label = Volume_Applied string | Volume_Deleted string | Volume_Written string

inductive volume_step :: "volume_state \<Rightarrow> volume_label \<Rightarrow> volume_state \<Rightarrow> bool" where
  applied: "idPattern newid \<Longrightarrow> VolumeService_Apply newid now env volume ifMatch st = (a, st')
    \<Longrightarrow> volume_step st (Volume_Applied (vom_Name volume)) st'"
| stopped: "idPattern newid
    \<Longrightarrow> volumes_Upsert newid now (volume_row volume) ifMatch (vs_rows st) = (Inr (stored, created), rows)
    \<Longrightarrow> materialise env (dbv_ID stored) (dbv_Owner stored) (dbv_Mode stored) (vs_dirs st) = (err, ds)
    \<Longrightarrow> volume_step st (Volume_Applied (vom_Name volume)) \<lparr>vs_rows = rows, vs_dirs = ds\<rparr>"
| deleted: "VolumeService_Delete env usedBy name force st = (err, st') \<Longrightarrow> volume_step st (Volume_Deleted name) st'"
| written: "vs_dirs st i = Some d
    \<Longrightarrow> volume_step st (Volume_Written i) (st\<lparr>vs_dirs := (vs_dirs st)(i \<mapsto> d\<lparr>dir_Files := files\<rparr>)\<rparr>)"

inductive volume_run :: "volume_state \<Rightarrow> volume_label list \<Rightarrow> volume_state \<Rightarrow> bool" where
  run_nil: "volume_run st [] st"
| run_step: "volume_step st l st1 \<Longrightarrow> volume_run st1 ls st2 \<Longrightarrow> volume_run st (l # ls) st2"

inductive_cases volume_run_cons: "volume_run st (l # ls) st'"

definition no_volumes :: volume_state where
  "no_volumes = \<lparr>vs_rows = [], vs_dirs = Map.empty\<rparr>"

text \<open>A volume and what its directory holds are as they were.\<close>

definition volume_kept :: "string \<Rightarrow> string \<Rightarrow> string list \<Rightarrow> volume_state \<Rightarrow> bool" where
  "volume_kept name i files st \<longleftrightarrow> (\<exists>v d. volumes_Get name (vs_rows st) = Inr v \<and> dbv_ID v = i
     \<and> vs_dirs st i = Some d \<and> dir_Files d = files)"

lemma RemoveAll_other: "p \<noteq> path \<Longrightarrow> snd (RemoveAll env path ds) p = ds p"
  by (simp add: RemoveAll_def)

lemma kept_by_dirs:
  assumes "volume_kept name i files st" "volumes_Get name rows = Inr v" "dbv_ID v = i" "same_data (vs_dirs st i) (ds i)"
  shows "volume_kept name i files \<lparr>vs_rows = rows, vs_dirs = ds\<rparr>"
  using assms by (fastforce simp: volume_kept_def same_data_def)

lemma upsert_keeps_row:
  assumes "rows_ok t" "volumes_Get name t = Inr v" "volumes_Upsert newid now w ifMatch t = (Inr (stored, created), t')"
  shows "(\<exists>v'. volumes_Get name t' = Inr v' \<and> dbv_ID v' = dbv_ID v) \<and> (created \<longrightarrow> name \<noteq> dbv_Name w \<and> dbv_ID v \<noteq> dbv_ID stored)"
proof -
  note eff = volumes_Upsert_effect [OF assms(3)]
  have "dbv_ID v \<noteq> newid" if "created"
    using that assms(2,3) volumes_Get_Inr [OF assms(2)]
    by (auto simp: volumes_Upsert_def insertVolume_def Let_def split: sum.splits if_splits prod.splits)
  then show ?thesis using eff assms(2) by (cases "name = dbv_Name w") auto
qed

lemma volume_step_ok: "volume_step st l st' \<Longrightarrow> rows_ok (vs_rows st) \<Longrightarrow> rows_ok (vs_rows st')"
proof (induction rule: volume_step.induct)
  case (applied newid now env volume ifMatch st a st')
  from applied(2) show ?case
    by (rule VolumeService_Apply_cases) (use applied(3) volumes_Upsert_ok volumes_Delete_ok in auto)
next
  case (stopped newid now volume ifMatch st stored created rows env err ds)
  then show ?case using volumes_Upsert_ok by auto
next
  case (deleted env usedBy name force st err st')
  then have "vs_rows st' = vs_rows st \<or> vs_rows st' = snd (volumes_Delete name (vs_rows st))"
    by (auto simp: VolumeService_Delete_def split: sum.splits if_splits prod.splits)
  then show ?case using deleted(2) volumes_Delete_ok by metis
qed simp

lemma volume_step_keeps:
  "volume_step st l st' \<Longrightarrow> rows_ok (vs_rows st) \<Longrightarrow> volume_kept name i files st \<Longrightarrow> l \<noteq> Volume_Deleted name
    \<Longrightarrow> l \<noteq> Volume_Written i \<Longrightarrow> volume_kept name i files st'"
proof (induction rule: volume_step.induct)
  case (applied newid now env volume ifMatch st a st')
  obtain v where v: "volumes_Get name (vs_rows st) = Inr v" "dbv_ID v = i"
    using applied(4) by (auto simp: volume_kept_def)
  from applied(2) show ?case
  proof (rule VolumeService_Apply_cases)
    fix stored created rows ds
    assume up: "volumes_Upsert newid now (volume_row volume) ifMatch (vs_rows st) = (Inr (stored, created), rows)"
      and st': "st' = \<lparr>vs_rows = rows, vs_dirs = ds\<rparr>"
      and ds: "ds = vs_dirs st \<or> ds = snd (materialise env (dbv_ID stored) (dbv_Owner stored) (dbv_Mode stored) (vs_dirs st))"
    show "volume_kept name i files st'"
      using kept_by_dirs [OF applied(4)] upsert_keeps_row [OF applied(3) v(1) up] v(2) ds st' materialise_keeps_data by auto
  next
    fix stored rows rows'
    assume up: "volumes_Upsert newid now (volume_row volume) ifMatch (vs_rows st) = (Inr (stored, True), rows)"
      and rows': "rows' = rows \<or> rows' = snd (volumes_Delete (vom_Name volume) rows)"
      and st': "st' = \<lparr>vs_rows = rows', vs_dirs = snd (RemoveAll env (dbv_ID stored)
         (snd (materialise env (dbv_ID stored) (dbv_Owner stored) (dbv_Mode stored) (vs_dirs st))))\<rparr>"
    obtain v' where v': "volumes_Get name rows = Inr v'" "dbv_ID v' = i" and other: "name \<noteq> vom_Name volume" "i \<noteq> dbv_ID stored"
      using upsert_keeps_row [OF applied(3) v(1) up] v(2) by (auto simp: volume_row_def)
    have "volumes_Get name rows' = Inr v'" using rows' v'(1) other(1) by (auto simp: volumes_Delete_Get)
    then show "volume_kept name i files st'"
      unfolding st' using kept_by_dirs [OF applied(4) _ v'(2)] other(2) by (simp add: RemoveAll_other materialise_other)
  qed (use applied(4) in simp)
next
  case (stopped newid now volume ifMatch st stored created rows env err ds)
  obtain v where v: "volumes_Get name (vs_rows st) = Inr v" "dbv_ID v = i"
    using stopped(5) by (auto simp: volume_kept_def)
  show ?case
    using kept_by_dirs [OF stopped(5)] upsert_keeps_row [OF stopped(4) v(1) stopped(2)] v(2) stopped(3) materialise_keeps_data
    by (metis snd_conv)
next
  case (deleted env usedBy n force st err st')
  obtain v where v: "volumes_Get name (vs_rows st) = Inr v" "dbv_ID v = i"
    using deleted(3) by (auto simp: volume_kept_def)
  have other: "name \<noteq> n" using deleted(4) by auto
  show ?case
  proof (cases "volumes_Get n (vs_rows st)")
    case (Inr w)
    have "dbv_ID w \<noteq> i"
      using same_ID [OF deleted(2)] volumes_Get_Inr [OF Inr] volumes_Get_Inr [OF v(1)] v(2) other by metis
    moreover have "\<exists>rows. volumes_Get name rows = Inr v \<and> (st' = st \<or> st' = \<lparr>vs_rows = rows, vs_dirs = snd (RemoveAll env (dbv_ID w) (vs_dirs st))\<rparr>)"
    proof -
      have "st' = st \<or> (\<exists>rows. (rows = vs_rows st \<or> rows = snd (volumes_Delete n (vs_rows st)))
          \<and> st' = \<lparr>vs_rows = rows, vs_dirs = snd (RemoveAll env (dbv_ID w) (vs_dirs st))\<rparr>)"
        using deleted(1) Inr
        by (cases st) (auto simp: VolumeService_Delete_def volume_path_def split: if_splits prod.splits)
      then show ?thesis using v(1) other volumes_Delete_Get [of name n "vs_rows st"] by auto
    qed
    ultimately show ?thesis using deleted(3) kept_by_dirs [OF deleted(3) _ v(2)] by (auto simp: RemoveAll_other)
  qed (use deleted(1,3) in \<open>auto simp: VolumeService_Delete_def\<close>)
next
  case (written st j d fs)
  then show ?case by (auto simp: volume_kept_def)
qed

lemma volume_run_ok: "volume_run st ls st' \<Longrightarrow> rows_ok (vs_rows st) \<Longrightarrow> rows_ok (vs_rows st')"
  by (induction rule: volume_run.induct) (auto dest: volume_step_ok)

lemma volume_run_keeps:
  "volume_run st ls st' \<Longrightarrow> rows_ok (vs_rows st) \<Longrightarrow> volume_kept name i files st \<Longrightarrow> Volume_Deleted name \<notin> set ls
    \<Longrightarrow> Volume_Written i \<notin> set ls \<Longrightarrow> volume_kept name i files st'"
  by (induction rule: volume_run.induct) (auto dest: volume_step_ok volume_step_keeps)

section \<open>What a successful apply leaves\<close>

lemma materialise_effect:
  assumes "materialise env path owner mode ds = (None, ds')"
  shows "\<exists>d. ds' path = Some d \<and> (mode \<noteq> [] \<longrightarrow> (\<exists>n. ParseUint8 mode = Some n \<and> dir_Mode d = n mod 512))
    \<and> (owner \<noteq> [] \<longrightarrow> (\<exists>uid gid u g. ownerIDs owner = Inr (uid, gid) \<and> dir_UID d = new_id uid u \<and> dir_GID d = new_id gid g))
    \<and> (ds path = None \<longrightarrow> dir_Files d = [])"
proof -
  obtain made ds1 where m: "MkdirAll env path ds = (made, ds1)" by (cases "MkdirAll env path ds")
  have made: "made" using assms m by (auto simp: materialise_def split: if_splits)
  then obtain d1 where d1: "ds1 path = Some d1" "ds path = None \<longrightarrow> dir_Files d1 = []"
    using m by (auto simp: MkdirAll_def split: if_splits)
  obtain ds2 d2 where d2: "ds2 path = Some d2" "dir_Files d2 = dir_Files d1"
    and mode: "mode \<noteq> [] \<longrightarrow> (\<exists>n. ParseUint8 mode = Some n \<and> dir_Mode d2 = n mod 512)"
    and rest: "(if owner = [] then (None, ds2) else case ownerIDs owner of Inl e \<Rightarrow> (Some e, ds2)
       | Inr (uid, gid) \<Rightarrow> (case Chown env path uid gid ds2 of (ok, ds3) \<Rightarrow>
           (if ok then None else Some Directory_Failed, ds3))) = (None, ds')"
  proof (cases "mode = []")
    case True
    then show ?thesis using assms m made d1 that [of ds1 d1] by (simp add: materialise_def)
  next
    case False
    then obtain n where n: "ParseUint8 mode = Some n"
      using assms m made by (cases "ParseUint8 mode") (auto simp: materialise_def)
    have "\<not> vn_chmod env"
      using assms m made False n by (auto simp: materialise_def Chmod_def)
    then show ?thesis
      using assms m made False n d1 that [of "ds1(path := map_option (\<lambda>d. d\<lparr>dir_Mode := n mod 512\<rparr>) (ds1 path))" "d1\<lparr>dir_Mode := n mod 512\<rparr>"]
      by (simp add: materialise_def Chmod_def)
  qed
  show ?thesis
  proof (cases "owner = []")
    case True
    then show ?thesis using rest d2 d1 mode by auto
  next
    case False
    obtain uid gid where ids: "ownerIDs owner = Inr (uid, gid)"
      using rest False by (cases "ownerIDs owner") auto
    have "\<not> vn_chown env" using rest False ids by (auto simp: Chown_def)
    then have "ds' = ds2(path := map_option (\<lambda>d. d\<lparr>dir_UID := new_id uid (dir_UID d), dir_GID := new_id gid (dir_GID d)\<rparr>) (ds2 path))"
      using rest False ids by (simp add: Chown_def)
    then have "ds' path = Some (d2\<lparr>dir_UID := new_id uid (dir_UID d2), dir_GID := new_id gid (dir_GID d2)\<rparr>)"
      using d2 by simp
    then show ?thesis using ids d2 d1 mode by fastforce
  qed
qed

lemma VolumeService_Apply_effect:
  assumes "VolumeService_Apply newid now env volume ifMatch st = (Inr (stored, created), st')"
  shows "volumes_Get (vom_Name volume) (vs_rows st') = Inr stored \<and> dbv_Owner stored = vom_Owner volume
    \<and> dbv_Mode stored = vom_Mode volume
    \<and> materialise env (dbv_ID stored) (vom_Owner volume) (vom_Mode volume) (vs_dirs st) = (None, vs_dirs st')"
proof -
  obtain rows where up: "volumes_Upsert newid now (volume_row volume) ifMatch (vs_rows st) = (Inr (stored, created), rows)"
    "vs_rows st' = rows"
    "materialise env (dbv_ID stored) (dbv_Owner stored) (dbv_Mode stored) (vs_dirs st) = (None, vs_dirs st')"
    using assms
    by (auto simp: VolumeService_Apply_def volume_path_def split: if_splits option.splits sum.splits prod.splits)
  then show ?thesis using volumes_Upsert_effect [OF up(1)] by (simp add: volume_row_def)
qed

lemma read_Atoi:
  assumes "read_nat s = Some n" "n < 2 ^ 32"
  shows "Atoi s = Some (int n)"
proof -
  have "s \<noteq> []" "hd s \<noteq> CHR ''-''" "hd s \<noteq> CHR ''+''"
    using assms(1) by (cases s; auto simp: read_nat_def digit_of_def)+
  then show ?thesis using assms by (cases s) (auto simp: Atoi_def Let_def)
qed

lemma ParseUint10_Atoi: "ParseUint10 s = Some n \<Longrightarrow> Atoi s = Some (int n) \<and> n < 2 ^ 32"
  by (auto simp: ParseUint10_def intro: read_Atoi split: option.splits if_splits)

lemma validateOwner_ids:
  assumes "validateOwner owner = None" "owner \<noteq> []"
  shows "\<exists>uid gid. ownerIDs owner = Inr (uid, gid) \<and> 0 \<le> uid \<and> uid < 2 ^ 32 \<and> - 1 \<le> gid \<and> gid < 2 ^ 32"
proof -
  obtain u g found where c: "Cut owner (CHR '':'') = (u, g, found)" by (cases "Cut owner (CHR '':'')")
  have parts: "\<forall>p\<in>set (owner_parts owner). ParseUint10 p \<noteq> None"
    using assms by (auto simp: validateOwner_def accepts split: if_splits)
  then obtain un where "ParseUint10 u = Some un" by (auto simp: owner_parts_def c split: if_splits)
  note uid = ParseUint10_Atoi [OF this]
  show ?thesis
  proof (cases found)
    case True
    then obtain gn where "ParseUint10 g = Some gn" using parts by (auto simp: owner_parts_def c)
    then show ?thesis using ParseUint10_Atoi uid True by (fastforce simp: ownerIDs_def c)
  qed (use uid in \<open>simp add: ownerIDs_def c\<close>)
qed

lemma new_id_word: "0 \<le> i \<Longrightarrow> i < 2 ^ 32 - 1 \<Longrightarrow> uint (new_id i old) = i"
proof -
  assume i: "0 \<le> i" "i < 2 ^ 32 - 1"
  then have "uint (word_of_int i :: 32 word) = i" by (simp add: uint_word_of_int)
  moreover have "uint (- 1 :: 32 word) = 2 ^ 32 - 1" by (simp add: unsigned_minus_1_eq_mask mask_eq_exp_minus_1)
  ultimately have "(word_of_int i :: 32 word) \<noteq> - 1" using i by auto
  then show ?thesis using \<open>uint (word_of_int i :: 32 word) = i\<close> by (simp add: new_id_def)
qed

lemma VolumeService_Apply_accepts:
  assumes "ValidateVolume volume = None"
  shows "namePattern (vom_Name volume)" "length (vom_Name volume) \<le> 63" "ValidateLabels (vom_Labels volume) = None"
    "validateOwnership (vom_Owner volume) (vom_Mode volume) = None"
proof -
  have h: "validateHeader (vom_Version volume) (vom_Name volume) = None" "ValidateLabels (vom_Labels volume) = None"
    "validateOwner (vom_Owner volume) = None" "validateMode (vom_Mode volume) = None"
    using assms by (auto simp: ValidateVolume_def accepts)
  then show "namePattern (vom_Name volume)" "length (vom_Name volume) \<le> 63" "ValidateLabels (vom_Labels volume) = None"
    by (auto simp: validateHeader_def ValidateName_def accepts)
  show "validateOwnership (vom_Owner volume) (vom_Mode volume) = None"
    using h(4) validateOwner_ids [OF h(3)] by (auto simp: validateOwnership_def validateMode_def accepts split: if_splits)
qed

lemma materialise_succeeds:
  assumes "validateOwnership owner mode = None" "\<not> vn_mkdir env" "\<not> vn_chmod env" "\<not> vn_chown env"
  shows "fst (materialise env path owner mode ds) = None"
  using assms
  by (cases "ownerIDs owner"; cases "ParseUint8 mode")
    (auto simp: validateOwnership_def materialise_def MkdirAll_def Chmod_def Chown_def split: if_splits)

lemma volumes_Upsert_IDs:
  assumes "volumes_Upsert newid now v ifMatch t = (a, t')" "x \<in> set t'"
  shows "dbv_ID x \<in> insert newid (dbv_ID ` set t)"
proof (cases "volumes_Get (dbv_Name v) t")
  case (Inl e)
  then show ?thesis
    using assms by (auto simp: volumes_Upsert_def insertVolume_def Let_def split: if_splits)
next
  case (Inr old)
  then show ?thesis
    using assms volumes_Get_Inr [OF Inr] by (auto simp: volumes_Upsert_def updateVolume_def Let_def split: if_splits)
qed

lemma volumes_Delete_set: "x \<in> set (snd (volumes_Delete n t)) \<Longrightarrow> x \<in> set t"
  by (auto simp: volumes_Delete_def split: if_splits)

lemma volume_IDs_pattern:
  "volume_step st l st' \<Longrightarrow> \<forall>v\<in>set (vs_rows st). idPattern (dbv_ID v) \<Longrightarrow> \<forall>v\<in>set (vs_rows st'). idPattern (dbv_ID v)"
proof (induction rule: volume_step.induct)
  case (applied newid now env volume ifMatch st a st')
  have up: "idPattern (dbv_ID x)"
    if "volumes_Upsert newid now (volume_row volume) ifMatch (vs_rows st) = (b, rows)" "x \<in> set rows" for b rows x
    using volumes_Upsert_IDs [OF that] applied(1,3) by auto
  from applied(2) show ?case
    by (rule VolumeService_Apply_cases) (use applied(3) up volumes_Delete_set in auto)
next
  case (stopped newid now volume ifMatch st stored created rows env err ds)
  then show ?case using volumes_Upsert_IDs [OF stopped(2)] by fastforce
next
  case (deleted env usedBy name force st err st')
  then have "vs_rows st' = vs_rows st \<or> vs_rows st' = snd (volumes_Delete name (vs_rows st))"
    by (auto simp: VolumeService_Delete_def split: sum.splits if_splits prod.splits)
  then show ?case using deleted(2) volumes_Delete_set by metis
qed simp

lemma volume_run_IDs:
  "volume_run st ls st' \<Longrightarrow> \<forall>v\<in>set (vs_rows st). idPattern (dbv_ID v) \<Longrightarrow> \<forall>v\<in>set (vs_rows st'). idPattern (dbv_ID v)"
  by (induction rule: volume_run.induct) (simp_all add: volume_IDs_pattern)

lemma reached_volumes: "volume_run no_volumes ls st \<Longrightarrow> rows_ok (vs_rows st) \<and> (\<forall>v\<in>set (vs_rows st). idPattern (dbv_ID v))"
  using volume_run_ok volume_run_IDs by (fastforce simp: no_volumes_def rows_ok_def)

lemma volumes_Upsert_accepts:
  assumes "newid \<notin> dbv_ID ` set t"
  shows "\<exists>stored created t'. volumes_Upsert newid now v 0 t = (Inr (stored, created), t')"
  using assms by (cases "volumes_Get (dbv_Name v) t") (auto simp: volumes_Upsert_def insertVolume_def Let_def split: prod.split)

lemma volume_apply_runs:
  assumes "namePattern (vom_Name volume)" "length (vom_Name volume) \<le> 63" "ValidateLabels (vom_Labels volume) = None"
    and valid: "validateOwnership (vom_Owner volume) (vom_Mode volume) = None"
    and ids: "\<forall>v\<in>set (vs_rows st). idPattern (dbv_ID v)" "idPattern newid" "newid \<notin> dbv_ID ` set (vs_rows st)"
    and calls: "\<not> vn_mkdir env" "\<not> vn_chmod env" "\<not> vn_chown env"
  shows "\<exists>stored created st'. VolumeService_Apply newid now env volume 0 st = (Inr (stored, created), st')"
proof -
  obtain stored created rows where up: "volumes_Upsert newid now (volume_row volume) 0 (vs_rows st) = (Inr (stored, created), rows)"
    using volumes_Upsert_accepts [OF ids(3)] by blast
  note eff = volumes_Upsert_effect [OF up]
  have "stored \<in> set rows" using eff volumes_Get_Inr by metis
  then have id: "idPattern (dbv_ID stored)"
    using volumes_Upsert_IDs [OF up] ids(1,2) by (metis imageE insertE)
  obtain err ds where mat: "materialise env (dbv_ID stored) (dbv_Owner stored) (dbv_Mode stored) (vs_dirs st) = (err, ds)"
    by (cases "materialise env (dbv_ID stored) (dbv_Owner stored) (dbv_Mode stored) (vs_dirs st)")
  have "err = None"
    using materialise_succeeds [OF valid calls, of "dbv_ID stored" "vs_dirs st"] mat eff by (simp add: volume_row_def)
  then show ?thesis
    using assms(1-4) up id mat by (simp add: VolumeService_Apply_def volume_path_def)
qed

section \<open>Properties\<close>

text \<open>
  C8. The data in a volume is destroyed by deleting it and by nothing else. Through any applies, of the volume
  itself or of others, whichever of their calls fail and wherever the server stops in them, and through any
  deletes of other volumes, a volume keeps its identifier, and its directory keeps its files as its
  workloads left them.
\<close>

theorem volume_data_kept:
  assumes "volume_run no_volumes ls st" "volume_kept name i files st"
    and "volume_run st ls' st'" "Volume_Deleted name \<notin> set ls'" "Volume_Written i \<notin> set ls'"
  shows "volume_kept name i files st'"
  using volume_run_keeps [OF assms(3) _ assms(2,4,5)] reached_volumes [OF assms(1)] by blast

text \<open>
  C29. Applying again repairs. From any state the server can reach, a volume that \<open>ValidateVolume\<close> accepts and
  whose system calls succeed is applied: the row holds what was asked, the directory of its identifier exists,
  its mode is the one asked, and it belongs to the user and the group asked, whatever an earlier apply that
  failed or was cut short has left behind. Two things are left out. The mode sets permission bits alone: a
  setuid, setgid or sticky bit never reaches the directory (\<open>volume_setgid_lost\<close>). And the identifier
  \<open>4294967295\<close>, of a user or a group, is one that \<open>chown\<close> takes for a request to leave it alone.
\<close>

theorem volume_apply_repairs:
  assumes "volume_run no_volumes ls st" "ValidateVolume volume = None"
    and "idPattern newid" "newid \<notin> dbv_ID ` set (vs_rows st)"
    and "\<not> vn_mkdir env" "\<not> vn_chmod env" "\<not> vn_chown env"
    and "\<forall>mode. ParseUint8 (vom_Mode volume) = Some mode \<longrightarrow> mode < 512"
  shows "\<exists>stored created st' d. VolumeService_Apply newid now env volume 0 st = (Inr (stored, created), st')
    \<and> volumes_Get (vom_Name volume) (vs_rows st') = Inr stored
    \<and> dbv_Owner stored = vom_Owner volume \<and> dbv_Mode stored = vom_Mode volume
    \<and> vs_dirs st' (dbv_ID stored) = Some d
    \<and> (vom_Mode volume \<noteq> [] \<longrightarrow> ParseUint8 (vom_Mode volume) = Some (dir_Mode d))
    \<and> (\<forall>uid gid. vom_Owner volume \<noteq> [] \<and> ownerIDs (vom_Owner volume) = Inr (uid, gid)
        \<longrightarrow> (uid < 2 ^ 32 - 1 \<longrightarrow> uint (dir_UID d) = uid) \<and> (0 \<le> gid \<and> gid < 2 ^ 32 - 1 \<longrightarrow> uint (dir_GID d) = gid))"
proof -
  note accepted = VolumeService_Apply_accepts [OF assms(2)]
  obtain stored created st' where ran: "VolumeService_Apply newid now env volume 0 st = (Inr (stored, created), st')"
    using volume_apply_runs [OF accepted _ assms(3-7)] reached_volumes [OF assms(1)] by blast
  note eff = VolumeService_Apply_effect [OF ran]
  have "validateOwner (vom_Owner volume) = None" using assms(2) by (simp add: ValidateVolume_def accepts)
  then have ids: "0 \<le> uid" if "vom_Owner volume \<noteq> []" "ownerIDs (vom_Owner volume) = Inr (uid, gid)" for uid gid
    using that validateOwner_ids by force
  obtain d where d: "vs_dirs st' (dbv_ID stored) = Some d"
    "vom_Mode volume \<noteq> [] \<longrightarrow> (\<exists>n. ParseUint8 (vom_Mode volume) = Some n \<and> dir_Mode d = n mod 512)"
    "vom_Owner volume \<noteq> [] \<longrightarrow> (\<exists>uid gid u g. ownerIDs (vom_Owner volume) = Inr (uid, gid)
      \<and> dir_UID d = new_id uid u \<and> dir_GID d = new_id gid g)"
    using materialise_effect [of env "dbv_ID stored" "vom_Owner volume" "vom_Mode volume" "vs_dirs st" "vs_dirs st'"] eff
    by blast
  have "uint (dir_UID d) = uid"
    if "vom_Owner volume \<noteq> []" "ownerIDs (vom_Owner volume) = Inr (uid, gid)" "uid < 2 ^ 32 - 1" for uid gid
    using that d(3) ids new_id_word by fastforce
  moreover have "uint (dir_GID d) = gid"
    if "vom_Owner volume \<noteq> []" "ownerIDs (vom_Owner volume) = Inr (uid, gid)" "0 \<le> gid" "gid < 2 ^ 32 - 1" for uid gid
    using that d(3) new_id_word by fastforce
  moreover have "ParseUint8 (vom_Mode volume) = Some (dir_Mode d)" if "vom_Mode volume \<noteq> []"
    using that d(2) assms(8) by auto
  ultimately show ?thesis using ran d(1) eff by force
qed

text \<open>A volume that an apply under a failing \<open>chmod\<close> leaves alone.\<close>

definition example_volume :: "string \<Rightarrow> string \<Rightarrow> manifest_Volume" where
  "example_volume owner mode = \<lparr>vom_Version = ''v1'', vom_Name = ''data'', vom_Labels = [], vom_Owner = owner, vom_Mode = mode\<rparr>"

definition example_calls :: "bool \<Rightarrow> volume_env" where
  "example_calls fails = \<lparr>vn_mkdir = False, vn_chmod = fails, vn_chown = False, vn_remove = False, vn_left = [],
     vn_delete = False, vn_uid = 0, vn_gid = 0\<rparr>"

definition example_id :: string where
  "example_id = ''0123456789abcdefghij''"

definition example_made :: volume_state where
  "example_made = snd (VolumeService_Apply example_id 1 (example_calls False) (example_volume [] []) 0 no_volumes)"

definition example_used :: volume_state where
  "example_used = example_made\<lparr>vs_dirs := (vs_dirs example_made)(example_id \<mapsto> (the (vs_dirs example_made example_id))\<lparr>dir_Files := [''db'']\<rparr>)\<rparr>"

definition example_failed :: volume_state where
  "example_failed = snd (VolumeService_Apply example_id 1 (example_calls True) (example_volume [] ''7'') 0 example_used)"

lemma example_id_ok: "idPattern example_id"
  by code_simp

lemma example_volume_run: "volume_run no_volumes [Volume_Applied ''data'', Volume_Written example_id] example_used"
proof -
  have "volume_step no_volumes (Volume_Applied (vom_Name (example_volume [] []))) example_made"
    using example_id_ok by (rule volume_step.applied) (simp add: example_made_def prod_eq_iff)
  moreover have "\<exists>d. vs_dirs example_made example_id = Some d" unfolding not_None_eq [symmetric] by code_simp
  then have "volume_step example_made (Volume_Written example_id) example_used"
    using volume_step.written by (fastforce simp: example_used_def)
  ultimately show ?thesis by (auto simp: example_volume_def intro: run_nil run_step)
qed

theorem volume_data_kept_witness: "volume_kept ''data'' example_id [''db''] example_failed"
proof -
  have row: "volumes_Get ''data'' (vs_rows example_used) = Inr (hd (vs_rows example_used))" "dbv_ID (hd (vs_rows example_used)) = example_id"
    by code_simp+
  have "map_option dir_Files (vs_dirs example_used example_id) = Some [''db'']" by code_simp
  with row have "volume_kept ''data'' example_id [''db''] example_used" by (auto simp: volume_kept_def)
  moreover have "volume_step example_used (Volume_Applied (vom_Name (example_volume [] ''7''))) example_failed"
    using example_id_ok by (rule volume_step.applied) (simp add: example_failed_def prod_eq_iff)
  then have "volume_run example_used [Volume_Applied ''data''] example_failed"
    by (auto simp: example_volume_def intro: run_nil run_step)
  ultimately show ?thesis using volume_data_kept [OF example_volume_run] by fastforce
qed

lemma example_labels: "ValidateLabels [] = None" "namePattern ''data''"
  by code_simp+

theorem volume_apply_repairs_witness:
  "\<exists>stored created st'. VolumeService_Apply ''abcdefghij0123456789'' 2 (example_calls False) (example_volume ''1000'' ''750'') 0 example_used
    = (Inr (stored, created), st')"
proof -
  have cut: "Cut ''1000'' (CHR '':'') = (''1000'', [], False)" by code_simp
  have "ParseUint10 ''1000'' = Some 1000" "ParseUint8 ''750'' = Some 488" "ownerPattern ''1000''"
    by (simp_all add: ParseUint10_def ParseUint8_def read_nat_def digit_of_def ownerPattern_def is_digit_def cut)
  then have "ValidateVolume (example_volume ''1000'' ''750'') = None"
    using example_labels
    by (simp add: ValidateVolume_def example_volume_def validateHeader_def validateVersion_def ValidateName_def validateOwner_def
        validateMode_def owner_parts_def cut version_def accepts)
  note volume_apply_repairs [OF example_volume_run this, of "''abcdefghij0123456789''" "example_calls False" 2]
  moreover have "idPattern ''abcdefghij0123456789''" "''abcdefghij0123456789'' \<notin> dbv_ID ` set (vs_rows example_used)"
    by code_simp+
  moreover have "\<not> vn_mkdir (example_calls False)" "\<not> vn_chmod (example_calls False)" "\<not> vn_chown (example_calls False)"
    by (simp_all add: example_calls_def)
  moreover have "\<forall>mode. ParseUint8 (vom_Mode (example_volume ''1000'' ''750'')) = Some mode \<longrightarrow> mode < 512"
    by (simp add: example_volume_def \<open>ParseUint8 ''750'' = Some 488\<close>)
  ultimately show ?thesis by blast
qed

lemma example_apply_runs:
  assumes "validateOwnership owner mode = None"
  shows "\<exists>stored created st'. VolumeService_Apply example_id 1 (example_calls False) (example_volume owner mode) 0 no_volumes
    = (Inr (stored, created), st')"
  by (rule volume_apply_runs) (use assms example_labels example_id_ok in \<open>simp_all add: example_volume_def example_calls_def no_volumes_def\<close>)

text \<open>
  The special bits of a mode are lost. A volume whose mode is \<open>2775\<close> passes \<open>ValidateVolume\<close>, and its apply
  reports success, but its directory has mode \<open>0775\<close>: the setgid bit, which the documentation
  offers for sharing a volume between users, never reaches the directory.
\<close>

lemma volume_setgid_lost:
  assumes "VolumeService_Apply newid now env volume ifMatch st = (Inr (stored, created), st')" "vom_Mode volume = ''2775''"
  shows "validateMode (vom_Mode volume) = None \<and> ParseUint8 (vom_Mode volume) = Some 1533
    \<and> map_option dir_Mode (vs_dirs st' (dbv_ID stored)) = Some 509"
proof -
  have parsed: "ParseUint8 ''2775'' = Some 1533" "validateMode ''2775'' = None"
    by (simp_all add: ParseUint8_def validateMode_def digit_of_def accepts)
  have "materialise env (dbv_ID stored) (vom_Owner volume) (vom_Mode volume) (vs_dirs st) = (None, vs_dirs st')"
    using VolumeService_Apply_effect [OF assms(1)] by simp
  from materialise_effect [OF this] show ?thesis using parsed assms(2) by auto
qed

text \<open>
  C39. An owner the manifest check refuses gives a volume to root. The service takes any owner that fits a Go
  integer, where \<open>ValidateVolume\<close> asks for one that fits 32 bits, and the kernel reads the low 32 bits
  of what it is given: a caller of the API that names the owner \<open>4294967296\<close> leaves the volume with user 0.
\<close>

theorem volume_owner_wraps:
  assumes "VolumeService_Apply newid now env volume ifMatch st = (Inr (stored, created), st')" "vom_Owner volume = ''4294967296''"
  shows "ValidateVolume volume \<noteq> None \<and> map_option dir_UID (vs_dirs st' (dbv_ID stored)) = Some 0"
proof -
  have cut: "Cut ''4294967296'' (CHR '':'') = (''4294967296'', [], False)" by code_simp
  have number: "read_nat ''4294967296'' = Some 4294967296" by (simp add: read_nat_def digit_of_def)
  have owner: "ownerIDs ''4294967296'' = Inr (4294967296, - 1)" "validateOwner ''4294967296'' \<noteq> None"
    using number by (simp_all add: ownerIDs_def cut Atoi_def validateOwner_def owner_parts_def ParseUint10_def accepts)
  have wraps: "new_id 4294967296 u = 0" for u by (simp add: new_id_def)
  have "materialise env (dbv_ID stored) (vom_Owner volume) (vom_Mode volume) (vs_dirs st) = (None, vs_dirs st')"
    using VolumeService_Apply_effect [OF assms(1)] by simp
  from materialise_effect [OF this] have "map_option dir_UID (vs_dirs st' (dbv_ID stored)) = Some 0"
    using owner(1) wraps assms(2) by auto
  moreover have "ValidateVolume volume \<noteq> None" using owner(2) assms(2) by (auto simp: ValidateVolume_def accepts)
  ultimately show ?thesis by blast
qed

theorem volume_owner_wraps_witness:
  "\<exists>stored created st'. VolumeService_Apply example_id 1 (example_calls False) (example_volume ''4294967296'' []) 0 no_volumes
      = (Inr (stored, created), st')
    \<and> map_option dir_UID (vs_dirs st' (dbv_ID stored)) = Some 0"
proof -
  have cut: "Cut ''4294967296'' (CHR '':'') = (''4294967296'', [], False)" by code_simp
  have "validateOwnership ''4294967296'' [] = None"
    by (simp add: validateOwnership_def ownerIDs_def cut Atoi_def read_nat_def digit_of_def)
  from example_apply_runs [OF this] show ?thesis
    using volume_owner_wraps [of _ _ _ "example_volume ''4294967296'' []"] by (fastforce simp: example_volume_def)
qed

end
