(* ===== verification/Versioned_Writes.thy ===== *)
theory Versioned_Writes
  imports Rotation_Properties Service_Properties Volume_Properties
begin

text \<open>
  Conditional writes. The tables of workloads, secrets, variables, volumes and services share a contract: a write may
  name the version it was made against and lands only over that version. The locale \<open>versioned\<close> states what
  a table promises and derives that no update is lost; the tables interpret it.
\<close>

section \<open>The contract\<close>

text \<open>A sequence of writes, each with the version it is conditioned on, whatever they answer.\<close>

fun writes :: "('w \<Rightarrow> int \<Rightarrow> 't \<Rightarrow> 'a \<times> 't) \<Rightarrow> ('w \<times> int) list \<Rightarrow> 't \<Rightarrow> 't" where
  "writes put [] t = t"
| "writes put ((w, n) # ws) t = writes put ws (snd (put w n t))"

locale versioned =
  fixes current :: "'k \<Rightarrow> 't \<Rightarrow> int"
    and put :: "'w \<Rightarrow> int \<Rightarrow> 't \<Rightarrow> ('e + 'r) \<times> 't"
    and key :: "'w \<Rightarrow> 'k"
    and ok :: "'t \<Rightarrow> bool"
  assumes refused: "ok t \<Longrightarrow> put w n t = (Inl e, t') \<Longrightarrow> t' = t"
    and kept: "ok t \<Longrightarrow> put w n t = (Inr r, t') \<Longrightarrow> ok t'"
    and matched: "ok t \<Longrightarrow> put w n t = (Inr r, t') \<Longrightarrow> n \<noteq> 0 \<Longrightarrow> current (key w) t = n"
    and grows: "ok t \<Longrightarrow> put w n t = (Inr r, t') \<Longrightarrow> current (key w) t \<le> current (key w) t'"
    and others: "ok t \<Longrightarrow> put w n t = (Inr r, t') \<Longrightarrow> k \<noteq> key w \<Longrightarrow> current k t' = current k t"
begin

lemma one_write: "ok t \<Longrightarrow> ok (snd (put w n t)) \<and> current k t \<le> current k (snd (put w n t))"
proof (cases "put w n t")
  case (Pair a t')
  show ?thesis if "ok t"
  proof (cases a)
    case (Inl e)
    then show ?thesis using refused [OF that, of w n e t'] Pair that by simp
  next
    case (Inr r)
    then have put: "put w n t = (Inr r, t')" using Pair by simp
    then show ?thesis using kept [OF that put] grows [OF that put] others [OF that put, of k] by (cases "k = key w") simp_all
  qed
qed

lemma writes_grow: "ok t \<Longrightarrow> ok (writes put ws t) \<and> current k t \<le> current k (writes put ws t)"
proof (induction ws arbitrary: t)
  case (Cons a ws)
  obtain w n where a: "a = (w, n)" by (cases a)
  have step: "ok (snd (put w n t))" "current k t \<le> current k (snd (put w n t))"
    using one_write [OF Cons.prems] by auto
  then show ?case using Cons.IH [OF step(1)] by (fastforce simp: a)
qed simp

text \<open>Of two writes made against the same version, the one that comes after a change is refused.\<close>

lemma no_lost_update:
  assumes "ok t" "put w n t = (Inr r, t')" "n \<noteq> 0" "current (key w) t' \<noteq> n" "key v = key w"
  shows "\<exists>e. put v n (writes put ws t') = (Inl e, writes put ws t')"
proof -
  have "current (key w) t = n" "current (key w) t \<le> current (key w) t'"
    using matched [OF assms(1,2,3)] grows [OF assms(1,2)] by auto
  then have "n < current (key w) t'" using assms(4) by simp
  moreover have later: "ok (writes put ws t')" "current (key w) t' \<le> current (key w) (writes put ws t')"
    using writes_grow [OF kept [OF assms(1,2)]] by auto
  ultimately have "current (key v) (writes put ws t') \<noteq> n" using assms(5) by simp
  then show ?thesis
    using matched [OF later(1) _ assms(3)] refused [OF later(1)]
    by (metis prod.exhaust old.sum.exhaust)
qed

end

section \<open>The tables\<close>

type_synonym 'w request = "string \<times> time \<times> 'w"

definition secret_write :: "Secret request \<Rightarrow> int \<Rightarrow> secret_tables \<Rightarrow> (vault_error + Secret) \<times> secret_tables" where
  "secret_write w n t = (case w of (newid, now, secret) \<Rightarrow> secrets_Upsert newid now secret n t)"

definition variable_write :: "Variable request \<Rightarrow> int \<Rightarrow> Variable list \<Rightarrow> (value_error + Variable) \<times> Variable list" where
  "variable_write w n t = (case w of (newid, now, variable) \<Rightarrow> variables_Upsert newid now variable n t)"

definition service_write ::
  "database_Service request \<Rightarrow> int \<Rightarrow> database_Service list
     \<Rightarrow> (balance_error + database_Service \<times> bool) \<times> database_Service list" where
  "service_write w n t = (case w of (newid, now, service) \<Rightarrow> services_Upsert newid now service n t)"

definition service_version :: "string \<Rightarrow> database_Service list \<Rightarrow> int" where
  "service_version name t = (case services_Get name t of Inl e \<Rightarrow> 0 | Inr s \<Rightarrow> dbs_Version s)"

definition volume_write ::
  "database_Volume request \<Rightarrow> int \<Rightarrow> database_Volume list
     \<Rightarrow> (volume_error + database_Volume \<times> bool) \<times> database_Volume list" where
  "volume_write w n t = (case w of (newid, now, volume) \<Rightarrow> volumes_Upsert newid now volume n t)"

definition volume_version :: "string \<Rightarrow> database_Volume list \<Rightarrow> int" where
  "volume_version name t = (case volumes_Get name t of Inl e \<Rightarrow> 0 | Inr v \<Rightarrow> dbv_Version v)"

type_synonym workload_request = "string \<times> time \<times> database_Workload \<times> row_reads \<times> database_Port list"

definition workload_write ::
  "workload_request \<Rightarrow> int \<Rightarrow> database \<Rightarrow> (store_error + database_Workload \<times> bool) \<times> database" where
  "workload_write w n db = (case w of (newid, now, row, reads, ports) \<Rightarrow> Upsert newid now row reads n ports db)"

definition workload_version :: "string \<Rightarrow> database \<Rightarrow> int" where
  "workload_version name db = (case store_get name db of Inl e \<Rightarrow> 0 | Inr w \<Rightarrow> row_Version w)"

interpretation secrets: versioned secret_version secret_write "\<lambda>w. sec_Name (snd (snd w))" "\<lambda>t. True"
proof
  fix t t' :: secret_tables and w :: "Secret request" and n :: int and e r k
  obtain newid now s where w: "w = (newid, now, s)" by (cases w)
  show "secret_write w n t = (Inl e, t') \<Longrightarrow> t' = t"
    by (auto simp: secret_write_def w dest: secrets_Upsert_refused)
  assume it: "secret_write w n t = (Inr r, t')"
  then show "n \<noteq> 0 \<Longrightarrow> secret_version (sec_Name (snd (snd w))) t = n"
    by (auto simp: secret_write_def w secrets_Upsert_def Let_def split: if_splits)
  have "secret_version x t' = (if x = sec_Name s then secret_version x t + 1 else secret_version x t)" for x
    using it
    by (auto simp: secret_write_def w secrets_Upsert_def secret_version_def secrets_Get_def Let_def find_row_appended
        find_row_replaced dest: find_key split: if_splits option.splits)
  then show "secret_version (sec_Name (snd (snd w))) t \<le> secret_version (sec_Name (snd (snd w))) t'"
    "k \<noteq> sec_Name (snd (snd w)) \<Longrightarrow> secret_version k t' = secret_version k t"
    by (simp_all add: w)
qed

interpretation variables: versioned variable_version variable_write "\<lambda>w. var_Name (snd (snd w))" "\<lambda>t. True"
proof
  fix t t' :: "Variable list" and w :: "Variable request" and n :: int and e r k
  obtain newid now v where w: "w = (newid, now, v)" by (cases w)
  show "variable_write w n t = (Inl e, t') \<Longrightarrow> t' = t"
    by (auto simp: variable_write_def w dest: variables_Upsert_refused)
  assume it: "variable_write w n t = (Inr r, t')"
  then show "n \<noteq> 0 \<Longrightarrow> variable_version (var_Name (snd (snd w))) t = n"
    by (auto simp: variable_write_def w variables_Upsert_def Let_def split: if_splits)
  have "variable_version x t' = (if x = var_Name v then variable_version x t + 1 else variable_version x t)" for x
    using it
    by (auto simp: variable_write_def w variables_Upsert_def variable_version_def variables_Get_def Let_def
        find_row_appended find_row_replaced dest: find_key split: if_splits option.splits)
  then show "variable_version (var_Name (snd (snd w))) t \<le> variable_version (var_Name (snd (snd w))) t'"
    "k \<noteq> var_Name (snd (snd w)) \<Longrightarrow> variable_version k t' = variable_version k t"
    by (simp_all add: w)
qed

interpretation services: versioned service_version service_write "\<lambda>w. dbs_Name (snd (snd w))" "\<lambda>t. True"
proof
  fix t t' :: "database_Service list" and w :: "database_Service request" and n :: int and e r k
  obtain newid now s where w: "w = (newid, now, s)" by (cases w)
  show "service_write w n t = (Inl e, t') \<Longrightarrow> t' = t"
    by (auto simp: service_write_def w services_Upsert_def insertService_def updateService_def Let_def
        split: if_splits sum.splits)
  assume it: "service_write w n t = (Inr r, t')"
  then show "n \<noteq> 0 \<Longrightarrow> service_version (dbs_Name (snd (snd w))) t = n"
    by (auto simp: service_write_def w services_Upsert_def service_version_def split: if_splits sum.splits)
  have moves: "service_version x t' = service_version x t
      \<or> x = dbs_Name s \<and> service_version x t' = service_version x t + 1" for x
    using it
    by (auto simp: service_write_def w services_Upsert_def service_version_def services_Get_def insertService_def
        updateService_def Let_def find_row_appended find_row_replaced dest: find_key split: if_splits option.splits)
  show "service_version (dbs_Name (snd (snd w))) t \<le> service_version (dbs_Name (snd (snd w))) t'"
    using moves [of "dbs_Name s"] by (auto simp: w)
  show "k \<noteq> dbs_Name (snd (snd w)) \<Longrightarrow> service_version k t' = service_version k t"
    using moves [of k] by (auto simp: w)
qed

interpretation volumes: versioned volume_version volume_write "\<lambda>w. dbv_Name (snd (snd w))" "\<lambda>t. True"
proof
  fix t t' :: "database_Volume list" and w :: "database_Volume request" and n :: int and e r k
  obtain newid now s where w: "w = (newid, now, s)" by (cases w)
  show "volume_write w n t = (Inl e, t') \<Longrightarrow> t' = t"
    by (auto simp: volume_write_def w volumes_Upsert_def insertVolume_def updateVolume_def Let_def
        split: if_splits sum.splits)
  assume it: "volume_write w n t = (Inr r, t')"
  then show "n \<noteq> 0 \<Longrightarrow> volume_version (dbv_Name (snd (snd w))) t = n"
    by (auto simp: volume_write_def w volumes_Upsert_def volume_version_def split: if_splits sum.splits)
  have moves: "volume_version x t' = volume_version x t
      \<or> x = dbv_Name s \<and> volume_version x t' = volume_version x t + 1" for x
    using it
    by (auto simp: volume_write_def w volumes_Upsert_def volume_version_def volumes_Get_def insertVolume_def
        updateVolume_def Let_def find_row_appended find_row_replaced dest: find_key split: if_splits option.splits)
  show "volume_version (dbv_Name (snd (snd w))) t \<le> volume_version (dbv_Name (snd (snd w))) t'"
    using moves [of "dbv_Name s"] by (auto simp: w)
  show "k \<noteq> dbv_Name (snd (snd w)) \<Longrightarrow> volume_version k t' = volume_version k t"
    using moves [of k] by (auto simp: w)
qed

lemma workload_version_step:
  assumes "store_ok db" "Upsert newid now w reads n ports db = (Inr r, db')"
  shows "workload_version (row_Name w) db \<le> workload_version (row_Name w) db'"
proof -
  obtain stored created where r: "r = (stored, created)" by (cases r)
  obtain db1 where row: "write_row newid now w n db = Inr (stored, created, db1)"
    and rows: "db_workloads db' = db_workloads db1"
    using Upsert_Inr [OF assms(2) [unfolded r] assms(1)] by blast
  obtain x where x: "x \<in> set (db_workloads db')" "row_Name x = row_Name w" "written w n db x created"
    using write_row_effect [OF row assms(1)] unfolding rows by blast
  have "store_ok db'" using Upsert_ok [OF assms(1)] assms(2) by (metis snd_conv)
  then have "store_get (row_Name w) db' = Inr x" using x by (simp add: store_get_iff)
  then show ?thesis
    using x(3) by (auto simp: workload_version_def written_def split: sum.splits if_splits)
qed

interpretation workloads: versioned workload_version workload_write "\<lambda>w. row_Name (fst (snd (snd w)))" store_ok
proof
  fix t t' :: database and w :: workload_request and n :: int and e r k
  obtain newid now row reads ports where w: "w = (newid, now, row, reads, ports)" by (cases w)
  assume ok: "store_ok t"
  show "workload_write w n t = (Inl e, t') \<Longrightarrow> t' = t"
    by (auto simp: workload_write_def w dest: Upsert_Inl)
  assume it: "workload_write w n t = (Inr r, t')"
  then have up: "Upsert newid now row reads n ports t = (Inr r, t')" by (simp add: workload_write_def w)
  show "store_ok t'" using Upsert_ok [OF ok] up by (metis snd_conv)
  show "workload_version (row_Name (fst (snd (snd w)))) t \<le> workload_version (row_Name (fst (snd (snd w)))) t'"
    using workload_version_step [OF ok up] by (simp add: w)
  show "k \<noteq> row_Name (fst (snd (snd w))) \<Longrightarrow> workload_version k t' = workload_version k t"
    using Upsert_other [of row k newid now reads n ports t] up by (simp add: w workload_version_def)
  obtain stored created db1 where "write_row newid now row n t = Inr (stored, created, db1)"
    using Upsert_Inr [OF _ ok, of newid now row reads n ports] up by (cases r) blast
  then show "n \<noteq> 0 \<Longrightarrow> workload_version (row_Name (fst (snd (snd w)))) t = n"
    by (auto simp: write_row_def workload_version_def w split: sum.splits if_splits)
qed

section \<open>Properties\<close>

text \<open>
  C9. No update is lost. When a write made against a version of a workload, a secret, a variable, a
  volume or a service lands and moves the version, then after any further writes to any resources of the kind, with or
  without a condition, every other write made against the same version is refused and changes nothing.
\<close>

theorem no_update_lost:
  assumes "n \<noteq> 0" "store_ok db"
  shows "(\<forall>w r db'. workload_write w n db = (Inr r, db') \<and> workload_version (row_Name (fst (snd (snd w)))) db' \<noteq> n \<longrightarrow>
        (\<forall>v ws. row_Name (fst (snd (snd v))) = row_Name (fst (snd (snd w))) \<longrightarrow>
          (\<exists>e. workload_write v n (writes workload_write ws db') = (Inl e, writes workload_write ws db'))))
    \<and> (\<forall>w r t t'. secret_write w n t = (Inr r, t') \<and> secret_version (sec_Name (snd (snd w))) t' \<noteq> n \<longrightarrow>
        (\<forall>v ws. sec_Name (snd (snd v)) = sec_Name (snd (snd w)) \<longrightarrow>
          (\<exists>e. secret_write v n (writes secret_write ws t') = (Inl e, writes secret_write ws t'))))
    \<and> (\<forall>w r t t'. variable_write w n t = (Inr r, t') \<and> variable_version (var_Name (snd (snd w))) t' \<noteq> n \<longrightarrow>
        (\<forall>v ws. var_Name (snd (snd v)) = var_Name (snd (snd w)) \<longrightarrow>
          (\<exists>e. variable_write v n (writes variable_write ws t') = (Inl e, writes variable_write ws t'))))
    \<and> (\<forall>w r t t'. volume_write w n t = (Inr r, t') \<and> volume_version (dbv_Name (snd (snd w))) t' \<noteq> n \<longrightarrow>
        (\<forall>v ws. dbv_Name (snd (snd v)) = dbv_Name (snd (snd w)) \<longrightarrow>
          (\<exists>e. volume_write v n (writes volume_write ws t') = (Inl e, writes volume_write ws t'))))
    \<and> (\<forall>w r t t'. service_write w n t = (Inr r, t') \<and> service_version (dbs_Name (snd (snd w))) t' \<noteq> n \<longrightarrow>
        (\<forall>v ws. dbs_Name (snd (snd v)) = dbs_Name (snd (snd w)) \<longrightarrow>
          (\<exists>e. service_write v n (writes service_write ws t') = (Inl e, writes service_write ws t'))))"
  by (intro conjI allI impI; elim conjE)
    (blast intro: workloads.no_lost_update [OF assms(2) _ assms(1)],
      blast intro: secrets.no_lost_update [OF TrueI _ assms(1)],
      blast intro: variables.no_lost_update [OF TrueI _ assms(1)],
      blast intro: volumes.no_lost_update [OF TrueI _ assms(1)],
      blast intro: services.no_lost_update [OF TrueI _ assms(1)])

theorem no_update_lost_witness:
  "\<exists>e t. service_write (''j'', 3, example_front [(''app'', ''c'')]) 1
     (snd (service_write (''i'', 2, example_front [(''app'', ''b'')]) 1 [example_front [(''app'', ''a'')]])) = (Inl e, t)"
proof -
  let ?w = "(''i'', 2, example_front [(''app'', ''b'')]) :: database_Service request"
  let ?v = "(''j'', 3, example_front [(''app'', ''c'')]) :: database_Service request"
  let ?t = "[example_front [(''app'', ''a'')]]"
  have "\<not> isl (fst (service_write ?w 1 ?t))" "service_version ''front'' (snd (service_write ?w 1 ?t)) = 2"
    by code_simp+
  then obtain r where r: "service_write ?w 1 ?t = (Inr r, snd (service_write ?w 1 ?t))"
    "service_version (dbs_Name (snd (snd ?w))) (snd (service_write ?w 1 ?t)) \<noteq> 1"
    by (cases "fst (service_write ?w 1 ?t)") (auto simp: example_front_def prod_eq_iff)
  have "dbs_Name (snd (snd ?v)) = dbs_Name (snd (snd ?w))" by (simp add: example_front_def)
  with r have "\<exists>e. service_write ?v 1 (writes service_write [] (snd (service_write ?w 1 ?t)))
      = (Inl e, writes service_write [] (snd (service_write ?w 1 ?t)))"
    using no_update_lost [of 1 empty_database, OF one_neq_zero store_ok_empty, THEN conjunct2, THEN conjunct2, THEN conjunct2, THEN conjunct2]
    by blast
  then show ?thesis by auto
qed

text \<open>
  A version is not an identity. Versions start over when a resource is deleted and created again, so a
  write made against version one of a secret that has since been deleted lands on the unrelated secret that
  was created under its name.
\<close>

lemma recreated_secret_matches:
  assumes "secrets_Get name t = Inr old" "secrets_Delete name t = (None, t1)"
    and "secret_write (i, now, s) 0 t1 = (Inr stored, t2)" "sec_Name s = name"
    and "j \<notin> sec_ID ` set (st_secrets t2)" "sec_KeyID s' \<in> fst ` set (st_keys t2)" "sec_Name s' = name"
  shows "\<exists>r t3. secret_write (j, later, s') 1 t2 = (Inr r, t3)"
proof -
  have "find (\<lambda>x. sec_Name x = name) (st_secrets t1) = None"
    using assms(2) by (auto simp: secrets_Delete_def find_None_iff split: if_splits)
  then have "secret_version name t2 = 1"
    using assms(3,4)
    by (auto simp: secret_write_def secrets_Upsert_def secret_version_def secrets_Get_def Let_def find_row_appended
        split: if_splits)
  then show ?thesis
    using assms(5-7)
    by (auto simp: secret_write_def secrets_Upsert_def Let_def split: sum.splits)
qed

end
