(* ===== verification/Go_Files.thy ===== *)
theory Go_Files
  imports Takt_Prelude "HOL-Library.AList" "HOL-Library.Sublist"
begin

text \<open>
  What the program uses of Go's \<open>os\<close> package on a tree of files, call by call. A path is a list of names below
  the root. Each call takes the next answer of the host from a list: it works, or it fails after some bytes
  got through. A server that stops has done the calls it lived for, so a stop between two calls is the
  failure of the second.
\<close>

section \<open>The tree\<close>

datatype node = File string | Folder "(string \<times> node) list"

fun node_at :: "string list \<Rightarrow> node \<Rightarrow> node option" where
  "node_at [] n = Some n"
| "node_at (c # p) (Folder es) = (case map_of es c of None \<Rightarrow> None | Some n \<Rightarrow> node_at p n)"
| "node_at (c # p) (File b) = None"

definition put_entry :: "string \<Rightarrow> node option \<Rightarrow> (string \<times> node) list \<Rightarrow> (string \<times> node) list" where
  "put_entry c x es = (case x of None \<Rightarrow> AList.delete c es | Some n \<Rightarrow> AList.update c n es)"

text \<open>Changes what a path names, where the folder it is in exists.\<close>

fun alter :: "string list \<Rightarrow> (node option \<Rightarrow> node option) \<Rightarrow> node \<Rightarrow> node" where
  "alter [] f n = n"
| "alter (c # p) f (File b) = File b"
| "alter (c # p) f (Folder es) =
     (if p = [] then Folder (put_entry c (f (map_of es c)) es)
      else (case map_of es c of None \<Rightarrow> Folder es | Some n \<Rightarrow> Folder (put_entry c (Some (alter p f n)) es)))"

text \<open>The folders on the way to a path and the path itself, \<open>None\<close> when a file is in the way.\<close>

fun mkdirs :: "string list \<Rightarrow> node \<Rightarrow> node option" where
  "mkdirs p (File b) = None"
| "mkdirs [] (Folder es) = Some (Folder es)"
| "mkdirs (c # p) (Folder es) =
     (case mkdirs p (case map_of es c of None \<Rightarrow> Folder [] | Some n \<Rightarrow> n) of
        None \<Rightarrow> None | Some n \<Rightarrow> Some (Folder (put_entry c (Some n) es)))"

definition is_folder :: "node option \<Rightarrow> bool" where
  "is_folder n = (case n of Some (Folder es) \<Rightarrow> True | _ \<Rightarrow> False)"

lemma map_of_put_entry [simp]: "map_of (put_entry c x es) d = (if d = c then x else map_of es d)"
  by (cases x) (auto simp: put_entry_def update_conv' delete_conv')

lemma node_at_alter_same:
  "p \<noteq> [] \<Longrightarrow> is_folder (node_at (butlast p) n) \<Longrightarrow> node_at p (alter p f n) = f (node_at p n)"
proof (induction p f n rule: alter.induct)
  case (3 c p f es)
  then show ?case
    by (cases "map_of es c") (auto simp: is_folder_def split: option.splits if_splits)
next
  case (2 c p f b)
  then show ?case by (cases p) (auto simp: is_folder_def)
qed (auto simp: is_folder_def)

lemma node_at_alter_other:
  "\<not> prefix p q \<Longrightarrow> \<not> prefix q p \<Longrightarrow> node_at q (alter p f n) = node_at q n"
proof (induction p f n arbitrary: q rule: alter.induct)
  case (3 c p f es)
  then obtain d r where q: "q = d # r" by (cases q) auto
  show ?case
  proof (cases "map_of es c")
    case None
    then show ?thesis using 3 by (auto simp: q)
  next
    case (Some n)
    then show ?thesis using 3 by (auto simp: q split: if_splits)
  qed
qed auto

lemma node_at_mkdirs: "mkdirs p n = Some m \<Longrightarrow> is_folder (node_at p m)"
  by (induction p n arbitrary: m rule: mkdirs.induct) (auto simp: is_folder_def split: option.splits)

text \<open>Making folders changes no file, and nothing beside the way.\<close>

lemma node_at_mkdirs_file: "mkdirs p n = Some m \<Longrightarrow> node_at q m = Some (File b) \<longleftrightarrow> node_at q n = Some (File b)"
proof (induction p n arbitrary: m q rule: mkdirs.induct)
  case (3 c p es)
  obtain k where k: "mkdirs p (case map_of es c of None \<Rightarrow> Folder [] | Some n \<Rightarrow> n) = Some k"
    "m = Folder (put_entry c (Some k) es)"
    using 3(2) by (auto split: option.splits)
  show ?case
  proof (cases q)
    case (Cons d r)
    have "node_at r (Folder []) \<noteq> Some (File b)" by (cases r) auto
    then show ?thesis using 3(1) [OF k(1), of r] k(2) Cons by (auto split: option.splits)
  qed (simp add: k)
qed auto

text \<open>What the file a path names holds.\<close>

definition content :: "string list \<Rightarrow> node \<Rightarrow> string option" where
  "content p t = (case node_at p t of Some (File b) \<Rightarrow> Some b | _ \<Rightarrow> None)"

lemma content_iff: "content p t = Some b \<longleftrightarrow> node_at p t = Some (File b)"
  by (auto simp: content_def split: option.splits node.splits)

lemma content_mkdirs: "mkdirs p t = Some t' \<Longrightarrow> content q t' = content q t"
  using node_at_mkdirs_file [of p t t' q] by (metis content_iff option.exhaust)

lemma content_alter_other:
  "q \<noteq> p \<Longrightarrow> \<not> is_folder (node_at p t) \<Longrightarrow> \<not> is_folder (f (node_at p t)) \<Longrightarrow> content q (alter p f t) = content q t"
proof (induction p f t arbitrary: q rule: alter.induct)
  case (3 c p f es)
  show ?case
  proof (cases q)
    case Nil
    then show ?thesis by (auto simp: content_def split: option.splits)
  next
    case (Cons d r)
    consider "d \<noteq> c" | "d = c" "p = []" | n where "d = c" "p \<noteq> []" "map_of es c = Some n" | "d = c" "p \<noteq> []" "map_of es c = None"
      by (cases "map_of es c") auto
    then show ?thesis
    proof cases
      case 2
      then have "r \<noteq> []" using 3(2) Cons by auto
      moreover have "node_at r x = None" if "\<not> is_folder (Some x)" "r \<noteq> []" for x
        using that by (cases x; cases r) (auto simp: is_folder_def)
      ultimately show ?thesis
        using 2 3(3,4) by (auto simp: Cons content_def split: option.split)
    next
      case (3 n)
      then have "content r (alter p f n) = content r n"
        using "3.IH" [OF 3(2,3), of r] "3.prems" Cons by auto
      then show ?thesis using 3 Cons by (simp add: content_def)
    qed (use Cons in \<open>auto simp: content_def split: option.split\<close>)
  qed
qed auto

lemma content_remove: "p \<noteq> [] \<Longrightarrow> content q (alter p (\<lambda>n. None) t) = (if prefix p q then None else content q t)"
proof (induction p "\<lambda>n :: node option. None :: node option" t arbitrary: q rule: alter.induct)
  case (3 c p es)
  show ?case
  proof (cases q)
    case (Cons d r)
    show ?thesis
    proof (cases "map_of es c")
      case None
      then show ?thesis by (auto simp: Cons content_def)
    next
      case (Some n)
      then show ?thesis using 3 by (cases "p = []") (auto simp: Cons content_def)
    qed
  qed (auto simp: content_def split: option.split)
next
  case (2 c p b)
  then show ?case by (cases q) (auto simp: content_def)
qed auto

lemma content_alter_beside:
  "\<not> prefix p q \<Longrightarrow> is_folder x \<longrightarrow> is_folder (f x) \<Longrightarrow> x = node_at p t \<Longrightarrow> content q (alter p f t) = content q t"
proof (induction p f t arbitrary: q rule: alter.induct)
  case (3 c p f es)
  show ?case
  proof (cases q)
    case (Cons d r)
    show ?thesis
    proof (cases "map_of es c")
      case None
      then show ?thesis using 3(2) by (auto simp: Cons content_def)
    next
      case (Some n)
      then show ?thesis using 3 by (cases "p = []") (auto simp: Cons content_def)
    qed
  qed (auto simp: content_def split: option.split)
qed auto

lemma node_at_parent: "node_at p t = Some x \<Longrightarrow> p \<noteq> [] \<Longrightarrow> is_folder (node_at (butlast p) t)"
proof (induction p t rule: node_at.induct)
  case (2 c p es)
  then show ?case by (cases p) (auto simp: is_folder_def split: option.splits if_splits)
qed auto

lemma node_at_alter_there: "node_at p t = Some x \<Longrightarrow> p \<noteq> [] \<Longrightarrow> node_at p (alter p f t) = f (Some x)"
  using node_at_alter_same [of p t f] node_at_parent by fastforce

section \<open>Calls\<close>

text \<open>The answers of the host: \<open>Some k\<close> is a call that fails after \<open>k\<close> bytes; past the end every call works.\<close>

type_synonym answers = "nat option list"

record disk =
  dk_tree :: node
  dk_answers :: answers

type_synonym ('s, 'e, 'a) attempt = "('s, 'e + 'a) state"

datatype file_error = NotExist | IO_failed

definition first_answer :: "answers \<Rightarrow> nat option" where
  "first_answer as = (case as of [] \<Rightarrow> None | a # as' \<Rightarrow> a)"

definition next_answer :: "('a disk_scheme, nat option) state" where
  "next_answer = State (\<lambda>s. (first_answer (dk_answers s), s\<lparr>dk_answers := tl (dk_answers s)\<rparr>))"

text \<open>A call: what it does when it works, and what it leaves behind when it fails after \<open>k\<close> bytes.\<close>

definition os_call ::
  "(node \<Rightarrow> (file_error + 'b) \<times> node) \<Rightarrow> (nat \<Rightarrow> node \<Rightarrow> node) \<Rightarrow> ('a disk_scheme, file_error, 'b) attempt" where
  "os_call works fails = do {
     a \<leftarrow> next_answer;
     t \<leftarrow> gets dk_tree;
     (case a of
        None \<Rightarrow> (case works t of (r, t') \<Rightarrow> do { modify (\<lambda>s. s\<lparr>dk_tree := t'\<rparr>); ret r })
      | Some k \<Rightarrow> do { modify (\<lambda>s. s\<lparr>dk_tree := fails k t\<rparr>); ret (Inl IO_failed) })
   }"

definition content_map :: "(string \<Rightarrow> string) \<Rightarrow> node option \<Rightarrow> node option" where
  "content_map f n = (case n of Some (File b) \<Rightarrow> Some (File (f b)) | _ \<Rightarrow> n)"

definition os_Stat :: "string list \<Rightarrow> ('a disk_scheme, file_error, unit) attempt" where
  "os_Stat p = os_call (\<lambda>t. (if node_at p t = None then Inl NotExist else Inr (), t)) (\<lambda>k t. t)"

definition os_ReadFile :: "string list \<Rightarrow> ('a disk_scheme, file_error, string) attempt" where
  "os_ReadFile p = os_call (\<lambda>t. (case node_at p t of
       None \<Rightarrow> Inl NotExist | Some (File b) \<Rightarrow> Inr b | Some (Folder es) \<Rightarrow> Inl IO_failed, t)) (\<lambda>k t. t)"

text \<open>The entries of a directory in the order of their names, with whether they are directories.\<close>

definition os_ReadDir :: "string list \<Rightarrow> ('a disk_scheme, file_error, (string \<times> bool) list) attempt" where
  "os_ReadDir p = os_call (\<lambda>t. (case node_at p t of
       None \<Rightarrow> Inl NotExist
     | Some (File b) \<Rightarrow> Inl IO_failed
     | Some (Folder es) \<Rightarrow> Inr (map (\<lambda>(c, n). (c, is_folder (Some n))) (sort_key fst es)), t)) (\<lambda>k t. t)"

definition os_MkdirAll :: "string list \<Rightarrow> ('a disk_scheme, file_error, unit) attempt" where
  "os_MkdirAll p = os_call (\<lambda>t. case mkdirs p t of None \<Rightarrow> (Inl IO_failed, t) | Some t' \<Rightarrow> (Inr (), t')) (\<lambda>k t. t)"

text \<open>Nothing there is no error. A removal that fails has removed some of what is inside.\<close>

definition os_RemoveAll :: "string list \<Rightarrow> ('a disk_scheme, file_error, unit) attempt" where
  "os_RemoveAll p = os_call (\<lambda>t. (Inr (), alter p (\<lambda>n. None) t))
     (\<lambda>k. alter p (map_option (\<lambda>n. case n of Folder es \<Rightarrow> Folder (drop k es) | File b \<Rightarrow> File b)))"

definition os_Chmod :: "string list \<Rightarrow> ('a disk_scheme, file_error, unit) attempt" where
  "os_Chmod p = os_Stat p"

definition or_empty :: "node option \<Rightarrow> node option" where
  "or_empty n = (case n of None \<Rightarrow> Some (File []) | Some m \<Rightarrow> Some m)"

text \<open>\<open>O_WRONLY | O_CREATE\<close>, and with \<open>O_TRUNC\<close>.\<close>

definition opened :: "bool \<Rightarrow> string list \<Rightarrow> node \<Rightarrow> (file_error + unit) \<times> node" where
  "opened trunc p t =
     (if \<not> is_folder (node_at (butlast p) t) then (Inl NotExist, t)
      else if is_folder (node_at p t) then (Inl IO_failed, t)
      else (Inr (), alter p (\<lambda>n. if trunc then Some (File []) else or_empty n) t))"

definition os_Open :: "string list \<Rightarrow> ('a disk_scheme, file_error, unit) attempt" where
  "os_Open p = os_call (opened False p) (\<lambda>k t. t)"

definition file_WriteAt :: "string list \<Rightarrow> string \<Rightarrow> ('a disk_scheme, file_error, unit) attempt" where
  "file_WriteAt p v = os_call (\<lambda>t. (Inr (), alter p (content_map (\<lambda>old. v @ drop (length v) old)) t))
     (\<lambda>k. alter p (content_map (\<lambda>old. take k v @ drop (length (take k v)) old)))"

definition file_Truncate :: "string list \<Rightarrow> nat \<Rightarrow> ('a disk_scheme, file_error, unit) attempt" where
  "file_Truncate p n = os_call (\<lambda>t. (Inr (), alter p (content_map (take n)) t)) (\<lambda>k t. t)"

definition os_WriteFile :: "string list \<Rightarrow> string \<Rightarrow> ('a disk_scheme, file_error, unit) attempt" where
  "os_WriteFile p v = and_then (os_call (opened True p) (\<lambda>k t. t))
     (\<lambda>_. os_call (\<lambda>t. (Inr (), alter p (content_map (\<lambda>_. v)) t)) (\<lambda>k. alter p (content_map (\<lambda>_. take k v))))"

lemmas os_defs = os_Stat_def os_ReadFile_def os_ReadDir_def os_MkdirAll_def os_RemoveAll_def os_Chmod_def
  os_Open_def file_WriteAt_def file_Truncate_def os_WriteFile_def

lemma wp_os_call [wp_simps]:
  "wp (os_call works fails) Q s = (case first_answer (dk_answers s) of
       None \<Rightarrow> Q (fst (works (dk_tree s))) (s\<lparr>dk_answers := tl (dk_answers s), dk_tree := snd (works (dk_tree s))\<rparr>)
     | Some k \<Rightarrow> Q (Inl IO_failed) (s\<lparr>dk_answers := tl (dk_answers s), dk_tree := fails k (dk_tree s)\<rparr>))"
  by (cases "first_answer (dk_answers s)"; cases "works (dk_tree s)")
    (simp_all add: os_call_def next_answer_def wp_def gets_def modify_def)

section \<open>Writing over a file\<close>

text \<open>
  What is in a file while new bytes go over the old ones: as many of the new as got through, then what the
  old file held beyond them; and at last the new ones alone.
\<close>

definition torn :: "string \<Rightarrow> string \<Rightarrow> string \<Rightarrow> bool" where
  "torn old new b \<longleftrightarrow> b = new \<or> (\<exists>k. b = take k new @ drop (length (take k new)) old)"

lemma torn_old [simp]: "torn old new old"
  unfolding torn_def by (rule disjI2, rule exI [of _ 0]) simp

lemma torn_new [simp]: "torn old new new"
  by (simp add: torn_def)

lemma torn_over: "torn old new (new @ drop (length new) old)"
  unfolding torn_def by (rule disjI2, rule exI [of _ "length new"]) simp

end
