(* ===== verification/Mounts.thy ===== *)
theory Mounts
  imports Go_Files Volumes Access_Token Reconciler_State
begin

text \<open>
  The mounter (\<open>internal/server/mount/mount.go\<close>): the secrets, variables and tokens a workload mounts, written
  as files as it starts, rewritten when they change, and removed with it.

  The tree below is that of the directory \<open>mounts\<close>. Its state is the tree, the answers of the host to the
  calls to come, and the table of tokens, minted with the operations of \<open>Access_Token\<close>. What the stores hold at
  the time of a call is part of its environment, as are SHA-256 and the JSON codec.
\<close>

section \<open>Environment and state\<close>

datatype mounter_error =
    ErrInvalidMount
  | Mnt_ErrSecretNotFound
  | Mnt_ErrVariableNotFound
  | Mnt_ErrWorkloadNotFound
  | Mnt_Unknown string reference_error
  | Mnt_Auth auth_error
  | Mnt_Store
  | Mnt_IO file_error
  | Mnt_Decode

type_synonym value_store = "string \<Rightarrow> mounter_error + string"

record mounter =
  mo_secrets :: "value_store option"
  mo_variables :: "value_store option"
  mo_tokens :: "(nat \<Rightarrow> auth_env) option"
  mo_workloads :: "(Reference \<Rightarrow> string \<Rightarrow> int \<Rightarrow> mounter_error + string) option"
  mo_directory :: string
  mo_digest :: "string \<Rightarrow> string"
  mo_Marshal :: "string_map \<Rightarrow> string"
  mo_Unmarshal :: "string \<Rightarrow> string_map option"

record mounts = disk +
  ms_tokens :: "token list"
  ms_mints :: nat

type_synonym 'a mounting = "(mounts, mounter_error + 'a) state"

definition io :: "(mounts, file_error + 'a) state \<Rightarrow> 'a mounting" where
  "io m = State_Monad.bind m (\<lambda>r. ret (map_sum Mnt_IO (\<lambda>x. x) r))"

definition mountFileDir :: string where
  "mountFileDir = ''files''"

definition mountStateDir :: string where
  "mountStateDir = ''state''"

definition stateExtension :: string where
  "stateExtension = ''.json''"

definition fileName :: "Reference \<Rightarrow> string" where
  "fileName r = kind_string (ref_Kind r) @ ''-'' @ ref_Name r"

definition valueMounts :: "Spec \<Rightarrow> VolumeMount list" where
  "valueMounts s = filter (\<lambda>m. mount_Reference m \<noteq> None) (spec_Volumes s)"

definition mount_ref :: "VolumeMount \<Rightarrow> Reference" where
  "mount_ref m = the (mount_Reference m)"

definition version_dir :: "string \<Rightarrow> int \<Rightarrow> string list" where
  "version_dir i ver = [mountFileDir, i, Itoa ver]"

definition record_path :: "string \<Rightarrow> int \<Rightarrow> string list" where
  "record_path i ver = [mountStateDir, i, Itoa ver @ stateExtension]"

definition file_path :: "string \<Rightarrow> int \<Rightarrow> Reference \<Rightarrow> string list" where
  "file_path i ver r = version_dir i ver @ [fileName r]"

section \<open>Reading values\<close>

definition StoreFor :: "mounter \<Rightarrow> ReferenceKind \<Rightarrow> value_store option \<times> mounter_error" where
  "StoreFor env kind =
     (if kind = KindVariable then (mo_variables env, Mnt_ErrVariableNotFound)
      else (mo_secrets env, Mnt_ErrSecretNotFound))"

definition mounter_value :: "mounter \<Rightarrow> Reference \<Rightarrow> mounter_error + string" where
  "mounter_value env r = (case StoreFor env (ref_Kind r) of
       (None, missing) \<Rightarrow> Inl missing | (Some store, missing) \<Rightarrow> store (ref_Name r))"

text \<open>What a reference inside an expanded variable reads; \<open>None\<close> when nothing holds the name.\<close>

definition mounter_resolve :: "mounter \<Rightarrow> Reference \<Rightarrow> string \<Rightarrow> mounter_error + string option" where
  "mounter_resolve env r reader =
     (if ref_Kind r = KindToken then Inr None
      else if ref_Kind r = KindWorkload then (case mo_workloads env of
          None \<Rightarrow> Inr None
        | Some address \<Rightarrow> (case address r reader 0 of
              Inl e \<Rightarrow> if e = Mnt_ErrWorkloadNotFound then Inr None else Inl e
            | Inr a \<Rightarrow> Inr (Some a)))
      else (case StoreFor env (ref_Kind r) of
          (None, missing) \<Rightarrow> Inr None
        | (Some store, missing) \<Rightarrow> (case store (ref_Name r) of
              Inl e \<Rightarrow> if e = missing then Inr None else Inl e
            | Inr v \<Rightarrow> Inr (Some v))))"

text \<open>
  The callback keeps the last failure; expansion stops at the first reference it cannot resolve, so the
  failure kept is the one of the reference it stopped at.
\<close>

definition render :: "mounter \<Rightarrow> string \<Rightarrow> VolumeMount \<Rightarrow> Reference \<Rightarrow> mounter_error + string" where
  "render env reader m r = (case mounter_value env r of
       Inl e \<Rightarrow> Inl e
     | Inr value \<Rightarrow>
         if \<not> mnt_Expand m then Inr value
         else (case Expand value (\<lambda>inner. case mounter_resolve env inner reader of
                   Inr (Some v) \<Rightarrow> Some v | _ \<Rightarrow> None) of
             Inr expanded \<Rightarrow> Inr expanded
           | Inl (UnknownReference kind inner) \<Rightarrow> (case mounter_resolve env inner reader of
                 Inl err \<Rightarrow> Inl err
               | Inr _ \<Rightarrow> Inl (Mnt_Unknown (ref_Name r) (UnknownReference kind inner)))
           | Inl e \<Rightarrow> Inl ErrInvalidMount))"

fun contents_from :: "mounter \<Rightarrow> VolumeMount list \<Rightarrow> string_map option \<Rightarrow> mounter_error + string_map option" where
  "contents_from env [] contents = Inr contents"
| "contents_from env (m # ms) contents =
     (if \<not> mnt_Expand m then contents_from env ms contents
      else (case mounter_value env \<lparr>ref_Kind = KindVariable, ref_Name = mnt_Var m, ref_Port = []\<rparr> of
          Inl e \<Rightarrow> Inl e
        | Inr value \<Rightarrow> contents_from env ms
            (Some (AList.update (mnt_Var m) value (case contents of None \<Rightarrow> [] | Some c \<Rightarrow> c)))))"

definition mounter_Contents :: "mounter \<Rightarrow> Spec \<Rightarrow> mounter_error + string_map option" where
  "mounter_Contents env spec = contents_from env (spec_Volumes spec) None"

section \<open>Writing\<close>

definition write_file :: "string list \<Rightarrow> string \<Rightarrow> unit mounting" where
  "write_file p value = io (and_then
     (State_Monad.bind (os_Chmod p) (\<lambda>r. ret (if r = Inl NotExist then Inr () else r)))
     (\<lambda>_. and_then (os_Open p) (\<lambda>_. and_then (file_WriteAt p value) (\<lambda>_. file_Truncate p (length value)))))"

definition read_delivered :: "mounter \<Rightarrow> string \<Rightarrow> int \<Rightarrow> string_map mounting" where
  "read_delivered env i ver =
     (if \<not> idPattern i then ret (Inl ErrInvalidMount)
      else State_Monad.bind (os_ReadFile (record_path i ver)) (\<lambda>r. ret (case r of
          Inl NotExist \<Rightarrow> Inr []
        | Inl e \<Rightarrow> Inl (Mnt_IO e)
        | Inr b \<Rightarrow> (case mo_Unmarshal env b of None \<Rightarrow> Inl Mnt_Decode | Some rec \<Rightarrow> Inr rec))))"

definition write_record :: "mounter \<Rightarrow> string \<Rightarrow> int \<Rightarrow> string_map \<Rightarrow> unit mounting" where
  "write_record env i ver rec =
     (if \<not> idPattern i then ret (Inl ErrInvalidMount)
      else io (and_then (os_MkdirAll [mountStateDir, i])
        (\<lambda>_. os_WriteFile (record_path i ver) (mo_Marshal env rec))))"

text \<open>A call of the token service: the \<open>n\<close>-th one draws its credential, identifier and time from \<open>draws n\<close>.\<close>

definition token_call ::
  "(nat \<Rightarrow> auth_env) \<Rightarrow> (auth_env \<Rightarrow> token list \<Rightarrow> (auth_error + 'a) \<times> token list) \<Rightarrow> 'a mounting" where
  "token_call draws call = State (\<lambda>s. case call (draws (ms_mints s)) (ms_tokens s) of
       (r, ts) \<Rightarrow> (map_sum Mnt_Auth (\<lambda>x. x) r, s\<lparr>ms_tokens := ts, ms_mints := Suc (ms_mints s)\<rparr>))"

definition write_credential :: "mounter \<Rightarrow> string list \<Rightarrow> string \<Rightarrow> string_map \<Rightarrow> string \<Rightarrow> string_map mounting" where
  "write_credential env p name rec credential =
     and_then (write_file p credential) (\<lambda>_. ret (Inr (AList.update name (mo_digest env credential) rec)))"

definition deliverToken ::
  "mounter \<Rightarrow> string list \<Rightarrow> string \<Rightarrow> int \<Rightarrow> VolumeMount \<Rightarrow> Reference \<Rightarrow> string_map \<Rightarrow> string_map
     \<Rightarrow> string_map mounting" where
  "deliverToken env p i ver m r previous rec = (case mo_tokens env of
       None \<Rightarrow> ret (Inl ErrInvalidMount)
     | Some draws \<Rightarrow>
         (let expires = (mnt_Signal m \<noteq> []); name = fileName r;
              minted = and_then (token_call draws (\<lambda>ae. MintWorkloadToken ae (ref_Name r) i ver expires))
                         (write_credential env p name rec)
          in (case map_of previous name of
              None \<Rightarrow> minted
            | Some old \<Rightarrow> State_Monad.bind (os_Stat p) (\<lambda>there. case there of
                  Inl e \<Rightarrow> minted
                | Inr _ \<Rightarrow> and_then (token_call draws (\<lambda>ae. RefreshWorkloadToken ae (ref_Name r) i ver expires))
                    (\<lambda>(credential, refreshed).
                       if \<not> refreshed then ret (Inr (AList.update name old rec))
                       else write_credential env p name rec credential)))))"

section \<open>Delivering and refreshing\<close>

definition deliver_one ::
  "mounter \<Rightarrow> string \<Rightarrow> int \<Rightarrow> string \<Rightarrow> string_map \<Rightarrow> VolumeMount \<Rightarrow> string_map \<Rightarrow> string_map mounting" where
  "deliver_one env i ver reader previous m rec =
     (let r = mount_ref m; p = file_path i ver r
      in if ref_Kind r = KindToken then deliverToken env p i ver m r previous rec
         else (case render env reader m r of
             Inl e \<Rightarrow> ret (Inl e)
           | Inr value \<Rightarrow> and_then (write_file p value)
               (\<lambda>_. ret (Inr (AList.update (fileName r) (mo_digest env value) rec)))))"

definition delivered_volume :: "mounter \<Rightarrow> string \<Rightarrow> int \<Rightarrow> VolumeMount \<Rightarrow> driver_Volume" where
  "delivered_volume env i ver m = \<lparr>vol_Name = ref_Name (mount_ref m),
     vol_Host = join_with ''/'' (mo_directory env # ''mounts'' # file_path i ver (mount_ref m)),
     vol_Target = mnt_To m, vol_ReadOnly = mnt_ReadOnly m, vol_Propagation = []\<rparr>"

fun deliver_each ::
  "mounter \<Rightarrow> string \<Rightarrow> int \<Rightarrow> string \<Rightarrow> string_map \<Rightarrow> VolumeMount list \<Rightarrow> string_map \<Rightarrow> driver_Volume list
     \<Rightarrow> (string_map \<times> driver_Volume list) mounting" where
  "deliver_each env i ver reader previous [] rec vols = ret (Inr (rec, vols))"
| "deliver_each env i ver reader previous (m # ms) rec vols =
     and_then (deliver_one env i ver reader previous m rec)
       (\<lambda>rec'. deliver_each env i ver reader previous ms rec' (vols @ [delivered_volume env i ver m]))"

definition Deliver :: "mounter \<Rightarrow> string \<Rightarrow> int \<Rightarrow> Spec \<Rightarrow> driver_Volume list mounting" where
  "Deliver env i ver spec =
     (if valueMounts spec = [] then ret (Inr [])
      else if \<not> idPattern i then ret (Inl ErrInvalidMount)
      else and_then (io (os_MkdirAll (version_dir i ver)))
        (\<lambda>_. and_then (read_delivered env i ver)
          (\<lambda>previous. and_then (deliver_each env i ver (spec_Name spec) previous (valueMounts spec) [] [])
            (\<lambda>(rec, vols). and_then (write_record env i ver rec) (\<lambda>_. ret (Inr vols))))))"

text \<open>What one mount is to be rewritten with, \<open>None\<close> when there is nothing to tell the workload about.\<close>

definition fresh_value ::
  "mounter \<Rightarrow> string \<Rightarrow> string \<Rightarrow> int \<Rightarrow> VolumeMount \<Rightarrow> string \<Rightarrow> string option mounting" where
  "fresh_value env reader i ver m old =
     (let r = mount_ref m
      in if ref_Kind r = KindToken then (case mo_tokens env of
            None \<Rightarrow> ret (Inl ErrInvalidMount)
          | Some draws \<Rightarrow> and_then (token_call draws (\<lambda>ae. RefreshWorkloadToken ae (ref_Name r) i ver True))
              (\<lambda>(credential, minted). ret (Inr (if minted then Some credential else None))))
         else ret (case render env reader m r of
             Inl e \<Rightarrow> Inl e
           | Inr v \<Rightarrow> Inr (if mo_digest env v = old then None else Some v)))"

fun refresh_each ::
  "mounter \<Rightarrow> string \<Rightarrow> string \<Rightarrow> int \<Rightarrow> VolumeMount list \<Rightarrow> string_map \<Rightarrow> mount_Refresh list
     \<Rightarrow> (string_map \<times> mount_Refresh list) mounting" where
  "refresh_each env reader i ver [] rec told = ret (Inr (rec, told))"
| "refresh_each env reader i ver (m # ms) rec told =
     (let r = mount_ref m; file = fileName r
      in (case map_of rec file of
          None \<Rightarrow> refresh_each env reader i ver ms rec told
        | Some old \<Rightarrow> and_then (fresh_value env reader i ver m old)
            (\<lambda>fresh. case fresh of
                None \<Rightarrow> refresh_each env reader i ver ms rec told
              | Some value \<Rightarrow> and_then (write_file (file_path i ver r) value)
                  (\<lambda>_. refresh_each env reader i ver ms (AList.update file (mo_digest env value) rec)
                     (told @ [\<lparr>mr_Reference = r, mr_Signal = mnt_Signal m\<rparr>])))))"

definition mounter_Refresh ::
  "mounter \<Rightarrow> string \<Rightarrow> string \<Rightarrow> int \<Rightarrow> Spec \<Rightarrow> mount_Refresh list mounting" where
  "mounter_Refresh env name i ver spec =
     (if signalledMounts spec = [] then ret (Inr [])
      else if \<not> idPattern i then ret (Inl ErrInvalidMount)
      else and_then (read_delivered env i ver)
        (\<lambda>rec. if rec = [] then ret (Inr [])
          else and_then (refresh_each env name i ver (signalledMounts spec) rec [])
            (\<lambda>(rec', refreshed).
               if refreshed = [] then ret (Inr [])
               else and_then (write_record env i ver rec') (\<lambda>_. ret (Inr refreshed)))))"

section \<open>Removing\<close>

definition Forget :: "string \<Rightarrow> unit mounting" where
  "Forget i =
     (if \<not> idPattern i then ret (Inl ErrInvalidMount)
      else and_then (io (os_RemoveAll [mountFileDir, i])) (\<lambda>_. io (os_RemoveAll [mountStateDir, i])))"

text \<open>An entry that holds a version: it is named for a number and carries the suffix.\<close>

definition version_entry :: "string \<Rightarrow> string \<Rightarrow> bool" where
  "version_entry ext name = (case CutSuffix name ext of (v, ok) \<Rightarrow> ok \<and> Atoi v \<noteq> None)"

fun reclaim_each :: "string list \<Rightarrow> string \<Rightarrow> string \<Rightarrow> (string \<times> bool) list \<Rightarrow> unit mounting" where
  "reclaim_each dir current ext [] = ret (Inr ())"
| "reclaim_each dir current ext ((name, folder) # es) =
     (if name = current \<or> \<not> version_entry ext name then reclaim_each dir current ext es
      else and_then (io (os_RemoveAll (dir @ [name]))) (\<lambda>_. reclaim_each dir current ext es))"

definition reclaim :: "string \<Rightarrow> string \<Rightarrow> int \<Rightarrow> string \<Rightarrow> unit mounting" where
  "reclaim tree i keep ext =
     (if \<not> idPattern i then ret (Inl ErrInvalidMount)
      else State_Monad.bind (os_ReadDir [tree, i]) (\<lambda>r. case r of
          Inl NotExist \<Rightarrow> ret (Inr ())
        | Inl e \<Rightarrow> ret (Inl (Mnt_IO e))
        | Inr entries \<Rightarrow> reclaim_each [tree, i] (Itoa keep @ ext) ext entries))"

definition Reclaim :: "string \<Rightarrow> int \<Rightarrow> unit mounting" where
  "Reclaim i keep = and_then (reclaim mountFileDir i keep []) (\<lambda>_. reclaim mountStateDir i keep stateExtension)"

fun prune_each :: "string \<Rightarrow> string list \<Rightarrow> (string \<times> bool) list \<Rightarrow> unit mounting" where
  "prune_each tree keep [] = ret (Inr ())"
| "prune_each tree keep ((name, folder) # es) =
     (if \<not> folder \<or> name \<in> set keep then prune_each tree keep es
      else and_then (io (os_RemoveAll [tree, name])) (\<lambda>_. prune_each tree keep es))"

definition prune_tree :: "string list \<Rightarrow> string \<Rightarrow> unit mounting" where
  "prune_tree keep tree = State_Monad.bind (os_ReadDir [tree]) (\<lambda>r. case r of
       Inl NotExist \<Rightarrow> ret (Inr ())
     | Inl e \<Rightarrow> ret (Inl (Mnt_IO e))
     | Inr entries \<Rightarrow> prune_each tree keep entries)"

definition mounter_Prune :: "string list \<Rightarrow> unit mounting" where
  "mounter_Prune keep = and_then (prune_tree keep mountFileDir) (\<lambda>_. prune_tree keep mountStateDir)"

lemma wp_io [wp_simps]: "wp (io m) Q s = wp m (\<lambda>r. Q (map_sum Mnt_IO (\<lambda>x. x) r)) s"
  by (simp add: io_def wp_def split: prod.split)

lemma wp_token_call [wp_simps]:
  "wp (token_call draws call) Q s = (case call (draws (ms_mints s)) (ms_tokens s) of
     (r, ts) \<Rightarrow> Q (map_sum Mnt_Auth (\<lambda>x. x) r) (s\<lparr>ms_tokens := ts, ms_mints := Suc (ms_mints s)\<rparr>))"
  by (simp add: token_call_def wp_def split: prod.split)

end
