(* ===== verification/Mount_Delivery.thy ===== *)
theory Mount_Delivery
  imports Mounts
begin

text \<open>
  What each call of the mounter does to the files below it, whatever the host answers: the rules by which
  whole deliveries, refreshes and removals are run.
\<close>

section \<open>Runs\<close>

text \<open>A step over the files: it may change those of \<open>ps\<close> and, when it ends well, makes \<open>Q\<close> true.\<close>

definition rewrites_only :: "string list set \<Rightarrow> 'a disk_scheme \<Rightarrow> 'a disk_scheme \<Rightarrow> bool" where
  "rewrites_only ps s s' \<longleftrightarrow> (\<forall>q. q \<notin> ps \<longrightarrow> content q (dk_tree s') = content q (dk_tree s))"

lemma rewrites_only_refl [simp]: "rewrites_only ps s s"
  by (simp add: rewrites_only_def)

lemma rewrites_only_trans: "rewrites_only ps s s' \<Longrightarrow> rewrites_only ps s' s'' \<Longrightarrow> rewrites_only ps s s''"
  by (simp add: rewrites_only_def)

lemma rewrites_only_mono: "rewrites_only ps s s' \<Longrightarrow> ps \<subseteq> qs \<Longrightarrow> rewrites_only qs s s'"
  by (auto simp: rewrites_only_def)

definition held :: "string list \<Rightarrow> 'a disk_scheme \<Rightarrow> string" where
  "held p s = (case content p (dk_tree s) of None \<Rightarrow> [] | Some b \<Rightarrow> b)"

lemma file_op:
  assumes "node_at p t = Some (File b)" "p \<noteq> []"
  shows "node_at p (alter p (content_map f) t) = Some (File (f b))"
    and "q \<noteq> p \<Longrightarrow> content q (alter p (content_map f) t) = content q t"
  using node_at_alter_there [OF assms] content_alter_other [of q p t "content_map f"] assms
  by (auto simp: content_map_def is_folder_def)

text \<open>Only the tree and the answers of the host move, and of the files only \<open>p\<close>.\<close>

definition file_step :: "string list \<Rightarrow> 'a disk_scheme \<Rightarrow> 'a disk_scheme \<Rightarrow> bool" where
  "file_step p s s' \<longleftrightarrow> rewrites_only {p} s s' \<and> disk.more s' = disk.more s"

lemma file_step_refl [simp]: "file_step p s s"
  by (simp add: file_step_def)

lemma file_step_trans: "file_step p s s' \<Longrightarrow> file_step p s' s'' \<Longrightarrow> file_step p s s''"
  by (auto simp: file_step_def intro: rewrites_only_trans)

lemma os_Chmod_wp: "wp (os_Chmod p) (\<lambda>r s'. file_step p s s' \<and> dk_tree s' = dk_tree s) s"
  by (simp add: os_defs wp_simps file_step_def rewrites_only_def split: option.split)

lemma os_Open_wp:
  assumes "p \<noteq> []"
  shows "wp (os_Open p) (\<lambda>r s'. file_step p s s' \<and> held p s' = held p s
    \<and> (r = Inr () \<longrightarrow> node_at p (dk_tree s') = Some (File (held p s)))) s"
proof -
  let ?t = "alter p or_empty (dk_tree s)"
  have "content q ?t = content q (dk_tree s)" if "\<not> is_folder (node_at p (dk_tree s))" "q \<noteq> p" for q
    using that content_alter_other [of q p "dk_tree s" or_empty]
    by (cases "node_at p (dk_tree s)") (auto simp: or_empty_def is_folder_def)
  moreover have "node_at p ?t = Some (File (held p s))"
    if "\<not> is_folder (node_at p (dk_tree s))" "is_folder (node_at (butlast p) (dk_tree s))"
    using that node_at_alter_same [OF assms, of "dk_tree s" or_empty]
    by (auto simp: or_empty_def is_folder_def held_def content_def split: option.split node.splits)
  ultimately show ?thesis
    by (auto simp: os_defs wp_simps opened_def file_step_def rewrites_only_def held_def content_def split: option.split)
qed

lemma file_content_wp:
  assumes "node_at p (dk_tree s) = Some (File b)" "p \<noteq> []"
    and "\<And>k. fails k (dk_tree s) \<in> {dk_tree s, alter p (content_map (g k)) (dk_tree s)}"
  shows "wp (os_call (\<lambda>t. (Inr (), alter p (content_map f) t)) fails)
    (\<lambda>r s'. file_step p s s' \<and> (\<exists>b'. node_at p (dk_tree s') = Some (File b')
      \<and> (if r = Inr () then b' = f b else b' = b \<or> (\<exists>k. b' = g k b)))) s"
proof (cases "first_answer (dk_answers s)")
  case None
  then show ?thesis using file_op [OF assms(1,2)] by (simp add: wp_simps file_step_def rewrites_only_def)
next
  case (Some k)
  then show ?thesis
    using file_op [OF assms(1,2)] assms(1) assms(3) [of k] by (auto simp: wp_simps file_step_def rewrites_only_def)
qed

lemma held_file: "node_at p (dk_tree s) = Some (File b) \<Longrightarrow> held p s = b \<and> content p (dk_tree s) = Some b"
  by (simp add: held_def content_def)

lemma write_file_wp:
  assumes "p \<noteq> []"
  shows "wp (write_file p v) (\<lambda>r s'. file_step p s s' \<and> torn (held p s) v (held p s')
    \<and> (r = Inr () \<longrightarrow> content p (dk_tree s') = Some v)) s"
proof -
  have truncate: "wp (file_Truncate p (length v)) (\<lambda>r s'. file_step p s1 s' \<and> held p s' \<in> {b, v}
      \<and> (r = Inr () \<longrightarrow> content p (dk_tree s') = Some v)) s1"
    if "node_at p (dk_tree s1) = Some (File b)" "take (length v) b = v" for s1 :: mounts and b
    unfolding file_Truncate_def
    by (rule wp_mono [OF file_content_wp [where g = "\<lambda>k b. b", OF that(1) assms]])
      (use that in \<open>auto dest!: held_file split: if_splits\<close>)
  have over: "wp (file_WriteAt p v) (\<lambda>r s'. file_step p s1 s' \<and> torn b v (held p s')
      \<and> (r = Inr () \<longrightarrow> node_at p (dk_tree s') = Some (File (v @ drop (length v) b)))) s1"
    if "node_at p (dk_tree s1) = Some (File b)" for s1 :: mounts and b
    unfolding file_WriteAt_def
    by (rule wp_mono [OF file_content_wp [where g = "\<lambda>k old. take k v @ drop (length (take k v)) old", OF that assms]])
      (auto simp: torn_over torn_def [of b v "take k v @ drop (min (length v) k) b" for k] dest!: held_file split: if_splits)
  have rest: "wp (and_then (file_WriteAt p v) (\<lambda>_. file_Truncate p (length v)))
      (\<lambda>r s'. file_step p s1 s' \<and> torn b v (held p s') \<and> (r = Inr () \<longrightarrow> content p (dk_tree s') = Some v)) s1"
    if "node_at p (dk_tree s1) = Some (File b)" for s1 :: mounts and b
  proof (rule wp_then [OF over [OF that]])
    fix u and s2 :: mounts
    assume it: "file_step p s1 s2 \<and> torn b v (held p s2)
      \<and> (Inr u = Inr () \<longrightarrow> node_at p (dk_tree s2) = Some (File (v @ drop (length v) b)))"
    then have "node_at p (dk_tree s2) = Some (File (v @ drop (length v) b))" by simp
    from truncate [OF this] show "wp (file_Truncate p (length v)) (\<lambda>r s'. file_step p s1 s' \<and> torn b v (held p s')
        \<and> (r = Inr () \<longrightarrow> content p (dk_tree s') = Some v)) s2"
      by (rule wp_mono) (use it in \<open>auto simp: torn_over intro: file_step_trans\<close>)
  qed simp
  have unlocked: "wp (State_Monad.bind (os_Chmod p) (\<lambda>r. ret (if r = Inl NotExist then Inr () else r)))
      (\<lambda>r s'. file_step p s s' \<and> dk_tree s' = dk_tree s) s"
    unfolding wp_bind by (rule wp_mono [OF os_Chmod_wp]) (simp add: wp_simps)
  show ?thesis
    unfolding write_file_def wp_io
  proof (rule wp_then [OF unlocked])
    fix u and s1 :: mounts
    assume same: "file_step p s s1 \<and> dk_tree s1 = dk_tree s"
    then have b: "held p s1 = held p s" by (simp add: held_def)
    show "wp (and_then (os_Open p) (\<lambda>_. and_then (file_WriteAt p v) (\<lambda>_. file_Truncate p (length v))))
        (\<lambda>r s'. file_step p s s' \<and> torn (held p s) v (held p s')
          \<and> (map_sum Mnt_IO (\<lambda>x. x) r = Inr () \<longrightarrow> content p (dk_tree s') = Some v)) s1"
    proof (rule wp_then [OF os_Open_wp [OF assms]])
      fix u and s2 :: mounts
      assume opened: "file_step p s1 s2 \<and> held p s2 = held p s1
        \<and> (Inr u = Inr () \<longrightarrow> node_at p (dk_tree s2) = Some (File (held p s1)))"
      then have "node_at p (dk_tree s2) = Some (File (held p s))" using b by simp
      from rest [OF this] show "wp (and_then (file_WriteAt p v) (\<lambda>_. file_Truncate p (length v)))
          (\<lambda>r s'. file_step p s s' \<and> torn (held p s) v (held p s')
            \<and> (map_sum Mnt_IO (\<lambda>x. x) r = Inr () \<longrightarrow> content p (dk_tree s') = Some v)) s2"
        by (rule wp_mono) (use same opened in \<open>auto simp: map_sum_eq_Inr intro: file_step_trans\<close>)
    qed (use same b in \<open>auto intro: file_step_trans\<close>)
  qed (simp add: held_def)
qed

section \<open>The record\<close>

definition recorded :: "mounter \<Rightarrow> string \<Rightarrow> int \<Rightarrow> 'a disk_scheme \<Rightarrow> string_map option" where
  "recorded env i ver s = (case content (record_path i ver) (dk_tree s) of None \<Rightarrow> Some [] | Some b \<Rightarrow> mo_Unmarshal env b)"

text \<open>Reads leave everything but the answers of the host alone.\<close>

definition same_host :: "'a disk_scheme \<Rightarrow> 'a disk_scheme \<Rightarrow> bool" where
  "same_host s s' \<longleftrightarrow> dk_tree s' = dk_tree s \<and> disk.more s' = disk.more s"

lemma read_delivered_wp:
  "wp (read_delivered env i ver) (\<lambda>r s'. same_host s s'
     \<and> (\<forall>rec. r = Inr rec \<longrightarrow> recorded env i ver s = Some rec \<and> idPattern i)) s"
  by (auto simp: read_delivered_def os_ReadFile_def wp_simps same_host_def recorded_def content_def
      split: option.splits node.splits)

lemma record_path_ne [simp]: "record_path i ver \<noteq> []" "file_path i ver r \<noteq> []" "file_path i ver r \<noteq> record_path i' ver'"
  by (simp_all add: record_path_def file_path_def version_dir_def)

lemma os_MkdirAll_wp: "wp (os_MkdirAll d) (\<lambda>r s'. rewrites_only {} s s' \<and> disk.more s' = disk.more s) s"
  by (auto simp: os_MkdirAll_def wp_simps rewrites_only_def content_mkdirs split: option.split)

lemma os_WriteFile_wp:
  assumes "p \<noteq> []"
  shows "wp (os_WriteFile p v) (\<lambda>r s'. file_step p s s' \<and> (r = Inr () \<longrightarrow> content p (dk_tree s') = Some v)) s"
proof -
  have emptied: "wp (os_call (opened True p) (\<lambda>k t. t)) (\<lambda>r s'. file_step p s s'
      \<and> (r = Inr () \<longrightarrow> node_at p (dk_tree s') = Some (File []))) s"
  proof -
    let ?t = "alter p (\<lambda>n. Some (File [])) (dk_tree s)"
    have "content q ?t = content q (dk_tree s)" if "\<not> is_folder (node_at p (dk_tree s))" "q \<noteq> p" for q
      using that content_alter_other [of q p "dk_tree s" "\<lambda>n. Some (File [])"] by (simp add: is_folder_def)
    then show ?thesis
      using node_at_alter_same [OF assms, of "dk_tree s" "\<lambda>n. Some (File [])"]
      by (auto simp: wp_simps opened_def file_step_def rewrites_only_def split: option.split)
  qed
  show ?thesis
    unfolding os_WriteFile_def
  proof (rule wp_then [OF emptied])
    fix u and s1 :: "'a disk_scheme"
    assume it: "file_step p s s1 \<and> (Inr u = Inr () \<longrightarrow> node_at p (dk_tree s1) = Some (File []))"
    then have "node_at p (dk_tree s1) = Some (File [])" by simp
    from file_content_wp [OF this assms, where f = "\<lambda>_. v" and g = "\<lambda>k _. take k v" and fails = "\<lambda>k. alter p (content_map (\<lambda>_. take k v))"]
    show "wp (os_call (\<lambda>t. (Inr (), alter p (content_map (\<lambda>_. v)) t)) (\<lambda>k. alter p (content_map (\<lambda>_. take k v))))
        (\<lambda>r s'. file_step p s s' \<and> (r = Inr () \<longrightarrow> content p (dk_tree s') = Some v)) s1"
      by (rule wp_mono) (use it in \<open>auto dest!: held_file intro: file_step_trans\<close>)
  qed simp
qed

lemma write_record_wp:
  "wp (write_record env i ver rec) (\<lambda>r s'. file_step (record_path i ver) s s'
     \<and> (r = Inr () \<longrightarrow> content (record_path i ver) (dk_tree s') = Some (mo_Marshal env rec))) s"
proof (cases "idPattern i")
  case True
  have "wp (and_then (os_MkdirAll [mountStateDir, i]) (\<lambda>_. os_WriteFile (record_path i ver) (mo_Marshal env rec)))
     (\<lambda>r s'. file_step (record_path i ver) s s'
       \<and> (r = Inr () \<longrightarrow> content (record_path i ver) (dk_tree s') = Some (mo_Marshal env rec))) s"
  proof (rule wp_then [OF os_MkdirAll_wp])
    fix u and s1 :: mounts
    assume "rewrites_only {} s s1 \<and> disk.more s1 = disk.more s"
    then have made: "file_step (record_path i ver) s s1" by (auto simp: file_step_def rewrites_only_def)
    show "wp (os_WriteFile (record_path i ver) (mo_Marshal env rec)) (\<lambda>r s'. file_step (record_path i ver) s s'
        \<and> (r = Inr () \<longrightarrow> content (record_path i ver) (dk_tree s') = Some (mo_Marshal env rec))) s1"
      by (rule wp_mono [OF os_WriteFile_wp [OF record_path_ne(1)]]) (use made in \<open>auto intro: file_step_trans\<close>)
  qed (auto simp: file_step_def rewrites_only_def)
  then show ?thesis
    unfolding write_record_def wp_if wp_io using True by (auto elim!: wp_mono simp: map_sum_eq_Inr)
qed (simp add: write_record_def wp_simps)

section \<open>Delivery\<close>

text \<open>What a delivery leaves for a mount: its digest \<open>d\<close> is that of what its file holds.\<close>

definition delivered_to ::
  "mounter \<Rightarrow> string \<Rightarrow> int \<Rightarrow> string \<Rightarrow> string_map \<Rightarrow> VolumeMount \<Rightarrow> 'a disk_scheme \<Rightarrow> string \<Rightarrow> bool" where
  "delivered_to env i ver reader previous m s d \<longleftrightarrow>
     (let p = file_path i ver (mount_ref m)
      in if ref_Kind (mount_ref m) = KindToken
         then (\<exists>c. content p (dk_tree s) = Some c \<and> d = mo_digest env c) \<or> map_of previous (fileName (mount_ref m)) = Some d
         else (\<exists>v. render env reader m (mount_ref m) = Inr v \<and> content p (dk_tree s) = Some v \<and> d = mo_digest env v))"

lemma write_credential_wp:
  assumes "p \<noteq> []"
  shows "wp (write_credential env p name rec c) (\<lambda>r s'. rewrites_only {p} s s'
    \<and> (\<forall>rec'. r = Inr rec' \<longrightarrow> rec' = AList.update name (mo_digest env c) rec \<and> content p (dk_tree s') = Some c)) s"
  unfolding write_credential_def
  by (rule wp_then [OF write_file_wp [OF assms]]) (auto simp: wp_simps file_step_def)

text \<open>One mount: only its file changes, and its digest is added to the record.\<close>

definition delivers_one ::
  "mounter \<Rightarrow> string \<Rightarrow> int \<Rightarrow> string \<Rightarrow> string_map \<Rightarrow> VolumeMount \<Rightarrow> string_map \<Rightarrow> mounts \<Rightarrow> mounter_error + string_map
     \<Rightarrow> mounts \<Rightarrow> bool" where
  "delivers_one env i ver reader previous m rec s r s' \<longleftrightarrow> rewrites_only {file_path i ver (mount_ref m)} s s'
     \<and> (\<forall>rec'. r = Inr rec' \<longrightarrow> (\<exists>d. rec' = AList.update (fileName (mount_ref m)) d rec
          \<and> delivered_to env i ver reader previous m s' d))"

lemma same_tree_rewrites_only: "dk_tree s' = dk_tree s \<Longrightarrow> rewrites_only ps s s'"
  by (simp add: rewrites_only_def)

lemma os_Stat_wp: "wp (os_Stat p) (\<lambda>r s'. dk_tree s' = dk_tree s) s"
  by (simp add: os_Stat_def wp_simps split: option.split)

lemma deliverToken_wp:
  assumes "ref_Kind (mount_ref m) = KindToken"
  shows "wp (deliverToken env (file_path i ver (mount_ref m)) i ver m (mount_ref m) previous rec)
    (delivers_one env i ver reader previous m rec s) s"
proof (cases "mo_tokens env")
  case None
  then show ?thesis by (simp add: deliverToken_def delivers_one_def wp_simps)
next
  case (Some draws)
  let ?p = "file_path i ver (mount_ref m)"
  let ?name = "fileName (mount_ref m)"
  let ?Q = "delivers_one env i ver reader previous m rec s"
  have credential: "wp (write_credential env ?p ?name rec c) ?Q s1" if "dk_tree s1 = dk_tree s" for c s1
    by (rule wp_mono [OF write_credential_wp])
      (use that assms same_tree_rewrites_only [OF that] in
        \<open>auto simp: delivers_one_def delivered_to_def Let_def intro: rewrites_only_trans\<close>)
  have minted: "wp (and_then (token_call draws call) (write_credential env ?p ?name rec)) ?Q s1"
    if "dk_tree s1 = dk_tree s" for call s1
    unfolding wp_and_then wp_token_call
    using that credential same_tree_rewrites_only [OF that]
    by (auto simp: delivers_one_def rewrites_only_def split: prod.split sum.split)
  show ?thesis
  proof (cases "map_of previous ?name")
    case None
    then show ?thesis using Some minted [OF refl] by (simp add: deliverToken_def Let_def)
  next
    case (Some old)
    have kept: "?Q (Inr (AList.update ?name old rec)) s1" if "dk_tree s1 = dk_tree s" for s1
      using that assms Some same_tree_rewrites_only [OF that] by (auto simp: delivers_one_def delivered_to_def)
    have refreshed: "wp (and_then (token_call draws call) (\<lambda>(c, fresh). if \<not> fresh then ret (Inr (AList.update ?name old rec))
        else write_credential env ?p ?name rec c)) ?Q s1" if "dk_tree s1 = dk_tree s" for call s1
      unfolding wp_and_then wp_token_call
      using that credential kept same_tree_rewrites_only [OF that]
      by (auto simp: wp_simps delivers_one_def rewrites_only_def split: prod.split sum.split)
    show ?thesis
      unfolding deliverToken_def Let_def \<open>mo_tokens env = Some draws\<close> Some option.case wp_bind
    proof (rule wp_mono [OF os_Stat_wp])
      fix there and s1 :: mounts
      assume "dk_tree s1 = dk_tree s"
      note here = minted [OF this] refreshed [OF this]
      show "wp (case there of
            Inl e \<Rightarrow> and_then (token_call draws (\<lambda>ae. MintWorkloadToken ae (ref_Name (mount_ref m)) i ver (mnt_Signal m \<noteq> [])))
              (write_credential env ?p ?name rec)
          | Inr _ \<Rightarrow> and_then (token_call draws (\<lambda>ae. RefreshWorkloadToken ae (ref_Name (mount_ref m)) i ver (mnt_Signal m \<noteq> [])))
              (\<lambda>(c, fresh). if \<not> fresh then ret (Inr (AList.update ?name old rec)) else write_credential env ?p ?name rec c)) ?Q s1"
        by (cases there) (simp_all only: sum.case here)
    qed
  qed
qed

lemma deliver_one_wp: "wp (deliver_one env i ver reader previous m rec) (delivers_one env i ver reader previous m rec s) s"
proof (cases "ref_Kind (mount_ref m) = KindToken")
  case True
  then show ?thesis using deliverToken_wp [OF True] by (simp add: deliver_one_def Let_def)
next
  case False
  show ?thesis
  proof (cases "render env reader m (mount_ref m)")
    case (Inl e)
    then show ?thesis using False by (simp add: deliver_one_def Let_def wp_simps delivers_one_def)
  next
    case (Inr v)
    have "wp (and_then (write_file (file_path i ver (mount_ref m)) v)
        (\<lambda>_. ret (Inr (AList.update (fileName (mount_ref m)) (mo_digest env v) rec))))
        (delivers_one env i ver reader previous m rec s) s"
      by (rule wp_then [OF write_file_wp])
        (use False Inr in \<open>auto simp: wp_simps file_step_def delivers_one_def delivered_to_def Let_def\<close>)
    then show ?thesis using False Inr by (simp add: deliver_one_def Let_def)
  qed
qed

abbreviation mount_file :: "VolumeMount \<Rightarrow> string" where
  "mount_file m \<equiv> fileName (mount_ref m)"

abbreviation mount_path :: "string \<Rightarrow> int \<Rightarrow> VolumeMount \<Rightarrow> string list" where
  "mount_path i ver m \<equiv> file_path i ver (mount_ref m)"

lemma file_path_inj: "file_path i ver r = file_path i ver r' \<longleftrightarrow> fileName r = fileName r'"
  by (simp add: file_path_def)

lemma delivered_to_touched:
  "delivered_to env i ver reader previous m s d \<Longrightarrow> rewrites_only ps s s' \<Longrightarrow> mount_path i ver m \<notin> ps
    \<Longrightarrow> delivered_to env i ver reader previous m s' d"
  by (auto simp: delivered_to_def rewrites_only_def Let_def split: if_splits)

definition delivers_each ::
  "mounter \<Rightarrow> string \<Rightarrow> int \<Rightarrow> string \<Rightarrow> string_map \<Rightarrow> VolumeMount list \<Rightarrow> string_map \<Rightarrow> driver_Volume list \<Rightarrow> mounts
     \<Rightarrow> mounter_error + (string_map \<times> driver_Volume list) \<Rightarrow> mounts \<Rightarrow> bool" where
  "delivers_each env i ver reader previous ms rec vols s r s' \<longleftrightarrow> rewrites_only (mount_path i ver ` set ms) s s'
     \<and> (\<forall>rec' vols'. r = Inr (rec', vols') \<longrightarrow> vols' = vols @ map (delivered_volume env i ver) ms
          \<and> (\<forall>m\<in>set ms. \<exists>d. map_of rec' (mount_file m) = Some d \<and> delivered_to env i ver reader previous m s' d)
          \<and> (\<forall>name. name \<notin> mount_file ` set ms \<longrightarrow> map_of rec' name = map_of rec name))"

lemma deliver_each_wp:
  "distinct (map mount_file ms) \<Longrightarrow> wp (deliver_each env i ver reader previous ms rec vols)
     (delivers_each env i ver reader previous ms rec vols s) s"
proof (induction ms arbitrary: rec vols s)
  case Nil
  then show ?case by (simp add: wp_simps delivers_each_def)
next
  case (Cons m ms)
  show ?case
    unfolding deliver_each.simps
  proof (rule wp_then [OF deliver_one_wp])
    fix e s1
    assume "delivers_one env i ver reader previous m rec s (Inl e) s1"
    then show "delivers_each env i ver reader previous (m # ms) rec vols s (Inl e) s1"
      by (auto simp: delivers_one_def delivers_each_def intro: rewrites_only_mono)
  next
    fix rec1 s1
    assume "delivers_one env i ver reader previous m rec s (Inr rec1) s1"
    then obtain d where one: "rewrites_only {mount_path i ver m} s s1" "rec1 = AList.update (mount_file m) d rec"
      "delivered_to env i ver reader previous m s1 d"
      by (auto simp: delivers_one_def)
    have apart: "mount_path i ver m \<notin> mount_path i ver ` set ms" "mount_file m \<notin> mount_file ` set ms"
      using Cons.prems by (auto simp: file_path_inj image_iff)
    from Cons.IH [of rec1 "vols @ [delivered_volume env i ver m]" s1] Cons.prems
    have "wp (deliver_each env i ver reader previous ms rec1 (vols @ [delivered_volume env i ver m]))
      (delivers_each env i ver reader previous ms rec1 (vols @ [delivered_volume env i ver m]) s1) s1" by simp
    then show "wp (deliver_each env i ver reader previous ms rec1 (vols @ [delivered_volume env i ver m]))
      (delivers_each env i ver reader previous (m # ms) rec vols s) s1"
    proof (rule wp_mono)
      fix r s2
      assume each: "delivers_each env i ver reader previous ms rec1 (vols @ [delivered_volume env i ver m]) s1 r s2"
      then have still: "delivered_to env i ver reader previous m s2 d"
        using delivered_to_touched [OF one(3) _ apart(1)] by (auto simp: delivers_each_def)
      have "rewrites_only (mount_path i ver ` set (m # ms)) s s2"
        using each one(1) by (auto simp: delivers_each_def rewrites_only_def)
      then show "delivers_each env i ver reader previous (m # ms) rec vols s r s2"
        using each still apart(2) one(2) by (auto simp: delivers_each_def update_conv')
    qed
  qed
qed

section \<open>The files of a validated specification\<close>

lemma mount_key_ref:
  "KindOf m = Inr k \<Longrightarrow> mount_Reference m = Some r \<Longrightarrow> mount_key m = Some
     (if ref_Kind r = KindSecret then MountSecret else if ref_Kind r = KindVariable then MountVariable else MountToken, ref_Name r)"
  by (auto simp: mount_key_def KindOf_def Let_def mount_Reference_def source_key_def mount_Source_def split: if_splits)

lemma fileName_inj: "fileName r = fileName r' \<Longrightarrow> ref_Kind r = ref_Kind r' \<and> ref_Name r = ref_Name r'"
  by (cases "ref_Kind r"; cases "ref_Kind r'") (simp_all add: fileName_def)

lemma wf_volumes_files:
  assumes "wf_volumes ms rt" "set ks \<subseteq> set ms" "distinct ks" "\<forall>m\<in>set ks. mount_Reference m \<noteq> None"
  shows "distinct (map mount_file ks)"
proof -
  have kinds: "\<exists>k r. KindOf m = Inr k \<and> mount_Reference m = Some r" if "m \<in> set ks" for m
    using assms(1,2,4) that by (cases "KindOf m") (auto simp: wf_volumes_def list_all_iff split: sum.splits)
  have inj: "inj_on mount_key (set ms)" using assms(1) by (simp add: wf_volumes_def distinct_map)
  have "inj_on mount_file (set ks)"
  proof (rule inj_onI)
    fix m m'
    assume m: "m \<in> set ks" "m' \<in> set ks" "mount_file m = mount_file m'"
    obtain k r where 1: "KindOf m = Inr k" "mount_Reference m = Some r" using kinds [OF m(1)] by blast
    obtain k' r' where 2: "KindOf m' = Inr k'" "mount_Reference m' = Some r'" using kinds [OF m(2)] by blast
    have "ref_Kind r = ref_Kind r' \<and> ref_Name r = ref_Name r'"
      using m(3) 1(2) 2(2) by (intro fileName_inj) (simp add: mount_ref_def)
    then have "mount_key m = mount_key m'" using mount_key_ref [OF 1] mount_key_ref [OF 2] by simp
    then show "m = m'" using inj_onD [OF inj] m(1,2) assms(2) by blast
  qed
  then show ?thesis using assms(3) by (simp add: distinct_map)
qed

lemma validated_files:
  assumes "ValidateWorkload ps spec = None"
  shows "distinct (map mount_file (valueMounts spec))" "distinct (map mount_file (signalledMounts spec))"
proof -
  obtain rt where wf: "wf_volumes (spec_Volumes spec) rt"
    using assms unfolding ValidateWorkload_accepts by (auto simp: wf_spec_def)
  then have "distinct (spec_Volumes spec)" by (simp add: wf_volumes_def distinct_map)
  then show "distinct (map mount_file (valueMounts spec))" "distinct (map mount_file (signalledMounts spec))"
    using wf_volumes_files [OF wf] by (auto simp: valueMounts_def signalledMounts_def)
qed

section \<open>Refreshes\<close>

definition told_of :: "VolumeMount \<Rightarrow> mount_Refresh" where
  "told_of m = \<lparr>mr_Reference = mount_ref m, mr_Signal = mnt_Signal m\<rparr>"

abbreviation is_token :: "VolumeMount \<Rightarrow> bool" where
  "is_token m \<equiv> ref_Kind (mount_ref m) = KindToken"

lemma fresh_value_wp:
  "wp (fresh_value env reader i ver m old) (\<lambda>r s'. dk_tree s' = dk_tree s
     \<and> (\<forall>x. r = Inr x \<and> \<not> is_token m \<longrightarrow> (\<exists>v. render env reader m (mount_ref m) = Inr v
            \<and> x = (if mo_digest env v = old then None else Some v)))) s"
proof (cases "is_token m")
  case True
  then show ?thesis
    by (auto simp: fresh_value_def Let_def wp_simps split: option.split prod.split sum.split)
next
  case False
  then show ?thesis
    by (cases "render env reader m (mount_ref m)") (auto simp: fresh_value_def Let_def wp_simps)
qed

text \<open>What a refresh makes of the mounts \<open>ms\<close>: \<open>ks\<close> are those it tells the workload about.\<close>

definition refreshed_mount ::
  "mounter \<Rightarrow> string \<Rightarrow> string \<Rightarrow> int \<Rightarrow> string_map \<Rightarrow> mounts \<Rightarrow> VolumeMount list \<Rightarrow> string_map \<Rightarrow> mounts \<Rightarrow> VolumeMount \<Rightarrow> bool" where
  "refreshed_mount env reader i ver rec s ks rec' s' m \<longleftrightarrow>
     (case map_of rec (mount_file m) of
        None \<Rightarrow> m \<notin> set ks
      | Some old \<Rightarrow>
          (\<not> is_token m \<longrightarrow> (\<exists>v. render env reader m (mount_ref m) = Inr v \<and> (m \<in> set ks \<longleftrightarrow> mo_digest env v \<noteq> old)))
          \<and> (m \<in> set ks \<longrightarrow> (\<exists>c. content (mount_path i ver m) (dk_tree s') = Some c \<and> map_of rec' (mount_file m) = Some (mo_digest env c)
               \<and> (\<not> is_token m \<longrightarrow> render env reader m (mount_ref m) = Inr c)))
          \<and> (m \<notin> set ks \<longrightarrow> map_of rec' (mount_file m) = Some old))
     \<and> (m \<notin> set ks \<longrightarrow> content (mount_path i ver m) (dk_tree s') = content (mount_path i ver m) (dk_tree s))"

lemma record_apart: "record_path i ver \<notin> mount_path i' ver' ` X"
  using record_path_ne(3) by (metis imageE)

definition refreshes_each ::
  "mounter \<Rightarrow> string \<Rightarrow> string \<Rightarrow> int \<Rightarrow> VolumeMount list \<Rightarrow> string_map \<Rightarrow> mount_Refresh list \<Rightarrow> mounts
     \<Rightarrow> mounter_error + (string_map \<times> mount_Refresh list) \<Rightarrow> mounts \<Rightarrow> bool" where
  "refreshes_each env reader i ver ms rec told s r s' \<longleftrightarrow> rewrites_only (mount_path i ver ` set ms) s s'
     \<and> (\<forall>rec' told'. r = Inr (rec', told') \<longrightarrow> (\<exists>ks. told' = told @ map told_of ks \<and> subseq ks ms
          \<and> (\<forall>m\<in>set ms. refreshed_mount env reader i ver rec s ks rec' s' m)
          \<and> (ks = [] \<longrightarrow> rec' = rec)
          \<and> (\<forall>name. name \<notin> mount_file ` set ms \<longrightarrow> map_of rec' name = map_of rec name)))"

lemma refreshed_mount_cong:
  "map_of rec1 (mount_file m) = map_of rec (mount_file m)
    \<Longrightarrow> content (mount_path i ver m) (dk_tree s1) = content (mount_path i ver m) (dk_tree s)
    \<Longrightarrow> (m \<in> set ks1 \<longleftrightarrow> m \<in> set ks)
    \<Longrightarrow> refreshed_mount env reader i ver rec1 s1 ks1 rec' s' m = refreshed_mount env reader i ver rec s ks rec' s' m"
  by (auto simp: refreshed_mount_def split: option.split)

lemma refreshed_mount_later:
  "content (mount_path i ver m) (dk_tree s3) = content (mount_path i ver m) (dk_tree s2)
    \<Longrightarrow> refreshed_mount env reader i ver rec s ks rec' s2 m \<Longrightarrow> refreshed_mount env reader i ver rec s ks rec' s3 m"
  by (auto simp: refreshed_mount_def split: option.splits)

lemma subseq_in_set: "subseq ks ms \<Longrightarrow> x \<in> set ks \<Longrightarrow> x \<in> set ms"
  by (metis subseq_order.order_trans subseq_singleton_left)

lemma refreshes_Cons:
  assumes rest: "refreshes_each env reader i ver ms rec1 (told @ map told_of k1) s1 r s2"
    and files: "distinct (map mount_file (m # ms))"
    and here: "rewrites_only {mount_path i ver m} s s1" "\<And>name. name \<noteq> mount_file m \<Longrightarrow> map_of rec1 name = map_of rec name"
    and k1: "k1 \<in> {[], [m]}" "k1 = [] \<Longrightarrow> rec1 = rec"
    and head: "\<And>rec' ks. map_of rec' (mount_file m) = map_of rec1 (mount_file m)
      \<Longrightarrow> content (mount_path i ver m) (dk_tree s2) = content (mount_path i ver m) (dk_tree s1)
      \<Longrightarrow> (m \<in> set ks \<longleftrightarrow> k1 \<noteq> []) \<Longrightarrow> refreshed_mount env reader i ver rec s ks rec' s2 m"
  shows "refreshes_each env reader i ver (m # ms) rec told s r s2"
proof -
  have apart: "mount_path i ver m \<notin> mount_path i ver ` set ms" "mount_file m \<notin> mount_file ` set ms" "m \<notin> set ms"
    using files by (auto simp: file_path_inj)
  have moved: "rewrites_only (mount_path i ver ` set ms) s1 s2" using rest by (simp add: refreshes_each_def)
  then have "rewrites_only (mount_path i ver ` set (m # ms)) s s2" using here(1) by (auto simp: rewrites_only_def)
  moreover have "\<exists>ks. told' = told @ map told_of ks \<and> subseq ks (m # ms)
      \<and> (\<forall>x\<in>set (m # ms). refreshed_mount env reader i ver rec s ks rec' s2 x)
      \<and> (ks = [] \<longrightarrow> rec' = rec)
      \<and> (\<forall>name. name \<notin> mount_file ` set (m # ms) \<longrightarrow> map_of rec' name = map_of rec name)"
    if it: "r = Inr (rec', told')" for rec' told'
  proof -
    obtain ks where ks: "told' = (told @ map told_of k1) @ map told_of ks" "subseq ks ms"
      "\<forall>x\<in>set ms. refreshed_mount env reader i ver rec1 s1 ks rec' s2 x" "ks = [] \<longrightarrow> rec' = rec1"
      "\<forall>name. name \<notin> mount_file ` set ms \<longrightarrow> map_of rec' name = map_of rec1 name"
      using rest it by (auto simp: refreshes_each_def)
    have "refreshed_mount env reader i ver rec s (k1 @ ks) rec' s2 x" if "x \<in> set ms" for x
    proof -
      have "mount_file x \<noteq> mount_file m" "x \<noteq> m" "mount_path i ver x \<noteq> mount_path i ver m"
        using that apart by (auto simp: file_path_inj image_iff)
      moreover from this have "content (mount_path i ver x) (dk_tree s1) = content (mount_path i ver x) (dk_tree s)"
        using here(1) by (simp add: rewrites_only_def)
      ultimately show ?thesis
        using ks(3) that refreshed_mount_cong [OF here(2), of x i ver s1 s ks "k1 @ ks" env reader rec' s2] k1(1) by auto
    qed
    moreover have "refreshed_mount env reader i ver rec s (k1 @ ks) rec' s2 m"
    proof (rule head)
      show "map_of rec' (mount_file m) = map_of rec1 (mount_file m)" using ks(5) apart(2) by simp
      show "content (mount_path i ver m) (dk_tree s2) = content (mount_path i ver m) (dk_tree s1)"
        using moved apart(1) by (simp add: rewrites_only_def)
      show "m \<in> set (k1 @ ks) \<longleftrightarrow> k1 \<noteq> []" using k1(1) apart(3) ks(2) by (auto dest: subseq_in_set)
    qed
    moreover have "subseq (k1 @ ks) (m # ms)" using k1(1) ks(2) by auto
    ultimately show ?thesis using ks(1,4,5) k1 here(2) by (intro exI [of _ "k1 @ ks"]) auto
  qed
  ultimately show ?thesis by (simp add: refreshes_each_def)
qed

lemma refresh_each_wp:
  "distinct (map mount_file ms) \<Longrightarrow> wp (refresh_each env reader i ver ms rec told)
     (refreshes_each env reader i ver ms rec told s) s"
proof (induction ms arbitrary: rec told s)
  case Nil
  then show ?case by (simp add: wp_simps refreshes_each_def)
next
  case (Cons m ms)
  have files: "distinct (map mount_file ms)" using Cons.prems by simp
  show ?case
  proof (cases "map_of rec (mount_file m)")
    case None
    have "refreshes_each env reader i ver (m # ms) rec told s r s2"
      if "refreshes_each env reader i ver ms rec told s r s2" for r s2
      by (rule refreshes_Cons [where ?k1.0 = "[]" and ?rec1.0 = rec and ?s1.0 = s])
        (use that Cons.prems None in \<open>auto simp: refreshed_mount_def\<close>)
    then show ?thesis using wp_mono [OF Cons.IH [OF files]] None by (simp add: Let_def)
  next
    case (Some old)
    show ?thesis
      unfolding refresh_each.simps Let_def Some option.case
    proof (rule wp_then [OF fresh_value_wp])
      fix x and s1 :: mounts
      assume fresh: "dk_tree s1 = dk_tree s \<and> (\<forall>y. (Inr x :: mounter_error + string option) = Inr y \<and> \<not> is_token m \<longrightarrow> (\<exists>v. render env reader m (mount_ref m) = Inr v
            \<and> y = (if mo_digest env v = old then None else Some v)))"
      show "wp (case x of None \<Rightarrow> refresh_each env reader i ver ms rec told
          | Some value \<Rightarrow> and_then (write_file (mount_path i ver m) value)
              (\<lambda>_. refresh_each env reader i ver ms (AList.update (mount_file m) (mo_digest env value) rec)
                 (told @ [\<lparr>mr_Reference = mount_ref m, mr_Signal = mnt_Signal m\<rparr>])))
          (refreshes_each env reader i ver (m # ms) rec told s) s1"
      proof (cases x)
        case None
        have "refreshes_each env reader i ver (m # ms) rec told s r s2"
          if "refreshes_each env reader i ver ms rec told s1 r s2" for r s2
          by (rule refreshes_Cons [where ?k1.0 = "[]" and ?rec1.0 = rec and ?s1.0 = s1])
            (use that Cons.prems None Some fresh in \<open>auto simp: refreshed_mount_def same_tree_rewrites_only split: if_splits\<close>)
        then show ?thesis using wp_mono [OF Cons.IH [OF files]] None by simp
      next
        case (Some new)
        show ?thesis
          unfolding Some option.case
        proof (rule wp_then [OF write_file_wp])
          fix u and s2 :: mounts
          assume wrote: "file_step (mount_path i ver m) s1 s2 \<and> torn (held (mount_path i ver m) s1) new (held (mount_path i ver m) s2)
            \<and> (Inr u = Inr () \<longrightarrow> content (mount_path i ver m) (dk_tree s2) = Some new)"
          have there: "rewrites_only {mount_path i ver m} s s2"
            using wrote fresh by (simp add: file_step_def rewrites_only_def)
          have "refreshes_each env reader i ver (m # ms) rec told s r s3"
            if "refreshes_each env reader i ver ms (AList.update (mount_file m) (mo_digest env new) rec) (told @ map told_of [m]) s2 r s3" for r s3
            by (rule refreshes_Cons [OF that Cons.prems there])
              (use wrote fresh Some \<open>map_of rec (mount_file m) = Some old\<close> in
                \<open>auto simp: refreshed_mount_def update_conv' split: if_splits\<close>)
          then show "wp (refresh_each env reader i ver ms (AList.update (mount_file m) (mo_digest env new) rec)
              (told @ [\<lparr>mr_Reference = mount_ref m, mr_Signal = mnt_Signal m\<rparr>])) (refreshes_each env reader i ver (m # ms) rec told s) s2"
            using wp_mono [OF Cons.IH [OF files]] by (simp add: told_of_def)
        qed (use fresh in \<open>auto simp: refreshes_each_def file_step_def rewrites_only_def\<close>)
      qed
    qed (simp add: refreshes_each_def same_tree_rewrites_only)
  qed
qed

section \<open>Whole calls\<close>

lemma Deliver_wp:
  assumes "valueMounts spec \<noteq> []" "distinct (map mount_file (valueMounts spec))"
  shows "wp (Deliver env i ver spec) (\<lambda>r s'. \<forall>vols. r = Inr vols \<longrightarrow>
     vols = map (delivered_volume env i ver) (valueMounts spec)
     \<and> (\<exists>previous rec. recorded env i ver s = Some previous
          \<and> content (record_path i ver) (dk_tree s') = Some (mo_Marshal env rec)
          \<and> (\<forall>m\<in>set (valueMounts spec). \<exists>d. map_of rec (mount_file m) = Some d
                \<and> delivered_to env i ver (spec_Name spec) previous m s' d))) s"
  (is "wp _ ?Q s")
proof (cases "idPattern i")
  case False
  then show ?thesis using assms(1) by (simp add: Deliver_def wp_simps)
next
  case True
  have made: "wp (io (os_MkdirAll (version_dir i ver))) (\<lambda>r s'. rewrites_only {} s s') s"
    unfolding wp_io by (rule wp_mono [OF os_MkdirAll_wp]) simp
  have "wp (and_then (io (os_MkdirAll (version_dir i ver))) (\<lambda>_. and_then (read_delivered env i ver)
      (\<lambda>previous. and_then (deliver_each env i ver (spec_Name spec) previous (valueMounts spec) [] [])
         (\<lambda>(rec, vols). and_then (write_record env i ver rec) (\<lambda>_. ret (Inr vols)))))) ?Q s"
  proof (rule wp_then [OF made])
    fix u s1
    assume s1: "rewrites_only {} s s1"
    show "wp (and_then (read_delivered env i ver)
        (\<lambda>previous. and_then (deliver_each env i ver (spec_Name spec) previous (valueMounts spec) [] [])
           (\<lambda>(rec, vols). and_then (write_record env i ver rec) (\<lambda>_. ret (Inr vols))))) ?Q s1"
    proof (rule wp_then [OF read_delivered_wp])
      fix previous s2
      assume "same_host s1 s2 \<and> (\<forall>rec. (Inr previous :: mounter_error + string_map) = Inr rec \<longrightarrow> recorded env i ver s1 = Some rec \<and> idPattern i)"
      then have previous: "recorded env i ver s = Some previous"
        using s1 by (simp add: recorded_def rewrites_only_def)
      show "wp (and_then (deliver_each env i ver (spec_Name spec) previous (valueMounts spec) [] [])
           (\<lambda>(rec, vols). and_then (write_record env i ver rec) (\<lambda>_. ret (Inr vols)))) ?Q s2"
      proof (rule wp_then [OF deliver_each_wp [OF assms(2)]])
        fix x s3
        assume each: "delivers_each env i ver (spec_Name spec) previous (valueMounts spec) [] [] s2 (Inr x) s3"
        obtain rec vols where x: "x = (rec, vols)" by (cases x)
        show "wp (case x of (rec, vols) \<Rightarrow> and_then (write_record env i ver rec) (\<lambda>_. ret (Inr vols))) ?Q s3"
          unfolding x prod.case
        proof (rule wp_then [OF write_record_wp])
          fix u s4
          assume wrote: "file_step (record_path i ver) s3 s4
            \<and> ((Inr u :: mounter_error + unit) = Inr () \<longrightarrow> content (record_path i ver) (dk_tree s4) = Some (mo_Marshal env rec))"
          have "\<exists>d. map_of rec (mount_file m) = Some d \<and> delivered_to env i ver (spec_Name spec) previous m s4 d"
            if m: "m \<in> set (valueMounts spec)" for m
          proof -
            obtain d where d: "map_of rec (mount_file m) = Some d" "delivered_to env i ver (spec_Name spec) previous m s3 d"
              using each m by (auto simp: delivers_each_def x)
            have "delivered_to env i ver (spec_Name spec) previous m s4 d"
              by (rule delivered_to_touched [OF d(2), of "{record_path i ver}"]) (use wrote in \<open>auto simp: file_step_def\<close>)
            then show ?thesis using d(1) by blast
          qed
          moreover have "vols = map (delivered_volume env i ver) (valueMounts spec)"
            using each by (auto simp: delivers_each_def x)
          ultimately show "wp (ret (Inr vols)) ?Q s4"
            using previous wrote by (simp add: wp_simps) blast
        qed simp
      qed simp
    qed simp
  qed simp
  then show ?thesis using assms(1) True by (simp add: Deliver_def)
qed

lemma Refresh_wp:
  assumes "signalledMounts spec \<noteq> []" "distinct (map mount_file (signalledMounts spec))"
  shows "wp (mounter_Refresh env name i ver spec) (\<lambda>r s'. \<forall>told. r = Inr told \<longrightarrow>
     (\<exists>rec rec' ks. recorded env i ver s = Some rec \<and> told = map told_of ks \<and> subseq ks (signalledMounts spec)
        \<and> content (record_path i ver) (dk_tree s')
            = (if ks = [] then content (record_path i ver) (dk_tree s) else Some (mo_Marshal env rec'))
        \<and> (\<forall>m\<in>set (signalledMounts spec). refreshed_mount env name i ver rec s ks rec' s' m))) s"
  (is "wp _ ?Q s")
proof (cases "idPattern i")
  case False
  then show ?thesis using assms(1) by (simp add: mounter_Refresh_def wp_simps)
next
  case True
  let ?rest = "\<lambda>(rec', refreshed). if refreshed = [] then ret (Inr []) else and_then (write_record env i ver rec') (\<lambda>_. ret (Inr refreshed))"
  have "wp (and_then (read_delivered env i ver)
        (\<lambda>rec. if rec = [] then ret (Inr []) else and_then (refresh_each env name i ver (signalledMounts spec) rec []) ?rest)) ?Q s"
  proof (rule wp_then [OF read_delivered_wp])
    fix rec s1
    assume "same_host s s1 \<and> (\<forall>x. (Inr rec :: mounter_error + string_map) = Inr x \<longrightarrow> recorded env i ver s = Some x \<and> idPattern i)"
    then have rec: "recorded env i ver s = Some rec" and s1: "dk_tree s1 = dk_tree s" by (simp_all add: same_host_def)
    show "wp (if rec = [] then ret (Inr []) else and_then (refresh_each env name i ver (signalledMounts spec) rec []) ?rest) ?Q s1"
    proof (cases "rec = []")
      case True
      then show ?thesis
        using rec s1 by (auto simp: wp_simps refreshed_mount_def intro!: exI [of _ "[]"])
    next
      case False
      have "wp (and_then (refresh_each env name i ver (signalledMounts spec) rec []) ?rest) ?Q s1"
      proof (rule wp_then [OF refresh_each_wp [OF assms(2)]])
        fix x s2
        assume each: "refreshes_each env name i ver (signalledMounts spec) rec [] s1 (Inr x) s2"
        obtain rec' told where x: "x = (rec', told)" by (cases x)
        obtain ks where ks: "told = map told_of ks" "subseq ks (signalledMounts spec)"
          "\<forall>m\<in>set (signalledMounts spec). refreshed_mount env name i ver rec s ks rec' s2 m"
          using each s1 by (auto simp: refreshes_each_def x refreshed_mount_def)
        have files: "rewrites_only (mount_path i ver ` set (signalledMounts spec)) s s2"
          using each s1 by (simp add: refreshes_each_def rewrites_only_def)
        then have kept: "content (record_path i ver) (dk_tree s2) = content (record_path i ver) (dk_tree s)"
          using record_apart by (metis rewrites_only_def)
        show "wp (?rest x) ?Q s2"
        proof (cases "told = []")
          case True
          then have "ks = []" using ks(1) by simp
          with ks rec kept have "?Q (Inr []) s2" by (intro allI impI exI [of _ rec] exI [of _ rec'] exI [of _ ks]) simp
          then show ?thesis using True by (simp add: x wp_simps)
        next
          case False
          have "wp (and_then (write_record env i ver rec') (\<lambda>_. ret (Inr told))) ?Q s2"
          proof (rule wp_then [OF write_record_wp])
            fix u s3
            assume wrote: "file_step (record_path i ver) s2 s3
              \<and> ((Inr u :: mounter_error + unit) = Inr () \<longrightarrow> content (record_path i ver) (dk_tree s3) = Some (mo_Marshal env rec'))"
            have "content (mount_path i ver m) (dk_tree s3) = content (mount_path i ver m) (dk_tree s2)" for m
              using wrote record_path_ne(3) by (auto simp: file_step_def rewrites_only_def)
            then have "\<forall>m\<in>set (signalledMounts spec). refreshed_mount env name i ver rec s ks rec' s3 m"
              using ks(3) refreshed_mount_later by blast
            then show "wp (ret (Inr told)) ?Q s3" using wrote rec ks(1,2) False by (auto simp: wp_simps)
          qed simp
          then show ?thesis using False by (simp add: x)
        qed
      qed simp
      then show ?thesis using False by simp
    qed
  qed simp
  then show ?thesis using assms(1) True by (simp add: mounter_Refresh_def)
qed

section \<open>Removal\<close>

text \<open>Removing what is at \<open>p\<close>, whether or not it works, leaves every file that is not below it.\<close>

definition removes :: "string list set \<Rightarrow> 'a disk_scheme \<Rightarrow> 'a disk_scheme \<Rightarrow> bool" where
  "removes ps s s' \<longleftrightarrow> (\<forall>q. (\<forall>p\<in>ps. \<not> prefix p q) \<longrightarrow> content q (dk_tree s') = content q (dk_tree s))"

definition gone :: "string list set \<Rightarrow> 'a disk_scheme \<Rightarrow> bool" where
  "gone ps s \<longleftrightarrow> (\<forall>p\<in>ps. \<forall>q. prefix p q \<longrightarrow> content q (dk_tree s) = None)"

lemma removes_refl [simp]: "removes ps s s"
  by (simp add: removes_def)

lemma removes_mono: "removes ps s s' \<Longrightarrow> ps \<subseteq> qs \<Longrightarrow> removes qs s s'"
  unfolding removes_def by blast

lemma removes_trans: "removes ps s s' \<Longrightarrow> removes qs s' s'' \<Longrightarrow> removes (ps \<union> qs) s s''"
  by (auto simp: removes_def)

lemma os_RemoveAll_wp:
  assumes "p \<noteq> []"
  shows "wp (os_RemoveAll p) (\<lambda>r s'. removes {p} s s' \<and> (r = Inr () \<longrightarrow> gone {p} s'
    \<and> (\<forall>q. content q (dk_tree s) = None \<longrightarrow> content q (dk_tree s') = None))) s"
proof -
  have "content q (alter p (map_option (\<lambda>n. case n of Folder es \<Rightarrow> Folder (drop k es) | File b \<Rightarrow> File b)) (dk_tree s))
      = content q (dk_tree s)" if "\<not> prefix p q" for q k
    by (rule content_alter_beside [OF that _ refl]) (auto simp: is_folder_def split: option.splits node.splits)
  then show ?thesis
    using content_remove [OF assms]
    by (auto simp: os_RemoveAll_def wp_simps removes_def gone_def split: option.split)
qed

definition superseded :: "string list \<Rightarrow> string \<Rightarrow> string \<Rightarrow> (string \<times> bool) list \<Rightarrow> string list set" where
  "superseded dir current ext es = {dir @ [n] | n. n \<in> fst ` set es \<and> n \<noteq> current \<and> version_entry ext n}"

lemma superseded_Cons: "superseded dir current ext ((n, b) # es)
    = (if n = current \<or> \<not> version_entry ext n then {} else {dir @ [n]}) \<union> superseded dir current ext es"
  by (auto simp: superseded_def)

definition emptied :: "'a disk_scheme \<Rightarrow> 'a disk_scheme \<Rightarrow> bool" where
  "emptied s s' \<longleftrightarrow> (\<forall>q. content q (dk_tree s) = None \<longrightarrow> content q (dk_tree s') = None)"

lemma gone_emptied: "gone ps s \<Longrightarrow> emptied s s' \<Longrightarrow> gone ps s'"
  by (simp add: gone_def emptied_def)

lemma reclaim_each_wp:
  "wp (reclaim_each dir current ext es) (\<lambda>r s'. removes (superseded dir current ext es) s s'
     \<and> (r = Inr () \<longrightarrow> gone (superseded dir current ext es) s' \<and> emptied s s')) s"
proof (induction es arbitrary: s)
  case Nil
  then show ?case by (simp add: wp_simps superseded_def gone_def emptied_def)
next
  case (Cons e es)
  obtain n b where e: "e = (n, b)" by (cases e)
  show ?case
  proof (cases "n = current \<or> \<not> version_entry ext n")
    case True
    then show ?thesis using Cons.IH [of s] by (auto simp: e superseded_Cons)
  next
    case False
    have removed: "wp (io (os_RemoveAll (dir @ [n]))) (\<lambda>r s'. removes {dir @ [n]} s s' \<and> (r = Inr () \<longrightarrow> gone {dir @ [n]} s' \<and> emptied s s')) s"
      unfolding wp_io by (rule wp_mono [OF os_RemoveAll_wp]) (auto simp: map_sum_eq_Inr emptied_def)
    have "wp (and_then (io (os_RemoveAll (dir @ [n]))) (\<lambda>_. reclaim_each dir current ext es))
      (\<lambda>r s'. removes ({dir @ [n]} \<union> superseded dir current ext es) s s'
        \<and> (r = Inr () \<longrightarrow> gone ({dir @ [n]} \<union> superseded dir current ext es) s' \<and> emptied s s')) s"
    proof (rule wp_then [OF removed])
      fix u s1
      assume one: "removes {dir @ [n]} s s1 \<and> ((Inr u :: mounter_error + unit) = Inr () \<longrightarrow> gone {dir @ [n]} s1 \<and> emptied s s1)"
      show "wp (reclaim_each dir current ext es) (\<lambda>r s'. removes ({dir @ [n]} \<union> superseded dir current ext es) s s'
        \<and> (r = Inr () \<longrightarrow> gone ({dir @ [n]} \<union> superseded dir current ext es) s' \<and> emptied s s')) s1"
      proof (rule wp_mono [OF Cons.IH])
        fix r s2
        assume rest: "removes (superseded dir current ext es) s1 s2
          \<and> (r = Inr () \<longrightarrow> gone (superseded dir current ext es) s2 \<and> emptied s1 s2)"
        have "gone {dir @ [n]} s2" if "r = Inr ()"
          using one rest that gone_emptied by simp blast
        then show "removes ({dir @ [n]} \<union> superseded dir current ext es) s s2
          \<and> (r = Inr () \<longrightarrow> gone ({dir @ [n]} \<union> superseded dir current ext es) s2 \<and> emptied s s2)"
          using one rest removes_trans by (fastforce simp: gone_def emptied_def)
      qed
    qed (auto simp: removes_def)
    then show ?thesis using False by (simp add: e superseded_Cons)
  qed
qed

definition older :: "string \<Rightarrow> string \<Rightarrow> int \<Rightarrow> string \<Rightarrow> string list set" where
  "older tree i keep ext = {[tree, i, n] | n. n \<noteq> Itoa keep @ ext \<and> version_entry ext n}"

lemma node_at_append: "node_at (p @ q) t = (case node_at p t of None \<Rightarrow> None | Some n \<Rightarrow> node_at q n)"
  by (induction p t rule: node_at.induct) (auto split: option.split)

lemma content_entry:
  assumes "content ([tree, i, n] @ q) t = Some b"
  shows "\<exists>es. node_at [tree, i] t = Some (Folder es) \<and> n \<in> fst ` set es"
proof -
  have "[tree, i, n] @ q = [tree, i] @ (n # q)" by simp
  then obtain x where x: "node_at [tree, i] t = Some x" "node_at (n # q) x = Some (File b)"
    using assms unfolding content_iff by (auto simp only: node_at_append split: option.splits)
  then obtain es where "x = Folder es" by (cases x) auto
  with x show ?thesis by (auto split: option.splits dest!: map_of_SomeD intro: image_eqI [of _ fst "(n, _)"])
qed

lemma reclaim_wp:
  "wp (reclaim tree i keep ext) (\<lambda>r s'. removes (older tree i keep ext) s s'
     \<and> (r = Inr () \<longrightarrow> gone (older tree i keep ext) s' \<and> emptied s s')) s"
  (is "wp _ ?Q s")
proof (cases "idPattern i")
  case True
  have listed: "wp (os_ReadDir [tree, i]) (\<lambda>r s'. dk_tree s' = dk_tree s
      \<and> (r = Inl NotExist \<longrightarrow> node_at [tree, i] (dk_tree s) = None)
      \<and> (\<forall>entries. r = Inr entries \<longrightarrow> (\<exists>es. node_at [tree, i] (dk_tree s) = Some (Folder es) \<and> fst ` set entries = fst ` set es))) s"
    by (simp add: os_ReadDir_def wp_simps image_image split_def del: node_at.simps split: option.split node.split)
  have "wp (State_Monad.bind (os_ReadDir [tree, i]) (\<lambda>r. case r of
          Inl NotExist \<Rightarrow> ret (Inr ())
        | Inl e \<Rightarrow> ret (Inl (Mnt_IO e))
        | Inr entries \<Rightarrow> reclaim_each [tree, i] (Itoa keep @ ext) ext entries)) ?Q s"
    unfolding wp_bind
  proof (rule wp_mono [OF listed])
    fix r :: "file_error + (string \<times> bool) list" and s1 :: mounts
    assume r: "dk_tree s1 = dk_tree s \<and> (r = Inl NotExist \<longrightarrow> node_at [tree, i] (dk_tree s) = None)
      \<and> (\<forall>entries. r = Inr entries \<longrightarrow> (\<exists>es. node_at [tree, i] (dk_tree s) = Some (Folder es) \<and> fst ` set entries = fst ` set es))"
    then have same: "removes ps s s1" "emptied s s1" for ps by (simp_all add: removes_def emptied_def)
    show "wp (case r of Inl NotExist \<Rightarrow> ret (Inr ()) | Inl e \<Rightarrow> ret (Inl (Mnt_IO e))
        | Inr entries \<Rightarrow> reclaim_each [tree, i] (Itoa keep @ ext) ext entries) ?Q s1"
    proof (cases r)
      case (Inl e)
      show ?thesis
      proof (cases e)
        case NotExist
        then have "content ([tree, i, n] @ q) (dk_tree s1) = None" for n q
          using r Inl content_entry [of tree i n q "dk_tree s"] by (cases "content ([tree, i, n] @ q) (dk_tree s)") auto
        then have "gone (older tree i keep ext) s1" by (auto simp: gone_def older_def prefix_def simp del: append.simps)
        then show ?thesis using same Inl NotExist by (simp add: wp_simps)
      qed (use same Inl in \<open>simp add: wp_simps\<close>)
    next
      case (Inr entries)
      then obtain es where es: "node_at [tree, i] (dk_tree s) = Some (Folder es)" "fst ` set entries = fst ` set es"
        using r by auto
      have sub: "superseded [tree, i] (Itoa keep @ ext) ext entries \<subseteq> older tree i keep ext"
        by (auto simp: superseded_def older_def)
      have "wp (reclaim_each [tree, i] (Itoa keep @ ext) ext entries) ?Q s1"
      proof (rule wp_mono [OF reclaim_each_wp])
        fix x :: "mounter_error + unit" and s2 :: mounts
        assume x: "removes (superseded [tree, i] (Itoa keep @ ext) ext entries) s1 s2
          \<and> (x = Inr () \<longrightarrow> gone (superseded [tree, i] (Itoa keep @ ext) ext entries) s2 \<and> emptied s1 s2)"
        have "removes (older tree i keep ext) s1 s2" using x sub removes_mono by blast
        then have "removes (older tree i keep ext) s s2" using r by (simp add: removes_def)
        moreover have "gone (older tree i keep ext) s2 \<and> emptied s s2" if "x = Inr ()"
        proof -
          have "content ([tree, i, n] @ q) (dk_tree s2) = None"
            if n: "n \<noteq> Itoa keep @ ext" "version_entry ext n" for n q
          proof (cases "n \<in> fst ` set es")
            case True
            then have "[tree, i] @ [n] \<in> superseded [tree, i] (Itoa keep @ ext) ext entries"
              using n es(2) by (auto simp: superseded_def)
            then show ?thesis using x \<open>x = Inr ()\<close> by (simp add: gone_def)
          next
            case False
            then have "content ([tree, i, n] @ q) (dk_tree s1) = None"
              using content_entry [of tree i n q "dk_tree s"] es(1) r
              by (cases "content ([tree, i, n] @ q) (dk_tree s)") auto
            then show ?thesis using x \<open>x = Inr ()\<close> by (simp add: emptied_def)
          qed
          then show ?thesis
            using x that r by (auto simp: gone_def older_def prefix_def emptied_def simp del: append.simps)
        qed
        ultimately show "?Q x s2" by blast
      qed
      then show ?thesis using Inr by simp
    qed
  qed
  then show ?thesis using True by (simp add: reclaim_def)
qed (simp add: reclaim_def wp_simps)

lemma Reclaim_wp:
  "wp (Reclaim i keep) (\<lambda>r s'. removes (older mountFileDir i keep [] \<union> older mountStateDir i keep stateExtension) s s'
     \<and> (r = Inr () \<longrightarrow> gone (older mountFileDir i keep [] \<union> older mountStateDir i keep stateExtension) s')) s"
  unfolding Reclaim_def
proof (rule wp_then [OF reclaim_wp])
  fix u and s1 :: mounts
  assume one: "removes (older mountFileDir i keep []) s s1
    \<and> ((Inr u :: mounter_error + unit) = Inr () \<longrightarrow> gone (older mountFileDir i keep []) s1 \<and> emptied s s1)"
  show "wp (reclaim mountStateDir i keep stateExtension)
     (\<lambda>r s'. removes (older mountFileDir i keep [] \<union> older mountStateDir i keep stateExtension) s s'
       \<and> (r = Inr () \<longrightarrow> gone (older mountFileDir i keep [] \<union> older mountStateDir i keep stateExtension) s')) s1"
  proof (rule wp_mono [OF reclaim_wp])
    fix r :: "mounter_error + unit" and s2 :: mounts
    assume two: "removes (older mountStateDir i keep stateExtension) s1 s2
      \<and> (r = Inr () \<longrightarrow> gone (older mountStateDir i keep stateExtension) s2 \<and> emptied s1 s2)"
    have "removes (older mountFileDir i keep [] \<union> older mountStateDir i keep stateExtension) s s2"
      using one two removes_trans by blast
    moreover have "gone (older mountFileDir i keep []) s2" if "r = Inr ()"
    proof -
      have "gone (older mountFileDir i keep []) s1" using one by simp
      then show ?thesis by (rule gone_emptied) (use two that in blast)
    qed
    ultimately show "removes (older mountFileDir i keep [] \<union> older mountStateDir i keep stateExtension) s s2
       \<and> (r = Inr () \<longrightarrow> gone (older mountFileDir i keep [] \<union> older mountStateDir i keep stateExtension) s2)"
      using two by (auto simp: gone_def)
  qed
qed (auto simp: removes_def)

lemma version_names:
  assumes "- (2 ^ 63) \<le> ver" "ver < 2 ^ 63" "- (2 ^ 63) \<le> keep" "keep < 2 ^ 63" "ver \<noteq> keep"
  shows "Itoa ver \<noteq> Itoa keep" "version_entry [] (Itoa ver)" "version_entry stateExtension (Itoa ver @ stateExtension)"
  using Atoi_Itoa [OF assms(1,2)] Atoi_Itoa [OF assms(3,4)] assms(5)
  by (auto simp: version_entry_def CutSuffix_def)

section \<open>Tokens\<close>

text \<open>What the token service finds for a binding depends on the tokens of that binding alone.\<close>

abbreviation bound :: "string \<Rightarrow> int \<Rightarrow> string \<Rightarrow> token list \<Rightarrow> token list" where
  "bound wid ver who ts \<equiv> filter (shared_for wid ver who) ts"

lemma newest_bound:
  "bound wid ver who ts' = bound wid ver who ts \<Longrightarrow> tokens_GetForWorkload wid ver who ts' = tokens_GetForWorkload wid ver who ts"
  by (simp add: tokens_GetForWorkload_def tokens_get_def find_filter filter_sort)

lemma newest_in_bound:
  assumes "tokens_GetForWorkload wid ver who ts = Inr t"
  shows "t \<in> set (bound wid ver who ts)"
proof -
  obtain rest where "sort_key (\<lambda>t. - tok_CreatedAt t) (bound wid ver who ts) = t # rest"
    using assms by (auto simp: tokens_GetForWorkload_def tokens_get_def find_filter filter_sort split: list.splits)
  then have "t \<in> set (sort_key (\<lambda>t. - tok_CreatedAt t) (bound wid ver who ts))" by simp
  then show ?thesis by (simp only: set_sort)
qed

lemma filter_map_same:
  "(\<And>x. x \<in> set xs \<Longrightarrow> P (f x) = P x \<and> (P x \<longrightarrow> f x = x)) \<Longrightarrow> filter P (map f xs) = filter P xs"
  by (induction xs) auto

text \<open>A refresh mints or leaves the table as it is.\<close>

lemma refresh_mints:
  assumes "RefreshWorkloadToken env who wid ver True ts = (r, ts')" "ts' \<noteq> ts"
  obtains c new where "ae_newid env \<notin> tok_ID ` set ts"
    "new = (client_token (ae_hash env c) ''workload'' who)\<lparr>tok_WorkloadID := wid, tok_WorkloadVersion := Some ver,
       tok_ExpiresAt := ae_now env + workloadTokenTTL, tok_ID := ae_newid env, tok_CreatedAt := ae_now env\<rparr>"
    "ts' = tokens_ExpireMinted wid who ver (ae_newid env) (ae_now env + rotationGrace) ts @ [new]"
proof -
  have "snd (MintWorkloadToken env who wid ver True ts) = ts'" "snd (MintWorkloadToken env who wid ver True ts) \<noteq> ts"
    using assms by (auto simp: RefreshWorkloadToken_def Let_def split: if_splits prod.splits sum.splits)
  then show thesis
    by (intro that [of _ "clientPrefix @ ae_secret env"])
      (auto simp: MintWorkloadToken_def tokens_Create_def Let_def NewToken_def client_token_def tokens_ExpireMinted_def
        split: option.splits prod.splits if_splits)
qed

lemma refresh_other_binding:
  assumes "who' \<noteq> who"
  shows "bound wid ver who (snd (RefreshWorkloadToken env who' wid ver True ts)) = bound wid ver who ts"
proof (cases "snd (RefreshWorkloadToken env who' wid ver True ts) = ts")
  case False
  obtain r ts' where run: "RefreshWorkloadToken env who' wid ver True ts = (r, ts')" by force
  then have "ts' \<noteq> ts" using False by simp
  from refresh_mints [OF run this] obtain c new where
    "new = (client_token (ae_hash env c) ''workload'' who')\<lparr>tok_WorkloadID := wid, tok_WorkloadVersion := Some ver,
       tok_ExpiresAt := ae_now env + workloadTokenTTL, tok_ID := ae_newid env, tok_CreatedAt := ae_now env\<rparr>"
    "ts' = tokens_ExpireMinted wid who' ver (ae_newid env) (ae_now env + rotationGrace) ts @ [new]" by metis
  moreover have "bound wid ver who (tokens_ExpireMinted wid who' ver id until ts) = bound wid ver who ts" for id until
    unfolding tokens_ExpireMinted_def
    by (rule filter_map_same) (use assms in \<open>simp add: shared_for_def for_workload_def\<close>)
  ultimately show ?thesis
    unfolding run using assms by (simp add: shared_for_def client_token_def)
qed simp

lemma kept_by_refresh:
  assumes "tokens_GetForWorkload wid ver who ts = Inr t" "tok_ExpiresAt t = tok_CreatedAt t + workloadTokenTTL"
    and "tok_CreatedAt t \<le> ae_now env" "ae_now env < tok_CreatedAt t + rotateMargin"
  shows "RefreshWorkloadToken env who wid ver True ts = (Inr ([], False), ts)"
  using assms by (simp add: RefreshWorkloadToken_def time_Sub_def rotateMargin_def workloadTokenTTL_def TokenTTL_def
      minDuration_def maxDuration_def)

text \<open>A binding that was rotated: one token of it is new, and each of those before is refused once the grace is over.\<close>

definition rotated :: "string \<Rightarrow> int \<Rightarrow> string \<Rightarrow> token list \<Rightarrow> token list \<Rightarrow> bool" where
  "rotated wid ver who ts ts' \<longleftrightarrow> (\<exists>new. tok_ExpiresAt new = tok_CreatedAt new + workloadTokenTTL
     \<and> (\<forall>u\<in>set (bound wid ver who ts'). u = new \<or> tok_Hash u \<in> tok_Hash ` set (bound wid ver who ts))
     \<and> (\<forall>u\<in>set (bound wid ver who ts). \<exists>u'\<in>set (bound wid ver who ts'). tok_Hash u' = tok_Hash u
          \<and> (\<forall>later. tok_CreatedAt new + rotationGrace < later \<longrightarrow> \<not> live later u')))"

lemma refresh_rotates:
  assumes "0 \<le> ae_now env"
  shows "snd (RefreshWorkloadToken env who wid ver True ts) = ts
    \<or> rotated wid ver who ts (snd (RefreshWorkloadToken env who wid ver True ts))"
proof (cases "snd (RefreshWorkloadToken env who wid ver True ts) = ts")
  case False
  obtain r ts' where run: "RefreshWorkloadToken env who wid ver True ts = (r, ts')" by force
  then have "ts' \<noteq> ts" using False by simp
  from refresh_mints [OF run this] obtain c new where fresh: "ae_newid env \<notin> tok_ID ` set ts"
    and new: "new = (client_token (ae_hash env c) ''workload'' who)\<lparr>tok_WorkloadID := wid, tok_WorkloadVersion := Some ver,
       tok_ExpiresAt := ae_now env + workloadTokenTTL, tok_ID := ae_newid env, tok_CreatedAt := ae_now env\<rparr>"
    and ts': "ts' = tokens_ExpireMinted wid who ver (ae_newid env) (ae_now env + rotationGrace) ts @ [new]" by metis
  let ?cut = "\<lambda>t. if shared_for wid ver who t \<and> tok_ID t \<noteq> ae_newid env
      \<and> (IsZero (tok_ExpiresAt t) \<or> tok_ExpiresAt t > ae_now env + rotationGrace)
    then t\<lparr>tok_ExpiresAt := ae_now env + rotationGrace\<rparr> else t"
  have cut: "ts' = map ?cut ts @ [new]" by (simp add: ts' tokens_ExpireMinted_def)
  have kept: "tok_Hash (?cut u) = tok_Hash u" "shared_for wid ver who (?cut u) = shared_for wid ver who u" for u
    by (simp_all add: shared_for_def for_workload_def)
  have "\<exists>u'\<in>set (bound wid ver who ts'). tok_Hash u' = tok_Hash u
      \<and> (\<forall>later. tok_CreatedAt new + rotationGrace < later \<longrightarrow> \<not> live later u')"
    if u: "u \<in> set (bound wid ver who ts)" for u
  proof (rule bexI [of _ "?cut u"])
    have "tok_ID u \<noteq> ae_newid env" using u fresh by (metis filter_is_subset image_eqI subsetD)
    then show "tok_Hash (?cut u) = tok_Hash u \<and> (\<forall>later. tok_CreatedAt new + rotationGrace < later \<longrightarrow> \<not> live later (?cut u))"
      using u assms by (auto simp: live_def rotationGrace_def new)
    show "?cut u \<in> set (bound wid ver who ts')" using u kept(2) [of u] unfolding cut by simp
  qed
  moreover have "u = new \<or> tok_Hash u \<in> tok_Hash ` set (bound wid ver who ts)" if "u \<in> set (bound wid ver who ts')" for u
  proof (cases "u = new")
    case False
    then have "u \<in> ?cut ` set ts" using that unfolding cut by (simp only: filter_append set_append set_filter set_map) auto
    then obtain x where "x \<in> set ts" "u = ?cut x" by (rule imageE)
    then show ?thesis using that kept [of x] by auto
  qed simp
  ultimately show ?thesis unfolding run rotated_def by (intro disjI2 exI [of _ new]) (simp add: new)
qed simp

lemma distinct_map_eqD: "distinct (map f xs) \<Longrightarrow> x \<in> set xs \<Longrightarrow> y \<in> set xs \<Longrightarrow> f x = f y \<Longrightarrow> x = y"
  by (simp add: distinct_map inj_on_def)

lemma refresh_tells:
  assumes "ValidateWorkload ps spec = None" "run_state (mounter_Refresh env name i ver spec) s = (Inr told, s')"
    and "recorded env i ver s = Some rec" "m \<in> set (signalledMounts spec)" "\<not> is_token m"
    and "map_of rec (mount_file m) = Some old"
  shows "\<exists>v. render env name m (mount_ref m) = Inr v \<and> (told_of m \<in> set told \<longleftrightarrow> mo_digest env v \<noteq> old)
    \<and> content (mount_path i ver m) (dk_tree s')
        = (if mo_digest env v \<noteq> old then Some v else content (mount_path i ver m) (dk_tree s))"
proof -
  have files: "distinct (map mount_file (signalledMounts spec))" by (rule validated_files(2) [OF assms(1)])
  have some: "signalledMounts spec \<noteq> []" using assms(4) by auto
  obtain rec' ks where ks: "told = map told_of ks" "subseq ks (signalledMounts spec)"
    "refreshed_mount env name i ver rec s ks rec' s' m"
    using wpD [OF Refresh_wp [OF some files] assms(2)] assms(3,4) by auto
  have same: "m = m'" if "m' \<in> set ks" "told_of m = told_of m'" for m'
  proof -
    have "mount_file m = mount_file m'" using that(2) by (simp add: told_of_def)
    then show ?thesis
      by (rule distinct_map_eqD [OF files assms(4) subseq_in_set [OF ks(2) that(1)]])
  qed
  have told: "told_of m \<in> set told \<longleftrightarrow> m \<in> set ks"
  proof
    assume "told_of m \<in> set told"
    then obtain m' where m': "m' \<in> set ks" "told_of m = told_of m'" using ks(1) by auto
    show "m \<in> set ks" using m'(1) same [OF m'] by simp
  qed (simp add: ks(1))
  obtain v where v: "render env name m (mount_ref m) = Inr v" "m \<in> set ks \<longleftrightarrow> mo_digest env v \<noteq> old"
    "m \<in> set ks \<Longrightarrow> content (mount_path i ver m) (dk_tree s') = Some v"
    "m \<notin> set ks \<Longrightarrow> content (mount_path i ver m) (dk_tree s') = content (mount_path i ver m) (dk_tree s)"
    using ks(3) assms(5) unfolding refreshed_mount_def assms(6) option.case by fastforce
  show ?thesis using v told by (intro exI [of _ v]) simp
qed

section \<open>Refreshes of a token\<close>

lemma fresh_value_tokens:
  assumes "mo_tokens env = Some draws"
  shows "wp (fresh_value env reader i ver m old) (\<lambda>r s'. dk_tree s' = dk_tree s
    \<and> (if is_token m
       then ms_tokens s' = snd (RefreshWorkloadToken (draws (ms_mints s)) (ref_Name (mount_ref m)) i ver True (ms_tokens s))
         \<and> (fst (RefreshWorkloadToken (draws (ms_mints s)) (ref_Name (mount_ref m)) i ver True (ms_tokens s)) = Inr ([], False)
              \<longrightarrow> r = Inr None)
       else ms_tokens s' = ms_tokens s)) s"
  using assms by (auto simp: fresh_value_def Let_def wp_simps split: prod.split sum.split)

lemma other_token: "is_token m \<Longrightarrow> is_token m' \<Longrightarrow> mount_file m' \<noteq> mount_file m \<Longrightarrow> ref_Name (mount_ref m') \<noteq> ref_Name (mount_ref m)"
  by (auto simp: fileName_def)

text \<open>One mount of a refresh and then the rest: \<open>K\<close> is what reading and writing the mount make true of the state.\<close>

lemma refresh_each_Cons:
  assumes tokens: "mo_tokens env = Some draws"
    and skip: "K s"
    and fresh: "\<And>s1. dk_tree s1 = dk_tree s \<Longrightarrow> ms_tokens s1
        = (if is_token m then snd (RefreshWorkloadToken (draws (ms_mints s)) (ref_Name (mount_ref m)) i ver True (ms_tokens s)) else ms_tokens s)
      \<Longrightarrow> K s1"
    and wrote: "\<And>s1 s2. K s1 \<Longrightarrow> file_step (mount_path i ver m) s1 s2 \<Longrightarrow> K s2"
    and rest: "\<And>s1 rec' told'. K s1 \<Longrightarrow> told' \<in> {told, told @ [told_of m]} \<Longrightarrow> wp (refresh_each env reader i ver ms rec' told') Q s1"
    and fails: "\<And>e s1. K s1 \<Longrightarrow> Q (Inl e) s1"
  shows "wp (refresh_each env reader i ver (m # ms) rec told) Q s"
proof (cases "map_of rec (mount_file m)")
  case None
  then show ?thesis using rest [OF skip, of told] by (simp add: Let_def)
next
  case (Some old)
  show ?thesis
    unfolding refresh_each.simps Let_def Some option.case
  proof (rule wp_then [OF fresh_value_tokens [OF tokens]])
    fix x and s1 :: mounts
    assume "dk_tree s1 = dk_tree s \<and> (if is_token m
       then ms_tokens s1 = snd (RefreshWorkloadToken (draws (ms_mints s)) (ref_Name (mount_ref m)) i ver True (ms_tokens s))
         \<and> (fst (RefreshWorkloadToken (draws (ms_mints s)) (ref_Name (mount_ref m)) i ver True (ms_tokens s)) = Inr ([], False)
              \<longrightarrow> (Inr x :: mounter_error + string option) = Inr None)
       else ms_tokens s1 = ms_tokens s)"
    then have K: "K s1" by (intro fresh) (simp_all split: if_splits)
    have "wp (and_then (write_file (mount_path i ver m) v) (\<lambda>_. refresh_each env reader i ver ms rec' (told @ [told_of m]))) Q s1" for v rec'
      by (rule wp_then [OF write_file_wp]) (use K wrote rest fails in auto)
    then show "wp (case x of None \<Rightarrow> refresh_each env reader i ver ms rec told
        | Some value \<Rightarrow> and_then (write_file (mount_path i ver m) value)
            (\<lambda>_. refresh_each env reader i ver ms (AList.update (mount_file m) (mo_digest env value) rec)
               (told @ [\<lparr>mr_Reference = mount_ref m, mr_Signal = mnt_Signal m\<rparr>]))) Q s1"
      using rest [OF K, of told] by (auto simp: told_of_def split: option.split)
  qed (auto intro!: fails fresh split: if_splits)
qed

text \<open>Mounts of other files leave the tokens and the file of \<open>m\<close> alone.\<close>

abbreviation tokens_of :: "string \<Rightarrow> int \<Rightarrow> VolumeMount \<Rightarrow> mounts \<Rightarrow> token list" where
  "tokens_of i ver m s \<equiv> bound i ver (ref_Name (mount_ref m)) (ms_tokens s)"

definition leaves :: "string \<Rightarrow> int \<Rightarrow> VolumeMount \<Rightarrow> mounts \<Rightarrow> mounts \<Rightarrow> bool" where
  "leaves i ver m s s' \<longleftrightarrow> tokens_of i ver m s' = tokens_of i ver m s
     \<and> content (mount_path i ver m) (dk_tree s') = content (mount_path i ver m) (dk_tree s)"

lemma leaves_refl [simp]: "leaves i ver m s s"
  by (simp add: leaves_def)

lemma leaves_trans: "leaves i ver m s s1 \<Longrightarrow> leaves i ver m s1 s2 \<Longrightarrow> leaves i ver m s s2"
  by (simp add: leaves_def)

lemma file_step_tokens: "file_step p s s' \<Longrightarrow> ms_tokens s' = ms_tokens s" for s :: mounts
  by (cases s; cases s') (simp add: file_step_def)

lemma leaves_file_step: "file_step p s s' \<Longrightarrow> p \<noteq> mount_path i ver m \<Longrightarrow> leaves i ver m s s'"
  by (auto simp: leaves_def file_step_tokens) (auto simp: file_step_def rewrites_only_def)

lemma others_leave:
  assumes "mo_tokens env = Some draws" "is_token m" "mount_file m \<notin> mount_file ` set ms"
  shows "wp (refresh_each env reader i ver ms rec told) (\<lambda>r s'. leaves i ver m s s'
    \<and> (\<forall>rec' told'. r = Inr (rec', told') \<longrightarrow> (told_of m \<in> set told' \<longleftrightarrow> told_of m \<in> set told))) s"
  using assms(3)
proof (induction ms arbitrary: rec told s)
  case Nil
  then show ?case by (simp add: wp_simps)
next
  case (Cons x ms)
  have apart: "mount_file x \<noteq> mount_file m" "mount_path i ver x \<noteq> mount_path i ver m"
    using Cons.prems by (auto simp: file_path_inj)
  show ?case
  proof (rule refresh_each_Cons [OF assms(1), where K = "leaves i ver m s"])
    fix s1 :: mounts
    assume "dk_tree s1 = dk_tree s" "ms_tokens s1
        = (if is_token x then snd (RefreshWorkloadToken (draws (ms_mints s)) (ref_Name (mount_ref x)) i ver True (ms_tokens s)) else ms_tokens s)"
    then show "leaves i ver m s s1"
      using refresh_other_binding [OF other_token [OF assms(2) _ apart(1)]] by (simp add: leaves_def)
  next
    fix s1 :: mounts and rec told'
    assume "leaves i ver m s s1" "told' \<in> {told, told @ [told_of x]}"
    moreover have "told_of x \<noteq> told_of m" using apart(1) by (auto simp: told_of_def)
    ultimately show "wp (refresh_each env reader i ver ms rec told') (\<lambda>r s'. leaves i ver m s s'
        \<and> (\<forall>rec' told'. r = Inr (rec', told') \<longrightarrow> (told_of m \<in> set told' \<longleftrightarrow> told_of m \<in> set told))) s1"
      using Cons.prems by (intro wp_mono [OF Cons.IH]) (auto intro: leaves_trans)
  qed (use apart(2) in \<open>auto intro: leaves_trans leaves_file_step\<close>)
qed

text \<open>A token with more than half its life left keeps a refresh from minting, from its file and from telling of it.\<close>

definition lasts :: "mounter \<Rightarrow> token \<Rightarrow> bool" where
  "lasts env t \<longleftrightarrow> tok_ExpiresAt t = tok_CreatedAt t + workloadTokenTTL
     \<and> (\<exists>draws. mo_tokens env = Some draws
          \<and> (\<forall>n. tok_CreatedAt t \<le> ae_now (draws n) \<and> ae_now (draws n) < tok_CreatedAt t + rotateMargin))"

lemma lasting_left:
  assumes "is_token m" "distinct (map mount_file ms)" "m \<in> set ms"
    and "tokens_GetForWorkload i ver (ref_Name (mount_ref m)) (ms_tokens s) = Inr t" "lasts env t"
  shows "wp (refresh_each env reader i ver ms rec told) (\<lambda>r s'. leaves i ver m s s'
    \<and> (\<forall>rec' told'. r = Inr (rec', told') \<longrightarrow> (told_of m \<in> set told' \<longleftrightarrow> told_of m \<in> set told))) s"
proof -
  obtain draws where draws: "mo_tokens env = Some draws" and life: "tok_ExpiresAt t = tok_CreatedAt t + workloadTokenTTL"
    "tok_CreatedAt t \<le> ae_now (draws n)" "ae_now (draws n) < tok_CreatedAt t + rotateMargin" for n
    using assms(5) by (auto simp: lasts_def)
  show ?thesis
    using assms(2-4)
  proof (induction ms arbitrary: rec told s)
    case (Cons x ms)
    let ?Q = "\<lambda>r s'. leaves i ver m s s'
      \<and> (\<forall>rec' told'. r = Inr (rec', told') \<longrightarrow> (told_of m \<in> set told' \<longleftrightarrow> told_of m \<in> set told))"
    show ?case
    proof (cases "x = m")
      case True
      have none: "mount_file m \<notin> mount_file ` set ms" using Cons.prems(1) True by simp
      have rest: "wp (refresh_each env reader i ver ms rec told) ?Q s1" if "leaves i ver m s s1" for s1 rec
        by (rule wp_mono [OF others_leave [OF draws assms(1) none]]) (use that in \<open>auto intro: leaves_trans\<close>)
      have quiet: "RefreshWorkloadToken (draws n) (ref_Name (mount_ref m)) i ver True (ms_tokens s) = (Inr ([], False), ms_tokens s)" for n
        by (rule kept_by_refresh [OF Cons.prems(3) life])
      show ?thesis
      proof (cases "map_of rec (mount_file m)")
        case None
        then show ?thesis using rest True by (simp add: Let_def)
      next
        case (Some old)
        show ?thesis
          unfolding refresh_each.simps Let_def True Some option.case
          by (rule wp_then [OF fresh_value_tokens [OF draws]])
            (use assms(1) quiet rest in \<open>auto simp: leaves_def\<close>)
      qed
    next
      case False
      then have m: "m \<in> set ms" "mount_file x \<noteq> mount_file m" "mount_path i ver x \<noteq> mount_path i ver m"
        using Cons.prems by (auto simp: file_path_inj)
      show ?thesis
      proof (rule refresh_each_Cons [OF draws, where K = "leaves i ver m s"])
        fix s1 :: mounts
        assume "dk_tree s1 = dk_tree s" "ms_tokens s1
            = (if is_token x then snd (RefreshWorkloadToken (draws (ms_mints s)) (ref_Name (mount_ref x)) i ver True (ms_tokens s)) else ms_tokens s)"
        then show "leaves i ver m s s1"
          using refresh_other_binding [OF other_token [OF assms(1) _ m(2)]] by (simp add: leaves_def)
      next
        fix s1 :: mounts and rec told'
        assume s1: "leaves i ver m s s1" and told': "told' \<in> {told, told @ [told_of x]}"
        then have "tokens_GetForWorkload i ver (ref_Name (mount_ref m)) (ms_tokens s1) = Inr t"
          using newest_bound Cons.prems(3) by (metis leaves_def)
        moreover have "told_of x \<noteq> told_of m" using m(2) by (auto simp: told_of_def)
        ultimately show "wp (refresh_each env reader i ver ms rec told') ?Q s1"
          using Cons.prems(1) m(1) s1 told' by (intro wp_mono [OF Cons.IH]) (auto intro: leaves_trans)
      qed (use m(3) in \<open>auto intro: leaves_trans leaves_file_step\<close>)
    qed
  qed simp
qed

text \<open>A refresh of the mounts of a specification rotates the tokens of \<open>m\<close> or leaves them, whether it fails or not.\<close>

lemma tokens_rotate:
  assumes "mo_tokens env = Some draws" "\<And>n. 0 \<le> ae_now (draws n)" "is_token m" "distinct (map mount_file ms)" "m \<in> set ms"
  shows "wp (refresh_each env reader i ver ms rec told) (\<lambda>r s'. tokens_of i ver m s' = tokens_of i ver m s
    \<or> rotated i ver (ref_Name (mount_ref m)) (ms_tokens s) (ms_tokens s')) s"
  using assms(4,5)
proof (induction ms arbitrary: rec told s)
  case (Cons x ms)
  let ?who = "ref_Name (mount_ref m)"
  let ?K = "\<lambda>s'. tokens_of i ver m s' = tokens_of i ver m s \<or> rotated i ver ?who (ms_tokens s) (ms_tokens s')"
  have move: "?K s2" if "?K s1" "tokens_of i ver m s2 = tokens_of i ver m s1" for s1 s2
    using that by (simp add: rotated_def)
  show ?case
  proof (cases "x = m")
    case True
    have none: "mount_file m \<notin> mount_file ` set ms" using Cons.prems(1) True by simp
    show ?thesis
    proof (rule refresh_each_Cons [OF assms(1), where K = ?K])
      fix s1 :: mounts
      assume "dk_tree s1 = dk_tree s" "ms_tokens s1
          = (if is_token x then snd (RefreshWorkloadToken (draws (ms_mints s)) (ref_Name (mount_ref x)) i ver True (ms_tokens s)) else ms_tokens s)"
      then show "?K s1" using refresh_rotates [OF assms(2)] assms(3) True by metis
    next
      fix s1 :: mounts and rec told
      assume "?K s1"
      then show "wp (refresh_each env reader i ver ms rec told) (\<lambda>r s'. ?K s') s1"
        by (intro wp_mono [OF others_leave [OF assms(1,3) none]]) (rule move, auto simp: leaves_def)
    qed (auto simp: file_step_tokens)
  next
    case False
    then have m: "m \<in> set ms" "mount_file x \<noteq> mount_file m" using Cons.prems by auto
    show ?thesis
    proof (rule refresh_each_Cons [OF assms(1), where K = "\<lambda>s'. tokens_of i ver m s' = tokens_of i ver m s"])
      fix s1 :: mounts
      assume "dk_tree s1 = dk_tree s" "ms_tokens s1
          = (if is_token x then snd (RefreshWorkloadToken (draws (ms_mints s)) (ref_Name (mount_ref x)) i ver True (ms_tokens s)) else ms_tokens s)"
      then show "tokens_of i ver m s1 = tokens_of i ver m s"
        using refresh_other_binding [OF other_token [OF assms(3) _ m(2)]] by simp
    next
      fix s1 :: mounts and rec told
      assume "tokens_of i ver m s1 = tokens_of i ver m s"
      then show "wp (refresh_each env reader i ver ms rec told) (\<lambda>r s'. ?K s') s1"
        using Cons.prems(1) m(1) by (intro wp_mono [OF Cons.IH]) (auto simp: rotated_def)
    qed (auto simp: file_step_tokens)
  qed
qed simp

text \<open>A whole refresh does to the tokens and files what the refresh of its mounts does.\<close>

lemma Refresh_each:
  assumes each: "\<And>rec s1. same_host s s1 \<Longrightarrow> wp (refresh_each env name i ver (signalledMounts spec) rec [])
      (\<lambda>r s'. K s' \<and> (\<forall>rec' told'. r = Inr (rec', told') \<longrightarrow> T told')) s1"
    and same: "\<And>s1. same_host s s1 \<Longrightarrow> K s1" and "T []"
    and wrote: "\<And>s1 s2. K s1 \<Longrightarrow> file_step (record_path i ver) s1 s2 \<Longrightarrow> K s2"
  shows "wp (mounter_Refresh env name i ver spec) (\<lambda>r s'. K s' \<and> (\<forall>told. r = Inr told \<longrightarrow> T told)) s"
proof -
  have K: "K s" using same by (simp add: same_host_def)
  have "wp (and_then (read_delivered env i ver) (\<lambda>rec. if rec = [] then ret (Inr [])
      else and_then (refresh_each env name i ver (signalledMounts spec) rec []) (\<lambda>(rec', refreshed).
        if refreshed = [] then ret (Inr []) else and_then (write_record env i ver rec') (\<lambda>_. ret (Inr refreshed)))))
      (\<lambda>r s'. K s' \<and> (\<forall>told. r = Inr told \<longrightarrow> T told)) s"
  proof (rule wp_then [OF read_delivered_wp])
    fix rec s1
    assume "same_host s s1 \<and> (\<forall>rec'. (Inr rec :: mounter_error + string_map) = Inr rec' \<longrightarrow> recorded env i ver s = Some rec' \<and> idPattern i)"
    then have s1: "same_host s s1" by simp
    have end_well: "wp (case x of (rec', refreshed) \<Rightarrow> if refreshed = [] then ret (Inr [])
        else and_then (write_record env i ver rec') (\<lambda>_. ret (Inr refreshed))) (\<lambda>r s'. K s' \<and> (\<forall>told. r = Inr told \<longrightarrow> T told)) s2"
      if "K s2" "T (snd x)" for x :: "string_map \<times> mount_Refresh list" and s2
    proof (cases x)
      case (Pair rec' refreshed)
      have "wp (and_then (write_record env i ver rec') (\<lambda>_. ret (Inr refreshed))) (\<lambda>r s'. K s' \<and> (\<forall>told. r = Inr told \<longrightarrow> T told)) s2"
        by (rule wp_then [OF write_record_wp]) (use that wrote Pair in \<open>auto simp: wp_simps\<close>)
      then show ?thesis using that \<open>T []\<close> Pair by (simp add: wp_simps)
    qed
    have "wp (and_then (refresh_each env name i ver (signalledMounts spec) rec []) (\<lambda>(rec', refreshed).
        if refreshed = [] then ret (Inr []) else and_then (write_record env i ver rec') (\<lambda>_. ret (Inr refreshed))))
        (\<lambda>r s'. K s' \<and> (\<forall>told. r = Inr told \<longrightarrow> T told)) s1"
    proof (rule wp_then [OF each [OF s1]])
      fix a :: "string_map \<times> mount_Refresh list" and s2
      assume "K s2 \<and> (\<forall>rec' told'. (Inr a :: mounter_error + _) = Inr (rec', told') \<longrightarrow> T told')"
      then show "wp (case a of (rec', refreshed) \<Rightarrow> if refreshed = [] then ret (Inr [])
          else and_then (write_record env i ver rec') (\<lambda>_. ret (Inr refreshed))) (\<lambda>r s'. K s' \<and> (\<forall>told. r = Inr told \<longrightarrow> T told)) s2"
        by (intro end_well) (auto simp: prod_eq_iff)
    qed simp
    then show "wp (if rec = [] then ret (Inr []) else and_then (refresh_each env name i ver (signalledMounts spec) rec []) (\<lambda>(rec', refreshed).
        if refreshed = [] then ret (Inr []) else and_then (write_record env i ver rec') (\<lambda>_. ret (Inr refreshed))))
        (\<lambda>r s'. K s' \<and> (\<forall>told. r = Inr told \<longrightarrow> T told)) s1"
      using same [OF s1] \<open>T []\<close> by (simp add: wp_simps)
  qed (use same in auto)
  then show ?thesis
    unfolding mounter_Refresh_def wp_if using K \<open>T []\<close> by (simp add: wp_simps)
qed

lemma same_host_leaves: "same_host s s' \<Longrightarrow> leaves i ver m s s'" for s :: mounts
  by (cases s; cases s') (simp add: same_host_def leaves_def)

lemma lasting_refresh:
  assumes "is_token m" "distinct (map mount_file (signalledMounts spec))" "m \<in> set (signalledMounts spec)"
    and "tokens_GetForWorkload i ver (ref_Name (mount_ref m)) (ms_tokens s) = Inr t" "lasts env t"
  shows "wp (mounter_Refresh env name i ver spec) (\<lambda>r s'. leaves i ver m s s' \<and> (\<forall>told. r = Inr told \<longrightarrow> told_of m \<notin> set told)) s"
proof (rule Refresh_each)
  fix rec and s1 :: mounts
  assume s1: "same_host s s1"
  then have "tokens_GetForWorkload i ver (ref_Name (mount_ref m)) (ms_tokens s1) = Inr t"
    using newest_bound assms(4) same_host_leaves by (metis leaves_def)
  from lasting_left [OF assms(1-3) this assms(5)]
  show "wp (refresh_each env name i ver (signalledMounts spec) rec [])
      (\<lambda>r s'. leaves i ver m s s' \<and> (\<forall>rec' told'. r = Inr (rec', told') \<longrightarrow> told_of m \<notin> set told')) s1"
    by (rule wp_mono) (use same_host_leaves [OF s1] in \<open>auto intro: leaves_trans\<close>)
qed (auto intro: same_host_leaves leaves_trans leaves_file_step [OF _ record_path_ne(3) [THEN not_sym]])

lemma rotating_refresh:
  assumes "mo_tokens env = Some draws" "\<And>n. 0 \<le> ae_now (draws n)"
    and "is_token m" "distinct (map mount_file (signalledMounts spec))" "m \<in> set (signalledMounts spec)"
  shows "wp (mounter_Refresh env name i ver spec) (\<lambda>r s'. tokens_of i ver m s' = tokens_of i ver m s
    \<or> rotated i ver (ref_Name (mount_ref m)) (ms_tokens s) (ms_tokens s')) s"
proof -
  let ?K = "\<lambda>s'. tokens_of i ver m s' = tokens_of i ver m s \<or> rotated i ver (ref_Name (mount_ref m)) (ms_tokens s) (ms_tokens s')"
  have same: "ms_tokens s1 = ms_tokens s" if "same_host s s1" for s1
    using that by (cases s; cases s1) (simp add: same_host_def)
  have "wp (mounter_Refresh env name i ver spec) (\<lambda>r s'. ?K s' \<and> (\<forall>told. r = Inr told \<longrightarrow> True)) s"
  proof (rule Refresh_each)
    fix rec and s1 :: mounts
    assume "same_host s s1"
    from tokens_rotate [OF assms, of name i ver rec "[]" s1] same [OF this]
    show "wp (refresh_each env name i ver (signalledMounts spec) rec []) (\<lambda>r s'. ?K s' \<and> (\<forall>rec' told'. r = Inr (rec', told') \<longrightarrow> True)) s1"
      by simp
  qed (auto simp: same file_step_tokens)
  then show ?thesis by simp
qed

lemma torn_read:
  assumes "content (record_path i ver) (dk_tree s) = Some b" "mo_Unmarshal env b = None"
  shows "wp (and_then (read_delivered env i ver) f) (\<lambda>r s'. isl r \<and> content (record_path i ver) (dk_tree s') = Some b) s"
  by (rule wp_then [OF read_delivered_wp]) (use assms in \<open>auto simp: recorded_def same_host_def\<close>)

end
