(* ===== verification/Mount_Properties.thy ===== *)
theory Mount_Properties
  imports Mount_Delivery Validated_Specs
begin

text \<open>
  What the mounter delivers, what a refresh rewrites and tells, and what a call that fails on the way leaves
  behind.
\<close>

section \<open>An example\<close>

text \<open>The workload of the example specification, which mounts the secret \<open>tls\<close> and is signalled when it changes.\<close>

definition example_mounter :: "string \<Rightarrow> mounter" where
  "example_mounter v = \<lparr>mo_secrets = Some (\<lambda>n. if n = ''tls'' then Inr v else Inl Mnt_ErrSecretNotFound),
     mo_variables = None, mo_tokens = None, mo_workloads = None, mo_directory = ''/var/lib/takt'', mo_digest = (\<lambda>b. b),
     mo_Marshal = (\<lambda>d. case d of [] \<Rightarrow> ''{}'' | (name, d) # ds \<Rightarrow> CHR ''{'' # d),
     mo_Unmarshal = (\<lambda>b. case b of [] \<Rightarrow> None | c # d \<Rightarrow> Some [(''secret-tls'', d)])\<rparr>"

definition example_wid :: string where
  "example_wid = ''0123456789abcdefghij''"

definition example_host :: "string \<Rightarrow> string \<Rightarrow> answers \<Rightarrow> mounts" where
  "example_host v b as = \<lparr>dk_tree = Folder
       [(''files'', Folder [(example_wid, Folder [(''1'', Folder [(''secret-tls'', File v)])])]),
        (''state'', Folder [(example_wid, Folder [(''1.json'', File b)])])],
     dk_answers = as, ms_tokens = [], ms_mints = 0\<rparr>"

lemma example_wid_ok: "idPattern example_wid"
  by code_simp

lemma Itoa_digits: "Itoa 1 = ''1''" "Itoa 2 = ''2''"
proof -
  have "digit_char 1 = CHR ''1''" "digit_char 2 = CHR ''2''" by code_simp+
  then show "Itoa 1 = ''1''" "Itoa 2 = ''2''" by (simp_all add: Itoa_def nat_digits.simps)
qed

lemma example_mounts: "valueMounts example_web = [example_mount]" "signalledMounts example_web = [example_mount]"
  "mount_ref example_mount = \<lparr>ref_Kind = KindSecret, ref_Name = ''tls'', ref_Port = []\<rparr>"
  by code_simp+

lemma example_mount_fields: "mnt_Expand example_mount = False" "mnt_Signal example_mount = ''SIGHUP''"
  by (simp_all add: example_mount_def)

lemma example_paths:
  "version_dir example_wid 1 = [''files'', example_wid, ''1'']"
  "record_path example_wid 1 = [''state'', example_wid, ''1.json'']"
  "file_path example_wid 1 \<lparr>ref_Kind = KindSecret, ref_Name = ''tls'', ref_Port = []\<rparr> = [''files'', example_wid, ''1'', ''secret-tls'']"
  "fileName \<lparr>ref_Kind = KindSecret, ref_Name = ''tls'', ref_Port = []\<rparr> = ''secret-tls''"
  "mountStateDir = ''state''"
  by (simp_all add: version_dir_def record_path_def file_path_def Itoa_digits mountFileDir_def mountStateDir_def
      stateExtension_def fileName_def)

text \<open>What evaluates a call on the example.\<close>

lemmas example_evals = example_wid_ok example_mounts example_mount_fields example_paths Deliver_def deliver_one_def
  mounter_Refresh_def fresh_value_def read_delivered_def write_record_def write_file_def os_defs example_mounter_def
  example_host_def wp_simps first_answer_def render_def mounter_value_def StoreFor_def opened_def put_entry_def
  is_folder_def or_empty_def content_map_def content_def recorded_def told_of_def

lemma example_delivery: "wp (Deliver (example_mounter ''old'') example_wid 1 example_web)
   (\<lambda>r s. \<not> isl r \<and> s = example_host ''old'' ''{old'' []) \<lparr>dk_tree = Folder [], dk_answers = [], ms_tokens = [], ms_mints = 0\<rparr>"
  by (simp add: example_evals)

lemma example_refresh: "wp (mounter_Refresh (example_mounter ''new'') ''web'' example_wid 1 example_web)
   (\<lambda>r s. r = Inr [told_of example_mount] \<and> s = example_host ''new'' ''{new'' []) (example_host ''old'' ''{old'' [])"
  by (simp add: example_evals)

lemma wp_run: "wp m (\<lambda>r s'. r = a \<and> s' = t) s \<Longrightarrow> run_state m s = (a, t)"
  by (auto simp: wp_def split: prod.splits)

section \<open>Properties\<close>

text \<open>
  C27. What is delivered is what is held. When a delivery for a valid specification succeeds, the volumes it
  hands the driver are those of the mounts, in their order, and the record it leaves has a digest for every
  one of them. The file of a secret or a variable holds the value as it reads now, expanded where the
  mount asks for it, and the digest is that of the value. For a token the digest is that of what the file
  holds, or the one an earlier delivery of the same version recorded for the credential its instances share.
\<close>

theorem delivered_files:
  assumes "ValidateWorkload ps spec = None" "valueMounts spec \<noteq> []"
    and "run_state (Deliver env i ver spec) s = (Inr vols, s')"
  shows "vols = map (delivered_volume env i ver) (valueMounts spec)
    \<and> (\<exists>previous rec. recorded env i ver s = Some previous
        \<and> content (record_path i ver) (dk_tree s') = Some (mo_Marshal env rec)
        \<and> (\<forall>m\<in>set (valueMounts spec). \<exists>d. map_of rec (mount_file m) = Some d
            \<and> delivered_to env i ver (spec_Name spec) previous m s' d))"
  using wpD [OF Deliver_wp [OF assms(2) validated_files(1) [OF assms(1)]] assms(3)] by blast

theorem delivered_files_witness:
  "\<exists>vols s'. run_state (Deliver (example_mounter ''old'') example_wid 1 example_web)
      \<lparr>dk_tree = Folder [], dk_answers = [], ms_tokens = [], ms_mints = 0\<rparr> = (Inr vols, s') \<and> map vol_Target vols = [''/etc/tls'']"
proof -
  let ?m = "Deliver (example_mounter ''old'') example_wid 1 example_web"
  let ?s = "\<lparr>dk_tree = Folder [], dk_answers = [], ms_tokens = [], ms_mints = 0\<rparr>"
  obtain vols where "run_state ?m ?s = (Inr vols, final ?m ?s)"
    using example_delivery unfolding wp_iff_run by (cases "outcome ?m ?s") (auto simp: outcome_def final_def prod_eq_iff)
  moreover from delivered_files [OF example_web_valid _ this] have "map vol_Target vols = [''/etc/tls'']"
    by (simp add: example_mounts delivered_volume_def example_mount_def)
  ultimately show ?thesis by (intro exI conjI)
qed

text \<open>
  C26. A refresh tells of what moved, and of nothing else. When it succeeds for a valid specification, the
  workload is told of a mount of a secret or a variable exactly when what it reads now has another digest than
  the one recorded at the last delivery; the file then holds the new value, and otherwise it is as it was.
\<close>

theorem refresh_tells_what_moved:
  assumes "ValidateWorkload ps spec = None" "run_state (mounter_Refresh env name i ver spec) s = (Inr told, s')"
    and "recorded env i ver s = Some rec" "m \<in> set (signalledMounts spec)" "\<not> is_token m"
    and "map_of rec (mount_file m) = Some old"
  shows "\<exists>v. render env name m (mount_ref m) = Inr v \<and> (told_of m \<in> set told \<longleftrightarrow> mo_digest env v \<noteq> old)
    \<and> content (mount_path i ver m) (dk_tree s')
        = (if mo_digest env v \<noteq> old then Some v else content (mount_path i ver m) (dk_tree s))"
  by (rule refresh_tells [OF assms])

theorem refresh_tells_what_moved_witness:
  "\<exists>v. render (example_mounter ''new'') ''web'' example_mount (mount_ref example_mount) = Inr v
     \<and> content (mount_path example_wid 1 example_mount) (dk_tree (example_host ''new'' ''{new'' [])) = Some v"
proof -
  have rec: "recorded (example_mounter ''new'') example_wid 1 (example_host ''old'' ''{old'' []) = Some [(''secret-tls'', ''old'')]"
    "example_mount \<in> set (signalledMounts example_web)" "\<not> is_token example_mount"
    "map_of [(''secret-tls'', ''old'')] (mount_file example_mount) = Some ''old''"
    by (simp_all add: example_evals)
  from refresh_tells_what_moved [OF example_web_valid wp_run [OF example_refresh] rec] show ?thesis
    by (auto simp: example_evals)
qed

text \<open>
  A value that is set back is never written. When a refresh fails after it has written the new value of a
  mount, on another mount or on the record, and the value is then set back to what was delivered, the next
  refresh finds its digest unchanged: it reports success, tells the workload nothing, and leaves the file
  with a value the store no longer holds.
\<close>

lemma reverted_value_stays:
  assumes "ValidateWorkload ps spec = None" "m \<in> set (signalledMounts spec)" "\<not> is_token m"
    and "run_state (mounter_Refresh env1 name i ver spec) s = (Inl e, s1)" "content (mount_path i ver m) (dk_tree s1) = Some new"
    and "recorded env2 i ver s1 = Some rec" "render env2 name m (mount_ref m) = Inr old"
    and "map_of rec (mount_file m) = Some (mo_digest env2 old)"
    and "run_state (mounter_Refresh env2 name i ver spec) s1 = (Inr told, s2)"
  shows "told_of m \<notin> set told \<and> content (mount_path i ver m) (dk_tree s2) = Some new"
  using refresh_tells [OF assms(1,9,6,2,3,8)] assms(5,7) by auto

text \<open>
  A record that was cut short blocks its version. The record is truncated before it is written, so a
  write that fails or a server that stops in between leaves text that does not decode; every later delivery
  and every refresh of that version then fails, whatever the stores and the host answer, and leaves the
  record as it is.
\<close>

lemma torn_record_blocks:
  assumes "content (record_path i ver) (dk_tree s) = Some b" "mo_Unmarshal env b = None"
  shows "(valueMounts spec \<noteq> [] \<longrightarrow> wp (Deliver env i ver spec)
        (\<lambda>r s'. isl r \<and> content (record_path i ver) (dk_tree s') = Some b) s)
    \<and> (signalledMounts spec \<noteq> [] \<longrightarrow> wp (mounter_Refresh env name i ver spec)
        (\<lambda>r s'. isl r \<and> content (record_path i ver) (dk_tree s') = Some b) s)"
proof (intro conjI impI)
  assume "valueMounts spec \<noteq> []"
  moreover have "wp (and_then (io (os_MkdirAll (version_dir i ver))) (\<lambda>_. and_then (read_delivered env i ver) f))
      (\<lambda>r s'. isl r \<and> content (record_path i ver) (dk_tree s') = Some b) s" for f :: "string_map \<Rightarrow> driver_Volume list mounting"
  proof (rule wp_then)
    show "wp (io (os_MkdirAll (version_dir i ver))) (\<lambda>r s'. rewrites_only {} s s') s"
      unfolding wp_io by (rule wp_mono [OF os_MkdirAll_wp]) simp
    show "wp (and_then (read_delivered env i ver) f) (\<lambda>r s'. isl r \<and> content (record_path i ver) (dk_tree s') = Some b) s1"
      if "rewrites_only {} s s1" for s1
      by (rule torn_read) (use that assms in \<open>simp_all add: rewrites_only_def\<close>)
  qed (use assms(1) in \<open>auto simp: rewrites_only_def\<close>)
  ultimately show "wp (Deliver env i ver spec) (\<lambda>r s'. isl r \<and> content (record_path i ver) (dk_tree s') = Some b) s"
    using assms(1) by (simp add: Deliver_def wp_simps)
next
  assume "signalledMounts spec \<noteq> []"
  then show "wp (mounter_Refresh env name i ver spec) (\<lambda>r s'. isl r \<and> content (record_path i ver) (dk_tree s') = Some b) s"
    unfolding mounter_Refresh_def wp_if
    using torn_read [OF assms] assms(1) by (auto simp: wp_return intro!: torn_read [OF assms])
qed

text \<open>
  C28. Reclaiming leaves one version. It touches no file of the version that is kept and none of another
  workload, whatever fails; and when it succeeds no file of any other version is left, nor its record, so the
  plaintext of superseded values is off the disk.
\<close>

theorem reclaim_leaves_one_version:
  assumes "run_state (Reclaim i keep) s = (r, s')" "- (2 ^ 63) \<le> keep" "keep < 2 ^ 63"
  shows "(\<forall>j ver f. (j, ver) = (i, keep) \<or> j \<noteq> i \<longrightarrow>
        content (version_dir j ver @ f) (dk_tree s') = content (version_dir j ver @ f) (dk_tree s)
        \<and> content (record_path j ver) (dk_tree s') = content (record_path j ver) (dk_tree s))
    \<and> (r = Inr () \<longrightarrow> (\<forall>ver f. - (2 ^ 63) \<le> ver \<and> ver < 2 ^ 63 \<and> ver \<noteq> keep \<longrightarrow>
        content (version_dir i ver @ f) (dk_tree s') = None \<and> content (record_path i ver) (dk_tree s') = None))"
proof -
  let ?old = "older mountFileDir i keep [] \<union> older mountStateDir i keep stateExtension"
  have swept: "removes ?old s s'" "r = Inr () \<longrightarrow> gone ?old s'" using wpD [OF Reclaim_wp assms(1)] by auto
  have apart: "\<not> prefix p (version_dir j ver @ f)" "\<not> prefix p (record_path j ver)"
    if "p \<in> ?old" "(j, ver) = (i, keep) \<or> j \<noteq> i" for p j ver f
    using that by (auto simp: older_def version_dir_def record_path_def mountFileDir_def mountStateDir_def)
  have kept: "content (version_dir j ver @ f) (dk_tree s') = content (version_dir j ver @ f) (dk_tree s)"
    "content (record_path j ver) (dk_tree s') = content (record_path j ver) (dk_tree s)"
    if "(j, ver) = (i, keep) \<or> j \<noteq> i" for j ver f
    using swept(1) apart [OF _ that] unfolding removes_def by blast+
  have none: "content (p @ q) (dk_tree s') = None" if "r = Inr ()" "p \<in> ?old" for p q
    using swept(2) that unfolding gone_def by (metis prefixI)
  have "content (version_dir i ver @ f) (dk_tree s') = None" "content (record_path i ver) (dk_tree s') = None"
    if ok: "r = Inr ()" and ver: "- (2 ^ 63) \<le> ver" "ver < 2 ^ 63" "ver \<noteq> keep" for ver f
  proof -
    have "[mountFileDir, i, Itoa ver] \<in> ?old" "[mountStateDir, i, Itoa ver @ stateExtension] \<in> ?old"
      using version_names [OF ver(1,2) assms(2,3) ver(3)] by (auto simp: older_def)
    from none [OF ok this(1), of f] none [OF ok this(2), of "[]"]
    show "content (version_dir i ver @ f) (dk_tree s') = None" "content (record_path i ver) (dk_tree s') = None"
      by (simp_all add: version_dir_def record_path_def)
  qed
  with kept show ?thesis by blast
qed

theorem reclaim_leaves_one_version_witness:
  "\<exists>s'. run_state (Reclaim example_wid 2) (example_host ''old'' ''{old'' []) = (Inr (), s')
    \<and> content [''files'', example_wid, ''1'', ''secret-tls''] (dk_tree s') = None"
proof -
  let ?s = "example_host ''old'' ''{old'' []"
  have "version_entry [] ''1''" "version_entry stateExtension ''1.json''" by code_simp+
  then have "wp (Reclaim example_wid 2) (\<lambda>r s'. r = Inr ()) ?s"
    by (simp add: Reclaim_def reclaim_def example_evals Itoa_digits mountFileDir_def stateExtension_def)
  then have ran: "run_state (Reclaim example_wid 2) ?s = (Inr (), final (Reclaim example_wid 2) ?s)"
    by (simp add: wp_iff_run outcome_def final_def prod_eq_iff)
  have "(2 :: int) < 2 ^ 63" "- (2 ^ 63) \<le> (2 :: int)" by simp_all
  from reclaim_leaves_one_version [OF ran this(2,1), THEN conjunct2, rule_format, of 1 "[''secret-tls'']"] show ?thesis
    using ran by (auto simp: example_paths)
qed

text \<open>Refreshes of one workload, one after another, each with what the stores, the clock and the host answer it.\<close>

fun refresh_passes :: "mounter list \<Rightarrow> string \<Rightarrow> string \<Rightarrow> int \<Rightarrow> Spec \<Rightarrow> mounts
    \<Rightarrow> (mounter_error + mount_Refresh list) list \<times> mounts" where
  "refresh_passes [] name i ver spec s = ([], s)"
| "refresh_passes (env # envs) name i ver spec s =
     (case run_state (mounter_Refresh env name i ver spec) s of (r, s1) \<Rightarrow>
        (case refresh_passes envs name i ver spec s1 of (rs, s2) \<Rightarrow> (r # rs, s2)))"

lemma lasting_passes:
  assumes "is_token m" "distinct (map mount_file (signalledMounts spec))" "m \<in> set (signalledMounts spec)"
    and "tokens_GetForWorkload i ver (ref_Name (mount_ref m)) (ms_tokens s) = Inr t" "\<forall>env\<in>set envs. lasts env t"
    and "refresh_passes envs name i ver spec s = (rs, s')"
  shows "leaves i ver m s s' \<and> (\<forall>told. Inr told \<in> set rs \<longrightarrow> told_of m \<notin> set told)"
  using assms(4-6)
proof (induction envs arbitrary: s rs)
  case (Cons env envs)
  obtain r s1 where one: "run_state (mounter_Refresh env name i ver spec) s = (r, s1)" by force
  obtain rs' where rest: "refresh_passes envs name i ver spec s1 = (rs', s')" "rs = r # rs'"
    using Cons.prems(3) one by (auto split: prod.splits)
  have here: "leaves i ver m s s1 \<and> (\<forall>told. r = Inr told \<longrightarrow> told_of m \<notin> set told)"
    using wpD [OF lasting_refresh [OF assms(1-3) Cons.prems(1)] one] Cons.prems(2) by simp
  then have "tokens_GetForWorkload i ver (ref_Name (mount_ref m)) (ms_tokens s1) = Inr t"
    using newest_bound Cons.prems(1) by (metis leaves_def)
  from Cons.IH [OF this _ rest(1)] here Cons.prems(2) show ?case by (auto simp: rest(2) intro: leaves_trans)
qed simp

text \<open>
  C38. A token that a failing refresh minted is never announced. A pass mints a token before it writes its file;
  when the pass then fails, at whatever call, of that file, of another mount or of the record, no later pass makes
  up for it. For as long as that token has more than half its life left, however many passes follow and whatever the
  host answers them, none of them writes the file, which stays as the failed pass left it, and none
  tells the workload of it, although it runs on the earlier credentials: each of those is refused once the grace period
  of a minute after the mint is over.
\<close>

theorem refreshed_token_lost:
  assumes "ValidateWorkload ps spec = None" "m \<in> set (signalledMounts spec)" "is_token m"
    and "mo_tokens env = Some draws" "\<And>n. 0 \<le> ae_now (draws n)"
    and "run_state (mounter_Refresh env name i ver spec) s = (Inl e, s1)"
    and "tokens_GetForWorkload i ver (ref_Name (mount_ref m)) (ms_tokens s1) = Inr t" "tok_Hash t \<notin> tok_Hash ` set (ms_tokens s)"
    and "refresh_passes envs name i ver spec s1 = (answers, s2)"
    and "\<forall>env'\<in>set envs. \<exists>draws'. mo_tokens env' = Some draws'
      \<and> (\<forall>n. tok_CreatedAt t \<le> ae_now (draws' n) \<and> ae_now (draws' n) < tok_CreatedAt t + rotateMargin)"
  shows "(\<forall>told. Inr told \<in> set answers \<longrightarrow> told_of m \<notin> set told)
    \<and> content (mount_path i ver m) (dk_tree s2) = content (mount_path i ver m) (dk_tree s1)
    \<and> (\<forall>u\<in>set (ms_tokens s). shared_for i ver (ref_Name (mount_ref m)) u \<longrightarrow>
        (\<exists>u'\<in>set (ms_tokens s2). tok_Hash u' = tok_Hash u
          \<and> (\<forall>later. tok_CreatedAt t + rotationGrace < later \<longrightarrow> \<not> live later u')))"
proof -
  let ?who = "ref_Name (mount_ref m)"
  note files = validated_files(2) [OF assms(1)]
  have t: "t \<in> set (bound i ver ?who (ms_tokens s1))" by (rule newest_in_bound [OF assms(7)])
  have "t \<notin> set (bound i ver ?who (ms_tokens s))" using assms(8) by auto
  then have "rotated i ver ?who (ms_tokens s) (ms_tokens s1)"
    using wpD [OF rotating_refresh [OF assms(4,5,3) files assms(2)] assms(6)] t by metis
  then obtain new where new: "tok_ExpiresAt new = tok_CreatedAt new + workloadTokenTTL"
    "\<forall>u\<in>set (bound i ver ?who (ms_tokens s1)). u = new \<or> tok_Hash u \<in> tok_Hash ` set (bound i ver ?who (ms_tokens s))"
    "\<forall>u\<in>set (bound i ver ?who (ms_tokens s)). \<exists>u'\<in>set (bound i ver ?who (ms_tokens s1)). tok_Hash u' = tok_Hash u
        \<and> (\<forall>later. tok_CreatedAt new + rotationGrace < later \<longrightarrow> \<not> live later u')"
    by (auto simp: rotated_def)
  have "t = new" using new(2) t assms(8) by auto
  then have "\<forall>env'\<in>set envs. lasts env' t" using assms(10) new(1) by (simp add: lasts_def)
  from lasting_passes [OF assms(3) files assms(2,7) this assms(9)]
  have left: "leaves i ver m s1 s2" and quiet: "\<forall>told. Inr told \<in> set answers \<longrightarrow> told_of m \<notin> set told" by simp_all
  have "\<exists>u'\<in>set (ms_tokens s2). tok_Hash u' = tok_Hash u \<and> (\<forall>later. tok_CreatedAt t + rotationGrace < later \<longrightarrow> \<not> live later u')"
    if "u \<in> set (ms_tokens s)" "shared_for i ver ?who u" for u
  proof -
    have "u \<in> set (bound i ver ?who (ms_tokens s))" using that by simp
    then obtain u' where "u' \<in> set (bound i ver ?who (ms_tokens s1))" "tok_Hash u' = tok_Hash u"
      "\<forall>later. tok_CreatedAt t + rotationGrace < later \<longrightarrow> \<not> live later u'"
      using new(3) \<open>t = new\<close> by blast
    moreover from this(1) have "u' \<in> set (bound i ver ?who (ms_tokens s2))" using left by (simp only: leaves_def)
    ultimately show ?thesis by auto
  qed
  then show ?thesis using left quiet by (auto simp: leaves_def)
qed

text \<open>A workload that is signalled when its token is rotated, twelve hours after the token was minted.\<close>

definition example_token_mount :: VolumeMount where
  "example_token_mount = \<lparr>mnt_From = [], mnt_Name = [], mnt_Secret = [], mnt_Var = [], mnt_Token = ''web'',
     mnt_Path = [], mnt_To = ''/etc/token'', mnt_Signal = ''SIGHUP'', mnt_Expand = False, mnt_ReadOnly = False, mnt_Propagation = []\<rparr>"

definition example_clock :: "nat \<Rightarrow> auth_env" where
  "example_clock n = \<lparr>ae_secret = ''s'', ae_newid = ''2'', ae_now = 43200000000000 + int n, ae_hash = (\<lambda>c. c), ae_workload = (\<lambda>w. True)\<rparr>"

definition example_shared :: token where
  "example_shared = (client_token ''takt_c_old'' ''workload'' ''web'')\<lparr>tok_ID := ''1'', tok_WorkloadID := example_wid,
     tok_WorkloadVersion := Some 1, tok_ExpiresAt := 43200000000000\<rparr>"

definition example_token_mounter :: mounter where
  "example_token_mounter = (example_mounter [])\<lparr>mo_tokens := Some (\<lambda>n. example_clock n),
     mo_Unmarshal := (\<lambda>b. Some [(''token-web'', b)])\<rparr>"

definition example_token_host :: mounts where
  "example_token_host = \<lparr>dk_tree = Folder
       [(''files'', Folder [(example_wid, Folder [(''1'', Folder [(''token-web'', File ''takt_c_old'')])])]),
        (''state'', Folder [(example_wid, Folder [(''1.json'', File ''d'')])])],
     dk_answers = [None, Some 0], ms_tokens = [example_shared], ms_mints = 0\<rparr>"

definition example_token_spec :: Spec where
  "example_token_spec = example_web\<lparr>spec_Volumes := [example_token_mount]\<rparr>"

lemma example_token_spec_valid: "ValidateWorkload example_parsers example_token_spec = None"
  by code_simp

text \<open>The pass that could not change the mode of the file, and one a moment later.\<close>

definition example_failed :: "(mounter_error + mount_Refresh list) \<times> mounts" where
  "example_failed = run_state (mounter_Refresh example_token_mounter ''web'' example_wid 1 example_token_spec) example_token_host"

definition example_retried :: "(mounter_error + mount_Refresh list) list \<times> mounts" where
  "example_retried = refresh_passes [example_token_mounter\<lparr>mo_tokens := Some (\<lambda>n. example_clock 60)\<rparr>]
     ''web'' example_wid 1 example_token_spec (snd example_failed)"

theorem refreshed_token_lost_witness:
  "fst example_failed = Inl (Mnt_IO IO_failed) \<and> fst example_retried = [Inr []]
    \<and> content (mount_path example_wid 1 example_token_mount) (dk_tree (snd example_retried)) = Some ''takt_c_old''
    \<and> (\<exists>u\<in>set (ms_tokens (snd example_retried)). tok_Hash u = ''takt_c_old'' \<and> \<not> live (43200000000000 + 2 * Minute) u)"
proof -
  have failed: "fst example_failed = Inl (Mnt_IO IO_failed)" by code_simp
  have retried: "fst example_retried = [Inr []]" by code_simp
  have old: "content (mount_path example_wid 1 example_token_mount) (dk_tree (snd example_failed)) = Some ''takt_c_old''" by code_simp
  have m: "example_token_mount \<in> set (signalledMounts example_token_spec)" "is_token example_token_mount" by code_simp+
  let ?t = "(client_token ''takt_c_s'' ''workload'' ''web'')\<lparr>tok_ID := ''2'', tok_WorkloadID := example_wid,
    tok_WorkloadVersion := Some 1, tok_ExpiresAt := 2 * 43200000000000 , tok_CreatedAt := 43200000000000\<rparr>"
  have new: "tokens_GetForWorkload example_wid 1 (ref_Name (mount_ref example_token_mount)) (ms_tokens (snd example_failed)) = Inr ?t"
    by code_simp
  have shared: "example_shared \<in> set (ms_tokens example_token_host)" "tok_Hash example_shared = ''takt_c_old''"
    "shared_for example_wid 1 (ref_Name (mount_ref example_token_mount)) example_shared" by code_simp+
  have env: "mo_tokens example_token_mounter = Some (\<lambda>n. example_clock n)" by (simp add: example_token_mounter_def)
  have first: "run_state (mounter_Refresh example_token_mounter ''web'' example_wid 1 example_token_spec) example_token_host
      = (Inl (Mnt_IO IO_failed), snd example_failed)"
    using failed by (simp add: example_failed_def prod_eq_iff)
  have later: "refresh_passes [example_token_mounter\<lparr>mo_tokens := Some (\<lambda>n. example_clock 60)\<rparr>]
      ''web'' example_wid 1 example_token_spec (snd example_failed) = (fst example_retried, snd example_retried)"
    by (simp add: example_retried_def)
  have fresh: "tok_Hash ?t \<notin> tok_Hash ` set (ms_tokens example_token_host)"
    by (simp add: example_token_host_def example_shared_def client_token_def)
  have life: "\<forall>env'\<in>set [example_token_mounter\<lparr>mo_tokens := Some (\<lambda>n. example_clock 60)\<rparr>]. \<exists>draws'. mo_tokens env' = Some draws'
      \<and> (\<forall>n. tok_CreatedAt ?t \<le> ae_now (draws' n) \<and> ae_now (draws' n) < tok_CreatedAt ?t + rotateMargin)"
    by (simp add: example_clock_def rotateMargin_def workloadTokenTTL_def TokenTTL_def)
  have now: "0 \<le> ae_now (example_clock n)" for n by (simp add: example_clock_def)
  note lost = refreshed_token_lost [OF example_token_spec_valid m env now first new fresh later life]
  obtain u where "u \<in> set (ms_tokens (snd example_retried))" "tok_Hash u = ''takt_c_old''"
    "\<forall>later. tok_CreatedAt ?t + rotationGrace < later \<longrightarrow> \<not> live later u"
    using lost [THEN conjunct2, THEN conjunct2, THEN bspec, OF shared(1), THEN mp, OF shared(3)] shared(2) by auto
  moreover have "tok_CreatedAt ?t + rotationGrace < 43200000000000 + 2 * Minute" by (simp add: rotationGrace_def)
  ultimately show ?thesis using failed retried old lost [THEN conjunct2, THEN conjunct1] by auto
qed

text \<open>
  What a reader of a mounted file may see. Whatever the host answers and wherever a rewrite stops, a file
  that held something holds something, namely as many bytes of the new value as got through and what the old
  one has beyond them, or the new value alone. A new value that is the shorter one is followed by the end of
  the old one until the file is cut to its length.
\<close>

lemma rewrite_seen:
  assumes "p \<noteq> []" "content p (dk_tree s) = Some old" "old \<noteq> []" "new \<noteq> []"
  shows "wp (write_file p new) (\<lambda>r s'. \<exists>b. content p (dk_tree s') = Some b \<and> b \<noteq> [] \<and> torn old new b
      \<and> (r = Inr () \<longrightarrow> b = new)) s
    \<and> (length new < length old \<and> dk_answers s = [None, None, None, Some k] \<longrightarrow>
        wp (write_file p new) (\<lambda>r s'. content p (dk_tree s') = Some (new @ drop (length new) old)) s)"
proof
  have old: "held p s = old" using assms(2) by (simp add: held_def)
  have left: "\<not> torn old new []"
    using assms(3,4) by (auto simp: torn_def)
  show "wp (write_file p new) (\<lambda>r s'. \<exists>b. content p (dk_tree s') = Some b \<and> b \<noteq> [] \<and> torn old new b
      \<and> (r = Inr () \<longrightarrow> b = new)) s"
  proof (rule wp_mono [OF write_file_wp [OF assms(1)]])
    fix r and s' :: mounts
    assume wrote: "file_step p s s' \<and> torn (held p s) new (held p s') \<and> (r = Inr () \<longrightarrow> content p (dk_tree s') = Some new)"
    then show "\<exists>b. content p (dk_tree s') = Some b \<and> b \<noteq> [] \<and> torn old new b \<and> (r = Inr () \<longrightarrow> b = new)"
      using left by (cases "content p (dk_tree s')") (auto simp: old held_def [of p s'])
  qed
  have there: "node_at p (dk_tree s) = Some (File old)" using assms(2) by (simp add: content_iff)
  have folder: "is_folder (node_at (butlast p) (dk_tree s))" by (rule node_at_parent [OF there assms(1)])
  have opens: "node_at p (alter p or_empty (dk_tree s)) = Some (File old)"
    using node_at_alter_there [OF there assms(1)] by (simp add: or_empty_def)
  show "length new < length old \<and> dk_answers s = [None, None, None, Some k] \<longrightarrow>
      wp (write_file p new) (\<lambda>r s'. content p (dk_tree s') = Some (new @ drop (length new) old)) s"
    using there folder opens node_at_alter_there [OF opens assms(1)]
    by (auto simp: write_file_def os_defs wp_simps first_answer_def opened_def is_folder_def content_def content_map_def)
qed

end
