(* ===== verification/Score_Plan.thy ===== *)
theory Score_Plan
  imports Manifest_Validation Volumes Service_Backends "HOL-Library.While_Combinator"
begin

text \<open>
  The order a score is applied in (\<open>pkg/score/plan.go\<close>): what each workload depends on, the steps found by
  Kahn's algorithm, the requirements a score does not hold itself, and the check that a workload reads
  nothing the score does not list. The types of a rendered score are those of \<open>pkg/score/render.go\<close>.

  A Go map keyed by nodes is a function, zero or empty where the map has no entry. The lemmas are in the
  theory \<open>Score_Order\<close>.
\<close>

section \<open>Nodes and plans\<close>

datatype score_Kind = Kind_Volume | Kind_Variable | Kind_Secret | Kind_Workload | Kind_Service | Kind_Other string

datatype Node = Node (node_Kind: score_Kind) (node_Name: string)

record Plan =
  pl_Steps :: "Node list"
  pl_Requirements :: "Node list"

datatype plan_error =
    ErrCycle "Node list"
  | ErrUndeclared string Node
  | Plan_References string scan_error

record manifest_Variable =
  mva_Name :: string
  mva_Value :: string
  mva_Labels :: string_map

record Document =
  doc_Source :: string
  doc_Text :: string
  doc_Skipped :: bool

record Rendered =
  rn_Name :: string
  rn_Release :: string
  rn_Package :: string
  rn_Volumes :: "manifest_Volume list"
  rn_Workloads :: "Spec list"
  rn_Services :: "manifest_Service list"
  rn_Variables :: "manifest_Variable list"
  rn_Required :: "string list"
  rn_Secrets :: "string list"
  rn_Documents :: "Document list"

record inventory =
  inv_volumes :: "string list"
  inv_workloads :: "Spec list"
  inv_services :: "string list"
  inv_variables :: "string list"
  inv_contents :: Contents

text \<open>Nodes are ordered by the order of their kinds and then by name; a kind the map does not hold reads as 0.\<close>

fun kindOrder :: "score_Kind \<Rightarrow> nat" where
  "kindOrder Kind_Volume = 0"
| "kindOrder Kind_Variable = 1"
| "kindOrder Kind_Secret = 2"
| "kindOrder Kind_Workload = 3"
| "kindOrder Kind_Service = 4"
| "kindOrder (Kind_Other k) = 0"

definition compareNodes :: "Node \<Rightarrow> nat \<times> string" where
  "compareNodes n = (kindOrder (node_Kind n), node_Name n)"

definition add_node :: "Node \<Rightarrow> Node list \<Rightarrow> Node list" where
  "add_node n ns = (if n \<in> set ns then ns else ns @ [n])"

section \<open>Dependencies\<close>

text \<open>A token reference is not a dependency, and nor is a path of the host.\<close>

fun reference_node :: "Reference \<Rightarrow> Node option" where
  "reference_node r = (case ref_Kind r of
       KindVariable \<Rightarrow> Some (Node Kind_Variable (ref_Name r))
     | KindSecret \<Rightarrow> Some (Node Kind_Secret (ref_Name r))
     | KindWorkload \<Rightarrow> Some (Node Kind_Workload (ref_Name r))
     | KindToken \<Rightarrow> None)"

definition mount_node :: "VolumeMount \<Rightarrow> Node option" where
  "mount_node m = (if mnt_Name m = [] then None else Some (Node Kind_Volume (mnt_Name m)))"

definition dependenciesOf :: "Spec \<Rightarrow> Contents \<Rightarrow> Node list" where
  "dependenciesOf workload contents =
     (let references = (case ReferencesIn workload contents of Inl e \<Rightarrow> [] | Inr rs \<Rightarrow> rs);
          nodes = fold add_node (List.map_filter reference_node references) []
      in fold add_node (List.map_filter mount_node (spec_Volumes workload)) nodes)"

section \<open>Kahn's algorithm\<close>

definition inventory_nodes :: "inventory \<Rightarrow> Node list" where
  "inventory_nodes iv = map (Node Kind_Volume) (inv_volumes iv) @ map (Node Kind_Variable) (inv_variables iv)
     @ map (\<lambda>w. Node Kind_Workload (spec_Name w)) (inv_workloads iv) @ map (Node Kind_Service) (inv_services iv)"

text \<open>What each node depends on, what depends on it, and what the inventory does not hold.\<close>

record edges =
  ed_dependencies :: "Node \<Rightarrow> Node list"
  ed_dependents :: "Node \<Rightarrow> Node list"
  ed_requirements :: "Node list"

definition no_edges :: edges where
  "no_edges = \<lparr>ed_dependencies = (\<lambda>n. []), ed_dependents = (\<lambda>n. []), ed_requirements = []\<rparr>"

definition add_edge :: "Node list \<Rightarrow> Node \<Rightarrow> Node \<Rightarrow> edges \<Rightarrow> edges" where
  "add_edge held reader dependency ed =
     (if dependency \<notin> set held then ed\<lparr>ed_requirements := add_node dependency (ed_requirements ed)\<rparr>
      else ed\<lparr>ed_dependencies := (ed_dependencies ed)(reader := ed_dependencies ed reader @ [dependency]),
              ed_dependents := (ed_dependents ed)(dependency := ed_dependents ed dependency @ [reader])\<rparr>)"

definition add_edges :: "Node list \<Rightarrow> Contents \<Rightarrow> Spec \<Rightarrow> edges \<Rightarrow> edges" where
  "add_edges held contents workload =
     fold (add_edge held (Node Kind_Workload (spec_Name workload))) (dependenciesOf workload contents)"

definition inventory_edges :: "inventory \<Rightarrow> edges" where
  "inventory_edges iv = fold (add_edges (inventory_nodes iv) (inv_contents iv)) (inv_workloads iv) no_edges"

record kahn =
  kh_available :: "Node list"
  kh_remaining :: "Node \<Rightarrow> int"
  kh_steps :: "Node list"

text \<open>\<open>slices.BinarySearchFunc\<close> finds the first position whose node is not below the one sought, which is
  where \<open>insort_key\<close> puts it.\<close>

fun release_dependents :: "Node list \<Rightarrow> (Node \<Rightarrow> int) \<Rightarrow> Node list \<Rightarrow> (Node \<Rightarrow> int) \<times> Node list" where
  "release_dependents [] remaining available = (remaining, available)"
| "release_dependents (d # ds) remaining available =
     (let remaining' = remaining(d := remaining d - 1)
      in release_dependents ds remaining' (if remaining' d = 0 then insort_key compareNodes d available else available))"

definition kahn_step :: "(Node \<Rightarrow> Node list) \<Rightarrow> kahn \<Rightarrow> kahn" where
  "kahn_step dependents k = (case kh_available k of
       [] \<Rightarrow> k
     | nxt # available \<Rightarrow>
         (case release_dependents (dependents nxt) (kh_remaining k) available of (remaining', available') \<Rightarrow>
            \<lparr>kh_available = available', kh_remaining = remaining', kh_steps = kh_steps k @ [nxt]\<rparr>))"

definition kahn_goes_on :: "kahn \<Rightarrow> bool" where
  "kahn_goes_on k \<longleftrightarrow> kh_available k \<noteq> []"

definition kahn_start :: "Node list \<Rightarrow> edges \<Rightarrow> kahn" where
  "kahn_start nodes ed =
     (let remaining = (\<lambda>n. int (length (ed_dependencies ed n)))
      in \<lparr>kh_available = sort_key compareNodes (filter (\<lambda>n. \<not> remaining n > 0) nodes),
          kh_remaining = remaining, kh_steps = []\<rparr>)"

definition kahn_loop :: "Node list \<Rightarrow> edges \<Rightarrow> kahn" where
  "kahn_loop nodes ed = while kahn_goes_on (kahn_step (ed_dependents ed)) (kahn_start nodes ed)"

definition inventory_plan :: "inventory \<Rightarrow> plan_error + Plan" where
  "inventory_plan iv =
     (let nodes = inventory_nodes iv; ed = inventory_edges iv; k = kahn_loop nodes ed
      in if length (kh_steps k) < length nodes
         then Inl (ErrCycle (sort_key compareNodes (filter (\<lambda>n. kh_remaining k n \<noteq> 0) nodes)))
         else Inr \<lparr>pl_Steps = kh_steps k, pl_Requirements = sort_key compareNodes (ed_requirements ed)\<rparr>)"

section \<open>The plan of a rendered score\<close>

text \<open>The values of the variables the score sets; of two with one name the later one counts.\<close>

definition rendered_contents :: "Rendered \<Rightarrow> Contents" where
  "rendered_contents r = Some (map_of (rev (map (\<lambda>v. (mva_Name v, mva_Value v)) (rn_Variables r))))"

definition undeclared :: "string list \<Rightarrow> string list \<Rightarrow> (string \<Rightarrow> Node) \<Rightarrow> string \<Rightarrow> plan_error option" where
  "undeclared names listed node reader =
     map_option (\<lambda>name. ErrUndeclared reader (node name)) (find (\<lambda>name. name \<notin> set listed) names)"

definition check_workload :: "string list \<Rightarrow> string list \<Rightarrow> Contents \<Rightarrow> Spec \<Rightarrow> plan_error option" where
  "check_workload variables secrets contents workload =
     (case ReferencesIn workload contents of
        Inl e \<Rightarrow> Some (Plan_References (spec_Name workload) e)
      | Inr references \<Rightarrow>
          (case undeclared (Names references KindVariable) variables (Node Kind_Variable) (spec_Name workload) of
             Some e \<Rightarrow> Some e
           | None \<Rightarrow> undeclared (Names references KindSecret) secrets (Node Kind_Secret) (spec_Name workload)))"

fun check_workloads :: "string list \<Rightarrow> string list \<Rightarrow> Contents \<Rightarrow> Spec list \<Rightarrow> plan_error option" where
  "check_workloads variables secrets contents [] = None"
| "check_workloads variables secrets contents (w # ws) =
     (case check_workload variables secrets contents w of
        Some e \<Rightarrow> Some e | None \<Rightarrow> check_workloads variables secrets contents ws)"

definition checkDeclared :: "Rendered \<Rightarrow> Contents \<Rightarrow> plan_error option" where
  "checkDeclared r contents =
     check_workloads (rn_Required r @ map mva_Name (rn_Variables r)) (rn_Secrets r) contents (rn_Workloads r)"

definition rendered_inventory :: "Rendered \<Rightarrow> inventory" where
  "rendered_inventory r = \<lparr>inv_volumes = map vom_Name (rn_Volumes r), inv_workloads = rn_Workloads r,
     inv_services = map svm_Name (rn_Services r), inv_variables = map mva_Name (rn_Variables r),
     inv_contents = rendered_contents r\<rparr>"

definition plan_require :: "Node \<Rightarrow> Plan \<Rightarrow> Plan" where
  "plan_require node p = p\<lparr>pl_Requirements := add_node node (pl_Requirements p)\<rparr>"

definition NewPlan :: "Rendered \<Rightarrow> plan_error + Plan" where
  "NewPlan r = (case checkDeclared r (rendered_contents r) of
       Some e \<Rightarrow> Inl e
     | None \<Rightarrow>
         (case inventory_plan (rendered_inventory r) of
            Inl e \<Rightarrow> Inl e
          | Inr p \<Rightarrow>
              (let p1 = fold (\<lambda>name. plan_require (Node Kind_Variable name)) (rn_Required r) p;
                   p2 = fold (\<lambda>name. plan_require (Node Kind_Secret name)) (rn_Secrets r) p1
               in Inr (p2\<lparr>pl_Requirements := sort_key compareNodes (pl_Requirements p2)\<rparr>))))"

end
