(* ===== verification/Score_Apply.thy ===== *)
theory Score_Apply
  imports Score_Plan "HOL-Library.AList"
begin

text \<open>
  Applying and removing a score (\<open>pkg/score/apply.go\<close>, \<open>pkg/score/install.go\<close>). The server is a state of
  any type, and the client is a record of the operations of the interface \<open>Client\<close>, each of which may
  answer as it likes and change that state, so that what other callers do between two calls is part of what
  an operation does. A session adds the calls made so far, in order. The lemmas are in \<open>Score_Delivery\<close>.
\<close>

section \<open>The client\<close>

datatype client_error = Cl_NotFound score_Kind | Cl_Changed score_Kind | Cl_Failed string

record resource =
  rs_labels :: string_map
  rs_etag :: string

record client_Workload =
  cw_Spec :: Spec
  cw_ETag :: string

type_synonym listed = "(string \<times> string_map) list"

text \<open>A write is conditioned on a tag or on nothing, and an apply of a workload may wait for its rollout.\<close>

record 'w client =
  cl_ApplyVolume :: "manifest_Volume \<Rightarrow> string option \<Rightarrow> ('w, client_error option) state"
  cl_GetVolume :: "string \<Rightarrow> ('w, client_error + resource) state"
  cl_ListVolumes :: "string list \<Rightarrow> ('w, client_error + listed) state"
  cl_DeleteVolume :: "string \<Rightarrow> ('w, client_error option) state"
  cl_SetVariable :: "manifest_Variable \<Rightarrow> string option \<Rightarrow> ('w, client_error option) state"
  cl_GetVariable :: "string \<Rightarrow> ('w, client_error + resource) state"
  cl_ListVariables :: "string list \<Rightarrow> ('w, client_error + listed) state"
  cl_DeleteVariable :: "string \<Rightarrow> ('w, client_error option) state"
  cl_Apply :: "Spec \<Rightarrow> string option \<Rightarrow> bool \<Rightarrow> ('w, client_error option) state"
  cl_Get :: "string \<Rightarrow> ('w, client_error + client_Workload) state"
  cl_List :: "string list \<Rightarrow> ('w, client_error + listed) state"
  cl_Delete :: "string \<Rightarrow> bool \<Rightarrow> ('w, client_error option) state"
  cl_ApplyService :: "manifest_Service \<Rightarrow> string option \<Rightarrow> ('w, client_error option) state"
  cl_GetService :: "string \<Rightarrow> ('w, client_error + resource) state"
  cl_ListServices :: "string list \<Rightarrow> ('w, client_error + listed) state"
  cl_DeleteService :: "string \<Rightarrow> ('w, client_error option) state"
  cl_GetSecret :: "string \<Rightarrow> ('w, client_error + resource) state"

datatype score_call = Looked_Up Node | Listed score_Kind | Wrote Node "string option" | Deleted Node

record 'w session =
  se_world :: 'w
  se_calls :: "score_call list"

definition on_server :: "score_call \<Rightarrow> ('w, 'a) state \<Rightarrow> ('w session, 'a) state" where
  "on_server c m = State (\<lambda>s. case run_state m (se_world s) of
       (a, w) \<Rightarrow> (a, \<lparr>se_world = w, se_calls = se_calls s @ [c]\<rparr>))"

datatype score_error =
    Score_Plan plan_error
  | Unknown_Kind score_Kind
  | Lookup_Failed Node client_error
  | Get_Failed string client_error
  | List_Failed score_Kind client_error
  | ErrMissing "Node list"
  | ErrUnowned "Node list"
  | Score_Changed client_error
  | Score_Client client_error
  | Score_Panic
  | Apply_Failed Node score_error
  | Delete_Failed Node score_error

type_synonym ('w, 'a) scoring = "('w session, score_error + 'a) state"

definition LabelName :: string where
  "LabelName = ''score''"

definition LabelRelease :: string where
  "LabelRelease = ''score.release''"

section \<open>Looking up\<close>

definition found_or_not :: "Node \<Rightarrow> client_error + 'r \<Rightarrow> score_error + 'r option" where
  "found_or_not node answer = (case answer of
       Inr existing \<Rightarrow> Inr (Some existing)
     | Inl e \<Rightarrow> if e = Cl_NotFound (node_Kind node) then Inr None else Inl (Lookup_Failed node e))"

definition workload_resource :: "client_Workload \<Rightarrow> resource" where
  "workload_resource w = \<lparr>rs_labels = spec_Labels (cw_Spec w), rs_etag = cw_ETag w\<rparr>"

definition lookup_answer :: "'w client \<Rightarrow> Node \<Rightarrow> ('w, client_error + resource) state option" where
  "lookup_answer c node = (case node_Kind node of
       Kind_Volume \<Rightarrow> Some (cl_GetVolume c (node_Name node))
     | Kind_Variable \<Rightarrow> Some (cl_GetVariable c (node_Name node))
     | Kind_Secret \<Rightarrow> Some (cl_GetSecret c (node_Name node))
     | Kind_Workload \<Rightarrow> Some (State_Monad.bind (cl_Get c (node_Name node)) (\<lambda>r. ret (map_sum (\<lambda>e. e) workload_resource r)))
     | Kind_Service \<Rightarrow> Some (cl_GetService c (node_Name node))
     | Kind_Other k \<Rightarrow> None)"

definition lookup :: "'w client \<Rightarrow> Node \<Rightarrow> ('w, resource option) scoring" where
  "lookup c node = (case lookup_answer c node of
       None \<Rightarrow> ret (Inl (Unknown_Kind (node_Kind node)))
     | Some get \<Rightarrow> State_Monad.bind (on_server (Looked_Up node) get) (\<lambda>r. ret (found_or_not node r)))"

section \<open>Checking and applying\<close>

record Preconditions =
  pc_Missing :: "Node list"
  pc_Unowned :: "Node list"

fun check_requirements :: "'w client \<Rightarrow> Node list \<Rightarrow> Node list \<Rightarrow> ('w, Node list) scoring" where
  "check_requirements c [] missing = ret (Inr missing)"
| "check_requirements c (node # nodes) missing = and_then (lookup c node) (\<lambda>found.
     check_requirements c nodes (if found = None then missing @ [node] else missing))"

fun check_steps ::
  "'w client \<Rightarrow> string \<Rightarrow> Node list \<Rightarrow> Node list \<Rightarrow> (Node \<Rightarrow> string) \<Rightarrow> ('w, Node list \<times> (Node \<Rightarrow> string)) scoring" where
  "check_steps c name [] unowned tags = ret (Inr (unowned, tags))"
| "check_steps c name (node # nodes) unowned tags = and_then (lookup c node) (\<lambda>found. case found of
       None \<Rightarrow> check_steps c name nodes unowned tags
     | Some existing \<Rightarrow> check_steps c name nodes
         (if lookup_str (rs_labels existing) LabelName \<noteq> name then unowned @ [node] else unowned)
         (tags(node := rs_etag existing)))"

definition score_check :: "'w client \<Rightarrow> Rendered \<Rightarrow> ('w, Preconditions \<times> (Node \<Rightarrow> string)) scoring" where
  "score_check c rendered = (case NewPlan rendered of
       Inl e \<Rightarrow> ret (Inl (Score_Plan e))
     | Inr plan \<Rightarrow> and_then (check_requirements c (pl_Requirements plan) []) (\<lambda>missing.
         and_then (check_steps c (rn_Name rendered) (pl_Steps plan) [] (\<lambda>n. [])) (\<lambda>(unowned, tags).
           ret (Inr (\<lparr>pc_Missing = missing, pc_Unowned = unowned\<rparr>, tags)))))"

definition score_Check :: "'w client \<Rightarrow> Rendered \<Rightarrow> ('w, Preconditions) scoring" where
  "score_Check c rendered = and_then (score_check c rendered) (\<lambda>(preconditions, tags). ret (Inr preconditions))"

text \<open>The write of one resource: the first manifest of that name, which a slice without one would not have.\<close>

definition with_named :: "('r \<Rightarrow> string) \<Rightarrow> string \<Rightarrow> 'r list \<Rightarrow> ('r \<Rightarrow> ('w, client_error option) state)
    \<Rightarrow> ('w, client_error option) state option" where
  "with_named name_of name rs send = map_option send (find (\<lambda>r. name_of r = name) rs)"

definition apply_answer :: "'w client \<Rightarrow> Rendered \<Rightarrow> Node \<Rightarrow> string option \<Rightarrow> bool \<Rightarrow> ('w, client_error option) state option" where
  "apply_answer c rendered node ifMatch wait = (case node_Kind node of
       Kind_Volume \<Rightarrow> with_named vom_Name (node_Name node) (rn_Volumes rendered) (\<lambda>v. cl_ApplyVolume c v ifMatch)
     | Kind_Variable \<Rightarrow> with_named mva_Name (node_Name node) (rn_Variables rendered) (\<lambda>v. cl_SetVariable c v ifMatch)
     | Kind_Workload \<Rightarrow> with_named spec_Name (node_Name node) (rn_Workloads rendered) (\<lambda>w. cl_Apply c w ifMatch wait)
     | Kind_Service \<Rightarrow> with_named svm_Name (node_Name node) (rn_Services rendered) (\<lambda>v. cl_ApplyService c v ifMatch)
     | Kind_Secret \<Rightarrow> None
     | Kind_Other k \<Rightarrow> None)"

definition applicable :: "Node \<Rightarrow> bool" where
  "applicable node \<longleftrightarrow> node_Kind node \<in> {Kind_Volume, Kind_Variable, Kind_Workload, Kind_Service}"

definition score_apply :: "'w client \<Rightarrow> Rendered \<Rightarrow> Node \<Rightarrow> string \<Rightarrow> bool \<Rightarrow> ('w session, score_error option) state" where
  "score_apply c rendered node etag wait =
     (let ifMatch = (if etag \<noteq> [] then Some etag else None)
      in if \<not> applicable node then ret (Some (Unknown_Kind (node_Kind node)))
         else case apply_answer c rendered node ifMatch wait of
           None \<Rightarrow> ret (Some Score_Panic)
         | Some put \<Rightarrow> State_Monad.bind (on_server (Wrote node ifMatch) put) (\<lambda>r. ret (map_option
             (\<lambda>e. if e = Cl_Changed (node_Kind node) then Score_Changed e else Score_Client e) r)))"

text \<open>The report and the error: a failure stops at once, and what was applied before it is reported.\<close>

fun apply_steps :: "'w client \<Rightarrow> Rendered \<Rightarrow> (Node \<Rightarrow> string) \<Rightarrow> bool \<Rightarrow> Node list \<Rightarrow> Node list
    \<Rightarrow> ('w session, Node list \<times> score_error option) state" where
  "apply_steps c rendered tags wait [] applied = ret (applied, None)"
| "apply_steps c rendered tags wait (node # nodes) applied =
     State_Monad.bind (score_apply c rendered node (tags node) wait) (\<lambda>r. case r of
         Some e \<Rightarrow> ret (applied, Some (Apply_Failed node e))
       | None \<Rightarrow> apply_steps c rendered tags wait nodes (applied @ [node]))"

definition score_Apply :: "'w client \<Rightarrow> Rendered \<Rightarrow> bool \<Rightarrow> bool \<Rightarrow> ('w session, Node list \<times> score_error option) state" where
  "score_Apply c rendered adopt wait = (case NewPlan rendered of
       Inl e \<Rightarrow> ret ([], Some (Score_Plan e))
     | Inr plan \<Rightarrow> State_Monad.bind (score_check c rendered) (\<lambda>r. case r of
         Inl e \<Rightarrow> ret ([], Some e)
       | Inr (preconditions, tags) \<Rightarrow>
           if pc_Missing preconditions \<noteq> [] then ret ([], Some (ErrMissing (pc_Missing preconditions)))
           else if pc_Unowned preconditions \<noteq> [] \<and> \<not> adopt then ret ([], Some (ErrUnowned (pc_Unowned preconditions)))
           else apply_steps c rendered tags wait (pl_Steps plan) []))"

section \<open>Installs\<close>

record Install =
  in_Name :: string
  in_Releases :: "string list"
  in_Volumes :: "string list"
  in_Workloads :: "string list"
  in_Services :: "string list"
  in_Variables :: "string list"

definition new_install :: "string \<Rightarrow> Install" where
  "new_install name = \<lparr>in_Name = name, in_Releases = [], in_Volumes = [], in_Workloads = [], in_Services = [], in_Variables = []\<rparr>"

definition add_release :: "string \<Rightarrow> Install \<Rightarrow> Install" where
  "add_release release i = (if release \<in> set (in_Releases i) then i else i\<lparr>in_Releases := in_Releases i @ [release]\<rparr>)"

definition group_one :: "(string \<Rightarrow> Install \<Rightarrow> Install) \<Rightarrow> string \<times> string_map \<Rightarrow> (string \<times> Install) list \<Rightarrow> (string \<times> Install) list" where
  "group_one add r installs = (case map_of (snd r) LabelName of
       None \<Rightarrow> installs
     | Some name \<Rightarrow>
         (let found = (case map_of installs name of None \<Rightarrow> new_install name | Some i \<Rightarrow> i)
          in AList.update name (add (fst r) (add_release (lookup_str (snd r) LabelRelease) found)) installs))"

definition list_kind :: "score_Kind \<Rightarrow> ('w, client_error + listed) state \<Rightarrow> (string \<Rightarrow> Install \<Rightarrow> Install)
    \<Rightarrow> (string \<times> Install) list \<Rightarrow> ('w, (string \<times> Install) list) scoring" where
  "list_kind kind get add installs = State_Monad.bind (on_server (Listed kind) get) (\<lambda>r. ret (case r of
       Inl e \<Rightarrow> Inl (List_Failed kind e) | Inr rs \<Rightarrow> Inr (fold (group_one add) rs installs)))"

definition sort_install :: "Install \<Rightarrow> Install" where
  "sort_install i = i\<lparr>in_Releases := sort (in_Releases i), in_Volumes := sort (in_Volumes i),
     in_Variables := sort (in_Variables i), in_Workloads := sort (in_Workloads i), in_Services := sort (in_Services i)\<rparr>"

definition collect :: "'w client \<Rightarrow> string list \<Rightarrow> ('w, Install list) scoring" where
  "collect c queries =
     and_then (list_kind Kind_Volume (cl_ListVolumes c queries) (\<lambda>n i. i\<lparr>in_Volumes := in_Volumes i @ [n]\<rparr>) []) (\<lambda>i1.
     and_then (list_kind Kind_Variable (cl_ListVariables c queries) (\<lambda>n i. i\<lparr>in_Variables := in_Variables i @ [n]\<rparr>) i1) (\<lambda>i2.
     and_then (list_kind Kind_Workload (cl_List c queries) (\<lambda>n i. i\<lparr>in_Workloads := in_Workloads i @ [n]\<rparr>) i2) (\<lambda>i3.
     and_then (list_kind Kind_Service (cl_ListServices c queries) (\<lambda>n i. i\<lparr>in_Services := in_Services i @ [n]\<rparr>) i3) (\<lambda>i4.
       ret (Inr (sort_key in_Name (map (\<lambda>(name, i). sort_install i) i4)))))))"

definition score_List :: "'w client \<Rightarrow> ('w, Install list) scoring" where
  "score_List c = collect c []"

definition Installed :: "'w client \<Rightarrow> string \<Rightarrow> ('w, Install) scoring" where
  "Installed c name = and_then (collect c [''$.labels.'' @ LabelName @ ''='' @ name]) (\<lambda>installs.
     ret (Inr (case installs of [] \<Rightarrow> new_install name | i # _ \<Rightarrow> i)))"

definition install_Nodes :: "Install \<Rightarrow> Node list" where
  "install_Nodes i = map (Node Kind_Volume) (in_Volumes i) @ map (Node Kind_Variable) (in_Variables i)
     @ map (Node Kind_Workload) (in_Workloads i) @ map (Node Kind_Service) (in_Services i)"

definition rendered_nodes :: "Rendered \<Rightarrow> Node list" where
  "rendered_nodes r = map (\<lambda>v. Node Kind_Volume (vom_Name v)) (rn_Volumes r)
     @ map (\<lambda>v. Node Kind_Variable (mva_Name v)) (rn_Variables r)
     @ map (\<lambda>w. Node Kind_Workload (spec_Name w)) (rn_Workloads r)
     @ map (\<lambda>v. Node Kind_Service (svm_Name v)) (rn_Services r)"

definition Prunable :: "Rendered \<Rightarrow> Install \<Rightarrow> Node list" where
  "Prunable rendered i = filter (\<lambda>n. n \<notin> set (rendered_nodes rendered)) (install_Nodes i)"

text \<open>What is to be deleted, in the order it would be applied, reading each workload to learn what it depends on.\<close>

fun order_held :: "'w client \<Rightarrow> Node list \<Rightarrow> inventory \<Rightarrow> ('w, inventory) scoring" where
  "order_held c [] held = ret (Inr held)"
| "order_held c (node # nodes) held = (case node_Kind node of
       Kind_Volume \<Rightarrow> order_held c nodes (held\<lparr>inv_volumes := inv_volumes held @ [node_Name node]\<rparr>)
     | Kind_Variable \<Rightarrow> order_held c nodes (held\<lparr>inv_variables := inv_variables held @ [node_Name node]\<rparr>)
     | Kind_Service \<Rightarrow> order_held c nodes (held\<lparr>inv_services := inv_services held @ [node_Name node]\<rparr>)
     | Kind_Workload \<Rightarrow> State_Monad.bind (on_server (Looked_Up node) (cl_Get c (node_Name node))) (\<lambda>r. case r of
           Inl e \<Rightarrow> ret (Inl (Get_Failed (node_Name node) e))
         | Inr w \<Rightarrow> order_held c nodes (held\<lparr>inv_workloads := inv_workloads held @ [cw_Spec w]\<rparr>))
     | k \<Rightarrow> ret (Inl (Unknown_Kind k)))"

definition empty_inventory :: inventory where
  "empty_inventory = \<lparr>inv_volumes = [], inv_workloads = [], inv_services = [], inv_variables = [], inv_contents = None\<rparr>"

definition score_order :: "'w client \<Rightarrow> Node list \<Rightarrow> ('w, Node list) scoring" where
  "score_order c nodes = and_then (order_held c nodes empty_inventory) (\<lambda>held.
     ret (case inventory_plan held of Inl e \<Rightarrow> Inl (Score_Plan e) | Inr plan \<Rightarrow> Inr (pl_Steps plan)))"

definition delete_answer :: "'w client \<Rightarrow> Node \<Rightarrow> ('w, client_error option) state option" where
  "delete_answer c node = (case node_Kind node of
       Kind_Volume \<Rightarrow> Some (cl_DeleteVolume c (node_Name node))
     | Kind_Variable \<Rightarrow> Some (cl_DeleteVariable c (node_Name node))
     | Kind_Workload \<Rightarrow> Some (cl_Delete c (node_Name node) True)
     | Kind_Service \<Rightarrow> Some (cl_DeleteService c (node_Name node))
     | k \<Rightarrow> None)"

definition score_destroy :: "'w client \<Rightarrow> Node \<Rightarrow> ('w session, score_error option) state" where
  "score_destroy c node = (case delete_answer c node of
       None \<Rightarrow> ret (Some (Unknown_Kind (node_Kind node)))
     | Some delete \<Rightarrow> State_Monad.bind (on_server (Deleted node) delete) (\<lambda>r. ret (map_option Score_Client r)))"

fun destroy_steps :: "'w client \<Rightarrow> Node list \<Rightarrow> Node list \<Rightarrow> ('w session, Node list \<times> score_error option) state" where
  "destroy_steps c [] deleted = ret (deleted, None)"
| "destroy_steps c (node # nodes) deleted = State_Monad.bind (score_destroy c node) (\<lambda>r. case r of
       Some e \<Rightarrow> ret (deleted, Some (Delete_Failed node e))
     | None \<Rightarrow> destroy_steps c nodes (deleted @ [node]))"

definition Destroy :: "'w client \<Rightarrow> Node list \<Rightarrow> ('w session, Node list \<times> score_error option) state" where
  "Destroy c nodes = State_Monad.bind (score_order c nodes) (\<lambda>r. case r of
       Inl e \<Rightarrow> ret ([], Some e)
     | Inr steps \<Rightarrow> destroy_steps c (rev steps) [])"

end
