(* ===== verification/Score_Order.thy ===== *)
theory Score_Order
  imports Score_Plan "HOL-Library.Multiset"
begin

text \<open>
  What the plan of a score guarantees. The loop of \<open>plan\<close> keeps a sorted list of available nodes and counts
  what each node still waits for; it is shown to end, and to agree with the plain reading of its comment:
  scan the sorted nodes from the start for the first one whose dependencies have all been taken
  (\<open>apply_order\<close>). What holds of that order then holds of the plan.
\<close>

section \<open>The order as the comment gives it\<close>

definition ready :: "(Node \<Rightarrow> Node list) \<Rightarrow> Node list \<Rightarrow> Node \<Rightarrow> bool" where
  "ready deps taken n \<longleftrightarrow> n \<notin> set taken \<and> set (deps n) \<subseteq> set taken"

fun apply_order :: "nat \<Rightarrow> Node list \<Rightarrow> (Node \<Rightarrow> Node list) \<Rightarrow> Node list \<Rightarrow> Node list" where
  "apply_order 0 nodes deps taken = taken"
| "apply_order (Suc k) nodes deps taken = (case find (ready deps taken) nodes of
       None \<Rightarrow> taken | Some n \<Rightarrow> apply_order k nodes deps (taken @ [n]))"

text \<open>Every node comes after all it depends on.\<close>

definition in_order :: "(Node \<Rightarrow> Node list) \<Rightarrow> Node list \<Rightarrow> bool" where
  "in_order deps ns \<longleftrightarrow> (\<forall>us w vs. ns = us @ w # vs \<longrightarrow> set (deps w) \<subseteq> set us)"

definition precedes :: "Node list \<Rightarrow> (Node \<Rightarrow> Node list) \<Rightarrow> (Node \<times> Node) set" where
  "precedes nodes deps = {(d, w). w \<in> set nodes \<and> d \<in> set (deps w)}"

text \<open>A list of distinct nodes with what each depends on, and the same relation read backwards.\<close>

definition graph :: "Node list \<Rightarrow> (Node \<Rightarrow> Node list) \<Rightarrow> (Node \<Rightarrow> Node list) \<Rightarrow> bool" where
  "graph nodes deps dependents \<longleftrightarrow> distinct nodes \<and> inj_on compareNodes (set nodes)
     \<and> (\<forall>n. distinct (deps n) \<and> set (deps n) \<subseteq> set nodes \<and> (n \<notin> set nodes \<longrightarrow> deps n = []))
     \<and> (\<forall>m. distinct (dependents m) \<and> set (dependents m) = {n. m \<in> set (deps n)})"

lemma in_order_Nil [simp]: "in_order deps []"
  by (simp add: in_order_def)

lemma in_order_snoc: "in_order deps (ns @ [n]) \<longleftrightarrow> in_order deps ns \<and> set (deps n) \<subseteq> set ns"
proof
  assume o: "in_order deps (ns @ [n])"
  have "set (deps w) \<subseteq> set us" if "ns = us @ w # vs" for us w vs
    using o that unfolding in_order_def by (metis append_Cons append_assoc)
  then show "in_order deps ns \<and> set (deps n) \<subseteq> set ns"
    using o unfolding in_order_def by blast
next
  assume o: "in_order deps ns \<and> set (deps n) \<subseteq> set ns"
  show "in_order deps (ns @ [n])" unfolding in_order_def
  proof (intro allI impI)
    fix us w vs assume "ns @ [n] = us @ w # vs"
    then have "vs = [] \<and> us = ns \<and> w = n \<or> (\<exists>vs'. ns = us @ w # vs')" by (cases vs rule: rev_cases) auto
    then show "set (deps w) \<subseteq> set us" using o unfolding in_order_def by blast
  qed
qed

lemma in_order_closed: "in_order deps ns \<Longrightarrow> n \<in> set ns \<Longrightarrow> set (deps n) \<subseteq> set ns"
  unfolding in_order_def by (metis Un_iff in_set_conv_decomp set_append subset_iff)

text \<open>Read backwards, every node comes before all it depends on.\<close>

lemma in_order_rev:
  assumes "in_order deps ns" "distinct ns" "rev ns = us @ d # vs" "n \<in> set ns" "d \<in> set (deps n)"
  shows "n \<in> set us"
proof -
  have ns: "ns = rev vs @ d # rev us" using arg_cong [OF assms(3), of rev] by simp
  have "n \<noteq> d" using assms(1,2,5) unfolding in_order_def ns by (metis distinct_append distinct.simps(2) IntI empty_iff list.set_intros(1) subsetD)
  moreover have "n \<notin> set (rev vs)"
  proof
    assume "n \<in> set (rev vs)"
    then obtain as bs where vs: "rev vs = as @ n # bs" by (metis in_set_conv_decomp)
    then have "ns = as @ n # (bs @ d # rev us)" using ns by simp
    then have "d \<in> set as" using assms(1,5) unfolding in_order_def by blast
    then show False using assms(2) ns vs by auto
  qed
  ultimately show ?thesis using assms(4) ns by auto
qed

lemma takeWhile_found: "d \<in> set us \<Longrightarrow> length (takeWhile (\<lambda>m. m \<noteq> d) (us @ zs)) < length us"
  by (induction us) auto

lemma in_order_acyclic:
  assumes "in_order deps ns" "distinct ns" "set nodes = set ns"
  shows "acyclic (precedes nodes deps)"
proof -
  define place where "place n = length (takeWhile (\<lambda>m. m \<noteq> n) ns)" for n
  have "place d < place w" if w: "w \<in> set nodes" and d: "d \<in> set (deps w)" for d w
  proof -
    from w assms(3) obtain us vs where ns: "ns = us @ w # vs" by (metis in_set_conv_decomp)
    with assms(1) d have "d \<in> set us" by (auto simp: in_order_def)
    then have "place d < length us" unfolding place_def ns by (rule takeWhile_found)
    moreover have "w \<notin> set us" using assms(2) ns by simp
    then have "place w = length us" unfolding place_def ns by (subst takeWhile_append2) auto
    ultimately show ?thesis by simp
  qed
  then have "precedes nodes deps \<subseteq> measure place" by (auto simp: precedes_def)
  then show ?thesis by (metis wf_acyclic wf_measure wf_subset)
qed

lemma stuck_cyclic:
  assumes "set ns \<subseteq> set nodes" "\<And>n. set (deps n) \<subseteq> set nodes" "\<And>n. n \<in> set nodes \<Longrightarrow> \<not> ready deps ns n"
    and "set ns \<noteq> set nodes"
  shows "\<not> acyclic (precedes nodes deps)"
proof
  assume "acyclic (precedes nodes deps)"
  moreover have "precedes nodes deps \<subseteq> set nodes \<times> set nodes" using assms(2) by (auto simp: precedes_def)
  then have "finite (precedes nodes deps)" by (rule finite_subset) simp
  ultimately have "wf (precedes nodes deps)" by (simp add: finite_acyclic_wf)
  then obtain n where n: "n \<in> set nodes - set ns" "\<And>d. (d, n) \<in> precedes nodes deps \<Longrightarrow> d \<notin> set nodes - set ns"
    using assms(1,4) by (metis Diff_eq_empty_iff equalityI ex_in_conv wfE_min)
  then have "set (deps n) \<subseteq> set ns" using assms(2) [of n] by (auto simp: precedes_def)
  then show False using assms(3) [of n] n(1) by (simp add: ready_def)
qed

section \<open>The loop\<close>

lemma release_spec:
  assumes "distinct ds"
  shows "release_dependents ds remaining available
    = ((\<lambda>n. if n \<in> set ds then remaining n - 1 else remaining n),
       fold (insort_key compareNodes) (filter (\<lambda>d. remaining d = 1) ds) available)"
  using assms by (induction ds arbitrary: remaining available) (auto simp: Let_def intro!: arg_cong2 [of _ _ _ _ "fold _"] filter_cong)

lemma fold_insort:
  "sorted (map f ys) \<Longrightarrow> sorted (map f (fold (insort_key f) xs ys)) \<and> mset (fold (insort_key f) xs ys) = mset ys + mset xs"
  by (induction xs arbitrary: ys) (simp_all add: sorted_insort_key)

text \<open>What the loop keeps: the available nodes are those that are ready, in order, and a node waits for what
  it depends on that has not been taken.\<close>

definition kahn_inv :: "Node list \<Rightarrow> (Node \<Rightarrow> Node list) \<Rightarrow> kahn \<Rightarrow> bool" where
  "kahn_inv nodes deps k \<longleftrightarrow> distinct (kh_steps k) \<and> set (kh_steps k) \<subseteq> set nodes \<and> in_order deps (kh_steps k)
     \<and> kh_available k = filter (ready deps (kh_steps k)) (sort_key compareNodes nodes)
     \<and> (\<forall>n. kh_remaining k n = int (card (set (deps n) - set (kh_steps k))))"

lemma kahn_inv_start:
  assumes "\<And>n. distinct (ed_dependencies ed n)"
  shows "kahn_inv nodes (ed_dependencies ed) (kahn_start nodes ed)"
proof -
  have "ready (ed_dependencies ed) [] = (\<lambda>n. ed_dependencies ed n = [])" by (simp add: fun_eq_iff ready_def)
  then show ?thesis using assms by (simp add: kahn_inv_def kahn_start_def Let_def filter_sort distinct_card)
qed

lemma available_after:
  assumes g: "graph nodes deps dependents" and steps: "distinct taken" "in_order deps taken"
    and av: "n # rest = filter (ready deps taken) (sort_key compareNodes nodes)"
  shows "fold (insort_key compareNodes) (filter (\<lambda>d. int (card (set (deps d) - set taken)) = 1) (dependents n)) rest
    = filter (ready deps (taken @ [n])) (sort_key compareNodes nodes)"
    (is "?l = ?r")
proof -
  have nodes: "distinct nodes" "inj_on compareNodes (set nodes)" using g by (simp_all add: graph_def)
  have set_av: "insert n (set rest) = {m \<in> set nodes. ready deps taken m}" "distinct (n # rest)"
    using arg_cong [OF av, of set] arg_cong [OF av, of distinct] nodes(1) by auto
  then have n: "n \<in> set nodes" "ready deps taken n" by blast+
  have rest: "set rest = {m \<in> set nodes. ready deps taken m \<and> m \<noteq> n}" "distinct rest"
    using set_av by auto
  have srt: "sorted (map compareNodes rest)"
    using av by (metis sorted_filter sorted_sort_key list.simps(9) sorted_simps(2))
  let ?ds = "filter (\<lambda>d. int (card (set (deps d) - set taken)) = 1) (dependents n)"
  have only: "int (card (set (deps m) - set taken)) = 1 \<longleftrightarrow> set (deps m) - set taken = {n}" if "n \<in> set (deps m)" for m
  proof -
    have "n \<in> set (deps m) - set taken" using that n(2) by (simp add: ready_def)
    then show ?thesis by (metis One_nat_def card_1_singleton_iff int_eq_iff of_nat_1 singletonD)
  qed
  have ds: "set ?ds = {m \<in> set nodes. n \<in> set (deps m) \<and> set (deps m) - set taken = {n}}" "distinct ?ds"
    using g only by (auto simp: graph_def)
  have step: "ready deps (taken @ [n]) m \<longleftrightarrow> (ready deps taken m \<and> m \<noteq> n) \<or> (n \<in> set (deps m) \<and> set (deps m) - set taken = {n})" for m
    using n(2) in_order_closed [OF steps(2), of m] by (auto simp: ready_def)
  have "set ?r = set rest \<union> set ?ds"
    unfolding rest(1) ds(1) using step by auto
  moreover have "set rest \<inter> set ?ds = {}" unfolding rest(1) ds(1) using n(2) by (auto simp: ready_def)
  moreover have "mset ?l = mset rest + mset ?ds" and sl: "sorted (map compareNodes ?l)" using fold_insort [OF srt] by blast+
  ultimately have "mset ?l = mset ?r"
    using rest(2) ds(2) nodes(1) by (metis distinct_append distinct_filter distinct_sort mset_append set_append set_eq_iff_mset_eq_distinct)
  moreover from this have "inj_on compareNodes (set ?l)"
    using nodes(2) by (metis filter_is_subset inj_on_subset mset_eq_setD set_sort)
  moreover have "sorted (map compareNodes ?r)" by (simp add: sorted_filter)
  ultimately show ?thesis using sl by (metis sort_key_id_if_sorted sort_key_inj_key_eq)
qed

lemma kahn_inv_step:
  assumes g: "graph nodes deps dependents" and i: "kahn_inv nodes deps k" and n: "kh_available k = n # rest"
  shows "kahn_inv nodes deps (kahn_step dependents k)" "kh_steps (kahn_step dependents k) = kh_steps k @ [n]"
    "n \<in> set nodes - set (kh_steps k)"
proof -
  let ?taken = "kh_steps k" and ?waits = "\<lambda>m. int (card (set (deps m) - set (kh_steps k)))"
  have av: "n # rest = filter (ready deps ?taken) (sort_key compareNodes nodes)"
    and waits: "kh_remaining k = ?waits" and steps: "distinct ?taken" "set ?taken \<subseteq> set nodes" "in_order deps ?taken"
    using i n by (auto simp: kahn_inv_def)
  have r: "n \<in> set nodes" "ready deps ?taken n" using arg_cong [OF av, of set] by auto
  then show "n \<in> set nodes - set (kh_steps k)" by (simp add: ready_def)
  have d: "distinct (dependents n)" "\<And>m. m \<in> set (dependents n) \<longleftrightarrow> n \<in> set (deps m)"
    using g by (simp_all add: graph_def)
  have step: "kahn_step dependents k = \<lparr>kh_available = filter (ready deps (?taken @ [n])) (sort_key compareNodes nodes),
      kh_remaining = (\<lambda>m. if n \<in> set (deps m) then ?waits m - 1 else ?waits m), kh_steps = ?taken @ [n]\<rparr>"
    using available_after [OF g steps(1,3) av] by (simp add: kahn_step_def n release_spec [OF d(1)] waits d(2))
  then show "kh_steps (kahn_step dependents k) = ?taken @ [n]" by simp
  have "(if n \<in> set (deps m) then ?waits m - 1 else ?waits m) = int (card (set (deps m) - set (?taken @ [n])))" for m
  proof (cases "n \<in> set (deps m)")
    case True
    then have "n \<in> set (deps m) - set ?taken" using r(2) by (simp add: ready_def)
    moreover have "set (deps m) - set (?taken @ [n]) = set (deps m) - set ?taken - {n}" by auto
    ultimately show ?thesis using True
      by (metis List.finite_set One_nat_def card_Diff_singleton card_gt_0_iff empty_iff finite_Diff int_ops(2) of_nat_diff Suc_leI)
  next
    case False
    then have "set (deps m) - set (?taken @ [n]) = set (deps m) - set ?taken" by auto
    then show ?thesis using False by simp
  qed
  then show "kahn_inv nodes deps (kahn_step dependents k)"
    using steps r by (simp add: kahn_inv_def step in_order_snoc ready_def)
qed

lemma kahn_runs:
  assumes g: "graph nodes deps dependents" and i: "kahn_inv nodes deps k"
  shows "\<exists>k'. while_option kahn_goes_on (kahn_step dependents) k = Some k' \<and> kahn_inv nodes deps k' \<and> kh_available k' = []
    \<and> kh_steps k' = apply_order (length nodes - length (kh_steps k)) (sort_key compareNodes nodes) deps (kh_steps k)"
  using i
proof (induction "length nodes - length (kh_steps k)" arbitrary: k rule: less_induct)
  case less
  have find: "find (ready deps (kh_steps k)) (sort_key compareNodes nodes)
      = (case kh_available k of [] \<Rightarrow> None | n # _ \<Rightarrow> Some n)"
    using less.prems by (simp add: find_filter kahn_inv_def)
  show ?case
  proof (cases "kh_available k")
    case Nil
    then have "while_option kahn_goes_on (kahn_step dependents) k = Some k"
      by (subst while_option_unfold) (simp add: kahn_goes_on_def)
    then show ?thesis using Nil less.prems find
      by (cases "length nodes - length (kh_steps k)") auto
  next
    case (Cons n rest)
    note step = kahn_inv_step [OF g less.prems Cons]
    have "distinct (kh_steps k)" "set (kh_steps k) \<subseteq> set nodes" "distinct nodes"
      using less.prems g by (auto simp: kahn_inv_def graph_def)
    then have "length (kh_steps k) < length nodes"
      using step(3) by (metis DiffE card_mono distinct_card List.finite_set psubsetI psubset_card_mono)
    then have fuel: "length nodes - length (kh_steps k) = Suc (length nodes - length (kh_steps (kahn_step dependents k)))"
      using step(2) by simp
    have "while_option kahn_goes_on (kahn_step dependents) k = while_option kahn_goes_on (kahn_step dependents) (kahn_step dependents k)"
      by (subst while_option_unfold) (simp add: kahn_goes_on_def Cons)
    with less.hyps [of "kahn_step dependents k"] step(1) fuel find show ?thesis by (simp add: Cons step(2))
  qed
qed

text \<open>The loop ends whatever the counts are: taking a node moves no count up.\<close>

definition kahn_work :: "Node set \<Rightarrow> kahn \<Rightarrow> nat" where
  "kahn_work ns k = length (kh_available k) + (\<Sum>n\<in>ns. nat (kh_remaining k n))"

lemma release_work:
  assumes "finite ns" "set ds \<subseteq> ns" "release_dependents ds remaining available = (remaining', available')"
  shows "length available' + (\<Sum>n\<in>ns. nat (remaining' n)) \<le> length available + (\<Sum>n\<in>ns. nat (remaining n))"
  using assms(2,3)
proof (induction ds arbitrary: remaining available)
  case (Cons d ds)
  let ?r = "remaining(d := remaining d - 1)"
  let ?a = "if ?r d = 0 then insort_key compareNodes d available else available"
  have rel: "release_dependents ds ?r ?a = (remaining', available')" using Cons.prems(2) by (simp add: Let_def)
  have "length available' + (\<Sum>n\<in>ns. nat (remaining' n)) \<le> length ?a + (\<Sum>n\<in>ns. nat (?r n))"
    using Cons.IH [OF _ rel] Cons.prems(1) by simp
  moreover have "(\<Sum>n\<in>ns. nat (f n)) = nat (f d) + (\<Sum>n\<in>ns - {d}. nat (f n))" for f :: "Node \<Rightarrow> int"
    using sum.remove [of ns d "\<lambda>n. nat (f n)"] assms(1) Cons.prems(1) by simp
  moreover have "(\<Sum>n\<in>ns - {d}. nat (?r n)) = (\<Sum>n\<in>ns - {d}. nat (remaining n))" by (rule sum.cong) auto
  ultimately show ?case by (auto split: if_splits)
qed simp

lemma kahn_ends:
  assumes "finite ns" "\<And>n. set (dependents n) \<subseteq> ns"
  shows "\<exists>k'. while_option kahn_goes_on (kahn_step dependents) k = Some k'"
proof (rule measure_while_option_Some [where P = "\<lambda>_. True" and f = "kahn_work ns"])
  fix k assume "kahn_goes_on k"
  then obtain n rest where av: "kh_available k = n # rest" by (auto simp: kahn_goes_on_def neq_Nil_conv)
  obtain r a where rel: "release_dependents (dependents n) (kh_remaining k) rest = (r, a)" by fastforce
  show "True \<and> kahn_work ns (kahn_step dependents k) < kahn_work ns k"
    using release_work [OF assms rel] by (simp add: kahn_step_def av rel kahn_work_def)
qed simp

section \<open>The edges of an inventory\<close>

lemma add_edge_fold:
  "fold (add_edge held reader) ds ed = \<lparr>
     ed_dependencies = (ed_dependencies ed)(reader := ed_dependencies ed reader @ filter (\<lambda>d. d \<in> set held) ds),
     ed_dependents = (\<lambda>m. ed_dependents ed m @ (if m \<in> set held then map (\<lambda>_. reader) (filter ((=) m) ds) else [])),
     ed_requirements = fold add_node (filter (\<lambda>d. d \<notin> set held) ds) (ed_requirements ed)\<rparr>"
  by (induction ds arbitrary: ed) (auto simp: add_edge_def fun_eq_iff)

definition reader_of :: "Spec \<Rightarrow> Node" where
  "reader_of w = Node Kind_Workload (spec_Name w)"

lemma add_edges_fold:
  "fold (add_edges held contents) ws ed = \<lparr>
     ed_dependencies = (\<lambda>n. ed_dependencies ed n
       @ concat (map (\<lambda>w. filter (\<lambda>d. d \<in> set held) (dependenciesOf w contents)) (filter (\<lambda>w. reader_of w = n) ws))),
     ed_dependents = (\<lambda>m. ed_dependents ed m @ (if m \<in> set held
       then concat (map (\<lambda>w. map (\<lambda>_. reader_of w) (filter ((=) m) (dependenciesOf w contents))) ws) else [])),
     ed_requirements = fold add_node (concat (map (\<lambda>w. filter (\<lambda>d. d \<notin> set held) (dependenciesOf w contents)) ws)) (ed_requirements ed)\<rparr>"
  by (induction ws arbitrary: ed) (simp_all add: add_edges_def add_edge_fold reader_of_def fun_eq_iff)

lemma set_fold_add_node: "set (fold add_node xs acc) = set acc \<union> set xs"
  by (induction xs arbitrary: acc) (auto simp: add_node_def)

lemma distinct_fold_add_node: "distinct acc \<Longrightarrow> distinct (fold add_node xs acc)"
  by (induction xs arbitrary: acc) (auto simp: add_node_def)

lemma distinct_dependenciesOf: "distinct (dependenciesOf w contents)"
  by (simp add: dependenciesOf_def Let_def distinct_fold_add_node)

lemma set_map_filter: "set (List.map_filter f xs) = {y. \<exists>x\<in>set xs. f x = Some y}"
  by (force simp: map_filter_def)

lemma set_dependenciesOf:
  "n \<in> set (dependenciesOf w contents) \<longleftrightarrow>
    (\<exists>rs r. ReferencesIn w contents = Inr rs \<and> r \<in> set rs \<and> reference_node r = Some n)
    \<or> (\<exists>m\<in>set (spec_Volumes w). mnt_Name m \<noteq> [] \<and> n = Node Kind_Volume (mnt_Name m))"
  by (cases "ReferencesIn w contents")
    (auto simp: dependenciesOf_def Let_def set_fold_add_node set_map_filter mount_node_def simp del: reference_node.simps split: if_splits)

definition known_kind :: "Node \<Rightarrow> bool" where
  "known_kind n \<longleftrightarrow> node_Kind n \<in> {Kind_Volume, Kind_Variable, Kind_Secret, Kind_Workload, Kind_Service}"

lemma reference_node_known: "reference_node r = Some n \<Longrightarrow> known_kind n"
  by (cases "ref_Kind r") (auto simp: known_kind_def)

lemma dependency_known: "n \<in> set (dependenciesOf w contents) \<Longrightarrow> known_kind n"
  by (auto simp: set_dependenciesOf known_kind_def dest: reference_node_known simp del: reference_node.simps)

lemma inventory_known: "n \<in> set (inventory_nodes iv) \<Longrightarrow> known_kind n"
  by (auto simp: inventory_nodes_def known_kind_def)

lemma compareNodes_inj: "(\<And>n. n \<in> ns \<Longrightarrow> known_kind n) \<Longrightarrow> inj_on compareNodes ns"
proof (rule inj_onI)
  fix x y assume "\<And>n. n \<in> ns \<Longrightarrow> known_kind n" "x \<in> ns" "y \<in> ns" "compareNodes x = compareNodes y"
  then have "known_kind x" "known_kind y" "kindOrder (node_Kind x) = kindOrder (node_Kind y)" "node_Name x = node_Name y"
    by (simp_all add: compareNodes_def)
  then show "x = y" by (intro Node.expand) (auto simp: known_kind_def)
qed

lemma filter_one: "distinct xs \<Longrightarrow> filter ((=) m) xs = (if m \<in> set xs then [m] else [])"
  by (induction xs) auto

lemma inventory_graph:
  assumes d: "distinct (inventory_nodes iv)"
  shows "graph (inventory_nodes iv) (ed_dependencies (inventory_edges iv)) (ed_dependents (inventory_edges iv))"
proof -
  let ?nodes = "inventory_nodes iv" and ?ed = "inventory_edges iv"
  let ?deps = "\<lambda>w. dependenciesOf w (inv_contents iv)"
  have dist: "distinct (map reader_of (inv_workloads iv))"
    and held: "set (map reader_of (inv_workloads iv)) \<subseteq> set ?nodes"
    using d by (auto simp: inventory_nodes_def reader_of_def [abs_def])
  have ed: "?ed = fold (add_edges ?nodes (inv_contents iv)) (inv_workloads iv) no_edges" by (rule inventory_edges_def)
  have one: "filter (\<lambda>w. reader_of w = n) ws = (case find (\<lambda>w. reader_of w = n) ws of None \<Rightarrow> [] | Some w \<Rightarrow> [w])"
    if "distinct (map reader_of ws)" for n and ws :: "Spec list"
    using that
  proof (induction ws)
    case (Cons w ws)
    then have "find (\<lambda>v. reader_of v = reader_of w) ws = None" by (simp add: find_None_iff image_iff) metis
    with Cons show ?case by (cases "reader_of w = n") simp_all
  qed simp
  have deps: "ed_dependencies ?ed n = (case find (\<lambda>w. reader_of w = n) (inv_workloads iv) of
      None \<Rightarrow> [] | Some w \<Rightarrow> filter (\<lambda>d. d \<in> set ?nodes) (?deps w))" for n
    by (simp add: ed add_edges_fold no_edges_def one [OF dist] split: option.splits)
  have "distinct (concat (map (\<lambda>w. map (\<lambda>_. reader_of w) (filter ((=) m) (?deps w))) ws))"
    if "distinct (map reader_of ws)" for ws m
    using that
  proof (induction ws)
    case (Cons w ws)
    have "distinct (map (\<lambda>_. reader_of w) (filter ((=) m) (?deps w)))"
      using distinct_dependenciesOf by (simp add: filter_one)
    with Cons show ?case by auto
  qed simp
  then have "distinct (ed_dependents ?ed m)" for m
    using dist by (simp add: ed add_edges_fold no_edges_def)
  moreover have "set (ed_dependents ?ed m) = {n. m \<in> set (ed_dependencies ?ed n)}" for m
    by (auto simp: ed add_edges_fold no_edges_def)
  moreover have "distinct (ed_dependencies ?ed n) \<and> set (ed_dependencies ?ed n) \<subseteq> set ?nodes
      \<and> (n \<notin> set ?nodes \<longrightarrow> ed_dependencies ?ed n = [])" for n
    using held by (auto simp: deps distinct_dependenciesOf dest!: find_SomeD split: option.splits)
  moreover have "inj_on compareNodes (set ?nodes)" by (rule compareNodes_inj) (rule inventory_known)
  ultimately show ?thesis using d by (simp add: graph_def)
qed

text \<open>What the plan is, in one place: the order of the comment, and its failure.\<close>

definition plan_order :: "inventory \<Rightarrow> Node list" where
  "plan_order iv = apply_order (length (inventory_nodes iv)) (sort_key compareNodes (inventory_nodes iv))
     (ed_dependencies (inventory_edges iv)) []"

lemma plan_loop:
  assumes "distinct (inventory_nodes iv)"
  shows "kahn_inv (inventory_nodes iv) (ed_dependencies (inventory_edges iv)) (kahn_loop (inventory_nodes iv) (inventory_edges iv))"
    "kh_available (kahn_loop (inventory_nodes iv) (inventory_edges iv)) = []"
    "kh_steps (kahn_loop (inventory_nodes iv) (inventory_edges iv)) = plan_order iv"
proof -
  let ?nodes = "inventory_nodes iv" and ?ed = "inventory_edges iv"
  note g = inventory_graph [OF assms]
  have "kahn_inv ?nodes (ed_dependencies ?ed) (kahn_start ?nodes ?ed)"
    by (rule kahn_inv_start) (use g in \<open>simp add: graph_def\<close>)
  from kahn_runs [OF g this] show
    "kahn_inv ?nodes (ed_dependencies ?ed) (kahn_loop ?nodes ?ed)"
    "kh_available (kahn_loop ?nodes ?ed) = []" "kh_steps (kahn_loop ?nodes ?ed) = plan_order iv"
    by (auto simp: kahn_loop_def while_def plan_order_def kahn_start_def Let_def)
qed

lemma plan_order_facts:
  assumes "distinct (inventory_nodes iv)"
  shows "distinct (plan_order iv)" "set (plan_order iv) \<subseteq> set (inventory_nodes iv)"
    "in_order (ed_dependencies (inventory_edges iv)) (plan_order iv)"
    "n \<in> set (inventory_nodes iv) \<Longrightarrow> \<not> ready (ed_dependencies (inventory_edges iv)) (plan_order iv) n"
proof -
  note loop = plan_loop [OF assms]
  show "distinct (plan_order iv)" "set (plan_order iv) \<subseteq> set (inventory_nodes iv)"
    "in_order (ed_dependencies (inventory_edges iv)) (plan_order iv)"
    using loop(1) by (auto simp: kahn_inv_def loop(3))
  have "filter (ready (ed_dependencies (inventory_edges iv)) (plan_order iv)) (sort_key compareNodes (inventory_nodes iv)) = []"
    using loop(1,2) by (simp add: kahn_inv_def loop(3))
  then show "n \<in> set (inventory_nodes iv) \<Longrightarrow> \<not> ready (ed_dependencies (inventory_edges iv)) (plan_order iv) n"
    by (simp add: filter_empty_conv)
qed

lemma plan_complete:
  assumes "distinct (inventory_nodes iv)"
  shows "length (plan_order iv) < length (inventory_nodes iv) \<longleftrightarrow> set (plan_order iv) \<noteq> set (inventory_nodes iv)"
  using plan_order_facts(1,2) [OF assms] assms
  by (metis List.finite_set card_mono card_subset_eq distinct_card nat_less_le)

lemma inventory_plan_eq:
  assumes "distinct (inventory_nodes iv)"
  shows "inventory_plan iv = (if set (plan_order iv) \<noteq> set (inventory_nodes iv)
      then Inl (ErrCycle (sort_key compareNodes (filter (\<lambda>n. n \<notin> set (plan_order iv)) (inventory_nodes iv))))
      else Inr \<lparr>pl_Steps = plan_order iv, pl_Requirements = sort_key compareNodes (ed_requirements (inventory_edges iv))\<rparr>)"
proof -
  let ?nodes = "inventory_nodes iv" and ?ed = "inventory_edges iv"
  let ?k = "kahn_loop ?nodes ?ed"
  note loop = plan_loop [OF assms]
  have "kh_remaining ?k n \<noteq> 0 \<longleftrightarrow> n \<notin> set (plan_order iv)" if "n \<in> set ?nodes" for n
  proof -
    have "kh_remaining ?k n = int (card (set (ed_dependencies ?ed n) - set (plan_order iv)))"
      using loop(1) by (simp add: kahn_inv_def loop(3))
    moreover have "set (ed_dependencies ?ed n) \<subseteq> set (plan_order iv) \<longleftrightarrow> n \<in> set (plan_order iv)"
      using plan_order_facts(4) [OF assms that] in_order_closed [OF plan_order_facts(3) [OF assms]] by (auto simp: ready_def)
    ultimately show ?thesis by simp
  qed
  then have "filter (\<lambda>n. kh_remaining ?k n \<noteq> 0) ?nodes = filter (\<lambda>n. n \<notin> set (plan_order iv)) ?nodes"
    by (intro filter_cong) auto
  then show ?thesis
    unfolding inventory_plan_def Let_def loop(3) plan_complete [OF assms] by simp
qed

lemma plan_cycle:
  assumes "distinct (inventory_nodes iv)"
  shows "set (plan_order iv) = set (inventory_nodes iv)
    \<longleftrightarrow> acyclic (precedes (inventory_nodes iv) (ed_dependencies (inventory_edges iv)))"
proof
  show "acyclic (precedes (inventory_nodes iv) (ed_dependencies (inventory_edges iv)))"
    if "set (plan_order iv) = set (inventory_nodes iv)"
    using in_order_acyclic [OF plan_order_facts(3) [OF assms] plan_order_facts(1) [OF assms]] that by simp
  show "set (plan_order iv) = set (inventory_nodes iv)"
    if "acyclic (precedes (inventory_nodes iv) (ed_dependencies (inventory_edges iv)))"
  proof (rule ccontr)
    assume "set (plan_order iv) \<noteq> set (inventory_nodes iv)"
    with stuck_cyclic [OF plan_order_facts(2) [OF assms] _ plan_order_facts(4) [OF assms]] that
      inventory_graph [OF assms] show False by (auto simp: graph_def)
  qed
qed

end
