(* ===== verification/Score_Delivery.thy ===== *)
theory Score_Delivery
  imports Score_Apply Score_Order
begin

text \<open>
  Weakest preconditions of applying and removing a score: which calls an operation makes, in which order, and
  what a plan holds.
\<close>

lemma wp_on_server [wp_simps]:
  "wp (on_server c m) Q s
    = Q (outcome m (se_world s)) \<lparr>se_world = final m (se_world s), se_calls = se_calls s @ [c]\<rparr>"
  by (simp add: wp_iff_run outcome_def final_def on_server_def split: prod.split)

section \<open>Looking up\<close>

text \<open>The answers to looking up resources one after another, each with the resource it is for, or the first failure.\<close>

fun look_all :: "'w client \<Rightarrow> Node list \<Rightarrow> ('w, (Node \<times> resource option) list) scoring" where
  "look_all c [] = ret (Inr [])"
| "look_all c (n # ns) = and_then (lookup c n) (\<lambda>found. and_then (look_all c ns) (\<lambda>rest. ret (Inr ((n, found) # rest))))"

definition look_plan :: "'w client \<Rightarrow> Plan \<Rightarrow> ('w, (Node \<times> resource option) list \<times> (Node \<times> resource option) list) scoring" where
  "look_plan c plan = and_then (look_all c (pl_Requirements plan)) (\<lambda>needed.
     and_then (look_all c (pl_Steps plan)) (\<lambda>present. ret (Inr (needed, present))))"

text \<open>What the answers say: who is absent, who carries another score's name, and the tag of each that is there.\<close>

definition absent :: "(Node \<times> resource option) list \<Rightarrow> Node list" where
  "absent found = map fst (filter (\<lambda>(n, there). there = None) found)"

definition not_of :: "string \<Rightarrow> (Node \<times> resource option) list \<Rightarrow> Node list" where
  "not_of name found = map fst (filter (\<lambda>(n, there). \<exists>e. there = Some e \<and> lookup_str (rs_labels e) LabelName \<noteq> name) found)"

definition tag_of :: "(Node \<times> resource option) list \<Rightarrow> Node \<Rightarrow> string" where
  "tag_of found n = (case map_of found n of Some (Some e) \<Rightarrow> rs_etag e | _ \<Rightarrow> [])"

text \<open>Looking up stops at the first failure: the calls made are those of the first resources.\<close>

definition looked_at :: "score_call list \<Rightarrow> Node list \<Rightarrow> 'w session \<Rightarrow> bool" where
  "looked_at before ns s' \<longleftrightarrow> (\<exists>k. se_calls s' = before @ map Looked_Up (take k ns))"

lemma looked_at_here:
  "se_calls s' \<in> {before, before @ [Looked_Up n]} \<Longrightarrow> looked_at before (n # ns) s'"
  unfolding looked_at_def by (auto intro: exI [of _ 0] exI [of _ "Suc 0"])

lemma looked_at_first:
  assumes "looked_at before ns s'"
  shows "looked_at before (ns @ ms) s'"
proof -
  obtain k where "se_calls s' = before @ map Looked_Up (take k ns)" using assms by (auto simp: looked_at_def)
  then have "se_calls s' = before @ map Looked_Up (take (min k (length ns)) (ns @ ms))" by (simp add: min_def)
  then show ?thesis unfolding looked_at_def by (rule exI)
qed

lemma looked_at_later:
  assumes "looked_at (before @ map Looked_Up ns) ms s'"
  shows "looked_at before (ns @ ms) s'"
proof -
  obtain k where "se_calls s' = (before @ map Looked_Up ns) @ map Looked_Up (take k ms)"
    using assms by (auto simp: looked_at_def)
  then have "se_calls s' = before @ map Looked_Up (take (length ns + k) (ns @ ms))" by simp
  then show ?thesis unfolding looked_at_def by (rule exI)
qed

lemma lookup_calls:
  "wp (lookup c n) (\<lambda>r s'. case r of Inl e \<Rightarrow> se_calls s' \<in> {se_calls s, se_calls s @ [Looked_Up n]}
     | Inr a \<Rightarrow> se_calls s' = se_calls s @ [Looked_Up n]) s"
  by (cases "lookup_answer c n") (simp_all add: lookup_def wp_simps split: sum.split)

lemma look_all_calls:
  "wp (look_all c ns) (\<lambda>r s'. case r of Inl e \<Rightarrow> looked_at (se_calls s) ns s'
     | Inr found \<Rightarrow> map fst found = ns \<and> se_calls s' = se_calls s @ map Looked_Up ns) s"
proof (induction ns arbitrary: s)
  case (Cons n ns)
  show ?case unfolding look_all.simps
    by (rule wp_then [OF lookup_calls])
      (auto simp: wp_simps intro!: wp_mono [OF Cons.IH] intro: looked_at_here looked_at_later [of _ "[n]", simplified] split: sum.splits)
qed (simp add: wp_simps)

lemma look_plan_calls:
  "wp (look_plan c plan) (\<lambda>r s'. case r of
      Inl e \<Rightarrow> looked_at (se_calls s) (pl_Requirements plan @ pl_Steps plan) s'
    | Inr (needed, present) \<Rightarrow> map fst needed = pl_Requirements plan \<and> map fst present = pl_Steps plan
        \<and> se_calls s' = se_calls s @ map Looked_Up (pl_Requirements plan @ pl_Steps plan)) s"
  unfolding look_plan_def
  by (rule wp_then [OF look_all_calls])
    (auto simp: wp_simps intro!: wp_mono [OF look_all_calls] intro: looked_at_first looked_at_later split: sum.splits)

text \<open>The check of the code computes exactly that from the answers.\<close>

lemma check_requirements_look:
  "run_state (check_requirements c ns missing) s = (case run_state (look_all c ns) s of
      (Inl e, s1) \<Rightarrow> (Inl e, s1) | (Inr found, s1) \<Rightarrow> (Inr (missing @ absent found), s1))"
  by (induction ns arbitrary: missing s) (auto simp: run_and_then absent_def split: prod.splits sum.splits)

lemma check_steps_look:
  assumes "distinct ns"
  shows "run_state (check_steps c name ns unowned tags) s = (case run_state (look_all c ns) s of
      (Inl e, s1) \<Rightarrow> (Inl e, s1)
    | (Inr found, s1) \<Rightarrow> (Inr (unowned @ not_of name found, \<lambda>n. case map_of found n of Some (Some e) \<Rightarrow> rs_etag e | _ \<Rightarrow> tags n), s1))"
  using assms
proof (induction ns arbitrary: unowned tags s)
  case (Cons n ns)
  have tags: "(\<lambda>m. case map_of found m of Some (Some e) \<Rightarrow> rs_etag e | _ \<Rightarrow> (tags(n := t)) m)
      = (\<lambda>m. case map_of ((n, Some e') # found) m of Some (Some e) \<Rightarrow> rs_etag e | _ \<Rightarrow> tags m)"
    if "run_state (look_all c ns) s' = (Inr found, s'')" "t = rs_etag e'" for found s' s'' t e'
  proof -
    have "map fst found = ns" using wpD [OF look_all_calls that(1)] by simp
    then have "map_of found n = None" using Cons.prems by (force simp: map_of_eq_None_iff)
    then show ?thesis using that(2) by (auto simp: fun_eq_iff split: option.split)
  qed
  have none: "(\<lambda>m. case map_of found m of Some (Some e) \<Rightarrow> rs_etag e | _ \<Rightarrow> tags m)
      = (\<lambda>m. case map_of ((n, None) # found) m of Some (Some e) \<Rightarrow> rs_etag e | _ \<Rightarrow> tags m)"
    if "run_state (look_all c ns) s' = (Inr found, s'')" for found s' s''
  proof -
    have "map fst found = ns" using wpD [OF look_all_calls that] by simp
    then have "map_of found n = None" using Cons.prems by (force simp: map_of_eq_None_iff)
    then show ?thesis by (auto simp: fun_eq_iff)
  qed
  show ?case
    using Cons.prems by (auto simp: run_and_then Cons.IH not_of_def tags none split: prod.splits sum.splits option.splits)
qed (simp add: not_of_def)

lemma score_check_look:
  assumes "NewPlan r = Inr plan" "distinct (pl_Steps plan)"
  shows "run_state (score_check c r) s = (case run_state (look_plan c plan) s of
      (Inl e, s1) \<Rightarrow> (Inl e, s1)
    | (Inr (needed, present), s1) \<Rightarrow> (Inr (\<lparr>pc_Missing = absent needed, pc_Unowned = not_of (rn_Name r) present\<rparr>, tag_of present), s1))"
  by (simp add: score_check_def assms run_and_then look_plan_def check_requirements_look check_steps_look tag_of_def [abs_def]
      split: prod.split sum.split)

section \<open>Plans of rendered scores\<close>

lemma requires_fold:
  "fold (\<lambda>name. plan_require (Node k name)) names p = p\<lparr>pl_Requirements := fold add_node (map (Node k) names) (pl_Requirements p)\<rparr>"
  by (induction names arbitrary: p) (simp_all add: plan_require_def)

lemma NewPlan_Inr:
  assumes "NewPlan r = Inr plan"
  shows "checkDeclared r (rendered_contents r) = None"
    and "\<exists>p. inventory_plan (rendered_inventory r) = Inr p \<and> plan = p\<lparr>pl_Requirements := sort_key compareNodes
      (fold add_node (map (Node Kind_Secret) (rn_Secrets r)) (fold add_node (map (Node Kind_Variable) (rn_Required r)) (pl_Requirements p)))\<rparr>"
  using assms by (auto simp: NewPlan_def requires_fold Let_def split: option.splits sum.splits)

lemma inventory_plan_Inr:
  assumes "inventory_plan iv = Inr p" "distinct (inventory_nodes iv)"
  shows "pl_Steps p = plan_order iv" "set (plan_order iv) = set (inventory_nodes iv)"
    "pl_Requirements p = sort_key compareNodes (ed_requirements (inventory_edges iv))"
  using assms(1) unfolding inventory_plan_eq [OF assms(2)] by (auto split: if_splits)

lemma requirements_of:
  "set (ed_requirements (inventory_edges iv))
    = {d. \<exists>w\<in>set (inv_workloads iv). d \<in> set (dependenciesOf w (inv_contents iv))} - set (inventory_nodes iv)"
  "distinct (ed_requirements (inventory_edges iv))"
  by (auto simp: inventory_edges_def add_edges_fold no_edges_def set_fold_add_node distinct_fold_add_node)

lemma dependencies_of:
  assumes "distinct (inventory_nodes iv)"
  shows "set (ed_dependencies (inventory_edges iv) n)
    = {d \<in> set (inventory_nodes iv). \<exists>w\<in>set (inv_workloads iv). n = reader_of w \<and> d \<in> set (dependenciesOf w (inv_contents iv))}"
  by (auto simp: inventory_edges_def add_edges_fold no_edges_def)

lemma rendered_nodes_inventory: "inventory_nodes (rendered_inventory r) = rendered_nodes r"
  by (simp add: inventory_nodes_def rendered_inventory_def rendered_nodes_def comp_def)

lemma plan_steps:
  assumes "NewPlan r = Inr plan" "distinct (rendered_nodes r)"
  shows "distinct (pl_Steps plan)" "set (pl_Steps plan) = set (rendered_nodes r)"
proof -
  obtain p where p: "inventory_plan (rendered_inventory r) = Inr p" "pl_Steps plan = pl_Steps p"
    using NewPlan_Inr [OF assms(1)] by auto
  have d: "distinct (inventory_nodes (rendered_inventory r))" using assms(2) by (simp add: rendered_nodes_inventory)
  from inventory_plan_Inr [OF p(1) d] plan_order_facts(1) [OF d] show "distinct (pl_Steps plan)" "set (pl_Steps plan) = set (rendered_nodes r)"
    by (simp_all add: p(2) rendered_nodes_inventory)
qed

lemma found_named: "x \<in> set xs \<Longrightarrow> \<exists>y. find (\<lambda>y. f y = f x) xs = Some y"
  by (induction xs) auto

lemma rendered_writable:
  "n \<in> set (rendered_nodes r) \<Longrightarrow> applicable n \<and> apply_answer c r n ifMatch wait \<noteq> None"
  by (auto simp: rendered_nodes_def applicable_def apply_answer_def with_named_def dest!: found_named)

section \<open>Steps until one fails\<close>

text \<open>Applying and removing take their steps in order and stop at the first that fails.\<close>

fun until_error :: "(Node \<Rightarrow> ('w session, score_error option) state) \<Rightarrow> (Node \<Rightarrow> score_error \<Rightarrow> score_error)
    \<Rightarrow> Node list \<Rightarrow> Node list \<Rightarrow> ('w session, Node list \<times> score_error option) state" where
  "until_error step wrap [] acc = ret (acc, None)"
| "until_error step wrap (n # ns) acc = State_Monad.bind (step n) (\<lambda>r. case r of
       Some e \<Rightarrow> ret (acc, Some (wrap n e)) | None \<Rightarrow> until_error step wrap ns (acc @ [n]))"

definition stopped :: "(Node \<Rightarrow> score_call) \<Rightarrow> (Node \<Rightarrow> score_error \<Rightarrow> score_error) \<Rightarrow> Node list \<Rightarrow> Node list \<Rightarrow> score_call list
    \<Rightarrow> Node list \<times> score_error option \<Rightarrow> 'w session \<Rightarrow> bool" where
  "stopped call wrap ns acc before r s' \<longleftrightarrow> (case r of (all, err) \<Rightarrow> \<exists>landed rest. all = acc @ landed \<and> ns = landed @ rest
     \<and> (case rest of [] \<Rightarrow> err = None | n # _ \<Rightarrow> \<exists>e. err = Some (wrap n e))
     \<and> se_calls s' = before @ map call (landed @ take 1 rest))"

lemma stopped_next:
  "stopped call wrap ns (acc @ [n]) (before @ [call n]) r s' \<Longrightarrow> stopped call wrap (n # ns) acc before r s'"
  unfolding stopped_def split_beta
  by (elim exE) (rule_tac x = "n # landed" in exI, rule_tac x = rest in exI, simp)

lemma stopped_here: "se_calls s' = before @ [call n] \<Longrightarrow> stopped call wrap (n # ns) acc before (acc, Some (wrap n e)) s'"
  unfolding stopped_def prod.case by (rule exI [of _ "[]"], rule exI [of _ "n # ns"]) auto

lemma until_error_wp:
  assumes "\<And>n s. n \<in> set ns \<Longrightarrow> wp (step n) (\<lambda>err s'. se_calls s' = se_calls s @ [call n]) s"
  shows "wp (until_error step wrap ns acc) (stopped call wrap ns acc (se_calls s)) s"
  using assms
proof (induction ns arbitrary: acc s)
  case Nil
  then show ?case by (simp add: wp_simps stopped_def)
next
  case (Cons n ns)
  have rest: "wp (until_error step wrap ns acc') (stopped call wrap ns acc' (se_calls s1)) s1" for acc' s1
    using Cons.prems by (intro Cons.IH) simp
  have "wp (case err of Some e \<Rightarrow> ret (acc, Some (wrap n e)) | None \<Rightarrow> until_error step wrap ns (acc @ [n]))
      (stopped call wrap (n # ns) acc (se_calls s)) s1"
    if calls: "se_calls s1 = se_calls s @ [call n]" for err s1
  proof (cases err)
    case None
    have "wp (until_error step wrap ns (acc @ [n])) (stopped call wrap (n # ns) acc (se_calls s)) s1"
      by (rule wp_mono [OF rest]) (rule stopped_next, simp add: calls)
    then show ?thesis by (simp add: None)
  next
    case (Some e)
    then show ?thesis using stopped_here [of s1 "se_calls s" call n] calls by (simp add: wp_simps)
  qed
  then show ?case
    unfolding until_error.simps wp_bind by (intro wp_mono [OF Cons.prems]) simp_all
qed

section \<open>Applying\<close>

definition wrote :: "(Node \<Rightarrow> string) \<Rightarrow> Node \<Rightarrow> score_call" where
  "wrote tags n = Wrote n (if tags n \<noteq> [] then Some (tags n) else None)"

lemma score_apply_wp:
  assumes "n \<in> set (rendered_nodes r)"
  shows "wp (score_apply c r n (tags n) wait) (\<lambda>err s'. se_calls s' = se_calls s @ [wrote tags n]) s"
  using rendered_writable [OF assms, of c "if tags n \<noteq> [] then Some (tags n) else None" wait]
  by (auto simp: score_apply_def wp_simps wrote_def Let_def)

lemma apply_steps_until:
  "apply_steps c r tags wait ns acc = until_error (\<lambda>n. score_apply c r n (tags n) wait) Apply_Failed ns acc"
  by (induction ns arbitrary: acc) (auto intro!: arg_cong2 [of _ _ _ _ State_Monad.bind] split: option.split)

lemma apply_steps_wp:
  "set ns \<subseteq> set (rendered_nodes r) \<Longrightarrow>
    wp (apply_steps c r tags wait ns []) (stopped (wrote tags) Apply_Failed ns [] (se_calls s)) s"
  unfolding apply_steps_until by (rule until_error_wp) (auto intro: score_apply_wp)

section \<open>Removing\<close>

lemma score_destroy_wp:
  "applicable n \<Longrightarrow> wp (score_destroy c n) (\<lambda>err s'. se_calls s' = se_calls s @ [Deleted n]) s"
  by (auto simp: score_destroy_def delete_answer_def applicable_def wp_simps)

lemma destroy_steps_until: "destroy_steps c ns acc = until_error (score_destroy c) Delete_Failed ns acc"
  by (induction ns arbitrary: acc) (auto intro!: arg_cong2 [of _ _ _ _ State_Monad.bind] split: option.split)

lemma destroy_steps_wp:
  "(\<And>n. n \<in> set ns \<Longrightarrow> applicable n) \<Longrightarrow>
    wp (destroy_steps c ns []) (stopped Deleted Delete_Failed ns [] (se_calls s)) s"
  unfolding destroy_steps_until by (rule until_error_wp) (auto intro: score_destroy_wp)

end
