(* ===== verification/Score_Properties.thy ===== *)
theory Score_Properties
  imports Score_Delivery
begin

text \<open>
  What applying and removing a score guarantees, over any server: the order of the steps, what a plan that
  fails says, and which calls are made under which conditions.
\<close>

section \<open>An example\<close>

definition example_config :: manifest_Variable where
  "example_config = \<lparr>mva_Name = ''conf'', mva_Value = ''new'', mva_Labels = [(''score'', ''shop'')]\<rparr>"

definition example_reader :: Spec where
  "example_reader = example_spec\<lparr>spec_Labels := [(''score'', ''shop'')], spec_Env := [(''CONF'', ''${var:conf}'')], spec_Volumes := []\<rparr>"

definition example_caller :: Spec where
  "example_caller = example_reader\<lparr>spec_Name := ''api'', spec_Env := [(''WEB'', ''${workload:web:80}'')]\<rparr>"

definition example_score :: Rendered where
  "example_score = \<lparr>rn_Name = ''shop'', rn_Release = ''1'', rn_Package = ''shop'', rn_Volumes = [],
     rn_Workloads = [example_caller, example_reader], rn_Services = [], rn_Variables = [example_config],
     rn_Required = [], rn_Secrets = [], rn_Documents = []\<rparr>"

definition example_plan :: Plan where
  "example_plan = \<lparr>pl_Steps = [Node Kind_Variable ''conf'', Node Kind_Workload ''web'', Node Kind_Workload ''api''],
     pl_Requirements = []\<rparr>"

lemma example_NewPlan: "NewPlan example_score = Inr example_plan"
  by code_simp

lemma example_distinct: "distinct (rendered_nodes example_score)"
  by code_simp

text \<open>The references between the workloads of an example that call each other.\<close>

definition example_loop :: Rendered where
  "example_loop = example_score\<lparr>rn_Workloads := [example_caller, example_reader\<lparr>spec_Env := [(''API'', ''${workload:api:80}'')]\<rparr>],
     rn_Variables := []\<rparr>"

text \<open>A server that holds nothing of the score, takes every write but that of the second workload, and deletes.\<close>

definition example_score_client :: "unit client" where
  "example_score_client = \<lparr>cl_ApplyVolume = (\<lambda>v t. ret None), cl_GetVolume = (\<lambda>n. ret (Inl (Cl_NotFound Kind_Volume))),
     cl_ListVolumes = (\<lambda>q. ret (Inr [])), cl_DeleteVolume = (\<lambda>n. ret None), cl_SetVariable = (\<lambda>v t. ret None),
     cl_GetVariable = (\<lambda>n. ret (Inl (Cl_NotFound Kind_Variable))), cl_ListVariables = (\<lambda>q. ret (Inr [])),
     cl_DeleteVariable = (\<lambda>n. ret None),
     cl_Apply = (\<lambda>w t b. ret (if spec_Name w = ''api'' then Some (Cl_Failed ''500'') else None)),
     cl_Get = (\<lambda>n. ret (if n = ''web'' then Inr \<lparr>cw_Spec = example_reader, cw_ETag = ''1''\<rparr> else Inl (Cl_NotFound Kind_Workload))),
     cl_List = (\<lambda>q. ret (Inr [])), cl_Delete = (\<lambda>n b. ret None), cl_ApplyService = (\<lambda>v t. ret None),
     cl_GetService = (\<lambda>n. ret (Inl (Cl_NotFound Kind_Service))), cl_ListServices = (\<lambda>q. ret (Inr [])),
     cl_DeleteService = (\<lambda>n. ret None), cl_GetSecret = (\<lambda>n. ret (Inl (Cl_NotFound Kind_Secret)))\<rparr>"

definition example_session :: "unit session" where
  "example_session = \<lparr>se_world = (), se_calls = []\<rparr>"

text \<open>What a plan depends on, read off the manifests.\<close>

definition score_depends :: "inventory \<Rightarrow> (Node \<times> Node) set" where
  "score_depends iv = {(d, n). \<exists>w\<in>set (inv_workloads iv). n = reader_of w \<and> d \<in> set (dependenciesOf w (inv_contents iv))}"

lemma precedes_depends:
  assumes "distinct (inventory_nodes iv)"
  shows "precedes (inventory_nodes iv) (ed_dependencies (inventory_edges iv))
    = {(d, n) \<in> score_depends iv. d \<in> set (inventory_nodes iv)}"
proof -
  have "reader_of w \<in> set (inventory_nodes iv)" if "w \<in> set (inv_workloads iv)" for w
    using that by (auto simp: inventory_nodes_def reader_of_def)
  then show ?thesis by (auto simp: precedes_def score_depends_def dependencies_of [OF assms])
qed

section \<open>Properties of a plan\<close>

text \<open>
  C20. The loop that orders a score ends, whatever the score holds: resources listed twice, workloads that
  reference each other or themselves, counts that never reach zero. When it has ended nothing is available.
\<close>

theorem plan_ends:
  "\<exists>k. while_option kahn_goes_on (kahn_step (ed_dependents (inventory_edges iv)))
      (kahn_start (inventory_nodes iv) (inventory_edges iv)) = Some k
    \<and> kahn_loop (inventory_nodes iv) (inventory_edges iv) = k \<and> kh_available k = []"
proof -
  have "set (ed_dependents (inventory_edges iv) n) \<subseteq> reader_of ` set (inv_workloads iv)" for n
    by (auto simp: inventory_edges_def add_edges_fold no_edges_def)
  from kahn_ends [where dependents = "ed_dependents (inventory_edges iv)", OF _ this, where k = "kahn_start (inventory_nodes iv) (inventory_edges iv)"] obtain k where
    k: "while_option kahn_goes_on (kahn_step (ed_dependents (inventory_edges iv)))
      (kahn_start (inventory_nodes iv) (inventory_edges iv)) = Some k"
    by auto
  then have "\<not> kahn_goes_on k" by (rule while_option_stop)
  then show ?thesis using k by (auto simp: kahn_loop_def while_def kahn_goes_on_def)
qed

text \<open>
  C17. A plan holds everything, in order. Its steps are the resources of the score, each of them once, and a
  workload comes after every volume, variable and workload of the score that it depends on; whatever else it
  depends on, and every variable and secret the score declares, is among the requirements.
\<close>

theorem plan_in_order:
  assumes "NewPlan r = Inr plan" "distinct (rendered_nodes r)"
  shows "distinct (pl_Steps plan) \<and> set (pl_Steps plan) = set (rendered_nodes r)
    \<and> (\<forall>us w vs d. pl_Steps plan = us @ w # vs \<and> (d, w) \<in> score_depends (rendered_inventory r) \<longrightarrow>
        d \<in> set us \<or> d \<notin> set (rendered_nodes r) \<and> d \<in> set (pl_Requirements plan))
    \<and> set (pl_Requirements plan) = (Domain (score_depends (rendered_inventory r)) - set (rendered_nodes r))
        \<union> Node Kind_Variable ` set (rn_Required r) \<union> Node Kind_Secret ` set (rn_Secrets r)"
proof -
  let ?iv = "rendered_inventory r"
  have d: "distinct (inventory_nodes ?iv)" using assms(2) by (simp add: rendered_nodes_inventory)
  obtain p where p: "inventory_plan ?iv = Inr p" "pl_Steps plan = pl_Steps p" "set (pl_Requirements plan)
      = set (pl_Requirements p) \<union> Node Kind_Variable ` set (rn_Required r) \<union> Node Kind_Secret ` set (rn_Secrets r)"
    using NewPlan_Inr(2) [OF assms(1)] by (auto simp: set_fold_add_node)
  have req: "set (pl_Requirements p) = Domain (score_depends ?iv) - set (rendered_nodes r)"
    using inventory_plan_Inr(3) [OF p(1) d] requirements_of(1) [of ?iv]
    by (auto simp: score_depends_def Domain_iff rendered_nodes_inventory)
  have "d \<in> set us" if "pl_Steps plan = us @ w # vs" "(d, w) \<in> score_depends ?iv" "d \<in> set (rendered_nodes r)" for us w vs d
  proof -
    have "d \<in> set (ed_dependencies (inventory_edges ?iv) w)"
      using that(2,3) \<open>distinct (inventory_nodes ?iv)\<close> by (auto simp: dependencies_of score_depends_def rendered_nodes_inventory)
    then show ?thesis
      using plan_order_facts(3) [OF \<open>distinct (inventory_nodes ?iv)\<close>] that(1) inventory_plan_Inr(1) [OF p(1) \<open>distinct (inventory_nodes ?iv)\<close>]
      by (auto simp: in_order_def p(2))
  qed
  then show ?thesis
    using plan_steps [OF assms] p(3) req by (auto simp: Domain_iff)
qed

theorem plan_in_order_witness:
  "set (pl_Steps example_plan) = set (rendered_nodes example_score)
    \<and> (Node Kind_Workload ''web'', Node Kind_Workload ''api'') \<in> score_depends (rendered_inventory example_score)"
proof -
  have "Node Kind_Workload ''web'' \<in> set (dependenciesOf example_caller (inv_contents (rendered_inventory example_score)))"
    by code_simp
  moreover have "example_caller \<in> set (inv_workloads (rendered_inventory example_score))"
    "Node Kind_Workload ''api'' = reader_of example_caller"
    by (simp_all add: rendered_inventory_def example_score_def reader_of_def example_caller_def)
  ultimately have "(Node Kind_Workload ''web'', Node Kind_Workload ''api'') \<in> score_depends (rendered_inventory example_score)"
    unfolding score_depends_def by blast
  moreover note plan_in_order [OF example_NewPlan example_distinct, THEN conjunct2, THEN conjunct1]
  ultimately show ?thesis by (rule conjI [rotated])
qed

text \<open>
  C21. A score is refused for a cycle exactly when it has one: no order of its resources puts every workload
  after the ones it depends on.
\<close>

theorem plan_refuses_cycles:
  assumes "distinct (inventory_nodes iv)"
  shows "(\<exists>stuck. inventory_plan iv = Inl (ErrCycle stuck))
    \<longleftrightarrow> \<not> acyclic {(d, n) \<in> score_depends iv. d \<in> set (inventory_nodes iv)}"
  using plan_cycle [OF assms] inventory_plan_eq [OF assms] unfolding precedes_depends [OF assms] by auto

theorem plan_refuses_cycles_witness:
  "\<not> acyclic {(d, n) \<in> score_depends (rendered_inventory example_loop). d \<in> set (rendered_nodes example_loop)}"
proof -
  have "distinct (inventory_nodes (rendered_inventory example_loop))" by code_simp
  moreover have "inventory_plan (rendered_inventory example_loop)
      = Inl (ErrCycle [Node Kind_Workload ''api'', Node Kind_Workload ''web''])"
    by code_simp
  ultimately show ?thesis
    unfolding rendered_nodes_inventory [symmetric] by (rule plan_refuses_cycles [THEN iffD1, OF _ exI])
qed

text \<open>The plan reads the lists of a score as sets: the order manifests are listed in does not matter.\<close>

lemma map_of_permuted:
  assumes "distinct (map fst xs)" "mset xs = mset ys"
  shows "map_of (rev xs) = map_of (rev ys)"
proof -
  have "distinct (map fst ys)" using assms by (metis distinct_count_atmost_1 mset_map set_mset_mset)
  moreover have "set (rev xs) = set (rev ys)" using mset_eq_setD [OF assms(2)] by simp
  ultimately show ?thesis using assms(1) by (intro map_of_inject_set [THEN iffD2]) (simp_all add: rev_map [symmetric])
qed

lemma first_failure: "(case x of Some e \<Rightarrow> Some e | None \<Rightarrow> y) = None \<longleftrightarrow> x = None \<and> y = None"
  by (cases x) simp_all

lemma undeclared_None: "undeclared names listed node reader = None \<longleftrightarrow> set names \<subseteq> set listed"
  by (auto simp: undeclared_def find_None_iff)

lemma check_workloads_all:
  "check_workloads variables secrets contents ws = None
    \<longleftrightarrow> (\<forall>w\<in>set ws. \<exists>rs. ReferencesIn w contents = Inr rs
          \<and> set (Names rs KindVariable) \<subseteq> set variables \<and> set (Names rs KindSecret) \<subseteq> set secrets)"
proof (induction ws)
  case (Cons w ws)
  have "check_workload variables secrets contents w = None \<longleftrightarrow> (\<exists>rs. ReferencesIn w contents = Inr rs
      \<and> set (Names rs KindVariable) \<subseteq> set variables \<and> set (Names rs KindSecret) \<subseteq> set secrets)"
    by (cases "ReferencesIn w contents") (simp_all add: check_workload_def first_failure undeclared_None)
  then show ?case using Cons by (simp add: first_failure)
qed simp

lemma sort_nodes_eq:
  assumes "set xs = set ys" "distinct xs" "distinct ys" "\<And>n. n \<in> set xs \<Longrightarrow> known_kind n"
  shows "sort_key compareNodes xs = sort_key compareNodes ys"
proof (rule sort_key_inj_key_eq)
  show "mset xs = mset (sort_key compareNodes ys)" using assms(1-3) by (simp add: set_eq_iff_mset_eq_distinct)
  show "inj_on compareNodes (set xs)" by (rule compareNodes_inj) (rule assms(4))
qed simp

lemma apply_order_cong:
  assumes "\<And>n. set (deps n) = set (deps' n)"
  shows "apply_order k nodes deps taken = apply_order k nodes deps' taken"
proof -
  have "ready deps = ready deps'" using assms by (simp add: fun_eq_iff ready_def)
  then show ?thesis by (induction k arbitrary: taken) (simp_all split: option.split)
qed

definition same_resources :: "Rendered \<Rightarrow> Rendered \<Rightarrow> bool" where
  "same_resources r r' \<longleftrightarrow> mset (rn_Volumes r) = mset (rn_Volumes r') \<and> mset (rn_Workloads r) = mset (rn_Workloads r')
     \<and> mset (rn_Services r) = mset (rn_Services r') \<and> mset (rn_Variables r) = mset (rn_Variables r')
     \<and> set (rn_Required r) = set (rn_Required r') \<and> set (rn_Secrets r) = set (rn_Secrets r')"

text \<open>
  C22. The plan does not depend on the order in which a score lists its manifests, its variables or what it
  requires: two scores that hold the same resources have the same plan.
\<close>

theorem plan_ignores_listing:
  assumes "NewPlan r = Inr plan" "distinct (rendered_nodes r)" "same_resources r r'"
  shows "NewPlan r' = Inr plan"
proof -
  let ?iv = "rendered_inventory r" and ?iv' = "rendered_inventory r'"
  note same = assms(3) [unfolded same_resources_def]
  have sets: "set (rn_Workloads r') = set (rn_Workloads r)" "set (map mva_Name (rn_Variables r')) = set (map mva_Name (rn_Variables r))"
    using same by (metis mset_eq_setD, metis mset_map mset_eq_setD)
  have contents: "rendered_contents r' = rendered_contents r"
  proof -
    have "distinct (map fst (map (\<lambda>v. (mva_Name v, mva_Value v)) (rn_Variables r)))"
      using assms(2) by (auto simp: rendered_nodes_def distinct_map inj_on_def)
    from map_of_permuted [OF this, of "map (\<lambda>v. (mva_Name v, mva_Value v)) (rn_Variables r')"] same show ?thesis
      by (simp add: rendered_contents_def)
  qed
  have mnodes: "mset (rendered_nodes r') = mset (rendered_nodes r)" using same by (simp add: rendered_nodes_def)
  then have nodes: "set (rendered_nodes r') = set (rendered_nodes r)" "distinct (rendered_nodes r')"
    "length (rendered_nodes r') = length (rendered_nodes r)"
    using assms(2) by (metis mset_eq_setD, metis distinct_count_atmost_1 mnodes set_mset_mset, metis mset_eq_length)
  have d: "distinct (inventory_nodes ?iv)" "distinct (inventory_nodes ?iv')"
    using assms(2) nodes(2) by (simp_all add: rendered_nodes_inventory)
  have srt: "sort_key compareNodes (rendered_nodes r') = sort_key compareNodes (rendered_nodes r)"
    by (rule sort_nodes_eq) (use nodes assms(2) in \<open>auto simp: rendered_nodes_inventory [symmetric] inventory_known\<close>)
  have deps: "set (ed_dependencies (inventory_edges ?iv') n) = set (ed_dependencies (inventory_edges ?iv) n)" for n
    unfolding dependencies_of [OF d(1)] dependencies_of [OF d(2)]
    by (simp add: rendered_nodes_inventory nodes) (simp add: rendered_inventory_def sets contents)
  have order: "plan_order ?iv' = plan_order ?iv"
    unfolding plan_order_def rendered_nodes_inventory srt nodes(3) by (rule apply_order_cong [OF deps])
  have reqs: "set (ed_requirements (inventory_edges ?iv')) = set (ed_requirements (inventory_edges ?iv))"
    unfolding requirements_of(1) rendered_nodes_inventory nodes(1) by (simp add: rendered_inventory_def sets contents)
  obtain p where p: "inventory_plan ?iv = Inr p" and plan: "plan = p\<lparr>pl_Requirements := sort_key compareNodes
      (fold add_node (map (Node Kind_Secret) (rn_Secrets r)) (fold add_node (map (Node Kind_Variable) (rn_Required r)) (pl_Requirements p)))\<rparr>"
    using NewPlan_Inr(2) [OF assms(1)] by blast
  have known: "known_kind n" if "n \<in> set (ed_requirements (inventory_edges ?iv))" for n
    using that unfolding requirements_of(1) by (auto intro: dependency_known)
  have "sort_key compareNodes (ed_requirements (inventory_edges ?iv')) = sort_key compareNodes (ed_requirements (inventory_edges ?iv))"
    by (rule sort_nodes_eq) (use reqs requirements_of(2) known in auto)
  then have "inventory_plan ?iv' = Inr p"
    using p unfolding inventory_plan_eq [OF d(1)] inventory_plan_eq [OF d(2)] order
    by (simp add: rendered_nodes_inventory nodes(1) split: if_splits)
  moreover have "checkDeclared r' (rendered_contents r') = None"
  proof -
    have "checkDeclared r (rendered_contents r) = None" using NewPlan_Inr(1) [OF assms(1)] .
    then show ?thesis unfolding checkDeclared_def check_workloads_all contents
      using same sets by simp
  qed
  moreover have "sort_key compareNodes (fold add_node (map (Node Kind_Secret) (rn_Secrets r'))
        (fold add_node (map (Node Kind_Variable) (rn_Required r')) (pl_Requirements p)))
      = sort_key compareNodes (fold add_node (map (Node Kind_Secret) (rn_Secrets r))
        (fold add_node (map (Node Kind_Variable) (rn_Required r)) (pl_Requirements p)))"
  proof (rule sort_nodes_eq)
    have "distinct (pl_Requirements p)" "\<And>n. n \<in> set (pl_Requirements p) \<Longrightarrow> known_kind n"
      using inventory_plan_Inr(3) [OF p d(1)] requirements_of(2) known by simp_all
    then show "distinct (fold add_node (map (Node Kind_Secret) (rn_Secrets r')) (fold add_node (map (Node Kind_Variable) (rn_Required r')) (pl_Requirements p)))"
      "distinct (fold add_node (map (Node Kind_Secret) (rn_Secrets r)) (fold add_node (map (Node Kind_Variable) (rn_Required r)) (pl_Requirements p)))"
      "\<And>n. n \<in> set (fold add_node (map (Node Kind_Secret) (rn_Secrets r')) (fold add_node (map (Node Kind_Variable) (rn_Required r')) (pl_Requirements p)))
        \<Longrightarrow> known_kind n"
      by (auto simp: distinct_fold_add_node set_fold_add_node known_kind_def)
  qed (use same in \<open>simp add: set_fold_add_node\<close>)
  ultimately show ?thesis
    by (simp add: NewPlan_def requires_fold plan Let_def)
qed

theorem plan_ignores_listing_witness:
  "NewPlan (example_score\<lparr>rn_Workloads := [example_reader, example_caller]\<rparr>) = Inr example_plan"
proof (rule plan_ignores_listing [OF example_NewPlan example_distinct])
  show "same_resources example_score (example_score\<lparr>rn_Workloads := [example_reader, example_caller]\<rparr>)"
    by (simp add: same_resources_def example_score_def)
qed

section \<open>Properties of applying and removing\<close>

text \<open>
  C18. An apply writes nothing that was not checked. A score without a plan is refused before any call. Otherwise
  every resource the plan requires and then every step of it is looked up, once and in that order, before
  anything is written. When a lookup fails, when something required is absent, or when a step is there without
  the name of the score on it and the caller does not adopt, the apply stops there, says which, and writes nothing. In
  every other case it writes the steps in the order of the plan, each once and conditioned on the tag that was
  read for it, where one was read, and stops at the first that fails, reporting those before it.
\<close>

theorem apply_writes_as_checked:
  assumes "run_state (score_Apply c r adopt wait) s = ((applied, err), s2)" "distinct (rendered_nodes r)"
  shows "case NewPlan r of
      Inl e \<Rightarrow> applied = [] \<and> err = Some (Score_Plan e) \<and> s2 = s
    | Inr plan \<Rightarrow> (case run_state (look_plan c plan) s of
        (Inl e, s1) \<Rightarrow> applied = [] \<and> err = Some e \<and> s2 = s1 \<and> looked_at (se_calls s) (pl_Requirements plan @ pl_Steps plan) s2
      | (Inr (needed, present), s1) \<Rightarrow>
          map fst needed = pl_Requirements plan \<and> map fst present = pl_Steps plan
          \<and> se_calls s1 = se_calls s @ map Looked_Up (pl_Requirements plan @ pl_Steps plan)
          \<and> (if absent needed \<noteq> [] then applied = [] \<and> err = Some (ErrMissing (absent needed)) \<and> s2 = s1
             else if not_of (rn_Name r) present \<noteq> [] \<and> \<not> adopt
             then applied = [] \<and> err = Some (ErrUnowned (not_of (rn_Name r) present)) \<and> s2 = s1
             else \<exists>rest. pl_Steps plan = applied @ rest
               \<and> (case rest of [] \<Rightarrow> err = None | n # _ \<Rightarrow> \<exists>e. err = Some (Apply_Failed n e))
               \<and> se_calls s2 = se_calls s1 @ map (wrote (tag_of present)) (applied @ take 1 rest)))"
proof (cases "NewPlan r")
  case (Inl e)
  then show ?thesis using assms(1) by (simp add: score_Apply_def)
next
  case (Inr plan)
  note steps = plan_steps [OF Inr assms(2)]
  note run = assms(1) [unfolded score_Apply_def Inr sum.case run_state_bind score_check_look [OF Inr steps(1)]]
  obtain seen s1 where seen: "run_state (look_plan c plan) s = (seen, s1)" by fastforce
  note calls = wpD [OF look_plan_calls seen]
  show ?thesis
  proof (cases seen)
    case (Inl e)
    then show ?thesis using run calls by (simp add: Inr seen)
  next
    case seen': (Inr found)
    obtain needed present where found: "found = (needed, present)" by (cases found)
    have "stopped (wrote (tag_of present)) Apply_Failed (pl_Steps plan) [] (se_calls s1) (applied, err) s2"
      if "absent needed = []" "not_of (rn_Name r) present = [] \<or> adopt"
      using run that wpD [OF apply_steps_wp, of "pl_Steps plan" r c "tag_of present" wait s1] steps(2)
      by (auto simp: seen seen' found)
    then show ?thesis using run calls by (auto simp: Inr seen seen' found stopped_def)
  qed
qed

theorem apply_writes_as_checked_witness:
  "case run_state (score_Apply example_score_client example_score True False) example_session of ((applied, err), s2) \<Rightarrow>
     applied = [Node Kind_Variable ''conf'', Node Kind_Workload ''web'']
     \<and> (\<exists>e. err = Some (Apply_Failed (Node Kind_Workload ''api'') e))
     \<and> se_calls s2 = map Looked_Up (pl_Steps example_plan)
         @ [Wrote (Node Kind_Variable ''conf'') None, Wrote (Node Kind_Workload ''web'') (Some ''1''), Wrote (Node Kind_Workload ''api'') None]"
proof -
  let ?apply = "run_state (score_Apply example_score_client example_score True False) example_session"
  let ?needed = "[] :: (Node \<times> resource option) list"
  let ?present = "[(Node Kind_Variable ''conf'', None), (Node Kind_Workload ''web'', Some \<lparr>rs_labels = [(''score'', ''shop'')], rs_etag = ''1''\<rparr>),
    (Node Kind_Workload ''api'', None)]"
  obtain s1 where look: "run_state (look_plan example_score_client example_plan) example_session = (Inr (?needed, ?present), s1)"
    by (simp add: look_plan_def example_plan_def run_and_then lookup_def lookup_answer_def example_score_client_def
        example_session_def on_server_def run_state_bind found_or_not_def workload_resource_def example_reader_def)
  have owned: "absent ?needed = []" "not_of (rn_Name example_score) ?present = []"
    by (simp_all add: absent_def not_of_def example_score_def lookup_str_def LabelName_def)
  have fst: "fst (fst ?apply) = [Node Kind_Variable ''conf'', Node Kind_Workload ''web'']" by code_simp
  then obtain err s2 where a: "?apply = (([Node Kind_Variable ''conf'', Node Kind_Workload ''web''], err), s2)"
    by (metis prod.collapse)
  from apply_writes_as_checked [OF a example_distinct] show ?thesis
    unfolding example_NewPlan sum.case look prod.case owned a
    by (auto simp: example_plan_def example_session_def wrote_def tag_of_def)
qed

text \<open>
  C23. What is removed is removed before what it depends on. Of the resources given, a workload is deleted
  before every volume, variable and workload among them that its stored specification depends on; the
  deletes are made in that order until one fails, and what was deleted before it is reported.
\<close>

theorem destroy_readers_first:
  assumes "run_state (score_order c nodes) s = (Inr steps, s1)" "run_state (Destroy c nodes) s = ((deleted, err), s2)"
    and "run_state (order_held c nodes empty_inventory) s = (Inr held, s1)" "distinct (inventory_nodes held)"
  shows "\<exists>rest. rev steps = deleted @ rest \<and> set steps = set (inventory_nodes held)
    \<and> (case rest of [] \<Rightarrow> err = None | n # _ \<Rightarrow> \<exists>e. err = Some (Delete_Failed n e))
    \<and> se_calls s2 = se_calls s1 @ map Deleted (deleted @ take 1 rest)
    \<and> (\<forall>us d vs n. rev steps = us @ d # vs \<and> (d, n) \<in> score_depends held \<longrightarrow> n \<in> set us)"
proof -
  obtain p where p: "inventory_plan held = Inr p" and steps: "steps = pl_Steps p"
    using assms(1,3) by (auto simp: score_order_def run_and_then split: sum.splits)
  have plan: "steps = plan_order held" "set steps = set (inventory_nodes held)"
    using inventory_plan_Inr [OF p assms(4)] steps by simp_all
  have "run_state (destroy_steps c (rev steps) []) s1 = ((deleted, err), s2)"
    using assms(2) by (simp add: Destroy_def run_state_bind assms(1))
  moreover have "applicable n" if "n \<in> set (rev steps)" for n
    using that plan(2) by (auto simp: inventory_nodes_def applicable_def)
  ultimately have stopped: "stopped Deleted Delete_Failed (rev steps) [] (se_calls s1) (deleted, err) s2"
    using wpD [OF destroy_steps_wp] by blast
  have "n \<in> set us" if split: "rev steps = us @ d # vs" and dep: "(d, n) \<in> score_depends held" for us d vs n
  proof (rule in_order_rev [OF plan_order_facts(3) [OF assms(4)] plan_order_facts(1) [OF assms(4)] split [unfolded plan(1)]])
    show "n \<in> set (plan_order held)"
      using dep plan by (auto simp: score_depends_def inventory_nodes_def reader_of_def)
    have "d \<in> set steps" using arg_cong [OF split, of set] by auto
    then show "d \<in> set (ed_dependencies (inventory_edges held) n)"
      using dep plan(2) unfolding dependencies_of [OF assms(4)] by (auto simp: score_depends_def)
  qed
  then show ?thesis using stopped plan(2) by (auto simp: stopped_def)
qed

theorem destroy_readers_first_witness:
  "\<exists>deleted rest err s2. run_state (Destroy example_score_client [Node Kind_Workload ''web'', Node Kind_Variable ''conf'']) example_session
      = ((deleted, err), s2)
    \<and> [Node Kind_Workload ''web'', Node Kind_Variable ''conf''] = deleted @ rest
    \<and> se_calls s2 = Looked_Up (Node Kind_Workload ''web'') # map Deleted (deleted @ take 1 rest)"
proof -
  let ?nodes = "[Node Kind_Workload ''web'', Node Kind_Variable ''conf'']"
  let ?held = "empty_inventory\<lparr>inv_variables := [''conf''], inv_workloads := [example_reader]\<rparr>"
  let ?s1 = "\<lparr>se_world = (), se_calls = [Looked_Up (Node Kind_Workload ''web'')]\<rparr>"
  have held: "run_state (order_held example_score_client ?nodes empty_inventory) example_session = (Inr ?held, ?s1)"
    by (simp add: example_score_client_def example_session_def on_server_def run_state_bind empty_inventory_def)
  have plan: "inventory_plan ?held = Inr \<lparr>pl_Steps = [Node Kind_Variable ''conf'', Node Kind_Workload ''web''], pl_Requirements = []\<rparr>"
    by code_simp
  then have steps: "run_state (score_order example_score_client ?nodes) example_session
      = (Inr [Node Kind_Variable ''conf'', Node Kind_Workload ''web''], ?s1)"
    by (simp add: score_order_def run_and_then held del: order_held.simps)
  have apart: "distinct (inventory_nodes ?held)" by code_simp
  obtain deleted err s2 where run: "run_state (Destroy example_score_client ?nodes) example_session = ((deleted, err), s2)"
    by (metis prod.collapse)
  from destroy_readers_first [OF steps run held apart] obtain rest
    where "?nodes = deleted @ rest" "se_calls s2 = se_calls ?s1 @ map Deleted (deleted @ take 1 rest)" by auto
  then show ?thesis using run by auto
qed

end
