(* ===== verification/Score_Server.thy ===== *)
theory Score_Server
  imports Score_Apply Workload_Rehash Value_Rotation
begin

text \<open>
  The client of a score over the model of the server: the variables and workloads it reads and writes are
  those of \<open>Value_Rotation\<close> and \<open>Workload_Service\<close>, reached through the handlers of \<open>server/api\<close>, which
  carry a version as an entity tag. The other operations of the client are those of any client given.
\<close>

section \<open>Entity tags\<close>

definition quoteETag :: "string \<Rightarrow> string" where
  "quoteETag etag = CHR 0x22 # etag @ [CHR 0x22]"

definition unquoteETag :: "string \<Rightarrow> string" where
  "unquoteETag etag = (if length etag \<ge> 2 \<and> hd etag = CHR 0x22 \<and> last etag = CHR 0x22 then butlast (tl etag) else etag)"

definition versionETag :: "int \<Rightarrow> string" where
  "versionETag ver = quoteETag (Itoa ver)"

text \<open>The version a header names, whether there is a header, and whether it is a version at all.\<close>

definition parseIfMatch :: "string option \<Rightarrow> int \<times> bool \<times> bool" where
  "parseIfMatch header = (case header of
       None \<Rightarrow> (0, False, True)
     | Some h \<Rightarrow> if h = [] then (0, False, True)
         else case Atoi (unquoteETag h) of
           None \<Rightarrow> (0, True, False)
         | Some ver \<Rightarrow> if ver < 0 then (0, True, False) else (ver, True, True))"

definition resourceIfMatch :: "string option \<Rightarrow> int \<times> bool" where
  "resourceIfMatch header = (case parseIfMatch header of
       (ver, present, ok) \<Rightarrow> (ver, ok \<and> (\<not> present \<or> ver > 0)))"

section \<open>Handlers\<close>

text \<open>What does not change while the node runs: the workload service, and the identifiers and times of writes.\<close>

record node_config =
  nc_service :: service
  nc_id :: "nat \<Rightarrow> string"
  nc_now :: "nat \<Rightarrow> time"

record node_world =
  nw_variables :: "Variable list"
  nw_service :: service_state
  nw_sets :: nat

text \<open>A name that is no single segment of a path is refused by the client.\<close>

definition checkVariableName :: "string \<Rightarrow> bool" where
  "checkVariableName name \<longleftrightarrow> name \<noteq> [] \<and> name \<noteq> ''.'' \<and> name \<noteq> ''..'' \<and> CHR ''/'' \<notin> set name \<and> CHR 0x5C \<notin> set name"

definition bad_request :: client_error where
  "bad_request = Cl_Failed ''400''"

definition variable_status :: "value_error + 'a \<Rightarrow> client_error option" where
  "variable_status answer = (case answer of
       Inr _ \<Rightarrow> None
     | Inl ErrVariableChanged \<Rightarrow> Some (Cl_Changed Kind_Variable)
     | Inl ErrInvalidVariable \<Rightarrow> Some bad_request
     | Inl e \<Rightarrow> Some (Cl_Failed ''500''))"

definition node_SetVariable :: "node_config \<Rightarrow> manifest_Variable \<Rightarrow> string option \<Rightarrow> (node_world, client_error option) state" where
  "node_SetVariable nc v tag = State (\<lambda>w.
     if \<not> checkVariableName (mva_Name v) then (Some (Cl_Failed ''invalid variable name''), w)
     else case resourceIfMatch tag of (ver, ok) \<Rightarrow>
       if \<not> ok then (Some bad_request, w)
       else case variable_Set (nc_id nc (nw_sets w)) (nc_now nc (nw_sets w)) (nc_service nc) (mva_Name v) (mva_Value v)
           (mva_Labels v) ver (nw_variables w) (nw_service w) of
         (answer, t, s) \<Rightarrow> (variable_status answer, \<lparr>nw_variables = t, nw_service = s, nw_sets = Suc (nw_sets w)\<rparr>))"

definition node_GetVariable :: "node_config \<Rightarrow> string \<Rightarrow> (node_world, client_error + resource) state" where
  "node_GetVariable nc name = State (\<lambda>w. (if \<not> checkVariableName name then Inl (Cl_Failed ''invalid variable name'')
     else case variables_Get name (nw_variables w) of
       Inl e \<Rightarrow> Inl (Cl_NotFound Kind_Variable)
     | Inr v \<Rightarrow> Inr \<lparr>rs_labels = var_Labels v, rs_etag = versionETag (var_Version v)\<rparr>, w))"

definition workload_status :: "service_error + 'a \<Rightarrow> client_error option" where
  "workload_status answer = (case answer of
       Inr _ \<Rightarrow> None
     | Inl Svc_ErrWorkloadChanged \<Rightarrow> Some (Cl_Changed Kind_Workload)
     | Inl e \<Rightarrow> Some (Cl_Failed ''apply workload''))"

definition node_Apply :: "node_config \<Rightarrow> Spec \<Rightarrow> string option \<Rightarrow> (node_world, client_error option) state" where
  "node_Apply nc spec tag = State (\<lambda>w. case resourceIfMatch tag of (ver, ok) \<Rightarrow>
     if \<not> ok then (Some bad_request, w)
     else case run_state (Apply (reading_variables (nc_service nc) (nw_variables w)) spec ver) (nw_service w) of
       (answer, s) \<Rightarrow> (workload_status answer, w\<lparr>nw_service := s\<rparr>))"

definition node_Get :: "node_config \<Rightarrow> string \<Rightarrow> (node_world, client_error + client_Workload) state" where
  "node_Get nc name = State (\<lambda>w. (case store_get name (ss_db (nw_service w)) of
       Inl e \<Rightarrow> Inl (Cl_NotFound Kind_Workload)
     | Inr row \<Rightarrow> (case DecodeWorkload (cd_unmarshal (sv_codec (nc_service nc))) (row_Spec row) of
           Inl e \<Rightarrow> Inl (Cl_Failed ''get workload'')
         | Inr spec \<Rightarrow> Inr \<lparr>cw_Spec = spec, cw_ETag = versionETag (row_Version row)\<rparr>), w))"

text \<open>Waiting for a rollout is left to the client given, and follows the apply.\<close>

definition node_client :: "node_config \<Rightarrow> node_world client \<Rightarrow> node_world client" where
  "node_client nc c = c\<lparr>cl_SetVariable := node_SetVariable nc, cl_GetVariable := node_GetVariable nc,
     cl_Apply := (\<lambda>spec tag wait. State_Monad.bind (node_Apply nc spec tag) (\<lambda>r. case r of
       Some e \<Rightarrow> ret (Some e) | None \<Rightarrow> if wait then cl_Apply c spec tag wait else ret None)),
     cl_Get := node_Get nc\<rparr>"

section \<open>Tags\<close>

lemma unquote_quote [simp]: "unquoteETag (quoteETag etag) = etag"
  by (simp add: unquoteETag_def quoteETag_def)

lemma parse_versionETag:
  "0 \<le> ver \<Longrightarrow> ver < 2 ^ 63 \<Longrightarrow> parseIfMatch (Some (versionETag ver)) = (ver, True, True)"
  using Atoi_Itoa [of ver] by (simp add: parseIfMatch_def versionETag_def) (simp add: quoteETag_def)

lemma match_versionETag: "0 < ver \<Longrightarrow> ver < 2 ^ 63 \<Longrightarrow> resourceIfMatch (Some (versionETag ver)) = (ver, True)"
  using parse_versionETag [of ver] by (simp add: resourceIfMatch_def)

lemma versionETag_nonempty [simp]: "versionETag ver \<noteq> []"
  by (simp add: versionETag_def quoteETag_def)

section \<open>A rehash moves the version\<close>

definition moves_on :: "database \<Rightarrow> database \<Rightarrow> bool" where
  "moves_on db db' \<longleftrightarrow> (\<forall>name row. store_get name db = Inr row \<longrightarrow> (\<exists>row'. store_get name db' = Inr row'
     \<and> row_ID row' = row_ID row \<and> row_Spec row' = row_Spec row \<and> row_DeletedAt row' = row_DeletedAt row
     \<and> (row_SpecHash row' = row_SpecHash row \<or> row_Version row < row_Version row') \<and> row_Version row \<le> row_Version row'))"

lemma moves_on_refl: "moves_on db db"
  by (simp add: moves_on_def)

lemma moves_on_trans: "moves_on a b \<Longrightarrow> moves_on b c \<Longrightarrow> moves_on a c"
  unfolding moves_on_def by (smt (verit))

lemma rehashed_moves_on:
  assumes "rehashed sv name db db'" "store_ok db"
  shows "moves_on db db'"
proof -
  obtain row read hash where found: "rehash_of sv name db = Inr (row, read, hash)"
    and how: "if hash = row_SpecHash row then db' = db
      else (\<exists>newid now r. Upsert newid now (row\<lparr>row_SpecHash := hash\<rparr>) (row_reads_of read) 0
           (table_List (db_ports db) (row_ID row)) db = (Inr r, db'))"
    using assms(1) unfolding rehashed_def by blast
  have row: "store_get name db = Inr row" using rehash_of_row [OF found] by simp
  show ?thesis
  proof (cases "hash = row_SpecHash row")
    case True
    then show ?thesis using how by (simp add: moves_on_refl)
  next
    case False
    then obtain newid now r where "Upsert newid now (row\<lparr>row_SpecHash := hash\<rparr>) (row_reads_of read) 0
        (table_List (db_ports db) (row_ID row)) db = (Inr r, db')"
      using how by auto
    from Upsert_rehash [OF assms(2) row False [symmetric] this] obtain row' where
      "store_get name db' = Inr row'" "row_ID row' = row_ID row" "row_Spec row' = row_Spec row"
      "row_Version row' = row_Version row + 1" "row_DeletedAt row' = row_DeletedAt row"
      by blast
    moreover have "store_get other db' = store_get other db" if "other \<noteq> name" for other
      using rehashed_effect [OF assms] that by blast
    ultimately show ?thesis using row unfolding moves_on_def
      by (metis Inr_inject less_add_one order_refl order_less_imp_le)
  qed
qed

lemma Rehash_moves_on:
  assumes "store_ok (ss_db s)"
  shows "moves_on (ss_db s) (ss_db (final (Rehash sv name) s)) \<and> store_ok (ss_db (final (Rehash sv name) s))"
proof (cases "outcome (Rehash sv name) s")
  case (Inl e)
  then show ?thesis using Rehash_run [of sv name s] assms by (simp add: moves_on_refl)
next
  case (Inr moved)
  then have "rehashed sv name (ss_db s) (ss_db (final (Rehash sv name) s))" using Rehash_run [of sv name s] by simp
  then show ?thesis using rehashed_moves_on rehashed_effect assms by blast
qed

lemma rehash_each_moves_on:
  "store_ok (ss_db s) \<Longrightarrow> moves_on (ss_db s) (ss_db (final (rehash_each sv name reason ws) s))"
proof (induction ws arbitrary: s)
  case (Cons w ws)
  let ?r = "case reason of None \<Rightarrow> ret () | Some r \<Rightarrow> svc_record w r (no_fields\<lparr>f_Name := name\<rparr>)"
  have db: "ss_db (final ?r s) = ss_db s" by (simp add: svc_record_def split: option.split)
  then have "moves_on (ss_db s) (ss_db (final (Rehash sv w) (final ?r s)))" "store_ok (ss_db (final (Rehash sv w) (final ?r s)))"
    using Rehash_moves_on [of "final ?r s"] Cons.prems by simp_all
  then show ?case using Cons.IH moves_on_trans by (simp add: final_bind outcome_bind)
qed (simp add: moves_on_refl)

section \<open>An apply against another version\<close>

lemma Upsert_stale:
  assumes "store_get (row_Name w) db = Inr row" "IsZero (row_DeletedAt row)" "ifMatch \<noteq> 0" "row_Version row \<noteq> ifMatch"
  shows "Upsert newid now w reads ifMatch ports db = (Inl ErrWorkloadChanged, db)"
  using assms by (simp add: Upsert_def write_row_def)

text \<open>What would be applied without a condition is refused as changed under one that names another version.\<close>

lemma Apply_stale:
  assumes "outcome (Apply sv spec 0) s = Inr a" "alone sv" "store_get (spec_Name spec) (ss_db s) = Inr row"
    and "IsZero (row_DeletedAt row)" "ifMatch \<noteq> 0" "row_Version row \<noteq> ifMatch"
  shows "outcome (Apply sv spec ifMatch) s = Inl Svc_ErrWorkloadChanged \<and> ss_db (final (Apply sv spec ifMatch) s) = ss_db s"
proof -
  obtain r where r: "service_resolve sv (ss_db s) spec = Inr r"
    using assms(1) by (auto simp: Apply_def outcome_bind final_bind split: sum.splits)
  then have "\<exists>stored. outcome (store sv r 0) s = Inr stored"
    using assms(1) by (auto simp: Apply_def outcome_bind final_bind split: sum.splits)
  moreover have five: "store_attempts_max = Suc 4" by (simp add: store_attempts_max_def)
  ultimately obtain claims encoded hash where attempt: "attempt_of sv r (ss_writes s) (ss_db s) = Inr (claims, encoded, hash)"
    unfolding store_def five outcome_def run_store_attempts by (auto split: sum.splits)
  have "stores sv r ifMatch (ss_writes s) (sv_others sv (ss_writes s) (ss_db s)) claims encoded hash = (Inl ErrWorkloadChanged, ss_db s)"
    using Upsert_stale [of "store_row r encoded hash" "ss_db s" row ifMatch] assms(2-6) service_resolve_Inr(1) [OF r]
    by (simp add: stores_def store_row_def alone_def)
  then have "run_state (store sv r ifMatch) s = (Inl Svc_ErrWorkloadChanged, s\<lparr>ss_writes := Suc (ss_writes s)\<rparr>)"
    unfolding store_def five run_store_attempts by (simp add: attempt)
  then have "outcome (store sv r ifMatch) s = Inl Svc_ErrWorkloadChanged" "ss_db (final (store sv r ifMatch) s) = ss_db s"
    by (simp_all add: outcome_def final_def)
  then show ?thesis by (simp add: Apply_def outcome_bind final_bind r)
qed

end
