(* ===== verification/Score_Refusal.thy ===== *)
theory Score_Refusal
  imports Score_Delivery Score_Server Rotation_Properties
begin

text \<open>
  A score against the server. A tag is the version of a row; setting a variable rehashes the workloads that
  read it and so moves their versions, after an apply of a score has read its tags.
\<close>

lemma run_on_server:
  "run_state (on_server c m) s = (outcome m (se_world s), \<lparr>se_world = final m (se_world s), se_calls = se_calls s @ [c]\<rparr>)"
  by (simp add: on_server_def outcome_def final_def split: prod.split)

text \<open>A reader whose hash moves under the value that was set has a later version.\<close>

lemma set_moves_reader:
  assumes "variable_Set newid now sv name v labels ifMatch t s = (Inr x, t', s')"
    and "store_ok (ss_db s)" "distinct (map var_Name t)" "w \<in> set (variables_UsedBy name (ss_db s))"
    and "rehash_of (reading_variables sv t') w (ss_db s) = Inr (row, read, hash)" "hash \<noteq> row_SpecHash row"
  shows "\<exists>row'. store_get w (ss_db s') = Inr row' \<and> row_ID row' = row_ID row \<and> row_Spec row' = row_Spec row
    \<and> row_DeletedAt row' = row_DeletedAt row \<and> row_SpecHash row' = hash \<and> row_Version row < row_Version row'"
proof -
  let ?sv = "reading_variables sv t'" and ?ws = "variables_UsedBy name (ss_db s)"
  obtain reason errs where each: "run_state (rehash_each ?sv name reason ?ws) s = (errs, s')" "errs = []"
    using variable_Set_cases [OF assms(1,3)] by (metis Inl_Inr_False)
  let ?m = "rehash_each ?sv name reason ?ws"
  have m: "outcome ?m s = []" "final ?m s = s'" using each by (simp_all add: outcome_def final_def)
  have "distinct ?ws" using linked_distinct [OF assms(2)] by (simp add: variables_UsedBy_def)
  from rehash_each_effect [OF assms(2) this refl, of ?sv name reason, unfolded m]
  have "same_addresses (ss_db s) (ss_db s')" "filter (\<lambda>w. \<not> up_to_date ?sv (ss_db s') w) ?ws = []" by simp_all
  then have addresses: "same_addresses (ss_db s) (ss_db s')" and current: "up_to_date ?sv (ss_db s') w"
    using assms(4) by (simp_all add: filter_empty_conv)
  have row: "store_get w (ss_db s) = Inr row" using rehash_of_row [OF assms(5)] by simp
  then obtain row' where row': "store_get w (ss_db s') = Inr row'" "row_ID row' = row_ID row" "row_Spec row' = row_Spec row"
    "row_DeletedAt row' = row_DeletedAt row" "row_SpecHash row' = row_SpecHash row \<or> row_Version row < row_Version row'"
    using rehash_each_moves_on [OF assms(2), of ?sv name reason ?ws, unfolded m] unfolding moves_on_def by blast
  have "rehash_of ?sv w (ss_db s') = Inr (row', read, hash)"
    by (rule rehash_of_cong [OF addresses row row'(1,3) assms(5)])
  then have "row_SpecHash row' = hash" using current by (simp add: up_to_date_def)
  then show ?thesis using row' assms(6) by auto
qed

text \<open>
  C16. A score that changes a variable cannot apply the workload that reads it. The check reads the tag of the
  workload, the variable is set, which rehashes the workload and moves its version, and the apply of the
  workload is then refused as changed since it was checked, though nobody else wrote: the variable has its
  new value, the workload its old specification. The same apply without a condition would have succeeded.
\<close>

theorem changed_variable_refuses_apply:
  assumes "NewPlan r = Inr \<lparr>pl_Steps = [Node Kind_Variable (mva_Name v), Node Kind_Workload (spec_Name spec)], pl_Requirements = []\<rparr>"
    and "rn_Variables r = [v]" "rn_Workloads r = [spec]" "checkVariableName (mva_Name v)"
    and "variables_Get (mva_Name v) t = Inr old" "0 < var_Version old" "var_Version old < 2 ^ 63"
    and "store_get (spec_Name spec) (ss_db s) = Inr row" "0 < row_Version row" "row_Version row < 2 ^ 63" "IsZero (row_DeletedAt row)"
    and "DecodeWorkload (cd_unmarshal (sv_codec (nc_service nc))) (row_Spec row) = Inr was"
    and "adopt \<or> lookup_str (var_Labels old) LabelName = rn_Name r \<and> lookup_str (spec_Labels was) LabelName = rn_Name r"
    and "variable_Set (nc_id nc n) (nc_now nc n) (nc_service nc) (mva_Name v) (mva_Value v) (mva_Labels v) (var_Version old) t s
      = (Inr x, t', s')"
    and "spec_Name spec \<in> set (variables_UsedBy (mva_Name v) (ss_db s))"
    and "rehash_of (reading_variables (nc_service nc) t') (spec_Name spec) (ss_db s) = Inr (row, read, hash)" "hash \<noteq> row_SpecHash row"
    and "store_ok (ss_db s)" "distinct (map var_Name t)" "alone (nc_service nc)"
    and "outcome (Apply (reading_variables (nc_service nc) t') spec 0) s' = Inr y"
  shows "\<exists>last calls. run_state (score_Apply (node_client nc c) r adopt wait)
        \<lparr>se_world = \<lparr>nw_variables = t, nw_service = s, nw_sets = n\<rparr>, se_calls = []\<rparr>
      = (([Node Kind_Variable (mva_Name v)],
          Some (Apply_Failed (Node Kind_Workload (spec_Name spec)) (Score_Changed (Cl_Changed Kind_Workload)))),
         \<lparr>se_world = \<lparr>nw_variables = t', nw_service = last, nw_sets = Suc n\<rparr>, se_calls = calls\<rparr>)
    \<and> (\<exists>row'. store_get (spec_Name spec) (ss_db last) = Inr row' \<and> row_Spec row' = row_Spec row)"
proof -
  let ?sv = "reading_variables (nc_service nc) t'" and ?c = "node_client nc c"
  obtain row' where row': "store_get (spec_Name spec) (ss_db s') = Inr row'" "row_Spec row' = row_Spec row"
    "IsZero (row_DeletedAt row')" "row_Version row < row_Version row'"
    using set_moves_reader [OF assms(14,18,19,15,16,17)] assms(11) by auto
  have "alone ?sv" using assms(20) by (simp add: alone_def reading_variables_def)
  from Apply_stale [OF assms(21) this row'(1,3), of "row_Version row"] row'(4) assms(9)
  have stale: "outcome (Apply ?sv spec (row_Version row)) s' = Inl Svc_ErrWorkloadChanged"
    "ss_db (final (Apply ?sv spec (row_Version row)) s') = ss_db s'" by simp_all
  let ?V = "Node Kind_Variable (mva_Name v)" and ?W = "Node Kind_Workload (spec_Name spec)"
  let ?s0 = "\<lparr>se_world = \<lparr>nw_variables = t, nw_service = s, nw_sets = n\<rparr>, se_calls = []\<rparr>"
  let ?s1 = "\<lparr>se_world = \<lparr>nw_variables = t, nw_service = s, nw_sets = n\<rparr>, se_calls = [Looked_Up ?V, Looked_Up ?W]\<rparr>"
  let ?tag = "versionETag (var_Version old)" and ?tag' = "versionETag (row_Version row)"
  let ?s2 = "\<lparr>se_world = \<lparr>nw_variables = t', nw_service = s', nw_sets = Suc n\<rparr>, se_calls = [Looked_Up ?V, Looked_Up ?W, Wrote ?V (Some ?tag)]\<rparr>"
  let ?after = "final (Apply ?sv spec (row_Version row)) s'"
  let ?s3 = "\<lparr>se_world = \<lparr>nw_variables = t', nw_service = ?after, nw_sets = Suc n\<rparr>, 
      se_calls = [Looked_Up ?V, Looked_Up ?W, Wrote ?V (Some ?tag), Wrote ?W (Some ?tag')]\<rparr>"
  let ?un = "(if lookup_str (var_Labels old) LabelName \<noteq> rn_Name r then [?V] else [])
    @ (if lookup_str (spec_Labels was) LabelName \<noteq> rn_Name r then [?W] else [])"
  let ?tags = "(\<lambda>n. [])(?V := ?tag, ?W := ?tag')"
  note calls = node_client_def run_on_server run_state_bind outcome_def final_def match_versionETag [OF assms(6,7)] match_versionETag [OF assms(9,10)]
  have "run_state (lookup ?c ?V) ?s0 = (Inr (Some \<lparr>rs_labels = var_Labels old, rs_etag = ?tag\<rparr>),
      \<lparr>se_world = se_world ?s0, se_calls = [Looked_Up ?V]\<rparr>)"
    by (simp add: calls lookup_def lookup_answer_def found_or_not_def node_GetVariable_def assms(4,5))
  moreover have "run_state (lookup ?c ?W) \<lparr>se_world = se_world ?s0, se_calls = [Looked_Up ?V]\<rparr>
      = (Inr (Some \<lparr>rs_labels = spec_Labels was, rs_etag = ?tag'\<rparr>), ?s1)"
    by (simp add: calls lookup_def lookup_answer_def found_or_not_def node_Get_def workload_resource_def assms(8,12))
  ultimately have check: "run_state (score_check ?c r) ?s0 = (Inr (\<lparr>pc_Missing = [], pc_Unowned = ?un\<rparr>, ?tags), ?s1)"
    by (simp add: score_check_def assms(1) run_and_then)
  have set: "run_state (score_apply ?c r ?V ?tag wait) ?s1 = (None, ?s2)"
    by (simp add: calls score_apply_def applicable_def apply_answer_def with_named_def node_SetVariable_def variable_status_def
        Let_def assms(2,4,6,7,14))
  have put: "run_state (score_apply ?c r ?W ?tag' wait) ?s2 = (Some (Score_Changed (Cl_Changed Kind_Workload)), ?s3)"
    using stale(1)
    by (simp add: calls score_apply_def applicable_def apply_answer_def with_named_def node_Apply_def workload_status_def
        Let_def assms(3,9,10) split_beta)
  have "run_state (score_Apply ?c r adopt wait) ?s0 = (([?V], Some (Apply_Failed ?W (Score_Changed (Cl_Changed Kind_Workload)))), ?s3)"
    using assms(13) by (auto simp: score_Apply_def assms(1) run_state_bind check set put)
  then show ?thesis using stale(2) row'(1,2)
    by (intro exI [of _ ?after] exI [of _ "se_calls ?s3"] conjI exI [of _ row']) simp_all
qed

text \<open>A workload applied when the variable was old, and the same score with a new value of it.\<close>

definition example_shop_spec :: Spec where
  "example_shop_spec = example_web\<lparr>spec_Labels := [(''score'', ''shop'')], spec_Env := [(''CONF'', ''${var:conf}'')], spec_Volumes := []\<rparr>"

definition example_shop_service :: service where
  "example_shop_service = example_service\<lparr>sv_codec := example_codec\<lparr>
     cd_unmarshal := (\<lambda>t. if t = ''web'' then Inr example_shop_spec else Inl (ErrMsg ''not a specification'')),
     cd_hashedSpec := (\<lambda>e secrets variables addresses digest. e @ concat (map snd variables))\<rparr>\<rparr>"

definition example_node :: node_config where
  "example_node = \<lparr>nc_service = example_shop_service, nc_id = (\<lambda>n. ''v''), nc_now = (\<lambda>n. 7)\<rparr>"

text \<open>The operations that are not the node's own: there is nothing else on the server.\<close>

definition example_rest :: "node_world client" where
  "example_rest = \<lparr>cl_ApplyVolume = (\<lambda>v t. ret None), cl_GetVolume = (\<lambda>n. ret (Inl (Cl_NotFound Kind_Volume))),
     cl_ListVolumes = (\<lambda>q. ret (Inr [])), cl_DeleteVolume = (\<lambda>n. ret None), cl_SetVariable = (\<lambda>v t. ret None),
     cl_GetVariable = (\<lambda>n. ret (Inl (Cl_NotFound Kind_Variable))), cl_ListVariables = (\<lambda>q. ret (Inr [])),
     cl_DeleteVariable = (\<lambda>n. ret None), cl_Apply = (\<lambda>w t b. ret None), cl_Get = (\<lambda>n. ret (Inl (Cl_NotFound Kind_Workload))),
     cl_List = (\<lambda>q. ret (Inr [])), cl_Delete = (\<lambda>n b. ret None), cl_ApplyService = (\<lambda>v t. ret None),
     cl_GetService = (\<lambda>n. ret (Inl (Cl_NotFound Kind_Service))), cl_ListServices = (\<lambda>q. ret (Inr [])),
     cl_DeleteService = (\<lambda>n. ret None), cl_GetSecret = (\<lambda>n. ret (Inl (Cl_NotFound Kind_Secret)))\<rparr>"

definition example_stored_variable :: Variable where
  "example_stored_variable = \<lparr>var_ID = ''1'', var_Name = ''conf'', var_Value = ''old'', var_Labels = [(''score'', ''shop'')],
     var_Version = 1, var_CreatedAt = 1, var_UpdatedAt = 1\<rparr>"

definition example_shop_state :: service_state where
  "example_shop_state = final (Apply (reading_variables example_shop_service [example_stored_variable]) example_shop_spec 0) example_state"

definition example_shop_row :: database_Workload where
  "example_shop_row = projr (store_get ''web'' (ss_db example_shop_state))"

definition example_shop :: Rendered where
  "example_shop = \<lparr>rn_Name = ''shop'', rn_Release = ''2'', rn_Package = ''shop'', rn_Volumes = [],
     rn_Workloads = [example_shop_spec], rn_Services = [],
     rn_Variables = [\<lparr>mva_Name = ''conf'', mva_Value = ''new'', mva_Labels = [(''score'', ''shop'')]\<rparr>],
     rn_Required = [], rn_Secrets = [], rn_Documents = []\<rparr>"

definition example_shop_set :: "(value_error + Variable \<times> string list \<times> bool) \<times> Variable list \<times> service_state" where
  "example_shop_set = variable_Set ''v'' 7 example_shop_service ''conf'' ''new'' [(''score'', ''shop'')] 1 [example_stored_variable] example_shop_state"

lemma example_shop_plan:
  "NewPlan example_shop = Inr \<lparr>pl_Steps = [Node Kind_Variable ''conf'', Node Kind_Workload ''web''], pl_Requirements = []\<rparr>"
  by code_simp

lemma example_shop_stored:
  "store_get ''web'' (ss_db example_shop_state) = Inr example_shop_row" "row_Version example_shop_row = 1"
  "row_DeletedAt example_shop_row = 0" "row_Spec example_shop_row = ''web''"
  "''web'' \<in> set (variables_UsedBy ''conf'' (ss_db example_shop_state))"
  by code_simp+

definition example_shop_rehash :: "service_error + database_Workload \<times> references \<times> string" where
  "example_shop_rehash = rehash_of (reading_variables example_shop_service (fst (snd example_shop_set))) ''web'' (ss_db example_shop_state)"

text \<open>The set succeeds, the workload could be applied after it, and the value moves its hash.\<close>

lemma example_shop_runs: "case example_shop_set of (answer, t, s) \<Rightarrow> \<not> isl answer
    \<and> \<not> isl (outcome (Apply (reading_variables example_shop_service t) example_shop_spec 0) s)
    \<and> (case rehash_of (reading_variables example_shop_service t) ''web'' (ss_db example_shop_state) of
          Inl e \<Rightarrow> False | Inr (row, read, hash) \<Rightarrow> hash \<noteq> row_SpecHash row)"
  by code_simp

lemma example_shop_answers:
  "\<not> isl (fst example_shop_set)"
  "\<not> isl (outcome (Apply (reading_variables example_shop_service (fst (snd example_shop_set))) example_shop_spec 0) (snd (snd example_shop_set)))"
  using example_shop_runs by (simp_all add: split_beta)

lemmas example_shop_evals = example_shop_stored example_shop_answers

lemma example_shop_moves: "(case example_shop_rehash of Inl e \<Rightarrow> False | Inr (row, read, hash) \<Rightarrow> hash \<noteq> row_SpecHash row)"
  using example_shop_runs by (simp add: example_shop_rehash_def split_beta)

lemma example_shop_ok: "store_ok (ss_db example_shop_state)" "alone example_shop_service"
proof -
  show alone: "alone example_shop_service" by (simp add: alone_def example_shop_service_def example_service_def)
  have "store_ok (ss_db example_state)" by (simp add: example_state_def store_ok_empty)
  moreover have "keeps_ok example_state example_shop_state"
    unfolding example_shop_state_def
    by (rule service_step_consistent [OF request_apply]) (use alone in \<open>simp add: alone_def others_ok_def reading_variables_def\<close>)
  ultimately show "store_ok (ss_db example_shop_state)" by (simp add: keeps_ok_def)
qed

theorem changed_variable_refuses_apply_witness:
  "\<exists>last calls. run_state (score_Apply (node_client example_node example_rest) example_shop False False)
      \<lparr>se_world = \<lparr>nw_variables = [example_stored_variable], nw_service = example_shop_state, nw_sets = 0\<rparr>, se_calls = []\<rparr>
    = (([Node Kind_Variable ''conf''],
        Some (Apply_Failed (Node Kind_Workload ''web'') (Score_Changed (Cl_Changed Kind_Workload)))),
       \<lparr>se_world = \<lparr>nw_variables = fst (snd example_shop_set), nw_service = last, nw_sets = Suc 0\<rparr>, se_calls = calls\<rparr>)"
proof -
  let ?v = "\<lparr>mva_Name = ''conf'', mva_Value = ''new'', mva_Labels = [(''score'', ''shop'')]\<rparr>"
  obtain x where x: "example_shop_set = (Inr x, fst (snd example_shop_set), snd (snd example_shop_set))"
    using example_shop_evals(6) by (metis isl_def prod.collapse sum.exhaust)
  obtain y where y: "outcome (Apply (reading_variables example_shop_service (fst (snd example_shop_set))) example_shop_spec 0)
      (snd (snd example_shop_set)) = Inr y"
    using example_shop_evals(7) by (metis isl_def sum.exhaust)
  obtain row read hash where found: "example_shop_rehash = Inr (row, read, hash)" "hash \<noteq> row_SpecHash row"
    using example_shop_moves by (auto split: sum.splits)
  moreover from this(1) have "row = example_shop_row"
    using rehash_of_row example_shop_evals(1) unfolding example_shop_rehash_def by (metis Inr_inject)
  ultimately have moved: "rehash_of (reading_variables example_shop_service (fst (snd example_shop_set))) ''web'' (ss_db example_shop_state)
      = Inr (example_shop_row, read, hash)" "hash \<noteq> row_SpecHash example_shop_row"
    by (simp_all add: example_shop_rehash_def)
  have names: "spec_Name example_shop_spec = ''web''" by code_simp
  have old: "variables_Get ''conf'' [example_stored_variable] = Inr example_stored_variable" "var_Version example_stored_variable = 1"
    "distinct (map var_Name [example_stored_variable])" by code_simp+
  have score: "rn_Variables example_shop = [?v]" "rn_Workloads example_shop = [example_shop_spec]" by (simp_all add: example_shop_def)
  have node: "nc_service example_node = example_shop_service" "nc_id example_node n = ''v''" "nc_now example_node n = 7" for n
    by (simp_all add: example_node_def)
  have decoded: "DecodeWorkload (cd_unmarshal (sv_codec example_shop_service)) ''web'' = Inr (Defaults example_shop_spec)"
    by (simp add: DecodeWorkload_def example_shop_service_def)
  have labels: "lookup_str (var_Labels example_stored_variable) LabelName = rn_Name example_shop"
    "lookup_str (spec_Labels (Defaults example_shop_spec)) LabelName = rn_Name example_shop"
    "checkVariableName ''conf''" by code_simp+
  note facts = names old score node decoded labels y
    moved example_shop_ok example_shop_evals
  have "\<exists>last calls. run_state (score_Apply (node_client example_node example_rest) example_shop False False)
        \<lparr>se_world = \<lparr>nw_variables = [example_stored_variable], nw_service = example_shop_state, nw_sets = 0\<rparr>, se_calls = []\<rparr>
      = (([Node Kind_Variable (mva_Name ?v)],
          Some (Apply_Failed (Node Kind_Workload (spec_Name example_shop_spec)) (Score_Changed (Cl_Changed Kind_Workload)))),
         \<lparr>se_world = \<lparr>nw_variables = fst (snd example_shop_set), nw_service = last, nw_sets = Suc 0\<rparr>, se_calls = calls\<rparr>)
    \<and> (\<exists>row'. store_get (spec_Name example_shop_spec) (ss_db last) = Inr row' \<and> row_Spec row' = row_Spec example_shop_row)"
  proof (rule changed_variable_refuses_apply [where v = ?v and spec = example_shop_spec and nc = example_node and n = 0
      and old = example_stored_variable and row = example_shop_row and was = "Defaults example_shop_spec"
      and s' = "snd (snd example_shop_set)" and x = x and y = y and read = read and hash = hash])
    show "NewPlan example_shop = Inr \<lparr>pl_Steps = [Node Kind_Variable (mva_Name ?v), Node Kind_Workload (spec_Name example_shop_spec)],
        pl_Requirements = []\<rparr>" using example_shop_plan by (simp add: names)
    show "variable_Set (nc_id example_node 0) (nc_now example_node 0) (nc_service example_node) (mva_Name ?v) (mva_Value ?v)
        (mva_Labels ?v) (var_Version example_stored_variable) [example_stored_variable] example_shop_state
      = (Inr x, fst (snd example_shop_set), snd (snd example_shop_set))"
      using x by (simp add: node old(2) example_shop_set_def)
  qed (simp_all only: facts manifest_Variable.simps, simp_all add: facts)
  then show ?thesis by (auto simp: names)
qed

end
