(* ===== verification/Score_Render.thy ===== *)
theory Score_Render
  imports Score_Apply
begin

text \<open>
  The score file and its rendering (\<open>pkg/score/score.go\<close>, \<open>values.go\<close>, \<open>render.go\<close>, \<open>summary.go\<close>). Reading a
  file, executing a template, and decoding YAML are parameters; what is made of their answers is modelled:
  the rules of a score, the merging of values, the split of a file into documents, the labels each manifest
  is stamped with, and the names a score may not repeat.
\<close>

section \<open>The score file\<close>

record score_Variable =
  scv_Name :: string
  scv_File :: string
  scv_Value :: string

record score_Secret =
  scs_Name :: string

record Score =
  sc_Version :: string
  sc_Name :: string
  sc_Release :: string
  sc_Volumes :: "string list"
  sc_Workloads :: "string list"
  sc_Services :: "string list"
  sc_Variables :: "score_Variable list"
  sc_Secrets :: "score_Secret list"
  sc_Directory :: string

definition Owned :: "score_Variable \<Rightarrow> bool" where
  "Owned v \<longleftrightarrow> scv_File v \<noteq> [] \<or> scv_Value v \<noteq> []"

definition validatePath :: "string \<Rightarrow> goerr option" where
  "validatePath path =
     (if path = [] then Some (ErrMsg ''path is required'')
      else if IsAbs path then Some (ErrMsg ''path %q must be relative to the score'')
      else if Clean path = ''..'' \<or> HasPrefix (Clean path) ''../''
        then Some (ErrMsg ''path %q must stay inside the score's directory'')
      else None)"

definition validatePaths :: "Score \<Rightarrow> goerr option" where
  "validatePaths score = first_err
     (map (\<lambda>p. wrapped ''invalid score: volume'' (validatePath p)) (sc_Volumes score)
      @ map (\<lambda>p. wrapped ''invalid score: workload'' (validatePath p)) (sc_Workloads score)
      @ map (\<lambda>p. wrapped ''invalid score: service'' (validatePath p)) (sc_Services score)
      @ map (\<lambda>v. wrapped ''invalid score: variable %s'' (validatePath (scv_File v)))
          (filter (\<lambda>v. scv_File v \<noteq> []) (sc_Variables score)))"

fun validateVariables :: "score_Variable list \<Rightarrow> string list \<Rightarrow> goerr option" where
  "validateVariables [] seen = None"
| "validateVariables (v # vs) seen =
     (case ValidateName (scv_Name v) of
        Some e \<Rightarrow> Some (Wrapf ''invalid score: variable'' [e])
      | None \<Rightarrow>
          if scv_File v \<noteq> [] \<and> scv_Value v \<noteq> [] then Some (ErrMsg ''invalid score: variable %s names both a file and a value'')
          else if scv_Name v \<in> set seen then Some (ErrMsg ''invalid score: variable %s is listed twice'')
          else validateVariables vs (scv_Name v # seen))"

fun validateSecrets :: "score_Secret list \<Rightarrow> string list \<Rightarrow> goerr option" where
  "validateSecrets [] seen = None"
| "validateSecrets (v # vs) seen =
     (case ValidateName (scs_Name v) of
        Some e \<Rightarrow> Some (Wrapf ''invalid score: secret'' [e])
      | None \<Rightarrow>
          if scs_Name v \<in> set seen then Some (ErrMsg ''invalid score: secret %s is listed twice'')
          else validateSecrets vs (scs_Name v # seen))"

definition ValidateScore :: "Score \<Rightarrow> goerr option" where
  "ValidateScore score = first_err
     [refuse (sc_Version score = []) ''invalid score: version is required'',
      refuse (sc_Version score \<noteq> version) ''invalid score: version must be %q'',
      wrapped ''invalid score'' (ValidateName (sc_Name score)),
      refuse (sc_Release score = []) ''invalid score: release is required'',
      wrapped ''invalid score: release %q is not usable as a label'' (ValidateLabels [(LabelRelease, sc_Release score)]),
      validatePaths score,
      validateVariables (sc_Variables score) [],
      validateSecrets (sc_Secrets score) []]"

text \<open>A score that was decoded, or the error of decoding it.\<close>

definition ParseScore :: "goerr + Score \<Rightarrow> goerr + Score" where
  "ParseScore decoded = (case decoded of
       Inl e \<Rightarrow> Inl (Wrapf ''failed to parse score'' [e])
     | Inr score \<Rightarrow> (case ValidateScore score of Some e \<Rightarrow> Inl e | None \<Rightarrow> Inr score))"

section \<open>Values\<close>

text \<open>A value is a mapping or anything else, which a merge replaces whole.\<close>

datatype any = Mapping "(string \<times> any) list" | Other_Value string

fun merge_values :: "(string \<times> any) list \<Rightarrow> (string \<times> any) list \<Rightarrow> (string \<times> any) list" where
  "merge_values v [] = v"
| "merge_values v ((key, Other_Value x) # other) = merge_values (AList.update key (Other_Value x) v) other"
| "merge_values v ((key, Mapping theirs) # other) =
     merge_values (AList.update key (case map_of v key of
         Some (Mapping ours) \<Rightarrow> Mapping (merge_values ours theirs)
       | _ \<Rightarrow> Mapping theirs) v) other"

text \<open>The values of a score: its defaults, when there are any, under each file in order.\<close>

fun merge_files :: "(string \<Rightarrow> goerr + (string \<times> any) list) \<Rightarrow> string list \<Rightarrow> (string \<times> any) list \<Rightarrow> goerr + (string \<times> any) list" where
  "merge_files readValues [] values = Inr values"
| "merge_files readValues (f # fs) values = (case readValues f of
       Inl e \<Rightarrow> Inl e | Inr overrides \<Rightarrow> merge_files readValues fs (merge_values values overrides))"

definition score_Values :: "(string \<Rightarrow> goerr + (string \<times> any) list) \<Rightarrow> goerr + (string \<times> any) list option \<Rightarrow> Score \<Rightarrow> string list
    \<Rightarrow> goerr + (string \<times> any) list" where
  "score_Values readValues defaults score files =
     (if sc_Directory score = [] then merge_files readValues files []
      else case defaults of
        Inl e \<Rightarrow> Inl e
      | Inr None \<Rightarrow> merge_files readValues files []
      | Inr (Some found) \<Rightarrow> merge_files readValues files (merge_values [] found))"

section \<open>Documents\<close>

fun split_lines :: "string \<Rightarrow> string list" where
  "split_lines [] = [[]]"
| "split_lines (c # cs) =
     (if c = CHR 0x0A then [] # split_lines cs
      else (case split_lines cs of [] \<Rightarrow> [[c]] | l # ls \<Rightarrow> (c # l) # ls))"

definition TrimRight :: "string \<Rightarrow> string" where
  "TrimRight s = rev (dropWhile (\<lambda>c. c \<in> {CHR '' '', CHR 0x09, CHR 0x0D}) (rev s))"

definition join_lines :: "string list \<Rightarrow> string" where
  "join_lines lines =
     (let document = join_with [CHR 0x0A] lines
      in if document \<noteq> [] \<and> last document \<noteq> CHR 0x0A then document @ [CHR 0x0A] else document)"

fun split_from :: "string list \<Rightarrow> string list \<Rightarrow> string list" where
  "split_from [] lines = [join_lines lines]"
| "split_from (l # ls) lines =
     (if TrimRight l = ''---'' then join_lines lines # split_from ls []
      else split_from ls (lines @ [l]))"

definition split_documents :: "string \<Rightarrow> string list" where
  "split_documents text = split_from (split_lines text) []"

section \<open>Rendering\<close>

text \<open>Reading a file of the host, executing a template by its name and text, and what YAML makes of a document.\<close>

record renderer =
  re_read :: "string \<Rightarrow> goerr + string"
  re_execute :: "string \<Rightarrow> string \<Rightarrow> goerr + string"
  re_isEmpty :: "string \<Rightarrow> goerr + bool"
  re_volume :: "string \<Rightarrow> goerr + manifest_Volume"
  re_workload :: "string \<Rightarrow> goerr + Spec"
  re_service :: "string \<Rightarrow> goerr + manifest_Service"
  re_parsers :: parsers

datatype render_error =
    Invalid_Install_Name goerr
  | Read_Failed string goerr
  | Render_Failed string goerr
  | ErrInvalidDocument string goerr
  | ErrDuplicateName string string string
  | ErrReservedLabel string

text \<open>\<open>filepath.Join\<close> of two elements, an empty one of which is left out; a score is read from its directory.\<close>

definition join_paths :: "string \<Rightarrow> string \<Rightarrow> string" where
  "join_paths dir path =
     (if dir \<noteq> [] then Clean (dir @ ''/'' @ path) else if path \<noteq> [] then Clean path else [])"

definition read_from :: "renderer \<Rightarrow> Score \<Rightarrow> renderer" where
  "read_from env score = env\<lparr>re_read := (\<lambda>path. re_read env (join_paths (sc_Directory score) path))\<rparr>"

definition ParseWorkload :: "parsers \<Rightarrow> goerr + Spec \<Rightarrow> goerr + Spec" where
  "ParseWorkload ps decoded = (case decoded of
       Inl e \<Rightarrow> Inl (Wrapf ''failed to parse manifest'' [e])
     | Inr spec \<Rightarrow> (case ValidateWorkload ps (Defaults spec) of Some e \<Rightarrow> Inl e | None \<Rightarrow> Inr (Defaults spec)))"

definition score_labels :: "string \<Rightarrow> string \<Rightarrow> string_map" where
  "score_labels name release = [(LabelName, name), (LabelRelease, release)]"

definition render_label :: "string_map \<Rightarrow> string_map \<Rightarrow> string_map option" where
  "render_label owned labels =
     (if list_ex (\<lambda>key. map_of labels key \<noteq> None) (map fst owned) then None else Some (labels @ owned))"

definition render_file :: "renderer \<Rightarrow> string \<Rightarrow> render_error + Document list" where
  "render_file env path = (case re_read env path of
       Inl e \<Rightarrow> Inl (Read_Failed path e)
     | Inr text \<Rightarrow> (case re_execute env path text of
           Inl e \<Rightarrow> Inl (Render_Failed path e)
         | Inr output \<Rightarrow> Inr (map (\<lambda>t. \<lparr>doc_Source = path, doc_Text = t, doc_Skipped = False\<rparr>) (split_documents output))))"

text \<open>One kind of manifest: how a document parses, and where its name and labels are.\<close>

record 'r manifest_kind =
  mk_parse :: "string \<Rightarrow> goerr + 'r"
  mk_name :: "'r \<Rightarrow> string"
  mk_labels :: "'r \<Rightarrow> string_map"
  mk_label :: "string_map \<Rightarrow> 'r \<Rightarrow> 'r"

text \<open>What one kind has produced so far: the documents, the names with their files, and the manifests.\<close>

record 'r produced =
  pr_documents :: "Document list"
  pr_names :: string_map
  pr_manifests :: "'r list"

fun each_document :: "renderer \<Rightarrow> string_map \<Rightarrow> 'r manifest_kind \<Rightarrow> string \<Rightarrow> Document list \<Rightarrow> 'r produced
    \<Rightarrow> 'r produced \<times> render_error option" where
  "each_document env owned kind path [] p = (p, None)"
| "each_document env owned kind path (d # ds) p = (case re_isEmpty env (doc_Text d) of
       Inl e \<Rightarrow> (p\<lparr>pr_documents := pr_documents p @ [d]\<rparr>, Some (ErrInvalidDocument path e))
     | Inr blank \<Rightarrow>
         (let p1 = p\<lparr>pr_documents := pr_documents p @ [d\<lparr>doc_Skipped := blank\<rparr>]\<rparr>
          in if blank then each_document env owned kind path ds p1
             else case mk_parse kind (doc_Text d) of
               Inl e \<Rightarrow> (p1, Some (ErrInvalidDocument path e))
             | Inr r \<Rightarrow>
                 (case map_of (pr_names p1) (mk_name kind r) of
                    Some previous \<Rightarrow> (p1, Some (ErrDuplicateName previous path (mk_name kind r)))
                  | None \<Rightarrow>
                      (let p2 = p1\<lparr>pr_names := (mk_name kind r, path) # pr_names p1\<rparr>
                       in case render_label owned (mk_labels kind r) of
                         None \<Rightarrow> (p2, Some (ErrReservedLabel path))
                       | Some labels \<Rightarrow> each_document env owned kind path ds
                           (p2\<lparr>pr_manifests := pr_manifests p2 @ [mk_label kind labels r]\<rparr>)))))"

fun render_each :: "renderer \<Rightarrow> string_map \<Rightarrow> 'r manifest_kind \<Rightarrow> string list \<Rightarrow> 'r produced \<Rightarrow> 'r produced \<times> render_error option" where
  "render_each env owned kind [] p = (p, None)"
| "render_each env owned kind (path # paths) p = (case render_file env path of
       Inl e \<Rightarrow> (p, Some e)
     | Inr documents \<Rightarrow> (case each_document env owned kind path documents p of
           (p', Some e) \<Rightarrow> (p', Some e)
         | (p', None) \<Rightarrow> render_each env owned kind paths p'))"

definition start_kind :: "Document list \<Rightarrow> 'r produced" where
  "start_kind documents = \<lparr>pr_documents = documents, pr_names = [], pr_manifests = []\<rparr>"

definition volume_kind :: "renderer \<Rightarrow> manifest_Volume manifest_kind" where
  "volume_kind env = \<lparr>mk_parse = (\<lambda>t. ParseVolume (re_volume env t)), mk_name = vom_Name, mk_labels = vom_Labels,
     mk_label = (\<lambda>l v. v\<lparr>vom_Labels := l\<rparr>)\<rparr>"

definition workload_kind :: "renderer \<Rightarrow> Spec manifest_kind" where
  "workload_kind env = \<lparr>mk_parse = (\<lambda>t. ParseWorkload (re_parsers env) (re_workload env t)), mk_name = spec_Name,
     mk_labels = spec_Labels, mk_label = (\<lambda>l w. w\<lparr>spec_Labels := l\<rparr>)\<rparr>"

definition service_kind :: "renderer \<Rightarrow> manifest_Service manifest_kind" where
  "service_kind env = \<lparr>mk_parse = (\<lambda>t. ParseService (re_service env t)), mk_name = svm_Name, mk_labels = svm_Labels,
     mk_label = (\<lambda>l v. v\<lparr>svm_Labels := l\<rparr>)\<rparr>"

definition render_value :: "renderer \<Rightarrow> score_Variable \<Rightarrow> render_error + string" where
  "render_value env v =
     (if scv_File v = [] then (case re_execute env (''variable '' @ scv_Name v) (scv_Value v) of
         Inl e \<Rightarrow> Inl (Render_Failed (''variable '' @ scv_Name v) e) | Inr out \<Rightarrow> Inr out)
      else case re_read env (scv_File v) of
        Inl e \<Rightarrow> Inl (Read_Failed (scv_File v) e)
      | Inr text \<Rightarrow> (case re_execute env (scv_File v) text of
            Inl e \<Rightarrow> Inl (Render_Failed (scv_File v) e) | Inr out \<Rightarrow> Inr out))"

fun render_variables :: "renderer \<Rightarrow> string_map \<Rightarrow> score_Variable list \<Rightarrow> Rendered \<Rightarrow> Rendered \<times> render_error option" where
  "render_variables env owned [] r = (r, None)"
| "render_variables env owned (v # vs) r =
     (if \<not> Owned v then render_variables env owned vs (r\<lparr>rn_Required := rn_Required r @ [scv_Name v]\<rparr>)
      else case render_value env v of
        Inl e \<Rightarrow> (r, Some e)
      | Inr out \<Rightarrow> render_variables env owned vs (r\<lparr>rn_Variables := rn_Variables r
          @ [\<lparr>mva_Name = scv_Name v, mva_Value = out, mva_Labels = owned\<rparr>]\<rparr>))"

definition empty_rendered :: Rendered where
  "empty_rendered = \<lparr>rn_Name = [], rn_Release = [], rn_Package = [], rn_Volumes = [], rn_Workloads = [], rn_Services = [],
     rn_Variables = [], rn_Required = [], rn_Secrets = [], rn_Documents = []\<rparr>"

definition Render :: "renderer \<Rightarrow> Score \<Rightarrow> string \<Rightarrow> Rendered \<times> render_error option" where
  "Render host score name = (case ValidateName name of
       Some e \<Rightarrow> (empty_rendered, Some (Invalid_Install_Name e))
     | None \<Rightarrow>
         (let env = read_from host score;
              owned = score_labels name (sc_Release score);
              r0 = empty_rendered\<lparr>rn_Name := name, rn_Release := sc_Release score, rn_Package := sc_Name score,
                     rn_Secrets := map scs_Name (sc_Secrets score)\<rparr>
          in case render_each env owned (volume_kind env) (sc_Volumes score) (start_kind []) of (volumes, failed1) \<Rightarrow>
             (let r1 = r0\<lparr>rn_Volumes := pr_manifests volumes, rn_Documents := pr_documents volumes\<rparr>
              in if failed1 \<noteq> None then (r1, failed1)
                 else case render_each env owned (workload_kind env) (sc_Workloads score) (start_kind (pr_documents volumes)) of
                   (workloads, failed2) \<Rightarrow>
                     (let r2 = r1\<lparr>rn_Workloads := pr_manifests workloads, rn_Documents := pr_documents workloads\<rparr>
                      in if failed2 \<noteq> None then (r2, failed2)
                         else case render_each env owned (service_kind env) (sc_Services score) (start_kind (pr_documents workloads)) of
                           (services, failed3) \<Rightarrow>
                             (let r3 = r2\<lparr>rn_Services := pr_manifests services, rn_Documents := pr_documents services\<rparr>
                              in if failed3 \<noteq> None then (r3, failed3)
                                 else render_variables env owned (sc_Variables score) r3)))))"

definition rendered_Labels :: "Rendered \<Rightarrow> string_map" where
  "rendered_Labels r = score_labels (rn_Name r) (rn_Release r)"

text \<open>A build: the score that was loaded, with its merged values as the data of the renderer, rendered and planned.\<close>

datatype build_error = Build_Load goerr | Build_Values goerr | Build_Render render_error | Build_Plan plan_error

definition Build :: "goerr + Score \<Rightarrow> (Score \<Rightarrow> goerr + (string \<times> any) list) \<Rightarrow> ((string \<times> any) list \<Rightarrow> renderer)
    \<Rightarrow> string option \<Rightarrow> Rendered \<times> build_error option" where
  "Build loaded values env name = (case loaded of
       Inl e \<Rightarrow> (empty_rendered, Some (Build_Load e))
     | Inr score \<Rightarrow> (case values score of
           Inl e \<Rightarrow> (empty_rendered, Some (Build_Values e))
         | Inr merged \<Rightarrow> (case Render (env merged) score (case name of None \<Rightarrow> sc_Name score | Some n \<Rightarrow> n) of
               (rendered, Some e) \<Rightarrow> (rendered, Some (Build_Render e))
             | (rendered, None) \<Rightarrow> (case NewPlan rendered of
                   Inl e \<Rightarrow> (rendered, Some (Build_Plan e)) | Inr plan \<Rightarrow> (rendered, None)))))"

section \<open>Summaries\<close>

definition Principals :: "Spec list \<Rightarrow> string list" where
  "Principals workloads = sort (fold (\<lambda>w acc. fold (\<lambda>n acc. if n \<in> set acc then acc else acc @ [n])
     (Names (case References w of Inl e \<Rightarrow> [] | Inr rs \<Rightarrow> rs) KindToken) acc) workloads [])"

record Summary =
  sm_Name :: string
  sm_Package :: string
  sm_Release :: string
  sm_Volumes :: "string list"
  sm_Workloads :: "string list"
  sm_Services :: "string list"
  sm_Variables :: "string list"
  sm_Required :: "string list"
  sm_Secrets :: "string list"
  sm_Principals :: "string list"

definition Summarise :: "Rendered \<Rightarrow> Summary" where
  "Summarise r = \<lparr>sm_Name = rn_Name r, sm_Package = rn_Package r, sm_Release = rn_Release r,
     sm_Volumes = map vom_Name (rn_Volumes r), sm_Workloads = map spec_Name (rn_Workloads r),
     sm_Services = map svm_Name (rn_Services r), sm_Variables = map mva_Name (rn_Variables r),
     sm_Required = rn_Required r, sm_Secrets = rn_Secrets r, sm_Principals = Principals (rn_Workloads r)\<rparr>"

end
