(* ===== verification/Score_Rendering.thy ===== *)
theory Score_Rendering
  imports Score_Render Score_Order Workload_Apply
begin

text \<open>
  What a score that renders satisfies: its files are inside its directory, its values are those of the last
  file that names them, its manifests passed their own validation and carry the score's labels, and no kind
  repeats a name.
\<close>

section \<open>Rendered manifests\<close>

definition kind_ok :: "'r manifest_kind \<Rightarrow> bool" where
  "kind_ok kind \<longleftrightarrow> (\<forall>l r. mk_name kind (mk_label kind l r) = mk_name kind r)"

text \<open>A manifest that parsed without the labels of the score and was then stamped with them.\<close>

definition stamped :: "string_map \<Rightarrow> 'r manifest_kind \<Rightarrow> 'r \<Rightarrow> bool" where
  "stamped owned kind r \<longleftrightarrow> (\<exists>text r0. mk_parse kind text = Inr r0 \<and> r = mk_label kind (mk_labels kind r0 @ owned) r0
     \<and> fst ` set owned \<inter> fst ` set (mk_labels kind r0) = {})"

definition produced_ok :: "string_map \<Rightarrow> 'r manifest_kind \<Rightarrow> 'r produced \<Rightarrow> bool" where
  "produced_ok owned kind p \<longleftrightarrow> distinct (map (mk_name kind) (pr_manifests p))
     \<and> mk_name kind ` set (pr_manifests p) \<subseteq> fst ` set (pr_names p) \<and> (\<forall>r\<in>set (pr_manifests p). stamped owned kind r)"

lemma render_label_Some:
  "render_label owned labels = Some l \<longleftrightarrow> l = labels @ owned \<and> fst ` set owned \<inter> fst ` set labels = {}"
  by (auto simp: render_label_def list_ex_iff map_of_eq_None_iff image_iff)

lemma each_document_ok:
  assumes "kind_ok kind" "produced_ok owned kind p"
  shows "produced_ok owned kind (fst (each_document env owned kind path ds p))"
  using assms(2)
proof (induction ds arbitrary: p)
  case (Cons d ds)
  have more: "produced_ok owned kind (p\<lparr>pr_documents := x, pr_names := (mk_name kind r, path) # pr_names p,
      pr_manifests := pr_manifests p @ [mk_label kind l r]\<rparr>)"
    if "map_of (pr_names p) (mk_name kind r) = None" "mk_parse kind t = Inr r" "render_label owned (mk_labels kind r) = Some l" for x r l t
  proof -
    have "stamped owned kind (mk_label kind l r)" using that(2,3) unfolding stamped_def render_label_Some by blast
    moreover have "mk_name kind (mk_label kind l r) = mk_name kind r" using assms(1) by (simp add: kind_ok_def)
    ultimately show ?thesis using Cons.prems that(1) by (auto simp: produced_ok_def map_of_eq_None_iff)
  qed
  have same: "produced_ok owned kind (p\<lparr>pr_documents := x\<rparr>)" "produced_ok owned kind (p\<lparr>pr_documents := x, pr_names := y # pr_names p\<rparr>)" for x y
    using Cons.prems by (auto simp: produced_ok_def)
  show ?case
    using Cons.IH same more by (auto simp: Let_def split: sum.split option.split)
qed simp

lemma render_each_ok:
  assumes "kind_ok kind" "produced_ok owned kind p"
  shows "produced_ok owned kind (fst (render_each env owned kind paths p))"
  using assms(2)
proof (induction paths arbitrary: p)
  case (Cons path paths)
  then show ?case
    using each_document_ok [OF assms(1) Cons.prems, of env path]
    by (auto split: sum.split prod.split option.split) (metis fst_conv)+
qed simp

lemma kinds_ok: "kind_ok (volume_kind env)" "kind_ok (workload_kind env)" "kind_ok (service_kind env)"
  by (simp_all add: kind_ok_def volume_kind_def workload_kind_def service_kind_def)

lemma kinds_from [simp]: "volume_kind (read_from env score) = volume_kind env" "workload_kind (read_from env score) = workload_kind env"
  "service_kind (read_from env score) = service_kind env"
  by (simp_all add: volume_kind_def workload_kind_def service_kind_def read_from_def)

lemma start_kind_ok: "produced_ok owned kind (start_kind documents)"
  by (simp add: produced_ok_def start_kind_def)

lemma render_variables_ok:
  assumes "render_variables env owned vs r = (r', None)"
  shows "rn_Required r' = rn_Required r @ map scv_Name (filter (\<lambda>v. \<not> Owned v) vs)"
    "\<exists>ys. rn_Variables r' = rn_Variables r @ ys \<and> map mva_Name ys = map scv_Name (filter Owned vs) \<and> (\<forall>v\<in>set ys. mva_Labels v = owned)"
    "rn_Volumes r' = rn_Volumes r \<and> rn_Workloads r' = rn_Workloads r \<and> rn_Services r' = rn_Services r
      \<and> rn_Secrets r' = rn_Secrets r \<and> rn_Name r' = rn_Name r \<and> rn_Release r' = rn_Release r"
  using assms
proof (induction vs arbitrary: r)
  case Nil
  {
    case 1 then show ?case using Nil by simp
  next
    case 2 then show ?case using Nil by simp
  next
    case 3 then show ?case using Nil by simp
  }
next
  case (Cons v vs)
  {
    case 1 then show ?case using Cons.IH(1) by (auto split: if_splits sum.splits)
  next
    case 2
    show ?case
    proof (cases "Owned v")
      case True
      then obtain out where "render_variables env owned vs (r\<lparr>rn_Variables := rn_Variables r
          @ [\<lparr>mva_Name = scv_Name v, mva_Value = out, mva_Labels = owned\<rparr>]\<rparr>) = (r', None)"
        using 2 by (auto split: sum.splits)
      from Cons.IH(2) [OF this] show ?thesis using True by auto
    next
      case False
      then show ?thesis using Cons.IH(2) [of "r\<lparr>rn_Required := rn_Required r @ [scv_Name v]\<rparr>"] 2 by simp
    qed
  next
    case 3 then show ?case using Cons.IH(3) by (auto split: if_splits sum.splits)
  }
qed

lemma validateVariables_ok: "validateVariables vs seen = None \<Longrightarrow> distinct (map scv_Name vs) \<and> set seen \<inter> scv_Name ` set vs = {}"
proof (induction vs arbitrary: seen)
  case (Cons v vs)
  then have "validateVariables vs (scv_Name v # seen) = None" "scv_Name v \<notin> set seen"
    by (auto split: option.splits if_splits)
  with Cons.IH [of "scv_Name v # seen"] show ?case by auto
qed simp

lemma Render_ok:
  assumes "Render env score name = (r, None)"
  defines "owned \<equiv> score_labels name (sc_Release score)"
  shows "rn_Name r = name" "rn_Release r = sc_Release score" "rn_Secrets r = map scs_Name (sc_Secrets score)"
    "rn_Required r = map scv_Name (filter (\<lambda>v. \<not> Owned v) (sc_Variables score))"
    "map mva_Name (rn_Variables r) = map scv_Name (filter Owned (sc_Variables score))"
    "\<forall>v\<in>set (rn_Variables r). mva_Labels v = owned"
    "distinct (map vom_Name (rn_Volumes r)) \<and> (\<forall>v\<in>set (rn_Volumes r). stamped owned (volume_kind env) v)"
    "distinct (map spec_Name (rn_Workloads r)) \<and> (\<forall>w\<in>set (rn_Workloads r). stamped owned (workload_kind env) w)"
    "distinct (map svm_Name (rn_Services r)) \<and> (\<forall>v\<in>set (rn_Services r). stamped owned (service_kind env) v)"
proof -
  let ?env = "read_from env score"
  obtain v w u where v: "render_each ?env owned (volume_kind env) (sc_Volumes score) (start_kind []) = (v, None)"
    and w: "render_each ?env owned (workload_kind env) (sc_Workloads score) (start_kind (pr_documents v)) = (w, None)"
    and u: "render_each ?env owned (service_kind env) (sc_Services score) (start_kind (pr_documents w)) = (u, None)"
    and vars: "render_variables ?env owned (sc_Variables score) (empty_rendered\<lparr>rn_Name := name, rn_Release := sc_Release score,
        rn_Package := sc_Name score, rn_Secrets := map scs_Name (sc_Secrets score), rn_Volumes := pr_manifests v,
        rn_Workloads := pr_manifests w, rn_Services := pr_manifests u, rn_Documents := pr_documents u\<rparr>) = (r, None)"
    using assms(1) by (auto simp: Render_def Let_def owned_def split: option.splits prod.splits if_splits)
  have ok: "produced_ok owned (volume_kind env) v" "produced_ok owned (workload_kind env) w" "produced_ok owned (service_kind env) u"
    using render_each_ok [OF kinds_ok(1) start_kind_ok] render_each_ok [OF kinds_ok(2) start_kind_ok]
      render_each_ok [OF kinds_ok(3) start_kind_ok] v w u by (metis fst_conv)+
  note r = render_variables_ok [OF vars]
  show "rn_Name r = name" "rn_Release r = sc_Release score" "rn_Secrets r = map scs_Name (sc_Secrets score)"
    "rn_Required r = map scv_Name (filter (\<lambda>v. \<not> Owned v) (sc_Variables score))"
    "map mva_Name (rn_Variables r) = map scv_Name (filter Owned (sc_Variables score))"
    "\<forall>v\<in>set (rn_Variables r). mva_Labels v = owned"
    using r by (auto simp: empty_rendered_def)
  show "distinct (map vom_Name (rn_Volumes r)) \<and> (\<forall>v\<in>set (rn_Volumes r). stamped owned (volume_kind env) v)"
    "distinct (map spec_Name (rn_Workloads r)) \<and> (\<forall>w\<in>set (rn_Workloads r). stamped owned (workload_kind env) w)"
    "distinct (map svm_Name (rn_Services r)) \<and> (\<forall>v\<in>set (rn_Services r). stamped owned (service_kind env) v)"
    using r(3) ok by (simp_all add: produced_ok_def volume_kind_def workload_kind_def service_kind_def)
qed

text \<open>What a manifest that parsed and was stamped is made of.\<close>

lemma Parsed:
  "ParseVolume d = Inr v \<Longrightarrow> ValidateVolume v = None" "ParseWorkload ps d' = Inr w \<Longrightarrow> ValidateWorkload ps w = None"
  "ParseService d'' = Inr u \<Longrightarrow> ValidateService u = None"
  by (auto simp: ParseVolume_def ParseWorkload_def ParseService_def split: sum.splits option.splits)

lemma stamped_volume:
  "stamped owned (volume_kind env) v \<Longrightarrow> \<exists>v0. ValidateVolume v0 = None \<and> v = v0\<lparr>vom_Labels := vom_Labels v0 @ owned\<rparr>
    \<and> fst ` set owned \<inter> fst ` set (vom_Labels v0) = {}"
  unfolding stamped_def by (auto simp: volume_kind_def dest: Parsed)

lemma stamped_workload:
  "stamped owned (workload_kind env) w \<Longrightarrow> \<exists>w0. ValidateWorkload (re_parsers env) w0 = None
    \<and> w = w0\<lparr>spec_Labels := spec_Labels w0 @ owned\<rparr> \<and> fst ` set owned \<inter> fst ` set (spec_Labels w0) = {}"
  unfolding stamped_def by (auto simp: workload_kind_def dest: Parsed)

lemma stamped_service:
  "stamped owned (service_kind env) v \<Longrightarrow> \<exists>v0. ValidateService v0 = None \<and> v = v0\<lparr>svm_Labels := svm_Labels v0 @ owned\<rparr>
    \<and> fst ` set owned \<inter> fst ` set (svm_Labels v0) = {}"
  unfolding stamped_def by (auto simp: service_kind_def dest: Parsed)

section \<open>Paths\<close>

text \<open>A double dot that is kept is kept for good, so a path without one never goes above where it starts.\<close>

lemma clean_step_kept: "''..'' \<notin> set (clean_step False xs e) \<Longrightarrow> ''..'' \<notin> set xs \<and> (e = ''..'' \<longrightarrow> xs \<noteq> [])"
  by (cases xs) (auto split: if_splits)

lemma clean_step_from:
  "''..'' \<notin> set xs \<Longrightarrow> (e = ''..'' \<longrightarrow> xs \<noteq> []) \<Longrightarrow> clean_step rooted (xs @ acc) e = clean_step False xs e @ acc"
  by (cases xs) auto

lemma foldl_clean_from:
  assumes "''..'' \<notin> set (foldl (clean_step False) [] es)"
  shows "foldl (clean_step rooted) acc es = foldl (clean_step False) [] es @ acc"
  using assms
proof (induction es rule: rev_induct)
  case (snoc e es)
  then have "''..'' \<notin> set (foldl (clean_step False) [] es) \<and> (e = ''..'' \<longrightarrow> foldl (clean_step False) [] es \<noteq> [])"
    using clean_step_kept by (simp del: clean_step.simps)
  then show ?case using snoc.IH clean_step_from by (simp del: clean_step.simps)
qed simp

lemma split_slash_concat: "split_slash (dir @ CHR ''/'' # path) = split_slash dir @ split_slash path"
  by (induction dir) (auto split: list.splits)

text \<open>Double dots stand first among the elements of a relative path.\<close>

lemma ups_step:
  "''..'' \<notin> set xs \<Longrightarrow> \<exists>n' xs'. clean_step False (xs @ replicate n ''..'') e = xs' @ replicate n' ''..'' \<and> ''..'' \<notin> set xs'"
proof -
  assume xs: "''..'' \<notin> set xs"
  consider "e = [] \<or> e = ''.''" | "e = ''..''" "xs = []" | x ys where "e = ''..''" "xs = x # ys" | "e \<noteq> []" "e \<noteq> ''.''" "e \<noteq> ''..''"
    by (cases xs) auto
  then show ?thesis
  proof cases
    case 1
    then show ?thesis using xs by (intro exI [of _ n] exI [of _ xs]) auto
  next
    case 2
    then show ?thesis by (intro exI [of _ "Suc n"] exI [of _ "[]"]) (cases n; simp)
  next
    case (3 x ys)
    then show ?thesis using xs by (intro exI [of _ n] exI [of _ ys]) auto
  next
    case 4
    then show ?thesis using xs by (intro exI [of _ n] exI [of _ "e # xs"]) auto
  qed
qed

lemma ups_first: "\<exists>n xs. foldl (clean_step False) [] es = xs @ replicate n ''..'' \<and> ''..'' \<notin> set xs"
proof (induction es rule: rev_induct)
  case (snoc e es)
  then show ?case using ups_step by (auto simp del: clean_step.simps)
qed (auto intro: exI [of _ 0])

section \<open>Merged values\<close>

primrec wf_value :: "any \<Rightarrow> bool" where
  "wf_value (Mapping m) \<longleftrightarrow> distinct (map fst m) \<and> list_all snd (map (map_prod (\<lambda>k. k) wf_value) m)"
| "wf_value (Other_Value x) \<longleftrightarrow> True"

text \<open>The value at a path, and whether a set of values has nothing to say of that path.\<close>

fun value_at :: "string list \<Rightarrow> any \<Rightarrow> any option" where
  "value_at [] v = Some v"
| "value_at (k # p) (Mapping m) = (case map_of m k of None \<Rightarrow> None | Some v \<Rightarrow> value_at p v)"
| "value_at (k # p) (Other_Value x) = None"

fun silent_on :: "string list \<Rightarrow> any \<Rightarrow> bool" where
  "silent_on [] v = False"
| "silent_on (k # p) (Mapping m) = (case map_of m k of None \<Rightarrow> True | Some v \<Rightarrow> silent_on p v)"
| "silent_on (k # p) (Other_Value x) = False"

definition merge_one :: "any option \<Rightarrow> any \<Rightarrow> any" where
  "merge_one ours theirs = (case theirs of
       Other_Value x \<Rightarrow> theirs
     | Mapping t \<Rightarrow> (case ours of Some (Mapping m) \<Rightarrow> Mapping (merge_values m t) | _ \<Rightarrow> theirs))"

lemma map_of_merge:
  "distinct (map fst other) \<Longrightarrow> map_of (merge_values v other) k
    = (case map_of other k of None \<Rightarrow> map_of v k | Some theirs \<Rightarrow> Some (merge_one (map_of v k) theirs))"
proof (induction v other rule: merge_values.induct)
  case (2 v key x other)
  then have "map_of other key = None" by (simp add: map_of_eq_None_iff)
  then show ?case using 2 by (auto simp: update_conv' merge_one_def split: option.split)
next
  case (3 v key theirs other)
  then have "map_of other key = None" by (simp add: map_of_eq_None_iff)
  then show ?case using 3 by (cases "key = k") (auto simp: update_conv' merge_one_def split: option.split any.split)
qed simp

lemma wf_value_of: "wf_value (Mapping m) \<Longrightarrow> map_of m k = Some v \<Longrightarrow> wf_value v"
  by (auto simp: list_all_iff dest!: map_of_SomeD)

lemma merged_value:
  "wf_value (Mapping other) \<Longrightarrow> value_at p (Mapping (merge_values v other)) = Some (Other_Value x)
    \<longleftrightarrow> value_at p (Mapping other) = Some (Other_Value x)
      \<or> value_at p (Mapping v) = Some (Other_Value x) \<and> silent_on p (Mapping other)"
proof (induction p arbitrary: v other)
  case (Cons k p)
  have map: "map_of (merge_values v other) k
      = (case map_of other k of None \<Rightarrow> map_of v k | Some theirs \<Rightarrow> Some (merge_one (map_of v k) theirs))"
    using Cons.prems by (intro map_of_merge) simp
  show ?case
  proof (cases "map_of other k")
    case None
    then show ?thesis by (simp add: map split: option.split)
  next
    case (Some theirs)
    show ?thesis
    proof (cases theirs)
      case (Mapping t)
      then have "wf_value (Mapping t)" using wf_value_of [OF Cons.prems Some] by simp
      note IH = Cons.IH [OF this]
      show ?thesis
      proof (cases "map_of v k")
        case None
        then show ?thesis by (simp add: map Some Mapping merge_one_def)
      next
        case ours: (Some m)
        show ?thesis
        proof (cases m)
          case (Other_Value y)
          then show ?thesis by (cases p) (simp_all add: map Some Mapping ours merge_one_def)
        next
          case m: (Mapping ms)
          show ?thesis by (simp add: map Some Mapping ours m merge_one_def IH)
        qed
      qed
    next
      case (Other_Value y)
      then show ?thesis by (cases p) (auto simp: map Some merge_one_def split: option.split)
    qed
  qed
qed simp

section \<open>Properties\<close>

text \<open>A score of one workload, with a renderer that knows its file.\<close>

definition example_rendering :: "string_map \<Rightarrow> renderer" where
  "example_rendering labels = \<lparr>re_read = (\<lambda>p. Inr p), re_execute = (\<lambda>n t. Inr t), re_isEmpty = (\<lambda>t. Inr (t = [])),
     re_volume = (\<lambda>t. Inl (ErrMsg ''no volume'')), re_workload = (\<lambda>t. Inr (example_web\<lparr>spec_Labels := labels\<rparr>)),
     re_service = (\<lambda>t. Inl (ErrMsg ''no service'')), re_parsers = example_parsers\<rparr>"

definition example_score_file :: Score where
  "example_score_file = \<lparr>sc_Version = ''v1'', sc_Name = ''shop'', sc_Release = ''1'', sc_Volumes = [],
     sc_Workloads = [''web.yaml''], sc_Services = [],
     sc_Variables = [\<lparr>scv_Name = ''conf'', scv_File = [], scv_Value = ''x''\<rparr>, \<lparr>scv_Name = ''dsn'', scv_File = [], scv_Value = []\<rparr>],
     sc_Secrets = [\<lparr>scs_Name = ''tls''\<rparr>], sc_Directory = ''/srv/shop''\<rparr>"

text \<open>
  C19. What renders is well formed. A valid score that renders names no resource of one kind twice; every
  manifest passed the validation of its kind, with labels of its own that the two labels of the score were
  added to; the variables are those the score gives a value, and the others are required.
\<close>

theorem rendered_well_formed:
  assumes "ValidateScore score = None" "Render env score name = (r, None)"
  shows "distinct (rendered_nodes r) \<and> rendered_Labels r = score_labels name (sc_Release score)
    \<and> (\<forall>v\<in>set (rn_Volumes r). \<exists>v0. ValidateVolume v0 = None \<and> v = v0\<lparr>vom_Labels := vom_Labels v0 @ rendered_Labels r\<rparr>
        \<and> map_of (vom_Labels v0) LabelName = None \<and> map_of (vom_Labels v0) LabelRelease = None)
    \<and> (\<forall>w\<in>set (rn_Workloads r). \<exists>w0. ValidateWorkload (re_parsers env) w0 = None
        \<and> w = w0\<lparr>spec_Labels := spec_Labels w0 @ rendered_Labels r\<rparr>
        \<and> map_of (spec_Labels w0) LabelName = None \<and> map_of (spec_Labels w0) LabelRelease = None)
    \<and> (\<forall>v\<in>set (rn_Services r). \<exists>v0. ValidateService v0 = None \<and> v = v0\<lparr>svm_Labels := svm_Labels v0 @ rendered_Labels r\<rparr>
        \<and> map_of (svm_Labels v0) LabelName = None \<and> map_of (svm_Labels v0) LabelRelease = None)
    \<and> (\<forall>v\<in>set (rn_Variables r). mva_Labels v = rendered_Labels r)
    \<and> mva_Name ` set (rn_Variables r) = {scv_Name v |v. v \<in> set (sc_Variables score) \<and> Owned v}
    \<and> set (rn_Required r) = {scv_Name v |v. v \<in> set (sc_Variables score) \<and> \<not> Owned v}"
proof -
  note ok = Render_ok [OF assms(2)]
  have labels: "rendered_Labels r = score_labels name (sc_Release score)" by (simp add: rendered_Labels_def ok(1,2))
  have own: "fst ` set (score_labels name (sc_Release score)) \<inter> fst ` set l = {}
      \<longleftrightarrow> map_of l LabelName = None \<and> map_of l LabelRelease = None" for l
    by (auto simp: score_labels_def map_of_eq_None_iff)
  have "distinct (map scv_Name (sc_Variables score))"
    using assms(1) validateVariables_ok by (auto simp: ValidateScore_def accepts)
  then have names: "distinct (map mva_Name (rn_Variables r))" unfolding ok(5) by (rule distinct_map_filter)
  have "distinct (rendered_nodes r)"
    using ok(7-9) names by (auto simp: rendered_nodes_def distinct_map inj_on_def)
  moreover have "\<exists>v0. ValidateVolume v0 = None \<and> v = v0\<lparr>vom_Labels := vom_Labels v0 @ rendered_Labels r\<rparr>
        \<and> map_of (vom_Labels v0) LabelName = None \<and> map_of (vom_Labels v0) LabelRelease = None"
    if "v \<in> set (rn_Volumes r)" for v
    using that ok(7) stamped_volume own unfolding labels by metis
  moreover have "\<exists>w0. ValidateWorkload (re_parsers env) w0 = None \<and> w = w0\<lparr>spec_Labels := spec_Labels w0 @ rendered_Labels r\<rparr>
        \<and> map_of (spec_Labels w0) LabelName = None \<and> map_of (spec_Labels w0) LabelRelease = None"
    if "w \<in> set (rn_Workloads r)" for w
    using that ok(8) stamped_workload own unfolding labels by metis
  moreover have "\<exists>v0. ValidateService v0 = None \<and> v = v0\<lparr>svm_Labels := svm_Labels v0 @ rendered_Labels r\<rparr>
        \<and> map_of (svm_Labels v0) LabelName = None \<and> map_of (svm_Labels v0) LabelRelease = None"
    if "v \<in> set (rn_Services r)" for v
    using that ok(9) stamped_service own unfolding labels by metis
  moreover have "mva_Name ` set (rn_Variables r) = {scv_Name v |v. v \<in> set (sc_Variables score) \<and> Owned v}"
    using arg_cong [OF ok(5), of set] by auto
  moreover have "set (rn_Required r) = {scv_Name v |v. v \<in> set (sc_Variables score) \<and> \<not> Owned v}"
    by (auto simp: ok(4))
  ultimately show ?thesis using ok(6) labels by simp
qed

definition example_rendered :: Rendered where
  "example_rendered = fst (Render (example_rendering [(''app'', ''web'')]) example_score_file ''shop'')"

lemma example_renders: "Render (example_rendering [(''app'', ''web'')]) example_score_file ''shop'' = (example_rendered, None)"
proof -
  have "snd (Render (example_rendering [(''app'', ''web'')]) example_score_file ''shop'') = None" by code_simp
  then show ?thesis by (simp add: example_rendered_def prod_eq_iff)
qed

lemma example_score_valid: "ValidateScore example_score_file = None"
  by code_simp

theorem rendered_well_formed_witness:
  "distinct (rendered_nodes example_rendered) \<and> rendered_Labels example_rendered = score_labels ''shop'' ''1''"
  using rendered_well_formed [OF example_score_valid example_renders] by (simp add: example_score_file_def)

text \<open>
  C25. A manifest may pass its validation and be refused by the server for the labels it was stamped with. A
  workload with more than thirty labels of its own is rendered without an error, and carries more labels than
  a workload may; the apply of what was rendered is refused by every server in every state, and stores nothing.
\<close>

theorem stamped_labels_refused:
  assumes "Render env score name = (r, None)" "w \<in> set (rn_Workloads r)"
    and "length (filter (\<lambda>l. fst l \<notin> {LabelName, LabelRelease}) (spec_Labels w)) > 30"
  shows "\<exists>e. run_state (Apply sv w ifMatch) s = (Inl e, s)"
proof -
  obtain w0 where w: "w = w0\<lparr>spec_Labels := spec_Labels w0 @ score_labels name (sc_Release score)\<rparr>"
    "fst ` set (score_labels name (sc_Release score)) \<inter> fst ` set (spec_Labels w0) = {}"
    using Render_ok(8) [OF assms(1)] assms(2) stamped_workload by metis
  have "\<forall>l\<in>set (spec_Labels w0). fst l \<notin> {LabelName, LabelRelease}" using w(2) by (force simp: score_labels_def)
  then have "filter (\<lambda>l. fst l \<notin> {LabelName, LabelRelease}) (spec_Labels w) = spec_Labels w0"
    by (simp add: w(1) score_labels_def)
  then have "length (spec_Labels (Defaults w)) > maxLabels"
    using assms(3) w(1) by (simp add: Defaults_def score_labels_def maxLabels_def)
  then have "ValidateLabels (spec_Labels (Defaults w)) \<noteq> None"
    by (simp add: accepts wf_labels_def)
  then have "ValidateWorkload (sv_parsers sv) (Defaults w) \<noteq> None" by (auto simp: ValidateWorkload_def accepts)
  then obtain e where "service_resolve sv (ss_db s) w = Inl e"
    by (cases "RuntimeOf (Defaults w)") (auto simp: service_resolve_def Let_def)
  then show ?thesis by (simp add: Apply_def run_state_bind)
qed

text \<open>Thirty-one labels.\<close>

definition example_many :: string_map where
  "example_many = map (\<lambda>c. ([c], ''x'')) ''01234abcdefghijklmnopqrstuvwxyz''"

definition example_overflowing :: Rendered where
  "example_overflowing = fst (Render (example_rendering example_many) example_score_file ''shop'')"

theorem stamped_labels_refused_witness:
  "snd (Render (example_rendering example_many) example_score_file ''shop'') = None
    \<and> (\<exists>w e. w \<in> set (rn_Workloads example_overflowing) \<and> run_state (Apply example_service w 0) example_state = (Inl e, example_state))"
proof -
  have "case Render (example_rendering example_many) example_score_file ''shop'' of (r, e) \<Rightarrow> e = None
      \<and> list_ex (\<lambda>w. length (filter (\<lambda>l. fst l \<notin> {LabelName, LabelRelease}) (spec_Labels w)) > 30) (rn_Workloads r)"
    by code_simp
  then have run: "Render (example_rendering example_many) example_score_file ''shop'' = (example_overflowing, None)"
    and many: "list_ex (\<lambda>w. length (filter (\<lambda>l. fst l \<notin> {LabelName, LabelRelease}) (spec_Labels w)) > 30) (rn_Workloads example_overflowing)"
    by (simp_all add: example_overflowing_def split_beta prod_eq_iff)
  from many show ?thesis using stamped_labels_refused [OF run] run by (auto simp: list_ex_iff)
qed

text \<open>
  A path of a score is accepted exactly when it names something, is relative, and cleans to elements without a
  double dot; joined to a directory it then cleans to the elements of the directory followed by its own.
\<close>

lemma path_inside:
  "(validatePath path = None \<longleftrightarrow> path \<noteq> [] \<and> \<not> IsAbs path \<and> ''..'' \<notin> set (clean_elements path))
    \<and> (validatePath path = None \<and> dir \<noteq> [] \<longrightarrow>
        clean_elements (dir @ ''/'' @ path) = clean_elements dir @ clean_elements path)"
proof -
  let ?xs = "foldl (clean_step False) [] (split_slash path)"
  have up: "Clean path = ''..'' \<or> HasPrefix (Clean path) ''../'' \<longleftrightarrow> ''..'' \<in> set (clean_elements path)" if rel: "\<not> IsAbs path"
  proof -
    have els: "clean_elements path = rev ?xs" using rel by (simp add: clean_elements_def)
    obtain n xs where xs: "?xs = xs @ replicate n ''..''" "''..'' \<notin> set xs" using ups_first by blast
    have plain: "list_all plain_element (rev xs)" using clean_elements_plain [of path] by (simp add: els xs(1) list_all_iff)
    show ?thesis
    proof (cases n)
      case 0
      have "\<not> (Clean path = ''..'' \<or> HasPrefix (Clean path) ''../'')"
      proof (cases "rev xs")
        case Nil
        then show ?thesis using rel by (simp add: Clean_def els xs(1) 0 render_path_def)
      next
        case (Cons e es)
        have e: "e \<noteq> ''..''" "CHR ''/'' \<notin> set e" "e \<noteq> []" using plain xs(2) Cons by (auto simp: plain_element_def)
        have "Clean path = e @ (case es of [] \<Rightarrow> [] | _ \<Rightarrow> ''/'' @ join_with ''/'' es)"
          using rel by (cases es) (simp_all add: Clean_def els xs(1) 0 render_path_def Cons)
        then show ?thesis using e by (cases e; cases "tl e"; cases "tl (tl e)") (auto split: list.splits)
      qed
      then show ?thesis using xs 0 by (simp add: els)
    next
      case (Suc m)
      have "rev ?xs = ''..'' # (replicate m ''..'' @ rev xs)" by (subst xs(1)) (simp only: rev_append rev_replicate, simp only: Suc replicate_Suc append_Cons)
      then obtain rest where rest: "clean_elements path = ''..'' # rest" unfolding els by blast
      have "Clean path = ''..'' @ (if rest = [] then [] else ''/'' @ join_with ''/'' rest)"
        using rel by (cases rest) (simp_all add: Clean_def rest render_path_def)
      then show ?thesis by (auto simp: rest)
    qed
  qed
  then have accepted: "validatePath path = None \<longleftrightarrow> path \<noteq> [] \<and> \<not> IsAbs path \<and> ''..'' \<notin> set (clean_elements path)"
    by (auto simp: validatePath_def)
  moreover have "clean_elements (dir @ ''/'' @ path) = clean_elements dir @ clean_elements path"
    if "validatePath path = None" "dir \<noteq> []"
  proof -
    have rel: "\<not> IsAbs path" "''..'' \<notin> set (clean_elements path)" using that(1) accepted by simp_all
    then have "IsAbs path = False" "''..'' \<notin> set ?xs" by (simp_all add: clean_elements_def)
    moreover note foldl_clean_from [OF this(2), of "IsAbs dir" "foldl (clean_step (IsAbs dir)) [] (split_slash dir)"]
    moreover have "IsAbs (dir @ ''/'' @ path) = IsAbs dir" using that(2) by (cases dir) (simp_all add: IsAbs_def)
    moreover have "split_slash (dir @ ''/'' @ path) = split_slash dir @ split_slash path" using split_slash_concat [of dir path] by simp
    ultimately show ?thesis
      unfolding clean_elements_def by (simp only: foldl_append rev_append)
  qed
  ultimately show ?thesis by blast
qed

text \<open>A name below a directory: its elements, and then elements that do not lead up again.\<close>

definition below :: "string \<Rightarrow> string \<Rightarrow> bool" where
  "below dir q \<longleftrightarrow> (\<exists>es. list_all plain_element es \<and> ''..'' \<notin> set es \<and> q = render_path (IsAbs dir) (clean_elements dir @ es))"

lemma joined_below:
  assumes "validatePath path = None"
  shows "below dir (join_paths dir path)"
proof -
  note p = path_inside [of path dir] assms
  have "IsAbs (dir @ ''/'' @ path) = IsAbs dir" if "dir \<noteq> []" using that by (cases dir) (simp_all add: IsAbs_def)
  moreover have "clean_elements [] = []" "\<not> IsAbs []" by (simp_all add: clean_elements_def IsAbs_def)
  ultimately show ?thesis
    unfolding below_def using p clean_elements_plain [of path]
    by (intro exI [of _ "clean_elements path"]) (auto simp: join_paths_def Clean_def)
qed

definition score_files :: "Score \<Rightarrow> string set" where
  "score_files score = set (sc_Volumes score) \<union> set (sc_Workloads score) \<union> set (sc_Services score)
     \<union> {scv_File v |v. v \<in> set (sc_Variables score) \<and> scv_File v \<noteq> []}"

lemma paths_accepted: "validatePaths score = None \<longleftrightarrow> (\<forall>path\<in>score_files score. validatePath path = None)"
  by (auto simp: validatePaths_def score_files_def accepts)

lemma render_each_reads:
  assumes "\<And>path. path \<in> set paths \<Longrightarrow> other path = re_read env path"
  shows "render_each (env\<lparr>re_read := other\<rparr>) owned kind paths p = render_each env owned kind paths p"
  using assms
proof (induction paths arbitrary: p)
  case (Cons path paths)
  have "each_document (env\<lparr>re_read := other\<rparr>) owned kind path ds p = each_document env owned kind path ds p" for ds p
    by (induction ds arbitrary: p) (auto simp: Let_def split: sum.split option.split)
  then show ?case using Cons by (auto simp: render_file_def split: sum.split option.split prod.split)
qed simp

lemma render_variables_reads:
  assumes "\<And>v. v \<in> set vs \<Longrightarrow> scv_File v \<noteq> [] \<Longrightarrow> other (scv_File v) = re_read env (scv_File v)"
  shows "render_variables (env\<lparr>re_read := other\<rparr>) owned vs r = render_variables env owned vs r"
  using assms
proof (induction vs arbitrary: r)
  case (Cons v vs)
  have "render_value (env\<lparr>re_read := other\<rparr>) v = render_value env v"
    using Cons.prems by (auto simp: render_value_def split: sum.split)
  then show ?case using Cons by (auto split: sum.split)
qed simp

text \<open>
  C24. A score reads no file outside its directory. Whatever the host holds elsewhere, a valid score renders the
  same: two hosts that agree on every name below the directory of the score, its elements followed by elements
  none of which leads up again, render it to the same result, errors and documents included. That is of names;
  a symbolic link below the directory is the host's to follow.
\<close>

theorem score_files_inside:
  assumes "ValidateScore score = None" "\<And>q. below (sc_Directory score) q \<Longrightarrow> other q = re_read host q"
  shows "Render (host\<lparr>re_read := other\<rparr>) score name = Render host score name"
proof -
  let ?in = "join_paths (sc_Directory score)"
  have "validatePaths score = None" using assms(1) by (simp add: ValidateScore_def accepts)
  then have same: "other (?in path) = re_read host (?in path)" if "path \<in> score_files score" for path
    using that joined_below assms(2) by (simp add: paths_accepted)
  have from_other: "read_from (host\<lparr>re_read := other\<rparr>) score = (read_from host score)\<lparr>re_read := \<lambda>path. other (?in path)\<rparr>"
    by (simp add: read_from_def)
  have kinds: "volume_kind (host\<lparr>re_read := other\<rparr>) = volume_kind host" "workload_kind (host\<lparr>re_read := other\<rparr>) = workload_kind host"
    "service_kind (host\<lparr>re_read := other\<rparr>) = service_kind host"
    by (simp_all add: volume_kind_def workload_kind_def service_kind_def)
  have each: "render_each (read_from (host\<lparr>re_read := other\<rparr>) score) owned kind paths p = render_each (read_from host score) owned kind paths p"
    if "set paths \<subseteq> score_files score" for owned paths p and kind :: "'r manifest_kind"
    unfolding from_other by (rule render_each_reads) (use that same in \<open>auto simp: read_from_def\<close>)
  have vars: "render_variables (read_from (host\<lparr>re_read := other\<rparr>) score) owned (sc_Variables score) r
      = render_variables (read_from host score) owned (sc_Variables score) r" for owned r
    unfolding from_other by (rule render_variables_reads) (use same in \<open>auto simp: read_from_def score_files_def\<close>)
  have listed: "set (sc_Volumes score) \<subseteq> score_files score" "set (sc_Workloads score) \<subseteq> score_files score"
    "set (sc_Services score) \<subseteq> score_files score"
    by (auto simp: score_files_def)
  show ?thesis
    unfolding Render_def Let_def kinds_from kinds vars each [OF listed(1)] each [OF listed(2)] each [OF listed(3)] ..
qed

theorem score_files_inside_witness:
  "Render ((example_rendering [])\<lparr>re_read := \<lambda>q. if HasPrefix q ''/srv/shop'' then Inr q else Inl (ErrMsg ''no such file'')\<rparr>)
      example_score_file ''shop''
    = Render (example_rendering []) example_score_file ''shop''"
proof (rule score_files_inside [OF example_score_valid])
  fix q assume "below (sc_Directory example_score_file) q"
  moreover have "clean_elements ''/srv/shop'' = [''srv'', ''shop'']" by code_simp
  ultimately obtain es where "q = ''/'' @ join_with ''/'' (''srv'' # ''shop'' # es)"
    by (auto simp: below_def example_score_file_def render_path_def IsAbs_def)
  then show "(if HasPrefix q ''/srv/shop'' then Inr q else Inl (ErrMsg ''no such file'')) = re_read (example_rendering []) q"
    by (cases es) (simp_all add: example_rendering_def)
qed

lemma merge_files_snoc:
  "merge_files readValues (fs @ [f]) v0 = (case merge_files readValues fs v0 of
     Inl e \<Rightarrow> Inl e | Inr earlier \<Rightarrow> map_sum (\<lambda>e. e) (merge_values earlier) (readValues f))"
  by (induction fs arbitrary: v0) (auto split: sum.split)

text \<open>
  The last file that speaks of a value decides it. A path holds a value in the merged values exactly when
  it holds it in the last file given, or holds it in what was merged before and the last file is silent on
  the path: neither the path nor a part of it that is no mapping is set there.
\<close>

lemma last_file_wins:
  assumes "score_Values readValues defaults score (files @ [f]) = Inr v" "readValues f = Inr latest" "wf_value (Mapping latest)"
  shows "\<exists>earlier. score_Values readValues defaults score files = Inr earlier
    \<and> (\<forall>p x. value_at p (Mapping v) = Some (Other_Value x) \<longleftrightarrow> value_at p (Mapping latest) = Some (Other_Value x)
        \<or> value_at p (Mapping earlier) = Some (Other_Value x) \<and> silent_on p (Mapping latest))"
proof -
  obtain v0 where v0: "score_Values readValues defaults score fs = merge_files readValues fs v0" for fs
    using assms(1) by (cases "sc_Directory score = []"; cases defaults) (auto simp: score_Values_def split: option.splits)
  obtain earlier where "merge_files readValues files v0 = Inr earlier" "v = merge_values earlier latest"
    using assms(1,2) by (auto simp: v0 merge_files_snoc split: sum.splits)
  then show ?thesis using merged_value [OF assms(3)] by (simp add: v0)
qed

end
