(* ===== verification/Spec2Isabelle.thy ===== *)
theory Spec2Isabelle
  imports
    Manifest
    Driver
    Workload_State
    Health_Check
    Validated_Specs
    Reconciler_Lifecycle
    Reconciler_Pacing
    Reconciler_Steady
    Reconciler_Server
    Workload_Reapply
    Workload_Rehash
    Access_Properties
    View_Properties
    Versioned_Writes
    Mount_Properties
    Score_Properties
    Score_Refusal
    Score_Rendering
begin

text \<open>
  A model of takt, a single-node workload orchestrator written in Go, with the theorems that make it
  correct. File names below are relative to the repository; \<open>server\<close> is \<open>internal/server\<close>.

  \<^bold>\<open>The program.\<close> A user writes a manifest and applies it through an HTTP API. The workload service
  resolves the specification (defaults, validation, references to secrets, variables and other workloads,
  the digest of its image), settles its ports on host ports, hashes what results and stores the row. A
  reconciler runs in a loop: it observes what the drivers run, compares it with the stored rows, and starts
  a job for each workload, which starts, replaces, stops or restarts instances one slot at a time. A health
  checker probes the instances on its own schedule and the reconciler reads its verdicts. A score is a
  directory of manifest templates that a client renders, plans in dependency order and applies as one.

  \<^bold>\<open>Theories, in the order of the code's dependencies.\<close>

  \<^item> \<open>Takt_Prelude\<close>: Go errors, times and 64-bit durations, substring tests; the state monad with its
    weakest preconditions; early returns and loops; the locale \<open>frame\<close>, a reflexive and transitive relation
    between states that every composed operation stays within; maps keyed by a slot.
  \<^item> \<open>Go_Path\<close>, \<open>Go_Strconv\<close>, \<open>Go_Text\<close>: what the program uses of Go's path, strconv, utf8 and url packages.
  \<^item> \<open>Manifest_Reference\<close> (\<open>pkg/manifest/reference.go\<close>): the reference grammar. \<open>Manifest\<close>
    (\<open>pkg/manifest/workload.go\<close>): specifications, defaults, what a specification reads. The record types keep
    the fields of the Go structs, prefixed; maps are association lists and nil pointers are \<open>None\<close>.
    \<open>Manifest_Validation\<close>: every rule of \<open>ValidateWorkload\<close>, and what an accepted specification satisfies.
  \<^item> \<open>Driver\<close> (\<open>server/driver/driver.go\<close>, rows of \<open>server/database\<close>): the vocabulary shared with the
    runtimes and the host path allow-list. \<open>Workload_State\<close> (\<open>server/state\<close>). \<open>Ports\<close> (\<open>server/port\<close>,
    \<open>server/database/port.go\<close>): the allocator, the claimer and the table of allocations.
    \<open>Validated_Specs\<close>: what validation guarantees to the claimer and to the health checks.
  \<^item> \<open>Health_Check\<close> (\<open>server/health/health.go\<close>): the checker as a transition system over registrations,
    probes in flight and verdicts.
  \<^item> \<open>Reconciler_State\<close>, \<open>Reconciler_Ops\<close>, \<open>Reconciler_Readiness\<close>, \<open>Reconciler_Health\<close>, \<open>Reconciler_Converge\<close>,
    \<open>Reconciler_Pass\<close> (\<open>server/reconciler\<close>): the reconciler's memory is the record \<open>rstate\<close>, whose trace
    lists the calls it made in order; its collaborators are functions of that trace, so that a collaborator
    may answer differently each time it is asked. The properties are in \<open>Reconciler_Frames\<close> (what an operation
    may touch), \<open>Reconciler_Rollout\<close>, \<open>Reconciler_Lifecycle\<close>, \<open>Reconciler_Pacing\<close>, \<open>Reconciler_Steady\<close> and
    \<open>Reconciler_Server\<close> (passes and the jobs they leave behind, interleaved in any order).
  \<^item> \<open>Workload_Store\<close> (\<open>server/database/workload.go\<close>): the tables of workloads, ports and links as one record;
    a transaction returns the database it was given when it fails. \<open>Address_Resolve\<close>
    (\<open>server/resolve/address.go\<close>): which instance and address a reference reaches, in 32-bit arithmetic.
    \<open>Spec_Hash\<close> (\<open>server/spechash\<close>).
  \<^item> \<open>Workload_Service\<close> (\<open>server/service/workload*.go\<close>): resolving, applying, the dry run, rehashing,
    reallocating, following tags, deleting, stopping, starting, restarting. \<open>Workload_Apply\<close>,
    \<open>Workload_Reapply\<close> and \<open>Workload_Rehash\<close> hold its properties.
  \<^item> \<open>Access_Policy\<close> (\<open>pkg/manifest/policy.go\<close>, \<open>server/auth\<close>, \<open>server/database/policy.go\<close>,
    \<open>server/service/policy.go\<close>): who may call the API. \<open>Access_Token\<close> (\<open>server/database/token.go\<close>,
    \<open>server/service/token.go\<close>, \<open>server/service/auth.go\<close>, \<open>server/middleware/authenticate.go\<close>): the
    credentials, and the way of a request from its credential to the answer. \<open>Access_Control\<close> makes the
    operations on the tokens the steps of a transition system; \<open>Access_Properties\<close> holds what follows.
  \<^item> \<open>Secret_Vault\<close> (\<open>server/secret\<close>, \<open>server/database/secret.go\<close>, \<open>encryption_key.go\<close>,
    \<open>server/service/secret.go\<close>, the rekey of \<open>admin.go\<close> and the key of \<open>server.go\<close>): secrets, the keyring
    on disk and the key they are sealed under. \<open>Secret_Properties\<close> interleaves its operations with crashes.
    \<open>Value_Rotation\<close> (\<open>server/database/variable.go\<close>, \<open>server/service/variable.go\<close> and \<open>Set\<close> of
    \<open>secret.go\<close>): setting a value and rehashing the workloads that read it; \<open>Rotation_Properties\<close>.
  \<^item> \<open>Workload_View\<close> (\<open>server/service/workload_view.go\<close>, \<open>server/query\<close>): what a workload reads as, from its row
    and the instances observed, and listing by queries; \<open>View_Properties\<close>. \<open>Service_Backends\<close>
    (\<open>pkg/manifest/service.go\<close>, \<open>server/database/service.go\<close>, \<open>server/service/service.go\<close>): services, the
    backends they resolve to and the stream of their changes; \<open>Service_Properties\<close>.
  \<^item> \<open>Volumes\<close> (\<open>pkg/manifest/volume.go\<close>, \<open>server/database/volume.go\<close>, \<open>server/service/volume.go\<close>): volumes and
    the directories that back them, with their modes and owners; in \<open>Volume_Properties\<close> applies, deletes, writes
    of workloads and crashes are the steps of a transition system.
  \<^item> \<open>Go_Files\<close>: the host's files as a tree, and the system calls on it, any of which may fail or, for a
    write, stop part-way. \<open>Mounts\<close> (\<open>server/mount/mount.go\<close>): the files of mounted secrets, variables and
    tokens, delivered, refreshed, reclaimed, forgotten and pruned call by call. \<open>Mount_Delivery\<close> holds the
    weakest preconditions of these operations and \<open>Mount_Properties\<close> what follows.
  \<^item> \<open>Score_Plan\<close> (\<open>pkg/score/plan.go\<close>): what a rendered score holds and the order it is applied in; \<open>Score_Order\<close>
    holds the lemmas of that order. \<open>Score_Apply\<close> (\<open>apply.go\<close>, \<open>install.go\<close>): checking, applying, collecting and
    destroying through a client, which is a record of operations on a state of any type; the session lists the
    calls made. \<open>Score_Delivery\<close> has their weakest preconditions, \<open>Score_Properties\<close> what follows. \<open>Score_Render\<close>
    (\<open>score.go\<close>, \<open>values.go\<close>, \<open>render.go\<close>, \<open>summary.go\<close>): from a score file to what it renders;
    \<open>Score_Rendering\<close>. \<open>Score_Server\<close> (\<open>server/api/api.go\<close>, \<open>api_variable.go\<close>, \<open>api_workload.go\<close>): entity tags and the
    handlers that make a client of the model of the server, on which \<open>Score_Refusal\<close> runs an apply.
  \<^item> \<open>Versioned_Writes\<close>: the conditional writes of the five tables that keep a version.

  \<^bold>\<open>What the lemmas show.\<close> References: the parser accepts exactly the grammar and expansion writes back what
  parsing read. Validation: acceptance is a conjunction of stated rules, and those rules are what the claimer
  and the health checks need. Ports: a resolution settles each mapping where it was promised, and the table
  accepts it. Store: the tables stay consistent, a version names one definition, a write touches one row.
  Service: a dry run agrees with the apply, applying again changes nothing, a rotation that is signalled
  replaces nothing, a port is lost only in a race or to a pin of a port of one's own, no change goes unnoticed.
  Reconciler: one instance at a time is replaced and only once the earlier one has settled, jobs exclude each other, a workload that
  matches is left alone, teardown is ordered and forgets, restarts are paced within bounds. Checker: one
  probe at a time for each check, and a verdict is a function of the last outcomes. Access: a request is
  served exactly when the policy grants it, a credential refused once stays refused, sessions end, rotations
  leave no gap, the recovery token goes only by the reset. Secrets: no crash and no failed system call loses
  a value, and a value that is set reaches every workload that reads it or the answer says how many it missed.
  Views and services: a workload reports as running exactly when some instance serves and none has failed,
  a service lists exactly the instances fit to serve, and its stream ends with what is true. Volumes: only a
  delete destroys data, applying again repairs. Mounts: a delivered file holds what is held, a refresh tells
  of exactly what moved, reclaiming leaves one version; what a call that fails part-way leaves, and that a token minted
  by a refresh that fails is not announced. Tables: no conditional write overwrites another.
  Scores: what renders is well formed and depends on no file outside the directory of the score; planning ends, puts everything before what
  reads it, refuses exactly the cycles and does not depend on how the resources are listed; an apply writes
  nothing it has not checked, and removal goes the other way; and where an apply refuses its own writes.

  \<^bold>\<open>Interfaces.\<close> \<open>frame\<close> (above), \<open>allocation\<close> (what the claimer needs of a port allocator, interpreted on
  \<open>Allocate\<close>), \<open>verdict_store\<close> (what the reconciler needs of the checker, interpreted on the checker's
  operations) and \<open>versioned\<close> (a table whose writes may be conditioned on a version, interpreted on the
  workloads, secrets, variables, volumes and services) are locales.

  \<^bold>\<open>Parameters.\<close> What is not in the repository is an argument: the clock, random draws and probes of the
  host, the drivers' answers, the file system, the cron, size and image parsers, JSON, SHA-256, the key
  derivation and the authenticated encryption of secrets (what is sealed opens again), the
  label reads of SQLite's \<open>json_extract\<close>, how each system call is
  answered, the image registry, the identifiers of new rows, what other requests do between two steps of an apply, and, for
  scores, templates, YAML, the files of the score and the client. Loops over data are structural recursion;
  the retries of a lost claim are bounded by the constant five of the code. The planning loop of a score is a
  \<open>while\<close>, and \<open>plan_ends\<close> shows that it ends. No fuel is used.

  \<^bold>\<open>Not modelled.\<close> The drivers themselves (calls to the Docker daemon, processes and cgroups), the HTTP handlers
  other than those a score reaches, generated code, the transport of the client, the command line, metrics and logs, backup and restore, the rendering
  of event messages, database reads that fail where the model's tables are plain lists, and the cancellation of probes by
  a server that shuts down: text and input or output around the operations above. SQL is modelled by its effect on
  the tables, with the constraints of the schema.
\<close>

end
